(* ===== verification/Prelude.thy ===== *)
theory Prelude
  imports Main "HOL-Library.Sublist" "HOL-Library.Word" "HOL-Library.Char_ord"
    "HOL-Library.List_Lexorder"
begin

text \<open>
  Shared vocabulary of the development: the byte and string types, the string operations of
  the Rust standard library that several components use (prefix and substring tests, splitting,
  trimming, joining), UTF-8 character boundaries, and times stored in tables. The collection
  \<open>codec_simps\<close> holds the facts by which a decoder reads back what an encoder wrote.

  A Rust \<open>String\<close> is a sequence of UTF-8 bytes; it is modelled as a \<open>string\<close>, whose
  characters are bytes, so \<open>length\<close> is \<open>str::len\<close> and an index is a byte index.
\<close>

named_theorems codec_simps "reading back what an encoder wrote"

type_synonym byte = "8 word"
type_synonym bytes = "byte list"
type_synonym u16 = "16 word"
type_synonym u32 = "32 word"
type_synonym u64 = "64 word"

section \<open>Strings\<close>

definition byte_of :: "char \<Rightarrow> nat" where
  "byte_of c = of_char c"

definition str_bytes :: "string \<Rightarrow> bytes" where
  "str_bytes s = map of_char s"

lemma length_str_bytes [simp]: "length (str_bytes s) = length s"
  by (simp add: str_bytes_def)

lemma unat_of_char_byte: "unat (of_char c :: byte) = of_char c"
proof -
  have "(of_char c :: nat) < 256" by simp
  then have "unat (of_nat (of_char c) :: byte) = of_char c"
    by (simp only: unat_of_nat) simp
  then show ?thesis by (simp only: of_nat_of_char)
qed

lemma inj_of_char_byte: "inj (of_char :: char \<Rightarrow> byte)"
proof (rule injI)
  fix c d :: char
  assume "(of_char c :: byte) = of_char d"
  then have "(of_char c :: nat) = of_char d"
    by (metis unat_of_char_byte)
  then show "c = d" by simp
qed

lemma str_bytes_inject [simp]: "str_bytes s = str_bytes t \<longleftrightarrow> s = t"
  unfolding str_bytes_def using inj_of_char_byte by (simp add: inj_map_eq_map)

text \<open>\<open>str::contains\<close> with a string pattern.\<close>

fun contains_str :: "string \<Rightarrow> string \<Rightarrow> bool" where
  "contains_str s p = (prefix p s \<or> (case s of [] \<Rightarrow> False | _ # cs \<Rightarrow> contains_str cs p))"

declare contains_str.simps [simp del]

lemma contains_str_sublist: "contains_str s p \<longleftrightarrow> sublist p s"
proof (induction s)
  case Nil
  then show ?case by (simp add: contains_str.simps [of "[]"])
next
  case (Cons c cs)
  then show ?case by (simp add: contains_str.simps [of "c # cs"] sublist_Cons_right)
qed

text \<open>\<open>str::split\<close> with a byte predicate: never empty.\<close>

fun split_on :: "(char \<Rightarrow> bool) \<Rightarrow> string \<Rightarrow> string list" where
  "split_on p [] = [[]]"
| "split_on p (c # cs) =
     (if p c then [] # split_on p cs
      else (case split_on p cs of [] \<Rightarrow> [[c]] | w # ws \<Rightarrow> (c # w) # ws))"

lemma split_on_not_Nil [simp]: "split_on p s \<noteq> []"
  by (induction s) (auto split: list.splits)

lemma split_on_no_sep: "w \<in> set (split_on p s) \<Longrightarrow> c \<in> set w \<Longrightarrow> \<not> p c"
proof (induction s arbitrary: w)
  case Nil
  then show ?case by simp
next
  case (Cons d s)
  from Cons.IH have IH: "\<And>w. w \<in> set (split_on p s) \<Longrightarrow> c \<in> set w \<Longrightarrow> \<not> p c" by blast
  show ?case
    using Cons.prems IH [of "hd (split_on p s)"] IH [of w]
    by (cases "split_on p s") (auto split: if_splits)
qed

text \<open>\<open>path.rsplit('/').next()\<close>: the last component of the split.\<close>

definition last_component :: "string \<Rightarrow> string" where
  "last_component s = last (split_on (\<lambda>c. c = CHR ''/'') s)"

lemma last_component_no_slash: "CHR ''/'' \<notin> set (last_component s)"
  using split_on_no_sep [of "last_component s" "\<lambda>c. c = CHR ''/''" s]
  by (auto simp: last_component_def)

text \<open>\<open>[T]::join\<close>.\<close>

fun join :: "string \<Rightarrow> string list \<Rightarrow> string" where
  "join sep [] = []"
| "join sep [x] = x"
| "join sep (x # y # xs) = x @ sep @ join sep (y # xs)"

text \<open>\<open>str::trim_matches\<close> with one character.\<close>

definition trim_char :: "char \<Rightarrow> string \<Rightarrow> string" where
  "trim_char q s = rev (dropWhile (\<lambda>c. c = q) (rev (dropWhile (\<lambda>c. c = q) s)))"

text \<open>
  \<open>str::trim\<close>: \<open>char::is_whitespace\<close> is the Unicode property \<open>White_Space\<close>, a small fixed
  set. The UTF-8 encodings of its members: ASCII tab to carriage return and space; U+0085 and
  U+00A0; U+1680; U+2000 to U+200A, U+2028, U+2029, U+202F; U+205F; U+3000.
\<close>

definition ws_len :: "string \<Rightarrow> nat" where
  "ws_len s = (case map byte_of (take 3 s) of
       b # bs \<Rightarrow>
         if (9 \<le> b \<and> b \<le> 13) \<or> b = 32 then 1
         else if b = 0xC2 \<and> bs \<noteq> [] \<and> (hd bs = 0x85 \<or> hd bs = 0xA0) then 2
         else if length bs = 2 \<and>
            (b = 0xE1 \<and> bs = [0x9A, 0x80]
             \<or> b = 0xE2 \<and> hd bs = 0x80 \<and>
                 ((0x80 \<le> bs ! 1 \<and> bs ! 1 \<le> 0x8A) \<or> bs ! 1 = 0xA8 \<or> bs ! 1 = 0xA9 \<or> bs ! 1 = 0xAF)
             \<or> b = 0xE2 \<and> bs = [0x81, 0x9F]
             \<or> b = 0xE3 \<and> bs = [0x80, 0x80]) then 3
         else 0
     | [] \<Rightarrow> 0)"

lemma ws_len_le: "ws_len s \<le> length s"
  by (cases s rule: list.exhaust; cases "tl s" rule: list.exhaust)
     (auto simp: ws_len_def take_Cons' split: list.splits)

function trim_start :: "string \<Rightarrow> string" where
  "trim_start s = (if ws_len s = 0 then s else trim_start (drop (ws_len s) s))"
  by pat_completeness auto
termination
proof (relation "measure length")
  fix s :: string
  assume "ws_len s \<noteq> 0"
  then show "(drop (ws_len s) s, s) \<in> measure length"
    using ws_len_le [of s] by auto
qed auto

declare trim_start.simps [simp del]

text \<open>
  Trimming at the end removes the longest suffix made of whitespace characters: the first
  position from which everything that follows is whitespace.
\<close>

fun trim_end :: "string \<Rightarrow> string" where
  "trim_end [] = []"
| "trim_end (c # cs) = (if trim_start (c # cs) = [] then [] else c # trim_end cs)"

definition trim :: "string \<Rightarrow> string" where
  "trim s = trim_end (trim_start s)"

lemma trim_end_Nil: "trim_end s = [] \<longleftrightarrow> trim_start s = []"
  by (cases s) (auto simp: trim_start.simps [of "[]"] ws_len_def)

lemma trim_start_idem: "trim_start (trim_start s) = trim_start s"
proof (induction s rule: trim_start.induct)
  case (1 s)
  show ?case
  proof (cases "ws_len s = 0")
    case True
    then show ?thesis by (simp add: trim_start.simps [of s])
  next
    case False
    with 1 show ?thesis by (simp add: trim_start.simps [of s])
  qed
qed

lemma trim_empty_iff: "trim s = [] \<longleftrightarrow> trim_start s = []"
  by (simp add: trim_def trim_end_Nil trim_start_idem)

text \<open>An unsigned number in decimal, as \<open>format!\<close> prints it.\<close>

definition dec_digit :: "nat \<Rightarrow> char" where
  "dec_digit n = char_of (48 + n)"

fun decimal :: "nat \<Rightarrow> string" where
  "decimal n = (if n < 10 then [dec_digit n] else decimal (n div 10) @ [dec_digit (n mod 10)])"

declare decimal.simps [simp del]

lemma decimal_digits: "c \<in> set (decimal n) \<Longrightarrow> 48 \<le> byte_of c \<and> byte_of c \<le> 57"
proof (induction n rule: decimal.induct)
  case (1 n)
  then show ?case
    by (subst (asm) (2) decimal.simps) (auto simp: dec_digit_def byte_of_def split: if_splits)
qed

lemma decimal_not_Nil [simp]: "decimal n \<noteq> []"
  by (subst decimal.simps) simp

lemma foldl_decimal: "foldl (\<lambda>n c. n * 10 + (of_char c - 48)) 0 (decimal n) = n"
proof (induction n rule: decimal.induct)
  case (1 n)
  then show ?case by (subst decimal.simps) (simp add: dec_digit_def)
qed

lemma decimal_inject [simp]: "decimal m = decimal n \<longleftrightarrow> m = n"
  by (metis foldl_decimal)

section \<open>First match\<close>

lemma find_SomeE:
  assumes "find P xs = Some x"
  obtains ys zs where "xs = ys @ x # zs" and "P x" and "\<And>y. y \<in> set ys \<Longrightarrow> \<not> P y"
proof -
  from assms have "\<exists>ys zs. xs = ys @ x # zs \<and> P x \<and> (\<forall>y \<in> set ys. \<not> P y)"
  proof (induction xs)
    case (Cons a xs)
    show ?case
    proof (cases "P a")
      case True
      with Cons.prems show ?thesis by (intro exI [of _ "[]"] exI [of _ xs]) simp
    next
      case False
      with Cons obtain ys zs where "xs = ys @ x # zs" "P x" "\<forall>y \<in> set ys. \<not> P y" by auto
      with False show ?thesis by (intro exI [of _ "a # ys"] exI [of _ zs]) simp
    qed
  qed simp
  with that show thesis by blast
qed

lemma find_append:
  "find P (xs @ ys) = (case find P xs of Some x \<Rightarrow> Some x | None \<Rightarrow> find P ys)"
  by (induction xs) auto

section \<open>UTF-8 character boundaries\<close>

text \<open>
  \<open>char::len_utf8\<close> of the character that starts with a given byte, and the continuation
  bytes. A string slice \<open>&s[i..]\<close> panics unless \<open>i\<close> is a character boundary; \<open>slice_from\<close>
  and \<open>slice\<close> return \<open>None\<close> for the panic.
\<close>

definition len_utf8 :: "char \<Rightarrow> nat" where
  "len_utf8 c = (if byte_of c < 0x80 then 1 else if byte_of c < 0xE0 then 2
                 else if byte_of c < 0xF0 then 3 else 4)"

definition is_cont :: "char \<Rightarrow> bool" where
  "is_cont c \<longleftrightarrow> 0x80 \<le> byte_of c \<and> byte_of c < 0xC0"

definition starts_boundary :: "string \<Rightarrow> bool" where
  "starts_boundary s \<longleftrightarrow> (case s of [] \<Rightarrow> True | c # _ \<Rightarrow> \<not> is_cont c)"

definition slice_from :: "string \<Rightarrow> nat \<Rightarrow> string option" where
  "slice_from s i = (if i \<le> length s \<and> starts_boundary (drop i s) then Some (drop i s) else None)"

definition slice :: "string \<Rightarrow> nat \<Rightarrow> nat \<Rightarrow> string option" where
  "slice s a b =
     (if a \<le> b \<and> b \<le> length s \<and> starts_boundary (drop a s) \<and> starts_boundary (drop b s)
      then Some (take (b - a) (drop a s)) else None)"

text \<open>
  The shape of UTF-8: a lead byte followed by as many continuation bytes as it announces.
  Every Rust string satisfies it (Rust's own validity is stricter).
\<close>

function utf8_wf :: "string \<Rightarrow> bool" where
  "utf8_wf [] = True"
| "utf8_wf (c # cs) =
     (\<not> is_cont c \<and> len_utf8 c - 1 \<le> length cs \<and> list_all is_cont (take (len_utf8 c - 1) cs)
      \<and> utf8_wf (drop (len_utf8 c - 1) cs))"
  by pat_completeness auto
termination
  by (relation "measure length") (auto simp: len_utf8_def)

lemma len_utf8_pos [simp]: "0 < len_utf8 c"
  by (simp add: len_utf8_def)

lemma len_utf8_ascii: "byte_of c < 128 \<Longrightarrow> len_utf8 c = 1"
  by (simp add: len_utf8_def)

lemma utf8_wf_ascii_Cons [simp]: "byte_of c < 128 \<Longrightarrow> utf8_wf (c # cs) \<longleftrightarrow> utf8_wf cs"
  by (simp add: len_utf8_ascii is_cont_def)

lemma utf8_wf_starts_boundary [simp]: "utf8_wf s \<Longrightarrow> starts_boundary s"
  by (cases s) (auto simp: starts_boundary_def)

declare utf8_wf.simps(2) [simp del]

lemma utf8_wf_append_ascii:
  "\<forall>x \<in> set tok. byte_of x < 128 \<Longrightarrow> utf8_wf (tok @ zs) \<longleftrightarrow> utf8_wf zs"
  by (induction tok) auto

lemma utf8_wf_slice_from: "utf8_wf s \<Longrightarrow> slice_from s 0 = Some s"
  by (simp add: slice_from_def)

section \<open>Stored times\<close>

text \<open>
  A time in a table column: one the program wrote (in milliseconds; the RFC 3339 texts of the
  program are all in UTC, so they compare as the times do), or text that does not parse.
\<close>

datatype stamp = At nat | Unparsable string

end
