(* ===== verification/Codec.thy ===== *)
theory Codec
  imports Prelude
begin

text \<open>
  Byte encodings shared by the audit chain, the framing and the attach protocol: little-endian
  integers (\<open>to_le_bytes\<close> and \<open>from_le_bytes\<close>) and length-prefixed byte strings, and the contract
  they satisfy, stated as a locale: a decoder that undoes the encoder whatever bytes follow. The
  contract makes an encoding injective and self-delimiting, which is what the clients use.
\<close>

section \<open>The contract\<close>

locale codec =
  fixes valid :: "'a \<Rightarrow> bool"
    and enc :: "'a \<Rightarrow> bytes"
    and dec :: "bytes \<Rightarrow> ('a \<times> bytes) option"
  assumes dec_enc: "valid x \<Longrightarrow> dec (enc x @ rest) = Some (x, rest)"
begin

lemma enc_append_inject:
  assumes "valid x" and "valid y"
  shows "enc x @ r = enc y @ s \<longleftrightarrow> x = y \<and> r = s"
proof
  assume "enc x @ r = enc y @ s"
  then have "Some (x, r) = Some (y, s)"
    using dec_enc [OF assms(1), of r] dec_enc [OF assms(2), of s] by metis
  then show "x = y \<and> r = s" by simp
qed simp

lemma enc_inject: "valid x \<Longrightarrow> valid y \<Longrightarrow> enc x = enc y \<longleftrightarrow> x = y"
  using enc_append_inject [of x y "[]" "[]"] by simp

lemma dec_enc_Nil: "valid x \<Longrightarrow> dec (enc x) = Some (x, [])"
  using dec_enc [of x "[]"] by simp

end

section \<open>Little-endian integers\<close>

fun le_bytes :: "nat \<Rightarrow> nat \<Rightarrow> bytes" where
  "le_bytes 0 v = []"
| "le_bytes (Suc n) v = of_nat v # le_bytes n (v div 256)"

fun from_le :: "bytes \<Rightarrow> nat" where
  "from_le [] = 0"
| "from_le (b # bs) = unat b + 256 * from_le bs"

lemma length_le_bytes [simp]: "length (le_bytes n v) = n"
  by (induction n arbitrary: v) simp_all

lemma unat_of_nat_byte: "unat (of_nat v :: byte) = v mod 256"
  by (simp add: unat_of_nat)

lemma unat_byte_less: "unat (b :: byte) < 256"
  using unsigned_less [of b, where ?'a = nat] by simp

lemma from_le_bytes [codec_simps]: "from_le (le_bytes n v) = v mod 256 ^ n"
proof (induction n arbitrary: v)
  case (Suc n)
  have "from_le (le_bytes (Suc n) v) = v mod 256 + 256 * (v div 256 mod 256 ^ n)"
    by (simp add: Suc unat_of_nat_byte)
  also have "\<dots> = v mod 256 ^ Suc n" by (simp add: mod_mult2_eq)
  finally show ?case .
qed simp

lemma from_le_less: "from_le bs < 256 ^ length bs"
proof (induction bs)
  case (Cons b bs)
  have "unat b < 256" by (rule unat_byte_less)
  moreover have "256 * from_le bs + 256 \<le> 256 * 256 ^ length bs" using Cons by simp
  ultimately show ?case by simp
qed simp

lemma le_bytes_from_le: "le_bytes (length bs) (from_le bs) = bs"
proof (induction bs)
  case (Cons b bs)
  have b: "unat b < 256" by (rule unat_byte_less)
  have "unat (of_nat (unat b + 256 * from_le bs) :: byte) = unat b"
    unfolding unat_of_nat_byte using b by simp
  then have "of_nat (unat b + 256 * from_le bs) = (b :: byte)"
    by (simp only: word_unat_eq_iff)
  with Cons b show ?case by (simp del: of_nat_add of_nat_mult)
qed simp

definition take_bytes :: "nat \<Rightarrow> bytes \<Rightarrow> (bytes \<times> bytes) option" where
  "take_bytes n bs = (if n \<le> length bs then Some (take n bs, drop n bs) else None)"

lemma take_bytes_append [simp]: "length xs = n \<Longrightarrow> take_bytes n (xs @ ys) = Some (xs, ys)"
  by (simp add: take_bytes_def)

definition dec_uint :: "nat \<Rightarrow> bytes \<Rightarrow> (nat \<times> bytes) option" where
  "dec_uint n bs = map_option (\<lambda>(x, r). (from_le x, r)) (take_bytes n bs)"

lemma dec_uint_codec: "codec (\<lambda>v. v < 256 ^ n) (le_bytes n) (dec_uint n)"
  by unfold_locales (simp add: dec_uint_def from_le_bytes)

interpretation u16_codec: codec "\<lambda>v. v < 256 ^ 2" "le_bytes 2" "dec_uint 2" by (rule dec_uint_codec)

interpretation u32_codec: codec "\<lambda>v. v < 256 ^ 4" "le_bytes 4" "dec_uint 4" by (rule dec_uint_codec)

interpretation u64_codec: codec "\<lambda>v. v < 256 ^ 8" "le_bytes 8" "dec_uint 8" by (rule dec_uint_codec)

section \<open>Length-prefixed byte strings\<close>

text \<open>A byte string after its length in \<open>n\<close> bytes; \<open>as u16\<close> and the like wrap, as \<open>le_bytes\<close> does.\<close>

definition enc_lp :: "nat \<Rightarrow> bytes \<Rightarrow> bytes" where
  "enc_lp n s = le_bytes n (length s) @ s"

definition dec_lp :: "nat \<Rightarrow> bytes \<Rightarrow> (bytes \<times> bytes) option" where
  "dec_lp n bs = (case dec_uint n bs of None \<Rightarrow> None | Some (l, r) \<Rightarrow> take_bytes l r)"

lemma dec_lp_codec: "codec (\<lambda>s. length s < 256 ^ n) (enc_lp n) (dec_lp n)"
proof
  fix s rest :: bytes
  assume "length s < 256 ^ n"
  then have "dec_uint n (le_bytes n (length s) @ s @ rest) = Some (length s, s @ rest)"
    by (rule codec.dec_enc [OF dec_uint_codec])
  then show "dec_lp n (enc_lp n s @ rest) = Some (s, rest)" by (simp add: dec_lp_def enc_lp_def)
qed

interpretation lp8_codec: codec "\<lambda>s. length s < 256 ^ 1" "enc_lp 1" "dec_lp 1" by (rule dec_lp_codec)

interpretation lp16_codec: codec "\<lambda>s. length s < 256 ^ 2" "enc_lp 2" "dec_lp 2" by (rule dec_lp_codec)

interpretation lp64_codec: codec "\<lambda>s. length s < 256 ^ 8" "enc_lp 8" "dec_lp 8" by (rule dec_lp_codec)

section \<open>Strings, options, flags and signed integers\<close>

definition bytes_str :: "bytes \<Rightarrow> string" where
  "bytes_str = map (\<lambda>b. char_of (unat b))"

lemma bytes_str_str_bytes [simp]: "bytes_str (str_bytes s) = s"
  by (induction s) (simp_all add: bytes_str_def str_bytes_def unat_of_char_byte)

lemma str_bytes_bytes_str: "str_bytes (bytes_str b) = b"
proof (induction b)
  case (Cons x b)
  have "of_char (char_of (unat x)) = x"
  proof -
    have "unat (of_char (char_of (unat x)) :: byte) = unat x"
      using unat_byte_less [of x] by (simp add: unat_of_char_byte)
    then show ?thesis by (simp only: word_unat_eq_iff)
  qed
  with Cons show ?case by (simp add: str_bytes_def bytes_str_def)
qed (simp add: str_bytes_def bytes_str_def)

definition enc_str :: "string \<Rightarrow> bytes" where
  "enc_str s = enc_lp 8 (str_bytes s)"

definition dec_str :: "bytes \<Rightarrow> (string \<times> bytes) option" where
  "dec_str bs = map_option (\<lambda>(x, r). (bytes_str x, r)) (dec_lp 8 bs)"

text \<open>An absent string is eight bytes 255, the one length no string has.\<close>

definition str_ok :: "string \<Rightarrow> bool" where
  "str_ok s \<longleftrightarrow> length s < 256 ^ 8 - 1"

definition opt_ok :: "string option \<Rightarrow> bool" where
  "opt_ok v \<longleftrightarrow> (case v of None \<Rightarrow> True | Some s \<Rightarrow> str_ok s)"

definition enc_opt_str :: "string option \<Rightarrow> bytes" where
  "enc_opt_str v = (case v of None \<Rightarrow> replicate 8 255 | Some s \<Rightarrow> enc_str s)"

definition dec_opt_str :: "bytes \<Rightarrow> (string option \<times> bytes) option" where
  "dec_opt_str bs = (if take 8 bs = replicate 8 255 then Some (None, drop 8 bs)
     else map_option (\<lambda>(x, r). (Some x, r)) (dec_str bs))"

definition enc_bool :: "bool \<Rightarrow> bytes" where
  "enc_bool b = [if b then 1 else 0]"

definition dec_bool :: "bytes \<Rightarrow> (bool \<times> bytes) option" where
  "dec_bool bs = (case bs of [] \<Rightarrow> None | b # r \<Rightarrow> Some (b \<noteq> 0, r))"

definition enc_i64 :: "u64 \<Rightarrow> bytes" where
  "enc_i64 v = le_bytes 8 (unat v)"

definition dec_i64 :: "bytes \<Rightarrow> (u64 \<times> bytes) option" where
  "dec_i64 bs = map_option (\<lambda>(x, r). (of_nat x, r)) (dec_uint 8 bs)"

lemma from_le_ones: "from_le (replicate 8 255) = 256 ^ 8 - 1"
proof -
  have "replicate 8 (255 :: byte) = [255, 255, 255, 255, 255, 255, 255, 255]" by code_simp
  moreover have "unat (255 :: byte) = 255" by simp
  ultimately show ?thesis by (simp only: from_le.simps) simp
qed

interpretation str_codec: codec str_ok enc_str dec_str
proof
  fix s rest
  assume "str_ok s"
  then have "length (str_bytes s) < 256 ^ 8" by (simp add: str_ok_def)
  from lp64_codec.dec_enc [OF this] show "dec_str (enc_str s @ rest) = Some (s, rest)"
    by (simp add: dec_str_def enc_str_def)
qed

interpretation opt_codec: codec opt_ok enc_opt_str dec_opt_str
proof
  fix v rest
  assume v: "opt_ok v"
  show "dec_opt_str (enc_opt_str v @ rest) = Some (v, rest)"
  proof (cases v)
    case None
    then show ?thesis by (simp add: dec_opt_str_def enc_opt_str_def)
  next
    case (Some s)
    with v have s: "str_ok s" by (simp add: opt_ok_def)
    have "le_bytes 8 (length s) \<noteq> replicate 8 255"
    proof
      assume "le_bytes 8 (length s) = replicate 8 255"
      then have "length s mod 256 ^ 8 = 256 ^ 8 - 1"
        using from_le_bytes [of 8 "length s"] from_le_ones by simp
      with s show False by (simp add: str_ok_def)
    qed
    then have "take 8 (enc_str s @ rest) \<noteq> replicate 8 255"
      by (simp add: enc_str_def enc_lp_def)
    with str_codec.dec_enc [OF s, of rest] Some show ?thesis
      by (simp add: dec_opt_str_def enc_opt_str_def)
  qed
qed

interpretation bool_codec: codec "\<lambda>_. True" enc_bool dec_bool
  by unfold_locales (simp add: enc_bool_def dec_bool_def)

interpretation i64_codec: codec "\<lambda>_. True" enc_i64 dec_i64
proof
  fix v :: u64 and rest :: bytes
  have "unat v < 256 ^ 8" using unsigned_less [of v, where ?'a = nat] by simp
  from u64_codec.dec_enc [OF this, of rest] show "dec_i64 (enc_i64 v @ rest) = Some (v, rest)"
    by (simp add: dec_i64_def enc_i64_def)
qed

end
