(* ===== verification/Audit_Chain.thy ===== *)
theory Audit_Chain
  imports Codec
begin

text \<open>
  The hash-chained audit log (\<open>clum-mcp/src/audit/chain.rs\<close>, \<open>log.rs\<close>, \<open>verify.rs\<close>,
  \<open>cleanup.rs\<close>): the bytes an entry hashes, appending an event, verifying the whole chain and
  deleting old rows with a checkpoint. SHA-256 and the hex codec are third-party code and are
  parameters; \<open>crypto_ok\<close> states what the code relies on. A failing \<open>expect\<close> is the value \<open>None\<close>.

  The table is the list of its rows in id order. The verifier does not trust it: it reads columns
  that may hold values of any type through a cursor that may fail, so it works on an
  \<open>audit_read\<close>; \<open>table_read\<close> is the read of a table as the log wrote it.
\<close>

section \<open>Rows and their encoding\<close>

record chain_row =
  c_event_id :: string
  c_timestamp :: string
  c_agent_name :: string
  c_host_name :: string
  c_session_name :: string
  c_pane_id :: "string option"
  c_operation_id :: "string option"
  c_action :: string
  c_detail :: string
  c_redacted :: bool
  c_output_summary :: "string option"
  c_success :: bool
  c_duration_ms :: u64
  c_error_message :: "string option"

text \<open>
  An audit event as it is handed to the log: identifier and time already printed, the action as
  \<open>serde_json\<close> prints it (a quoted variant name), the duration as an unsigned integer.
\<close>

record audit_event =
  e_event_id :: string
  e_timestamp :: string
  e_agent_name :: string
  e_host_name :: string
  e_session_name :: string
  e_pane_id :: "string option"
  e_operation_id :: "string option"
  e_action_json :: string
  e_detail :: string
  e_redacted :: bool
  e_output_summary :: "string option"
  e_success :: bool
  e_duration_ms :: u64
  e_error_message :: "string option"

definition action_column :: "string \<Rightarrow> string" where
  "action_column json = trim_char CHR 0x22 json"

definition from_event :: "audit_event \<Rightarrow> chain_row" where
  "from_event ev =
     \<lparr>c_event_id = e_event_id ev, c_timestamp = e_timestamp ev, c_agent_name = e_agent_name ev,
      c_host_name = e_host_name ev, c_session_name = e_session_name ev, c_pane_id = e_pane_id ev,
      c_operation_id = e_operation_id ev, c_action = action_column (e_action_json ev),
      c_detail = e_detail ev, c_redacted = e_redacted ev, c_output_summary = e_output_summary ev,
      c_success = e_success ev, c_duration_ms = e_duration_ms ev, c_error_message = e_error_message ev\<rparr>"

definition payload :: "chain_row \<Rightarrow> bytes" where
  "payload row =
     enc_str (c_event_id row) @ enc_str (c_timestamp row) @ enc_str (c_agent_name row)
     @ enc_str (c_host_name row) @ enc_str (c_session_name row) @ enc_opt_str (c_pane_id row)
     @ enc_opt_str (c_operation_id row) @ enc_str (c_action row) @ enc_str (c_detail row)
     @ enc_bool (c_redacted row) @ enc_opt_str (c_output_summary row) @ enc_bool (c_success row)
     @ enc_i64 (c_duration_ms row) @ enc_opt_str (c_error_message row)"

definition GENESIS_PREV :: string where
  "GENESIS_PREV = replicate 64 (CHR ''0'')"

record chain_crypto =
  cc_sha :: "bytes \<Rightarrow> bytes"
  cc_hex :: "bytes \<Rightarrow> string"
  cc_unhex :: "string \<Rightarrow> bytes option"

definition entry_hash :: "chain_crypto \<Rightarrow> string \<Rightarrow> chain_row \<Rightarrow> string option" where
  "entry_hash cs prev row =
     map_option (\<lambda>p. cc_hex cs (cc_sha cs (p @ payload row))) (cc_unhex cs prev)"

text \<open>The format check of the verifier.\<close>

definition is_hash_text :: "string \<Rightarrow> bool" where
  "is_hash_text s \<longleftrightarrow> length s = 64 \<and>
     (\<forall>c \<in> set s. (CHR ''0'' \<le> c \<and> c \<le> CHR ''9'') \<or> (CHR ''a'' \<le> c \<and> c \<le> CHR ''f'')
        \<or> (CHR ''A'' \<le> c \<and> c \<le> CHR ''F''))"

text \<open>
  SHA-256 returns 32 bytes; hex prints them as 64 digits and reads them back, reads every text of
  64 digits and nothing that is not 32 bytes long, and the genesis text is 32 zero bytes.
\<close>

definition crypto_ok :: "chain_crypto \<Rightarrow> bool" where
  "crypto_ok cs \<longleftrightarrow>
     (\<forall>m. length (cc_sha cs m) = 32)
     \<and> (\<forall>b. length b = 32 \<longrightarrow> cc_unhex cs (cc_hex cs b) = Some b \<and> is_hash_text (cc_hex cs b))
     \<and> (\<forall>s. is_hash_text s \<longrightarrow> cc_unhex cs s \<noteq> None)
     \<and> (\<forall>s b. cc_unhex cs s = Some b \<longrightarrow> length b = 32)
     \<and> cc_unhex cs GENESIS_PREV = Some (replicate 32 0)"

section \<open>The table\<close>

record audit_row =
  ar_id :: int
  ar_row :: chain_row
  ar_prev :: "string option"
  ar_entry :: "string option"

record audit_db =
  ad_rows :: "audit_row list"
  ad_checkpoints :: "string option list"
  ad_next_id :: int

text \<open>\<open>SELECT entry_hash ... WHERE entry_hash IS NOT NULL ORDER BY id DESC LIMIT 1\<close>.\<close>

definition last_entry :: "audit_row list \<Rightarrow> string option" where
  "last_entry rows = Option.bind (find (\<lambda>r. ar_entry r \<noteq> None) (rev rows)) ar_entry"



section \<open>Verification\<close>

record chain_report =
  cr_ok :: bool
  cr_hashed_rows :: nat
  cr_pre_hash_rows :: nat
  cr_segments :: nat
  cr_chain_head :: "string option"
  cr_first_failure :: "(int \<times> string \<times> string) option"

definition report_init :: chain_report where
  "report_init = \<lparr>cr_ok = True, cr_hashed_rows = 0, cr_pre_hash_rows = 0, cr_segments = 0,
     cr_chain_head = None, cr_first_failure = None\<rparr>"

definition fail_report :: "chain_report \<Rightarrow> int \<times> string \<times> string \<Rightarrow> chain_report" where
  "fail_report rep f = rep\<lparr>cr_ok := False, cr_first_failure := Some f\<rparr>"

fun verify_rows ::
    "chain_crypto \<Rightarrow> string set \<Rightarrow> chain_report \<Rightarrow> string option \<Rightarrow> audit_row list \<Rightarrow> chain_report option" where
  "verify_rows cs cps rep last_entry_hash [] = Some (rep\<lparr>cr_chain_head := last_entry_hash\<rparr>)"
| "verify_rows cs cps rep last_entry_hash (r # rs) =
     (case ar_entry r of
        None \<Rightarrow> verify_rows cs cps (rep\<lparr>cr_pre_hash_rows := Suc (cr_pre_hash_rows rep)\<rparr>) last_entry_hash rs
      | Some stored \<Rightarrow>
          (let rep = rep\<lparr>cr_hashed_rows := Suc (cr_hashed_rows rep)\<rparr>
           in if (case ar_prev r of Some p \<Rightarrow> \<not> is_hash_text p | None \<Rightarrow> False)
              then Some (fail_report rep (ar_id r, ''<malformed prev_hash>'', the (ar_prev r)))
              else case entry_hash cs (case ar_prev r of Some p \<Rightarrow> p | None \<Rightarrow> GENESIS_PREV) (ar_row r) of
                None \<Rightarrow> None
              | Some recomputed \<Rightarrow>
                  if recomputed \<noteq> stored then Some (fail_report rep (ar_id r, recomputed, stored))
                  else (case ar_prev r of
                    None \<Rightarrow> verify_rows cs cps (rep\<lparr>cr_segments := Suc (cr_segments rep)\<rparr>) (Some stored) rs
                  | Some p \<Rightarrow>
                      (let continues = (last_entry_hash = Some p); checkpoint = p \<in> cps
                       in if continues \<or> checkpoint
                          then verify_rows cs cps
                            (if checkpoint \<and> \<not> continues then rep\<lparr>cr_segments := Suc (cr_segments rep)\<rparr> else rep)
                            (Some stored) rs
                          else Some (fail_report rep
                            (ar_id r, (case last_entry_hash of Some h \<Rightarrow> h | None \<Rightarrow> ''<none>''), p))))))"

text \<open>
  What the verifier reads. A value of a column is null, an integer, a text, or something that is
  neither (a real, a blob, bytes that are not UTF-8); reading it as the type of the column fails
  when it is of another type, and the code then takes a default.
\<close>

datatype sql_value = SNull | SInt int | SText string | SOther

definition get_text :: "sql_value \<Rightarrow> string option" where
  "get_text v = (case v of SText s \<Rightarrow> Some s | _ \<Rightarrow> None)"

definition get_int :: "sql_value \<Rightarrow> int option" where
  "get_int v = (case v of SInt i \<Rightarrow> Some i | _ \<Rightarrow> None)"

definition text_or_default :: "sql_value \<Rightarrow> string" where
  "text_or_default v = (case get_text v of Some s \<Rightarrow> s | None \<Rightarrow> [])"

definition int_or_zero :: "sql_value \<Rightarrow> int" where
  "int_or_zero v = (case get_int v of Some i \<Rightarrow> i | None \<Rightarrow> 0)"

record raw_row =
  rr_id :: sql_value
  rr_event_id :: sql_value
  rr_timestamp :: sql_value
  rr_agent_name :: sql_value
  rr_host_name :: sql_value
  rr_session_name :: sql_value
  rr_pane_id :: sql_value
  rr_operation_id :: sql_value
  rr_action :: sql_value
  rr_detail :: sql_value
  rr_redacted :: sql_value
  rr_output_summary :: sql_value
  rr_success :: sql_value
  rr_duration_ms :: sql_value
  rr_error_message :: sql_value
  rr_prev_hash :: sql_value
  rr_entry_hash :: sql_value

definition decode_row :: "raw_row \<Rightarrow> audit_row" where
  "decode_row r =
     \<lparr>ar_id = int_or_zero (rr_id r),
      ar_row = \<lparr>c_event_id = text_or_default (rr_event_id r), c_timestamp = text_or_default (rr_timestamp r),
        c_agent_name = text_or_default (rr_agent_name r), c_host_name = text_or_default (rr_host_name r),
        c_session_name = text_or_default (rr_session_name r), c_pane_id = get_text (rr_pane_id r),
        c_operation_id = get_text (rr_operation_id r), c_action = text_or_default (rr_action r),
        c_detail = text_or_default (rr_detail r), c_redacted = (int_or_zero (rr_redacted r) \<noteq> 0),
        c_output_summary = get_text (rr_output_summary r), c_success = (int_or_zero (rr_success r) \<noteq> 0),
        c_duration_ms = word_of_int (int_or_zero (rr_duration_ms r)),
        c_error_message = get_text (rr_error_message r)\<rparr>,
      ar_prev = get_text (rr_prev_hash r), ar_entry = get_text (rr_entry_hash r)\<rparr>"

text \<open>
  The checkpoints (\<open>None\<close> when their query fails), whether preparing and starting the query of the
  events fails, and the rows its cursor delivers. A cursor that fails ends the loop like one at its
  end, so \<open>rd_rows\<close> are the rows before the failure.
\<close>

record audit_read =
  rd_checkpoints :: "sql_value list option"
  rd_prepare_fails :: bool
  rd_query_fails :: bool
  rd_rows :: "raw_row list"

definition checkpoint_set :: "audit_read \<Rightarrow> string set" where
  "checkpoint_set rd = set (case rd_checkpoints rd of None \<Rightarrow> [] | Some vs \<Rightarrow> List.map_filter get_text vs)"

definition read_rows :: "audit_read \<Rightarrow> audit_row list" where
  "read_rows rd = map decode_row (rd_rows rd)"

definition verify_conn :: "chain_crypto \<Rightarrow> audit_read \<Rightarrow> chain_report option" where
  "verify_conn cs rd =
     (if rd_prepare_fails rd then Some (fail_report report_init (0, ''table query failed'', []))
      else if rd_query_fails rd then Some (fail_report report_init (0, ''query failed'', []))
      else verify_rows cs (checkpoint_set rd) report_init None (read_rows rd))"

text \<open>A table as the log stores it, and the read of it when the database does not fail.\<close>

definition put_text :: "string option \<Rightarrow> sql_value" where
  "put_text s = (case s of Some t \<Rightarrow> SText t | None \<Rightarrow> SNull)"

definition put_bool :: "bool \<Rightarrow> sql_value" where
  "put_bool b = SInt (if b then 1 else 0)"

definition stored_row :: "audit_row \<Rightarrow> raw_row" where
  "stored_row a =
     (let row = ar_row a in
      \<lparr>rr_id = SInt (ar_id a), rr_event_id = SText (c_event_id row), rr_timestamp = SText (c_timestamp row),
       rr_agent_name = SText (c_agent_name row), rr_host_name = SText (c_host_name row),
       rr_session_name = SText (c_session_name row), rr_pane_id = put_text (c_pane_id row),
       rr_operation_id = put_text (c_operation_id row), rr_action = SText (c_action row),
       rr_detail = SText (c_detail row), rr_redacted = put_bool (c_redacted row),
       rr_output_summary = put_text (c_output_summary row), rr_success = put_bool (c_success row),
       rr_duration_ms = SInt (sint (c_duration_ms row)), rr_error_message = put_text (c_error_message row),
       rr_prev_hash = put_text (ar_prev a), rr_entry_hash = put_text (ar_entry a)\<rparr>)"

definition table_read :: "audit_db \<Rightarrow> audit_read" where
  "table_read db = \<lparr>rd_checkpoints = Some (map put_text (ad_checkpoints db)), rd_prepare_fails = False,
     rd_query_fails = False, rd_rows = map stored_row (ad_rows db)\<rparr>"

text \<open>Reading back what was stored.\<close>

lemma get_put [simp]: "get_text (put_text s) = s" "int_or_zero (put_bool b) = (if b then 1 else 0)"
  by (simp_all add: get_text_def put_text_def int_or_zero_def get_int_def put_bool_def split: option.splits)

lemma get_value [simp]: "text_or_default (SText t) = t" "int_or_zero (SInt i) = i"
  by (simp_all add: text_or_default_def get_text_def int_or_zero_def get_int_def)

lemma decode_stored [simp]: "decode_row (stored_row a) = a"
  by (simp add: decode_row_def stored_row_def Let_def)

definition checkpoints :: "audit_db \<Rightarrow> string set" where
  "checkpoints db = set (List.map_filter (\<lambda>x. x) (ad_checkpoints db))"

lemma table_read_simps [simp]:
  "read_rows (table_read db) = ad_rows db"
  "checkpoint_set (table_read db) = checkpoints db"
  "\<not> rd_prepare_fails (table_read db)" "\<not> rd_query_fails (table_read db)"
  by (simp_all add: read_rows_def table_read_def checkpoint_set_def checkpoints_def comp_def
      List.map_filter_def filter_map)

section \<open>Cleanup\<close>




section \<open>The encoding is injective\<close>

definition row_ok :: "chain_row \<Rightarrow> bool" where
  "row_ok r \<longleftrightarrow> str_ok (c_event_id r) \<and> str_ok (c_timestamp r) \<and> str_ok (c_agent_name r)
     \<and> str_ok (c_host_name r) \<and> str_ok (c_session_name r) \<and> opt_ok (c_pane_id r)
     \<and> opt_ok (c_operation_id r) \<and> str_ok (c_action r) \<and> str_ok (c_detail r)
     \<and> opt_ok (c_output_summary r) \<and> opt_ok (c_error_message r)"

lemma payload_inject:
  assumes "row_ok r" and "row_ok s"
  shows "payload r = payload s \<longleftrightarrow> r = s"
proof
  assume "payload r = payload s"
  with assms show "r = s"
    unfolding payload_def row_ok_def
    by (simp add: str_codec.enc_append_inject opt_codec.enc_append_inject bool_codec.enc_append_inject
        i64_codec.enc_append_inject opt_codec.enc_inject)
qed simp

section \<open>The chain condition\<close>

text \<open>What it means for a table to be an intact chain, without the bookkeeping of the verifier.\<close>

definition prev_input :: "audit_row \<Rightarrow> string" where
  "prev_input r = (case ar_prev r of Some p \<Rightarrow> p | None \<Rightarrow> GENESIS_PREV)"

definition link_ok :: "string set \<Rightarrow> string option \<Rightarrow> string option \<Rightarrow> bool" where
  "link_ok cps lst prev \<longleftrightarrow>
     (case prev of None \<Rightarrow> True | Some p \<Rightarrow> is_hash_text p \<and> (lst = Some p \<or> p \<in> cps))"

fun chain_ok :: "chain_crypto \<Rightarrow> string set \<Rightarrow> string option \<Rightarrow> audit_row list \<Rightarrow> bool" where
  "chain_ok cs cps lst [] \<longleftrightarrow> True"
| "chain_ok cs cps lst (r # rs) \<longleftrightarrow>
     (case ar_entry r of
        None \<Rightarrow> chain_ok cs cps lst rs
      | Some stored \<Rightarrow> link_ok cps lst (ar_prev r) \<and> entry_hash cs (prev_input r) (ar_row r) = Some stored
          \<and> chain_ok cs cps (Some stored) rs)"

lemma last_entry_Nil [simp]: "last_entry [] = None"
  by (simp add: last_entry_def)

lemma last_entry_append: "last_entry (xs @ ys) = (case last_entry ys of Some h \<Rightarrow> Some h | None \<Rightarrow> last_entry xs)"
proof (cases "find (\<lambda>r. ar_entry r \<noteq> None) (rev ys)")
  case None
  then show ?thesis by (simp add: last_entry_def find_append)
next
  case (Some r)
  then have "ar_entry r \<noteq> None" by (auto elim: find_SomeE)
  with Some show ?thesis by (auto simp: last_entry_def find_append)
qed

lemma last_entry_single [simp]: "last_entry [r] = ar_entry r"
  by (simp add: last_entry_def)

text \<open>The hash that the loop carries after a list of rows.\<close>

definition carry :: "string option \<Rightarrow> audit_row list \<Rightarrow> string option" where
  "carry lst rs = (case last_entry rs of Some h \<Rightarrow> Some h | None \<Rightarrow> lst)"

lemma carry_simps [simp]:
  "carry lst [] = lst"
  "carry lst (r # rs) = carry (case ar_entry r of Some h \<Rightarrow> Some h | None \<Rightarrow> lst) rs"
  using last_entry_append [of "[r]" rs] by (auto simp: carry_def split: option.splits)

lemma carry_None: "carry None rs = last_entry rs"
  by (auto simp: carry_def split: option.splits)

lemma chain_ok_append:
  "chain_ok cs cps lst (xs @ ys) \<longleftrightarrow> chain_ok cs cps lst xs \<and> chain_ok cs cps (carry lst xs) ys"
  by (induction xs arbitrary: lst) (auto split: option.splits)

lemma entry_hash_defined:
  "crypto_ok cs \<Longrightarrow> is_hash_text p \<Longrightarrow> \<exists>h. entry_hash cs p r = Some h"
  "crypto_ok cs \<Longrightarrow> \<exists>h. entry_hash cs GENESIS_PREV r = Some h"
  by (auto simp: crypto_ok_def entry_hash_def)


text \<open>The verifier never panics and accepts exactly the intact chains.\<close>

lemma verify_rows_exact:
  assumes "crypto_ok cs" and "cr_ok rep"
  shows "\<exists>rep'. verify_rows cs cps rep lst rs = Some rep'
    \<and> (cr_ok rep' \<longleftrightarrow> chain_ok cs cps lst rs)
    \<and> (cr_ok rep' \<longrightarrow> cr_chain_head rep' = carry lst rs
         \<and> cr_hashed_rows rep' = cr_hashed_rows rep + length (filter (\<lambda>r. ar_entry r \<noteq> None) rs)
         \<and> cr_pre_hash_rows rep' = cr_pre_hash_rows rep + length (filter (\<lambda>r. ar_entry r = None) rs))
    \<and> (\<not> cr_ok rep' \<longrightarrow> cr_first_failure rep' \<noteq> None)"
  using assms(2)
proof (induction rs arbitrary: rep lst)
  case Nil
  then show ?case by simp
next
  case (Cons r rs)
  show ?case
  proof (cases "ar_entry r")
    case None
    with Cons.IH [of "rep\<lparr>cr_pre_hash_rows := Suc (cr_pre_hash_rows rep)\<rparr>" lst] Cons.prems
    show ?thesis by simp
  next
    case (Some stored)
    show ?thesis
    proof (cases "(case ar_prev r of Some p \<Rightarrow> \<not> is_hash_text p | None \<Rightarrow> False)")
      case True
      with Some show ?thesis by (auto simp: Let_def fail_report_def link_ok_def split: option.splits)
    next
      case False
      then have "\<exists>h. entry_hash cs (prev_input r) (ar_row r) = Some h"
        using entry_hash_defined [OF assms(1)] by (simp add: prev_input_def split: option.splits)
      then obtain h where h: "entry_hash cs (prev_input r) (ar_row r) = Some h" ..
      show ?thesis
      proof (cases "h = stored \<and> link_ok cps lst (ar_prev r)")
        case True
        let ?rep = "rep\<lparr>cr_hashed_rows := Suc (cr_hashed_rows rep)\<rparr>"
        let ?seg = "?rep\<lparr>cr_segments := Suc (cr_segments ?rep)\<rparr>"
        have "verify_rows cs cps rep lst (r # rs) = verify_rows cs cps ?seg (Some stored) rs
            \<or> verify_rows cs cps rep lst (r # rs) = verify_rows cs cps ?rep (Some stored) rs"
          using Some False h True by (auto simp: Let_def prev_input_def link_ok_def split: option.splits)
        then show ?thesis
          using Cons.IH [of ?seg "Some stored"] Cons.IH [of ?rep "Some stored"] Cons.prems Some h True by auto
      next
        case no: False
        have "\<exists>f. verify_rows cs cps rep lst (r # rs)
            = Some (fail_report (rep\<lparr>cr_hashed_rows := Suc (cr_hashed_rows rep)\<rparr>) f)"
        proof (cases "h = stored")
          case True
          with no obtain p where "ar_prev r = Some p" "\<not> link_ok cps lst (Some p)"
            by (cases "ar_prev r") (auto simp: link_ok_def)
          with True Some False h show ?thesis by (auto simp: Let_def prev_input_def link_ok_def)
        next
          case False
          with Some \<open>\<not> (case ar_prev r of Some p \<Rightarrow> \<not> is_hash_text p | None \<Rightarrow> False)\<close> h show ?thesis
            by (auto simp: Let_def prev_input_def)
        qed
        with no h Some show ?thesis by (auto simp: fail_report_def)
      qed
    qed
  qed
qed

text \<open>Without checkpoints every segment of an intact chain starts at an anchor.\<close>

lemma verify_rows_segments:
  assumes "verify_rows cs {} rep lst rs = Some rep'" and "cr_ok rep'"
  shows "cr_segments rep' = cr_segments rep + length (filter (\<lambda>r. ar_entry r \<noteq> None \<and> ar_prev r = None) rs)"
  using assms(1)
proof (induction rs arbitrary: rep lst)
  case (Cons r rs)
  show ?case
  proof (cases "ar_entry r")
    case None
    with Cons show ?thesis by fastforce
  next
    case (Some stored)
    from Cons.prems Some assms(2) show ?thesis
      by (auto simp: Let_def fail_report_def split: if_splits option.splits dest!: Cons.IH)
  qed
qed auto

definition intact :: "chain_crypto \<Rightarrow> audit_read \<Rightarrow> bool" where
  "intact cs rd \<longleftrightarrow> \<not> rd_prepare_fails rd \<and> \<not> rd_query_fails rd \<and> chain_ok cs (checkpoint_set rd) None (read_rows rd)"

lemma verify_conn_exact:
  assumes "crypto_ok cs"
  shows "\<exists>rep. verify_conn cs rd = Some rep
    \<and> (cr_ok rep \<longleftrightarrow> intact cs rd)
    \<and> (cr_ok rep \<longrightarrow> cr_chain_head rep = last_entry (read_rows rd)
         \<and> cr_hashed_rows rep = length (filter (\<lambda>r. ar_entry r \<noteq> None) (read_rows rd))
         \<and> cr_pre_hash_rows rep = length (filter (\<lambda>r. ar_entry r = None) (read_rows rd)))
    \<and> (\<not> cr_ok rep \<longrightarrow> cr_first_failure rep \<noteq> None)"
  using verify_rows_exact [OF assms, of report_init "checkpoint_set rd" None "read_rows rd"]
  by (auto simp: verify_conn_def intact_def report_init_def fail_report_def carry_None)

lemma intact_table [simp]: "intact cs (table_read db) \<longleftrightarrow> chain_ok cs (checkpoints db) None (ad_rows db)"
  by (simp add: intact_def)

lemma verify_conn_intact:
  assumes "crypto_ok cs" and "intact cs rd"
  obtains rep where "verify_conn cs rd = Some rep" and "cr_ok rep" and "cr_chain_head rep = last_entry (read_rows rd)"
  using verify_conn_exact [OF assms(1), of rd] assms(2) by auto

lemma verify_conn_okD:
  assumes "crypto_ok cs" and "verify_conn cs rd = Some rep" and "cr_ok rep"
  shows "intact cs rd" and "cr_chain_head rep = last_entry (read_rows rd)"
    and "cr_pre_hash_rows rep = length (filter (\<lambda>r. ar_entry r = None) (read_rows rd))"
  using verify_conn_exact [OF assms(1), of rd] assms(2,3) by auto

section \<open>Appending and deleting\<close>
















section \<open>Equal hashes, equal history\<close>

text \<open>
  The messages whose digests the rows of a table store. A digest of 32 bytes has collisions
  somewhere, so a commitment to the history is only meaningful relative to these messages.
\<close>

definition hashed :: "chain_crypto \<Rightarrow> audit_row list \<Rightarrow> bytes set" where
  "hashed cs rows = {p @ payload (ar_row r) | r p. r \<in> set rows \<and> cc_unhex cs (prev_input r) = Some p}"

definition collision :: "chain_crypto \<Rightarrow> bytes set \<Rightarrow> bool" where
  "collision cs M \<longleftrightarrow> (\<exists>m \<in> M. \<exists>m' \<in> M. m \<noteq> m' \<and> cc_sha cs m = cc_sha cs m')"

definition zero_digest :: "chain_crypto \<Rightarrow> bytes set \<Rightarrow> bool" where
  "zero_digest cs M \<longleftrightarrow> (\<exists>m \<in> M. cc_sha cs m = replicate 32 0)"

lemma entry_hash_inject:
  assumes "crypto_ok cs" and "entry_hash cs (prev_input x) (ar_row x) = Some h"
    and "entry_hash cs (prev_input y) (ar_row y) = Some h"
    and "row_ok (ar_row x)" and "row_ok (ar_row y)" and "\<not> collision cs (hashed cs zs)" and "x \<in> set zs" and "y \<in> set zs"
  shows "cc_unhex cs (prev_input x) = cc_unhex cs (prev_input y) \<and> ar_row x = ar_row y"
proof -
  from assms(2,3) obtain a b where ab: "cc_unhex cs (prev_input x) = Some a" "cc_unhex cs (prev_input y) = Some b"
    "cc_hex cs (cc_sha cs (a @ payload (ar_row x))) = cc_hex cs (cc_sha cs (b @ payload (ar_row y)))"
    by (auto simp: entry_hash_def)
  have mem: "a @ payload (ar_row x) \<in> hashed cs zs" "b @ payload (ar_row y) \<in> hashed cs zs"
    using assms(7,8) ab by (auto simp: hashed_def)
  have len: "length a = 32" "length b = 32" using assms(1) ab by (auto simp: crypto_ok_def)
  have "cc_sha cs (a @ payload (ar_row x)) = cc_sha cs (b @ payload (ar_row y))"
    using assms(1) ab(3) unfolding crypto_ok_def by (metis option.inject)
  with assms(6) mem have "a @ payload (ar_row x) = b @ payload (ar_row y)" unfolding collision_def by blast
  with len have "a = b" "payload (ar_row x) = payload (ar_row y)" by auto
  with ab payload_inject [OF assms(4,5)] show ?thesis by simp
qed

text \<open>A table in which every row is hashed and only the first one is an anchor.\<close>

fun anchored :: "audit_row list \<Rightarrow> bool" where
  "anchored [] \<longleftrightarrow> True"
| "anchored (r # rs) \<longleftrightarrow> ar_prev r = None \<and> ar_entry r \<noteq> None \<and>
     (\<forall>x \<in> set rs. ar_prev x \<noteq> None \<and> ar_entry x \<noteq> None)"

lemma anchored_of_report:
  assumes "crypto_ok cs" and "verify_conn cs rd = Some rep" and "cr_ok rep" and "checkpoint_set rd = {}"
    and "cr_pre_hash_rows rep = 0" and "cr_segments rep \<le> 1"
  shows "anchored (read_rows rd)"
proof -
  note ok = verify_conn_okD [OF assms(1-3)]
  have all: "\<forall>r \<in> set (read_rows rd). ar_entry r \<noteq> None" using ok(3) assms(5) by (simp add: filter_empty_conv)
  have chain: "chain_ok cs {} None (read_rows rd)" "\<not> rd_prepare_fails rd" "\<not> rd_query_fails rd"
    using ok(1) assms(4) by (simp_all add: intact_def)
  then have "verify_rows cs {} report_init None (read_rows rd) = Some rep"
    using assms(2,4) by (simp add: verify_conn_def)
  from verify_rows_segments [OF this assms(3)] assms(6)
  have one: "length (filter (\<lambda>r. ar_entry r \<noteq> None \<and> ar_prev r = None) (read_rows rd)) \<le> 1"
    by (simp add: report_init_def)
  show ?thesis
  proof (cases "read_rows rd")
    case (Cons r rs)
    with chain(1) all have "ar_prev r = None" by (auto simp: link_ok_def split: option.splits)
    with one all Cons have "filter (\<lambda>r. ar_entry r \<noteq> None \<and> ar_prev r = None) rs = []" by auto
    with Cons \<open>ar_prev r = None\<close> all show ?thesis by (auto simp: filter_empty_conv)
  qed simp
qed

definition contents :: "audit_row list \<Rightarrow> (chain_row \<times> string option \<times> string option) list" where
  "contents rs = map (\<lambda>r. (ar_row r, ar_prev r, ar_entry r)) rs"

lemma chain_last:
  assumes "chain_ok cs {} None (rs @ [r])" and "anchored (rs @ [r])"
  obtains h where "ar_entry r = Some h" and "entry_hash cs (prev_input r) (ar_row r) = Some h"
    and "chain_ok cs {} None rs" and "anchored rs"
    and "ar_prev r = (if rs = [] then None else ar_entry (last rs))"
proof -
  have e: "ar_entry r \<noteq> None" and an: "anchored rs" using assms(2) by (cases rs; auto)+
  from e obtain h where h: "ar_entry r = Some h" by blast
  have prev: "ar_prev r = (if rs = [] then None else ar_entry (last rs))"
  proof (cases rs rule: rev_cases)
    case Nil
    with assms(2) show ?thesis by simp
  next
    case (snoc xs x)
    with assms(2) obtain p where p: "ar_prev r = Some p" by (cases xs) auto
    from snoc assms(2) have "ar_entry x \<noteq> None" by (cases xs) auto
    then have "carry None rs = ar_entry x" by (auto simp: snoc carry_None last_entry_append)
    moreover have "carry None rs = Some p"
      using assms(1) p h unfolding chain_ok_append [of cs "{}" None rs] by (simp add: link_ok_def)
    ultimately show ?thesis by (simp add: snoc p)
  qed
  show thesis
    using that [OF h] assms(1) h an prev by (auto simp: chain_ok_append)
qed

lemma same_head_same_history:
  assumes "crypto_ok cs" and "\<not> collision cs (hashed cs zs)" and "\<not> zero_digest cs (hashed cs zs)"
    and "chain_ok cs {} None xs" and "anchored xs" and "chain_ok cs {} None ys" and "anchored ys"
    and "\<forall>r \<in> set xs \<union> set ys. row_ok (ar_row r)"
    and "xs \<noteq> []" and "ys \<noteq> []" and "ar_entry (last xs) = ar_entry (last ys)"
    and "set xs \<subseteq> set zs" and "set ys \<subseteq> set zs"
  shows "contents xs = contents ys"
  using assms(4-13)
proof (induction xs arbitrary: ys rule: rev_induct)
  case (snoc r rs)
  from snoc.prems(7) obtain ys' s where ys: "ys = ys' @ [s]" by (cases ys rule: rev_cases) auto
  obtain h where h: "ar_entry r = Some h" "entry_hash cs (prev_input r) (ar_row r) = Some h"
    "chain_ok cs {} None rs" "anchored rs" "ar_prev r = (if rs = [] then None else ar_entry (last rs))"
    by (rule chain_last [OF snoc.prems(1,2)])
  obtain k where k: "ar_entry s = Some k" "entry_hash cs (prev_input s) (ar_row s) = Some k"
    "chain_ok cs {} None ys'" "anchored ys'" "ar_prev s = (if ys' = [] then None else ar_entry (last ys'))"
    by (rule chain_last [OF snoc.prems(3,4) [unfolded ys]])
  have hk: "k = h" using snoc.prems(8) ys h(1) k(1) by simp
  from entry_hash_inject [OF assms(1) h(2) k(2) [unfolded hk], of zs] snoc.prems(5,9,10) ys assms(2)
  have un: "cc_unhex cs (prev_input r) = cc_unhex cs (prev_input s)" and row: "ar_row r = ar_row s"
    by simp_all
  have prev_hash: "\<exists>m \<in> hashed cs zs. ar_entry (last us) = Some (cc_hex cs (cc_sha cs m))"
    if "chain_ok cs {} None us" "anchored us" "us \<noteq> []" "set us \<subseteq> set zs" for us
  proof -
    have us: "butlast us @ [last us] = us" using that(3) by simp
    have ok: "chain_ok cs {} None (butlast us @ [last us])" "anchored (butlast us @ [last us])"
      using that(1,2) by (simp_all only: us)
    have l: "last us \<in> set zs" using that(3,4) by auto
    obtain e where "ar_entry (last us) = Some e"
      "entry_hash cs (prev_input (last us)) (ar_row (last us)) = Some e"
      by (rule chain_last [OF ok])
    with l show ?thesis by (auto simp: entry_hash_def hashed_def)
  qed
  have sub: "set rs \<subseteq> set zs" "set ys' \<subseteq> set zs" using snoc.prems(9,10) ys by auto
  have gen: "cc_unhex cs GENESIS_PREV = Some (replicate 32 0)" using assms(1) by (simp add: crypto_ok_def)
  have unh: "cc_unhex cs (cc_hex cs (cc_sha cs m)) = Some (cc_sha cs m)" for m
    using assms(1) by (simp add: crypto_ok_def)
  show ?case
  proof (cases "rs = [] \<or> ys' = []")
    case True
    have "rs = [] \<and> ys' = []"
    proof (rule ccontr)
      assume "\<not> (rs = [] \<and> ys' = [])"
      with True prev_hash [OF h(3,4) _ sub(1)] prev_hash [OF k(3,4) _ sub(2)] h(5) k(5) un gen unh
      obtain m where "m \<in> hashed cs zs" "cc_sha cs m = replicate 32 0"
        by (auto simp: prev_input_def)
      with assms(3) show False unfolding zero_digest_def by blast
    qed
    with h k hk row ys show ?thesis by (simp add: contents_def)
  next
    case False
    then have rs: "rs \<noteq> []" "ys' \<noteq> []" by auto
    obtain m where m: "ar_entry (last rs) = Some (cc_hex cs (cc_sha cs m))" using prev_hash [OF h(3,4) rs(1) sub(1)] by blast
    obtain n where n: "ar_entry (last ys') = Some (cc_hex cs (cc_sha cs n))" using prev_hash [OF k(3,4) rs(2) sub(2)] by blast
    have "cc_sha cs m = cc_sha cs n" using un h(5) k(5) rs m n unh by (simp add: prev_input_def)
    then have same: "ar_entry (last rs) = ar_entry (last ys')" using m n by simp
    have "contents rs = contents ys'"
      by (rule snoc.IH [OF h(3,4) k(3,4) _ rs same sub]) (use snoc.prems(5) ys in auto)
    with h k hk row same rs ys show ?thesis by (simp add: contents_def)
  qed
qed simp

section \<open>Properties\<close>

text \<open>
  C18. The verifier is total and exact, whatever the table holds and whichever query fails: it never
  panics; it reports success exactly when the two queries of the events succeed and, among the rows
  the cursor delivers, every row with a text in its \<open>entry_hash\<close> recomputes, as its columns are read,
  to that hash and links to the hash before it, to a checkpoint or to nothing (an anchor). On
  success the head is the hash of the last hashed row, and the hashed rows and the rows without
  a hash, which are counted and not checked, have the reported numbers; a failure names a row, or
  the row 0 for a failed query. Rows behind a failure of the cursor are not among those delivered.
\<close>

theorem verify_exact:
  assumes "crypto_ok cs"
  shows "\<exists>rep. verify_conn cs rd = Some rep
    \<and> (cr_ok rep \<longleftrightarrow> \<not> rd_prepare_fails rd \<and> \<not> rd_query_fails rd
         \<and> chain_ok cs (checkpoint_set rd) None (read_rows rd))
    \<and> (cr_ok rep \<longrightarrow> cr_chain_head rep = last_entry (read_rows rd)
         \<and> cr_hashed_rows rep = length (filter (\<lambda>r. ar_entry r \<noteq> None) (read_rows rd))
         \<and> cr_pre_hash_rows rep = length (filter (\<lambda>r. ar_entry r = None) (read_rows rd)))
    \<and> (\<not> cr_ok rep \<longrightarrow> cr_first_failure rep \<noteq> None)"
  using verify_conn_exact [OF assms] by (simp add: intact_def)


text \<open>
  C20. The head commits to the history: if two reads without checkpoints verify, both reports count
  no row without a hash and at most one segment, and they give the same head, then the rows read are
  the same with the same hashes, or SHA-256 has been broken by these very tables: two of the messages
  whose digests they store are different and have one digest, or one of them has the all-zero digest.
  The texts of the rows are shorter than the eight length bytes of the encoding can count.
\<close>

theorem head_commits_to_history:
  assumes "crypto_ok cs" and "verify_conn cs a = Some ra" and "cr_ok ra"
    and "verify_conn cs b = Some rb" and "cr_ok rb"
    and "checkpoint_set a = {}" and "checkpoint_set b = {}"
    and "cr_pre_hash_rows ra = 0" and "cr_segments ra \<le> 1"
    and "cr_pre_hash_rows rb = 0" and "cr_segments rb \<le> 1"
    and "\<forall>r \<in> set (read_rows a) \<union> set (read_rows b). row_ok (ar_row r)"
    and "cr_chain_head ra = cr_chain_head rb"
  shows "contents (read_rows a) = contents (read_rows b)
    \<or> collision cs (hashed cs (read_rows a @ read_rows b)) \<or> zero_digest cs (hashed cs (read_rows a @ read_rows b))"
proof -
  note A = verify_conn_okD [OF assms(1-3)] and B = verify_conn_okD [OF assms(1,4,5)]
  note an = anchored_of_report [OF assms(1-3,6,8,9)] anchored_of_report [OF assms(1,4,5,7,10,11)]
  have le: "last_entry zs = (if zs = [] then None else ar_entry (last zs))
      \<and> (zs \<noteq> [] \<longrightarrow> ar_entry (last zs) \<noteq> None)" if "anchored zs" for zs
  proof (cases zs rule: rev_cases)
    case (snoc xs x)
    with that have "ar_entry x \<noteq> None" by (cases xs) auto
    with snoc show ?thesis by (auto simp: last_entry_append)
  qed simp
  have chains: "chain_ok cs {} None (read_rows a)" "chain_ok cs {} None (read_rows b)"
    using A(1) B(1) assms(6,7) by (simp_all add: intact_def)
  have head: "last_entry (read_rows a) = last_entry (read_rows b)" using A B assms(13) by simp
  show ?thesis
  proof (cases "read_rows a = [] \<or> read_rows b = []")
    case True
    with head le [OF an(1)] le [OF an(2)] have "read_rows a = [] \<and> read_rows b = []" by (auto split: if_splits)
    then show ?thesis by (simp add: contents_def)
  next
    case False
    with head le [OF an(1)] le [OF an(2)]
    have "ar_entry (last (read_rows a)) = ar_entry (last (read_rows b))" by simp
    from same_head_same_history [OF assms(1) _ _ chains(1) an(1) chains(2) an(2) assms(12) _ _ this,
        of "read_rows a @ read_rows b"] False
    show ?thesis by auto
  qed
qed

text \<open>
  Rows without a hash are not checked wherever they stand: inserting a row whose
  \<open>entry_hash\<close> is null, or no text, at any place of a table, also after hashed rows, changes neither
  the verdict of the verifier nor the head it reports; only the number of such rows goes up.
\<close>

theorem unhashed_rows_unchecked:
  assumes "crypto_ok cs" and "get_text (rr_entry_hash forged) = None" and "rd_rows rd = xs @ ys"
  shows "\<exists>rep rep'. verify_conn cs rd = Some rep
    \<and> verify_conn cs (rd\<lparr>rd_rows := xs @ forged # ys\<rparr>) = Some rep'
    \<and> cr_ok rep' = cr_ok rep \<and> (cr_ok rep \<longrightarrow> cr_chain_head rep' = cr_chain_head rep)"
proof -
  let ?rd = "rd\<lparr>rd_rows := xs @ forged # ys\<rparr>"
  have e: "ar_entry (decode_row forged) = None" using assms(2) by (simp add: decode_row_def)
  have "checkpoint_set ?rd = checkpoint_set rd" by (simp add: checkpoint_set_def)
  then have "intact cs ?rd = intact cs rd"
    using e assms(3) by (simp add: intact_def read_rows_def chain_ok_append)
  moreover have "last_entry (read_rows ?rd) = last_entry (read_rows rd)"
  proof -
    have "last_entry (decode_row forged # zs) = last_entry zs" for zs
      using last_entry_append [of "[decode_row forged]" zs] e by (simp split: option.splits)
    then show ?thesis using assms(3) by (simp add: read_rows_def last_entry_append)
  qed
  ultimately show ?thesis
    using verify_conn_exact [OF assms(1), of rd] verify_conn_exact [OF assms(1), of ?rd] by metis
qed

text \<open>A read that breaks off is reported as the shorter table that was read.\<close>

theorem broken_read_verifies:
  assumes "crypto_ok cs" and "verify_conn cs rd = Some rep" and "cr_ok rep" and "rd_rows rd = xs @ ys"
  shows "\<exists>rep'. verify_conn cs (rd\<lparr>rd_rows := xs\<rparr>) = Some rep' \<and> cr_ok rep'"
proof -
  have "checkpoint_set (rd\<lparr>rd_rows := xs\<rparr>) = checkpoint_set rd" by (simp add: checkpoint_set_def)
  then have "intact cs (rd\<lparr>rd_rows := xs\<rparr>)"
    using verify_conn_okD(1) [OF assms(1-3)] assms(4) by (simp add: intact_def read_rows_def chain_ok_append)
  from verify_conn_intact [OF assms(1) this] show ?thesis by metis
qed

section \<open>Witnesses\<close>

text \<open>Hexadecimal as documented, and a digest of 32 bytes that is easy to compute.\<close>

definition hexd :: "nat \<Rightarrow> char" where
  "hexd n = char_of (if n < 10 then 48 + n else 87 + n)"

definition unhexd :: "char \<Rightarrow> nat" where
  "unhexd c = (let b = byte_of c in if b \<le> 57 then b - 48 else if 97 \<le> b then b - 87 else b - 55)"

definition toy_hex :: "bytes \<Rightarrow> string" where
  "toy_hex b = concat (map (\<lambda>x. [hexd (unat x div 16), hexd (unat x mod 16)]) b)"

fun unhex_pairs :: "string \<Rightarrow> bytes" where
  "unhex_pairs (a # b # cs) = of_nat (16 * unhexd a + unhexd b) # unhex_pairs cs"
| "unhex_pairs _ = []"

definition toy_crypto :: chain_crypto where
  "toy_crypto = \<lparr>cc_sha = (\<lambda>m. le_bytes 32 (Suc (from_le m))), cc_hex = toy_hex,
     cc_unhex = (\<lambda>s. if is_hash_text s then Some (unhex_pairs s) else None)\<rparr>"

lemma unhexd_hexd: "n < 16 \<Longrightarrow> unhexd (hexd n) = n"
  by (auto simp: unhexd_def hexd_def byte_of_def Let_def)

lemma hexd_range: "n < 16 \<Longrightarrow> (CHR ''0'' \<le> hexd n \<and> hexd n \<le> CHR ''9'') \<or> (CHR ''a'' \<le> hexd n \<and> hexd n \<le> CHR ''f'')"
  by (auto simp: hexd_def less_eq_char_def)

lemma unhex_pairs_hex: "unhex_pairs (toy_hex b) = b"
proof (induction b)
  case (Cons x b)
  have x: "unat x < 256" by (rule unat_byte_less)
  then have "unat x div 16 < 16" "unat x mod 16 < 16" by auto
  with Cons show ?case by (simp add: toy_hex_def unhexd_hexd del: of_nat_add of_nat_mult)
qed (simp add: toy_hex_def)

lemma length_toy_hex: "length (toy_hex b) = 2 * length b"
  by (induction b) (simp_all add: toy_hex_def)

lemma toy_hex_text: "length b = 32 \<Longrightarrow> is_hash_text (toy_hex b)"
proof -
  have "c \<in> set (toy_hex b) \<Longrightarrow> (CHR ''0'' \<le> c \<and> c \<le> CHR ''9'') \<or> (CHR ''a'' \<le> c \<and> c \<le> CHR ''f'')" for c
  proof -
    assume "c \<in> set (toy_hex b)"
    then obtain x :: byte where "c = hexd (unat x div 16) \<or> c = hexd (unat x mod 16)"
      unfolding toy_hex_def by (fastforce simp: image_iff)
    moreover have "unat x div 16 < 16" using unat_byte_less [of x] by auto
    ultimately show ?thesis using hexd_range [of "unat x div 16"] hexd_range [of "unat x mod 16"] by auto
  qed
  then show "length b = 32 \<Longrightarrow> is_hash_text (toy_hex b)" by (auto simp: is_hash_text_def length_toy_hex)
qed

lemma length_unhex_pairs: "length (unhex_pairs s) = length s div 2"
  by (induction s rule: unhex_pairs.induct) simp_all

lemma toy_crypto_ok: "crypto_ok toy_crypto"
proof -
  have "is_hash_text GENESIS_PREV" by code_simp
  moreover have "unhex_pairs GENESIS_PREV = replicate 32 0" by code_simp
  moreover have "length (unhex_pairs s) = 32" if "is_hash_text s" for s
    using that by (simp add: is_hash_text_def length_unhex_pairs)
  ultimately show ?thesis
    by (simp add: crypto_ok_def toy_crypto_def unhex_pairs_hex toy_hex_text)
qed

definition ev0 :: audit_event where
  "ev0 = \<lparr>e_event_id = ''e0'', e_timestamp = ''2026-01-01T00:00:00+00:00'', e_agent_name = ''alice'',
     e_host_name = ''web1'', e_session_name = [], e_pane_id = None, e_operation_id = Some ''op'',
     e_action_json = [CHR 0x22] @ ''Exec'' @ [CHR 0x22], e_detail = ''ls'', e_redacted = False,
     e_output_summary = None, e_success = True, e_duration_ms = 3, e_error_message = None\<rparr>"

definition audit0 :: audit_db where
  "audit0 = \<lparr>ad_rows = [], ad_checkpoints = [], ad_next_id = 1\<rparr>"

definition row1 :: audit_row where
  "row1 = \<lparr>ar_id = 1, ar_row = from_event ev0, ar_prev = None,
     ar_entry = entry_hash toy_crypto GENESIS_PREV (from_event ev0)\<rparr>"

definition audit1 :: audit_db where
  "audit1 = \<lparr>ad_rows = [row1], ad_checkpoints = [], ad_next_id = 2\<rparr>"

lemma row1_entry: "\<exists>h. entry_hash toy_crypto GENESIS_PREV (from_event ev0) = Some h"
  by (rule entry_hash_defined(2) [OF toy_crypto_ok])

lemma audit1_intact: "intact toy_crypto (table_read audit1)"
  using row1_entry by (auto simp: audit1_def row1_def link_ok_def prev_input_def)

lemma audit1_verify:
  obtains rep where "verify_conn toy_crypto (table_read audit1) = Some rep" and "cr_ok rep"
    and "cr_chain_head rep = ar_entry row1"
  using verify_conn_intact [OF toy_crypto_ok audit1_intact] by (auto simp: audit1_def)

theorem verify_exact_witness:
  "\<exists>rep. verify_conn toy_crypto (table_read audit1) = Some rep \<and> cr_ok rep
     \<and> cr_chain_head rep = entry_hash toy_crypto GENESIS_PREV (from_event ev0)
     \<and> cr_hashed_rows rep = 1 \<and> cr_pre_hash_rows rep = 0"
proof -
  have "length (filter (\<lambda>r. ar_entry r \<noteq> None) [row1]) = 1" "length (filter (\<lambda>r. ar_entry r = None) [row1]) = 0"
    using row1_entry by (auto simp: row1_def)
  moreover have "ar_entry row1 = entry_hash toy_crypto GENESIS_PREV (from_event ev0)" by (simp add: row1_def)
  ultimately show ?thesis
    using verify_exact [OF toy_crypto_ok, of "table_read audit1"] audit1_intact
    by (auto simp: audit1_def intact_def)
qed


theorem head_commits_to_history_witness:
  "contents (read_rows (table_read audit1)) = contents (read_rows (table_read (audit1\<lparr>ad_rows := [row1\<lparr>ar_id := 7\<rparr>]\<rparr>)))
    \<or> collision toy_crypto (hashed toy_crypto [row1, row1\<lparr>ar_id := 7\<rparr>])
    \<or> zero_digest toy_crypto (hashed toy_crypto [row1, row1\<lparr>ar_id := 7\<rparr>])"
proof -
  let ?b = "audit1\<lparr>ad_rows := [row1\<lparr>ar_id := 7\<rparr>]\<rparr>"
  have e: "ar_entry row1 \<noteq> None" using row1_entry by (auto simp: row1_def)
  obtain ra where a: "verify_conn toy_crypto (table_read audit1) = Some ra" "cr_ok ra" "cr_chain_head ra = ar_entry row1"
    by (rule audit1_verify)
  have "intact toy_crypto (table_read ?b)"
    using row1_entry by (auto simp: audit1_def row1_def link_ok_def prev_input_def)
  from verify_conn_intact [OF toy_crypto_ok this]
  obtain rb where b: "verify_conn toy_crypto (table_read ?b) = Some rb" "cr_ok rb" "cr_chain_head rb = ar_entry row1"
    by auto
  have cps: "checkpoint_set (table_read audit1) = {}" "checkpoint_set (table_read ?b) = {}"
    by (simp_all add: checkpoints_def audit1_def)
  have pre: "cr_pre_hash_rows ra = 0" "cr_pre_hash_rows rb = 0"
    using verify_conn_okD(3) [OF toy_crypto_ok a(1,2)] verify_conn_okD(3) [OF toy_crypto_ok b(1,2)] e
    by (auto simp: audit1_def)
  have runs: "verify_rows toy_crypto {} report_init None [row1] = Some ra"
    "verify_rows toy_crypto {} report_init None [row1\<lparr>ar_id := 7\<rparr>] = Some rb"
    using a(1) b(1) unfolding verify_conn_def cps by (simp_all add: audit1_def del: verify_rows.simps)
  have seg: "cr_segments ra \<le> 1" "cr_segments rb \<le> 1"
    using verify_rows_segments [OF runs(1) a(2)] verify_rows_segments [OF runs(2) b(2)]
    by (simp_all add: report_init_def)
  have "row_ok (ar_row row1)"
    by (simp add: row_ok_def row1_def from_event_def ev0_def str_ok_def opt_ok_def action_column_def trim_char_def)
  then have ok: "\<forall>r \<in> set (read_rows (table_read audit1)) \<union> set (read_rows (table_read ?b)). row_ok (ar_row r)"
    by (simp add: audit1_def)
  show ?thesis
    using head_commits_to_history [OF toy_crypto_ok a(1,2) b(1,2) cps pre(1) seg(1) pre(2) seg(2) ok] a(3) b(3)
    by (simp add: audit1_def)
qed

end
