(* ===== verification/Stream_Filters.thy ===== *)
theory Stream_Filters
  imports Prelude
begin

text \<open>
  The two filters on the terminal output stream of the client
  (\<open>clum-cli/src/tui/kitty_filter.rs\<close> and \<open>clum-cli/src/tui/alt_guard.rs\<close>). Both hold back an
  unfinished escape sequence and decide what to forward once it is complete, so that a sequence
  may be cut anywhere by the chunks of the stream. The locale \<open>byte_filter\<close> states what they have
  in common; each filter is then described by the sequences it recognises and by what it forwards
  for a recognised one.
\<close>

section \<open>The loop over a chunk\<close>

text \<open>\<open>for &b in chunk\<close>, collecting what a step appends to \<open>out\<close>.\<close>

fun feed_bytes :: "('s \<Rightarrow> byte \<Rightarrow> 's \<times> bytes) \<Rightarrow> 's \<Rightarrow> bytes \<Rightarrow> 's \<times> bytes" where
  "feed_bytes step s [] = (s, [])"
| "feed_bytes step s (b # bs) =
     (let (s1, o1) = step s b; (s2, o2) = feed_bytes step s1 bs in (s2, o1 @ o2))"

fun feed_chunks :: "('s \<Rightarrow> bytes \<Rightarrow> 's \<times> bytes) \<Rightarrow> 's \<Rightarrow> bytes list \<Rightarrow> 's \<times> bytes" where
  "feed_chunks feed s [] = (s, [])"
| "feed_chunks feed s (c # cs) =
     (let (s1, o1) = feed s c; (s2, o2) = feed_chunks feed s1 cs in (s2, o1 @ o2))"

lemma feed_bytes_append:
  "feed_bytes step s (xs @ ys) =
     (let (s1, o1) = feed_bytes step s xs; (s2, o2) = feed_bytes step s1 ys in (s2, o1 @ o2))"
  by (induction xs arbitrary: s) (auto simp: Let_def split: prod.splits)

lemma feed_chunks_concat: "feed_chunks (feed_bytes step) s cs = feed_bytes step s (concat cs)"
  by (induction cs arbitrary: s) (simp_all add: feed_bytes_append)

section \<open>What the filters share\<close>

text \<open>
  A state holds back some bytes. A step either holds back its byte too, or completes a piece of
  the input, which is a token, and forwards what \<open>render\<close> makes of it.
\<close>

locale byte_filter =
  fixes step :: "'s \<Rightarrow> byte \<Rightarrow> 's \<times> bytes"
    and inv :: "'s \<Rightarrow> bool"
    and held :: "'s \<Rightarrow> bytes"
    and token :: "bytes \<Rightarrow> bool"
    and render :: "bytes \<Rightarrow> bytes"
  assumes step_piece: "inv s \<Longrightarrow> step s b = (s', out) \<Longrightarrow>
    inv s' \<and> (held s' = held s @ [b] \<and> out = [] \<or>
               held s' = [] \<and> token (held s @ [b]) \<and> out = render (held s @ [b]))"
begin

lemma feed_pieces:
  assumes "inv s" and "feed_bytes step s bs = (s', out)"
  shows "inv s' \<and> (\<exists>ps. held s @ bs = concat ps @ held s' \<and> (\<forall>p \<in> set ps. token p) \<and> out = concat (map render ps))"
  using assms
proof (induction bs arbitrary: s s' out)
  case Nil
  then show ?case by (auto intro: exI [of _ "[]"])
next
  case (Cons b bs)
  obtain s1 o1 where s1: "step s b = (s1, o1)" by (cases "step s b")
  obtain s2 o2 where s2: "feed_bytes step s1 bs = (s2, o2)" by (cases "feed_bytes step s1 bs")
  from Cons.prems(2) s1 s2 have eq: "s' = s2" "out = o1 @ o2" by simp_all
  note piece = step_piece [OF Cons.prems(1) s1]
  then have "inv s1" ..
  from Cons.IH [OF this s2] obtain ps where ps: "inv s2" "held s1 @ bs = concat ps @ held s2"
    "\<forall>p \<in> set ps. token p" "o2 = concat (map render ps)" by blast
  from piece consider "held s1 = held s @ [b]" "o1 = []"
    | "held s1 = []" "token (held s @ [b])" "o1 = render (held s @ [b])" by blast
  then show ?case
  proof cases
    case 1
    with ps eq show ?thesis by (intro conjI exI [of _ ps]) auto
  next
    case 2
    with ps eq show ?thesis by (intro conjI exI [of _ "(held s @ [b]) # ps"]) auto
  qed
qed

end
section \<open>The kitty keyboard filter\<close>

definition ESC :: byte where "ESC = 0x1b"

definition MAX_SEQ_LEN :: nat where "MAX_SEQ_LEN = 32"

datatype kitty_state = KGround | KEsc | KIntro byte | KParams byte nat

record kitty_filter =
  k_active :: bool
  k_state :: kitty_state
  k_pending :: bytes

definition kitty_new :: "bool \<Rightarrow> kitty_filter" where
  "kitty_new active = \<lparr>k_active = active, k_state = KGround, k_pending = []\<rparr>"

definition k_flush :: "kitty_filter \<Rightarrow> kitty_filter \<times> bytes" where
  "k_flush f = (f\<lparr>k_pending := [], k_state := KGround\<rparr>, k_pending f)"

text \<open>The bytes \<open>0-9 ; :\<close>, which may stand between the introducer and the final byte.\<close>

definition kitty_param :: "byte \<Rightarrow> bool" where
  "kitty_param b \<longleftrightarrow> 0x30 \<le> b \<and> b \<le> 0x39 \<or> b = 0x3b \<or> b = 0x3a"

definition kitty_step :: "kitty_filter \<Rightarrow> byte \<Rightarrow> kitty_filter \<times> bytes" where
  "kitty_step f b = (case k_state f of
     KGround \<Rightarrow>
       if b = ESC then (f\<lparr>k_state := KEsc, k_pending := k_pending f @ [b]\<rparr>, []) else (f, [b])
   | KEsc \<Rightarrow>
       if b \<noteq> 0x5b then k_flush (f\<lparr>k_pending := k_pending f @ [b]\<rparr>)
       else (let f = f\<lparr>k_state := KIntro 0x5b, k_pending := k_pending f @ [b]\<rparr>
             in if MAX_SEQ_LEN < length (k_pending f) then k_flush f else (f, []))
   | KIntro _ \<Rightarrow>
       if b = 0x3e \<or> b = 0x3d \<or> b = 0x3c
       then (f\<lparr>k_state := KParams b (length (k_pending f)), k_pending := k_pending f @ [b]\<rparr>, [])
       else k_flush (f\<lparr>k_pending := k_pending f @ [b]\<rparr>)
   | KParams kind len \<Rightarrow>
       (let f = f\<lparr>k_pending := k_pending f @ [b]\<rparr>
        in if kitty_param b then
             (if MAX_SEQ_LEN < length (k_pending f) - len then k_flush f else (f, []))
           else if b = 0x75 then
             (if kind = 0x3c then k_flush f else (f\<lparr>k_pending := [], k_state := KGround\<rparr>, []))
           else k_flush f))"

definition kitty_feed :: "kitty_filter \<Rightarrow> bytes \<Rightarrow> kitty_filter \<times> bytes" where
  "kitty_feed f chunk = (if \<not> k_active f then (f, chunk) else feed_bytes kitty_step f chunk)"

text \<open>
  The pieces the filter cuts the stream into: a byte outside a sequence, a two-byte sequence, a
  control sequence without the kitty introducers, one with it and its final byte, or the first 35
  bytes of one that is too long. No piece is a prefix of another.
\<close>

definition kitty_token :: "bytes \<Rightarrow> bool" where
  "kitty_token p \<longleftrightarrow>
     (\<exists>b. p = [b] \<and> b \<noteq> ESC) \<or> (\<exists>b. p = [ESC, b] \<and> b \<noteq> 0x5b)
     \<or> (\<exists>b. p = [ESC, 0x5b, b] \<and> b \<notin> {0x3e, 0x3d, 0x3c})
     \<or> (\<exists>k ps b. p = [ESC, 0x5b, k] @ ps @ [b] \<and> k \<in> {0x3e, 0x3d, 0x3c} \<and> (\<forall>x \<in> set ps. kitty_param x)
          \<and> length ps < MAX_SEQ_LEN \<and> (kitty_param b \<longrightarrow> Suc (length ps) = MAX_SEQ_LEN))"

text \<open>The activation sequences: \<open>ESC [ > params u\<close> and \<open>ESC [ = params u\<close>.\<close>

definition kitty_activation :: "bytes \<Rightarrow> bool" where
  "kitty_activation p \<longleftrightarrow> 4 \<le> length p \<and> take 2 p = [ESC, 0x5b] \<and> p ! 2 \<in> {0x3e, 0x3d} \<and> last p = 0x75"

definition kitty_render :: "bytes \<Rightarrow> bytes" where
  "kitty_render p = (if kitty_activation p then [] else p)"

definition kitty_inv :: "kitty_filter \<Rightarrow> bool" where
  "kitty_inv f \<longleftrightarrow> (case k_state f of
     KGround \<Rightarrow> k_pending f = []
   | KEsc \<Rightarrow> k_pending f = [ESC]
   | KIntro _ \<Rightarrow> k_pending f = [ESC, 0x5b]
   | KParams k n \<Rightarrow> n = 2 \<and> k \<in> {0x3e, 0x3d, 0x3c}
       \<and> (\<exists>ps. k_pending f = [ESC, 0x5b, k] @ ps \<and> (\<forall>x \<in> set ps. kitty_param x) \<and> length ps < MAX_SEQ_LEN))"

lemma kitty_token_simps:
  "b \<noteq> ESC \<Longrightarrow> kitty_token [b]"
  "b \<noteq> 0x5b \<Longrightarrow> kitty_token [ESC, b]"
  "b \<noteq> 0x3e \<Longrightarrow> b \<noteq> 0x3d \<Longrightarrow> b \<noteq> 0x3c \<Longrightarrow> kitty_token [ESC, 0x5b, b]"
  by (simp_all add: kitty_token_def)

lemma kitty_token_long:
  "k \<in> {0x3e, 0x3d, 0x3c} \<Longrightarrow> \<forall>x \<in> set ps. kitty_param x \<Longrightarrow> length ps < MAX_SEQ_LEN \<Longrightarrow>
    (kitty_param b \<longrightarrow> Suc (length ps) = MAX_SEQ_LEN) \<Longrightarrow> kitty_token (ESC # 0x5b # k # ps @ [b])"
  unfolding kitty_token_def by (intro disjI2 exI [of _ k] exI [of _ ps] exI [of _ b]) simp

lemma kitty_render_long:
  "kitty_render (ESC # 0x5b # k # ps @ [b]) = (if k \<in> {0x3e, 0x3d} \<and> b = 0x75 then [] else ESC # 0x5b # k # ps @ [b])"
  by (simp add: kitty_render_def kitty_activation_def)

lemma kitty_render_short: "length p < 4 \<Longrightarrow> kitty_render p = p"
  by (simp add: kitty_render_def kitty_activation_def)

lemma kitty_step_params:
  assumes "k_state f = KParams k 2" and "k \<in> {0x3e, 0x3d, 0x3c}" and "k_pending f = [ESC, 0x5b, k] @ ps"
    and "\<forall>x \<in> set ps. kitty_param x" and "length ps < MAX_SEQ_LEN" and "kitty_step f b = (f', out)"
  shows "kitty_inv f' \<and> (k_pending f' = k_pending f @ [b] \<and> out = [] \<or>
    k_pending f' = [] \<and> kitty_token (k_pending f @ [b]) \<and> out = kitty_render (k_pending f @ [b]))"
proof (cases "kitty_param b")
  case True
  then have "b \<noteq> 0x75" by (auto simp: kitty_param_def)
  show ?thesis
  proof (cases "Suc (length ps) < MAX_SEQ_LEN")
    case less: True
    with assms True have "f' = f\<lparr>k_pending := [ESC, 0x5b, k] @ (ps @ [b])\<rparr>" "out = []"
      by (auto simp: kitty_step_def k_flush_def MAX_SEQ_LEN_def)
    moreover have "\<forall>x \<in> set (ps @ [b]). kitty_param x" "length (ps @ [b]) < MAX_SEQ_LEN"
      using assms(4) True less by auto
    ultimately show ?thesis using assms(1-3) unfolding kitty_inv_def by auto
  next
    case False
    with assms(5) have len: "Suc (length ps) = MAX_SEQ_LEN" by simp
    with assms True have "f' = f\<lparr>k_pending := [], k_state := KGround\<rparr>" "out = k_pending f @ [b]"
      by (auto simp: kitty_step_def k_flush_def)
    with assms True len \<open>b \<noteq> 0x75\<close> show ?thesis
      by (simp add: kitty_inv_def kitty_token_long kitty_render_long)
  qed
next
  case False
  then have tok: "kitty_token (k_pending f @ [b])" using assms(2-5) by (simp add: kitty_token_long)
  have "f' = f\<lparr>k_pending := [], k_state := KGround\<rparr>"
    using assms(1,6) False by (auto simp: kitty_step_def k_flush_def Let_def split: if_splits)
  moreover have "out = kitty_render (k_pending f @ [b])"
    using assms(1,2,3,6) False by (auto simp: kitty_step_def k_flush_def Let_def kitty_render_long split: if_splits)
  ultimately show ?thesis using tok by (simp add: kitty_inv_def)
qed

interpretation kitty: byte_filter kitty_step kitty_inv k_pending kitty_token kitty_render
proof
  fix f b f' out
  assume inv: "kitty_inv f" and step: "kitty_step f b = (f', out)"
  show "kitty_inv f' \<and> (k_pending f' = k_pending f @ [b] \<and> out = [] \<or>
    k_pending f' = [] \<and> kitty_token (k_pending f @ [b]) \<and> out = kitty_render (k_pending f @ [b]))"
  proof (cases "k_state f")
    case (KParams k n)
    with inv obtain ps where "n = 2" "k \<in> {0x3e, 0x3d, 0x3c}" "k_pending f = [ESC, 0x5b, k] @ ps"
      "\<forall>x \<in> set ps. kitty_param x" "length ps < MAX_SEQ_LEN" by (auto simp: kitty_inv_def)
    with kitty_step_params [OF _ _ _ _ _ step] KParams show ?thesis by blast
  next
    case (KIntro x)
    with inv step show ?thesis
      by (cases "b = 0x3e \<or> b = 0x3d \<or> b = 0x3c")
        (auto simp: kitty_inv_def kitty_step_def k_flush_def kitty_token_simps kitty_render_short MAX_SEQ_LEN_def)
  qed (use inv step in \<open>auto simp: kitty_inv_def kitty_step_def k_flush_def kitty_token_simps
      kitty_render_short MAX_SEQ_LEN_def split: if_splits\<close>)
qed

section \<open>The alternate-screen guard\<close>

datatype alt_state = AGround | AEsc | AParams

record alt_guard =
  a_active :: bool
  a_state :: alt_state
  a_nums :: "nat list"
  a_cur :: "nat option"
  a_pending :: bytes

definition alt_new :: "bool \<Rightarrow> alt_guard" where
  "alt_new active = \<lparr>a_active = active, a_state = AGround, a_nums = [], a_cur = None, a_pending = []\<rparr>"

definition ALT_OFF_GUARD :: bytes where
  "ALT_OFF_GUARD = [0x1b, 0x5b, 0x73, 0x1b, 0x5b, 0x72, 0x1b, 0x5b, 0x75]"

definition ALT_OFF_MODES :: "nat list" where
  "ALT_OFF_MODES = [47, 1047, 1049]"

definition reset_seq :: "alt_guard \<Rightarrow> alt_guard" where
  "reset_seq g = g\<lparr>a_pending := [], a_nums := [], a_cur := None, a_state := AGround\<rparr>"

definition end_param :: "alt_guard \<Rightarrow> alt_guard" where
  "end_param g = (case a_cur g of Some v \<Rightarrow> g\<lparr>a_nums := a_nums g @ [v], a_cur := None\<rparr> | None \<Rightarrow> g)"

definition is_digit_byte :: "byte \<Rightarrow> bool" where
  "is_digit_byte b \<longleftrightarrow> 0x30 \<le> b \<and> b \<le> 0x39"

definition is_marker_byte :: "byte \<Rightarrow> bool" where
  "is_marker_byte b \<longleftrightarrow> b \<in> {0x3f, 0x3c, 0x3d, 0x3e, 0x3a, 0x20}"

text \<open>\<open>u16::saturating_mul(10).saturating_add(d)\<close>.\<close>

definition sat_push :: "nat \<Rightarrow> byte \<Rightarrow> nat" where
  "sat_push v b = min 65535 (min 65535 (v * 10) + unat (b - 0x30))"

definition alt_params :: "alt_guard \<Rightarrow> byte \<Rightarrow> alt_guard \<times> bytes" where
  "alt_params g b =
     (if is_digit_byte b then (g\<lparr>a_cur := Some (sat_push (case a_cur g of Some v \<Rightarrow> v | None \<Rightarrow> 0) b)\<rparr>, [])
      else if b = 0x3b then (end_param g, [])
      else if is_marker_byte b then (g, [])
      else if b = 0x6c then
        (let g = end_param g; leak = (\<exists>n \<in> set (a_nums g). n \<in> set ALT_OFF_MODES)
         in (reset_seq g, a_pending g @ (if leak then ALT_OFF_GUARD else [])))
      else (reset_seq g, a_pending g))"

definition alt_step :: "alt_guard \<Rightarrow> byte \<Rightarrow> alt_guard \<times> bytes" where
  "alt_step g b = (case a_state g of
     AGround \<Rightarrow>
       if b = ESC then (g\<lparr>a_pending := a_pending g @ [b], a_state := AEsc\<rparr>, []) else (g, [b])
   | AEsc \<Rightarrow>
       (let g = g\<lparr>a_pending := a_pending g @ [b]\<rparr>
        in if b = 0x5b then (g\<lparr>a_state := AParams\<rparr>, []) else (reset_seq (end_param g), a_pending g))
   | AParams \<Rightarrow>
       (let (g, out) = alt_params (g\<lparr>a_pending := a_pending g @ [b]\<rparr>) b
        in if a_state g = AParams \<and> MAX_SEQ_LEN < length (a_pending g)
           then (reset_seq (end_param g), out @ a_pending g) else (g, out)))"

definition alt_feed :: "alt_guard \<Rightarrow> bytes \<Rightarrow> alt_guard \<times> bytes" where
  "alt_feed g chunk = (if \<not> a_active g then (g, chunk) else feed_bytes alt_step g chunk)"

text \<open>
  The mode numbers of a control sequence, read off its whole body: its fields between semicolons,
  each the decimal number its digits spell, of any size; a field without digits has none.
\<close>

fun split_semi :: "bytes \<Rightarrow> bytes list" where
  "split_semi [] = [[]]"
| "split_semi (b # bs) = (if b = 0x3b then [] # split_semi bs
     else (b # hd (split_semi bs)) # tl (split_semi bs))"

definition decimal :: "bytes \<Rightarrow> nat" where
  "decimal ds = foldl (\<lambda>v b. v * 10 + unat (b - 0x30)) 0 ds"

definition field_value :: "bytes \<Rightarrow> nat option" where
  "field_value f = (let ds = filter is_digit_byte f in if ds = [] then None else Some (decimal ds))"

definition alt_param :: "byte \<Rightarrow> bool" where
  "alt_param b \<longleftrightarrow> is_digit_byte b \<or> b = 0x3b \<or> is_marker_byte b"

text \<open>Leaving the alternate screen: \<open>ESC [ ... l\<close> with one of the three modes among its fields.\<close>

definition alt_off :: "bytes \<Rightarrow> bool" where
  "alt_off p \<longleftrightarrow> 3 \<le> length p \<and> take 2 p = [ESC, 0x5b] \<and> last p = 0x6c
     \<and> (\<exists>f \<in> set (split_semi (butlast (drop 2 p))). \<exists>n \<in> set ALT_OFF_MODES. field_value f = Some n)"

definition alt_render :: "bytes \<Rightarrow> bytes" where
  "alt_render p = p @ (if alt_off p then ALT_OFF_GUARD else [])"

definition alt_token :: "bytes \<Rightarrow> bool" where
  "alt_token p \<longleftrightarrow>
     (\<exists>b. p = [b] \<and> b \<noteq> ESC) \<or> (\<exists>b. p = [ESC, b] \<and> b \<noteq> 0x5b)
     \<or> (\<exists>ps b. p = [ESC, 0x5b] @ ps @ [b] \<and> (\<forall>x \<in> set ps. alt_param x)
          \<and> length ps + 2 \<le> MAX_SEQ_LEN \<and> (alt_param b \<longrightarrow> length ps + 2 = MAX_SEQ_LEN))"

definition sat_value :: "bytes \<Rightarrow> nat option" where
  "sat_value f = map_option (min 65535) (field_value f)"

definition alt_inv :: "alt_guard \<Rightarrow> bool" where
  "alt_inv g \<longleftrightarrow> (case a_state g of
     AGround \<Rightarrow> a_pending g = [] \<and> a_nums g = [] \<and> a_cur g = None
   | AEsc \<Rightarrow> a_pending g = [ESC] \<and> a_nums g = [] \<and> a_cur g = None
   | AParams \<Rightarrow> (\<exists>ps. a_pending g = [ESC, 0x5b] @ ps \<and> (\<forall>x \<in> set ps. alt_param x) \<and> length ps + 2 \<le> MAX_SEQ_LEN
       \<and> a_nums g = List.map_filter sat_value (butlast (split_semi ps)) \<and> a_cur g = sat_value (last (split_semi ps))))"

lemma split_semi_ne [simp]: "split_semi bs \<noteq> []"
  by (cases bs) simp_all

lemma split_semi_snoc:
  "split_semi (bs @ [b]) = (if b = 0x3b then split_semi bs @ [[]]
     else butlast (split_semi bs) @ [last (split_semi bs) @ [b]])"
proof (induction bs)
  case (Cons x bs)
  obtain f fs where "split_semi bs = f # fs" by (cases "split_semi bs") auto
  with Cons show ?case by (auto split: if_splits)
qed simp

lemma field_value_Nil [simp]: "field_value [] = None"
  by (simp add: field_value_def)

lemma sat_value_snoc_digit:
  assumes "is_digit_byte b"
  shows "sat_value (f @ [b]) = Some (sat_push (case sat_value f of Some v \<Rightarrow> v | None \<Rightarrow> 0) b)"
proof -
  have "decimal (ds @ [b]) = decimal ds * 10 + unat (b - 0x30)" for ds by (simp add: decimal_def)
  with assms show ?thesis
    by (auto simp: sat_value_def field_value_def sat_push_def decimal_def Let_def min_def)
qed

lemma sat_value_snoc_other: "\<not> is_digit_byte b \<Longrightarrow> sat_value (f @ [b]) = sat_value f"
  by (simp add: sat_value_def field_value_def)

lemma map_filter_snoc: "List.map_filter f (xs @ [x]) = List.map_filter f xs @ (case f x of Some y \<Rightarrow> [y] | None \<Rightarrow> [])"
  by (induction xs) (auto simp: List.map_filter_def split: option.splits)

text \<open>Saturation hides none of the three modes.\<close>

lemma sat_value_modes:
  "n \<in> set ALT_OFF_MODES \<Longrightarrow> sat_value f = Some n \<longleftrightarrow> field_value f = Some n"
  by (auto simp: sat_value_def ALT_OFF_MODES_def min_def)

lemma leak_iff:
  "(\<exists>n \<in> set (List.map_filter sat_value fs). n \<in> set ALT_OFF_MODES) \<longleftrightarrow>
     (\<exists>f \<in> set fs. \<exists>n \<in> set ALT_OFF_MODES. field_value f = Some n)"
proof -
  have "n \<in> set (List.map_filter sat_value fs) \<longleftrightarrow> (\<exists>f \<in> set fs. sat_value f = Some n)" for n
    by (force simp: List.map_filter_def)
  then show ?thesis using sat_value_modes by blast
qed

lemma byte_classes:
  "is_digit_byte b \<Longrightarrow> b \<noteq> 0x3b \<and> b \<noteq> 0x6c \<and> \<not> is_marker_byte b"
  "is_marker_byte b \<Longrightarrow> b \<noteq> 0x3b \<and> b \<noteq> 0x6c"
  "\<not> is_digit_byte 0x3b" "\<not> is_digit_byte 0x6c" "\<not> alt_param 0x6c"
  by (auto simp: is_digit_byte_def is_marker_byte_def alt_param_def)

lemma end_param_simps [simp]:
  "a_pending (end_param g) = a_pending g" "a_state (end_param g) = a_state g"
  by (simp_all add: end_param_def split: option.splits)

lemma end_param_nums:
  assumes "a_nums g = List.map_filter sat_value (butlast fs)" and "a_cur g = sat_value (last fs)" and "fs \<noteq> []"
  shows "a_nums (end_param g) = List.map_filter sat_value fs"
proof -
  obtain ys y where "fs = ys @ [y]" using assms(3) by (cases fs rule: rev_cases) auto
  with assms show ?thesis by (simp add: end_param_def map_filter_snoc split: option.splits)
qed

text \<open>Inside the parameters the two registers follow the fields read so far.\<close>

lemma alt_params_track:
  assumes "alt_param b"
    and "a_nums g = List.map_filter sat_value (butlast (split_semi ps))" and "a_cur g = sat_value (last (split_semi ps))"
  obtains g' where "alt_params g b = (g', [])" and "a_state g' = a_state g" and "a_pending g' = a_pending g"
    and "a_nums g' = List.map_filter sat_value (butlast (split_semi (ps @ [b])))"
    and "a_cur g' = sat_value (last (split_semi (ps @ [b])))"
proof -
  consider (digit) "is_digit_byte b" | (semi) "b = 0x3b" | (marker) "is_marker_byte b"
    using assms(1) by (auto simp: alt_param_def)
  then show thesis
  proof cases
    case digit
    with that [of "g\<lparr>a_cur := Some (sat_push (case a_cur g of Some v \<Rightarrow> v | None \<Rightarrow> 0) b)\<rparr>"] assms(2,3) byte_classes(1) [of b]
    show thesis by (simp add: alt_params_def split_semi_snoc sat_value_snoc_digit)
  next
    case semi
    have "a_cur (end_param g) = None" by (simp add: end_param_def split: option.splits)
    with that [of "end_param g"] semi end_param_nums [OF assms(2,3)] byte_classes(3) show thesis
      by (simp add: alt_params_def split_semi_snoc sat_value_def)
  next
    case marker
    then have "\<not> is_digit_byte b" "b \<noteq> 0x3b" using byte_classes(1,2) [of b] by blast+
    with marker that [of g] assms(2,3) show thesis
      by (simp add: alt_params_def split_semi_snoc sat_value_snoc_other)
  qed
qed

lemma alt_token_simps:
  "b \<noteq> ESC \<Longrightarrow> alt_token [b]"
  "b \<noteq> 0x5b \<Longrightarrow> alt_token [ESC, b]"
  by (simp_all add: alt_token_def)

lemma alt_token_long:
  "\<forall>x \<in> set ps. alt_param x \<Longrightarrow> length ps + 2 \<le> MAX_SEQ_LEN \<Longrightarrow> (alt_param b \<longrightarrow> length ps + 2 = MAX_SEQ_LEN) \<Longrightarrow>
    alt_token (ESC # 0x5b # ps @ [b])"
  unfolding alt_token_def by (intro disjI2 exI [of _ ps] exI [of _ b]) simp

lemma alt_render_short: "length p < 3 \<Longrightarrow> alt_render p = p"
  by (simp add: alt_render_def alt_off_def)

lemma alt_off_long:
  "alt_off (ESC # 0x5b # ps @ [b]) \<longleftrightarrow>
     b = 0x6c \<and> (\<exists>f \<in> set (split_semi ps). \<exists>n \<in> set ALT_OFF_MODES. field_value f = Some n)"
  by (simp add: alt_off_def)

lemma reset_seq_simps [simp]:
  "a_pending (reset_seq g) = []" "a_state (reset_seq g) = AGround" "alt_inv (reset_seq g)"
  by (simp_all add: reset_seq_def alt_inv_def)

lemma alt_step_params:
  assumes "a_state g = AParams" and "alt_inv g" and "alt_step g b = (g', out)"
  shows "alt_inv g' \<and> (a_pending g' = a_pending g @ [b] \<and> out = [] \<or>
    a_pending g' = [] \<and> alt_token (a_pending g @ [b]) \<and> out = alt_render (a_pending g @ [b]))"
proof -
  from assms(1,2) obtain ps where ps: "a_pending g = [ESC, 0x5b] @ ps" "\<forall>x \<in> set ps. alt_param x" "length ps + 2 \<le> MAX_SEQ_LEN"
    "a_nums g = List.map_filter sat_value (butlast (split_semi ps))" "a_cur g = sat_value (last (split_semi ps))"
    by (auto simp: alt_inv_def)
  let ?g = "g\<lparr>a_pending := a_pending g @ [b]\<rparr>"
  show ?thesis
  proof (cases "alt_param b")
    case True
    obtain h where h: "alt_params ?g b = (h, [])" "a_state h = AParams" "a_pending h = a_pending g @ [b]"
      "a_nums h = List.map_filter sat_value (butlast (split_semi (ps @ [b])))" "a_cur h = sat_value (last (split_semi (ps @ [b])))"
      using alt_params_track [OF True, of ?g ps] ps(4,5) assms(1) by auto
    show ?thesis
    proof (cases "length ps + 2 = MAX_SEQ_LEN")
      case full: True
      then have "g' = reset_seq (end_param h)" "out = a_pending g @ [b]"
        using assms(1,3) h ps(1) by (simp_all add: alt_step_def)
      moreover have "alt_render (a_pending g @ [b]) = a_pending g @ [b]"
        using True byte_classes(5) ps(1) by (auto simp: alt_render_def alt_off_long)
      ultimately show ?thesis using ps full by (simp add: alt_token_long)
    next
      case False
      then have "g' = h" "out = []" using assms(1,3) h ps(1,3) by (simp_all add: alt_step_def)
      moreover have "\<forall>x \<in> set (ps @ [b]). alt_param x" "length (ps @ [b]) + 2 \<le> MAX_SEQ_LEN"
        using True False ps(2,3) by auto
      ultimately show ?thesis using h ps(1) by (auto simp: alt_inv_def)
    qed
  next
    case False
    then have tok: "alt_token (a_pending g @ [b])" using ps by (simp add: alt_token_long)
    have nums: "a_nums (end_param ?g) = List.map_filter sat_value (split_semi ps)"
      by (rule end_param_nums) (use ps in simp_all)
    have "alt_params ?g b = (reset_seq (if b = 0x6c then end_param ?g else ?g), alt_render (a_pending g @ [b]))"
      using False ps(1) nums [THEN arg_cong, of "\<lambda>ns. \<exists>n \<in> set ns. n \<in> set ALT_OFF_MODES"] unfolding alt_param_def leak_iff
      by (cases "b = 0x6c") (auto simp: alt_params_def alt_render_def alt_off_long Let_def byte_classes(4))
    then have "g' = reset_seq (if b = 0x6c then end_param ?g else ?g)" "out = alt_render (a_pending g @ [b])"
      using assms(1,3) by (simp_all add: alt_step_def)
    with tok show ?thesis by simp
  qed
qed

interpretation alt: byte_filter alt_step alt_inv a_pending alt_token alt_render
proof
  fix g b g' out
  assume inv: "alt_inv g" and step: "alt_step g b = (g', out)"
  show "alt_inv g' \<and> (a_pending g' = a_pending g @ [b] \<and> out = [] \<or>
    a_pending g' = [] \<and> alt_token (a_pending g @ [b]) \<and> out = alt_render (a_pending g @ [b]))"
  proof (cases "a_state g")
    case AParams
    then show ?thesis using inv step by (rule alt_step_params)
  qed (use inv step in \<open>auto simp: alt_inv_def alt_step_def alt_token_simps alt_render_short Let_def
      List.map_filter_def sat_value_def MAX_SEQ_LEN_def reset_seq_def split: if_splits\<close>)
qed

section \<open>Whole streams\<close>

lemma feed_bytes_pass: "(\<And>b. b \<in> set bs \<Longrightarrow> step s b = (s, [b])) \<Longrightarrow> feed_bytes step s bs = (s, bs)"
  by (induction bs) simp_all

lemma kitty_step_active: "k_active (fst (kitty_step f b)) = k_active f"
  by (auto simp: kitty_step_def k_flush_def Let_def split: kitty_state.splits)

lemma alt_step_active: "a_active (fst (alt_step g b)) = a_active g"
proof -
  have r: "a_active (reset_seq h) = a_active h" and e: "a_active (end_param h) = a_active h" for h
    by (simp_all add: reset_seq_def end_param_def split: option.splits)
  have p: "a_active (fst (alt_params h b)) = a_active h" for h by (simp add: alt_params_def Let_def r e)
  from p [of "g\<lparr>a_pending := a_pending g @ [b]\<rparr>"] show ?thesis
    by (cases "a_state g") (simp_all add: alt_step_def Let_def case_prod_beta r e)
qed

lemma feed_bytes_keeps:
  "(\<And>s b. P (fst (step s b)) = P s) \<Longrightarrow> P (fst (feed_bytes step s bs)) = P s"
proof (induction bs arbitrary: s)
  case (Cons b bs)
  then show ?case by (simp add: case_prod_beta)
qed simp

lemma kitty_feed_chunks:
  "k_active f \<Longrightarrow> feed_chunks kitty_feed f cs = feed_bytes kitty_step f (concat cs)"
proof (induction cs arbitrary: f)
  case (Cons c cs)
  have "k_active (fst (feed_bytes kitty_step f c))"
    using feed_bytes_keeps [of k_active kitty_step, OF kitty_step_active] Cons.prems by blast
  with Cons show ?case by (auto simp: kitty_feed_def feed_bytes_append split: prod.splits)
qed simp

lemma alt_feed_chunks:
  "a_active g \<Longrightarrow> feed_chunks alt_feed g cs = feed_bytes alt_step g (concat cs)"
proof (induction cs arbitrary: g)
  case (Cons c cs)
  have "a_active (fst (feed_bytes alt_step g c))"
    using feed_bytes_keeps [of a_active alt_step, OF alt_step_active] Cons.prems by blast
  with Cons show ?case by (auto simp: alt_feed_def feed_bytes_append split: prod.splits)
qed simp

lemma kitty_off: "\<not> k_active f \<Longrightarrow> feed_chunks kitty_feed f cs = (f, concat cs)"
  by (induction cs) (simp_all add: kitty_feed_def)

lemma alt_off_chunks: "\<not> a_active g \<Longrightarrow> feed_chunks alt_feed g cs = (g, concat cs)"
  by (induction cs) (simp_all add: alt_feed_def)

lemma kitty_held: "kitty_inv f \<Longrightarrow> length (k_pending f) \<le> MAX_SEQ_LEN + 2"
  by (auto simp: kitty_inv_def MAX_SEQ_LEN_def split: kitty_state.splits)

lemma alt_held: "alt_inv g \<Longrightarrow> length (a_pending g) \<le> MAX_SEQ_LEN"
  by (auto simp: alt_inv_def MAX_SEQ_LEN_def split: alt_state.splits)

lemma concat_kitty_render: "concat (map kitty_render ps) = concat (filter (\<lambda>p. \<not> kitty_activation p) ps)"
  by (induction ps) (simp_all add: kitty_render_def)

section \<open>Properties\<close>

text \<open>
  The kitty filter drops activation sequences and nothing else, however the stream is cut
  into chunks: an active filter cuts the stream into pieces of the listed shapes, forwards all of
  them but the activation sequences, unchanged and in order, and holds back the unfinished rest,
  never more than 34 bytes; an inactive filter forwards the stream as it is.
\<close>

theorem kitty_filter_exact:
  "\<exists>f ps. feed_chunks kitty_feed (kitty_new True) chunks = (f, concat (filter (\<lambda>p. \<not> kitty_activation p) ps))
     \<and> concat chunks = concat ps @ k_pending f \<and> list_all kitty_token ps \<and> length (k_pending f) \<le> MAX_SEQ_LEN + 2
     \<and> feed_chunks kitty_feed (kitty_new False) chunks = (kitty_new False, concat chunks)"
proof -
  have new: "kitty_inv (kitty_new True)" "k_active (kitty_new True)" "k_pending (kitty_new True) = []"
    by (simp_all add: kitty_new_def kitty_inv_def)
  obtain f out where f: "feed_bytes kitty_step (kitty_new True) (concat chunks) = (f, out)"
    by (cases "feed_bytes kitty_step (kitty_new True) (concat chunks)")
  from kitty.feed_pieces [OF new(1) f] obtain ps where ps: "kitty_inv f" "concat chunks = concat ps @ k_pending f"
    "\<forall>p \<in> set ps. kitty_token p" "out = concat (map kitty_render ps)" using new(3) by auto
  have "feed_chunks kitty_feed (kitty_new False) chunks = (kitty_new False, concat chunks)"
    by (rule kitty_off) (simp add: kitty_new_def)
  with ps f new kitty_held [OF ps(1)] show ?thesis
    by (intro exI [of _ f] exI [of _ ps]) (simp add: kitty_feed_chunks concat_kitty_render list_all_iff)
qed

text \<open>
  The alternate-screen guard loses nothing and adds the reset exactly where it should,
  however the stream is cut into chunks: an active guard forwards every piece unchanged and in
  order, followed by the reset sequence exactly when the piece is a control sequence ending in
  \<open>l\<close> with 47, 1047 or 1049 among its decimal fields (the 16-bit saturating reader finds the same
  modes as unbounded numbers), and holds back at most 32 bytes; an inactive one changes nothing.
\<close>

theorem alt_guard_exact:
  "\<exists>g ps. feed_chunks alt_feed (alt_new True) chunks
       = (g, concat (map (\<lambda>p. p @ (if alt_off p then ALT_OFF_GUARD else [])) ps))
     \<and> concat chunks = concat ps @ a_pending g \<and> list_all alt_token ps \<and> length (a_pending g) \<le> MAX_SEQ_LEN
     \<and> feed_chunks alt_feed (alt_new False) chunks = (alt_new False, concat chunks)"
proof -
  have new: "alt_inv (alt_new True)" "a_active (alt_new True)" "a_pending (alt_new True) = []"
    by (simp_all add: alt_new_def alt_inv_def)
  obtain g out where g: "feed_bytes alt_step (alt_new True) (concat chunks) = (g, out)"
    by (cases "feed_bytes alt_step (alt_new True) (concat chunks)")
  from alt.feed_pieces [OF new(1) g] obtain ps where ps: "alt_inv g" "concat chunks = concat ps @ a_pending g"
    "\<forall>p \<in> set ps. alt_token p" "out = concat (map alt_render ps)" using new(3) by auto
  have "feed_chunks alt_feed (alt_new False) chunks = (alt_new False, concat chunks)"
    by (rule alt_off_chunks) (simp add: alt_new_def)
  with ps g new show ?thesis
    by (intro exI [of _ g] exI [of _ ps])
      (simp add: alt_feed_chunks alt_render_def [abs_def] alt_held list_all_iff)
qed

text \<open>
  An escape byte before an activation sequence carries it through the filter: the second
  escape byte ends the pending sequence instead of starting one, as it does for a terminal, so
  the whole activation sequence is forwarded.
\<close>

theorem kitty_double_escape_passes:
  assumes "kitty_activation (ESC # rest)" and "ESC \<notin> set rest"
  shows "snd (kitty_feed (kitty_new True) (ESC # ESC # rest)) = ESC # ESC # rest"
proof -
  have "kitty_step (kitty_new True) b = (kitty_new True, [b])" if "b \<in> set rest" for b
    using that assms(2) by (auto simp: kitty_step_def kitty_new_def)
  then have "feed_bytes kitty_step (kitty_new True) rest = (kitty_new True, rest)" by (rule feed_bytes_pass)
  moreover have "ESC \<noteq> 0x5b" by (simp add: ESC_def)
  ultimately show ?thesis by (simp add: kitty_feed_def kitty_step_def kitty_new_def k_flush_def)
qed

end
