(* ===== verification/Rate_Limiter.thy ===== *)
theory Rate_Limiter
  imports Prelude
begin

text \<open>
  The token bucket that throttles file transfers (\<open>clum-core/src/rate_limiter.rs\<close>) and the
  full-jitter backoff of reconnecting clients (\<open>clum-core/src/backoff.rs\<close>).

  Counters are natural numbers below \<open>2 ^ 64\<close> and arithmetic on them is taken modulo \<open>2 ^ 64\<close>, as
  in a release build. Times are nanoseconds. Clock readings and the random generator are
  parameters. The bucket is shared by concurrent streams: the atomic accesses of an operation are
  separate steps where another stream may come in between.
\<close>

section \<open>The bucket\<close>

definition u64_mod :: nat where
  "u64_mod = 2 ^ 64"

record limiter =
  rl_rate :: nat
  rl_tokens :: nat
  rl_max_tokens :: nat
  rl_last_refill :: nat

definition limiter_new :: "nat \<Rightarrow> nat \<Rightarrow> limiter" where
  "limiter_new now bytes_per_sec =
     (let max_tokens = (if bytes_per_sec = 0 then 0 else max (bytes_per_sec * 2 mod u64_mod) (1024 * 1024))
      in \<lparr>rl_rate = bytes_per_sec, rl_tokens = max_tokens, rl_max_tokens = max_tokens, rl_last_refill = now\<rparr>)"

text \<open>
  Refilling holds the lock of the clock. It first computes the new tokens and loads the counter,
  then stores the sum; \<open>duration_since\<close> is zero for a clock that went back.
\<close>

definition new_tokens :: "limiter \<Rightarrow> nat \<Rightarrow> nat" where
  "new_tokens l now = rl_rate l * (now - rl_last_refill l) div 1000000000 mod u64_mod"

definition refill_load :: "nat \<Rightarrow> limiter \<Rightarrow> limiter \<times> (nat \<times> nat) option" where
  "refill_load now l =
     (let l' = l\<lparr>rl_last_refill := now\<rparr>
      in if now - rl_last_refill l = 0 then (l', None)
         else if new_tokens l now = 0 then (l', None)
         else (l', Some (rl_tokens l, new_tokens l now)))"

definition refill_store :: "nat \<times> nat \<Rightarrow> limiter \<Rightarrow> limiter \<times> nat" where
  "refill_store pending l =
     (let (current, added) = pending; target = min ((current + added) mod u64_mod) (rl_max_tokens l)
      in if target \<noteq> current then (l\<lparr>rl_tokens := target\<rparr>, added) else (l, 0))"

definition refill :: "nat \<Rightarrow> limiter \<Rightarrow> limiter \<times> nat" where
  "refill now l = (case refill_load now l of
     (l, None) \<Rightarrow> (l, 0)
   | (l, Some pending) \<Rightarrow> refill_store pending l)"

text \<open>
  Consuming retries its compare-and-exchange until the counter did not change: it takes effect in
  one step on the counter it finds.
\<close>

definition consume :: "nat \<Rightarrow> limiter \<Rightarrow> limiter \<times> nat" where
  "consume n l = (let taken = min (rl_tokens l) n in (l\<lparr>rl_tokens := rl_tokens l - taken\<rparr>, taken))"

text \<open>
  The loop of \<open>acquire\<close> over the readings of the clock, as far as they go: what is left to
  acquire, and the sleeps between the rounds.
\<close>

fun acquire_loop :: "nat list \<Rightarrow> nat \<Rightarrow> limiter \<Rightarrow> limiter \<times> nat \<times> nat list" where
  "acquire_loop [] remaining l = (l, remaining, [])"
| "acquire_loop (now # nows) remaining l =
     (let (l, _) = refill now l;
          (l, taken) = consume remaining l;
          remaining = remaining - taken
      in if remaining = 0 then (l, 0, [])
         else let sleep_ns = remaining * 1000000000 div rl_rate l mod u64_mod;
                  (l, rest, sleeps) = acquire_loop nows remaining l
              in (l, rest, (if 0 < sleep_ns then [min sleep_ns 1000000000] else []) @ sleeps))"

definition acquire :: "nat list \<Rightarrow> nat \<Rightarrow> limiter \<Rightarrow> limiter \<times> nat \<times> nat list" where
  "acquire nows n l = (if rl_rate l = 0 \<or> n = 0 then (l, 0, []) else acquire_loop nows n l)"

definition is_active :: "limiter \<Rightarrow> bool" where
  "is_active l \<longleftrightarrow> 0 < rl_rate l"

record bandwidth_config =
  bc_per_stream :: nat
  bc_global :: nat

definition from_mbps :: "nat \<Rightarrow> nat \<Rightarrow> bandwidth_config \<times> bandwidth_config" where
  "from_mbps upload_mbps download_mbps =
     (\<lparr>bc_per_stream = upload_mbps * 125000 mod u64_mod, bc_global = 0\<rparr>,
      \<lparr>bc_per_stream = download_mbps * 125000 mod u64_mod, bc_global = 0\<rparr>)"

record bandwidth_limiter =
  bl_per_stream :: limiter
  bl_global :: "limiter option"

definition bandwidth_new :: "nat \<Rightarrow> bandwidth_config \<Rightarrow> limiter option \<Rightarrow> bandwidth_limiter option" where
  "bandwidth_new now config global =
     (let per = limiter_new now (bc_per_stream config)
      in if \<not> is_active per \<and> (case global of None \<Rightarrow> True | Some g \<Rightarrow> \<not> is_active g) then None
         else Some \<lparr>bl_per_stream = per, bl_global = global\<rparr>)"

definition bandwidth_acquire :: "nat list \<Rightarrow> nat list \<Rightarrow> nat \<Rightarrow> bandwidth_limiter \<Rightarrow> bandwidth_limiter" where
  "bandwidth_acquire nows nows' n b =
     (let (per, _, _) = acquire nows n (bl_per_stream b)
      in b\<lparr>bl_per_stream := per, bl_global := map_option (\<lambda>g. fst (acquire nows' n g)) (bl_global b)\<rparr>)"

definition clone_stream :: "nat \<Rightarrow> bandwidth_limiter \<Rightarrow> bandwidth_limiter" where
  "clone_stream now b = b\<lparr>bl_per_stream := limiter_new now (rl_rate (bl_per_stream b))\<rparr>"

section \<open>Backoff\<close>

record backoff =
  bo_base_ms :: nat
  bo_cap_ms :: nat
  bo_attempt :: nat

definition backoff_new :: "nat \<Rightarrow> nat \<Rightarrow> backoff" where
  "backoff_new base cap = \<lparr>bo_base_ms = base, bo_cap_ms = cap, bo_attempt = 0\<rparr>"

definition backoff_reset :: "backoff \<Rightarrow> backoff" where
  "backoff_reset b = b\<lparr>bo_attempt := 0\<rparr>"

text \<open>\<open>rng m\<close> is the number drawn from the range from 0 up to and including \<open>m\<close>.\<close>

definition next_delay :: "(nat \<Rightarrow> nat) \<Rightarrow> backoff \<Rightarrow> backoff \<times> nat" where
  "next_delay rng b =
     (let u128_max = 2 ^ 128 - 1;
          mul = (if bo_attempt b < 128 then 2 ^ bo_attempt b else u128_max);
          exp_ms = min (bo_base_ms b * mul) u128_max;
          max_ms = min exp_ms (bo_cap_ms b);
          b = b\<lparr>bo_attempt := min (Suc (bo_attempt b)) (2 ^ 32 - 1)\<rparr>
      in if max_ms = 0 then (b, 0) else (b, rng (min max_ms (2 ^ 64 - 1))))"

section \<open>What one operation does\<close>

lemma refill_frame:
  "refill now l = (l', added) \<Longrightarrow> rl_rate l' = rl_rate l \<and> rl_max_tokens l' = rl_max_tokens l \<and> rl_last_refill l' = now"
  by (auto simp: refill_def refill_load_def refill_store_def Let_def split: if_splits)

lemma refill_tokens:
  "rl_tokens (fst (refill now l)) =
     (if new_tokens l now = 0 \<or> now \<le> rl_last_refill l then rl_tokens l
      else min ((rl_tokens l + new_tokens l now) mod u64_mod) (rl_max_tokens l))"
  by (simp add: refill_def refill_load_def refill_store_def Let_def)

lemma refill_bound:
  "rl_tokens (fst (refill now l)) * 1000000000 \<le> rl_tokens l * 1000000000 + rl_rate l * (now - rl_last_refill l)"
proof -
  let ?p = "rl_rate l * (now - rl_last_refill l)"
  have "min ((rl_tokens l + new_tokens l now) mod u64_mod) m \<le> rl_tokens l + new_tokens l now" for m
    by (meson min.coboundedI1 mod_less_eq_dividend)
  then have "rl_tokens (fst (refill now l)) \<le> rl_tokens l + new_tokens l now"
    by (simp add: refill_tokens)
  moreover have "new_tokens l now \<le> ?p div 1000000000" by (simp add: new_tokens_def)
  ultimately have "rl_tokens (fst (refill now l)) * 1000000000 \<le> (rl_tokens l + ?p div 1000000000) * 1000000000"
    by (meson add_left_mono le_trans mult_le_mono1)
  also have "\<dots> \<le> rl_tokens l * 1000000000 + ?p" by (simp add: add_mult_distrib)
  finally show ?thesis .
qed

lemma refill_le_max:
  "rl_tokens l \<le> rl_max_tokens l \<Longrightarrow> rl_tokens (fst (refill now l)) \<le> rl_max_tokens l"
  by (simp add: refill_tokens)

lemma consume_spec:
  "consume n l = (l', taken) \<Longrightarrow> rl_rate l' = rl_rate l \<and> rl_max_tokens l' = rl_max_tokens l
     \<and> rl_last_refill l' = rl_last_refill l \<and> rl_tokens l' + taken = rl_tokens l \<and> taken = min (rl_tokens l) n"
  by (auto simp: consume_def Let_def)

text \<open>
  The account of the bucket: what an operation takes and leaves was there before it or came in
  since the last refill.
\<close>

definition accounts :: "limiter \<Rightarrow> nat \<Rightarrow> limiter \<Rightarrow> bool" where
  "accounts l granted l' \<longleftrightarrow> rl_rate l' = rl_rate l \<and> rl_max_tokens l' = rl_max_tokens l
     \<and> rl_last_refill l \<le> rl_last_refill l'
     \<and> (rl_tokens l \<le> rl_max_tokens l \<longrightarrow> rl_tokens l' \<le> rl_max_tokens l)
     \<and> (granted + rl_tokens l') * 1000000000
        \<le> rl_tokens l * 1000000000 + rl_rate l * (rl_last_refill l' - rl_last_refill l)"

lemma accounts_refl [simp]: "accounts l 0 l"
  by (simp add: accounts_def)

lemma accounts_trans:
  assumes "accounts l g l'" and "accounts l' g' l''"
  shows "accounts l (g + g') l''"
proof -
  let ?a = "rl_rate l * (rl_last_refill l' - rl_last_refill l)"
  let ?b = "rl_rate l * (rl_last_refill l'' - rl_last_refill l')"
  have "?a + ?b = rl_rate l * (rl_last_refill l'' - rl_last_refill l)"
    using assms by (simp add: accounts_def add_mult_distrib2 [symmetric])
  moreover have "(g + rl_tokens l') * 1000000000 \<le> rl_tokens l * 1000000000 + ?a"
    "(g' + rl_tokens l'') * 1000000000 \<le> rl_tokens l' * 1000000000 + ?b"
    using assms by (simp_all add: accounts_def)
  ultimately have "(g + g' + rl_tokens l'') * 1000000000
      \<le> rl_tokens l * 1000000000 + rl_rate l * (rl_last_refill l'' - rl_last_refill l)"
    unfolding add_mult_distrib by linarith
  with assms show ?thesis by (simp add: accounts_def)
qed

lemma refill_accounts:
  assumes "refill now l = (l', a)" and "rl_last_refill l \<le> now"
  shows "accounts l 0 l'"
  using refill_frame [OF assms(1)] refill_bound [of now l] refill_le_max [of l now] assms
  by (simp add: accounts_def)

lemma consume_accounts:
  assumes "consume n l = (l', taken)"
  shows "accounts l taken l'"
  using consume_spec [OF assms] by (auto simp: accounts_def add.commute)

lemma acquire_loop_accounts:
  assumes "acquire_loop nows n l = (l', rest, sleeps)" and "sorted (rl_last_refill l # nows)"
  shows "rest \<le> n \<and> accounts l (n - rest) l' \<and> rl_last_refill l' \<in> set (rl_last_refill l # nows)"
  using assms
proof (induction nows n l arbitrary: l' rest sleeps rule: acquire_loop.induct)
  case (1 n l)
  then show ?case by simp
next
  case (2 now nows n l)
  obtain l1 a where l1: "refill now l = (l1, a)" by (cases "refill now l")
  obtain l2 taken where l2: "consume n l1 = (l2, taken)" by (cases "consume n l1")
  have now: "rl_last_refill l \<le> now" using "2.prems"(2) by simp
  have acc: "accounts l taken l2"
    using accounts_trans [OF refill_accounts [OF l1 now] consume_accounts [OF l2]] by simp
  have at: "rl_last_refill l2 = now" and le: "taken \<le> n"
    using refill_frame [OF l1] consume_spec [OF l2] by simp_all
  show ?case
  proof (cases "n - taken = 0")
    case True
    with "2.prems"(1) l1 l2 have "l' = l2" "rest = 0" by simp_all
    with acc at True le show ?thesis by simp
  next
    case False
    obtain l3 rest3 s3 where l3: "acquire_loop nows (n - taken) l2 = (l3, rest3, s3)"
      by (cases "acquire_loop nows (n - taken) l2")
    with "2.prems"(1) l1 l2 False have eq: "l' = l3" "rest = rest3" by (simp_all add: Let_def)
    have "sorted (rl_last_refill l2 # nows)" using "2.prems"(2) at by simp
    from "2.IH" [OF l1 [symmetric] refl l2 [symmetric] refl refl False refl l3 this]
    have ih: "rest3 \<le> n - taken" "accounts l2 (n - taken - rest3) l3" "rl_last_refill l3 \<in> set (now # nows)"
      using at by simp_all
    have "taken + (n - taken - rest3) = n - rest3" using ih(1) le by simp
    with accounts_trans [OF acc ih(2)] ih eq le show ?thesis by auto
  qed
qed


section \<open>The rate over many transfers\<close>

text \<open>
  Requests served one after the other on a shared bucket, each with the clock readings of its
  rounds: the bucket afterwards and the bytes that were let through.
\<close>

fun acquire_all :: "(nat list \<times> nat) list \<Rightarrow> limiter \<Rightarrow> limiter \<times> nat" where
  "acquire_all [] l = (l, 0)"
| "acquire_all ((nows, n) # reqs) l =
     (let (l', rest, _) = acquire nows n l;
          (l'', granted) = acquire_all reqs l'
      in (l'', n - rest + granted))"

lemma acquire_accounts:
  assumes "acquire nows n l = (l', rest, sleeps)" and "sorted (rl_last_refill l # nows)" and "0 < rl_rate l"
  shows "accounts l (n - rest) l' \<and> rl_last_refill l' \<in> set (rl_last_refill l # nows)"
  using assms acquire_loop_accounts [of nows n l l' rest sleeps] by (auto simp: acquire_def split: if_splits)

lemma acquire_all_accounts:
  assumes "acquire_all reqs l = (l', granted)" and "sorted (rl_last_refill l # concat (map fst reqs))"
    and "0 < rl_rate l"
  shows "accounts l granted l' \<and> rl_last_refill l' \<in> set (rl_last_refill l # concat (map fst reqs))"
  using assms
proof (induction reqs l arbitrary: l' granted rule: acquire_all.induct)
  case (1 l)
  then show ?case by simp
next
  case (2 nows n reqs l)
  obtain l1 rest s where l1: "acquire nows n l = (l1, rest, s)" by (cases "acquire nows n l")
  obtain g where g: "acquire_all reqs l1 = (l', g)" "granted = n - rest + g"
    using "2.prems"(1) l1 by (auto simp: Let_def split: prod.splits)
  have sorted: "sorted (rl_last_refill l # nows)" using "2.prems"(2) by (auto simp: sorted_append)
  note acc = acquire_accounts [OF l1 sorted "2.prems"(3)]
  have "sorted (rl_last_refill l1 # concat (map fst reqs))" using "2.prems"(2) acc by (auto simp: sorted_append)
  moreover have "0 < rl_rate l1" using acc "2.prems"(3) by (simp add: accounts_def)
  ultimately have ih: "accounts l1 g l' \<and> rl_last_refill l' \<in> set (rl_last_refill l1 # concat (map fst reqs))"
    using "2.IH" [OF l1 [symmetric] refl refl g(1)] by blast
  then have "accounts l (n - rest + g) l'" using accounts_trans acc by blast
  with g(2) ih acc show ?case by auto
qed

text \<open>
  C36. The bucket enforces its rate on requests that are served one after another: whatever their
  sizes and however often each polls, with a clock that does not run backwards, the bytes a
  fresh bucket of a positive rate has let through until its latest refill are at most its burst
  plus the rate times the elapsed time. Requests that overlap can exceed it, see
  \<open>refill_loses_consumption\<close>.
\<close>

theorem rate_is_enforced:
  assumes "0 < bytes_per_sec" and "sorted (t0 # concat (map fst reqs))"
    and "acquire_all reqs (limiter_new t0 bytes_per_sec) = (l, granted)"
  shows "granted * 1000000000 \<le> max (bytes_per_sec * 2 mod u64_mod) (1024 * 1024) * 1000000000
      + bytes_per_sec * (rl_last_refill l - t0)
    \<and> rl_last_refill l \<in> set (t0 # concat (map fst reqs))"
proof -
  let ?l = "limiter_new t0 bytes_per_sec"
  have new: "rl_rate ?l = bytes_per_sec" "rl_last_refill ?l = t0"
    "rl_tokens ?l = max (bytes_per_sec * 2 mod u64_mod) (1024 * 1024)"
    using assms(1) by (simp_all add: limiter_new_def Let_def)
  have "accounts ?l granted l \<and> rl_last_refill l \<in> set (t0 # concat (map fst reqs))"
    using acquire_all_accounts [OF assms(3)] assms(1,2) unfolding new by blast
  then show ?thesis unfolding accounts_def new add_mult_distrib by linarith
qed

theorem rate_is_enforced_witness:
  "4000000 * 1000000000 \<le> max (1000000 * 2 mod u64_mod) (1024 * 1024) * 1000000000 + 1000000 * (2000000005 - 5 :: nat)"
proof -
  have "acquire_all [([5], 3000000), ([1000000005, 2000000005], 3000000)] (limiter_new 5 1000000) =
      (\<lparr>rl_rate = 1000000, rl_tokens = 0, rl_max_tokens = 2000000, rl_last_refill = 2000000005\<rparr>, 4000000)"
    by (simp add: limiter_new_def acquire_def refill_def refill_load_def refill_store_def new_tokens_def consume_def u64_mod_def Let_def)
  from rate_is_enforced [OF _ _ this] show ?thesis by simp
qed

section \<open>Progress\<close>

text \<open>Readings that each come at least one token's time after the one before, within the range of the counter.\<close>

fun gaps_ok :: "limiter \<Rightarrow> nat \<Rightarrow> nat list \<Rightarrow> bool" where
  "gaps_ok l t [] \<longleftrightarrow> True"
| "gaps_ok l t (now # nows) \<longleftrightarrow> 1000000000 \<le> rl_rate l * (now - t)
     \<and> rl_max_tokens l + rl_rate l * (now - t) div 1000000000 < u64_mod \<and> gaps_ok l now nows"

lemma gaps_ok_frame:
  "rl_rate l' = rl_rate l \<Longrightarrow> rl_max_tokens l' = rl_max_tokens l \<Longrightarrow> gaps_ok l' t nows = gaps_ok l t nows"
  by (induction nows arbitrary: t) simp_all

lemma refill_progress:
  assumes "gaps_ok l (rl_last_refill l) (now # nows)" and "rl_tokens l \<le> rl_max_tokens l" and "0 < rl_max_tokens l"
  shows "0 < rl_tokens (fst (refill now l))"
proof -
  let ?p = "rl_rate l * (now - rl_last_refill l)"
  have "1 \<le> ?p div 1000000000" using assms(1) by (simp add: less_eq_div_iff_mult_less_eq)
  moreover have "?p div 1000000000 < u64_mod" "rl_tokens l + ?p div 1000000000 < u64_mod"
    using assms(1,2) by simp_all
  moreover have "\<not> now \<le> rl_last_refill l" using assms(1) by (cases "now \<le> rl_last_refill l") simp_all
  ultimately show ?thesis using assms(3) by (simp add: refill_tokens new_tokens_def)
qed

lemma acquire_loop_completes:
  assumes "gaps_ok l (rl_last_refill l) nows" and "rl_tokens l \<le> rl_max_tokens l" and "0 < rl_max_tokens l"
    and "n \<le> length nows" and "nows \<noteq> []"
  shows "fst (snd (acquire_loop nows n l)) = 0"
  using assms
proof (induction nows n l rule: acquire_loop.induct)
  case (1 n l)
  then show ?case by simp
next
  case (2 now nows n l)
  obtain l1 a where l1: "refill now l = (l1, a)" by (cases "refill now l")
  obtain l2 taken where l2: "consume n l1 = (l2, taken)" by (cases "consume n l1")
  have pos: "0 < rl_tokens l1" using refill_progress [OF "2.prems"(1,2,3)] l1 by simp
  have le1: "rl_tokens l1 \<le> rl_max_tokens l" using refill_le_max [OF "2.prems"(2), of now] l1 by simp
  note fr = refill_frame [OF l1] consume_spec [OF l2]
  show ?case
  proof (cases "n - taken = 0")
    case True
    with l1 l2 show ?thesis by simp
  next
    case False
    then have ne: "n - taken \<le> length nows" "nows \<noteq> []" using "2.prems"(4) fr pos by auto
    have "gaps_ok l2 (rl_last_refill l2) nows"
      using "2.prems"(1) fr gaps_ok_frame [of l2 l now nows] by simp
    moreover have "rl_tokens l2 \<le> rl_max_tokens l2" "0 < rl_max_tokens l2"
      using fr le1 "2.prems"(3) by linarith+
    ultimately have "fst (snd (acquire_loop nows (n - taken) l2)) = 0"
      using "2.IH" [OF l1 [symmetric] refl l2 [symmetric] refl refl False refl] ne by blast
    with l1 l2 False show ?thesis by (auto simp: Let_def split: prod.splits)
  qed
qed

text \<open>
  C37. No request waits for ever: when the clock moves on by at least one token's time between two
  rounds (and not by so much that the counter would overflow), a request for \<open>n\<close> bytes has been
  served in full after at most \<open>n\<close> rounds.
\<close>

theorem acquire_completes:
  assumes "gaps_ok l (rl_last_refill l) nows" and "rl_tokens l \<le> rl_max_tokens l" and "0 < rl_max_tokens l"
    and "n \<le> length nows"
  shows "fst (snd (acquire nows n l)) = 0"
  using acquire_loop_completes [OF assms] assms(4) by (cases nows) (auto simp: acquire_def)

theorem acquire_completes_witness:
  "fst (snd (acquire [1000, 2000, 3000] 3 \<lparr>rl_rate = 1000000, rl_tokens = 0, rl_max_tokens = 2000000, rl_last_refill = 0\<rparr>)) = 0"
  by (rule acquire_completes) (simp_all add: u64_mod_def)

section \<open>Concurrent streams\<close>

text \<open>
  The refill is not atomic with respect to the other streams: what another stream consumes
  between the load and the store of a refill is not deducted, and the bucket ends with the very
  tokens the refill alone would have left.
\<close>

theorem refill_loses_consumption:
  assumes "refill_load now l = (l1, Some pending)" and "rl_tokens l < rl_max_tokens l"
    and "rl_max_tokens l + new_tokens l now < u64_mod"
  shows "rl_tokens (fst (refill_store pending (fst (consume n l1)))) = rl_tokens (fst (refill now l))"
proof -
  have eq: "l1 = l\<lparr>rl_last_refill := now\<rparr>" "pending = (rl_tokens l, new_tokens l now)"
    and new: "0 < new_tokens l now" "\<not> now \<le> rl_last_refill l"
    using assms(1) by (auto simp: refill_load_def Let_def split: if_splits)
  have "(rl_tokens l + new_tokens l now) mod u64_mod = rl_tokens l + new_tokens l now"
    using assms(2,3) by simp
  moreover have "min (rl_tokens l + new_tokens l now) (rl_max_tokens l) \<noteq> rl_tokens l"
    using new(1) assms(2) by simp
  ultimately show ?thesis
    using new unfolding eq refill_tokens by (simp add: refill_store_def consume_def Let_def)
qed

section \<open>The delays of the backoff\<close>

text \<open>The delays before the successive retries, each with the generator it draws from.\<close>

fun delays :: "(nat \<Rightarrow> nat) list \<Rightarrow> backoff \<Rightarrow> nat list" where
  "delays [] b = []"
| "delays (rng # rngs) b = (let (b, d) = next_delay rng b in d # delays rngs b)"

lemma next_delay_state:
  "fst (next_delay rng b) = b\<lparr>bo_attempt := min (Suc (bo_attempt b)) (2 ^ 32 - 1)\<rparr>"
  by (simp add: next_delay_def Let_def)

lemma next_delay_bound:
  assumes "\<forall>m. rng m \<le> m"
  shows "snd (next_delay rng b) \<le> min (bo_cap_ms b) (bo_base_ms b * 2 ^ bo_attempt b)"
proof -
  define mul :: nat where "mul = (if bo_attempt b < 128 then 2 ^ bo_attempt b else 2 ^ 128 - 1)"
  define m where "m = min (min (bo_base_ms b * mul) (2 ^ 128 - 1)) (bo_cap_ms b)"
  have "mul \<le> 2 ^ bo_attempt b"
  proof (cases "bo_attempt b < 128")
    case False
    then have "(2::nat) ^ 128 \<le> 2 ^ bo_attempt b" by (intro power_increasing) simp_all
    with False show ?thesis by (simp add: mul_def)
  qed (simp add: mul_def)
  then have "bo_base_ms b * mul \<le> bo_base_ms b * 2 ^ bo_attempt b" by (rule mult_le_mono2)
  then have "m \<le> min (bo_cap_ms b) (bo_base_ms b * 2 ^ bo_attempt b)" by (simp add: m_def min.coboundedI1)
  moreover have "snd (next_delay rng b) = (if m = 0 then 0 else rng (min m (2 ^ 64 - 1)))"
    unfolding next_delay_def Let_def m_def mul_def by (rule trans [OF if_distrib]) (simp only: snd_conv)
  then have "snd (next_delay rng b) \<le> m" using assms by (metis le_trans min.cobounded1 order_refl)
  ultimately show ?thesis by (rule le_trans [rotated])
qed

lemma delays_bound:
  assumes "\<forall>rng \<in> set rngs. \<forall>m. rng m \<le> m" and "i < length rngs"
  shows "delays rngs b ! i \<le> min (bo_cap_ms b) (bo_base_ms b * 2 ^ (bo_attempt b + i))"
  using assms
proof (induction rngs b arbitrary: i rule: delays.induct)
  case (2 rng rngs b)
  obtain b' d where nd: "next_delay rng b = (b', d)" by (cases "next_delay rng b")
  have b': "b' = b\<lparr>bo_attempt := min (Suc (bo_attempt b)) (2 ^ 32 - 1)\<rparr>" using next_delay_state [of rng b] nd by simp
  show ?case
  proof (cases i)
    case 0
    then show ?thesis using next_delay_bound [of rng b] "2.prems"(1) nd by simp
  next
    case (Suc j)
    then have "delays rngs b' ! j \<le> min (bo_cap_ms b) (bo_base_ms b * 2 ^ (bo_attempt b' + j))"
      using "2.IH" [OF nd [symmetric] refl, of j] "2.prems" b' by simp
    also have "bo_attempt b' + j \<le> bo_attempt b + i" using b' Suc by simp
    then have "min (bo_cap_ms b) (bo_base_ms b * 2 ^ (bo_attempt b' + j)) \<le> min (bo_cap_ms b) (bo_base_ms b * 2 ^ (bo_attempt b + i))"
      by (intro min.mono mult_le_mono2 power_increasing) simp_all
    finally show ?thesis using Suc nd by simp
  qed
qed simp

end
