(* ===== verification/Utf8.thy ===== *)
theory Utf8
  imports Codec
begin

text \<open>
  UTF-8 validation as \<open>std::str::from_utf8\<close> performs it, with the position and the length of the
  first error, and the assembler of the bridge that turns a stream of chunks into text
  (\<open>Utf8Assembler\<close> in \<open>rmux-bridge/src/interactive.rs\<close>): a character cut by a chunk boundary is
  kept for the next chunk, bytes that no continuation can repair are dropped and counted.
\<close>

section \<open>Validation\<close>

definition cont :: "byte \<Rightarrow> bool" where
  "cont b \<longleftrightarrow> 0x80 \<le> b \<and> b \<le> 0xBF"

definition utf8_width :: "byte \<Rightarrow> nat" where
  "utf8_width b = (if b < 0x80 then 1 else if 0xC2 \<le> b \<and> b \<le> 0xDF then 2
     else if 0xE0 \<le> b \<and> b \<le> 0xEF then 3 else if 0xF0 \<le> b \<and> b \<le> 0xF4 then 4 else 0)"

text \<open>The second byte of a sequence, which excludes overlong forms, surrogates and large values.\<close>

definition second_ok :: "byte \<Rightarrow> byte \<Rightarrow> bool" where
  "second_ok a b \<longleftrightarrow> (if a = 0xE0 then 0xA0 \<le> b \<and> b \<le> 0xBF else if a = 0xED then 0x80 \<le> b \<and> b \<le> 0x9F
     else if a = 0xF0 then 0x90 \<le> b \<and> b \<le> 0xBF else if a = 0xF4 then 0x80 \<le> b \<and> b \<le> 0x8F else cont b)"

text \<open>
  One step: a complete character of that many bytes, an error of that many bytes, or a sequence
  that the end of the input cuts off.
\<close>

datatype utf8_head = Char nat | Bad nat | Short

definition utf8_head :: "bytes \<Rightarrow> utf8_head" where
  "utf8_head v = (case v of
     [] \<Rightarrow> Short
   | a # r \<Rightarrow>
       (let w = utf8_width a
        in if w = 0 then Bad 1 else if w = 1 then Char 1
           else case r of
             [] \<Rightarrow> Short
           | b # r \<Rightarrow>
               if \<not> second_ok a b then Bad 1 else if w = 2 then Char 2
               else case r of
                 [] \<Rightarrow> Short
               | c # r \<Rightarrow>
                   if \<not> cont c then Bad 2 else if w = 3 then Char 3
                   else case r of [] \<Rightarrow> Short | d # _ \<Rightarrow> if \<not> cont d then Bad 3 else Char 4))"

lemma utf8_head_size:
  "utf8_head v = Char n \<Longrightarrow> 0 < n \<and> n \<le> length v"
  "utf8_head v = Bad n \<Longrightarrow> 0 < n \<and> n \<le> length v"
  by (auto simp: utf8_head_def Let_def split: list.splits if_splits)

text \<open>
  \<open>from_utf8\<close>: \<open>None\<close> for valid input, otherwise \<open>valid_up_to\<close> and \<open>error_len\<close>.
\<close>

function from_utf8 :: "bytes \<Rightarrow> (nat \<times> nat option) option" where
  "from_utf8 v = (if v = [] then None else case utf8_head v of
     Char n \<Rightarrow> map_option (\<lambda>(k, e). (n + k, e)) (from_utf8 (drop n v))
   | Bad n \<Rightarrow> Some (0, Some n)
   | Short \<Rightarrow> Some (0, None))"
  by pat_completeness auto
termination
  by (relation "measure length") (auto dest: utf8_head_size)

declare from_utf8.simps [simp del]

lemma from_utf8_Nil [simp]: "from_utf8 [] = None"
  by (simp add: from_utf8.simps)

definition valid_utf8 :: "bytes \<Rightarrow> bool" where
  "valid_utf8 v \<longleftrightarrow> from_utf8 v = None"

lemma utf8_head_append:
  "utf8_head v = Char n \<Longrightarrow> utf8_head (v @ w) = Char n"
  "utf8_head v = Bad n \<Longrightarrow> utf8_head (v @ w) = Bad n"
  by (auto simp: utf8_head_def Let_def split: list.splits if_splits)

lemma utf8_head_short: "utf8_head v = Short \<Longrightarrow> length v \<le> 3"
  by (auto simp: utf8_head_def Let_def split: list.splits if_splits)

lemma from_utf8_append: "from_utf8 v = None \<Longrightarrow> from_utf8 (v @ w) = map_option (\<lambda>(k, e). (length v + k, e)) (from_utf8 w)"
proof (induction v rule: from_utf8.induct)
  case (1 v)
  show ?case
  proof (cases "v = []")
    case True
    then show ?thesis by (cases "from_utf8 w") auto
  next
    case False
    with "1.prems" obtain n where n: "utf8_head v = Char n" "from_utf8 (drop n v) = None"
      by (subst (asm) from_utf8.simps) (auto split: utf8_head.splits)
    have le: "n \<le> length v" using utf8_head_size(1) [OF n(1)] by simp
    have "from_utf8 (v @ w) = map_option (\<lambda>(k, e). (n + k, e)) (from_utf8 (drop n v @ w))"
      using False le by (subst from_utf8.simps) (simp add: utf8_head_append(1) [OF n(1)])
    with "1.IH" [OF False n] le show ?thesis by (auto simp: option.map_comp o_def case_prod_beta)
  qed
qed

lemma valid_utf8_append: "valid_utf8 v \<Longrightarrow> valid_utf8 (v @ w) \<longleftrightarrow> valid_utf8 w"
  by (simp add: valid_utf8_def from_utf8_append)

lemma utf8_head_CharE:
  assumes "utf8_head v = Char n"
  obtains a r where "v = a # r" "n = 1" "utf8_width a = 1"
    | a b r where "v = a # b # r" "n = 2" "utf8_width a = 2" "second_ok a b"
    | a b c r where "v = a # b # c # r" "n = 3" "utf8_width a = 3" "second_ok a b" "cont c"
    | a b c d r where "v = a # b # c # d # r" "n = 4" "0 < utf8_width a" "utf8_width a \<notin> {Suc 0, 2, 3}" "second_ok a b" "cont c" "cont d"
proof -
  from assms show thesis
    by (auto simp: utf8_head_def Let_def split: list.splits if_splits intro: that)
qed

lemma valid_utf8_Char: "utf8_head v = Char n \<Longrightarrow> valid_utf8 (take n v)"
proof -
  assume h: "utf8_head v = Char n"
  then have "utf8_head (take n v) = Char n \<and> take n v \<noteq> [] \<and> drop n (take n v) = []"
    by (rule utf8_head_CharE) (simp_all add: utf8_head_def )
  then show ?thesis by (simp add: valid_utf8_def from_utf8.simps [of "take n v"])
qed

lemma valid_utf8_ascii: "\<forall>b \<in> set v. b < 0x80 \<Longrightarrow> valid_utf8 v"
  by (induction v) (simp_all add: valid_utf8_def from_utf8.simps [of "_ # _"] utf8_head_def utf8_width_def)

text \<open>\<open>String::from_utf8_lossy\<close>: a replacement character for every error.\<close>

function from_utf8_lossy :: "bytes \<Rightarrow> bytes" where
  "from_utf8_lossy v = (if v = [] then [] else case utf8_head v of
     Char n \<Rightarrow> take n v @ from_utf8_lossy (drop n v)
   | Bad n \<Rightarrow> [0xEF, 0xBF, 0xBD] @ from_utf8_lossy (drop n v)
   | Short \<Rightarrow> [0xEF, 0xBF, 0xBD])"
  by pat_completeness auto
termination
  by (relation "measure length") (auto dest: utf8_head_size)

declare from_utf8_lossy.simps [simp del]

lemma from_utf8_lossy_valid: "valid_utf8 v \<Longrightarrow> from_utf8_lossy v = v"
proof (induction v rule: from_utf8_lossy.induct)
  case (1 v)
  show ?case
  proof (cases "v = []")
    case False
    with "1.prems" obtain n where n: "utf8_head v = Char n" "valid_utf8 (drop n v)"
      unfolding valid_utf8_def by (subst (asm) from_utf8.simps) (auto split: utf8_head.splits)
    with "1.IH"(1) [OF False n(1)] False show ?thesis by (simp add: from_utf8_lossy.simps [of v])
  qed (simp add: from_utf8_lossy.simps [of "[]"])
qed

section \<open>The assembler\<close>

text \<open>
  The loop of \<open>push\<close> on the pending bytes: the text, the number of dropped bytes and what stays
  pending.
\<close>

function assemble :: "bytes \<Rightarrow> bytes \<times> nat \<times> bytes" where
  "assemble pending = (case from_utf8 pending of
     None \<Rightarrow> (pending, 0, [])
   | Some (valid_up_to, Some bad) \<Rightarrow>
       (let (out, dropped, rest) = assemble (drop (valid_up_to + bad) pending)
        in (take valid_up_to pending @ out, bad + dropped, rest))
   | Some (valid_up_to, None) \<Rightarrow> (take valid_up_to pending, 0, drop valid_up_to pending))"
  by pat_completeness auto

lemma from_utf8_bad: "from_utf8 v = Some (k, Some n) \<Longrightarrow> 0 < n \<and> k + n \<le> length v"
proof (induction v arbitrary: k rule: from_utf8.induct)
  case (1 v)
  then have ne: "v \<noteq> []" by auto
  show ?case
  proof (cases "utf8_head v")
    case (Char m)
    with "1.prems" ne obtain j where j: "from_utf8 (drop m v) = Some (j, Some n)" "k = m + j"
      by (subst (asm) from_utf8.simps) auto
    from "1.IH" [OF ne Char j(1)] j(2) utf8_head_size(1) [OF Char] show ?thesis by auto
  next
    case (Bad m)
    with "1.prems" ne show ?thesis using utf8_head_size(2) [OF Bad]
      by (subst (asm) from_utf8.simps) auto
  next
    case Short
    with "1.prems" ne show ?thesis by (subst (asm) from_utf8.simps) auto
  qed
qed

termination assemble
  by (relation "measure length") (auto dest: from_utf8_bad)

declare assemble.simps [simp del]

record utf8_assembler =
  ua_pending :: bytes

definition assembler_new :: utf8_assembler where
  "assembler_new = \<lparr>ua_pending = []\<rparr>"

definition assembler_push :: "utf8_assembler \<Rightarrow> bytes \<Rightarrow> utf8_assembler \<times> bytes \<times> nat" where
  "assembler_push a chunk =
     (let (out, dropped, rest) = assemble (ua_pending a @ chunk) in (\<lparr>ua_pending = rest\<rparr>, out, dropped))"

fun push_chunks :: "utf8_assembler \<Rightarrow> bytes list \<Rightarrow> utf8_assembler \<times> bytes \<times> nat" where
  "push_chunks a [] = (a, [], 0)"
| "push_chunks a (c # cs) =
     (let (a1, o1, d1) = assembler_push a c; (a2, o2, d2) = push_chunks a1 cs in (a2, o1 @ o2, d1 + d2))"

text \<open>
  Lossy decoding of a whole stream, character by character: the specification of the assembler.
\<close>

function decode_lossy :: "bytes \<Rightarrow> bytes \<times> nat \<times> bytes" where
  "decode_lossy v = (if v = [] then ([], 0, []) else case utf8_head v of
     Char n \<Rightarrow> (let (t, d, r) = decode_lossy (drop n v) in (take n v @ t, d, r))
   | Bad n \<Rightarrow> (let (t, d, r) = decode_lossy (drop n v) in (t, n + d, r))
   | Short \<Rightarrow> ([], 0, v))"
  by pat_completeness auto
termination
  by (relation "measure length") (auto dest: utf8_head_size)

declare decode_lossy.simps [simp del]

lemma decode_lossy_simps:
  "decode_lossy [] = ([], 0, [])"
  "utf8_head v = Char n \<Longrightarrow> decode_lossy v = (let (t, d, r) = decode_lossy (drop n v) in (take n v @ t, d, r))"
  "utf8_head v = Bad n \<Longrightarrow> decode_lossy v = (let (t, d, r) = decode_lossy (drop n v) in (t, n + d, r))"
  "utf8_head v = Short \<Longrightarrow> decode_lossy v = ([], 0, v)"
  by (use utf8_head_size [of v n] in \<open>auto simp: decode_lossy.simps [of v] decode_lossy.simps [of "[]"]\<close>)

lemma from_utf8_head:
  "utf8_head v = Char n \<Longrightarrow> from_utf8 v = map_option (\<lambda>(k, e). (n + k, e)) (from_utf8 (drop n v))"
  "utf8_head v = Bad n \<Longrightarrow> from_utf8 v = Some (0, Some n)"
  "v \<noteq> [] \<Longrightarrow> utf8_head v = Short \<Longrightarrow> from_utf8 v = Some (0, None)"
  using utf8_head_size by (fastforce simp: from_utf8.simps [of v])+

lemma assemble_Char:
  assumes "utf8_head v = Char n"
  shows "assemble v = (let (t, d, r) = assemble (drop n v) in (take n v @ t, d, r))"
proof (cases "from_utf8 (drop n v)")
  case None
  with assms show ?thesis
    by (simp add: assemble.simps [of v] assemble.simps [of "drop n v"] from_utf8_head(1))
next
  case (Some ke)
  have "take (a + n) v = take n v @ take a (drop n v)" "take (n + a) v = take n v @ take a (drop n v)" for a
    using take_add [of n a v] by (simp_all add: add.commute)
  with Some assms show ?thesis
    by (cases ke; cases "snd ke")
      (auto simp: assemble.simps [of v] assemble.simps [of "drop n v"] from_utf8_head(1) add_ac
        split: prod.splits)
qed

lemma assemble_decode: "assemble v = decode_lossy v"
proof (induction v rule: decode_lossy.induct)
  case (1 v)
  show ?case
  proof (cases "v = []")
    case True
    then show ?thesis by (simp add: assemble.simps [of "[]"] decode_lossy_simps(1))
  next
    case False
    show ?thesis
    proof (cases "utf8_head v")
      case (Char n)
      with "1.IH"(1) [OF False Char] show ?thesis by (simp add: assemble_Char decode_lossy_simps(2))
    next
      case (Bad n)
      with "1.IH"(2) [OF False Bad] show ?thesis
        by (simp add: assemble.simps [of v] from_utf8_head(2) decode_lossy_simps(3))
    next
      case Short
      with False show ?thesis by (simp add: assemble.simps [of v] from_utf8_head(3) decode_lossy_simps(4))
    qed
  qed
qed

lemma decode_lossy_append:
  "decode_lossy (v @ w) =
     (let (t, d, r) = decode_lossy v; (t', d', r') = decode_lossy (r @ w) in (t @ t', d + d', r'))"
proof (induction v rule: decode_lossy.induct)
  case (1 v)
  show ?case
  proof (cases "v = []")
    case True
    then show ?thesis by (simp add: decode_lossy_simps(1))
  next
    case False
    show ?thesis
    proof (cases "utf8_head v")
      case (Char n)
      with "1.IH"(1) [OF False Char] utf8_head_size(1) [OF Char] utf8_head_append(1) [OF Char, of w]
      show ?thesis by (simp add: decode_lossy_simps(2) Let_def split: prod.splits)
    next
      case (Bad n)
      with "1.IH"(2) [OF False Bad] utf8_head_size(2) [OF Bad] utf8_head_append(2) [OF Bad, of w]
      show ?thesis by (simp add: decode_lossy_simps(3) Let_def split: prod.splits)
    next
      case Short
      then show ?thesis by (simp add: decode_lossy_simps(4))
    qed
  qed
qed

lemma decode_lossy_rest: "decode_lossy v = (t, d, r) \<Longrightarrow> decode_lossy r = ([], 0, r) \<and> length r \<le> 3"
proof (induction v arbitrary: t d r rule: decode_lossy.induct)
  case (1 v)
  show ?case
  proof (cases "v = []")
    case True
    with "1.prems" show ?thesis by (simp add: decode_lossy_simps(1))
  next
    case False
    show ?thesis
    proof (cases "utf8_head v")
      case (Char n)
      obtain t' d' r' where d: "decode_lossy (drop n v) = (t', d', r')" by (cases "decode_lossy (drop n v)")
      with "1.prems" Char have "r' = r" by (simp add: decode_lossy_simps(2))
      with "1.IH"(1) [OF False Char d] show ?thesis by simp
    next
      case (Bad n)
      obtain t' d' r' where d: "decode_lossy (drop n v) = (t', d', r')" by (cases "decode_lossy (drop n v)")
      with "1.prems" Bad have "r' = r" by (simp add: decode_lossy_simps(3))
      with "1.IH"(2) [OF False Bad d] show ?thesis by simp
    next
      case Short
      with "1.prems" utf8_head_short [OF Short] show ?thesis by (auto simp: decode_lossy_simps(4))
    qed
  qed
qed

lemma decode_lossy_text:
  "decode_lossy v = (t, d, r) \<Longrightarrow> valid_utf8 t \<and> length t + d + length r = length v \<and> subseq t v"
proof (induction v arbitrary: t d r rule: decode_lossy.induct)
  case (1 v)
  show ?case
  proof (cases "v = []")
    case True
    with "1.prems" show ?thesis by (auto simp: decode_lossy_simps(1) valid_utf8_def)
  next
    case False
    show ?thesis
    proof (cases "utf8_head v")
      case (Char n)
      obtain t' d' r' where d: "decode_lossy (drop n v) = (t', d', r')" by (cases "decode_lossy (drop n v)")
      with "1.prems" Char have eq: "r' = r" "d' = d" "t = take n v @ t'" by (simp_all add: decode_lossy_simps(2))
      have "subseq (take n v @ t') (take n v @ drop n v)"
        using "1.IH"(1) [OF False Char d] by (intro list_emb_append_mono) auto
      with "1.IH"(1) [OF False Char d] eq utf8_head_size(1) [OF Char] valid_utf8_Char [OF Char] show ?thesis
        by (auto simp: valid_utf8_append)
    next
      case (Bad n)
      obtain t' d' r' where d: "decode_lossy (drop n v) = (t', d', r')" by (cases "decode_lossy (drop n v)")
      with "1.prems" Bad have eq: "r' = r" "n + d' = d" "t = t'" by (simp_all add: decode_lossy_simps(3))
      have "subseq t (take n v @ drop n v)"
        using "1.IH"(2) [OF False Bad d] eq by (intro list_emb_append2) auto
      with "1.IH"(2) [OF False Bad d] eq utf8_head_size(2) [OF Bad] show ?thesis by auto
    next
      case Short
      with "1.prems" show ?thesis by (auto simp: decode_lossy_simps(4) valid_utf8_def)
    qed
  qed
qed

lemma push_chunks_decode:
  "decode_lossy (ua_pending a) = ([], 0, ua_pending a) \<Longrightarrow>
     push_chunks a cs = (let (t, d, r) = decode_lossy (ua_pending a @ concat cs) in (\<lparr>ua_pending = r\<rparr>, t, d))"
proof (induction cs arbitrary: a)
  case (Cons c cs)
  obtain t d r where d: "decode_lossy (ua_pending a @ c) = (t, d, r)" by (cases "decode_lossy (ua_pending a @ c)")
  have "decode_lossy (ua_pending \<lparr>ua_pending = r\<rparr>) = ([], 0, ua_pending \<lparr>ua_pending = r\<rparr>)"
    using decode_lossy_rest [OF d] by simp
  from Cons.IH [OF this] d decode_lossy_append [of "ua_pending a @ c" "concat cs"] show ?case
    by (simp add: assembler_push_def assemble_decode Let_def split: prod.splits)
qed (simp add: Let_def)

section \<open>Properties\<close>

text \<open>
  C22. The assembler is exact and independent of the chunking: for any stream cut into any chunks
  it emits the lossy decoding of the whole stream, which is valid UTF-8 and a subsequence of the
  stream, accounts for every byte as emitted, dropped or pending, keeps at most three bytes
  pending, and passes a valid stream through unchanged with nothing dropped or pending.
\<close>

theorem utf8_assembler_exact:
  "\<exists>out dropped rest. push_chunks assembler_new chunks = (\<lparr>ua_pending = rest\<rparr>, out, dropped)
     \<and> decode_lossy (concat chunks) = (out, dropped, rest) \<and> valid_utf8 out \<and> subseq out (concat chunks)
     \<and> length out + dropped + length rest = length (concat chunks) \<and> length rest \<le> 3
     \<and> (valid_utf8 (concat chunks) \<longrightarrow> out = concat chunks \<and> dropped = 0 \<and> rest = [])"
proof -
  obtain t d r where d: "decode_lossy (concat chunks) = (t, d, r)" by (cases "decode_lossy (concat chunks)")
  have "push_chunks assembler_new chunks = (\<lparr>ua_pending = r\<rparr>, t, d)"
    using push_chunks_decode [of assembler_new chunks] d by (simp add: assembler_new_def decode_lossy_simps(1))
  moreover have "t = concat chunks \<and> d = 0 \<and> r = []" if "valid_utf8 (concat chunks)"
  proof -
    from that have "assemble (concat chunks) = (concat chunks, 0, [])"
      by (simp add: assemble.simps [of "concat chunks"] valid_utf8_def)
    with d show ?thesis by (simp add: assemble_decode)
  qed
  ultimately show ?thesis
    using decode_lossy_text [OF d] decode_lossy_rest [OF d] d by blast
qed

theorem utf8_assembler_exact_witness:
  "\<exists>out dropped rest. push_chunks assembler_new [[0x61, 0xE4], [0xB8], [0x80]] = (\<lparr>ua_pending = rest\<rparr>, out, dropped)
     \<and> out = [0x61, 0xE4, 0xB8, 0x80] \<and> dropped = 0 \<and> rest = []"
proof -
  have "valid_utf8 (concat [[0x61, 0xE4], [0xB8], [0x80]])"
    by (simp add: valid_utf8_def from_utf8.simps utf8_head_def utf8_width_def second_ok_def cont_def)
  with utf8_assembler_exact [of "[[0x61, 0xE4], [0xB8], [0x80]]"] show ?thesis by auto
qed

end
