(* ===== verification/Json.thy ===== *)
theory Json
  imports Complex_Main Prelude
begin

text \<open>
  The values of \<open>serde_json\<close> that tool calls carry, with the accessors the code uses on them. An
  object is the list of its entries in key order (the map of \<open>serde_json\<close> is a B-tree). A number is
  an integer or a finite floating-point value, which is the real number it stands for. Printing
  and parsing are parameters wherever they are needed.
\<close>

datatype json = JNull | JBool bool | JInt int | JFloat real | JStr string | JArr "json list"
  | JObj "(string \<times> json) list"

fun jget :: "json \<Rightarrow> string \<Rightarrow> json option" where
  "jget (JObj kvs) k = map_of kvs k"
| "jget _ k = None"

fun jas_str :: "json \<Rightarrow> string option" where
  "jas_str (JStr s) = Some s"
| "jas_str _ = None"

fun jas_array :: "json \<Rightarrow> json list option" where
  "jas_array (JArr vs) = Some vs"
| "jas_array _ = None"

fun jas_bool :: "json \<Rightarrow> bool option" where
  "jas_bool (JBool b) = Some b"
| "jas_bool _ = None"

fun jas_u64 :: "json \<Rightarrow> nat option" where
  "jas_u64 (JInt i) = (if 0 \<le> i \<and> i < 2 ^ 64 then Some (nat i) else None)"
| "jas_u64 _ = None"

fun jas_i64 :: "json \<Rightarrow> int option" where
  "jas_i64 (JInt i) = (if - (2 ^ 63) \<le> i \<and> i < 2 ^ 63 then Some i else None)"
| "jas_i64 _ = None"

text \<open>\<open>as_f64\<close>: \<open>rnd\<close> rounds a real number to the nearest floating-point value.\<close>

fun jas_f64 :: "(real \<Rightarrow> real) \<Rightarrow> json \<Rightarrow> real option" where
  "jas_f64 rnd (JInt i) = Some (rnd (of_int i))"
| "jas_f64 rnd (JFloat x) = Some x"
| "jas_f64 rnd _ = None"

text \<open>\<open>args.get(k).and_then(as_str)\<close>, and the strings of an array field.\<close>

definition jget_str :: "json \<Rightarrow> string \<Rightarrow> string option" where
  "jget_str v k = Option.bind (jget v k) jas_str"

definition jget_strs :: "json \<Rightarrow> string \<Rightarrow> string list option" where
  "jget_strs v k = map_option (List.map_filter jas_str) (Option.bind (jget v k) jas_array)"

text \<open>\<open>object.remove(k)\<close> and \<open>value[k] = v\<close> for a key that is present.\<close>

fun jremove :: "string \<Rightarrow> json \<Rightarrow> json" where
  "jremove k (JObj kvs) = JObj (filter (\<lambda>kv. fst kv \<noteq> k) kvs)"
| "jremove k v = v"

fun jset :: "string \<Rightarrow> json \<Rightarrow> json \<Rightarrow> json" where
  "jset k v (JObj kvs) = JObj (map (\<lambda>kv. if fst kv = k then (k, v) else kv) kvs)"
| "jset k v j = j"

lemma map_of_set_present:
  "map_of kvs k \<noteq> None \<Longrightarrow> map_of (map (\<lambda>kv. if fst kv = k then (k, v) else kv) kvs) k = Some v"
  by (induction kvs) auto

lemma map_of_set_other:
  "k' \<noteq> k \<Longrightarrow> map_of (map (\<lambda>kv. if fst kv = k then (k, v) else kv) kvs) k' = map_of kvs k'"
  by (induction kvs) auto

lemma jget_jset: "jget j k \<noteq> None \<Longrightarrow> jget (jset k v j) k = Some v"
  by (cases j) (simp_all add: map_of_set_present)

lemma jget_jset_other: "k' \<noteq> k \<Longrightarrow> jget (jset k v j) k' = jget j k'"
  by (cases j) (simp_all add: map_of_set_other)

end
