(* ===== verification/Recording_Crypto.thy ===== *)
theory Recording_Crypto
  imports Codec
begin

text \<open>
  Encryption of recordings (\<open>clum-core/src/crypto.rs\<close>): the envelope that wraps a random data key
  for the server's public key, the streaming encryptor of the bridge and the decryptor of the
  server. X25519, HKDF, AES-256-GCM, SHA-256, base64, \<open>serde_json\<close> and the random source are
  third-party code and are parameters; \<open>rec_crypto_ok\<close> states what they document: a shared secret
  both sides compute, decryption that undoes encryption under the same key, nonce and associated
  data, sizes, and codecs that undo each other. Errors are messages.
\<close>

section \<open>Keys and the header\<close>

definition FMT :: string where "FMT = ''clum-enc''"

definition ALG :: string where "ALG = ''x25519-aes256gcm-v1''"

definition VERSION :: byte where "VERSION = 1"

definition SALT_LEN :: nat where "SALT_LEN = 32"

definition NONCE_PREFIX_LEN :: nat where "NONCE_PREFIX_LEN = 8"

definition DEK_LEN :: nat where "DEK_LEN = 32"

definition KEY_ID_HEX_LEN :: nat where "KEY_ID_HEX_LEN = 16"

definition DEFAULT_CHUNK_SIZE :: nat where "DEFAULT_CHUNK_SIZE = 64 * 1024"

definition HKDF_INFO :: bytes where "HKDF_INFO = str_bytes ''clum-recording-v1''"

record enc_header =
  eh_fmt :: string
  eh_v :: byte
  eh_alg :: string
  eh_key_id :: string
  eh_name :: string
  eh_epk :: string
  eh_salt :: string
  eh_nonce_prefix :: string
  eh_wrapped_dek :: string

record rec_crypto =
  rc_pub :: "bytes \<Rightarrow> bytes"
  rc_dh :: "bytes \<Rightarrow> bytes \<Rightarrow> bytes"
  rc_hkdf :: "bytes \<Rightarrow> bytes \<Rightarrow> bytes \<Rightarrow> bytes"
  rc_seal :: "bytes \<Rightarrow> bytes \<Rightarrow> bytes \<Rightarrow> bytes \<Rightarrow> bytes"
  rc_open :: "bytes \<Rightarrow> bytes \<Rightarrow> bytes \<Rightarrow> bytes \<Rightarrow> bytes option"
  rc_sha :: "bytes \<Rightarrow> bytes"
  rc_b64 :: "bytes \<Rightarrow> string"
  rc_unb64 :: "string \<Rightarrow> bytes option"
  rc_header_to :: "enc_header \<Rightarrow> bytes"
  rc_header_from :: "bytes \<Rightarrow> enc_header option"

definition newline :: byte where "newline = 0x0A"

definition rec_crypto_ok :: "rec_crypto \<Rightarrow> bool" where
  "rec_crypto_ok rc \<longleftrightarrow>
     (\<forall>a. length (rc_pub rc a) = 32)
     \<and> (\<forall>a b. rc_dh rc a (rc_pub rc b) = rc_dh rc b (rc_pub rc a))
     \<and> (\<forall>s i f. length (rc_hkdf rc s i f) = 32)
     \<and> (\<forall>k n a m. rc_open rc k n a (rc_seal rc k n a m) = Some m)
     \<and> (\<forall>k n a m. length (rc_seal rc k n a m) = length m + 16)
     \<and> (\<forall>b. rc_unb64 rc (rc_b64 rc b) = Some b)
     \<and> (\<forall>h. rc_header_from rc (rc_header_to rc h) = Some h \<and> newline \<notin> set (rc_header_to rc h))"

text \<open>Two lowercase hex digits per byte.\<close>

definition hex_digit :: "nat \<Rightarrow> char" where
  "hex_digit n = char_of (if n < 10 then 48 + n else 87 + n)"

definition hex_encode :: "bytes \<Rightarrow> string" where
  "hex_encode bs = concat (map (\<lambda>b. [hex_digit (unat b div 16), hex_digit (unat b mod 16)]) bs)"

text \<open>\<open>u8::from_str_radix(_, 16)\<close> on two characters: digits of either case, or a plus sign before one.\<close>

definition hex_val :: "char \<Rightarrow> nat option" where
  "hex_val c = (let n = of_char c in
     if 48 \<le> n \<and> n \<le> 57 then Some (n - 48) else if 97 \<le> n \<and> n \<le> 102 then Some (n - 87)
     else if 65 \<le> n \<and> n \<le> 70 then Some (n - 55) else None)"

definition radix16 :: "char \<Rightarrow> char \<Rightarrow> byte option" where
  "radix16 a b = (if a = CHR ''+'' then map_option of_nat (hex_val b)
     else case (hex_val a, hex_val b) of (Some x, Some y) \<Rightarrow> Some (of_nat (16 * x + y)) | _ \<Rightarrow> None)"

text \<open>
  The key file: the string slices two bytes at a time, which panics (\<open>None\<close>) off a character
  boundary and otherwise reports the first pair that is not a number.
\<close>

fun radix16_pairs :: "string \<Rightarrow> (string + bytes) option" where
  "radix16_pairs (a # b # s) =
     (if is_cont a \<or> \<not> starts_boundary s then None
      else case radix16 a b of
        None \<Rightarrow> Some (Inl ''invalid digit found in string'')
      | Some x \<Rightarrow> map_option (map_sum id ((#) x)) (radix16_pairs s))"
| "radix16_pairs _ = Some (Inr [])"

definition hex_decode_32 :: "string \<Rightarrow> (string + bytes) option" where
  "hex_decode_32 s = (if length s \<noteq> 64 then Some (Inl ''expected 64 hex chars'') else radix16_pairs s)"

lemma hex_digit_facts:
  assumes "n < 16"
  shows "hex_val (hex_digit n) = Some n" and "\<not> is_cont (hex_digit n)" and "hex_digit n \<noteq> CHR ''+''"
proof -
  have code: "of_char (hex_digit n) = (if n < 10 then 48 + n else 87 + n :: nat)"
    using assms by (simp add: hex_digit_def)
  then show "hex_val (hex_digit n) = Some n" using assms by (simp add: hex_val_def Let_def)
  show "\<not> is_cont (hex_digit n)" using code assms by (simp add: is_cont_def byte_of_def)
  have "of_char (CHR ''+'') = (43 :: nat)" by simp
  with code show "hex_digit n \<noteq> CHR ''+''" by (auto split: if_splits)
qed

lemma radix16_pairs_hex: "radix16_pairs (hex_encode b) = Some (Inr b)"
proof (induction b)
  case (Cons x b)
  have d: "unat x div 16 < 16" "unat x mod 16 < 16" using unat_byte_less [of x] by auto
  have "starts_boundary (hex_encode b)"
  proof (cases b)
    case (Cons y c)
    have "unat y div 16 < 16" using unat_byte_less [of y] by auto
    with Cons show ?thesis by (simp add: hex_encode_def starts_boundary_def hex_digit_facts)
  qed (simp add: hex_encode_def starts_boundary_def)
  moreover have "radix16 (hex_digit (unat x div 16)) (hex_digit (unat x mod 16)) = Some x"
    using d by (simp add: radix16_def hex_digit_facts del: of_nat_add of_nat_mult)
  ultimately show ?case using Cons.IH d by (simp add: hex_encode_def hex_digit_facts)
qed (simp add: hex_encode_def)

text \<open>A key written to the keyring is read back.\<close>

lemma hex_decode_encode: "length b = 32 \<Longrightarrow> hex_decode_32 (hex_encode b) = Some (Inr b)"
proof -
  have "length (hex_encode b) = 2 * length b" by (induction b) (simp_all add: hex_encode_def)
  then show "length b = 32 \<Longrightarrow> ?thesis" by (simp add: hex_decode_32_def radix16_pairs_hex)
qed

definition key_id_of :: "rec_crypto \<Rightarrow> bytes \<Rightarrow> string" where
  "key_id_of rc public_key = hex_encode (take (KEY_ID_HEX_LEN div 2) (rc_sha rc public_key))"

section \<open>Nonces, associated data and the envelope\<close>

definition be32 :: "u32 \<Rightarrow> bytes" where
  "be32 c = rev (le_bytes 4 (unat c))"

definition build_nonce :: "u32 \<Rightarrow> bytes \<Rightarrow> bytes" where
  "build_nonce counter nonce_prefix = be32 counter @ nonce_prefix"

definition build_aad :: "bytes \<Rightarrow> u32 \<Rightarrow> bool \<Rightarrow> bytes" where
  "build_aad name counter lst = name @ be32 counter @ [if lst then 1 else 0]"

definition derive_kek :: "rec_crypto \<Rightarrow> bytes \<Rightarrow> bytes \<Rightarrow> bytes \<Rightarrow> bytes \<Rightarrow> bytes" where
  "derive_kek rc ss epk server_pub salt = rc_hkdf rc salt (ss @ epk @ server_pub) HKDF_INFO"

section \<open>The encryptor\<close>

record encryptor =
  en_key :: bytes
  en_nonce_prefix :: bytes
  en_aad_name :: bytes
  en_counter :: u32
  en_header_line :: bytes
  en_buf :: bytes
  en_finished :: bool

text \<open>The random values drawn by \<open>new\<close>, in order: ephemeral secret, salt, nonce prefix, data key.\<close>

record enc_random =
  er_esk :: bytes
  er_salt :: bytes
  er_nonce_prefix :: bytes
  er_dek :: bytes

definition random_ok :: "enc_random \<Rightarrow> bool" where
  "random_ok r \<longleftrightarrow> length (er_esk r) = 32 \<and> length (er_salt r) = SALT_LEN
     \<and> length (er_nonce_prefix r) = NONCE_PREFIX_LEN \<and> length (er_dek r) = DEK_LEN"

definition encryptor_new ::
    "rec_crypto \<Rightarrow> enc_random \<Rightarrow> string \<Rightarrow> string \<Rightarrow> string \<Rightarrow> string + encryptor" where
  "encryptor_new rc r server_pub_b64 key_id filename =
     (case rc_unb64 rc server_pub_b64 of
        None \<Rightarrow> Inl ''bad server pubkey base64''
      | Some server_pub \<Rightarrow>
          if length server_pub \<noteq> 32 then Inl ''server pubkey must be 32 bytes''
          else
            let epk = rc_pub rc (er_esk r);
                ss = rc_dh rc (er_esk r) server_pub;
                kek = derive_kek rc ss epk server_pub (er_salt r);
                wrapped_dek = rc_seal rc kek (replicate 12 0) [] (er_dek r);
                header = \<lparr>eh_fmt = FMT, eh_v = VERSION, eh_alg = ALG, eh_key_id = key_id, eh_name = filename,
                          eh_epk = rc_b64 rc epk, eh_salt = rc_b64 rc (er_salt r),
                          eh_nonce_prefix = rc_b64 rc (er_nonce_prefix r), eh_wrapped_dek = rc_b64 rc wrapped_dek\<rparr>
            in Inr \<lparr>en_key = er_dek r, en_nonce_prefix = er_nonce_prefix r, en_aad_name = str_bytes filename,
                    en_counter = 0, en_header_line = rc_header_to rc header, en_buf = [], en_finished = False\<rparr>)"

definition encrypt_chunk :: "rec_crypto \<Rightarrow> encryptor \<Rightarrow> bytes \<Rightarrow> bool \<Rightarrow> encryptor \<times> bytes" where
  "encrypt_chunk rc e plaintext lst =
     (let nonce = build_nonce (en_counter e) (en_nonce_prefix e);
          aad = build_aad (en_aad_name e) (en_counter e) lst;
          ct = rc_seal rc (en_key e) nonce aad plaintext
      in (if lst then e else e\<lparr>en_counter := en_counter e + 1\<rparr>,
          le_bytes 4 (length ct) @ [if lst then 1 else 0] @ ct))"

text \<open>The loop of \<open>write\<close>: as long as a full chunk is buffered it is taken out and encrypted.\<close>

function drain_full :: "rec_crypto \<Rightarrow> encryptor \<Rightarrow> encryptor \<times> bytes" where
  "drain_full rc e =
     (if length (en_buf e) < DEFAULT_CHUNK_SIZE then (e, [])
      else
        let chunk_pt = take DEFAULT_CHUNK_SIZE (en_buf e);
            e = e\<lparr>en_buf := drop DEFAULT_CHUNK_SIZE (en_buf e)\<rparr>;
            (e, o1) = encrypt_chunk rc e chunk_pt False;
            (e, o2) = drain_full rc e
        in (e, o1 @ o2))"
  by pat_completeness auto
termination
  by (relation "measure (\<lambda>(rc, e). length (en_buf e))")
    (auto simp: encrypt_chunk_def DEFAULT_CHUNK_SIZE_def Let_def)

declare drain_full.simps [simp del]

definition enc_write :: "rec_crypto \<Rightarrow> encryptor \<Rightarrow> bytes \<Rightarrow> encryptor \<times> bytes" where
  "enc_write rc e data = (if en_finished e then (e, []) else drain_full rc (e\<lparr>en_buf := en_buf e @ data\<rparr>))"

definition enc_finish :: "rec_crypto \<Rightarrow> encryptor \<Rightarrow> encryptor \<times> bytes" where
  "enc_finish rc e = (if en_finished e then (e, [])
     else encrypt_chunk rc (e\<lparr>en_finished := True, en_buf := []\<rparr>) (en_buf e) True)"

fun enc_writes :: "rec_crypto \<Rightarrow> encryptor \<Rightarrow> bytes list \<Rightarrow> encryptor \<times> bytes" where
  "enc_writes rc e [] = (e, [])"
| "enc_writes rc e (d # ds) =
     (let (e, o1) = enc_write rc e d; (e, o2) = enc_writes rc e ds in (e, o1 @ o2))"

text \<open>
  The file the recorder writes: the header line, the framed chunks of every write and of the
  final flush.
\<close>

definition recording_file :: "rec_crypto \<Rightarrow> encryptor \<Rightarrow> bytes list \<Rightarrow> bytes" where
  "recording_file rc e ds =
     (let (e', out) = enc_writes rc e ds; (e'', fin) = enc_finish rc e'
      in en_header_line e @ [newline] @ out @ fin)"

section \<open>The decryptor\<close>

definition is_encrypted :: "bytes \<Rightarrow> bool" where
  "is_encrypted data \<longleftrightarrow>
     prefix (str_bytes ([CHR ''{'', CHR 0x22] @ ''fmt'' @ [CHR 0x22, CHR '':'', CHR 0x22] @ ''clum-enc'' @ [CHR 0x22]))
       (takeWhile (\<lambda>b. b \<noteq> newline) data)"

function decrypt_chunks ::
    "rec_crypto \<Rightarrow> bytes \<Rightarrow> bytes \<Rightarrow> bytes \<Rightarrow> u32 \<Rightarrow> bytes \<Rightarrow> string + bytes" where
  "decrypt_chunks rc key nonce_prefix name counter data =
     (if length data < 5 then Inr []
      else
        let ct_len = from_le (take 4 data);
            lst = (data ! 4 \<noteq> 0);
            data = drop 5 data
        in if length data < ct_len then Inl ''truncated chunk''
           else case rc_open rc key (build_nonce counter nonce_prefix) (build_aad name counter lst) (take ct_len data) of
             None \<Rightarrow> Inl ''authentication failed''
           | Some pt \<Rightarrow>
               if lst then Inr pt
               else map_sum id (\<lambda>out. pt @ out)
                      (decrypt_chunks rc key nonce_prefix name (counter + 1) (drop ct_len data)))"
  by pat_completeness auto
termination
  by (relation "measure (\<lambda>(rc, key, np, name, c, data). length data)") auto

declare decrypt_chunks.simps [simp del]

text \<open>\<open>B64.decode\<close> into an array of a fixed size.\<close>

definition decode_sized :: "rec_crypto \<Rightarrow> nat \<Rightarrow> string \<Rightarrow> string \<Rightarrow> string + bytes" where
  "decode_sized rc n what s = (case rc_unb64 rc s of
     None \<Rightarrow> Inl (''bad '' @ what)
   | Some b \<Rightarrow> if length b \<noteq> n then Inl (what @ '' has a wrong size'') else Inr b)"

definition decrypt_recording :: "rec_crypto \<Rightarrow> (string \<Rightarrow> bytes option) \<Rightarrow> bytes \<Rightarrow> string + bytes" where
  "decrypt_recording rc lookup data =
     (if newline \<notin> set data then Inl ''encrypted recording missing header line''
      else
        let head = takeWhile (\<lambda>b. b \<noteq> newline) data
        in case rc_header_from rc head of
          None \<Rightarrow> Inl ''invalid encrypted header''
        | Some header \<Rightarrow>
            if eh_fmt header \<noteq> FMT then Inl ''unexpected fmt''
            else case lookup (eh_key_id header) of
              None \<Rightarrow> Inl ''no recording key''
            | Some secret \<Rightarrow>
                (case decode_sized rc 32 ''epk'' (eh_epk header) of Inl e \<Rightarrow> Inl e | Inr epk \<Rightarrow>
                 case decode_sized rc SALT_LEN ''salt'' (eh_salt header) of Inl e \<Rightarrow> Inl e | Inr salt \<Rightarrow>
                 case decode_sized rc NONCE_PREFIX_LEN ''nonce_prefix'' (eh_nonce_prefix header) of
                   Inl e \<Rightarrow> Inl e | Inr nonce_prefix \<Rightarrow>
                 case rc_unb64 rc (eh_wrapped_dek header) of None \<Rightarrow> Inl ''bad wrapped_dek'' | Some wrapped_dek \<Rightarrow>
                   (let ss = rc_dh rc secret epk;
                        kek = derive_kek rc ss epk (rc_pub rc secret) salt
                    in case rc_open rc kek (replicate 12 0) [] wrapped_dek of
                         None \<Rightarrow> Inl ''dek unwrap failed (wrong key or tampered header)''
                       | Some dek \<Rightarrow>
                           if length dek \<noteq> 32 then Inl ''invalid dek length''
                           else decrypt_chunks rc dek nonce_prefix (str_bytes (eh_name header)) 0
                                  (drop (Suc (length head)) data))))"

section \<open>The shape of a recording\<close>

text \<open>One framed chunk, and a run of chunks that are not the last one, from a given counter.\<close>

definition frame :: "rec_crypto \<Rightarrow> encryptor \<Rightarrow> u32 \<Rightarrow> bool \<Rightarrow> bytes \<Rightarrow> bytes" where
  "frame rc e c lst pt =
     (let ct = rc_seal rc (en_key e) (build_nonce c (en_nonce_prefix e)) (build_aad (en_aad_name e) c lst) pt
      in le_bytes 4 (length ct) @ [if lst then 1 else 0] @ ct)"

fun frames :: "rec_crypto \<Rightarrow> encryptor \<Rightarrow> u32 \<Rightarrow> bytes list \<Rightarrow> bytes" where
  "frames rc e c [] = []"
| "frames rc e c (p # ps) = frame rc e c False p @ frames rc e (c + 1) ps"

definition same_keys :: "encryptor \<Rightarrow> encryptor \<Rightarrow> bool" where
  "same_keys e f \<longleftrightarrow> en_key e = en_key f \<and> en_nonce_prefix e = en_nonce_prefix f \<and> en_aad_name e = en_aad_name f"

lemma frame_same_keys: "same_keys e f \<Longrightarrow> frame rc e = frame rc f"
  by (intro ext) (simp add: frame_def same_keys_def)

lemma frames_same_keys: "same_keys e f \<Longrightarrow> frames rc e c ps = frames rc f c ps"
  by (induction ps arbitrary: c) (simp_all add: frame_same_keys)

lemma frames_append: "frames rc e c (ps @ qs) = frames rc e c ps @ frames rc e (c + of_nat (length ps)) qs"
  by (induction ps arbitrary: c) (simp_all add: add_ac)

text \<open>What a run of writes has done: which full chunks went out and what is still buffered.\<close>

definition wrote :: "rec_crypto \<Rightarrow> encryptor \<Rightarrow> bytes \<Rightarrow> encryptor \<times> bytes \<Rightarrow> bytes list \<Rightarrow> bool" where
  "wrote rc e data res ps \<longleftrightarrow> (case res of (e', out) \<Rightarrow>
     en_buf e @ data = concat ps @ en_buf e' \<and> out = frames rc e (en_counter e) ps
     \<and> en_counter e' = en_counter e + of_nat (length ps) \<and> same_keys e' e
     \<and> en_finished e' = en_finished e \<and> length (en_buf e') < DEFAULT_CHUNK_SIZE
     \<and> (\<forall>p \<in> set ps. length p = DEFAULT_CHUNK_SIZE))"

lemma drain_full_wrote: "\<exists>ps. wrote rc e [] (drain_full rc e) ps"
proof (induction rc e rule: drain_full.induct)
  case (1 rc e)
  show ?case
  proof (cases "length (en_buf e) < DEFAULT_CHUNK_SIZE")
    case True
    then show ?thesis by (intro exI [of _ "[]"]) (simp add: wrote_def drain_full.simps [of rc e] same_keys_def)
  next
    case False
    let ?p = "take DEFAULT_CHUNK_SIZE (en_buf e)"
    let ?e0 = "e\<lparr>en_buf := drop DEFAULT_CHUNK_SIZE (en_buf e)\<rparr>"
    let ?e1 = "?e0\<lparr>en_counter := en_counter e + 1\<rparr>"
    have c: "encrypt_chunk rc ?e0 ?p False = (?e1, frame rc e (en_counter e) False ?p)"
      by (simp add: encrypt_chunk_def frame_def Let_def)
    obtain e2 o2 where d: "drain_full rc ?e1 = (e2, o2)" by (cases "drain_full rc ?e1")
    from "1.IH" [OF False refl refl c [symmetric] refl] obtain ps where ps: "wrote rc ?e1 [] (e2, o2) ps"
      unfolding d by blast
    have "drain_full rc e = (e2, frame rc e (en_counter e) False ?p @ o2)"
      using False c d by (simp add: drain_full.simps [of rc e] Let_def)
    moreover have "wrote rc e [] (e2, frame rc e (en_counter e) False ?p @ o2) (?p # ps)"
    proof -
      have k: "same_keys ?e1 e" by (simp add: same_keys_def)
      have "drop DEFAULT_CHUNK_SIZE (en_buf e) = concat ps @ en_buf e2" using ps by (simp add: wrote_def)
      then have "en_buf e = ?p @ concat ps @ en_buf e2" by (metis append_take_drop_id)
      with ps False k frames_same_keys [OF k] show ?thesis
        by (auto simp: wrote_def same_keys_def add_ac)
    qed
    ultimately show ?thesis by (metis (no_types))
  qed
qed

lemma enc_write_wrote:
  assumes "\<not> en_finished e"
  shows "\<exists>ps. wrote rc e data (enc_write rc e data) ps"
proof -
  let ?e = "e\<lparr>en_buf := en_buf e @ data\<rparr>"
  obtain ps where "wrote rc ?e [] (drain_full rc ?e) ps" using drain_full_wrote by blast
  moreover have "frames rc ?e c qs = frames rc e c qs" for c qs by (rule frames_same_keys) (simp add: same_keys_def)
  ultimately show ?thesis using assms
    by (intro exI [of _ ps]) (auto simp: enc_write_def wrote_def same_keys_def split: prod.splits)
qed

lemma enc_writes_wrote:
  "\<not> en_finished e \<Longrightarrow> length (en_buf e) < DEFAULT_CHUNK_SIZE \<Longrightarrow>
     \<exists>ps. wrote rc e (concat ds) (enc_writes rc e ds) ps"
proof (induction ds arbitrary: e)
  case Nil
  then show ?case by (intro exI [of _ "[]"]) (simp add: wrote_def same_keys_def)
next
  case (Cons d ds)
  obtain e1 o1 where 1: "enc_write rc e d = (e1, o1)" by (cases "enc_write rc e d")
  with enc_write_wrote [OF Cons.prems(1), of rc d] obtain ps where ps: "wrote rc e d (e1, o1) ps" by auto
  then have "\<not> en_finished e1" "length (en_buf e1) < DEFAULT_CHUNK_SIZE" and k: "same_keys e1 e"
    using Cons.prems by (simp_all add: wrote_def)
  obtain e2 o2 where 2: "enc_writes rc e1 ds = (e2, o2)" by (cases "enc_writes rc e1 ds")
  with Cons.IH [OF \<open>\<not> en_finished e1\<close> \<open>length (en_buf e1) < _\<close>] obtain qs where qs: "wrote rc e1 (concat ds) (e2, o2) qs"
    by auto
  have "wrote rc e (d @ concat ds) (e2, o1 @ o2) (ps @ qs)"
  proof -
    have "en_buf e @ d @ concat ds = concat ps @ en_buf e1 @ concat ds" using ps by (simp add: wrote_def)
    also have "\<dots> = concat (ps @ qs) @ en_buf e2" using qs by (simp add: wrote_def)
    finally show ?thesis
      using ps qs frames_same_keys [OF k]
      by (auto simp: wrote_def frames_append same_keys_def add_ac)
  qed
  with 1 2 show ?case by auto
qed

text \<open>A whole recording: full chunks, then a last one with what was buffered.\<close>

lemma recording_file_shape:
  assumes "\<not> en_finished e" and "length (en_buf e) < DEFAULT_CHUNK_SIZE"
  obtains ps lst where "en_buf e @ concat ds = concat ps @ lst" and "length lst < DEFAULT_CHUNK_SIZE"
    and "\<forall>p \<in> set ps. length p = DEFAULT_CHUNK_SIZE"
    and "recording_file rc e ds = en_header_line e @ [newline] @ frames rc e (en_counter e) ps
           @ frame rc e (en_counter e + of_nat (length ps)) True lst"
proof -
  obtain e' out where w: "enc_writes rc e ds = (e', out)" by (cases "enc_writes rc e ds")
  with enc_writes_wrote [OF assms, of rc ds] obtain ps where ps: "wrote rc e (concat ds) (e', out) ps" by auto
  then have "same_keys e' e" "\<not> en_finished e'" using assms by (simp_all add: wrote_def)
  then have "enc_finish rc e' = (e'\<lparr>en_finished := True, en_buf := []\<rparr>, frame rc e (en_counter e') True (en_buf e'))"
    using frame_same_keys [of e' e rc] by (simp add: enc_finish_def encrypt_chunk_def frame_def same_keys_def Let_def)
  with w ps that [of ps "en_buf e'"] show thesis by (simp add: recording_file_def wrote_def)
qed

section \<open>Decryption\<close>

lemma decrypt_chunks_short: "length data < 5 \<Longrightarrow> decrypt_chunks rc key np name c data = Inr []"
  by (simp add: decrypt_chunks.simps)

lemma decrypt_step:
  assumes "length ct < 256 ^ 4"
  shows "decrypt_chunks rc key np name c (le_bytes 4 (length ct) @ b # ct @ rest) =
    (case rc_open rc key (build_nonce c np) (build_aad name c (b \<noteq> 0)) ct of
       None \<Rightarrow> Inl ''authentication failed''
     | Some pt \<Rightarrow> if b \<noteq> 0 then Inr pt
                  else map_sum id (\<lambda>out. pt @ out) (decrypt_chunks rc key np name (c + 1) rest))"
proof -
  define data where "data = le_bytes 4 (length ct) @ b # ct @ rest"
  have "\<not> length data < 5" "take 4 data = le_bytes 4 (length ct)" "data ! 4 = b" "drop 5 data = ct @ rest"
    using nth_append_length [of "le_bytes 4 (length ct)" b] by (simp_all add: data_def)
  moreover have "from_le (le_bytes 4 (length ct)) = length ct" using assms by (simp add: codec_simps)
  ultimately show ?thesis
    unfolding data_def [symmetric] by (simp add: decrypt_chunks.simps [of rc key np name c data] Let_def split: option.splits)
qed

lemma decrypt_frame:
  assumes "rec_crypto_ok rc" and "length pt \<le> DEFAULT_CHUNK_SIZE"
  shows "decrypt_chunks rc (en_key e) (en_nonce_prefix e) (en_aad_name e) c (frame rc e c lst pt @ rest) =
    (if lst then Inr pt
     else map_sum id (\<lambda>out. pt @ out) (decrypt_chunks rc (en_key e) (en_nonce_prefix e) (en_aad_name e) (c + 1) rest))"
proof -
  define ct where "ct = rc_seal rc (en_key e) (build_nonce c (en_nonce_prefix e)) (build_aad (en_aad_name e) c lst) pt"
  have "length ct < 256 ^ 4" using assms by (simp add: rec_crypto_ok_def ct_def DEFAULT_CHUNK_SIZE_def)
  moreover have "rc_open rc (en_key e) (build_nonce c (en_nonce_prefix e)) (build_aad (en_aad_name e) c lst) ct = Some pt"
    using assms(1) by (simp add: rec_crypto_ok_def ct_def)
  moreover have "frame rc e c lst pt @ rest = le_bytes 4 (length ct) @ (if lst then 1 else 0) # ct @ rest"
    by (simp add: frame_def ct_def Let_def)
  ultimately show ?thesis by (cases lst) (simp_all add: decrypt_step)
qed

lemma decrypt_frames:
  assumes "rec_crypto_ok rc" and "\<forall>p \<in> set ps. length p = DEFAULT_CHUNK_SIZE"
  shows "decrypt_chunks rc (en_key e) (en_nonce_prefix e) (en_aad_name e) c (frames rc e c ps @ rest) =
    map_sum id (\<lambda>out. concat ps @ out)
      (decrypt_chunks rc (en_key e) (en_nonce_prefix e) (en_aad_name e) (c + of_nat (length ps)) rest)"
  using assms(2)
proof (induction ps arbitrary: c)
  case Nil
  show ?case by (simp add: map_sum.identity id_def)
next
  case (Cons p ps)
  then show ?case
    by (simp add: decrypt_frame [OF assms(1)] sum.map_comp o_def add_ac)
qed

lemma build_nonce_inject:
  assumes "i < 2 ^ 32" and "j < 2 ^ 32" and "build_nonce (of_nat i) p = build_nonce (of_nat j) p"
  shows "i = j"
proof -
  have "le_bytes 4 (unat (of_nat i :: u32)) = le_bytes 4 (unat (of_nat j :: u32))"
    using assms(3) by (simp add: build_nonce_def be32_def)
  then have "from_le (le_bytes 4 i) = from_le (le_bytes 4 j)" using assms(1,2) by (simp add: unat_of_nat)
  with assms(1,2) show ?thesis by (simp add: codec_simps)
qed

text \<open>A new encryptor, and what the decryptor makes of its header with any body behind it.\<close>

lemma encryptor_new_ok:
  assumes "rec_crypto_ok rc"
  obtains e where "encryptor_new rc r (rc_b64 rc (rc_pub rc secret)) key_id filename = Inr e"
    and "\<not> en_finished e" and "en_buf e = []" and "en_counter e = 0" and "en_key e = er_dek r"
    and "en_nonce_prefix e = er_nonce_prefix r" and "en_aad_name e = str_bytes filename"
proof -
  have "rc_unb64 rc (rc_b64 rc (rc_pub rc secret)) = Some (rc_pub rc secret)" "length (rc_pub rc secret) = 32"
    using assms by (simp_all add: rec_crypto_ok_def)
  then obtain e where "encryptor_new rc r (rc_b64 rc (rc_pub rc secret)) key_id filename = Inr e"
    by (simp add: encryptor_new_def Let_def)
  with that [of e] \<open>rc_unb64 rc _ = _\<close> \<open>length _ = 32\<close> show thesis by (auto simp: encryptor_new_def Let_def)
qed

lemma decrypt_header:
  assumes "rec_crypto_ok rc" and "random_ok r" and "lookup key_id = Some secret"
    and "encryptor_new rc r (rc_b64 rc (rc_pub rc secret)) key_id filename = Inr e"
  shows "decrypt_recording rc lookup (en_header_line e @ [newline] @ body) =
    decrypt_chunks rc (en_key e) (en_nonce_prefix e) (en_aad_name e) 0 body"
proof -
  define kek where "kek = derive_kek rc (rc_dh rc (er_esk r) (rc_pub rc secret)) (rc_pub rc (er_esk r)) (rc_pub rc secret) (er_salt r)"
  define h where "h = \<lparr>eh_fmt = FMT, eh_v = VERSION, eh_alg = ALG, eh_key_id = key_id, eh_name = filename,
    eh_epk = rc_b64 rc (rc_pub rc (er_esk r)), eh_salt = rc_b64 rc (er_salt r),
    eh_nonce_prefix = rc_b64 rc (er_nonce_prefix r),
    eh_wrapped_dek = rc_b64 rc (rc_seal rc kek (replicate 12 0) [] (er_dek r))\<rparr>"
  have e: "en_header_line e = rc_header_to rc h" "en_key e = er_dek r" "en_nonce_prefix e = er_nonce_prefix r"
      "en_aad_name e = str_bytes filename"
    using assms(1,4) by (auto simp: encryptor_new_def rec_crypto_ok_def h_def kek_def Let_def)
  have dh: "rc_dh rc secret (rc_pub rc (er_esk r)) = rc_dh rc (er_esk r) (rc_pub rc secret)"
    and open_seal: "\<And>k n a m. rc_open rc k n a (rc_seal rc k n a m) = Some m"
    and b64: "\<And>b. rc_unb64 rc (rc_b64 rc b) = Some b" and pub: "\<And>a. length (rc_pub rc a) = 32"
    and hdr: "rc_header_from rc (rc_header_to rc h) = Some h" "newline \<notin> set (rc_header_to rc h)"
    using assms(1) by (simp_all add: rec_crypto_ok_def)
  have tw: "takeWhile (\<lambda>b. b \<noteq> newline) (rc_header_to rc h @ newline # body) = rc_header_to rc h"
    using hdr(2) by (subst takeWhile_append2) auto
  have f: "eh_fmt h = FMT" "eh_key_id h = key_id" "eh_name h = filename"
      "rc_unb64 rc (eh_wrapped_dek h) = Some (rc_seal rc kek (replicate 12 0) [] (er_dek r))"
    by (simp_all add: h_def b64)
  have sized: "decode_sized rc 32 w (eh_epk h) = Inr (rc_pub rc (er_esk r))"
      "decode_sized rc SALT_LEN w (eh_salt h) = Inr (er_salt r)"
      "decode_sized rc NONCE_PREFIX_LEN w (eh_nonce_prefix h) = Inr (er_nonce_prefix r)" for w
    using assms(2) by (simp_all add: decode_sized_def b64 pub h_def random_ok_def)
  have "length (er_dek r) = 32" using assms(2) by (simp add: random_ok_def DEK_LEN_def)
  then show ?thesis
    using assms(3) unfolding decrypt_recording_def
    by (simp add: e tw hdr f sized dh open_seal flip: kek_def)
qed

lemma new_recording_shape:
  assumes "rec_crypto_ok rc" and "encryptor_new rc r (rc_b64 rc (rc_pub rc secret)) key_id filename = Inr e"
  obtains ps lst where "concat ds = concat ps @ lst" and "length lst < DEFAULT_CHUNK_SIZE"
    and "\<forall>p \<in> set ps. length p = DEFAULT_CHUNK_SIZE"
    and "recording_file rc e ds = en_header_line e @ [newline] @ frames rc e 0 ps @ frame rc e (of_nat (length ps)) True lst"
proof -
  have e: "\<not> en_finished e" "en_buf e = []" "en_counter e = 0"
    using encryptor_new_ok [OF assms(1), of r secret key_id filename] assms(2) by auto
  have "length (en_buf e) < DEFAULT_CHUNK_SIZE" by (simp add: e(2) DEFAULT_CHUNK_SIZE_def)
  from recording_file_shape [OF e(1) this, of ds rc] that show thesis unfolding e(2,3) by auto
qed

lemma decrypt_no_key:
  assumes "rec_crypto_ok rc" and "lookup key_id = None"
    and "encryptor_new rc r (rc_b64 rc (rc_pub rc secret)) key_id filename = Inr e"
  shows "\<exists>msg. decrypt_recording rc lookup (en_header_line e @ [newline] @ body) = Inl msg"
proof -
  obtain h where h: "en_header_line e = rc_header_to rc h" "eh_key_id h = key_id"
    using assms(1,3) by (auto simp: encryptor_new_def rec_crypto_ok_def Let_def)
  have hdr: "rc_header_from rc (rc_header_to rc h) = Some h" "newline \<notin> set (rc_header_to rc h)"
    using assms(1) by (simp_all add: rec_crypto_ok_def)
  have "takeWhile (\<lambda>b. b \<noteq> newline) (rc_header_to rc h @ newline # body) = rc_header_to rc h"
    using hdr(2) by (subst takeWhile_append2) auto
  with h hdr assms(2) show ?thesis by (simp add: decrypt_recording_def Let_def)
qed

text \<open>Decrypting the file of a recording gives back what was written.\<close>

lemma decrypt_recording_file:
  assumes "rec_crypto_ok rc" and "random_ok r" and "lookup key_id = Some secret"
    and "encryptor_new rc r (rc_b64 rc (rc_pub rc secret)) key_id filename = Inr e"
  shows "decrypt_recording rc lookup (recording_file rc e ds) = Inr (concat ds)"
proof -
  obtain ps lst where ps: "concat ds = concat ps @ lst" "length lst < DEFAULT_CHUNK_SIZE"
    "\<forall>p \<in> set ps. length p = DEFAULT_CHUNK_SIZE"
    "recording_file rc e ds = en_header_line e @ [newline] @ frames rc e 0 ps @ frame rc e (of_nat (length ps)) True lst"
    by (rule new_recording_shape [OF assms(1,4)])
  have "decrypt_recording rc lookup (recording_file rc e ds) =
      decrypt_chunks rc (en_key e) (en_nonce_prefix e) (en_aad_name e) 0 (frames rc e 0 ps @ frame rc e (of_nat (length ps)) True lst)"
    unfolding ps(4) by (rule decrypt_header [where lookup = lookup and key_id = key_id and secret = secret, OF assms])
  also have "\<dots> = Inr (concat ds)"
    using decrypt_frame [OF assms(1), of lst e "of_nat (length ps)" True "[]"] ps
    by (simp add: decrypt_frames [OF assms(1)])
  finally show ?thesis .
qed

section \<open>Properties\<close>

text \<open>
  Recordings are read back: for any key, file name, random values and sequence of writes, the
  encryptor is built, and decrypting its file with the matching key gives exactly the
  concatenation of what was written. Decryption with no key for the key id fails.
\<close>

theorem recording_roundtrip:
  assumes "rec_crypto_ok rc" and "random_ok r" and "lookup key_id = Some secret" and "lookup' key_id = None"
  shows "\<exists>e. encryptor_new rc r (rc_b64 rc (rc_pub rc secret)) key_id filename = Inr e
    \<and> decrypt_recording rc lookup (recording_file rc e ds) = Inr (concat ds)
    \<and> (\<exists>msg. decrypt_recording rc lookup' (recording_file rc e ds) = Inl msg)"
proof -
  obtain e where e: "encryptor_new rc r (rc_b64 rc (rc_pub rc secret)) key_id filename = Inr e"
    by (rule encryptor_new_ok [OF assms(1)])
  have "decrypt_recording rc lookup (recording_file rc e ds) = Inr (concat ds)"
    by (rule decrypt_recording_file [where lookup = lookup and key_id = key_id and secret = secret, OF assms(1-3) e])
  moreover have "\<exists>msg. decrypt_recording rc lookup' (recording_file rc e ds) = Inl msg"
    unfolding recording_file_def Let_def case_prod_beta
    by (rule decrypt_no_key [where lookup = lookup' and key_id = key_id, OF assms(1,4) e])
  ultimately show ?thesis using e by blast
qed

text \<open>
  Nonces never repeat under one data key: a recording of fewer than \<open>2 ^ 32\<close> full chunks is the
  header line, a frame for each full chunk and one for the rest, encrypted under counters
  \<open>0, 1, 2, \<dots>\<close> in order, and the nonces of these counters are pairwise different.
\<close>

theorem recording_nonces_distinct:
  assumes "rec_crypto_ok rc" and "encryptor_new rc r (rc_b64 rc (rc_pub rc secret)) key_id filename = Inr e"
    and "length (concat ds) < 2 ^ 32 * DEFAULT_CHUNK_SIZE"
  shows "\<exists>ps lst. concat ps @ lst = concat ds
    \<and> recording_file rc e ds = en_header_line e @ [newline] @ frames rc e 0 ps @ frame rc e (of_nat (length ps)) True lst
    \<and> distinct (map (\<lambda>i. build_nonce (of_nat i) (en_nonce_prefix e)) [0..<Suc (length ps)])"
proof -
  obtain ps lst where ps: "concat ds = concat ps @ lst" "\<forall>p \<in> set ps. length p = DEFAULT_CHUNK_SIZE"
    "recording_file rc e ds = en_header_line e @ [newline] @ frames rc e 0 ps @ frame rc e (of_nat (length ps)) True lst"
    by (rule new_recording_shape [OF assms(1,2)])
  have "length (concat ps) = length ps * DEFAULT_CHUNK_SIZE" using ps(2) by (induction ps) auto
  then have "length ps * DEFAULT_CHUNK_SIZE \<le> length (concat ds)" using ps(1) by simp
  from this assms(3) have "length ps * DEFAULT_CHUNK_SIZE < 2 ^ 32 * DEFAULT_CHUNK_SIZE" by (rule le_less_trans)
  then have len: "length ps < 2 ^ 32" by (simp only: mult_less_cancel2)
  then have "distinct (map (\<lambda>i. build_nonce (of_nat i) (en_nonce_prefix e)) [0..<Suc (length ps)])"
    unfolding distinct_map
  proof (intro conjI inj_onI)
    fix i j assume ij: "i \<in> set [0..<Suc (length ps)]" "j \<in> set [0..<Suc (length ps)]"
      and eq: "build_nonce (of_nat i) (en_nonce_prefix e) = build_nonce (of_nat j) (en_nonce_prefix e)"
    from len ij have "i < 2 ^ 32" "j < 2 ^ 32" by auto
    then show "i = j" using eq by (rule build_nonce_inject)
  qed (rule distinct_upt)
  with ps(1) [symmetric] ps(3) show ?thesis by (intro exI [of _ ps] exI [of _ lst] conjI)
qed

text \<open>
  A recording cut after a complete chunk is accepted: dropping all but the first \<open>k\<close> full
  chunks of a recording, with fewer than five bytes of the next one, is decrypted without an
  error to the first \<open>k\<close> chunks of the data.
\<close>

theorem recording_truncation_accepted:
  assumes "rec_crypto_ok rc" and "random_ok r" and "lookup key_id = Some secret"
    and "encryptor_new rc r (rc_b64 rc (rc_pub rc secret)) key_id filename = Inr e"
    and "k * DEFAULT_CHUNK_SIZE \<le> length (concat ds)" and "j < 5"
  shows "\<exists>n. n < length (recording_file rc e ds)
    \<and> decrypt_recording rc lookup (take (n + j) (recording_file rc e ds)) = Inr (take (k * DEFAULT_CHUNK_SIZE) (concat ds))"
proof -
  obtain ps lst where ps: "concat ds = concat ps @ lst" "length lst < DEFAULT_CHUNK_SIZE"
    "\<forall>p \<in> set ps. length p = DEFAULT_CHUNK_SIZE"
    "recording_file rc e ds = en_header_line e @ [newline] @ frames rc e 0 ps @ frame rc e (of_nat (length ps)) True lst"
    by (rule new_recording_shape [OF assms(1,4)])
  have full: "length (concat qs) = length qs * DEFAULT_CHUNK_SIZE" if "set qs \<subseteq> set ps" for qs
    using that ps(3) by (induction qs) auto
  have "k * DEFAULT_CHUNK_SIZE < Suc (length ps) * DEFAULT_CHUNK_SIZE"
    using assms(5) ps(1,2) full [of ps] by simp
  then have "k < Suc (length ps)" by (simp only: mult_less_cancel2)
  then have k: "k \<le> length ps" by simp
  then have pfx: "take (k * DEFAULT_CHUNK_SIZE) (concat ds) = concat (take k ps)"
    using full [OF set_take_subset, of k] ps(1) concat_append [of "take k ps" "drop k ps"] by simp
  define body where "body = frames rc e (of_nat k) (drop k ps) @ frame rc e (of_nat (length ps)) True lst"
  define pre where "pre = en_header_line e @ [newline] @ frames rc e 0 (take k ps)"
  have cut: "recording_file rc e ds = pre @ body"
    using ps(4) frames_append [of rc e 0 "take k ps" "drop k ps"] k by (simp add: pre_def body_def)
  have "body \<noteq> []" by (simp add: body_def frame_def Let_def)
  then have "length pre < length (recording_file rc e ds)" by (simp add: cut)
  moreover have "decrypt_recording rc lookup (take (length pre + j) (recording_file rc e ds)) = Inr (concat (take k ps))"
  proof -
    have "take (length pre + j) (recording_file rc e ds) = en_header_line e @ [newline] @ frames rc e 0 (take k ps) @ take j body"
      by (simp add: cut pre_def)
    moreover have "\<forall>p \<in> set (take k ps). length p = DEFAULT_CHUNK_SIZE" using ps(3) by (auto dest: in_set_takeD)
    ultimately show ?thesis
      using decrypt_header [where lookup = lookup and key_id = key_id and secret = secret, OF assms(1-4)] assms(6)
      by (simp add: decrypt_frames [OF assms(1)] decrypt_chunks_short)
  qed
  ultimately show ?thesis unfolding pfx by blast
qed

section \<open>Witnesses\<close>

text \<open>
  A concrete instance of the third-party interface: no secrecy, but every documented law. Header
  fields are written as pairs of printable bytes, each field ended by a space.
\<close>

definition nib :: "nat \<Rightarrow> byte" where
  "nib n = of_nat (0x30 + n)"

definition unnib :: "byte \<Rightarrow> nat" where
  "unnib b = unat b - 0x30"

definition pack :: "string \<Rightarrow> bytes" where
  "pack s = concat (map (\<lambda>c. [nib (of_char c div 16), nib (of_char c mod 16)]) s)"

fun unpack :: "bytes \<Rightarrow> string" where
  "unpack (a # b # r) = char_of (16 * unnib a + unnib b) # unpack r"
| "unpack _ = []"

fun pack_fields :: "string list \<Rightarrow> bytes" where
  "pack_fields [] = []"
| "pack_fields (f # fs) = pack f @ 0x20 # pack_fields fs"

fun unpack_fields :: "nat \<Rightarrow> bytes \<Rightarrow> string list" where
  "unpack_fields 0 b = []"
| "unpack_fields (Suc n) b = unpack (takeWhile (\<lambda>x. x \<noteq> 0x20) b) # unpack_fields n (tl (dropWhile (\<lambda>x. x \<noteq> 0x20) b))"

definition header_fields :: "enc_header \<Rightarrow> string list" where
  "header_fields h = [eh_fmt h, [char_of (unat (eh_v h))], eh_alg h, eh_key_id h, eh_name h, eh_epk h, eh_salt h,
     eh_nonce_prefix h, eh_wrapped_dek h]"

definition fields_header :: "string list \<Rightarrow> enc_header" where
  "fields_header fs = \<lparr>eh_fmt = fs ! 0, eh_v = of_char (hd (fs ! 1)), eh_alg = fs ! 2, eh_key_id = fs ! 3, eh_name = fs ! 4,
     eh_epk = fs ! 5, eh_salt = fs ! 6, eh_nonce_prefix = fs ! 7, eh_wrapped_dek = fs ! 8\<rparr>"

definition toy_rc :: rec_crypto where
  "toy_rc = \<lparr>rc_pub = (\<lambda>_. replicate 32 0), rc_dh = (\<lambda>_ _. []), rc_hkdf = (\<lambda>_ _ _. replicate 32 0),
     rc_seal = (\<lambda>_ _ _ m. m @ replicate 16 0), rc_open = (\<lambda>_ _ _ c. Some (take (length c - 16) c)),
     rc_sha = id, rc_b64 = bytes_str, rc_unb64 = (\<lambda>s. Some (str_bytes s)),
     rc_header_to = (\<lambda>h. pack_fields (header_fields h)),
     rc_header_from = (\<lambda>b. Some (fields_header (unpack_fields 9 b)))\<rparr>"

lemma nib_facts: "n < 16 \<Longrightarrow> unnib (nib n) = n" "n < 16 \<Longrightarrow> nib n \<noteq> 0x20" "n < 16 \<Longrightarrow> nib n \<noteq> newline"
proof -
  assume n: "n < 16"
  then have u: "unat (nib n) = 48 + n" by (simp add: nib_def unat_of_nat del: of_nat_add)
  then show "unnib (nib n) = n" by (simp add: unnib_def)
  show "nib n \<noteq> 0x20" "nib n \<noteq> newline" using u by (auto simp: newline_def)
qed

lemma pack_facts: "unpack (pack s) = s" "0x20 \<notin> set (pack s)" "newline \<notin> set (pack s)"
proof -
  have d: "of_char c div 16 < (16 :: nat)" for c by (rule less_mult_imp_div_less) simp
  show "unpack (pack s) = s"
  proof (induction s)
    case (Cons c s)
    have "16 * (of_char c div 16) + of_char c mod 16 = (of_char c :: nat)" by simp
    with Cons show ?case by (simp add: pack_def nib_facts(1) d)
  qed (simp add: pack_def)
  have q: "nib (of_char c div 16) \<noteq> 0x20 \<and> nib (of_char c mod 16) \<noteq> 0x20
      \<and> nib (of_char c div 16) \<noteq> newline \<and> nib (of_char c mod 16) \<noteq> newline" for c
    using d [of c] by (simp add: nib_facts(2,3))
  show "0x20 \<notin> set (pack s)" "newline \<notin> set (pack s)"
    by (induction s) (simp_all add: pack_def q [THEN conjunct1, symmetric] q not_sym)
qed

lemma while_sep:
  assumes "x \<notin> set p"
  shows "takeWhile (\<lambda>y. y \<noteq> x) (p @ x # xs) = p" and "dropWhile (\<lambda>y. y \<noteq> x) (p @ x # xs) = x # xs"
  using assms by (induction p) auto

lemma unpack_pack_fields: "unpack_fields (length fs) (pack_fields fs @ rest) = fs"
proof (induction fs)
  case (Cons f fs)
  then show ?case by (simp add: pack_facts(1) while_sep [OF pack_facts(2)])
qed simp

lemma toy_rc_ok: "rec_crypto_ok toy_rc"
proof -
  have "fields_header (unpack_fields 9 (pack_fields (header_fields h))) = h" for h
  proof -
    have "unpack_fields 9 (pack_fields (header_fields h)) = header_fields h"
    proof -
      have "length (header_fields h) = 9" by (simp add: header_fields_def)
      then show ?thesis using unpack_pack_fields [of "header_fields h" "[]"] by (simp only: append_Nil2)
    qed
    moreover have "of_char (char_of (unat (eh_v h))) = eh_v h"
      using str_bytes_bytes_str [of "[eh_v h]"] by (simp add: str_bytes_def bytes_str_def)
    ultimately show ?thesis by (simp add: fields_header_def header_fields_def)
  qed
  moreover have "newline \<notin> set (pack_fields fs)" for fs
  proof (induction fs)
    case (Cons f fs)
    moreover have "newline \<noteq> 0x20" by (simp add: newline_def)
    ultimately show ?case by (simp add: pack_facts(3))
  qed simp
  ultimately show ?thesis by (simp add: rec_crypto_ok_def toy_rc_def str_bytes_bytes_str)
qed

definition toy_random :: enc_random where
  "toy_random = \<lparr>er_esk = replicate 32 1, er_salt = replicate 32 2, er_nonce_prefix = replicate 8 3, er_dek = replicate 32 4\<rparr>"

lemma toy_random_ok: "random_ok toy_random"
  by (simp add: random_ok_def toy_random_def SALT_LEN_def NONCE_PREFIX_LEN_def DEK_LEN_def)

end
