(* ===== verification/Cast_Recorder.thy ===== *)
theory Cast_Recorder
  imports Utf8 Json Recording_Crypto
begin

text \<open>
  The session recorder of the bridge (\<open>rmux-bridge/src/cast_recorder.rs\<close>): the bounded channel with
  its gap markers, the writer that turns events into the lines of an asciinema file, encrypted or
  not, and the clean-up of old recordings. The recorder is started by \<open>make_recorder\<close> in
  \<open>interactive.rs\<close>.

  Times since the start of a recording are the decimal texts that are printed into the lines. A
  line is a byte string. The writes to the file are a parameter that says how many bytes of a
  failing write reached the file. JSON escaping of a text and base64 are parameters. Byte counters
  are natural numbers, as no file reaches \<open>2 ^ 64\<close> bytes.
\<close>

section \<open>Event lines\<close>

datatype cast_event = Output bytes | Input bytes | Resize u16 u16 | Exit int

definition EVENT_OUTPUT :: string where "EVENT_OUTPUT = ''o''"

definition EVENT_INPUT :: string where "EVENT_INPUT = ''i''"

definition EVENT_RESIZE :: string where "EVENT_RESIZE = ''r''"

definition EVENT_INVALID_BYTES :: string where "EVENT_INVALID_BYTES = ''ob''"

definition GAP_MARKER :: bytes where "GAP_MARKER = str_bytes (''[gap]'' @ [CHR 0x0D, CHR 0x0A])"

definition CHANNEL_CAPACITY :: nat where "CHANNEL_CAPACITY = 4096"

definition FSYNC_BYTE_THRESHOLD :: nat where "FSYNC_BYTE_THRESHOLD = 64 * 1024"

record cast_codec =
  cc_json :: "bytes \<Rightarrow> bytes option"
  cc_b64 :: "bytes \<Rightarrow> string"
  cc_print :: "json \<Rightarrow> bytes"

definition quote :: "string \<Rightarrow> string" where
  "quote s = [CHR 0x22] @ s @ [CHR 0x22]"

definition event_line :: "string \<Rightarrow> string \<Rightarrow> bytes \<Rightarrow> bytes" where
  "event_line elapsed kind payload =
     str_bytes (''['' @ elapsed @ '', '' @ quote kind @ '', '') @ payload @ str_bytes ('']'' @ [CHR 0x0A])"

definition format_event_line :: "cast_codec \<Rightarrow> string \<Rightarrow> string \<Rightarrow> bytes \<Rightarrow> bytes" where
  "format_event_line cc elapsed kind t =
     event_line elapsed kind (case cc_json cc t of Some escaped \<Rightarrow> escaped | None \<Rightarrow> str_bytes (quote []))"

definition format_bytes_event_line :: "cast_codec \<Rightarrow> string \<Rightarrow> bytes \<Rightarrow> bytes" where
  "format_bytes_event_line cc elapsed b =
     event_line elapsed EVENT_INVALID_BYTES (str_bytes (quote (cc_b64 cc b)))"

definition decimal_int :: "int \<Rightarrow> string" where
  "decimal_int i = (if i < 0 then ''-'' @ decimal (nat (- i)) else decimal (nat i))"

definition format_resize_line :: "string \<Rightarrow> u16 \<Rightarrow> u16 \<Rightarrow> bytes" where
  "format_resize_line elapsed cols rows =
     event_line elapsed EVENT_RESIZE (str_bytes (quote (decimal (unat cols) @ ''x'' @ decimal (unat rows))))"

definition format_exit_line :: "string \<Rightarrow> int \<Rightarrow> bytes" where
  "format_exit_line elapsed code = event_line elapsed ''exit'' (str_bytes (decimal_int code))"

text \<open>
  One line of a stream: text of a kind, or a run of bytes that are not UTF-8. The loop of
  \<open>reassemble_events\<close> on the pending bytes gives the lines and what stays pending.
\<close>

datatype item = Text string bytes | Raw bytes

fun format_item :: "cast_codec \<Rightarrow> string \<Rightarrow> item \<Rightarrow> bytes" where
  "format_item cc elapsed (Text kind t) = format_event_line cc elapsed kind t"
| "format_item cc elapsed (Raw b) = format_bytes_event_line cc elapsed b"

function reassemble :: "string \<Rightarrow> bytes \<Rightarrow> item list \<times> bytes" where
  "reassemble kind pending = (case from_utf8 pending of
     None \<Rightarrow> (if pending = [] then [] else [Text kind pending], [])
   | Some (valid_up_to, error_len) \<Rightarrow>
       (let txt = (if 0 < valid_up_to then [Text kind (take valid_up_to pending)] else [])
        in case error_len of
             Some bad \<Rightarrow>
               (let (ls, rest) = reassemble kind (drop (valid_up_to + bad) pending)
                in (txt @ Raw (take bad (drop valid_up_to pending)) # ls, rest))
           | None \<Rightarrow> (txt, drop valid_up_to pending)))"
  by pat_completeness auto
termination
  by (relation "measure (length \<circ> snd)") (auto dest: from_utf8_bad)

declare reassemble.simps [simp del]

definition reassemble_events :: "bytes \<Rightarrow> bytes \<Rightarrow> string \<Rightarrow> item list \<times> bytes" where
  "reassemble_events pending chunk kind =
     (if chunk = [] \<and> pending = [] then ([], []) else reassemble kind (pending @ chunk))"

definition flush_pending_bytes :: "bytes \<Rightarrow> item list" where
  "flush_pending_bytes pending = (if pending = [] then [] else [Raw pending])"

section \<open>The writer\<close>

type_synonym disk = "bytes \<Rightarrow> bytes \<Rightarrow> nat option"

record cast_writer =
  cw_file :: bytes
  cw_hashed :: bytes
  cw_total_bytes :: nat
  cw_since_sync :: nat
  cw_syncs :: nat
  cw_encryptor :: "encryptor option"
  cw_pending_output :: bytes
  cw_pending_input :: bytes

record cast_meta =
  cm_sha256 :: string
  cm_size_bytes :: nat
  cm_duration_secs :: string

definition encode_chunk :: "rec_crypto \<Rightarrow> bytes \<Rightarrow> cast_writer \<Rightarrow> cast_writer \<times> bytes" where
  "encode_chunk rc plaintext w = (case cw_encryptor w of
     Some enc \<Rightarrow> (let (enc, out) = enc_write rc enc plaintext in (w\<lparr>cw_encryptor := Some enc\<rparr>, out))
   | None \<Rightarrow> (w, plaintext))"

text \<open>The flag says that the write succeeded.\<close>

definition write_and_track :: "disk \<Rightarrow> bytes \<Rightarrow> cast_writer \<Rightarrow> cast_writer \<times> bool" where
  "write_and_track disk data w = (case disk (cw_file w) data of
     Some n \<Rightarrow> (w\<lparr>cw_file := cw_file w @ take n data\<rparr>, False)
   | None \<Rightarrow> (w\<lparr>cw_file := cw_file w @ data, cw_hashed := cw_hashed w @ data,
                 cw_total_bytes := cw_total_bytes w + length data, cw_since_sync := cw_since_sync w + length data\<rparr>, True))"

fun write_event_lines :: "disk \<Rightarrow> rec_crypto \<Rightarrow> bytes list \<Rightarrow> cast_writer \<Rightarrow> cast_writer \<times> bool" where
  "write_event_lines disk rc [] w = (w, True)"
| "write_event_lines disk rc (line # lines) w =
     (let (w, data) = encode_chunk rc line w;
          (w, ok) = write_and_track disk data w
      in if ok then write_event_lines disk rc lines w else (w, False))"

definition sync_all :: "cast_writer \<Rightarrow> cast_writer" where
  "sync_all w = w\<lparr>cw_since_sync := 0, cw_syncs := cw_syncs w + 1\<rparr>"

definition write_header :: "disk \<Rightarrow> rec_crypto \<Rightarrow> bytes \<Rightarrow> cast_writer \<Rightarrow> cast_writer \<times> bool" where
  "write_header disk rc header w =
     (let (w', data) = encode_chunk rc (header @ [newline]) w
      in write_and_track disk ((case cw_encryptor w of Some enc \<Rightarrow> en_header_line enc @ [newline] | None \<Rightarrow> []) @ data) w')"

text \<open>The lines of one event and the pending bytes after it.\<close>

fun event_lines :: "cast_codec \<Rightarrow> string \<Rightarrow> cast_event \<Rightarrow> bytes \<Rightarrow> bytes \<Rightarrow> bytes list \<times> bytes \<times> bytes" where
  "event_lines cc elapsed (Output data) po pin =
     (let (ls, po) = reassemble_events po data EVENT_OUTPUT in (map (format_item cc elapsed) ls, po, pin))"
| "event_lines cc elapsed (Input data) po pin =
     (let (ls, pin) = reassemble_events pin data EVENT_INPUT in (map (format_item cc elapsed) ls, po, pin))"
| "event_lines cc elapsed (Resize cols rows) po pin = ([format_resize_line elapsed cols rows], po, pin)"
| "event_lines cc elapsed (Exit code) po pin =
     (map (format_item cc elapsed) (flush_pending_bytes po @ flush_pending_bytes pin) @ [format_exit_line elapsed code], [], [])"

definition handle_event ::
    "disk \<Rightarrow> rec_crypto \<Rightarrow> cast_codec \<Rightarrow> string \<Rightarrow> cast_event \<Rightarrow> cast_writer \<Rightarrow> cast_writer \<times> bool" where
  "handle_event disk rc cc elapsed ev w =
     (let (lines, po, pin) = event_lines cc elapsed ev (cw_pending_output w) (cw_pending_input w)
      in write_event_lines disk rc lines (w\<lparr>cw_pending_output := po, cw_pending_input := pin\<rparr>))"

text \<open>
  The event loop. Every event comes with the time and with whether the sync interval has passed;
  the end of the list is the closed channel. The result says whether the exit line was written.
\<close>

fun writer_loop ::
    "disk \<Rightarrow> rec_crypto \<Rightarrow> cast_codec \<Rightarrow> (bool \<times> string \<times> cast_event) list \<Rightarrow> bool \<times> string
     \<Rightarrow> cast_writer \<Rightarrow> cast_writer \<times> bool" where
  "writer_loop disk rc cc [] (due, elapsed) w =
     (let w = (if due \<and> 0 < cw_since_sync w then sync_all w else w);
          lines = map (format_item cc elapsed) (flush_pending_bytes (cw_pending_output w) @ flush_pending_bytes (cw_pending_input w))
      in (fst (write_event_lines disk rc lines (w\<lparr>cw_pending_output := [], cw_pending_input := []\<rparr>)), False))"
| "writer_loop disk rc cc ((due, elapsed, ev) # evs) fin w =
     (let w = (if due \<and> 0 < cw_since_sync w then sync_all w else w);
          (w, ok) = handle_event disk rc cc elapsed ev w
      in if \<not> ok then (w, False)
         else case ev of
           Exit code \<Rightarrow> (w, True)
         | _ \<Rightarrow> writer_loop disk rc cc evs fin (if FSYNC_BYTE_THRESHOLD \<le> cw_since_sync w then sync_all w else w))"

definition finish_encryptor :: "disk \<Rightarrow> rec_crypto \<Rightarrow> cast_writer \<Rightarrow> cast_writer" where
  "finish_encryptor disk rc w = (case cw_encryptor w of
     None \<Rightarrow> w
   | Some enc \<Rightarrow>
       (let (enc, tail) = enc_finish rc enc; w = w\<lparr>cw_encryptor := Some enc\<rparr>
        in if tail = [] then w else fst (write_and_track disk tail w)))"

definition cast_header :: "u16 \<Rightarrow> u16 \<Rightarrow> int \<Rightarrow> json" where
  "cast_header width height timestamp = JObj
     [(''env'', JObj [(''SHELL'', JStr ''/bin/bash''), (''TERM'', JStr ''xterm-256color'')]),
      (''height'', JInt (uint height)), (''timestamp'', JInt timestamp), (''version'', JInt 2), (''width'', JInt (uint width))]"

definition writer_task ::
    "disk \<Rightarrow> rec_crypto \<Rightarrow> cast_codec \<Rightarrow> u16 \<times> u16 \<times> int \<Rightarrow> encryptor option
     \<Rightarrow> (bool \<times> string \<times> cast_event) list \<Rightarrow> bool \<times> string \<Rightarrow> string \<Rightarrow> cast_writer \<times> cast_meta option" where
  "writer_task disk rc cc geometry enc evs fin duration =
     (let (width, height, timestamp) = geometry; header = cc_print cc (cast_header width height timestamp);
          w = \<lparr>cw_file = [], cw_hashed = [], cw_total_bytes = 0, cw_since_sync = 0, cw_syncs = 0, cw_encryptor = enc,
               cw_pending_output = [], cw_pending_input = []\<rparr>;
          (w, ok) = write_header disk rc header w
      in if \<not> ok then (w, None)
         else
           let (w, exit_seen) = writer_loop disk rc cc evs fin w;
               w = finish_encryptor disk rc w
           in (w, if exit_seen \<or> 0 < cw_total_bytes w
                  then Some \<lparr>cm_sha256 = hex_encode (rc_sha rc (cw_hashed w)), cm_size_bytes = cw_total_bytes w,
                             cm_duration_secs = duration\<rparr>
                  else None))"

section \<open>The channel\<close>

text \<open>
  The events waiting in the channel, whether the writer still receives, and the flag for a gap.
  \<open>try_send\<close> fails when the channel is full or closed.
\<close>

record cast_recorder =
  cr_queue :: "cast_event list"
  cr_open :: bool
  cr_gap_pending :: bool

definition recorder_start :: cast_recorder where
  "recorder_start = \<lparr>cr_queue = [], cr_open = True, cr_gap_pending = False\<rparr>"

definition try_send :: "cast_event \<Rightarrow> cast_recorder \<Rightarrow> cast_recorder \<times> bool" where
  "try_send ev r =
     (if cr_open r \<and> length (cr_queue r) < CHANNEL_CAPACITY then (r\<lparr>cr_queue := cr_queue r @ [ev]\<rparr>, True)
      else (r, False))"

definition emit_gap_marker_if_pending :: "cast_recorder \<Rightarrow> cast_recorder" where
  "emit_gap_marker_if_pending r =
     (if \<not> cr_gap_pending r then r
      else let (r, ok) = try_send (Output GAP_MARKER) (r\<lparr>cr_gap_pending := False\<rparr>)
           in if ok then r else r\<lparr>cr_gap_pending := True\<rparr>)"

definition record_event :: "cast_event \<Rightarrow> cast_recorder \<Rightarrow> cast_recorder" where
  "record_event ev r =
     (let (r, ok) = try_send ev (emit_gap_marker_if_pending r)
      in if ok then r else r\<lparr>cr_gap_pending := True\<rparr>)"

definition record_output :: "bytes \<Rightarrow> cast_recorder \<Rightarrow> cast_recorder" where
  "record_output data = record_event (Output data)"

definition record_input :: "bytes \<Rightarrow> cast_recorder \<Rightarrow> cast_recorder" where
  "record_input data = record_event (Input data)"

text \<open>A resize comes from the control task through a clone of the sender.\<close>

definition record_client_resize :: "u16 \<Rightarrow> u16 \<Rightarrow> cast_recorder \<Rightarrow> cast_recorder" where
  "record_client_resize cols rows r = fst (try_send (Resize cols rows) r)"

text \<open>The name of a recording file.\<close>

definition replace_chars :: "char list \<Rightarrow> string \<Rightarrow> string" where
  "replace_chars cs s = map (\<lambda>c. if c \<in> set cs then CHR ''_'' else c) s"

fun replace_dots :: "string \<Rightarrow> string" where
  "replace_dots (a # b # s) = (if a = CHR ''.'' \<and> b = CHR ''.'' then CHR ''_'' # replace_dots s else a # replace_dots (b # s))"
| "replace_dots s = s"

definition recording_filename :: "string \<Rightarrow> string \<Rightarrow> string \<Rightarrow> string \<Rightarrow> string" where
  "recording_filename session_name pane_id epoch client_id =
     (let safe_session = replace_dots (replace_chars [CHR ''/'', CHR 0x5C, CHR 0x00] session_name);
          safe_pane = replace_chars [CHR ''/'', CHR 0x5C, CHR 0x00, CHR ''%''] pane_id
      in safe_session @ ''_'' @ safe_pane @ ''_'' @ epoch @ ''_'' @ client_id @ ''.cast'')"

text \<open>The encryptor of a new recording; without a usable key the recording is stored in the clear.\<close>

definition make_encryptor :: "rec_crypto \<Rightarrow> enc_random \<Rightarrow> (string \<times> string) option \<Rightarrow> string \<Rightarrow> encryptor option" where
  "make_encryptor rc r recording_pubkey filename = (case recording_pubkey of
     None \<Rightarrow> None
   | Some (pk, kid) \<Rightarrow> (case encryptor_new rc r pk kid filename of Inl _ \<Rightarrow> None | Inr e \<Rightarrow> Some e))"

section \<open>The lines of a session\<close>

fun payload :: "item \<Rightarrow> bytes" where
  "payload (Text kind t) = t"
| "payload (Raw b) = b"

text \<open>No byte is lost: the payloads of the lines and the pending tail are the pending bytes and the chunk.\<close>

lemma reassemble_payload:
  "reassemble kind pending = (ls, rest) \<Longrightarrow> concat (map payload ls) @ rest = pending"
proof (induction kind pending arbitrary: ls rest rule: reassemble.induct)
  case (1 kind pending)
  show ?case
  proof (cases "from_utf8 pending")
    case None
    with "1.prems" show ?thesis by (auto simp: reassemble.simps [of kind pending])
  next
    case (Some ve)
    obtain v e where ve: "ve = (v, e)" by (cases ve)
    have pre: "concat (map payload (if 0 < v then [Text kind (take v pending)] else [])) = take v pending" by simp
    show ?thesis
    proof (cases e)
      case None
      with "1.prems" Some ve pre show ?thesis by (auto simp: reassemble.simps [of kind pending])
    next
      case bad: (Some bad)
      obtain ls' rest' where r: "reassemble kind (drop (v + bad) pending) = (ls', rest')"
        by (cases "reassemble kind (drop (v + bad) pending)")
      have "ls = (if 0 < v then [Text kind (take v pending)] else []) @ Raw (take bad (drop v pending)) # ls'" "rest = rest'"
        using "1.prems" Some ve bad r by (simp_all add: reassemble.simps [of kind pending])
      moreover have "concat (map payload ls') @ rest' = drop (v + bad) pending"
        by (rule "1.IH" [OF Some ve [symmetric] refl bad r])
      ultimately have "concat (map payload ls) @ rest = take v pending @ take bad (drop v pending) @ drop bad (drop v pending)"
        using pre by (simp add: add.commute)
      then show ?thesis by (simp only: append_take_drop_id)
    qed
  qed
qed

lemma from_utf8_take: "from_utf8 v = Some (k, e) \<Longrightarrow> k \<le> length v \<and> valid_utf8 (take k v)
    \<and> (e = None \<longrightarrow> drop k v \<noteq> [] \<and> utf8_head (drop k v) = Short)"
proof (induction v arbitrary: k rule: from_utf8.induct)
  case (1 v)
  then have ne: "v \<noteq> []" by auto
  show ?case
  proof (cases "utf8_head v")
    case (Char m)
    with "1.prems" ne obtain j where j: "from_utf8 (drop m v) = Some (j, e)" "k = m + j"
      by (subst (asm) from_utf8.simps) auto
    have "take k v = take m v @ take j (drop m v)" using j(2) by (simp add: take_add)
    with "1.IH" [OF ne Char j(1)] j(2) utf8_head_size(1) [OF Char] valid_utf8_Char [OF Char] show ?thesis
      by (auto simp: valid_utf8_append add.commute)
  next
    case (Bad m)
    with "1.prems" ne show ?thesis by (subst (asm) from_utf8.simps) (auto simp: valid_utf8_def)
  next
    case Short
    with "1.prems" ne show ?thesis by (subst (asm) from_utf8.simps) (auto simp: valid_utf8_def)
  qed
qed

text \<open>Text lines hold nonempty valid text of the kind of the stream; what stays pending is cut off by the chunk.\<close>

fun item_ok :: "string \<Rightarrow> item \<Rightarrow> bool" where
  "item_ok kind (Text k t) \<longleftrightarrow> k = kind \<and> valid_utf8 t \<and> t \<noteq> []"
| "item_ok kind (Raw b) \<longleftrightarrow> b \<noteq> []"

lemma reassemble_ok:
  "reassemble kind pending = (ls, rest) \<Longrightarrow> list_all (item_ok kind) ls \<and> utf8_head rest = Short"
proof (induction kind pending arbitrary: ls rest rule: reassemble.induct)
  case (1 kind pending)
  show ?case
  proof (cases "from_utf8 pending")
    case None
    with "1.prems" show ?thesis by (auto simp: reassemble.simps [of kind pending] valid_utf8_def utf8_head_def)
  next
    case (Some ve)
    obtain v e where ve: "ve = (v, e)" by (cases ve)
    note fu = from_utf8_take [OF Some [unfolded ve]]
    have pre: "list_all (item_ok kind) (if 0 < v then [Text kind (take v pending)] else [])" using fu by auto
    show ?thesis
    proof (cases e)
      case None
      with "1.prems" Some ve pre fu show ?thesis by (auto simp: reassemble.simps [of kind pending])
    next
      case bad: (Some bad)
      obtain ls' rest' where r: "reassemble kind (drop (v + bad) pending) = (ls', rest')"
        by (cases "reassemble kind (drop (v + bad) pending)")
      have eq: "ls = (if 0 < v then [Text kind (take v pending)] else []) @ Raw (take bad (drop v pending)) # ls'" "rest = rest'"
        using "1.prems" Some ve bad r by (simp_all add: reassemble.simps [of kind pending])
      have "take bad (drop v pending) \<noteq> []" using from_utf8_bad [of pending v bad] Some ve bad by auto
      with "1.IH" [OF Some ve [symmetric] refl bad r] pre eq show ?thesis by auto
    qed
  qed
qed

lemma reassemble_events_spec:
  assumes "reassemble_events pending chunk kind = (ls, rest)" and "utf8_head pending = Short"
  shows "concat (map payload ls) @ rest = pending @ chunk" and "list_all (item_ok kind) ls" and "utf8_head rest = Short"
  using assms reassemble_payload [of kind "pending @ chunk" ls rest] reassemble_ok [of kind "pending @ chunk" ls rest]
  by (auto simp: reassemble_events_def split: if_splits)

text \<open>The lines the writer writes for a sequence of events, as a function of the events alone.\<close>

fun session_lines ::
    "cast_codec \<Rightarrow> (bool \<times> string \<times> cast_event) list \<Rightarrow> string \<Rightarrow> bytes \<Rightarrow> bytes \<Rightarrow> bytes list" where
  "session_lines cc [] elapsed po pin = map (format_item cc elapsed) (flush_pending_bytes po @ flush_pending_bytes pin)"
| "session_lines cc ((due, el, ev) # evs) elapsed po pin =
     (let (lines, po, pin) = event_lines cc el ev po pin
      in lines @ (case ev of Exit code \<Rightarrow> [] | _ \<Rightarrow> session_lines cc evs elapsed po pin))"

text \<open>Encoding several pieces one after the other.\<close>

definition encode_all :: "rec_crypto \<Rightarrow> bytes list \<Rightarrow> encryptor option \<Rightarrow> encryptor option \<times> bytes" where
  "encode_all rc ds enc = (case enc of
     None \<Rightarrow> (None, concat ds)
   | Some e \<Rightarrow> (let (e, out) = enc_writes rc e ds in (Some e, out)))"

lemma enc_writes_append:
  "enc_writes rc e (ds @ ds') = (let (e, o1) = enc_writes rc e ds; (e, o2) = enc_writes rc e ds' in (e, o1 @ o2))"
  by (induction ds arbitrary: e) (simp_all add: Let_def split: prod.splits)

lemma encode_all_append:
  "encode_all rc (ds @ ds') enc = (let (enc, o1) = encode_all rc ds enc; (enc, o2) = encode_all rc ds' enc in (enc, o1 @ o2))"
  by (cases enc) (simp_all add: encode_all_def enc_writes_append Let_def split: prod.splits)

lemma encode_all_Nil [simp]: "encode_all rc [] enc = (enc, [])"
  by (cases enc) (simp_all add: encode_all_def)

lemma encode_chunk_all:
  "encode_chunk rc d w = (let (enc, out) = encode_all rc [d] (cw_encryptor w) in (w\<lparr>cw_encryptor := enc\<rparr>, out))"
  by (cases "cw_encryptor w") (simp_all add: encode_chunk_def encode_all_def Let_def split: prod.splits)

text \<open>
  A disk on which every write succeeds. What the writer has then done: it appended bytes to the
  file, and the hash and the size still describe the file.
\<close>

definition sound_disk :: disk where
  "sound_disk file data = None"

definition tracked :: "cast_writer \<Rightarrow> bool" where
  "tracked w \<longleftrightarrow> cw_hashed w = cw_file w \<and> cw_total_bytes w = length (cw_file w)"

definition wrote_all :: "rec_crypto \<Rightarrow> bytes list \<Rightarrow> cast_writer \<Rightarrow> cast_writer \<Rightarrow> bool" where
  "wrote_all rc ds w w' \<longleftrightarrow>
     cw_encryptor w' = fst (encode_all rc ds (cw_encryptor w))
     \<and> cw_file w' = cw_file w @ snd (encode_all rc ds (cw_encryptor w)) \<and> (tracked w \<longrightarrow> tracked w')"

lemma wrote_all_refl: "cw_encryptor w' = cw_encryptor w \<Longrightarrow> cw_file w' = cw_file w \<Longrightarrow> cw_hashed w' = cw_hashed w
    \<Longrightarrow> cw_total_bytes w' = cw_total_bytes w \<Longrightarrow> wrote_all rc [] w w'"
  by (simp add: wrote_all_def tracked_def)

lemma wrote_all_trans: "wrote_all rc ds w w' \<Longrightarrow> wrote_all rc ds' w' w'' \<Longrightarrow> wrote_all rc (ds @ ds') w w''"
  by (auto simp: wrote_all_def encode_all_append Let_def split: prod.splits)

lemma write_event_lines_sound:
  "snd (write_event_lines sound_disk rc ls w) \<and> wrote_all rc ls w (fst (write_event_lines sound_disk rc ls w))
   \<and> cw_pending_output (fst (write_event_lines sound_disk rc ls w)) = cw_pending_output w
   \<and> cw_pending_input (fst (write_event_lines sound_disk rc ls w)) = cw_pending_input w"
proof (induction ls arbitrary: w)
  case Nil
  show ?case by (simp add: wrote_all_refl)
next
  case (Cons l ls)
  obtain enc out where e: "encode_all rc [l] (cw_encryptor w) = (enc, out)" by (cases "encode_all rc [l] (cw_encryptor w)")
  define w1 where "w1 = fst (write_and_track sound_disk out (w\<lparr>cw_encryptor := enc\<rparr>))"
  have w1: "wrote_all rc [l] w w1" "cw_pending_output w1 = cw_pending_output w" "cw_pending_input w1 = cw_pending_input w"
    by (simp_all add: w1_def write_and_track_def sound_disk_def wrote_all_def tracked_def e)
  have "write_event_lines sound_disk rc (l # ls) w = write_event_lines sound_disk rc ls w1"
    by (simp add: encode_chunk_all e w1_def write_and_track_def sound_disk_def)
  with Cons.IH [of w1] w1 wrote_all_trans [OF w1(1), of ls] show ?case by simp
qed


lemma handle_event_sound:
  assumes "event_lines cc el ev (cw_pending_output w) (cw_pending_input w) = (ls, po, pin)"
    and "handle_event sound_disk rc cc el ev w = (w', ok)"
  shows "ok" and "wrote_all rc ls w w'" and "cw_pending_output w' = po" and "cw_pending_input w' = pin"
proof -
  let ?w = "w\<lparr>cw_pending_output := po, cw_pending_input := pin\<rparr>"
  have eq: "(w', ok) = write_event_lines sound_disk rc ls ?w" using assms by (simp add: handle_event_def)
  note s = write_event_lines_sound [of rc ls ?w, folded eq, simplified]
  show "ok" "cw_pending_output w' = po" "cw_pending_input w' = pin" using s by simp_all
  show "wrote_all rc ls w w'" using s by (auto simp: wrote_all_def tracked_def)
qed

lemma sync_neutral:
  "wrote_all rc [] w (if b then sync_all w else w)"
  "cw_pending_output (if b then sync_all w else w) = cw_pending_output w"
  "cw_pending_input (if b then sync_all w else w) = cw_pending_input w"
  "cw_encryptor (if b then sync_all w else w) = cw_encryptor w"
  by (simp_all add: sync_all_def wrote_all_def tracked_def)

lemma writer_loop_sound:
  "wrote_all rc (session_lines cc evs (snd fin) (cw_pending_output w) (cw_pending_input w)) w
     (fst (writer_loop sound_disk rc cc evs fin w))"
proof (induction evs arbitrary: w)
  case Nil
  define w1 where "w1 = (if fst fin \<and> 0 < cw_since_sync w then sync_all w else w)"
  define w2 where "w2 = w1\<lparr>cw_pending_output := [], cw_pending_input := []\<rparr>"
  define ls where "ls = session_lines cc [] (snd fin) (cw_pending_output w) (cw_pending_input w)"
  have w1: "wrote_all rc [] w w1" "cw_pending_output w1 = cw_pending_output w" "cw_pending_input w1 = cw_pending_input w"
    unfolding w1_def by (rule sync_neutral)+
  have "wrote_all rc [] w1 w2" unfolding w2_def by (rule wrote_all_refl) simp_all
  with w1(1) have "wrote_all rc [] w w2" using wrote_all_trans [of rc "[]" w w1 "[]" w2] by simp
  then have "wrote_all rc ls w (fst (write_event_lines sound_disk rc ls w2))"
    using wrote_all_trans [of rc "[]" w w2 ls] write_event_lines_sound [of rc ls w2] by simp
  moreover have "fst (writer_loop sound_disk rc cc [] fin w) = fst (write_event_lines sound_disk rc ls w2)"
    unfolding w2_def ls_def w1(2,3) [symmetric] unfolding w1_def by (cases fin) (simp add: Let_def)
  ultimately show ?case by (simp add: ls_def)
next
  case (Cons x evs)
  obtain due el ev where x: "x = (due, el, ev)" by (cases x)
  define w1 where "w1 = (if due \<and> 0 < cw_since_sync w then sync_all w else w)"
  have w1: "wrote_all rc [] w w1" "cw_pending_output w1 = cw_pending_output w" "cw_pending_input w1 = cw_pending_input w"
    unfolding w1_def by (rule sync_neutral)+
  obtain ls po pin where ls: "event_lines cc el ev (cw_pending_output w) (cw_pending_input w) = (ls, po, pin)"
    by (cases "event_lines cc el ev (cw_pending_output w) (cw_pending_input w)")
  obtain w2 ok where w2: "handle_event sound_disk rc cc el ev w1 = (w2, ok)" by (cases "handle_event sound_disk rc cc el ev w1")
  note h = handle_event_sound [OF ls [folded w1(2,3)] w2]
  have 12: "wrote_all rc ls w w2" using wrote_all_trans [OF w1(1) h(2)] by simp
  define w3 where "w3 = (if FSYNC_BYTE_THRESHOLD \<le> cw_since_sync w2 then sync_all w2 else w2)"
  have w3: "wrote_all rc [] w2 w3" "cw_pending_output w3 = po" "cw_pending_input w3 = pin"
    unfolding w3_def using sync_neutral h(3,4) by simp_all
  have 13: "wrote_all rc ls w w3" using wrote_all_trans [OF 12 w3(1)] by simp
  have "writer_loop sound_disk rc cc (x # evs) fin w =
      (case ev of Exit code \<Rightarrow> (w2, True) | _ \<Rightarrow> writer_loop sound_disk rc cc evs fin w3)"
    using h(1) w2 unfolding x w1_def w3_def by (simp add: Let_def split: cast_event.split)
  moreover have "wrote_all rc (ls @ session_lines cc evs (snd fin) po pin) w (fst (writer_loop sound_disk rc cc evs fin w3))"
    using wrote_all_trans [OF 13 Cons.IH [of w3]] w3 by simp
  ultimately show ?case using 12 ls by (cases ev) (simp_all add: x)
qed

text \<open>The plain bytes of a recording.\<close>

definition cast_plaintext ::
    "cast_codec \<Rightarrow> u16 \<times> u16 \<times> int \<Rightarrow> (bool \<times> string \<times> cast_event) list \<Rightarrow> string \<Rightarrow> bytes list" where
  "cast_plaintext cc geometry evs elapsed =
     (let (width, height, timestamp) = geometry
      in (cc_print cc (cast_header width height timestamp) @ [newline]) # session_lines cc evs elapsed [] [])"

definition describes :: "rec_crypto \<Rightarrow> cast_meta \<Rightarrow> bytes \<Rightarrow> bool" where
  "describes rc m file \<longleftrightarrow> cm_sha256 m = hex_encode (rc_sha rc file) \<and> cm_size_bytes m = length file"

lemma write_header_sound:
  assumes "tracked w" and "cw_file w = []"
  obtains w1 where "write_header sound_disk rc header w = (w1, True)" and "tracked w1"
    and "cw_encryptor w1 = fst (encode_all rc [header @ [newline]] (cw_encryptor w))"
    and "cw_file w1 = (case cw_encryptor w of Some e \<Rightarrow> en_header_line e @ [newline] | None \<Rightarrow> [])
           @ snd (encode_all rc [header @ [newline]] (cw_encryptor w))"
    and "cw_pending_output w1 = cw_pending_output w" and "cw_pending_input w1 = cw_pending_input w"
proof -
  obtain enc out where e: "encode_all rc [header @ [newline]] (cw_encryptor w) = (enc, out)"
    by (cases "encode_all rc [header @ [newline]] (cw_encryptor w)")
  show thesis
    by (rule that [of "fst (write_header sound_disk rc header w)"])
      (use assms in \<open>auto simp: write_header_def encode_chunk_all e write_and_track_def sound_disk_def tracked_def\<close>)
qed

lemma finish_encryptor_sound:
  assumes "tracked w" and "\<forall>e. cw_encryptor w = Some e \<longrightarrow> \<not> en_finished e"
  shows "tracked (finish_encryptor sound_disk rc w)
    \<and> cw_file (finish_encryptor sound_disk rc w) =
        cw_file w @ (case cw_encryptor w of None \<Rightarrow> [] | Some e \<Rightarrow> snd (enc_finish rc e))"
  using assms
  by (auto simp: finish_encryptor_def tracked_def write_and_track_def sound_disk_def Let_def split: option.splits prod.splits)

lemma encode_all_unfinished:
  assumes "\<forall>e. enc = Some e \<longrightarrow> \<not> en_finished e \<and> en_buf e = []" and "fst (encode_all rc ds enc) = Some e'"
  shows "\<not> en_finished e'"
proof -
  obtain e where e: "enc = Some e" "e' = fst (enc_writes rc e ds)"
    using assms(2) by (cases enc) (auto simp: encode_all_def split: prod.splits)
  then have "\<not> en_finished e" "length (en_buf e) < DEFAULT_CHUNK_SIZE" using assms(1) by (simp_all add: DEFAULT_CHUNK_SIZE_def)
  from enc_writes_wrote [OF this, of rc ds] e assms(1) show ?thesis by (cases "enc_writes rc e ds") (auto simp: wrote_def)
qed

text \<open>A recording on a sound disk: its file, and metadata that describe it.\<close>

lemma writer_task_sound:
  assumes "\<forall>e. enc = Some e \<longrightarrow> \<not> en_finished e \<and> en_buf e = []"
  obtains w m where "writer_task sound_disk rc cc g enc evs fin duration = (w, Some m)"
    and "cw_file w = (case enc of None \<Rightarrow> concat (cast_plaintext cc g evs (snd fin))
                       | Some e \<Rightarrow> recording_file rc e (cast_plaintext cc g evs (snd fin)))"
    and "describes rc m (cw_file w)"
proof -
  obtain width height ts where g: "g = (width, height, ts)" by (cases g)
  define hdr where "hdr = cc_print cc (cast_header width height ts)"
  define ls where "ls = session_lines cc evs (snd fin) [] []"
  define w0 :: cast_writer where "w0 = \<lparr>cw_file = [], cw_hashed = [], cw_total_bytes = 0, cw_since_sync = 0, cw_syncs = 0,
    cw_encryptor = enc, cw_pending_output = [], cw_pending_input = []\<rparr>"
  have w0: "tracked w0" "cw_file w0 = []" "cw_encryptor w0 = enc" by (simp_all add: w0_def tracked_def)
  obtain w1 where w1: "write_header sound_disk rc hdr w0 = (w1, True)" "tracked w1"
    "cw_encryptor w1 = fst (encode_all rc [hdr @ [newline]] enc)"
    "cw_file w1 = (case enc of Some e \<Rightarrow> en_header_line e @ [newline] | None \<Rightarrow> []) @ snd (encode_all rc [hdr @ [newline]] enc)"
    "cw_pending_output w1 = []" "cw_pending_input w1 = []"
    using write_header_sound [OF w0(1,2), of rc hdr] unfolding w0(3) by (metis (no_types, lifting) cast_writer.select_convs(7,8) w0_def)
  obtain w2 ex where w2: "writer_loop sound_disk rc cc evs fin w1 = (w2, ex)" by (cases "writer_loop sound_disk rc cc evs fin w1")
  have "wrote_all rc ls w1 w2" using writer_loop_sound [of rc cc evs fin w1] w2 w1(5,6) by (simp add: ls_def)
  then have t2: "tracked w2" "cw_encryptor w2 = fst (encode_all rc ((hdr @ [newline]) # ls) enc)"
    "cw_file w2 = (case enc of Some e \<Rightarrow> en_header_line e @ [newline] | None \<Rightarrow> []) @ snd (encode_all rc ((hdr @ [newline]) # ls) enc)"
    using w1(2-4) encode_all_append [of rc "[hdr @ [newline]]" ls enc]
    by (auto simp: wrote_all_def Let_def split: prod.splits)
  have unf: "\<forall>e. cw_encryptor w2 = Some e \<longrightarrow> \<not> en_finished e" using encode_all_unfinished [OF assms] t2(2) by metis
  define w3 where "w3 = finish_encryptor sound_disk rc w2"
  note t3 = finish_encryptor_sound [OF t2(1) unf, of rc, folded w3_def]
  have pl: "cast_plaintext cc g evs (snd fin) = (hdr @ [newline]) # ls" by (simp add: cast_plaintext_def g hdr_def ls_def)
  have content: "cw_file w3 = (case enc of None \<Rightarrow> concat (cast_plaintext cc g evs (snd fin))
      | Some e \<Rightarrow> recording_file rc e (cast_plaintext cc g evs (snd fin)))"
    using t3 t2(2,3) unfolding pl
    by (cases enc) (auto simp: encode_all_def recording_file_def Let_def split: prod.splits)
  then have pos: "0 < cw_total_bytes w3" using t3 unfolding pl
    by (cases enc) (auto simp: tracked_def recording_file_def Let_def split: prod.splits)
  have "writer_task sound_disk rc cc g enc evs fin duration =
      (w3, Some \<lparr>cm_sha256 = hex_encode (rc_sha rc (cw_hashed w3)), cm_size_bytes = cw_total_bytes w3, cm_duration_secs = duration\<rparr>)"
    unfolding writer_task_def g prod.case Let_def hdr_def [symmetric] w0_def [symmetric] w1(1) w2 w3_def [symmetric]
    using pos by simp
  from that [OF this content] t3 show thesis by (simp add: describes_def tracked_def)
qed

text \<open>
  Encryption is transparent: on a disk where writes succeed, the recording of a session
  written in the clear and the one written for a server key both come with metadata that describe
  the file, its digest and its size, and decrypting the second with the server's key gives the
  bytes of the first.
\<close>

theorem encrypted_recording_transparent:
  assumes "rec_crypto_ok rc" and "random_ok r" and "lookup key_id = Some secret"
    and "make_encryptor rc r (Some (rc_b64 rc (rc_pub rc secret), key_id)) filename = Some e"
  shows "\<exists>w m w' m'. writer_task sound_disk rc cc g None evs fin duration = (w, Some m) \<and> describes rc m (cw_file w)
    \<and> writer_task sound_disk rc cc g (Some e) evs fin duration = (w', Some m') \<and> describes rc m' (cw_file w')
    \<and> decrypt_recording rc lookup (cw_file w') = Inr (cw_file w)"
proof -
  have e: "encryptor_new rc r (rc_b64 rc (rc_pub rc secret)) key_id filename = Inr e"
    using assms(4) by (auto simp: make_encryptor_def split: sum.splits)
  have ok: "\<forall>f. Some e = Some f \<longrightarrow> \<not> en_finished f \<and> en_buf f = []"
    using encryptor_new_ok [OF assms(1), of r secret key_id filename] e by auto
  let ?pl = "cast_plaintext cc g evs (snd fin)"
  obtain w m where w: "writer_task sound_disk rc cc g None evs fin duration = (w, Some m)"
    "cw_file w = concat ?pl" "describes rc m (cw_file w)"
    using writer_task_sound [of None rc cc g evs fin duration] by auto
  obtain w' m' where w': "writer_task sound_disk rc cc g (Some e) evs fin duration = (w', Some m')"
    "cw_file w' = recording_file rc e ?pl" "describes rc m' (cw_file w')"
    using writer_task_sound [OF ok, of rc cc g evs fin duration] by auto
  have "decrypt_recording rc lookup (cw_file w') = Inr (cw_file w)"
    unfolding w(2) w'(2)
    by (rule decrypt_recording_file [where lookup = lookup and key_id = key_id and secret = secret, OF assms(1-3) e])
  with w w' show ?thesis by blast
qed


section \<open>Syncing\<close>

text \<open>After every event that the loop goes on from, less than the threshold is not yet on the disk.\<close>

lemma unsynced_bound:
  "cw_since_sync (if FSYNC_BYTE_THRESHOLD \<le> cw_since_sync w then sync_all w else w) < FSYNC_BYTE_THRESHOLD"
  by (auto simp: sync_all_def FSYNC_BYTE_THRESHOLD_def)

section \<open>Gaps\<close>

text \<open>
  The recorder at work: events recorded, resizes, the writer taking the oldest event or going
  away. The log says what became of every event.
\<close>

datatype rec_op = Record cast_event | ClientResize u16 u16 | Take | Close

datatype logged = Sent cast_event | Marker | Dropped | DroppedResize

fun rec_step :: "rec_op \<Rightarrow> cast_recorder \<Rightarrow> cast_recorder \<times> logged list \<times> cast_event list" where
  "rec_step (Record ev) r =
     (let r1 = emit_gap_marker_if_pending r
      in (record_event ev r, (if cr_gap_pending r \<and> \<not> cr_gap_pending r1 then [Marker] else [])
            @ [if snd (try_send ev r1) then Sent ev else Dropped], []))"
| "rec_step (ClientResize c n) r =
     (record_client_resize c n r, [if snd (try_send (Resize c n) r) then Sent (Resize c n) else DroppedResize], [])"
| "rec_step Take r = (case cr_queue r of [] \<Rightarrow> (r, [], []) | ev # q \<Rightarrow> (r\<lparr>cr_queue := q\<rparr>, [], [ev]))"
| "rec_step Close r = (r\<lparr>cr_open := False\<rparr>, [], [])"

fun rec_run :: "rec_op list \<Rightarrow> cast_recorder \<Rightarrow> cast_recorder \<times> logged list \<times> cast_event list" where
  "rec_run [] r = (r, [], [])"
| "rec_run (x # ops) r =
     (let (r, hist1, took1) = rec_step x r; (r, hist2, took2) = rec_run ops r in (r, hist1 @ hist2, took1 @ took2))"

fun enqueued :: "logged \<Rightarrow> cast_event list" where
  "enqueued (Sent ev) = [ev]"
| "enqueued Marker = [Output GAP_MARKER]"
| "enqueued _ = []"

fun stream_entry :: "logged \<Rightarrow> bool" where
  "stream_entry (Sent (Resize c n)) \<longleftrightarrow> False"
| "stream_entry DroppedResize \<longleftrightarrow> False"
| "stream_entry _ \<longleftrightarrow> True"

text \<open>A drop is never directly followed by an event that made it into the channel.\<close>

fun gaps_marked :: "bool \<Rightarrow> logged list \<Rightarrow> bool" where
  "gaps_marked gap [] \<longleftrightarrow> True"
| "gaps_marked gap (Sent ev # hist) \<longleftrightarrow> \<not> gap \<and> gaps_marked False hist"
| "gaps_marked gap (Marker # hist) \<longleftrightarrow> gap \<and> gaps_marked False hist"
| "gaps_marked gap (Dropped # hist) \<longleftrightarrow> gaps_marked True hist"
| "gaps_marked gap (DroppedResize # hist) \<longleftrightarrow> gaps_marked gap hist"

fun data_op :: "rec_op \<Rightarrow> bool" where
  "data_op (Record (Output d)) \<longleftrightarrow> True"
| "data_op (Record (Input d)) \<longleftrightarrow> True"
| "data_op (Record _) \<longleftrightarrow> False"
| "data_op _ \<longleftrightarrow> True"

lemma record_event_cases:
  assumes "data_op (Record ev)"
  shows "rec_step (Record ev) r =
     (if \<not> cr_open r \<or> CHANNEL_CAPACITY \<le> length (cr_queue r) then (r\<lparr>cr_gap_pending := True\<rparr>, [Dropped], [])
      else if \<not> cr_gap_pending r then (r\<lparr>cr_queue := cr_queue r @ [ev]\<rparr>, [Sent ev], [])
      else if Suc (length (cr_queue r)) < CHANNEL_CAPACITY
        then (r\<lparr>cr_queue := cr_queue r @ [Output GAP_MARKER, ev], cr_gap_pending := False\<rparr>, [Marker, Sent ev], [])
      else (r\<lparr>cr_queue := cr_queue r @ [Output GAP_MARKER], cr_gap_pending := True\<rparr>, [Marker, Dropped], []))"
  by (simp add: record_event_def emit_gap_marker_if_pending_def try_send_def Let_def)

lemma gaps_marked_append:
  "DroppedResize \<notin> set xs \<Longrightarrow> gaps_marked gap xs \<Longrightarrow> gaps_marked (if xs = [] then gap else last xs = Dropped) ys
   \<Longrightarrow> gaps_marked gap (xs @ ys)"
  by (induction gap xs rule: gaps_marked.induct) (auto split: if_splits)

lemma rec_run_capacity:
  "rec_run ops r = (r', hist, took) \<Longrightarrow> length (cr_queue r) \<le> CHANNEL_CAPACITY \<Longrightarrow> length (cr_queue r') \<le> CHANNEL_CAPACITY"
proof (induction ops arbitrary: r hist took)
  case (Cons x ops)
  obtain r1 hist1 took1 where s: "rec_step x r = (r1, hist1, took1)" by (cases "rec_step x r")
  obtain hist2 took2 where t: "rec_run ops r1 = (r', hist2, took2)"
    using Cons.prems(1) s by (auto simp: Let_def split: prod.splits)
  have send: "length (cr_queue q) \<le> CHANNEL_CAPACITY \<Longrightarrow> length (cr_queue (fst (try_send ev q))) \<le> CHANNEL_CAPACITY" for ev q
    by (simp add: try_send_def)
  have "length (cr_queue (emit_gap_marker_if_pending r)) \<le> CHANNEL_CAPACITY"
    using send [of "r\<lparr>cr_gap_pending := False\<rparr>" "Output GAP_MARKER"] Cons.prems(2)
    by (auto simp: emit_gap_marker_if_pending_def Let_def split: prod.splits)
  from send [OF this] have "length (cr_queue (record_event ev r)) \<le> CHANNEL_CAPACITY" for ev
    by (auto simp: record_event_def Let_def split: prod.splits) (metis fst_conv)+
  then have "length (cr_queue r1) \<le> CHANNEL_CAPACITY"
    using s Cons.prems(2) send [OF Cons.prems(2)] by (cases x) (auto simp: record_client_resize_def Let_def split: list.splits)
  from Cons.IH [OF t this] show ?case .
qed simp

lemma rec_run_marked:
  assumes "list_all data_op ops" and "rec_run ops r = (r', hist, took)"
  shows "cr_queue r @ concat (map enqueued hist) = took @ cr_queue r'
    \<and> gaps_marked (cr_gap_pending r) (filter stream_entry hist)
    \<and> cr_gap_pending r' = (if filter stream_entry hist = [] then cr_gap_pending r else last (filter stream_entry hist) = Dropped)"
  using assms
proof (induction ops arbitrary: r r' hist took)
  case (Cons x ops)
  obtain r1 hist1 took1 where s: "rec_step x r = (r1, hist1, took1)" by (cases "rec_step x r")
  obtain hist2 took2 where t: "rec_run ops r1 = (r', hist2, took2)" and eq: "hist = hist1 @ hist2" "took = took1 @ took2"
    using Cons.prems(2) s by (auto simp: Let_def split: prod.splits)
  have step: "cr_queue r @ concat (map enqueued hist1) = took1 @ cr_queue r1
      \<and> gaps_marked (cr_gap_pending r) (filter stream_entry hist1)
      \<and> cr_gap_pending r1 = (if filter stream_entry hist1 = [] then cr_gap_pending r else last (filter stream_entry hist1) = Dropped)"
  proof (cases x)
    case (Record ev)
    then have d: "data_op (Record ev)" using Cons.prems(1) by simp
    then have "stream_entry (Sent ev)" by (cases ev) auto
    with s show ?thesis
      unfolding Record record_event_cases [OF d] by (auto split: if_splits)
  next
    case (ClientResize c n)
    with s show ?thesis by (auto simp: record_client_resize_def try_send_def split: if_splits)
  next
    case Take
    with s show ?thesis by (auto split: list.splits)
  next
    case Close
    with s show ?thesis by auto
  qed
  have ih: "cr_queue r1 @ concat (map enqueued hist2) = took2 @ cr_queue r'
      \<and> gaps_marked (cr_gap_pending r1) (filter stream_entry hist2)
      \<and> cr_gap_pending r' = (if filter stream_entry hist2 = [] then cr_gap_pending r1 else last (filter stream_entry hist2) = Dropped)"
    by (rule Cons.IH [OF _ t]) (use Cons.prems(1) in simp)
  have "cr_queue r @ concat (map enqueued hist) = took @ cr_queue r'"
    using step ih unfolding eq by (metis append.assoc concat_append map_append)
  moreover have "gaps_marked (cr_gap_pending r) (filter stream_entry hist)"
    using gaps_marked_append [of "filter stream_entry hist1"] step ih eq by auto
  moreover have "cr_gap_pending r' = (if filter stream_entry hist = [] then cr_gap_pending r else last (filter stream_entry hist) = Dropped)"
    using step ih eq by (auto split: if_splits)
  ultimately show ?case by blast
qed simp

text \<open>
  No loss goes unmarked: for any interleaving of recorded data, resizes, and the writer
  taking events or going away, the events taken and still queued are exactly those sent in order,
  the queue stays within its capacity, and in the stream of data a gap marker stands between
  any dropped event and the next one that was sent; a gap that is not marked yet is pending.
\<close>

theorem gaps_are_marked:
  assumes "list_all data_op ops" and "rec_run ops recorder_start = (r, hist, took)"
  shows "took @ cr_queue r = concat (map enqueued hist) \<and> gaps_marked False (filter stream_entry hist)
    \<and> (cr_gap_pending r \<longleftrightarrow> filter stream_entry hist \<noteq> [] \<and> last (filter stream_entry hist) = Dropped)
    \<and> length (cr_queue r) \<le> CHANNEL_CAPACITY"
  using rec_run_marked [OF assms] rec_run_capacity [OF assms(2)] by (auto simp: recorder_start_def split: if_splits)

section \<open>Names\<close>

lemma replace_dots_set: "set (replace_dots s) \<subseteq> insert (CHR ''_'') (set s)"
  by (induction s rule: replace_dots.induct) auto

lemma replace_dots_hd: "replace_dots s \<noteq> [] \<Longrightarrow> hd (replace_dots s) = CHR ''.'' \<Longrightarrow> hd s = CHR ''.''"
  by (cases s rule: replace_dots.cases) (auto split: if_splits)

lemma replace_dots_no_dotdot: "\<not> sublist ''..'' (replace_dots s)"
proof (induction s rule: replace_dots.induct)
  case (1 a b s)
  show ?case
  proof (cases "a = CHR ''.'' \<and> b = CHR ''.''")
    case True
    with 1 show ?thesis by (auto simp: sublist_Cons_right)
  next
    case False
    have "\<not> prefix ''..'' (a # replace_dots (b # s))"
      using False replace_dots_hd [of "b # s"] by (cases "replace_dots (b # s)") auto
    with 1 False show ?thesis by (auto simp: sublist_Cons_right)
  qed
qed (auto simp: sublist_Cons_right)

text \<open>The name of a recording stays in its directory, whatever the session and the pane are called.\<close>

lemma recording_filename_safe:
  assumes "set epoch \<inter> {CHR ''/'', CHR 0x5C, CHR 0x00} = {}" and "set client_id \<inter> {CHR ''/'', CHR 0x5C, CHR 0x00} = {}"
  shows "set (recording_filename session_name pane_id epoch client_id) \<inter> {CHR ''/'', CHR 0x5C, CHR 0x00} = {}"
proof -
  have "set (replace_dots (replace_chars [CHR ''/'', CHR 0x5C, CHR 0x00] s)) \<inter> {CHR ''/'', CHR 0x5C, CHR 0x00} = {}" for s
    using replace_dots_set [of "replace_chars [CHR ''/'', CHR 0x5C, CHR 0x00] s"] by (auto simp: replace_chars_def)
  moreover have "set (replace_chars [CHR ''/'', CHR 0x5C, CHR 0x00, CHR ''%''] s) \<inter> {CHR ''/'', CHR 0x5C, CHR 0x00} = {}" for s
    by (auto simp: replace_chars_def)
  ultimately show ?thesis using assms by (simp add: recording_filename_def Let_def Int_Un_distrib2)
qed

end
