(* ===== verification/Replay.thy ===== *)
theory Replay
  imports Utf8 Json
begin

text \<open>
  Replaying a recording in the client (\<open>clum-cli/src/replay.rs\<close>): decoding of base64 payloads,
  loading a file, the decoder that feeds the virtual terminal, and the player with its keys.

  The virtual terminal (\<open>avt\<close>) is a parameter: a fresh screen of a size, feeding text, resizing. Times
  in a recording are finite floating-point values, modelled by the real numbers they stand for;
  \<open>rnd\<close> rounds the result of an operation, \<open>None\<close> when it overflows. Durations and the clock are in
  nanoseconds. A panic on an index out of range is \<open>None\<close>.
\<close>

unbundle bit_operations_syntax

section \<open>Base64\<close>

definition sextet :: "char \<Rightarrow> u32 option" where
  "sextet c = (let b = (of_char c :: nat) in
     if 65 \<le> b \<and> b \<le> 90 then Some (of_nat (b - 65))
     else if 97 \<le> b \<and> b \<le> 122 then Some (of_nat (b - 97) + 26)
     else if 48 \<le> b \<and> b \<le> 57 then Some (of_nat (b - 48) + 52)
     else if b = 43 then Some 62
     else if b = 47 then Some 63
     else None)"

text \<open>\<open>is_ascii_whitespace\<close>: space, tab, line feed, form feed, carriage return.\<close>

definition ascii_whitespace :: "char \<Rightarrow> bool" where
  "ascii_whitespace c \<longleftrightarrow> (of_char c :: nat) \<in> {32, 9, 10, 12, 13}"

fun b64_loop :: "string \<Rightarrow> u32 \<Rightarrow> nat \<Rightarrow> bool \<Rightarrow> bytes option" where
  "b64_loop [] accumulator bits padded = (if 6 \<le> bits then None else Some [])"
| "b64_loop (c # cs) accumulator bits padded =
     (if ascii_whitespace c then b64_loop cs accumulator bits padded
      else if c = CHR ''='' then b64_loop cs accumulator bits True
      else if padded then None
      else case sextet c of
        None \<Rightarrow> None
      | Some value \<Rightarrow>
          (let accumulator = push_bit 6 accumulator OR value; bits = bits + 6
           in if 8 \<le> bits
              then map_option ((#) (ucast (drop_bit (bits - 8) accumulator AND 0xff))) (b64_loop cs accumulator (bits - 8) padded)
              else b64_loop cs accumulator bits padded))"

definition decode_base64 :: "string \<Rightarrow> bytes option" where
  "decode_base64 input = b64_loop input 0 0 False"

section \<open>Events\<close>

datatype play_event = Output_at real bytes | OutputBytes_at real bytes | Resize_at real nat nat

fun ev_time :: "play_event \<Rightarrow> real" where
  "ev_time (Output_at t d) = t"
| "ev_time (OutputBytes_at t d) = t"
| "ev_time (Resize_at t c r) = t"

definition MAX_CAST_DIM :: nat where "MAX_CAST_DIM = 1000"

text \<open>\<open>split_once\<close> and \<open>parse::<usize>()\<close>.\<close>

definition split_once :: "char \<Rightarrow> string \<Rightarrow> (string \<times> string) option" where
  "split_once x s = (if x \<in> set s then Some (takeWhile (\<lambda>c. c \<noteq> x) s, tl (dropWhile (\<lambda>c. c \<noteq> x) s)) else None)"

definition digit_of :: "char \<Rightarrow> nat option" where
  "digit_of c = (let n = of_char c in if 48 \<le> n \<and> n \<le> 57 then Some (n - 48) else None)"

fun parse_digits :: "string \<Rightarrow> nat \<Rightarrow> nat option" where
  "parse_digits [] acc = Some acc"
| "parse_digits (c # cs) acc = (case digit_of c of
     None \<Rightarrow> None
   | Some d \<Rightarrow> if acc * 10 + d < 2 ^ 64 then parse_digits cs (acc * 10 + d) else None)"

definition parse_usize :: "string \<Rightarrow> nat option" where
  "parse_usize s = (case s of
     [] \<Rightarrow> None
   | c # cs \<Rightarrow> if c = CHR ''+'' then (if cs = [] then None else parse_digits cs 0) else parse_digits s 0)"

definition parse_resize :: "json \<Rightarrow> (nat \<times> nat) option" where
  "parse_resize payload =
     (let dims = (case jas_str payload of
        Some t \<Rightarrow>
          (let t = trim t
           in case (case split_once (CHR ''x'') t of Some p \<Rightarrow> Some p | None \<Rightarrow> split_once (CHR ''X'') t) of
                None \<Rightarrow> None
              | Some (cols, rows) \<Rightarrow>
                  (case (parse_usize (trim cols), parse_usize (trim rows)) of
                     (Some c, Some r) \<Rightarrow> Some (c, r)
                   | _ \<Rightarrow> None))
      | None \<Rightarrow>
          (case jas_array payload of
             None \<Rightarrow> None
           | Some arr \<Rightarrow>
               if length arr < 2 then None
               else case (jas_u64 (arr ! 0), jas_u64 (arr ! 1)) of (Some c, Some r) \<Rightarrow> Some (c, r) | _ \<Rightarrow> None))
      in case dims of
           None \<Rightarrow> None
         | Some (cols, rows) \<Rightarrow>
             if cols = 0 \<or> rows = 0 \<or> MAX_CAST_DIM < cols \<or> MAX_CAST_DIM < rows then None else Some (cols, rows))"

section \<open>Loading\<close>

text \<open>
  \<open>BufRead::lines\<close>: every line without its line feed and a carriage return before it; the last
  one may lack the line feed.
\<close>

definition strip_cr :: "bytes \<Rightarrow> bytes" where
  "strip_cr l = (if l \<noteq> [] \<and> last l = 0x0D then butlast l else l)"

function lines_of :: "bytes \<Rightarrow> bytes list" where
  "lines_of v = (if v = [] then []
     else if (0x0A :: byte) \<in> set v
       then strip_cr (takeWhile (\<lambda>b. b \<noteq> 0x0A) v) # lines_of (tl (dropWhile (\<lambda>b. b \<noteq> 0x0A) v))
     else [v])"
  by pat_completeness auto
termination
proof (relation "measure length")
  fix v :: bytes
  assume "v \<noteq> []"
  have "length (dropWhile (\<lambda>b. b \<noteq> 0x0A) v) \<le> length v" by (rule length_dropWhile_le)
  moreover have "0 < length v" using \<open>v \<noteq> []\<close> by simp
  ultimately show "(tl (dropWhile (\<lambda>b. b \<noteq> 0x0A) v), v) \<in> measure length" by (simp, linarith)
qed auto

declare lines_of.simps [simp del]

text \<open>One event line: skip it, stop, or an event.\<close>

datatype line_action = Skip | Stop | Event play_event

definition load_line :: "(real \<Rightarrow> real) \<Rightarrow> (bytes \<Rightarrow> json option) \<Rightarrow> bytes \<Rightarrow> line_action" where
  "load_line rnd parse line = (case parse line of
     None \<Rightarrow> Skip
   | Some event \<Rightarrow>
       (case jas_array event of
          None \<Rightarrow> Skip
        | Some arr \<Rightarrow>
            if length arr < 3 then Skip
            else
              let time = (case jas_f64 rnd (arr ! 0) of Some t \<Rightarrow> t | None \<Rightarrow> 0);
                  kind = (case jas_str (arr ! 1) of Some k \<Rightarrow> k | None \<Rightarrow> []);
                  data = (case jas_str (arr ! 2) of Some d \<Rightarrow> d | None \<Rightarrow> [])
              in if kind = ''exit'' then Stop
                 else if kind = ''o'' then Event (Output_at time (str_bytes data))
                 else if kind = ''ob'' then
                   (case decode_base64 data of Some b \<Rightarrow> Event (OutputBytes_at time b) | None \<Rightarrow> Skip)
                 else if kind = ''r'' then
                   (case parse_resize (arr ! 2) of Some (cols, rows) \<Rightarrow> Event (Resize_at time cols rows) | None \<Rightarrow> Skip)
                 else Skip))"

fun load_events :: "(real \<Rightarrow> real) \<Rightarrow> (bytes \<Rightarrow> json option) \<Rightarrow> bytes list \<Rightarrow> string + play_event list" where
  "load_events rnd parse [] = Inr []"
| "load_events rnd parse (line # lines) =
     (if \<not> valid_utf8 line then Inl ''stream did not contain valid UTF-8''
      else case load_line rnd parse line of
        Skip \<Rightarrow> load_events rnd parse lines
      | Stop \<Rightarrow> Inr []
      | Event ev \<Rightarrow> map_sum id ((#) ev) (load_events rnd parse lines))"

text \<open>The events, the size of the fresh terminal and the time the recording started.\<close>

definition load_and_prepare ::
    "(real \<Rightarrow> real) \<Rightarrow> (bytes \<Rightarrow> json option) \<Rightarrow> bytes \<Rightarrow> string + play_event list \<times> nat \<times> nat \<times> int" where
  "load_and_prepare rnd parse data = (case lines_of data of
     [] \<Rightarrow> Inl ''empty cast file''
   | header_line # lines \<Rightarrow>
       if \<not> valid_utf8 header_line then Inl ''stream did not contain valid UTF-8''
       else case parse header_line of
         None \<Rightarrow> Inl ''invalid header''
       | Some header \<Rightarrow>
           (let width = (case Option.bind (jget header ''width'') jas_u64 of Some n \<Rightarrow> n | None \<Rightarrow> 80);
                height = (case Option.bind (jget header ''height'') jas_u64 of Some n \<Rightarrow> n | None \<Rightarrow> 24);
                timestamp = (case Option.bind (jget header ''timestamp'') jas_i64 of Some n \<Rightarrow> n | None \<Rightarrow> 0)
            in if \<not> (1 \<le> width \<and> width \<le> MAX_CAST_DIM \<and> 1 \<le> height \<and> height \<le> MAX_CAST_DIM)
               then Inl ''invalid cast geometry''
               else map_sum id (\<lambda>evs. (evs, width, height, timestamp)) (load_events rnd parse lines)))"

section \<open>The player\<close>

record 'v vt_ops =
  vt_make :: "nat \<Rightarrow> nat \<Rightarrow> 'v"
  vt_feed :: "bytes \<Rightarrow> 'v \<Rightarrow> 'v"
  vt_resize :: "nat \<Rightarrow> nat \<Rightarrow> 'v \<Rightarrow> 'v"

text \<open>The decoder: every complete character is fed, what can never be one is dropped, a cut-off tail is kept.\<close>

function decoder_feed :: "'v vt_ops \<Rightarrow> bytes \<Rightarrow> 'v \<Rightarrow> 'v \<times> bytes" where
  "decoder_feed ops pending vt = (case from_utf8 pending of
     None \<Rightarrow> (if pending = [] then vt else vt_feed ops pending vt, [])
   | Some (valid, error_len) \<Rightarrow>
       (let vt = (if 0 < valid then vt_feed ops (take valid pending) vt else vt)
        in case error_len of
             Some len \<Rightarrow> decoder_feed ops (drop (valid + len) pending) vt
           | None \<Rightarrow> (vt, drop valid pending)))"
  by pat_completeness auto
termination
  by (relation "measure (\<lambda>(ops, pending, vt). length pending)") (auto dest: from_utf8_bad)

declare decoder_feed.simps [simp del]

fun apply_event :: "'v vt_ops \<Rightarrow> play_event \<Rightarrow> 'v \<times> bytes \<Rightarrow> 'v \<times> bytes" where
  "apply_event ops (Output_at t data) (vt, pending) = decoder_feed ops (pending @ data) vt"
| "apply_event ops (OutputBytes_at t data) (vt, pending) = decoder_feed ops (pending @ data) vt"
| "apply_event ops (Resize_at t cols rows) (vt, pending) = (vt_resize ops cols rows vt, pending)"

text \<open>\<open>replay_into\<close> applies the events up to and including \<open>target_idx\<close>.\<close>

definition replay_into :: "'v vt_ops \<Rightarrow> play_event list \<Rightarrow> nat \<Rightarrow> 'v \<times> bytes \<Rightarrow> 'v \<times> bytes" where
  "replay_into ops events target_idx vd = fold (apply_event ops) (take (Suc target_idx) events) vd"

definition rebuild_vt :: "'v vt_ops \<Rightarrow> play_event list \<Rightarrow> nat \<Rightarrow> nat \<Rightarrow> nat \<Rightarrow> 'v \<times> bytes" where
  "rebuild_vt ops events target_idx cols rows = replay_into ops events target_idx (vt_make ops cols rows, [])"

text \<open>
  \<open>Duration::try_from_secs_f64\<close> rounds to the nearest nanosecond, ties to even, and fails from
  \<open>2 ^ 64\<close> seconds on.
\<close>

definition round_even :: "real \<Rightarrow> int" where
  "round_even x = (let n = \<lfloor>x\<rfloor>; f = x - of_int n
     in if f < 1 / 2 \<or> (f = 1 / 2 \<and> even n) then n else n + 1)"

definition duration_ns :: "real \<Rightarrow> nat" where
  "duration_ns secs = (if secs < 2 ^ 64 then nat (round_even (secs * 10 ^ 9)) else 0)"

text \<open>
  A difference or quotient that overflows is an infinity of the sign of the difference: the
  idle limit cuts a positive one off, anything else that is not finite or negative is no delay.
\<close>

definition calc_delay :: "(real \<Rightarrow> real option) \<Rightarrow> real \<Rightarrow> real \<Rightarrow> real \<Rightarrow> real option \<Rightarrow> nat" where
  "calc_delay rnd current previous speed idle_limit =
     (let raw = Option.bind (rnd (current - previous)) (\<lambda>d. rnd (d / speed));
          secs = (case raw of
             Some r \<Rightarrow> Some (case idle_limit of Some limit \<Rightarrow> min r limit | None \<Rightarrow> r)
           | None \<Rightarrow> if previous < current then idle_limit else None)
      in case secs of None \<Rightarrow> 0 | Some s \<Rightarrow> if s < 0 then 0 else duration_ns s)"

record 'v player =
  pl_events :: "play_event list"
  pl_header_cols :: nat
  pl_header_rows :: nat
  pl_current_idx :: nat
  pl_speed :: real
  pl_idle_limit :: "real option"
  pl_paused :: bool
  pl_quit :: bool
  pl_start :: nat
  pl_last_event_time :: real
  pl_next_event_at :: nat
  pl_decoder :: bytes
  pl_vt :: 'v

definition next_delay_at :: "(real \<Rightarrow> real option) \<Rightarrow> 'v player \<Rightarrow> nat" where
  "next_delay_at rnd p =
     calc_delay rnd (ev_time (pl_events p ! pl_current_idx p)) (pl_last_event_time p) (pl_speed p) (pl_idle_limit p)"

definition player_new ::
    "(real \<Rightarrow> real option) \<Rightarrow> 'v vt_ops \<Rightarrow> nat \<Rightarrow> play_event list \<Rightarrow> nat \<Rightarrow> nat \<Rightarrow> real \<Rightarrow> real option \<Rightarrow> 'v player" where
  "player_new rnd ops now events cols rows speed idle_limit =
     (let p = \<lparr>pl_events = events, pl_header_cols = cols, pl_header_rows = rows, pl_current_idx = 0, pl_speed = speed,
               pl_idle_limit = idle_limit, pl_paused = False, pl_quit = False, pl_start = now, pl_last_event_time = 0,
               pl_next_event_at = 0, pl_decoder = [], pl_vt = vt_make ops cols rows\<rparr>
      in if events = [] then p else p\<lparr>pl_next_event_at := next_delay_at rnd p\<rparr>)"

definition reset_timing :: "(real \<Rightarrow> real option) \<Rightarrow> nat \<Rightarrow> 'v player \<Rightarrow> 'v player" where
  "reset_timing rnd now p =
     (let p = p\<lparr>pl_start := now\<rparr>
      in if pl_current_idx p < length (pl_events p) then p\<lparr>pl_next_event_at := next_delay_at rnd p\<rparr>
         else p\<lparr>pl_next_event_at := 0\<rparr>)"

text \<open>The player positioned behind the event \<open>idx\<close>, or at the start.\<close>

definition position :: "'v vt_ops \<Rightarrow> nat option \<Rightarrow> 'v player \<Rightarrow> 'v player" where
  "position ops target_idx p = (case target_idx of
     Some idx \<Rightarrow>
       (let (vt, decoder) = rebuild_vt ops (pl_events p) idx (pl_header_cols p) (pl_header_rows p)
        in p\<lparr>pl_vt := vt, pl_decoder := decoder, pl_current_idx := idx + 1, pl_last_event_time := ev_time (pl_events p ! idx)\<rparr>)
   | None \<Rightarrow>
       p\<lparr>pl_vt := vt_make ops (pl_header_cols p) (pl_header_rows p), pl_decoder := [], pl_current_idx := 0, pl_last_event_time := 0\<rparr>)"

definition seek_abs :: "(real \<Rightarrow> real option) \<Rightarrow> 'v vt_ops \<Rightarrow> nat \<Rightarrow> real \<Rightarrow> 'v player \<Rightarrow> 'v player" where
  "seek_abs rnd ops now target_time p =
     (let n = length (takeWhile (\<lambda>ev. \<not> target_time < ev_time ev) (pl_events p))
      in reset_timing rnd now (position ops (if n = 0 then None else Some (n - 1)) p))"

definition add_rnd :: "(real \<Rightarrow> real option) \<Rightarrow> real \<Rightarrow> real \<Rightarrow> real" where
  "add_rnd rnd x y = (case rnd (x + y) of Some z \<Rightarrow> z | None \<Rightarrow> x)"

definition seek :: "(real \<Rightarrow> real option) \<Rightarrow> 'v vt_ops \<Rightarrow> nat \<Rightarrow> real \<Rightarrow> 'v player \<Rightarrow> 'v player" where
  "seek rnd ops now delta p =
     (let current = (if pl_current_idx p < length (pl_events p) then ev_time (pl_events p ! pl_current_idx p)
                     else if pl_events p = [] then 0 else ev_time (last (pl_events p)))
      in seek_abs rnd ops now (max (add_rnd rnd current delta) 0) p)"

datatype key = KChar char bool | KEsc | KRight | KLeft | KUp | KDown | KOther

text \<open>The second component of a character key is the control modifier. \<open>None\<close> is an index panic.\<close>

definition toggle_pause :: "(real \<Rightarrow> real option) \<Rightarrow> nat \<Rightarrow> 'v player \<Rightarrow> 'v player option" where
  "toggle_pause rnd now p =
     (let p = p\<lparr>pl_paused := \<not> pl_paused p\<rparr>
      in if pl_paused p then Some p
         else
           let idx = min (pl_current_idx p) (length (pl_events p) - 1)
           in if length (pl_events p) \<le> idx then None
              else
                let p = p\<lparr>pl_start := now, pl_last_event_time := ev_time (pl_events p ! idx)\<rparr>
                in Some (if pl_current_idx p < length (pl_events p) then p\<lparr>pl_next_event_at := next_delay_at rnd p\<rparr> else p))"

definition handle_key ::
    "(real \<Rightarrow> real option) \<Rightarrow> 'v vt_ops \<Rightarrow> nat \<Rightarrow> key \<Rightarrow> 'v player \<Rightarrow> 'v player option" where
  "handle_key rnd ops now k p = (case k of
     KChar c ctrl \<Rightarrow>
       if c = CHR ''q'' then Some (p\<lparr>pl_quit := True\<rparr>)
       else if c = CHR ''c'' \<and> ctrl then Some (p\<lparr>pl_quit := True\<rparr>)
       else if c = CHR '' '' then toggle_pause rnd now p
       else if c = CHR ''l'' then Some (seek rnd ops now 30 p)
       else if c = CHR ''h'' then Some (seek rnd ops now (- 30) p)
       else if c = CHR ''0'' then Some (seek_abs rnd ops now 0 p)
       else if c = CHR ''$'' \<or> c = CHR ''G'' then
         (if pl_events p = [] then Some p
          else Some (reset_timing rnd now (position ops (Some (length (pl_events p) - 1)) p)))
       else Some p
   | KEsc \<Rightarrow> Some (p\<lparr>pl_quit := True\<rparr>)
   | KRight \<Rightarrow> Some (seek rnd ops now 30 p)
   | KLeft \<Rightarrow> Some (seek rnd ops now (- 30) p)
   | KUp \<Rightarrow> Some (reset_timing rnd now (p\<lparr>pl_speed := min (add_rnd rnd (pl_speed p) (1 / 2)) 10\<rparr>))
   | KDown \<Rightarrow> Some (reset_timing rnd now (p\<lparr>pl_speed := max (add_rnd rnd (pl_speed p) (- 1 / 2)) (1 / 4)\<rparr>))
   | KOther \<Rightarrow> Some p)"

text \<open>The events that are due at a time: the inner loop of \<open>run_player\<close>. Durations saturate.\<close>

definition DURATION_MAX :: nat where "DURATION_MAX = 2 ^ 64 * 10 ^ 9 - 1"

function play_due :: "(real \<Rightarrow> real option) \<Rightarrow> 'v vt_ops \<Rightarrow> nat \<Rightarrow> 'v player \<Rightarrow> 'v player" where
  "play_due rnd ops elapsed p =
     (if pl_current_idx p < length (pl_events p) \<and> pl_next_event_at p \<le> elapsed then
        let idx = pl_current_idx p;
            (vt, decoder) = apply_event ops (pl_events p ! idx) (pl_vt p, pl_decoder p);
            p = p\<lparr>pl_vt := vt, pl_decoder := decoder, pl_last_event_time := ev_time (pl_events p ! idx), pl_current_idx := idx + 1\<rparr>
        in play_due rnd ops elapsed
             (if pl_current_idx p < length (pl_events p)
              then p\<lparr>pl_next_event_at := min (elapsed + next_delay_at rnd p) DURATION_MAX\<rparr> else p)
      else p)"
  by pat_completeness auto
termination
  by (relation "measure (\<lambda>(rnd, ops, elapsed, p). length (pl_events p) - pl_current_idx p)") (auto split: if_splits)

declare play_due.simps [simp del]

text \<open>One round of \<open>run_player\<close>: the keys that wait, the due events, and dropping the tail at the end.\<close>

fun handle_keys :: "(real \<Rightarrow> real option) \<Rightarrow> 'v vt_ops \<Rightarrow> (nat \<times> key) list \<Rightarrow> 'v player \<Rightarrow> 'v player option" where
  "handle_keys rnd ops [] p = Some p"
| "handle_keys rnd ops ((now, k) # ks) p = Option.bind (handle_key rnd ops now k p) (handle_keys rnd ops ks)"

definition player_round ::
    "(real \<Rightarrow> real option) \<Rightarrow> 'v vt_ops \<Rightarrow> (nat \<times> key) list \<Rightarrow> nat \<Rightarrow> 'v player \<Rightarrow> 'v player option" where
  "player_round rnd ops ks now p =
     map_option
       (\<lambda>p. let p = (if \<not> pl_paused p \<and> pl_current_idx p < length (pl_events p) then play_due rnd ops (now - pl_start p) p else p)
            in if length (pl_events p) \<le> pl_current_idx p \<and> \<not> pl_paused p then p\<lparr>pl_decoder := []\<rparr> else p)
       (handle_keys rnd ops ks p)"

section \<open>The screen\<close>

text \<open>The terminal and the pending bytes after the first \<open>n\<close> events on a fresh terminal.\<close>

definition screen_after :: "'v vt_ops \<Rightarrow> play_event list \<Rightarrow> nat \<Rightarrow> nat \<Rightarrow> nat \<Rightarrow> 'v \<times> bytes" where
  "screen_after ops events cols rows n = fold (apply_event ops) (take n events) (vt_make ops cols rows, [])"

definition in_sync :: "'v vt_ops \<Rightarrow> 'v player \<Rightarrow> bool" where
  "in_sync ops p \<longleftrightarrow> pl_current_idx p \<le> length (pl_events p) \<and>
     (let (vt, pending) = screen_after ops (pl_events p) (pl_header_cols p) (pl_header_rows p) (pl_current_idx p)
      in pl_vt p = vt \<and> (pl_decoder p = pending \<or> (pl_decoder p = [] \<and> pl_current_idx p = length (pl_events p))))"

definition same_recording_as :: "'v player \<Rightarrow> 'v player \<Rightarrow> bool" where
  "same_recording_as p q \<longleftrightarrow> pl_events q = pl_events p \<and> pl_header_cols q = pl_header_cols p \<and> pl_header_rows q = pl_header_rows p"

lemma screen_after_Suc:
  "n < length events \<Longrightarrow> screen_after ops events cols rows (Suc n) = apply_event ops (events ! n) (screen_after ops events cols rows n)"
  by (simp add: screen_after_def take_Suc_conv_app_nth)

lemma rebuild_vt_screen: "rebuild_vt ops events idx cols rows = screen_after ops events cols rows (Suc idx)"
  by (simp add: rebuild_vt_def replay_into_def screen_after_def)

lemma reset_timing_frame [simp]:
  "pl_events (reset_timing rnd now p) = pl_events p" "pl_header_cols (reset_timing rnd now p) = pl_header_cols p"
  "pl_header_rows (reset_timing rnd now p) = pl_header_rows p" "pl_current_idx (reset_timing rnd now p) = pl_current_idx p"
  "pl_vt (reset_timing rnd now p) = pl_vt p" "pl_decoder (reset_timing rnd now p) = pl_decoder p"
  "pl_paused (reset_timing rnd now p) = pl_paused p" "pl_speed (reset_timing rnd now p) = pl_speed p"
  by (simp_all add: reset_timing_def Let_def)

lemma in_sync_update [simp]:
  "in_sync ops (p\<lparr>pl_quit := b\<rparr>) = in_sync ops p" "in_sync ops (p\<lparr>pl_paused := b\<rparr>) = in_sync ops p"
  "in_sync ops (p\<lparr>pl_start := n\<rparr>) = in_sync ops p" "in_sync ops (p\<lparr>pl_last_event_time := t\<rparr>) = in_sync ops p"
  "in_sync ops (p\<lparr>pl_next_event_at := n\<rparr>) = in_sync ops p" "in_sync ops (p\<lparr>pl_speed := t\<rparr>) = in_sync ops p"
  by (simp_all add: in_sync_def)

lemma in_sync_reset [simp]: "in_sync ops (reset_timing rnd now p) = in_sync ops p"
  by (simp add: reset_timing_def Let_def)

lemma position_sync:
  assumes "\<forall>idx. target = Some idx \<longrightarrow> idx < length (pl_events p)"
  shows "in_sync ops (position ops target p) \<and> same_recording_as p (position ops target p)
    \<and> pl_current_idx (position ops target p) = (case target of None \<Rightarrow> 0 | Some idx \<Rightarrow> Suc idx)"
proof (cases target)
  case None
  then show ?thesis by (simp add: position_def in_sync_def screen_after_def same_recording_as_def)
next
  case (Some idx)
  obtain vt pending where s: "rebuild_vt ops (pl_events p) idx (pl_header_cols p) (pl_header_rows p) = (vt, pending)"
    by (cases "rebuild_vt ops (pl_events p) idx (pl_header_cols p) (pl_header_rows p)")
  with Some assms show ?thesis
    by (simp add: position_def in_sync_def rebuild_vt_screen same_recording_as_def)
qed

lemma seek_abs_spec:
  "in_sync ops (seek_abs rnd ops now t p) \<and> same_recording_as p (seek_abs rnd ops now t p)
   \<and> pl_current_idx (seek_abs rnd ops now t p) = length (takeWhile (\<lambda>ev. ev_time ev \<le> t) (pl_events p))"
proof -
  let ?n = "length (takeWhile (\<lambda>ev. \<not> t < ev_time ev) (pl_events p))"
  let ?q = "position ops (if ?n = 0 then None else Some (?n - 1)) p"
  have le: "?n \<le> length (pl_events p)" by (rule length_takeWhile_le)
  have lt: "?n - 1 < length (pl_events p)" if "?n \<noteq> 0" using le that by linarith
  have "in_sync ops ?q \<and> same_recording_as p ?q
      \<and> pl_current_idx ?q = (case if ?n = 0 then None else Some (?n - 1) of None \<Rightarrow> 0 | Some idx \<Rightarrow> Suc idx)"
    by (rule position_sync) (use lt in simp)
  then show ?thesis
    by (auto simp: seek_abs_def Let_def same_recording_as_def not_less split: if_splits)
qed

lemma seek_spec: "in_sync ops (seek rnd ops now d p) \<and> same_recording_as p (seek rnd ops now d p)"
  unfolding seek_def Let_def using seek_abs_spec by blast

lemma handle_key_sync:
  assumes "in_sync ops p" and "pl_events p \<noteq> []"
  shows "\<exists>q. handle_key rnd ops now k p = Some q \<and> in_sync ops q \<and> same_recording_as p q"
proof -
  have "min (pl_current_idx p) (length (pl_events p) - 1) < length (pl_events p)" using assms(2) by (cases "pl_events p") auto
  moreover have "\<not> length (pl_events p) \<le> length (pl_events p) - Suc 0" using assms(2) by (cases "pl_events p") auto
  ultimately have pause: "\<exists>q. toggle_pause rnd now p = Some q \<and> in_sync ops q \<and> same_recording_as p q"
    using assms(1) by (auto simp: toggle_pause_def Let_def same_recording_as_def)
  let ?q = "position ops (Some (length (pl_events p) - Suc 0)) p"
  have "in_sync ops ?q \<and> same_recording_as p ?q"
    using position_sync [of "Some (length (pl_events p) - Suc 0)" p ops] assms(2) by auto
  then have end_pos: "in_sync ops ?q" "same_recording_as p (reset_timing rnd now ?q)" by (simp_all add: same_recording_as_def)
  have keep: "same_recording_as p (p\<lparr>pl_quit := b\<rparr>)" "same_recording_as p p"
    "same_recording_as p (reset_timing rnd now (p\<lparr>pl_speed := t\<rparr>))" for b t
    by (simp_all add: same_recording_as_def)
  show ?thesis
    by (cases k) (auto simp: handle_key_def pause end_pos seek_spec seek_abs_spec keep assms(1))
qed

lemma play_due_sync:
  "in_sync ops p \<Longrightarrow> in_sync ops (play_due rnd ops elapsed p) \<and> same_recording_as p (play_due rnd ops elapsed p)"
proof (induction rnd ops elapsed p rule: play_due.induct)
  case (1 rnd ops elapsed p)
  show ?case
  proof (cases "pl_current_idx p < length (pl_events p) \<and> pl_next_event_at p \<le> elapsed")
    case False
    with "1.prems" show ?thesis by (subst (1 2) play_due.simps) (auto simp: same_recording_as_def)
  next
    case True
    obtain vt d where vd: "apply_event ops (pl_events p ! pl_current_idx p) (pl_vt p, pl_decoder p) = (vt, d)"
      by (cases "apply_event ops (pl_events p ! pl_current_idx p) (pl_vt p, pl_decoder p)")
    define q where "q = p\<lparr>pl_vt := vt, pl_decoder := d, pl_last_event_time := ev_time (pl_events p ! pl_current_idx p), pl_current_idx := pl_current_idx p + 1\<rparr>"
    define q' where "q' = (if pl_current_idx q < length (pl_events q) then q\<lparr>pl_next_event_at := min (elapsed + next_delay_at rnd q) DURATION_MAX\<rparr> else q)"
    have step: "play_due rnd ops elapsed p = play_due rnd ops elapsed q'"
      using True vd by (subst play_due.simps) (simp add: q_def q'_def Let_def)
    have "screen_after ops (pl_events p) (pl_header_cols p) (pl_header_rows p) (pl_current_idx p) = (pl_vt p, pl_decoder p)"
      using "1.prems" True by (auto simp: in_sync_def Let_def split: prod.splits)
    then have "in_sync ops q" using True vd by (simp add: in_sync_def q_def screen_after_Suc)
    moreover have "in_sync ops q' = in_sync ops q" by (simp add: q'_def)
    moreover have "same_recording_as p q'" by (simp add: same_recording_as_def q'_def q_def)
    ultimately show ?thesis
      using "1.IH" [OF True refl vd [symmetric] refl q_def] unfolding step q'_def
      by (simp add: same_recording_as_def)
  qed
qed

lemma handle_keys_sync:
  "in_sync ops p \<Longrightarrow> pl_events p \<noteq> [] \<Longrightarrow> \<exists>q. handle_keys rnd ops ks p = Some q \<and> in_sync ops q \<and> same_recording_as p q"
proof (induction rnd ops ks p rule: handle_keys.induct)
  case (2 rnd ops now k ks p)
  obtain q where q: "handle_key rnd ops now k p = Some q" "in_sync ops q" "same_recording_as p q"
    using handle_key_sync [OF "2.prems"] by blast
  with "2.prems"(2) have "pl_events q \<noteq> []" by (simp add: same_recording_as_def)
  from "2.IH" [OF q(1,2) this] q show ?case by (auto simp: same_recording_as_def)
qed (simp add: same_recording_as_def)

lemma player_round_sync:
  assumes "in_sync ops p" and "pl_events p \<noteq> []"
  shows "\<exists>q. player_round rnd ops ks now p = Some q \<and> in_sync ops q \<and> same_recording_as p q"
proof -
  obtain q where q: "handle_keys rnd ops ks p = Some q" "in_sync ops q" "same_recording_as p q"
    using handle_keys_sync [OF assms] by blast
  define r where "r = (if \<not> pl_paused q \<and> pl_current_idx q < length (pl_events q) then play_due rnd ops (now - pl_start q) q else q)"
  have r: "in_sync ops r" "same_recording_as p r"
    using play_due_sync [OF q(2), of rnd "now - pl_start q"] q(2,3) by (auto simp: r_def same_recording_as_def)
  define s where "s = (if length (pl_events r) \<le> pl_current_idx r \<and> \<not> pl_paused r then r\<lparr>pl_decoder := []\<rparr> else r)"
  have "in_sync ops s" "same_recording_as p s"
    using r by (auto simp: s_def in_sync_def same_recording_as_def split: prod.splits)
  moreover have "player_round rnd ops ks now p = Some s" by (simp add: player_round_def q(1) Let_def s_def r_def)
  ultimately show ?thesis by blast
qed

fun player_rounds ::
    "(real \<Rightarrow> real option) \<Rightarrow> 'v vt_ops \<Rightarrow> ((nat \<times> key) list \<times> nat) list \<Rightarrow> 'v player \<Rightarrow> 'v player option" where
  "player_rounds rnd ops [] p = Some p"
| "player_rounds rnd ops ((ks, now) # rs) p = Option.bind (player_round rnd ops ks now p) (player_rounds rnd ops rs)"

lemma player_rounds_sync:
  "in_sync ops p \<Longrightarrow> pl_events p \<noteq> [] \<Longrightarrow> \<exists>q. player_rounds rnd ops rs p = Some q \<and> in_sync ops q \<and> same_recording_as p q"
proof (induction rnd ops rs p rule: player_rounds.induct)
  case (2 rnd ops ks now rs p)
  obtain q where q: "player_round rnd ops ks now p = Some q" "in_sync ops q" "same_recording_as p q"
    using player_round_sync [OF "2.prems"] by blast
  with "2.prems"(2) have "pl_events q \<noteq> []" by (simp add: same_recording_as_def)
  from "2.IH" [OF q(1,2) this] q show ?case by (auto simp: same_recording_as_def)
qed (simp add: same_recording_as_def)

text \<open>
  C30. The screen is always that of a position in the recording: whatever keys are pressed at
  whatever times, a player of a recording with events never panics, its terminal is what the first
  events, as many as its position says, draw on a fresh terminal, and the bytes its decoder holds
  back are those these events leave incomplete (at the end of the recording they may have been
  given up). Seeking to a time shows the events before the first later one; when the times of the
  recording are in order, these are exactly the events up to that time.
\<close>

theorem player_shows_position:
  assumes "events \<noteq> []"
  shows "\<exists>p. player_rounds rnd ops rs (player_new rnd ops now events cols rows speed idle_limit) = Some p
    \<and> pl_current_idx p \<le> length events
    \<and> pl_vt p = fst (screen_after ops events cols rows (pl_current_idx p))
    \<and> (pl_decoder p = snd (screen_after ops events cols rows (pl_current_idx p))
        \<or> pl_decoder p = [] \<and> pl_current_idx p = length events)
    \<and> (\<forall>now t. pl_vt (seek_abs rnd ops now t p) =
         fst (screen_after ops events cols rows (length (takeWhile (\<lambda>ev. ev_time ev \<le> t) events))))
    \<and> (sorted (map ev_time events) \<longrightarrow> (\<forall>now t. pl_vt (seek_abs rnd ops now t p) =
         fst (screen_after ops events cols rows (length (filter (\<lambda>ev. ev_time ev \<le> t) events)))))"
proof -
  let ?p = "player_new rnd ops now events cols rows speed idle_limit"
  have new: "in_sync ops ?p" "pl_events ?p = events" "pl_header_cols ?p = cols" "pl_header_rows ?p = rows"
    by (simp_all add: player_new_def in_sync_def screen_after_def Let_def)
  obtain p where p: "player_rounds rnd ops rs ?p = Some p" "in_sync ops p" "same_recording_as ?p p"
    using player_rounds_sync [OF new(1), of rnd rs] assms unfolding new(2) by blast
  have rec: "pl_events p = events" "pl_header_cols p = cols" "pl_header_rows p = rows"
    using p(3) new by (simp_all add: same_recording_as_def)
  have seek: "pl_vt (seek_abs rnd ops now t p) =
      fst (screen_after ops events cols rows (length (takeWhile (\<lambda>ev. ev_time ev \<le> t) events)))" for now t
    using seek_abs_spec [of ops rnd now t p] rec by (auto simp: in_sync_def same_recording_as_def split: prod.splits)
  moreover have "takeWhile (\<lambda>ev. ev_time ev \<le> t) events = filter (\<lambda>ev. ev_time ev \<le> t) events"
    if "sorted (map ev_time events)" for t
    using that by (induction events) (force simp: filter_empty_conv intro: sym [OF filter_False])+
  moreover have "pl_current_idx p \<le> length events" "pl_vt p = fst (screen_after ops events cols rows (pl_current_idx p))"
    "pl_decoder p = snd (screen_after ops events cols rows (pl_current_idx p)) \<or> pl_decoder p = [] \<and> pl_current_idx p = length events"
    using p(2) rec by (auto simp: in_sync_def split: prod.splits)
  ultimately show ?thesis using p(1) by (intro exI [of _ p]) simp
qed

theorem player_shows_position_witness:
  "\<exists>p. player_rounds Some \<lparr>vt_make = \<lambda>c r. [], vt_feed = \<lambda>t v. v @ t, vt_resize = \<lambda>c r v. v\<rparr> [([(5, KRight)], 7)]
     (player_new Some \<lparr>vt_make = \<lambda>c r. [], vt_feed = \<lambda>t v. v @ t, vt_resize = \<lambda>c r v. v\<rparr> 0 [Output_at 1 [0x61], Output_at 2 [0x62]] 80 24 1 None) = Some p
     \<and> pl_current_idx p \<le> 2"
  using player_shows_position [of "[Output_at 1 [0x61], Output_at 2 [0x62]]" Some
      "\<lparr>vt_make = \<lambda>c r. [], vt_feed = \<lambda>t v. v @ t, vt_resize = \<lambda>c r v. v\<rparr>" "[([(5, KRight)], 7)]" 0 80 24 1 None] by auto

text \<open>
  Resuming a paused player takes the next event for the last one played, so the event follows at
  once and the rest of the wait is skipped.
\<close>

lemma resume_skips_wait:
  assumes "rnd 0 = Some 0" and "pl_paused p" and "pl_current_idx p < length (pl_events p)"
    and "\<forall>limit. pl_idle_limit p = Some limit \<longrightarrow> 0 \<le> limit"
  shows "\<exists>q. toggle_pause rnd now p = Some q \<and> \<not> pl_paused q \<and> pl_next_event_at q = 0"
proof -
  have "duration_ns 0 = 0" by (simp add: duration_ns_def round_even_def)
  with assms show ?thesis
    by (auto simp: toggle_pause_def next_delay_at_def calc_delay_def Let_def min_def split: option.splits)
qed

section \<open>What the terminal is fed\<close>

text \<open>\<open>feed_str\<close> takes the characters of a text one after the other.\<close>

definition feeds_in_order :: "'v vt_ops \<Rightarrow> bool" where
  "feeds_in_order ops \<longleftrightarrow> (\<forall>vt. vt_feed ops [] vt = vt) \<and> (\<forall>a b vt. vt_feed ops (a @ b) vt = vt_feed ops b (vt_feed ops a vt))"

lemma decoder_feed_Char:
  assumes "feeds_in_order ops" and "utf8_head v = Char n"
  shows "decoder_feed ops v vt = decoder_feed ops (drop n v) (vt_feed ops (take n v) vt)"
proof (cases "from_utf8 (drop n v)")
  case None
  have "v \<noteq> []" using utf8_head_size(1) [OF assms(2)] by auto
  then have "decoder_feed ops v vt = (vt_feed ops (take n v @ drop n v) vt, [])"
    using None by (subst decoder_feed.simps) (simp add: from_utf8_head(1) [OF assms(2)])
  also have "\<dots> = (vt_feed ops (drop n v) (vt_feed ops (take n v) vt), [])"
    using assms(1) unfolding feeds_in_order_def by metis
  also have "\<dots> = decoder_feed ops (drop n v) (vt_feed ops (take n v) vt)"
    using assms(1) None by (subst decoder_feed.simps) (auto simp: feeds_in_order_def)
  finally show ?thesis .
next
  case (Some ke)
  obtain k e where ke: "ke = (k, e)" by (cases ke)
  define after where "after = (\<lambda>w. case e of Some len \<Rightarrow> decoder_feed ops (drop (n + (k + len)) v) w | None \<Rightarrow> (w, drop (n + k) v))"
  have n: "0 < n" using utf8_head_size(1) [OF assms(2)] by simp
  have "decoder_feed ops v vt = after (vt_feed ops (take (n + k) v) vt)"
    using n by (subst decoder_feed.simps) (simp add: from_utf8_head(1) [OF assms(2)] Some ke after_def Let_def add.assoc split: option.split)
  also have "vt_feed ops (take (n + k) v) vt = vt_feed ops (take k (drop n v)) (vt_feed ops (take n v) vt)"
    using assms(1) by (simp add: feeds_in_order_def take_add)
  also have "after \<dots> = decoder_feed ops (drop n v) (vt_feed ops (take n v) vt)"
    using assms(1) by (subst decoder_feed.simps) (simp add: Some ke after_def feeds_in_order_def Let_def add_ac split: option.split)
  finally show ?thesis .
qed

lemma decoder_feed_decode:
  assumes "feeds_in_order ops"
  shows "decoder_feed ops v vt = (let (t, d, r) = decode_lossy v in (vt_feed ops t vt, r))"
proof (induction v arbitrary: vt rule: decode_lossy.induct)
  case (1 v)
  have nil: "vt_feed ops [] vt = vt" for vt using assms by (simp add: feeds_in_order_def)
  show ?case
  proof (cases "v = []")
    case True
    then show ?thesis by (simp add: decoder_feed.simps [of ops "[]"] decode_lossy_simps(1) nil)
  next
    case False
    show ?thesis
    proof (cases "utf8_head v")
      case (Char n)
      with "1.IH"(1) [OF False Char] assms show ?thesis
        by (auto simp: decoder_feed_Char [OF assms Char] decode_lossy_simps(2) feeds_in_order_def Let_def split: prod.splits)
    next
      case (Bad n)
      with "1.IH"(2) [OF False Bad] show ?thesis
        by (simp add: decoder_feed.simps [of ops v] from_utf8_head(2) decode_lossy_simps(3) Let_def split: prod.splits)
    next
      case Short
      with False show ?thesis
        by (simp add: decoder_feed.simps [of ops v] from_utf8_head(3) decode_lossy_simps(4) nil)
    qed
  qed
qed

fun output_data :: "play_event \<Rightarrow> bytes" where
  "output_data (Output_at t d) = d"
| "output_data (OutputBytes_at t d) = d"
| "output_data (Resize_at t c r) = []"

fun is_resize :: "play_event \<Rightarrow> bool" where
  "is_resize (Resize_at t c r) \<longleftrightarrow> True"
| "is_resize _ \<longleftrightarrow> False"

text \<open>Without resizes the terminal is fed the decoding of all output, however it is cut into events.\<close>

lemma screen_is_decoding:
  assumes "feeds_in_order ops" and "\<forall>ev \<in> set evs. \<not> is_resize ev" and "decode_lossy pending = ([], 0, pending)"
  shows "fold (apply_event ops) evs (vt, pending) =
    (let (t, d, r) = decode_lossy (pending @ concat (map output_data evs)) in (vt_feed ops t vt, r))"
  using assms(2,3)
proof (induction evs arbitrary: vt pending)
  case Nil
  then show ?case using assms(1) by (simp add: feeds_in_order_def)
next
  case (Cons ev evs)
  obtain t d r where dl: "decode_lossy (pending @ output_data ev) = (t, d, r)" by (cases "decode_lossy (pending @ output_data ev)")
  have "apply_event ops ev (vt, pending) = (vt_feed ops t vt, r)"
    using Cons.prems(1) dl by (cases ev) (simp_all add: decoder_feed_decode [OF assms(1)])
  moreover have "decode_lossy r = ([], 0, r)" using decode_lossy_rest [OF dl] by simp
  ultimately show ?case
    using Cons.IH [of r "vt_feed ops t vt"] Cons.prems(1) dl decode_lossy_append [of "pending @ output_data ev" "concat (map output_data evs)"] assms(1)
    by (auto simp: feeds_in_order_def Let_def split: prod.splits)
qed

section \<open>Base64 round trip\<close>

text \<open>The standard encoding with padding of RFC 4648, which the recorder's encoder documents.\<close>

definition b64_char :: "nat \<Rightarrow> char" where
  "b64_char v = char_of (if v < 26 then v + 65 else if v < 52 then v + 71 else if v < 62 then v - 4 else if v = 62 then 43 else 47)"

fun b64_standard :: "bytes \<Rightarrow> string" where
  "b64_standard [] = []"
| "b64_standard [a] = [b64_char (unat a div 4), b64_char (unat a mod 4 * 16), CHR ''='', CHR ''='']"
| "b64_standard [a, b] =
     [b64_char (unat a div 4), b64_char (unat a mod 4 * 16 + unat b div 16), b64_char (unat b mod 16 * 4), CHR ''='']"
| "b64_standard (a # b # c # r) =
     [b64_char (unat a div 4), b64_char (unat a mod 4 * 16 + unat b div 16), b64_char (unat b mod 16 * 4 + unat c div 64),
      b64_char (unat c mod 64)] @ b64_standard r"

lemma b64_char_facts:
  assumes "v < 64"
  shows "sextet (b64_char v) = Some (of_nat v)" and "\<not> ascii_whitespace (b64_char v)" and "b64_char v \<noteq> CHR ''=''"
proof -
  have code: "of_char (b64_char v) = (if v < 26 then v + 65 else if v < 52 then v + 71 else if v < 62 then v - 4 else if v = 62 then 43 else 47 :: nat)"
    using assms by (simp add: b64_char_def)
  have "of_nat (v - 26) + 26 = (of_nat v :: u32)" if "26 \<le> v" using that by (metis le_add_diff_inverse2 of_nat_add of_nat_numeral)
  moreover have "of_nat (v - 52) + 52 = (of_nat v :: u32)" if "52 \<le> v" using that by (metis le_add_diff_inverse2 of_nat_add of_nat_numeral)
  moreover have "v = 63" if "62 < v" using that assms by simp
  ultimately show "sextet (b64_char v) = Some (of_nat v)" unfolding sextet_def code Let_def by (auto split: if_splits)
  show "\<not> ascii_whitespace (b64_char v)" unfolding ascii_whitespace_def code by auto
  have "of_char (CHR ''='') = (61 :: nat)" by simp
  with code show "b64_char v \<noteq> CHR ''=''" by (auto split: if_splits)
qed

lemma push_or: "v < 64 \<Longrightarrow> push_bit 6 (of_nat m :: u32) OR of_nat v = of_nat (m * 64 + v)"
proof -
  assume v: "v < 64"
  have "push_bit 6 (of_nat m :: u32) OR of_nat v = push_bit 6 (of_nat m) + of_nat v"
  proof (rule disjunctive_add [symmetric])
    fix n
    show "\<not> bit (push_bit 6 (of_nat m :: u32)) n \<or> \<not> bit (of_nat v :: u32) n"
    proof (cases "n < 6")
      case False
      have "v < 2 ^ n" using v False by (meson less_le_trans not_less one_le_numeral power_increasing[of 6 n 2, simplified])
      then have "\<not> bit v n" by (simp add: bit_iff_odd)
      then show ?thesis by (simp add: bit_simps)
    qed (simp add: bit_push_bit_iff)
  qed
  then show ?thesis by (simp add: push_bit_eq_mult)
qed

lemma byte_at: "k \<le> 24 \<Longrightarrow> ucast (drop_bit k (of_nat m :: u32) AND 0xff) = (of_nat (m div 2 ^ k) :: byte)"
proof (rule bit_word_eqI)
  fix n assume k: "k \<le> 24" and n: "n < LENGTH(8)"
  have "bit (0xff :: u32) n" using n by (auto simp: less_Suc_eq numeral_eq_Suc bit_numeral_rec)
  with k n show "bit (ucast (drop_bit k (of_nat m :: u32) AND 0xff) :: byte) n = bit (of_nat (m div 2 ^ k) :: byte) n"
    by (simp add: bit_simps bit_of_nat_iff_bit flip: drop_bit_eq_div)
qed

lemma b64_loop_sextet:
  assumes "v < 64"
  shows "b64_loop (b64_char v # cs) (of_nat m) bits False =
    (if 2 \<le> bits then map_option ((#) (ucast (drop_bit (bits - 2) (of_nat (m * 64 + v) :: u32) AND 0xff))) (b64_loop cs (of_nat (m * 64 + v)) (bits - 2) False)
     else b64_loop cs (of_nat (m * 64 + v)) (bits + 6) False)"
  using b64_char_facts [OF assms] push_or [OF assms, of m] by (simp add: Let_def)

lemma b64_loop_pad: "b64_loop (CHR ''='' # cs) m bits padded = b64_loop cs m bits True" "b64_loop [] m 4 True = Some []" "b64_loop [] m 2 True = Some []"
  by (simp_all add: ascii_whitespace_def)

lemma byte_of_nat_low: "(of_nat (m * 256 + unat a) :: byte) = a" "(of_nat (unat a + 256 * m) :: byte) = a"
proof -
  have "unat (of_nat (m * 256 + unat a) :: byte) = unat a"
    using unat_byte_less [of a] by (simp only: unat_of_nat) simp
  then show "(of_nat (m * 256 + unat a) :: byte) = a" by (simp only: word_unat_eq_iff)
  then show "(of_nat (unat a + 256 * m) :: byte) = a" by (simp only: mult.commute add.commute)
qed

lemma b64_loop_first: "v < 64 \<Longrightarrow> M = m * 64 + v \<Longrightarrow> b64_loop (b64_char v # cs) (of_nat m) 0 False = b64_loop cs (of_nat M) 6 False"
  by (simp add: b64_loop_sextet del: b64_loop.simps)

lemma b64_loop_emit:
  assumes "v < 64" and "M = m * 64 + v" and "bits = low + 2" and "low \<le> 4" and "M div 2 ^ low = k * 256 + unat a"
  shows "b64_loop (b64_char v # cs) (of_nat m) bits False = map_option ((#) a) (b64_loop cs (of_nat M) low False)"
proof -
  have "ucast (drop_bit low (of_nat M :: u32) AND 0xff) = a"
    using byte_at [of low M] assms(4) unfolding assms(5) byte_of_nat_low(1) by simp
  then show ?thesis using b64_loop_sextet [OF assms(1), of cs m bits] unfolding assms(2,3) by simp
qed

text \<open>The sextets of a group put together again: two give the first byte, three the second, four the third.\<close>

lemma b64_loop_two:
  assumes "x < 16"
  shows "b64_loop (b64_char (unat a div 4) # b64_char (unat a mod 4 * 16 + x) # cs) (of_nat m) 0 False =
    map_option ((#) a) (b64_loop cs (of_nat (16 * (m * 256 + unat a) + x)) 4 False)"
proof -
  define p q where pq: "p = unat a div 4" "q = unat a mod 4"
  have join: "unat a = p * 4 + q" by (simp add: pq)
  have v: "p < 64" "q * 16 + x < 64" using unat_byte_less [of a] assms by (auto simp: pq)
  have eq: "16 * (m * 256 + unat a) + x = (m * 64 + p) * 64 + (q * 16 + x)" using join by simp
  have dv: "(16 * (m * 256 + unat a) + x) div 2 ^ 4 = m * 256 + unat a" using assms by simp
  show ?thesis
    unfolding pq [symmetric] b64_loop_first [OF v(1) refl] by (rule b64_loop_emit [OF v(2) eq _ _ dv]) simp_all
qed

lemma b64_loop_third:
  assumes "x < 4"
  shows "b64_loop (b64_char (unat b mod 16 * 4 + x) # cs) (of_nat (16 * m + unat b div 16)) 4 False =
    map_option ((#) b) (b64_loop cs (of_nat (4 * (m * 256 + unat b) + x)) 2 False)"
proof -
  define p q where pq: "p = unat b div 16" "q = unat b mod 16"
  have join: "unat b = p * 16 + q" by (simp add: pq)
  have "q < 16" by (simp add: pq)
  then have v: "q * 4 + x < 64" using assms by simp
  have eq: "4 * (m * 256 + unat b) + x = (16 * m + p) * 64 + (q * 4 + x)" using join by simp
  have dv: "(4 * (m * 256 + unat b) + x) div 2 ^ 2 = m * 256 + unat b" using assms by simp
  show ?thesis unfolding pq [symmetric] by (rule b64_loop_emit [OF v eq _ _ dv]) simp_all
qed

lemma b64_loop_fourth:
  "b64_loop (b64_char (unat c mod 64) # cs) (of_nat (4 * m + unat c div 64)) 2 False =
    map_option ((#) c) (b64_loop cs (of_nat (m * 256 + unat c)) 0 False)"
proof -
  define p q where pq: "p = unat c div 64" "q = unat c mod 64"
  have join: "unat c = p * 64 + q" by (simp add: pq)
  have v: "q < 64" by (simp add: pq)
  have eq: "m * 256 + unat c = (4 * m + p) * 64 + q" using join by simp
  show ?thesis unfolding pq [symmetric] by (rule b64_loop_emit [OF v eq, of _ _ m]) simp_all
qed

lemma b64_loop_group: "b64_loop (b64_standard bs) (of_nat m) 0 False = Some bs"
proof (induction bs arbitrary: m rule: b64_standard.induct)
  case 1
  show ?case by simp
next
  case (2 a)
  show ?case using b64_loop_two [of 0 a "[CHR ''='', CHR ''='']" m] by (simp add: b64_loop_pad del: b64_loop.simps)
next
  case (3 a b)
  have lt: "unat b div 16 < 16" using unat_byte_less [of b] by simp
  have "b64_loop (b64_standard [a, b]) (of_nat m) 0 False =
      map_option ((#) a) (map_option ((#) b) (b64_loop [CHR ''=''] (of_nat (4 * ((m * 256 + unat a) * 256 + unat b) + 0)) 2 False))"
    unfolding b64_standard.simps b64_loop_two [OF lt] using b64_loop_third [of 0 b "[CHR ''='']" "m * 256 + unat a"] by (simp only: add_0_right)
  then show ?case by (simp add: b64_loop_pad del: b64_loop.simps)
next
  case (4 a b c r)
  have lt: "unat b div 16 < 16" "unat c div 64 < 4" using unat_byte_less [of b] unat_byte_less [of c] by simp_all
  show ?case
    unfolding b64_standard.simps append_Cons append_Nil b64_loop_two [OF lt(1)] b64_loop_third [OF lt(2)] b64_loop_fourth "4.IH"
    by simp
qed

text \<open>Every payload the recorder writes in standard base64 is decoded to the bytes it stands for.\<close>

lemma decode_base64_standard: "decode_base64 (b64_standard bs) = Some bs"
  using b64_loop_group [of bs 0] by (simp add: decode_base64_def)

end
