(* ===== verification/Recording_Replay.thy ===== *)
theory Recording_Replay
  imports Cast_Recorder Replay
begin

text \<open>
  From the recorder of the bridge to the player of the client: what \<open>load_and_prepare\<close> reads from a
  file that \<open>writer_task\<close> wrote. \<open>cast_json_ok\<close> states what the code relies on from \<open>serde_json\<close> and
  the base64 encoder.
\<close>

section \<open>Lines\<close>





















section \<open>Sizes\<close>





definition resize_ok :: "u16 \<Rightarrow> u16 \<Rightarrow> bool" where
  "resize_ok c r \<longleftrightarrow> 0 < unat c \<and> unat c \<le> MAX_CAST_DIM \<and> 0 < unat r \<and> unat r \<le> MAX_CAST_DIM"



section \<open>What is loaded\<close>

fun item_play :: "real \<Rightarrow> item \<Rightarrow> play_event list" where
  "item_play t (Text kind d) = (if kind = EVENT_OUTPUT then [Output_at t d] else [])"
| "item_play t (Raw b) = [OutputBytes_at t b]"

text \<open>The events of a player for a recorded session, parallel to \<open>session_lines\<close>.\<close>

fun session_play ::
    "(string \<Rightarrow> real) \<Rightarrow> (bool \<times> string \<times> cast_event) list \<Rightarrow> string \<Rightarrow> bytes \<Rightarrow> bytes \<Rightarrow> play_event list" where
  "session_play time [] fin po pin = concat (map (item_play (time fin)) (flush_pending_bytes po @ flush_pending_bytes pin))"
| "session_play time ((due, el, Output d) # evs) fin po pin =
     (let (ls, po) = reassemble_events po d EVENT_OUTPUT in concat (map (item_play (time el)) ls) @ session_play time evs fin po pin)"
| "session_play time ((due, el, Input d) # evs) fin po pin =
     (let (ls, pin) = reassemble_events pin d EVENT_INPUT in concat (map (item_play (time el)) ls) @ session_play time evs fin po pin)"
| "session_play time ((due, el, Resize c r) # evs) fin po pin =
     (if resize_ok c r then [Resize_at (time el) (unat c) (unat r)] else []) @ session_play time evs fin po pin"
| "session_play time ((due, el, Exit code) # evs) fin po pin =
     concat (map (item_play (time el)) (flush_pending_bytes po @ flush_pending_bytes pin))"






















section \<open>The output of a session survives\<close>











text \<open>Bytes a user typed that are not UTF-8 are recorded and loaded as terminal output.\<close>

lemma typed_bytes_replayed_as_output:
  "session_play time [(False, el, Input [0xFF]), (False, el', Exit code)] fin [] [] = [OutputBytes_at (time el) [0xFF]]"
proof -
  have "from_utf8 [0xFF] = Some (0, Some 1)" by (simp add: from_utf8.simps utf8_head_def utf8_width_def)
  then have "reassemble_events [] [0xFF] EVENT_INPUT = ([Raw [0xFF]], [])"
    by (simp add: reassemble_events_def reassemble.simps)
  then show ?thesis by (simp add: flush_pending_bytes_def)
qed



section \<open>Witness\<close>


















end
