(* ===== verification/Normalize.thy ===== *)
theory Normalize
  imports Prelude
begin

text \<open>
  Command normalisation (\<open>clum-command-kb/src/normalize.rs\<close>): the quote-aware scan that marks
  separators and structural hazards, the split into segments, the stripping of wrapper commands
  and the construction of the simple commands the rules are matched against.

  The crate \<open>shell_words\<close> is a parameter: \<open>split\<close> returns the words of a segment or an error
  message. String slices that would panic in Rust are explicit: \<open>scan_markers\<close> returns
  \<open>None\<close>, \<open>normalize\<close> the error \<open>Panic\<close>.
\<close>

section \<open>Data\<close>

definition WRAPPERS :: "string list" where
  "WRAPPERS = [''timeout'', ''time'', ''nice'', ''nohup'', ''stdbuf'', ''setsid'', ''env'',
     ''sudo'', ''doas'', ''xargs'']"

definition MAX_WRAPPER_DEPTH :: nat where
  "MAX_WRAPPER_DEPTH = 8"

datatype hazard = Redirection | CommandSubstitution | Backtick | Heredoc | WrapperOverflow
  | ControlChar

record simple_command =
  sc_program :: string
  sc_args :: "string list"
  sc_wrappers :: "string list"
  sc_hazards :: "hazard list"

record normalize_outcome =
  no_commands :: "simple_command list"
  no_raw :: string

datatype marker_kind = Sep | Hazard hazard

record marker =
  m_pos :: nat
  m_len :: nat
  m_kind :: marker_kind

section \<open>The marker scan\<close>

text \<open>
  One iteration of the loop of \<open>scan_markers\<close> on the non-empty rest \<open>c # cs\<close> of the input:
  how far to advance, the marker pushed (its length and kind), and the quote flags. \<open>None\<close> is a
  slice on a byte that is not a character boundary.
\<close>

type_synonym scan_result = "(nat \<times> (nat \<times> marker_kind) option \<times> bool \<times> bool) option"

definition char_width :: "string \<Rightarrow> nat" where
  "char_width s = (case s of [] \<Rightarrow> 1 | c # _ \<Rightarrow> len_utf8 c)"

definition SEPS :: "(string \<times> nat) list" where
  "SEPS = [(''&&'', 2), (''||'', 2), ('';'', 1), (''|'', 1), (''&'', 1), ([CHR 0x0A], 1)]"

definition scan_redirect :: "string \<Rightarrow> bool \<Rightarrow> bool \<Rightarrow> scan_result" where
  "scan_redirect rest sq dq =
     (let l = (if prefix ''>>'' rest then 2 else 1)
      in case slice_from rest l of None \<Rightarrow> None
         | Some tail \<Rightarrow>
             let fd = (case tail of t # d # _ \<Rightarrow> t = CHR ''&'' \<and> CHR ''0'' \<le> d \<and> d \<le> CHR ''9''
                       | _ \<Rightarrow> False);
                 adv = (if fd then l + 2 else l)
             in Some (adv, Some (adv, Hazard Redirection), sq, dq))"

definition scan_sep :: "string \<Rightarrow> bool \<Rightarrow> bool \<Rightarrow> scan_result" where
  "scan_sep rest sq dq =
     (case find (\<lambda>(s, l). prefix s rest) SEPS of
        Some (s, l) \<Rightarrow> Some (l, Some (l, Sep), sq, dq)
      | None \<Rightarrow> Some (1, None, sq, dq))"

definition scan_step :: "char \<Rightarrow> string \<Rightarrow> bool \<Rightarrow> bool \<Rightarrow> scan_result" where
  "scan_step c cs sq dq =
     (let rest = c # cs in
      if 0x80 \<le> byte_of c then
        (case slice_from rest 0 of None \<Rightarrow> None
         | Some r \<Rightarrow> Some (char_width r, None, sq, dq))
      else if byte_of c = 0x0D then Some (1, Some (1, Sep), sq, dq)
      else if (byte_of c < 0x20 \<and> byte_of c \<noteq> 0x0A \<and> byte_of c \<noteq> 0x09) \<or> byte_of c = 0x7F then
        Some (1, Some (1, Hazard ControlChar), sq, dq)
      else if c = CHR 0x5C \<and> \<not> sq then
        (case slice_from rest 1 of None \<Rightarrow> None
         | Some r \<Rightarrow> Some (1 + char_width r, None, sq, dq))
      else if c = CHR 0x27 \<and> \<not> dq then Some (1, None, \<not> sq, dq)
      else if c = CHR 0x22 \<and> \<not> sq then Some (1, None, sq, \<not> dq)
      else if sq then Some (1, None, sq, dq)
      else case slice_from rest 0 of None \<Rightarrow> None
      | Some _ \<Rightarrow>
        if c = CHR 0x60 then Some (1, Some (1, Hazard Backtick), sq, dq)
        else if prefix ''$('' rest then Some (2, Some (2, Hazard CommandSubstitution), sq, dq)
        else if \<not> dq \<and> (prefix ''<('' rest \<or> prefix ''>('' rest) then
          Some (2, Some (2, Hazard CommandSubstitution), sq, dq)
        else if \<not> dq \<and> prefix ''<<'' rest then Some (2, Some (2, Hazard Heredoc), sq, dq)
        else if \<not> dq \<and> (c = CHR ''>'' \<or> c = CHR ''<'') then scan_redirect rest sq dq
        else if \<not> dq then scan_sep rest sq dq
        else Some (1, None, sq, dq))"

lemma find_SEPS_pos: "find (\<lambda>(s, l). prefix s rest) SEPS = Some (s, l) \<Longrightarrow> 0 < l"
  by (auto simp: SEPS_def split: if_splits)

lemma scan_step_adv_pos: "scan_step c cs sq dq = Some (adv, mk, sq', dq') \<Longrightarrow> 0 < adv"
  by (auto simp: scan_step_def scan_redirect_def scan_sep_def char_width_def Let_def
      dest: find_SEPS_pos split: if_splits option.splits list.splits)

text \<open>The \<open>while i < bytes.len()\<close> loop, on the rest of the input and the position.\<close>

function scan_from :: "string \<Rightarrow> nat \<Rightarrow> bool \<Rightarrow> bool \<Rightarrow> marker list option" where
  "scan_from [] i sq dq = Some []"
| "scan_from (c # cs) i sq dq =
     (case scan_step c cs sq dq of
        None \<Rightarrow> None
      | Some (adv, mk, sq', dq') \<Rightarrow>
          map_option (\<lambda>ms. (case mk of None \<Rightarrow> ms
                            | Some (l, k) \<Rightarrow> \<lparr>m_pos = i, m_len = l, m_kind = k\<rparr> # ms))
            (scan_from (drop adv (c # cs)) (i + adv) sq' dq'))"
  by pat_completeness auto
termination
  by (relation "measure (\<lambda>(s, _). length s)") (auto dest!: scan_step_adv_pos)

definition scan_markers :: "string \<Rightarrow> marker list option" where
  "scan_markers input = scan_from input 0 False False"

section \<open>Wrapper stripping\<close>

text \<open>The option-skipping loop of the \<open>sudo\<close>/\<open>doas\<close> arm.\<close>

fun skip_sudo_opts :: "string list \<Rightarrow> string list" where
  "skip_sudo_opts [] = []"
| "skip_sudo_opts (w # ws) =
     (if prefix ''-'' w then
        if w \<in> set [''-u'', ''-g'', ''-p'', ''-C'', ''-r'', ''-t'', ''-U'', ''-D'', ''-R'', ''-T'']
        then (case ws of [] \<Rightarrow> [] | _ # ws' \<Rightarrow> skip_sudo_opts ws')
        else skip_sudo_opts ws
      else w # ws)"

text \<open>The option-skipping loop of the other wrappers.\<close>

fun skip_wrapper_opts :: "string list \<Rightarrow> string list" where
  "skip_wrapper_opts [] = []"
| "skip_wrapper_opts (w # ws) =
     (if prefix ''-'' w \<or> (w \<noteq> [] \<and> list_all (\<lambda>c. CHR ''0'' \<le> c \<and> c \<le> CHR ''9'') w)
      then skip_wrapper_opts ws else w # ws)"

lemma skip_sudo_opts_suffix: "suffix (skip_sudo_opts ws) ws"
proof (induction ws rule: skip_sudo_opts.induct)
  case (2 w ws)
  then show ?case by (cases ws) (simp_all add: suffix_Cons)
qed simp

lemma skip_wrapper_opts_suffix: "suffix (skip_wrapper_opts ws) ws"
  by (induction ws rule: skip_wrapper_opts.induct) (simp_all add: suffix_Cons)

lemmas skip_opts_length =
  skip_sudo_opts_suffix [THEN suffix_length_le] skip_wrapper_opts_suffix [THEN suffix_length_le]

text \<open>
  The loop of \<open>strip_wrappers\<close> on the words from \<open>idx\<close> on and the wrappers collected so far.
\<close>

function strip_loop ::
    "string list \<Rightarrow> string list \<Rightarrow> string + (string \<times> string list \<times> string list)" where
  "strip_loop ws wrappers =
     (if MAX_WRAPPER_DEPTH \<le> length wrappers then Inl ''wrapper nesting exceeds 8''
      else case ws of
        [] \<Rightarrow> Inl ''empty command after stripping wrappers''
      | head # rest \<Rightarrow>
          if CHR ''='' \<in> set head \<and> \<not> prefix ''-'' head then strip_loop rest wrappers
          else if head = ''env'' then strip_loop rest (wrappers @ [head])
          else if head = ''sudo'' \<or> head = ''doas''
            then strip_loop (skip_sudo_opts rest) (wrappers @ [head])
          else if head \<in> set WRAPPERS
            then strip_loop (skip_wrapper_opts rest) (wrappers @ [head])
          else Inr (head, rest, wrappers))"
  by pat_completeness auto
termination
  by (relation "measure (\<lambda>(ws, _). length ws)")
     (auto simp: less_Suc_eq_le skip_opts_length)

declare strip_loop.simps [simp del]

definition strip_wrappers ::
    "string list \<Rightarrow> string + (string \<times> string list \<times> string list)" where
  "strip_wrappers words = strip_loop words []"

definition program_basename :: "string \<Rightarrow> string" where
  "program_basename p = last_component (trim_char CHR 0x22 (trim_char CHR 0x27 p))"

section \<open>Normalisation\<close>

datatype norm_error = ShellParse string | Panic

text \<open>The byte ranges of the segments: the loop over the separator markers.\<close>

fun ranges_from :: "nat \<Rightarrow> nat \<Rightarrow> marker list \<Rightarrow> (nat \<times> nat) list" where
  "ranges_from n start [] = (if start < n then [(start, n)] else [])"
| "ranges_from n start (m # ms) =
     (if m_kind m = Sep
      then (if start < m_pos m then [(start, m_pos m)] else [])
           @ ranges_from n (m_pos m + m_len m) ms
      else ranges_from n start ms)"

definition segment_hazards :: "marker list \<Rightarrow> nat \<Rightarrow> nat \<Rightarrow> hazard list" where
  "segment_hazards ms s e =
     remdups_adj (List.map_filter
       (\<lambda>m. case m_kind m of Hazard h \<Rightarrow> Some h | Sep \<Rightarrow> None)
       (filter (\<lambda>m. s \<le> m_pos m \<and> m_pos m < e) ms))"

definition EMPTY_PROGRAM :: string where
  "EMPTY_PROGRAM = ''__clum_empty_program__''"

text \<open>
  The body of the segment loop once the words are known and not empty: the command pushed, if
  any.
\<close>

definition build_command :: "string list \<Rightarrow> hazard list \<Rightarrow> simple_command option" where
  "build_command words hz =
     (let (hz', program, args, wrappers) =
            (case strip_wrappers words of
               Inr (p, a, w) \<Rightarrow> (hz, p, a, w)
             | Inl _ \<Rightarrow> (hz @ [WrapperOverflow], hd words, tl words, []));
          program' = program_basename program
      in if program' = [] then
           (if hz' = [] then None
            else Some \<lparr>sc_program = EMPTY_PROGRAM, sc_args = args, sc_wrappers = wrappers,
                       sc_hazards = hz'\<rparr>)
         else Some \<lparr>sc_program = program', sc_args = args, sc_wrappers = wrappers,
                    sc_hazards = hz'\<rparr>)"

fun build_segments ::
    "(string \<Rightarrow> string + string list) \<Rightarrow> string \<Rightarrow> marker list \<Rightarrow> (nat \<times> nat) list
     \<Rightarrow> norm_error + simple_command list" where
  "build_segments split input ms [] = Inr []"
| "build_segments split input ms ((s, e) # rs) =
     (case slice input s e of
        None \<Rightarrow> Inl Panic
      | Some text \<Rightarrow>
          (case split text of
             Inl err \<Rightarrow> Inl (ShellParse (''shell parse failed: '' @ err))
           | Inr words \<Rightarrow>
               (case (if words = [] then None
                      else build_command words (segment_hazards ms s e)) of
                  None \<Rightarrow> build_segments split input ms rs
                | Some cmd \<Rightarrow>
                    (case build_segments split input ms rs of
                       Inl err \<Rightarrow> Inl err
                     | Inr cmds \<Rightarrow> Inr (cmd # cmds)))))"

definition normalize ::
    "(string \<Rightarrow> string + string list) \<Rightarrow> string \<Rightarrow> norm_error + normalize_outcome" where
  "normalize split input =
     (case scan_markers input of
        None \<Rightarrow> Inl Panic
      | Some ms \<Rightarrow>
          (case build_segments split input ms (ranges_from (length input) 0 ms) of
             Inl err \<Rightarrow> Inl err
           | Inr cmds \<Rightarrow> Inr \<lparr>no_commands = cmds, no_raw = input\<rparr>))"

section \<open>The scan: no panic, markers in bounds and in order\<close>

lemma scan_from_Cons_SomeE:
  assumes "scan_from (c # cs) i sq dq = Some ms"
  obtains adv mk sq' dq' ms' where
    "scan_step c cs sq dq = Some (adv, mk, sq', dq')"
    "scan_from (drop adv (c # cs)) (i + adv) sq' dq' = Some ms'"
    "ms = (case mk of None \<Rightarrow> ms' | Some (l, k) \<Rightarrow> \<lparr>m_pos = i, m_len = l, m_kind = k\<rparr> # ms')"
  using assms by (auto split: option.splits prod.splits)

lemma byte_of_CHR [simp]: "byte_of (CHR 0x5C) = 92" "byte_of (CHR 0x27) = 39"
    "byte_of (CHR 0x22) = 34" "byte_of (CHR 0x60) = 96" "byte_of (CHR ''>'') = 62"
    "byte_of (CHR ''<'') = 60" "byte_of (CHR ''$'') = 36" "byte_of (CHR ''('') = 40"
    "byte_of (CHR ''&'') = 38" "byte_of (CHR ''|'') = 124" "byte_of (CHR '';'') = 59"
    "byte_of (CHR 0x0A) = 10"
  by (simp_all add: byte_of_def)

lemma utf8_wf_drop_width:
  "utf8_wf s \<Longrightarrow> utf8_wf (drop (char_width s) s) \<and> (s \<noteq> [] \<longrightarrow> char_width s \<le> length s)"
  by (cases s) (auto simp: char_width_def drop_Cons' len_utf8_def utf8_wf.simps(2))

text \<open>
  The outcomes of a step on an ASCII character: one byte, an escape, or a printable token at
  the head of the rest. The control characters that a terminal interprets (carriage return
  included) are never part of a token.
\<close>

definition tty_char :: "char \<Rightarrow> bool" where
  "tty_char c \<longleftrightarrow> (byte_of c < 0x20 \<and> byte_of c \<noteq> 0x0A \<and> byte_of c \<noteq> 0x09) \<or> byte_of c = 0x7F"

definition token :: "string \<Rightarrow> string \<Rightarrow> bool" where
  "token tok rest \<longleftrightarrow> prefix tok rest \<and> (\<forall>x \<in> set tok. byte_of x < 128 \<and> \<not> tty_char x)"

definition step_shape :: "char \<Rightarrow> string \<Rightarrow> scan_result \<Rightarrow> bool" where
  "step_shape c cs r \<longleftrightarrow>
     (\<exists>mk x y. r = Some (1, mk, x, y) \<and> (mk = None \<or> (\<exists>k. mk = Some (1, k))))
     \<or> (c = CHR 0x5C \<and> (\<exists>x y. r = Some (1 + char_width cs, None, x, y)))
     \<or> (\<exists>tok k x y. r = Some (length tok, Some (length tok, k), x, y) \<and> token tok (c # cs))"

lemma step_shape_if:
  "(P \<Longrightarrow> step_shape c cs a) \<Longrightarrow> (\<not> P \<Longrightarrow> step_shape c cs b) \<Longrightarrow> step_shape c cs (if P then a else b)"
  by simp

lemma step_shape_one: "step_shape c cs (Some (1, None, x, y))"
    "step_shape c cs (Some (1, Some (1, k), x, y))"
  by (auto simp: step_shape_def)

lemma step_shape_token:
  "token tok (c # cs) \<Longrightarrow> n = length tok \<Longrightarrow> step_shape c cs (Some (n, Some (n, k), x, y))"
  by (auto simp: step_shape_def)

lemma step_shape_token2:
  "prefix [a, b] (c # cs) \<Longrightarrow> 32 \<le> byte_of a \<Longrightarrow> byte_of a < 127 \<Longrightarrow> 32 \<le> byte_of b \<Longrightarrow>
     byte_of b < 127 \<Longrightarrow> step_shape c cs (Some (2, Some (2, k), x, y))"
  by (rule step_shape_token [of "[a, b]"]) (auto simp: token_def tty_char_def)

lemma digit_ascii: "CHR ''0'' \<le> d \<Longrightarrow> d \<le> CHR ''9'' \<Longrightarrow> 32 \<le> byte_of d \<and> byte_of d < 127"
  by (auto simp: less_eq_char_def byte_of_def)

lemma scan_redirect_shape:
  assumes "utf8_wf cs" and "c = CHR ''>'' \<or> c = CHR ''<''"
  shows "step_shape c cs (scan_redirect (c # cs) sq dq)"
proof -
  have c: "32 \<le> byte_of c" "byte_of c < 127" using assms(2) by auto
  obtain red tail where red: "c # cs = red @ tail"
      "red = (if prefix ''>>'' (c # cs) then ''>>'' else [c])"
    by (cases "prefix ''>>'' (c # cs)") (auto simp: prefix_def)
  then have len: "(if prefix ''>>'' (c # cs) then 2 else (1::nat)) = length red" by simp
  have red_ok: "\<forall>x \<in> set red. 32 \<le> byte_of x \<and> byte_of x < 127" using red(2) c by auto
  from assms(1) c have "utf8_wf (red @ tail)" by (simp flip: red(1))
  with red_ok have "utf8_wf tail" using utf8_wf_append_ascii [of red tail] by fastforce
  then have sl: "slice_from (red @ tail) (length red) = Some tail"
    by (simp add: slice_from_def)
  show ?thesis
  proof (cases "\<exists>d ds. tail = CHR ''&'' # d # ds \<and> CHR ''0'' \<le> d \<and> d \<le> CHR ''9''")
    case True
    then obtain d ds where t: "tail = CHR ''&'' # d # ds" "CHR ''0'' \<le> d" "d \<le> CHR ''9''" by blast
    have "token (red @ [CHR ''&'', d]) (c # cs)"
      unfolding token_def using red_ok t digit_ascii [of d] red(1)
      by (auto simp: tty_char_def)
    moreover have "scan_redirect (c # cs) sq dq =
        Some (length red + 2, Some (length red + 2, Hazard Redirection), sq, dq)"
      unfolding scan_redirect_def Let_def len by (simp add: red(1) sl [unfolded t(1)] t)
    ultimately show ?thesis by (simp add: step_shape_token)
  next
    case False
    have "token red (c # cs)" unfolding token_def using red_ok red(1) by (auto simp: tty_char_def)
    moreover have "\<not> (case tail of t # d # _ \<Rightarrow> t = CHR ''&'' \<and> CHR ''0'' \<le> d \<and> d \<le> CHR ''9''
        | _ \<Rightarrow> False)"
      using False by (auto split: list.splits)
    then have "scan_redirect (c # cs) sq dq =
        Some (length red, Some (length red, Hazard Redirection), sq, dq)"
      unfolding scan_redirect_def Let_def len by (simp add: red(1) sl)
    ultimately show ?thesis by (simp add: step_shape_token)
  qed
qed

lemma scan_sep_shape: "step_shape c cs (scan_sep (c # cs) sq dq)"
proof -
  have nl: "token [CHR 0x0A] (c # cs)" if "c = CHR 0x0A"
    using that by (simp add: token_def tty_char_def)
  show ?thesis
    unfolding scan_sep_def SEPS_def
    by (auto simp: step_shape_one intro!: step_shape_token2 step_shape_one [unfolded One_nat_def])
qed

lemma scan_step_shape:
  assumes wf: "utf8_wf (c # cs)" and c: "byte_of c < 128"
  shows "step_shape c cs (scan_step c cs sq dq)"
proof -
  from wf c have wf': "utf8_wf cs" by simp
  have s0: "slice_from (c # cs) 0 = Some (c # cs)" using wf by (rule utf8_wf_slice_from)
  have s1: "slice_from (c # cs) 1 = Some cs" using wf' by (simp add: slice_from_def)
  from c have c': "\<not> 128 \<le> byte_of c" by simp
  have esc: "c = CHR 0x5C \<and> \<not> sq \<Longrightarrow> step_shape c cs (Some (1 + char_width cs, None, sq, dq))"
    by (auto simp: step_shape_def)
  show ?thesis
    unfolding scan_step_def Let_def s0 s1 option.simps if_not_P [OF c']
    by (intro step_shape_if step_shape_one esc scan_redirect_shape [OF wf'] scan_sep_shape)
       (((elim conjE disjE)?, ((erule step_shape_token2; simp) | simp))+)
qed

text \<open>What one step does on well-formed input.\<close>

definition step_ok :: "string \<Rightarrow> scan_result \<Rightarrow> bool" where
  "step_ok rest r \<longleftrightarrow>
     (case r of None \<Rightarrow> False
      | Some (adv, mk, _, _) \<Rightarrow> utf8_wf (drop adv rest) \<and>
          (case mk of None \<Rightarrow> True | Some (l, _) \<Rightarrow> l = adv \<and> adv \<le> length rest))"

lemma token_drop: "token tok s \<Longrightarrow> utf8_wf s \<Longrightarrow> utf8_wf (drop (length tok) s) \<and> length tok \<le> length s"
proof -
  assume t: "token tok s" and wf: "utf8_wf s"
  then obtain zs where s: "s = tok @ zs" by (auto simp: token_def prefix_def)
  with t wf show ?thesis by (simp add: token_def utf8_wf_append_ascii)
qed

lemma scan_step_ok:
  assumes wf: "utf8_wf (c # cs)"
  shows "step_ok (c # cs) (scan_step c cs sq dq)"
proof (cases "byte_of c < 128")
  case False
  with wf utf8_wf_drop_width [OF wf] show ?thesis
    by (simp add: scan_step_def step_ok_def utf8_wf_slice_from)
next
  case True
  with wf have wf': "utf8_wf cs" by simp
  from scan_step_shape [OF wf True, of sq dq] show ?thesis
    unfolding step_shape_def
  proof (elim disjE exE conjE)
    fix tok k x y
    assume "scan_step c cs sq dq = Some (length tok, Some (length tok, k), x, y)" "token tok (c # cs)"
    with token_drop [OF _ wf] show ?thesis by (simp add: step_ok_def)
  qed (use wf' utf8_wf_drop_width [OF wf'] in \<open>auto simp: step_ok_def\<close>)
qed

text \<open>A step that is not an escape consumes no control character but its own.\<close>

lemma scan_step_keeps_tty:
  assumes wf: "utf8_wf (c # cs)" and st: "scan_step c cs sq dq = Some (adv, mk, sq', dq')"
    and "c \<noteq> CHR 0x5C" and "\<not> tty_char c" and "x \<in> set (take adv (c # cs))"
  shows "\<not> tty_char x"
proof (cases "byte_of c < 128")
  case True
  from scan_step_shape [OF wf this, of sq dq] st assms(3) consider
    "adv = 1" | tok where "adv = length tok" "token tok (c # cs)"
    by (auto simp: step_shape_def)
  then show ?thesis
  proof cases
    case 1
    with assms(4,5) show ?thesis by simp
  next
    case 2
    then have "take adv (c # cs) = tok" by (auto simp: token_def prefix_def)
    with 2 assms(5) show ?thesis by (auto simp: token_def)
  qed
next
  case False
  with wf st have adv: "adv = len_utf8 c"
    by (simp add: scan_step_def utf8_wf_slice_from char_width_def)
  with assms(5) have "x = c \<or> x \<in> set (take (len_utf8 c - 1) cs)"
    by (cases "len_utf8 c") auto
  with wf False show ?thesis
    by (auto simp: utf8_wf.simps(2) list_all_iff is_cont_def tty_char_def)
qed

lemma scan_step_tty:
  "tty_char c \<Longrightarrow> scan_step c cs sq dq =
     Some (1, Some (1, if byte_of c = 0x0D then Sep else Hazard ControlChar), sq, dq)"
  by (auto simp: scan_step_def tty_char_def Let_def)

lemma scan_from_tty:
  "scan_from (pre @ c # post) i sq dq = Some ms \<Longrightarrow> utf8_wf (pre @ c # post) \<Longrightarrow>
   CHR 0x5C \<notin> set pre \<Longrightarrow> tty_char c \<Longrightarrow>
   \<lparr>m_pos = i + length pre, m_len = 1,
     m_kind = (if byte_of c = 0x0D then Sep else Hazard ControlChar)\<rparr> \<in> set ms"
proof (induction "length pre" arbitrary: pre i sq dq ms rule: less_induct)
  case less
  show ?case
  proof (cases pre)
    case Nil
    with less.prems show ?thesis by (auto simp: scan_step_tty)
  next
    case (Cons a as)
    from less.prems(1) [unfolded Cons, unfolded append_Cons] obtain adv mk sq' dq' ms' where
      st: "scan_step a (as @ c # post) sq dq = Some (adv, mk, sq', dq')" and
      rec: "scan_from (drop adv (a # as @ c # post)) (i + adv) sq' dq' = Some ms'" and
      ms: "ms = (case mk of None \<Rightarrow> ms' | Some (l, k) \<Rightarrow> \<lparr>m_pos = i, m_len = l, m_kind = k\<rparr> # ms')"
      by (rule scan_from_Cons_SomeE)
    have wf: "utf8_wf (a # as @ c # post)" using less.prems(2) Cons by simp
    have "adv \<le> length pre"
    proof (cases "tty_char a")
      case True
      with st Cons show ?thesis by (simp add: scan_step_tty)
    next
      case False
      show ?thesis
      proof (rule ccontr)
        assume "\<not> adv \<le> length pre"
        then have "c \<in> set (take adv (pre @ c # post))" by (simp add: take_Cons')
        with scan_step_keeps_tty [OF wf st _ False] less.prems(3,4) Cons show False by auto
      qed
    qed
    then have dr: "drop adv (a # as @ c # post) = drop adv pre @ c # post"
      using Cons by (metis append_Cons drop_append diff_is_0_eq drop_0)
    have wf2: "utf8_wf (drop adv pre @ c # post)"
      using scan_step_ok [OF wf, of sq dq] st dr by (simp add: step_ok_def)
    have lt: "length (drop adv pre) < length pre" using scan_step_adv_pos [OF st] Cons by simp
    have "CHR 0x5C \<notin> set (drop adv pre)" using less.prems(3) in_set_dropD by fast
    from less.hyps [OF lt rec [unfolded dr] wf2 this less.prems(4)] \<open>adv \<le> length pre\<close> ms
    show ?thesis by (auto split: option.splits)
  qed
qed

lemma scan_from_total: "utf8_wf s \<Longrightarrow> \<exists>ms. scan_from s i sq dq = Some ms"
proof (induction s i sq dq rule: scan_from.induct)
  case (2 c cs i sq dq)
  from scan_step_ok [OF "2.prems", of sq dq] obtain adv mk sq' dq' where
    st: "scan_step c cs sq dq = Some (adv, mk, sq', dq')" and wf: "utf8_wf (drop adv (c # cs))"
    by (auto simp: step_ok_def split: option.splits)
  from "2.IH" [OF st _ _ _ wf] st show ?case by auto
qed simp

text \<open>A marker of a scan that started at position \<open>i\<close> on the rest \<open>s\<close>.\<close>

definition marker_ok :: "nat \<Rightarrow> string \<Rightarrow> marker \<Rightarrow> bool" where
  "marker_ok i s m \<longleftrightarrow> i \<le> m_pos m \<and> 0 < m_len m \<and> m_pos m + m_len m \<le> i + length s
     \<and> utf8_wf (drop (m_pos m - i) s) \<and> utf8_wf (drop (m_pos m + m_len m - i) s)"

lemma marker_ok_shift:
  assumes "marker_ok (i + adv) (drop adv s) m"
  shows "marker_ok i s m \<and> i + adv \<le> m_pos m"
proof (cases "adv \<le> length s")
  case True
  with assms show ?thesis by (auto simp: marker_ok_def add.commute)
next
  case False
  with assms show ?thesis by (auto simp: marker_ok_def)
qed

lemma scan_from_markers:
  "scan_from s i sq dq = Some ms \<Longrightarrow> utf8_wf s \<Longrightarrow>
     (\<forall>m \<in> set ms. marker_ok i s m) \<and> sorted_wrt (\<lambda>a b. m_pos a + m_len a \<le> m_pos b) ms"
proof (induction s i sq dq arbitrary: ms rule: scan_from.induct)
  case (2 c cs i sq dq)
  from "2.prems"(1) obtain adv mk sq' dq' ms' where
    st: "scan_step c cs sq dq = Some (adv, mk, sq', dq')" and
    rec: "scan_from (drop adv (c # cs)) (i + adv) sq' dq' = Some ms'" and
    ms: "ms = (case mk of None \<Rightarrow> ms' | Some (l, k) \<Rightarrow> \<lparr>m_pos = i, m_len = l, m_kind = k\<rparr> # ms')"
    by (rule scan_from_Cons_SomeE)
  from scan_step_ok [OF "2.prems"(2), of sq dq] st have
    wf: "utf8_wf (drop adv (c # cs))" and
    mk: "\<And>l k. mk = Some (l, k) \<Longrightarrow> l = adv \<and> adv \<le> length (c # cs)"
    by (auto simp: step_ok_def)
  from "2.IH" [OF st _ _ _ rec wf] have
    IH: "\<forall>m \<in> set ms'. marker_ok (i + adv) (drop adv (c # cs)) m"
      "sorted_wrt (\<lambda>a b. m_pos a + m_len a \<le> m_pos b) ms'" by simp_all
  from IH(1) marker_ok_shift have
    sh: "\<forall>m \<in> set ms'. marker_ok i (c # cs) m \<and> i + adv \<le> m_pos m" by blast
  show ?case
  proof (cases mk)
    case None
    with ms sh IH(2) show ?thesis by simp
  next
    case (Some lk)
    then obtain l k where lk: "mk = Some (l, k)" by (cases lk) auto
    from mk [OF lk] wf "2.prems"(2) scan_step_adv_pos [OF st]
    have "marker_ok i (c # cs) \<lparr>m_pos = i, m_len = l, m_kind = k\<rparr>"
      by (simp add: marker_ok_def)
    with ms lk mk [OF lk] sh IH(2) show ?thesis by simp
  qed
qed simp

lemma scan_markers_ok:
  assumes "scan_markers input = Some ms" and "utf8_wf input"
  shows "\<And>m. m \<in> set ms \<Longrightarrow> marker_ok 0 input m"
    and "sorted_wrt (\<lambda>a b. m_pos a + m_len a \<le> m_pos b) ms"
  using scan_from_markers assms unfolding scan_markers_def by blast+

section \<open>Segments\<close>

definition is_sep :: "marker \<Rightarrow> bool" where
  "is_sep m \<longleftrightarrow> m_kind m = Sep"

text \<open>
  A list of markers that the scan may have produced from position \<open>start\<close> on: each in bounds,
  on character boundaries, none overlapping the next.
\<close>

definition markers_from :: "string \<Rightarrow> nat \<Rightarrow> marker list \<Rightarrow> bool" where
  "markers_from input start ms \<longleftrightarrow>
     (\<forall>m \<in> set ms. start \<le> m_pos m \<and> marker_ok 0 input m)
     \<and> sorted_wrt (\<lambda>a b. m_pos a + m_len a \<le> m_pos b) ms"

lemma markers_from_Cons:
  "markers_from input start (m # ms) \<Longrightarrow>
     start \<le> m_pos m \<and> marker_ok 0 input m \<and> markers_from input (m_pos m + m_len m) ms
     \<and> markers_from input start ms"
  by (auto simp: markers_from_def)

lemma scan_markers_from:
  "scan_markers input = Some ms \<Longrightarrow> utf8_wf input \<Longrightarrow> markers_from input 0 ms"
  using scan_markers_ok by (auto simp: markers_from_def)

lemma ranges_from_bounds:
  "markers_from input start ms \<Longrightarrow> utf8_wf (drop start input) \<Longrightarrow>
   (s, e) \<in> set (ranges_from (length input) start ms) \<Longrightarrow>
     start \<le> s \<and> s < e \<and> e \<le> length input \<and> utf8_wf (drop s input) \<and> utf8_wf (drop e input)"
proof (induction ms arbitrary: start)
  case Nil
  then show ?case by (auto split: if_splits)
next
  case (Cons m ms)
  note m = markers_from_Cons [OF Cons.prems(1)]
  then have wf: "utf8_wf (drop (m_pos m) input)" "utf8_wf (drop (m_pos m + m_len m) input)"
    by (auto simp: marker_ok_def)
  show ?case
  proof (cases "m_kind m = Sep")
    case False
    with Cons.prems(3) Cons.IH [of start] Cons.prems(2) m show ?thesis by auto
  next
    case True
    with Cons.prems(3) consider "start < m_pos m" "(s, e) = (start, m_pos m)"
      | "(s, e) \<in> set (ranges_from (length input) (m_pos m + m_len m) ms)"
      by (auto split: if_splits)
    then show ?thesis
    proof cases
      case 1
      with m wf Cons.prems show ?thesis by (auto simp: marker_ok_def)
    next
      case 2
      from Cons.IH [OF _ wf(2) this] m show ?thesis by auto
    qed
  qed
qed

text \<open>Every position is inside a separator or inside a segment.\<close>

lemma ranges_from_cover:
  "start \<le> p \<Longrightarrow> p < n \<Longrightarrow>
     (\<exists>m \<in> set ms. is_sep m \<and> m_pos m \<le> p \<and> p < m_pos m + m_len m)
     \<or> (\<exists>(s, e) \<in> set (ranges_from n start ms). s \<le> p \<and> p < e)"
proof (induction ms arbitrary: start)
  case Nil
  then show ?case by simp
next
  case (Cons m ms)
  show ?case
  proof (cases "m_kind m = Sep")
    case False
    with Cons.IH [OF Cons.prems] show ?thesis by auto
  next
    case True
    consider "p < m_pos m" | "m_pos m \<le> p" "p < m_pos m + m_len m" | "m_pos m + m_len m \<le> p"
      by linarith
    then show ?thesis
    proof cases
      case 1
      with True Cons.prems(1) show ?thesis by auto
    next
      case 2
      with True show ?thesis by (auto simp: is_sep_def)
    next
      case 3
      from Cons.IH [OF this Cons.prems(2)] True show ?thesis by auto
    qed
  qed
qed

lemma no_overlap_sep:
  assumes "markers_from input start ms" and "m \<in> set ms" and "m' \<in> set ms"
    and "m_pos m' \<le> m_pos m" and "m_pos m < m_pos m' + m_len m'"
  shows "m = m'"
proof -
  have gen: "sorted_wrt (\<lambda>a b. m_pos a + m_len a \<le> m_pos b) ms \<Longrightarrow>
      \<forall>x \<in> set ms. 0 < m_len x \<Longrightarrow> m \<in> set ms \<Longrightarrow> m' \<in> set ms \<Longrightarrow> m = m'"
    using assms(4,5) by (induction ms) fastforce+
  then show ?thesis using assms(1-3) by (auto simp: markers_from_def marker_ok_def)
qed

lemma hazard_marker_in_segment:
  assumes "scan_markers input = Some ms" and "utf8_wf input"
    and "m \<in> set ms" and "m_kind m = Hazard h"
  shows "\<exists>(s, e) \<in> set (ranges_from (length input) 0 ms).
           s \<le> m_pos m \<and> m_pos m < e \<and> h \<in> set (segment_hazards ms s e)"
proof -
  from assms have mf: "markers_from input 0 ms" by (simp add: scan_markers_from)
  with assms(3) have "m_pos m < length input" by (auto simp: markers_from_def marker_ok_def)
  from ranges_from_cover [OF le0 this] consider
    m' where "m' \<in> set ms" "is_sep m'" "m_pos m' \<le> m_pos m" "m_pos m < m_pos m' + m_len m'"
    | s e where "(s, e) \<in> set (ranges_from (length input) 0 ms)" "s \<le> m_pos m" "m_pos m < e"
    by blast
  then show ?thesis
  proof cases
    case 1
    then have "m = m'" using no_overlap_sep [OF mf assms(3)] by blast
    with 1 assms(4) show ?thesis by (simp add: is_sep_def)
  next
    case 2
    then have "h \<in> set (segment_hazards ms s e)"
      using assms(3,4) by (force simp: segment_hazards_def List.map_filter_def)
    with 2 show ?thesis by blast
  qed
qed

section \<open>Wrapper stripping\<close>

text \<open>The outcome of a run of the loop that stops with a program.\<close>

definition strip_post ::
    "string list \<Rightarrow> string list \<Rightarrow> string \<times> string list \<times> string list \<Rightarrow> bool" where
  "strip_post ws wrappers = (\<lambda>(p, args, out).
     suffix (p # args) ws \<and> p \<notin> set WRAPPERS \<and> (CHR ''='' \<in> set p \<longrightarrow> prefix ''-'' p)
     \<and> prefix wrappers out \<and> length out < MAX_WRAPPER_DEPTH \<and> set out \<subseteq> set WRAPPERS)"

lemma strip_post_step:
  "strip_post rest' (wrappers @ ws) r \<Longrightarrow> suffix rest' rest \<Longrightarrow> strip_post (w # rest) wrappers r"
  unfolding strip_post_def
  by (auto intro: suffix_ConsI suffix_order.trans append_prefixD)

lemma strip_loop_cases:
  assumes "strip_loop ws wrappers = Inr r"
  obtains head rest where "ws = head # rest" "\<not> MAX_WRAPPER_DEPTH \<le> length wrappers"
      "CHR ''='' \<in> set head \<and> \<not> prefix ''-'' head" "strip_loop rest wrappers = Inr r"
  | head rest where "ws = head # rest" "\<not> MAX_WRAPPER_DEPTH \<le> length wrappers"
      "\<not> (CHR ''='' \<in> set head \<and> \<not> prefix ''-'' head)" "head = ''env''"
      "strip_loop rest (wrappers @ [head]) = Inr r"
  | head rest where "ws = head # rest" "\<not> MAX_WRAPPER_DEPTH \<le> length wrappers"
      "\<not> (CHR ''='' \<in> set head \<and> \<not> prefix ''-'' head)" "head \<noteq> ''env''"
      "head = ''sudo'' \<or> head = ''doas''"
      "strip_loop (skip_sudo_opts rest) (wrappers @ [head]) = Inr r"
  | head rest where "ws = head # rest" "\<not> MAX_WRAPPER_DEPTH \<le> length wrappers"
      "\<not> (CHR ''='' \<in> set head \<and> \<not> prefix ''-'' head)" "head \<noteq> ''env''"
      "\<not> (head = ''sudo'' \<or> head = ''doas'')" "head \<in> set WRAPPERS"
      "strip_loop (skip_wrapper_opts rest) (wrappers @ [head]) = Inr r"
  | head rest where "ws = head # rest" "\<not> MAX_WRAPPER_DEPTH \<le> length wrappers"
      "\<not> (CHR ''='' \<in> set head \<and> \<not> prefix ''-'' head)" "head \<notin> set WRAPPERS"
      "r = (head, rest, wrappers)"
proof -
  from assms obtain head rest where ws: "ws = head # rest"
    by (cases ws) (auto simp: strip_loop.simps [of "[]"] split: if_splits)
  note eq = assms [unfolded ws, unfolded strip_loop.simps [of "head # rest"] list.case]
  from eq have nd: "\<not> MAX_WRAPPER_DEPTH \<le> length wrappers" by (auto split: if_splits)
  note eq' = eq [unfolded if_not_P [OF nd]]
  show thesis
  proof (cases "CHR ''='' \<in> set head \<and> \<not> prefix ''-'' head")
    case True
    with eq' show thesis by (intro that(1) [OF ws nd]) simp_all
  next
    case False
    note eq'' = eq' [unfolded if_not_P [OF False]]
    consider "head = ''env''" | "head \<noteq> ''env''" "head = ''sudo'' \<or> head = ''doas''"
      | "head \<noteq> ''env''" "\<not> (head = ''sudo'' \<or> head = ''doas'')" by blast
    then show thesis
    proof cases
      case 1
      with eq'' show thesis by (intro that(2) [OF ws nd False]) simp_all
    next
      case 2
      from eq'' [unfolded if_not_P [OF 2(1)] if_P [OF 2(2)]]
      show thesis by (rule that(3) [OF ws nd False 2])
    next
      case 3
      note eq3 = eq'' [unfolded if_not_P [OF 3(1)] if_not_P [OF 3(2)]]
      show thesis
      proof (cases "head \<in> set WRAPPERS")
        case True
        with eq3 show thesis by (intro that(4) [OF ws nd False 3]) simp_all
      next
        case wr: False
        with eq3 show thesis by (intro that(5) [OF ws nd False]) simp_all
      qed
    qed
  qed
qed

lemma wrapper_names: "''env'' \<in> set WRAPPERS" "''sudo'' \<in> set WRAPPERS" "''doas'' \<in> set WRAPPERS"
  by (simp_all add: WRAPPERS_def)

lemma strip_loop_Inr:
  "strip_loop ws wrappers = Inr r \<Longrightarrow> set wrappers \<subseteq> set WRAPPERS \<Longrightarrow> strip_post ws wrappers r"
proof (induction ws wrappers rule: strip_loop.induct)
  case (1 ws wrappers)
  note sub = "1.prems"(2)
  from "1.prems"(1) show ?case
  proof (cases rule: strip_loop_cases)
    case (1 head rest)
    from "1.IH"(1) [OF 1(2,1,3,4) sub]
    show ?thesis using strip_post_step [of rest wrappers "[]" r rest head] 1 by simp
  next
    case (2 head rest)
    then have "set (wrappers @ [head]) \<subseteq> set WRAPPERS" using sub wrapper_names by simp
    from "1.IH"(2) [OF 2(2,1,3,4,5) this] show ?thesis using 2 by (auto intro: strip_post_step)
  next
    case (3 head rest)
    then have "set (wrappers @ [head]) \<subseteq> set WRAPPERS" using sub wrapper_names by auto
    from "1.IH"(3) [OF 3(2,1,3,4,5,6) this]
    show ?thesis using 3(1) skip_sudo_opts_suffix by (auto intro: strip_post_step)
  next
    case (4 head rest)
    then have "set (wrappers @ [head]) \<subseteq> set WRAPPERS" using sub by simp
    from "1.IH"(4) [OF 4(2,1,3,4,5,6,7) this]
    show ?thesis using 4(1) skip_wrapper_opts_suffix by (auto intro: strip_post_step)
  next
    case (5 head rest)
    then show ?thesis using sub by (auto simp: strip_post_def)
  qed
qed

section \<open>Commands\<close>

lemma build_command_program: "build_command words hz = Some cmd \<Longrightarrow> sc_program cmd \<noteq> []"
  by (auto simp: build_command_def EMPTY_PROGRAM_def Let_def split: if_splits sum.splits prod.splits)

lemma build_command_hazards: "build_command words hz = Some cmd \<Longrightarrow> set hz \<subseteq> set (sc_hazards cmd)"
  by (auto simp: build_command_def Let_def split: if_splits sum.splits prod.splits)

lemma build_command_hazard_kept: "h \<in> set hz \<Longrightarrow> \<exists>cmd. build_command words hz = Some cmd"
  by (auto simp: build_command_def Let_def split: if_splits sum.splits prod.splits)

lemma build_segments_mem:
  "build_segments split input ms rs = Inr cmds \<Longrightarrow> (s, e) \<in> set rs \<Longrightarrow>
   slice input s e = Some text \<Longrightarrow> split text = Inr words \<Longrightarrow> words \<noteq> [] \<Longrightarrow>
   build_command words (segment_hazards ms s e) = Some cmd \<Longrightarrow> cmd \<in> set cmds"
  by (induction split input ms rs arbitrary: cmds rule: build_segments.induct)
     (auto split: option.splits sum.splits if_splits)

lemma build_segments_from:
  "build_segments split input ms rs = Inr cmds \<Longrightarrow> cmd \<in> set cmds \<Longrightarrow>
   \<exists>s e text words. (s, e) \<in> set rs \<and> slice input s e = Some text \<and> split text = Inr words
     \<and> words \<noteq> [] \<and> build_command words (segment_hazards ms s e) = Some cmd"
  by (induction split input ms rs arbitrary: cmds rule: build_segments.induct)
     (fastforce split: option.splits sum.splits if_splits)+

lemma build_segments_slices:
  "build_segments split input ms rs = Inr cmds \<Longrightarrow> (s, e) \<in> set rs \<Longrightarrow>
   \<exists>text words. slice input s e = Some text \<and> split text = Inr words"
  by (induction split input ms rs arbitrary: cmds rule: build_segments.induct)
     (auto split: option.splits sum.splits if_splits)

lemma build_segments_no_panic:
  "(\<And>s e. (s, e) \<in> set rs \<Longrightarrow> slice input s e \<noteq> None) \<Longrightarrow>
   build_segments split input ms rs \<noteq> Inl Panic"
proof (induction rs)
  case (Cons r rs)
  obtain s e where r: "r = (s, e)" by (cases r)
  with Cons.prems obtain seg where "slice input s e = Some seg" by fastforce
  with Cons r show ?case by (auto split: option.splits sum.splits)
qed simp

lemma normalize_InrE:
  assumes "normalize split input = Inr out"
  obtains ms where "scan_markers input = Some ms"
    and "build_segments split input ms (ranges_from (length input) 0 ms) = Inr (no_commands out)"
    and "no_raw out = input"
  using assms by (auto simp: normalize_def split: option.splits sum.splits)

text \<open>
  Normalisation never panics: on every UTF-8 input, whatever the word splitter answers, no
  string slice of the scan or of the segment loop falls outside a character boundary.
\<close>

lemma normalize_no_panic:
  assumes "utf8_wf input"
  shows "normalize split input \<noteq> Inl Panic"
proof -
  from scan_from_total [OF assms] obtain ms where ms: "scan_markers input = Some ms"
    unfolding scan_markers_def by blast
  have "slice input s e \<noteq> None" if "(s, e) \<in> set (ranges_from (length input) 0 ms)" for s e
    using ranges_from_bounds [OF scan_markers_from [OF ms assms] _ that] assms
    by (simp add: slice_def)
  from build_segments_no_panic [OF this] ms show ?thesis
    by (auto simp: normalize_def split: sum.splits)
qed

text \<open>
  No hazard is lost: every structural hazard that the scan marks belongs to a segment, and
  when normalisation succeeds the command built from that segment carries the hazard, unless
  the word splitter found no word at all in the segment.
\<close>

lemma normalize_keeps_hazards:
  assumes "utf8_wf input" and "normalize split input = Inr out"
    and "scan_markers input = Some ms" and "m \<in> set ms" and "m_kind m = Hazard h"
  shows "\<exists>s e seg. (s, e) \<in> set (ranges_from (length input) 0 ms) \<and> slice input s e = Some seg
    \<and> s \<le> m_pos m \<and> m_pos m < e \<and> (split seg = Inr [] \<or> (\<exists>cmd \<in> set (no_commands out). h \<in> set (sc_hazards cmd)))"
proof -
  from hazard_marker_in_segment [OF assms(3,1,4,5)] obtain s e where
    se: "(s, e) \<in> set (ranges_from (length input) 0 ms)" "s \<le> m_pos m" "m_pos m < e"
      "h \<in> set (segment_hazards ms s e)" by blast
  from assms(2,3) have
    bs: "build_segments split input ms (ranges_from (length input) 0 ms) = Inr (no_commands out)"
    by (auto elim: normalize_InrE)
  from build_segments_slices [OF bs se(1)] obtain seg words where
    sl: "slice input s e = Some seg" "split seg = Inr words" by blast
  from build_command_hazard_kept [OF se(4)] obtain cmd where
    cmd: "build_command words (segment_hazards ms s e) = Some cmd" by blast
  show ?thesis
  proof (cases "words = []")
    case True
    with sl se show ?thesis by blast
  next
    case False
    from build_segments_mem [OF bs se(1) sl False cmd] build_command_hazards [OF cmd] se sl
    show ?thesis by blast
  qed
qed

text \<open>
  What becomes of a segment: it is dropped when it has no word, or when the program behind its
  wrappers has an empty base name and there is no hazard; otherwise its command is adjudicated.
\<close>

definition no_program :: "string list \<Rightarrow> bool" where
  "no_program words \<longleftrightarrow> (case strip_wrappers words of Inr (p, _, _) \<Rightarrow> program_basename p = [] | Inl _ \<Rightarrow> False)"

lemma build_command_None: "build_command words hz = None \<longleftrightarrow> hz = [] \<and> no_program words"
  by (auto simp: build_command_def no_program_def Let_def split: sum.splits)

lemma segment_adjudicated:
  assumes "build_segments split input ms rs = Inr cmds" and "(s, e) \<in> set rs"
  shows "\<exists>seg words. slice input s e = Some seg \<and> split seg = Inr words
    \<and> (words = [] \<or> segment_hazards ms s e = [] \<and> no_program words
       \<or> (\<exists>cmd \<in> set cmds. build_command words (segment_hazards ms s e) = Some cmd))"
proof -
  from build_segments_slices [OF assms] obtain seg words where
    sl: "slice input s e = Some seg" "split seg = Inr words" by blast
  show ?thesis
  proof (cases "build_command words (segment_hazards ms s e)")
    case None
    with sl show ?thesis by (auto simp: build_command_None)
  next
    case (Some cmd)
    with build_segments_mem [OF assms sl _ Some] sl show ?thesis by blast
  qed
qed

text \<open>
  The program a command is judged by is never empty: a segment whose program has an empty
  base name is dropped, or kept under a sentinel name when it carries a hazard.
\<close>

lemma normalize_programs:
  assumes "normalize split input = Inr out" and "cmd \<in> set (no_commands out)"
  shows "sc_program cmd \<noteq> []"
  using assms build_segments_from build_command_program by (metis normalize_InrE)

section \<open>Properties\<close>

text \<open>
  C40. No text escapes adjudication unseen: when a UTF-8 line is normalised, every byte of it lies
  in a separator marker or in a segment that the word splitter read, and the command built from
  the words of that segment, with the hazards marked in it, is among the commands that are judged;
  the only exceptions are a segment without any word, and a segment without a hazard whose program
  has an empty base name, as in \<open>ls ; /\<close>: those two are dropped.
\<close>

theorem segments_cover_input:
  assumes "utf8_wf input" and "normalize split input = Inr out" and "p < length input"
  shows "\<exists>ms. scan_markers input = Some ms
    \<and> ((\<exists>m \<in> set ms. is_sep m \<and> m_pos m \<le> p \<and> p < m_pos m + m_len m)
      \<or> (\<exists>(s, e) \<in> set (ranges_from (length input) 0 ms). s \<le> p \<and> p < e
          \<and> (\<exists>seg words. slice input s e = Some seg \<and> split seg = Inr words
              \<and> (words = [] \<or> segment_hazards ms s e = [] \<and> no_program words
                 \<or> (\<exists>cmd \<in> set (no_commands out). build_command words (segment_hazards ms s e) = Some cmd)))))"
proof -
  from assms(2) obtain ms where ms: "scan_markers input = Some ms"
    and bs: "build_segments split input ms (ranges_from (length input) 0 ms) = Inr (no_commands out)"
    by (rule normalize_InrE)
  show ?thesis
    using ranges_from_cover [OF le0 assms(3), of ms] ms segment_adjudicated [OF bs] by fastforce
qed

text \<open>
  Control characters are marked whatever the quoting: a carriage return is a separator and
  any other control character a hazard, at its own position, in every quote state, as long as no
  backslash precedes it.
\<close>

theorem control_char_marked:
  assumes "utf8_wf (pre @ c # post)" and "scan_markers (pre @ c # post) = Some ms"
    and "CHR 0x5C \<notin> set pre" and "tty_char c"
  shows "\<lparr>m_pos = length pre, m_len = 1,
           m_kind = (if byte_of c = 0x0D then Sep else Hazard ControlChar)\<rparr> \<in> set ms"
  using scan_from_tty [of pre c post 0 False False ms] assms by (simp add: scan_markers_def)

text \<open>
  Wrapper stripping is exact when it succeeds: it terminates on every word list, the result
  is a suffix of the words, the program is neither a wrapper nor an environment assignment, and
  the wrappers recorded for the audit are wrappers, fewer than the nesting limit.
\<close>

theorem strip_wrappers_spec:
  assumes "strip_wrappers words = Inr (p, args, ws)"
  shows "(\<exists>skipped. words = skipped @ p # args) \<and> p \<notin> set WRAPPERS
    \<and> (CHR ''='' \<in> set p \<longrightarrow> prefix ''-'' p) \<and> set ws \<subseteq> set WRAPPERS \<and> length ws < 8"
  using strip_loop_Inr [of words "[]" "(p, args, ws)"] assms
  by (auto simp: strip_wrappers_def strip_post_def suffix_def MAX_WRAPPER_DEPTH_def)

section \<open>Witnesses\<close>

text \<open>
  A splitter on spaces, to instantiate the parameter at concrete inputs, and an input with a
  wrapper, a three-byte character, a separator and a redirection.
\<close>

definition space_split :: "string \<Rightarrow> string + string list" where
  "space_split s = Inr (filter (\<lambda>w. w \<noteq> []) (split_on (\<lambda>c. c = CHR '' '') s))"

definition sample_input :: string where
  "sample_input = ''sudo -u app ls'' @ [CHR 0xE9, CHR 0x94, CHR 0x99] @ ''&& cat > f''"

definition sample_markers :: "marker list" where
  "sample_markers = [\<lparr>m_pos = 17, m_len = 2, m_kind = Sep\<rparr>,
     \<lparr>m_pos = 24, m_len = 1, m_kind = Hazard Redirection\<rparr>]"

definition sample_out :: normalize_outcome where
  "sample_out =
     \<lparr>no_commands =
        [\<lparr>sc_program = ''ls'' @ [CHR 0xE9, CHR 0x94, CHR 0x99], sc_args = [],
          sc_wrappers = [''sudo''], sc_hazards = []\<rparr>,
         \<lparr>sc_program = ''cat'', sc_args = [''>'', ''f''], sc_wrappers = [],
          sc_hazards = [Redirection]\<rparr>],
      no_raw = sample_input\<rparr>"

lemma sample_wf: "utf8_wf sample_input"
  by code_simp

lemma sample_scan: "scan_markers sample_input = Some sample_markers"
  by code_simp

lemma sample_normalize: "normalize space_split sample_input = Inr sample_out"
  by code_simp

theorem segments_cover_input_witness:
  "\<exists>ms. scan_markers sample_input = Some ms
    \<and> ((\<exists>m \<in> set ms. is_sep m \<and> m_pos m \<le> 20 \<and> 20 < m_pos m + m_len m)
      \<or> (\<exists>(s, e) \<in> set (ranges_from (length sample_input) 0 ms). s \<le> 20 \<and> 20 < e
          \<and> (\<exists>seg words. slice sample_input s e = Some seg \<and> space_split seg = Inr words
              \<and> (words = [] \<or> segment_hazards ms s e = [] \<and> no_program words
                 \<or> (\<exists>cmd \<in> set (no_commands sample_out). build_command words (segment_hazards ms s e) = Some cmd)))))"
  by (rule segments_cover_input [OF sample_wf sample_normalize]) (simp add: sample_input_def)

section \<open>Findings\<close>

text \<open>
  A backslash hides the control character that follows it from the scan: the terminal still
  interprets it, but the input is judged as one harmless command.
\<close>

theorem escaped_control_char_unmarked:
  "scan_markers (''ls '' @ [CHR 0x5C, CHR 0x15] @ ''rm -rf /'') = Some []"
  by code_simp

text \<open>
  \<open>env\<close> is stripped without its options, durations with a unit and long options with a separate
  value are not skipped, so an option, a duration or a user name becomes the program the rules
  see instead of the command that runs.
\<close>

theorem wrapper_options_become_program:
  "strip_wrappers [''env'', ''-i'', ''rm'', ''-rf'', ''/''] = Inr (''-i'', [''rm'', ''-rf'', ''/''], [''env''])
   \<and> strip_wrappers [''timeout'', ''30s'', ''rm'', ''-rf'', ''/''] = Inr (''30s'', [''rm'', ''-rf'', ''/''], [''timeout''])
   \<and> strip_wrappers [''sudo'', ''--user'', ''root'', ''rm''] = Inr (''root'', [''rm''], [''sudo''])"
  by code_simp

end
