(* ===== verification/Command_Effect.thy ===== *)
theory Command_Effect
  imports Prelude
begin

text \<open>
  The three-valued verdict of the command engine (\<open>clum-command-kb/src/effect.rs\<close>). The
  derived \<open>Ord\<close> of the Rust enum orders the constructors as declared; the instance below is
  that order, so \<open>max\<close> is \<open>Effect::max\<close> and aggregation by \<open>max\<close> takes the strictest verdict.
\<close>

datatype effect = Allow | Ask | Deny

definition effect_default :: effect where
  "effect_default = Ask"

fun effect_rank :: "effect \<Rightarrow> nat" where
  "effect_rank Allow = 0"
| "effect_rank Ask = 1"
| "effect_rank Deny = 2"

fun effect_as_str :: "effect \<Rightarrow> string" where
  "effect_as_str Allow = ''allow''"
| "effect_as_str Ask = ''ask''"
| "effect_as_str Deny = ''deny''"

instantiation effect :: linorder
begin

definition less_eq_effect :: "effect \<Rightarrow> effect \<Rightarrow> bool" where
  "less_eq_effect a b \<longleftrightarrow> effect_rank a \<le> effect_rank b"

definition less_effect :: "effect \<Rightarrow> effect \<Rightarrow> bool" where
  "less_effect a b \<longleftrightarrow> effect_rank a < effect_rank b"

instance
proof
  fix x y z :: effect
  show "(x < y) = (x \<le> y \<and> \<not> y \<le> x)" by (auto simp: less_eq_effect_def less_effect_def)
  show "x \<le> x" by (simp add: less_eq_effect_def)
  show "x \<le> y \<Longrightarrow> y \<le> z \<Longrightarrow> x \<le> z" by (simp add: less_eq_effect_def)
  show "x \<le> y \<Longrightarrow> y \<le> x \<Longrightarrow> x = y" by (cases x; cases y) (simp_all add: less_eq_effect_def)
  show "x \<le> y \<or> y \<le> x" by (auto simp: less_eq_effect_def)
qed

end

instantiation effect :: order_bot
begin

definition bot_effect :: effect where
  "bot_effect = Allow"

instance
  by standard (simp add: bot_effect_def less_eq_effect_def)

end

lemma Allow_least [simp]: "Allow \<le> e"
  using bot_least [of e] by (simp add: bot_effect_def)

lemma le_Allow_iff [simp]: "e \<le> Allow \<longleftrightarrow> e = Allow"
  by (cases e) (auto simp: less_eq_effect_def)

lemma Deny_greatest [simp]: "e \<le> Deny"
  by (cases e) (auto simp: less_eq_effect_def)

lemma Deny_le_iff [simp]: "Deny \<le> e \<longleftrightarrow> e = Deny"
  by (cases e) (auto simp: less_eq_effect_def)

lemma Ask_le_iff: "Ask \<le> e \<longleftrightarrow> e \<noteq> Allow"
  by (cases e) (auto simp: less_eq_effect_def)

lemma max_Allow [simp]: "max Allow e = e" "max e Allow = e"
  by (simp_all add: max_def)

lemma not_less_Allow [simp]: "\<not> e < Allow"
  by (cases e) (auto simp: less_effect_def)

section \<open>Strictest-wins aggregation\<close>

text \<open>
  Several parts of the program scan a list of verdicts and keep the first strictest one: the
  segments of a compound command, the host groups of a batch call. The contract is stated once:
  an element replaces the current best only when it is strictly more severe.
\<close>

locale strictest =
  fixes severity :: "'a \<Rightarrow> 'b::linorder"
begin

fun pick :: "'a option \<Rightarrow> 'a list \<Rightarrow> 'a option" where
  "pick best [] = best"
| "pick best (x # xs) =
     pick (case best of None \<Rightarrow> Some x
           | Some p \<Rightarrow> if severity p < severity x then Some x else Some p) xs"

lemma pick_from:
  "pick (Some p) xs = Some r \<Longrightarrow>
     r \<in> insert p (set xs) \<and> severity p \<le> severity r \<and> (\<forall>x \<in> set xs. severity x \<le> severity r)"
proof (induction xs arbitrary: p)
  case Nil
  then show ?case by simp
next
  case (Cons x xs)
  then show ?case by (fastforce split: if_splits)
qed

lemma pick_Some_ex: "\<exists>r. pick (Some p) xs = Some r"
  by (induction xs arbitrary: p) auto

lemma pick_None_iff: "pick None xs = None \<longleftrightarrow> xs = []"
  using pick_Some_ex by (cases xs) auto

lemma pick_max:
  assumes "pick None xs = Some r"
  shows "r \<in> set xs" and "\<And>x. x \<in> set xs \<Longrightarrow> severity x \<le> severity r"
proof -
  from assms obtain y ys where xs: "xs = y # ys" by (cases xs) auto
  with assms have "pick (Some y) ys = Some r" by simp
  from pick_from [OF this] xs
  show "r \<in> set xs" and "\<And>x. x \<in> set xs \<Longrightarrow> severity x \<le> severity r" by auto
qed

end

interpretation strictest_effect: strictest "id :: effect \<Rightarrow> effect" .

end
