(* ===== verification/Command_Rules.thy ===== *)
theory Command_Rules
  imports Command_Effect "HOL-Library.Multiset"
begin

text \<open>
  The user rules of the command engine (\<open>clum-command-kb/src/rules.rs\<close>): loading with
  duplicate detection and regex compilation, and first-match evaluation.

  The crates \<open>toml\<close> and \<open>regex\<close> are parameters: \<open>parse\<close> turns the text into the raw rules,
  \<open>compile\<close> a pattern into a matcher or an error. A compiled regex is its \<open>is_match\<close> predicate.
\<close>

record rule =
  r_id :: string
  r_priority :: int
  r_tool :: "string list"
  r_program :: "string list"
  r_argv_regex :: "string option"
  r_compiled_regex :: "(string \<Rightarrow> bool) option"
  r_host_group :: "string list"
  r_caller_group :: "string list"
  r_action :: effect
  r_reason :: "string option"

record rule_set =
  rs_schema_version :: nat
  rs_rule :: "rule list"

definition rule_set_default :: rule_set where
  "rule_set_default = \<lparr>rs_schema_version = 0, rs_rule = []\<rparr>"

datatype rules_error = TomlError string | DuplicateRuleId string | InvalidRegex string string

type_synonym regex_compiler = "string \<Rightarrow> string + (string \<Rightarrow> bool)"

section \<open>Loading\<close>

text \<open>The loop over the parsed rules; \<open>seen\<close> is the set of identifiers met so far.\<close>

fun prepare_rules :: "regex_compiler \<Rightarrow> string list \<Rightarrow> rule list \<Rightarrow> rules_error + rule list" where
  "prepare_rules compile seen [] = Inr []"
| "prepare_rules compile seen (r # rs) =
     (if r_id r \<in> set seen then Inl (DuplicateRuleId (r_id r))
      else case (case r_argv_regex r of
                   None \<Rightarrow> Inr r
                 | Some pat \<Rightarrow>
                     (case compile pat of Inl _ \<Rightarrow> Inl (InvalidRegex (r_id r) pat)
                      | Inr re \<Rightarrow> Inr (r\<lparr>r_compiled_regex := Some re\<rparr>))) of
             Inl e \<Rightarrow> Inl e
           | Inr r' \<Rightarrow>
               (case prepare_rules compile (r_id r # seen) rs of
                  Inl e \<Rightarrow> Inl e
                | Inr rs' \<Rightarrow> Inr (r' # rs')))"

definition from_toml_str ::
    "(string \<Rightarrow> string + rule_set) \<Rightarrow> regex_compiler \<Rightarrow> string \<Rightarrow> rules_error + rule_set" where
  "from_toml_str parse compile source =
     (case parse source of
        Inl e \<Rightarrow> Inl (TomlError e)
      | Inr rs \<Rightarrow>
          (case prepare_rules compile [] (rs_rule rs) of
             Inl e \<Rightarrow> Inl e
           | Inr rules \<Rightarrow> Inr (rs\<lparr>rs_rule := sort_key r_priority rules\<rparr>)))"

section \<open>Matching\<close>

definition joined_command :: "string \<Rightarrow> string list \<Rightarrow> string" where
  "joined_command program args = (if args = [] then program else program @ '' '' @ join '' '' args)"

text \<open>The tests of one iteration of the loop of \<open>match_rule\<close>: \<open>False\<close> is a \<open>continue\<close>.\<close>

definition rule_applies ::
    "string \<Rightarrow> string \<Rightarrow> string \<Rightarrow> string option \<Rightarrow> string option \<Rightarrow> rule \<Rightarrow> bool" where
  "rule_applies tool program joined caller_group host_group r \<longleftrightarrow>
     \<not> (r_tool r \<noteq> [] \<and> tool \<notin> set (r_tool r))
     \<and> \<not> (r_program r \<noteq> [] \<and> program \<notin> set (r_program r))
     \<and> (case host_group of
          Some hg \<Rightarrow> \<not> (r_host_group r \<noteq> [] \<and> hg \<notin> set (r_host_group r))
        | None \<Rightarrow> \<not> (r_host_group r \<noteq> [] \<and> r_action r = Allow))
     \<and> \<not> (r_caller_group r \<noteq> [] \<and>
           \<not> (case caller_group of Some cg \<Rightarrow> cg \<in> set (r_caller_group r) | None \<Rightarrow> False))
     \<and> (case r_compiled_regex r of Some re \<Rightarrow> re joined | None \<Rightarrow> True)"

definition match_rule ::
    "rule_set \<Rightarrow> string \<Rightarrow> string \<Rightarrow> string list \<Rightarrow> string option \<Rightarrow> string option \<Rightarrow> rule option" where
  "match_rule rs tool program args caller_group host_group =
     find (rule_applies tool program (joined_command program args) caller_group host_group)
       (rs_rule rs)"

section \<open>Lemmas\<close>

lemma prepare_rules_ids:
  "prepare_rules compile seen rs = Inr rs' \<Longrightarrow>
     map r_id rs' = map r_id rs \<and> distinct (map r_id rs) \<and> set (map r_id rs) \<inter> set seen = {}"
proof (induction compile seen rs arbitrary: rs' rule: prepare_rules.induct)
  case (2 compile seen r rs)
  then show ?case by (fastforce split: if_splits sum.splits option.splits)
qed simp

lemma prepare_rules_compiled:
  "prepare_rules compile seen rs = Inr rs' \<Longrightarrow> r' \<in> set rs' \<Longrightarrow> r_argv_regex r' = Some pat \<Longrightarrow>
     \<exists>re. compile pat = Inr re \<and> r_compiled_regex r' = Some re"
proof (induction compile seen rs arbitrary: rs' rule: prepare_rules.induct)
  case (2 compile seen r rs)
  then show ?case by (auto split: if_splits sum.splits option.splits)
qed simp

lemma prepare_rules_actions:
  "prepare_rules compile seen rs = Inr rs' \<Longrightarrow>
     map (\<lambda>r. (r_id r, r_priority r, r_action r)) rs' = map (\<lambda>r. (r_id r, r_priority r, r_action r)) rs"
proof (induction compile seen rs arbitrary: rs' rule: prepare_rules.induct)
  case (2 compile seen r rs)
  then show ?case by (auto split: if_splits sum.splits option.splits)
qed simp

lemma from_toml_str_InrE:
  assumes "from_toml_str parse compile source = Inr rs"
  obtains raw rules where "parse source = Inr raw" and "prepare_rules compile [] (rs_rule raw) = Inr rules"
    and "rs_rule rs = sort_key r_priority rules"
  using assms by (auto simp: from_toml_str_def split: sum.splits)

section \<open>Properties\<close>

text \<open>
  Loading fails closed: when a rule file loads, its identifiers are distinct, every rule of the
  file is present with its action and priority (none is silently dropped), and every rule that
  declares a regex carries the compiled regex of exactly that pattern.
\<close>

theorem from_toml_str_complete:
  assumes "from_toml_str parse compile source = Inr rs"
  shows "\<exists>raw. parse source = Inr raw \<and> distinct (map r_id (rs_rule raw))
    \<and> image_mset (\<lambda>r. (r_id r, r_priority r, r_action r)) (mset (rs_rule rs))
      = image_mset (\<lambda>r. (r_id r, r_priority r, r_action r)) (mset (rs_rule raw))
    \<and> (\<forall>r \<in> set (rs_rule rs). \<forall>pat. r_argv_regex r = Some pat \<longrightarrow>
          (\<exists>re. compile pat = Inr re \<and> r_compiled_regex r = Some re))"
proof -
  from assms obtain raw rules where raw: "parse source = Inr raw"
    and prep: "prepare_rules compile [] (rs_rule raw) = Inr rules"
    and rs: "rs_rule rs = sort_key r_priority rules" by (rule from_toml_str_InrE)
  have "image_mset (\<lambda>r. (r_id r, r_priority r, r_action r)) (mset (rs_rule rs))
      = mset (map (\<lambda>r. (r_id r, r_priority r, r_action r)) rules)" by (simp add: rs)
  also have "\<dots> = image_mset (\<lambda>r. (r_id r, r_priority r, r_action r)) (mset (rs_rule raw))"
    by (simp only: prepare_rules_actions [OF prep] mset_map)
  finally have eq: "image_mset (\<lambda>r. (r_id r, r_priority r, r_action r)) (mset (rs_rule rs))
      = image_mset (\<lambda>r. (r_id r, r_priority r, r_action r)) (mset (rs_rule raw))" .
  have "set (rs_rule rs) = set rules" by (simp add: rs)
  then have "\<forall>r \<in> set (rs_rule rs). \<forall>pat. r_argv_regex r = Some pat \<longrightarrow>
      (\<exists>re. compile pat = Inr re \<and> r_compiled_regex r = Some re)"
    using prepare_rules_compiled [OF prep] by blast
  with eq raw prepare_rules_ids [OF prep] show ?thesis by blast
qed

text \<open>
  The matched rule is the strongest applicable one: in a loaded rule set, \<open>match_rule\<close> returns
  a rule that applies and whose priority value is the least among all applicable rules, and it
  returns none only when no rule applies.
\<close>

theorem match_rule_least_priority:
  assumes "from_toml_str parse compile source = Inr rs"
  shows "case match_rule rs tool program args cg hg of
      None \<Rightarrow> \<not> (\<exists>r \<in> set (rs_rule rs). rule_applies tool program (joined_command program args) cg hg r)
    | Some r \<Rightarrow> r \<in> set (rs_rule rs) \<and> rule_applies tool program (joined_command program args) cg hg r
        \<and> (\<forall>r' \<in> set (rs_rule rs).
             rule_applies tool program (joined_command program args) cg hg r' \<longrightarrow> r_priority r \<le> r_priority r')"
proof (cases "match_rule rs tool program args cg hg")
  case None
  then have "\<not> (\<exists>r \<in> set (rs_rule rs). rule_applies tool program (joined_command program args) cg hg r)"
    by (auto simp: match_rule_def find_None_iff)
  with None show ?thesis by simp
next
  case (Some r)
  then obtain ys zs where split: "rs_rule rs = ys @ r # zs"
      "rule_applies tool program (joined_command program args) cg hg r"
      "\<And>y. y \<in> set ys \<Longrightarrow> \<not> rule_applies tool program (joined_command program args) cg hg y"
    unfolding match_rule_def by (rule find_SomeE) blast
  from assms have "sorted (map r_priority (rs_rule rs))" by (auto elim: from_toml_str_InrE)
  with split(1) have "\<forall>r' \<in> set zs. r_priority r \<le> r_priority r'" by (auto simp: sorted_append)
  with Some split show ?thesis by auto
qed

text \<open>
  A group-scoped allow never leaks onto a host whose group is unknown, while a deny rule scoped
  to a host group keeps applying there.
\<close>

theorem unknown_host_group_strict:
  "(match_rule rs tool program args cg None = Some r \<and> r_action r = Allow \<longrightarrow> r_host_group r = [])
   \<and> (r_action d \<noteq> Allow \<and> rule_applies tool program joined cg (Some hg) d \<longrightarrow>
        rule_applies tool program joined cg None d)"
  by (auto simp: match_rule_def find_Some_iff rule_applies_def)

section \<open>Witnesses\<close>

text \<open>
  Two rules out of priority order, a parser that returns them and a compiler that turns a
  pattern into a prefix test.
\<close>

definition deny_rm :: rule where
  "deny_rm = \<lparr>r_id = ''deny-rm'', r_priority = 5, r_tool = [], r_program = [''rm''],
     r_argv_regex = Some ''rm -rf'', r_compiled_regex = None, r_host_group = [''prod''],
     r_caller_group = [], r_action = Deny, r_reason = None\<rparr>"

definition allow_all :: rule where
  "allow_all = \<lparr>r_id = ''allow-all'', r_priority = 10, r_tool = [], r_program = [],
     r_argv_regex = None, r_compiled_regex = None, r_host_group = [], r_caller_group = [],
     r_action = Allow, r_reason = None\<rparr>"

definition sample_parse :: "string \<Rightarrow> string + rule_set" where
  "sample_parse source = Inr \<lparr>rs_schema_version = 1, rs_rule = [allow_all, deny_rm]\<rparr>"

definition sample_compile :: regex_compiler where
  "sample_compile pat = Inr (prefix pat)"

definition deny_rm_compiled :: rule where
  "deny_rm_compiled = deny_rm\<lparr>r_compiled_regex := Some (prefix ''rm -rf'')\<rparr>"

definition sample_rules :: rule_set where
  "sample_rules = \<lparr>rs_schema_version = 1, rs_rule = [deny_rm_compiled, allow_all]\<rparr>"

lemma sample_load: "from_toml_str sample_parse sample_compile [] = Inr sample_rules"
  by (simp add: from_toml_str_def sample_parse_def sample_compile_def sample_rules_def
      deny_rm_compiled_def deny_rm_def allow_all_def sort_key_def)

end
