(* ===== verification/Knowledge_Base.thy ===== *)
theory Knowledge_Base
  imports Command_Effect
begin

text \<open>
  The risk knowledge base of the command engine (\<open>clum-command-kb/src/kb.rs\<close>): entries,
  overlays, and the lookup of a program and its arguments. The crate \<open>toml\<close> is a parameter
  that returns a parsed \<open>kb_file\<close>; the maps are finite maps \<open>string \<rightharpoonup> command_entry\<close>.
\<close>

datatype subcommand_mode = Any | Sequence

record subcommand_entry =
  sub_name :: "string list"
  sub_mode :: subcommand_mode
  sub_effect :: effect
  sub_dangerous_flags :: "string list"
  sub_source :: "string option"
  sub_read_only :: "bool option"

record command_entry =
  ce_name :: string
  ce_effect :: "effect option"
  ce_arity :: "nat option"
  ce_subcommand :: "subcommand_entry list"
  ce_dangerous_flags :: "string list"
  ce_escalate_to :: "effect option"
  ce_source :: "string option"
  ce_read_only :: "bool option"

record kb_file =
  kf_schema_version :: nat
  kf_default_effect :: "effect option"
  kf_command :: "command_entry list"

record knowledge_base =
  kb_commands :: "string \<rightharpoonup> command_entry"
  kb_default_effect :: effect

definition basename :: "string \<Rightarrow> string" where
  "basename program = last_component program"

definition opt_or :: "'a option \<Rightarrow> 'a \<Rightarrow> 'a" where
  "opt_or x d = (case x of Some v \<Rightarrow> v | None \<Rightarrow> d)"

section \<open>Construction\<close>

fun insert_entries :: "(string \<rightharpoonup> command_entry) \<Rightarrow> command_entry list \<Rightarrow> (string \<rightharpoonup> command_entry)" where
  "insert_entries m [] = m"
| "insert_entries m (e # es) = insert_entries (m(ce_name e \<mapsto> e)) es"

definition kb_from_toml_str :: "(string \<Rightarrow> string + kb_file) \<Rightarrow> string \<Rightarrow> string + knowledge_base" where
  "kb_from_toml_str parse source =
     (case parse source of
        Inl e \<Rightarrow> Inl e
      | Inr file \<Rightarrow>
          Inr \<lparr>kb_commands = insert_entries Map.empty (kf_command file),
               kb_default_effect = opt_or (kf_default_effect file) effect_default\<rparr>)"

definition merge_overlay_str ::
    "(string \<Rightarrow> string + kb_file) \<Rightarrow> knowledge_base \<Rightarrow> string \<Rightarrow> string + knowledge_base" where
  "merge_overlay_str parse kb source =
     (case parse source of
        Inl e \<Rightarrow> Inl e
      | Inr file \<Rightarrow>
          Inr \<lparr>kb_commands = insert_entries (kb_commands kb) (kf_command file),
               kb_default_effect = opt_or (kf_default_effect file) (kb_default_effect kb)\<rparr>)"

text \<open>The builtin layers; the three embedded files are arguments.\<close>

definition builtin ::
    "(string \<Rightarrow> string + kb_file) \<Rightarrow> string \<Rightarrow> string \<Rightarrow> string \<Rightarrow> string + knowledge_base" where
  "builtin parse generated commands overlay =
     (case kb_from_toml_str parse generated of
        Inl e \<Rightarrow> Inl e
      | Inr kb \<Rightarrow>
          (case merge_overlay_str parse kb commands of
             Inl e \<Rightarrow> Inl e
           | Inr kb' \<Rightarrow> merge_overlay_str parse kb' overlay))"

section \<open>Lookup\<close>

text \<open>\<open>matched_len\<close> of one subcommand entry; \<open>None\<close> is the \<open>continue\<close> of the loop.\<close>

definition sub_match :: "subcommand_entry \<Rightarrow> string list \<Rightarrow> nat option" where
  "sub_match sub args =
     (case sub_mode sub of
        Sequence \<Rightarrow> if prefix (sub_name sub) args then Some (length (sub_name sub)) else None
      | Any \<Rightarrow> (case args of a # _ \<Rightarrow> if a \<in> set (sub_name sub) then Some 1 else None | [] \<Rightarrow> None))"

fun best_sub ::
    "(subcommand_entry \<times> nat) option \<Rightarrow> subcommand_entry list \<Rightarrow> string list
     \<Rightarrow> (subcommand_entry \<times> nat) option" where
  "best_sub best [] args = best"
| "best_sub best (sub # subs) args =
     best_sub (case sub_match sub args of
                 None \<Rightarrow> best
               | Some l \<Rightarrow> if (case best of Some (_, l') \<Rightarrow> l' < l | None \<Rightarrow> True)
                          then Some (sub, l) else best) subs args"

definition matches_flag :: "string list \<Rightarrow> string \<Rightarrow> bool" where
  "matches_flag declared arg \<longleftrightarrow>
     (\<exists>f \<in> set declared.
        f = arg \<or> prefix (f @ ''='') arg
        \<or> (length f = 2 \<and> prefix ''-'' f \<and> prefix ''-'' arg \<and> \<not> prefix ''--'' arg
           \<and> contains_str (tl arg) (tl f)))"

definition lookup_with_meta ::
    "knowledge_base \<Rightarrow> string \<Rightarrow> string list \<Rightarrow> effect \<times> string \<times> bool" where
  "lookup_with_meta kb program args =
     (case kb_commands kb (basename program) of
        None \<Rightarrow> (kb_default_effect kb, ''unknown'', False)
      | Some entry \<Rightarrow>
          let (effect, source, sub_flags, read_only) =
                (case best_sub None (ce_subcommand entry) args of
                   Some (sub, _) \<Rightarrow>
                     (sub_effect sub, ''kb:'' @ ce_name entry @ '' '' @ join '' '' (sub_name sub),
                      sub_dangerous_flags sub, opt_or (sub_read_only sub) False)
                 | None \<Rightarrow>
                     (opt_or (ce_effect entry) (kb_default_effect kb), ''kb:'' @ ce_name entry,
                      [], opt_or (ce_read_only entry) False));
              hit = find (\<lambda>a. matches_flag (ce_dangerous_flags entry) a \<or> matches_flag sub_flags a) args;
              (effect, source, read_only) =
                (case hit of
                   Some flag \<Rightarrow> (max effect (opt_or (ce_escalate_to entry) Ask),
                               source @ '' dangerous-flag('' @ flag @ '')'', False)
                 | None \<Rightarrow> (effect, source, read_only))
          in (effect, source, if effect \<noteq> Allow then False else read_only))"

definition lookup :: "knowledge_base \<Rightarrow> string \<Rightarrow> string list \<Rightarrow> effect \<times> string" where
  "lookup kb program args =
     (let (effect, source, _) = lookup_with_meta kb program args in (effect, source))"

section \<open>Lemmas\<close>

lemma insert_entries_lookup:
  "insert_entries m es k = (case find (\<lambda>e. ce_name e = k) (rev es) of Some e \<Rightarrow> Some e | None \<Rightarrow> m k)"
proof (induction es arbitrary: m)
  case (Cons e es)
  then show ?case
    by (auto simp: find_append split: option.splits)
qed simp

text \<open>The loop over the subcommands keeps the first entry of maximal matched length.\<close>

lemma best_sub_from:
  "best_sub (Some (s, l)) subs args = r \<Longrightarrow>
     \<exists>s' l'. r = Some (s', l') \<and> l \<le> l' \<and> ((s', l') = (s, l) \<or> s' \<in> set subs \<and> sub_match s' args = Some l')
       \<and> (\<forall>x \<in> set subs. \<forall>n. sub_match x args = Some n \<longrightarrow> n \<le> l')"
proof (induction subs arbitrary: s l)
  case (Cons x subs)
  show ?case
  proof (cases "sub_match x args")
    case None
    with Cons show ?thesis by fastforce
  next
    case (Some n)
    show ?thesis
    proof (cases "l < n")
      case True
      with Some Cons.prems have "best_sub (Some (x, n)) subs args = r" by simp
      from Cons.IH [OF this] True Some show ?thesis by auto
    next
      case False
      with Some Cons.prems have "best_sub (Some (s, l)) subs args = r" by simp
      from Cons.IH [OF this] False Some show ?thesis by auto
    qed
  qed
qed simp

lemma best_sub_longest:
  "best_sub None subs args = Some (s, l) \<Longrightarrow>
     s \<in> set subs \<and> sub_match s args = Some l
     \<and> (\<forall>x \<in> set subs. \<forall>n. sub_match x args = Some n \<longrightarrow> n \<le> l)"
proof (induction subs)
  case (Cons x subs)
  show ?case
  proof (cases "sub_match x args")
    case None
    with Cons show ?thesis by auto
  next
    case (Some n)
    with Cons.prems have "best_sub (Some (x, n)) subs args = Some (s, l)" by simp
    from best_sub_from [OF this] Some show ?thesis by auto
  qed
qed simp

lemma best_sub_None: "best_sub None subs args = None \<Longrightarrow> x \<in> set subs \<Longrightarrow> sub_match x args = None"
proof (induction subs)
  case (Cons y subs)
  have "sub_match y args = None"
  proof (rule ccontr)
    assume "sub_match y args \<noteq> None"
    then obtain n where "sub_match y args = Some n" by blast
    with Cons.prems(1) have "best_sub (Some (y, n)) subs args = None" by simp
    from best_sub_from [OF this] show False by simp
  qed
  with Cons show ?case by auto
qed simp

section \<open>The classification, by cases\<close>

text \<open>The entry and subcommand that decide a lookup: base effect, source, flags, read-only mark.\<close>

definition base_class ::
    "knowledge_base \<Rightarrow> command_entry \<Rightarrow> string list \<Rightarrow> effect \<times> string \<times> string list \<times> bool" where
  "base_class kb entry args =
     (case best_sub None (ce_subcommand entry) args of
        Some (sub, _) \<Rightarrow>
          (sub_effect sub, ''kb:'' @ ce_name entry @ '' '' @ join '' '' (sub_name sub),
           sub_dangerous_flags sub, opt_or (sub_read_only sub) False)
      | None \<Rightarrow>
          (opt_or (ce_effect entry) (kb_default_effect kb), ''kb:'' @ ce_name entry,
           [], opt_or (ce_read_only entry) False))"

definition flagged :: "command_entry \<Rightarrow> string list \<Rightarrow> string \<Rightarrow> bool" where
  "flagged entry sub_flags a \<longleftrightarrow> matches_flag (ce_dangerous_flags entry) a \<or> matches_flag sub_flags a"

lemma lookup_entry:
  assumes "kb_commands kb (basename program) = Some entry"
    and "base_class kb entry args = (e, src, flags, ro)"
  shows "lookup_with_meta kb program args =
    (case find (flagged entry flags) args of
       Some flag \<Rightarrow> (max e (opt_or (ce_escalate_to entry) Ask),
                    src @ '' dangerous-flag('' @ flag @ '')'', False)
     | None \<Rightarrow> (e, src, e = Allow \<and> ro))"
  using assms unfolding lookup_with_meta_def base_class_def flagged_def
  by (auto simp: Let_def split: option.splits prod.splits)

lemma lookup_read_only_allow: "lookup_with_meta kb p a = (e, src, True) \<Longrightarrow> e = Allow"
  by (auto simp: lookup_with_meta_def Let_def split: option.splits prod.splits if_splits)

section \<open>Properties\<close>

text \<open>
  A command is classified read-only only when the knowledge base has an entry for it, that
  entry (or the longest matching subcommand) is explicitly marked read-only, no argument matches
  a dangerous flag, and the resulting effect is allow.
\<close>

theorem read_only_is_explicit:
  assumes "lookup_with_meta kb program args = (e, src, True)"
  shows "\<exists>entry flags src'. kb_commands kb (basename program) = Some entry
    \<and> base_class kb entry args = (Allow, src', flags, True)
    \<and> (\<forall>a \<in> set args. \<not> flagged entry flags a) \<and> e = Allow"
proof -
  from assms obtain entry where entry: "kb_commands kb (basename program) = Some entry"
    by (cases "kb_commands kb (basename program)") (auto simp: lookup_with_meta_def)
  obtain e0 src0 flags ro where bc: "base_class kb entry args = (e0, src0, flags, ro)"
    by (cases "base_class kb entry args") auto
  from lookup_entry [OF entry bc] assms have "find (flagged entry flags) args = None" "e0 = Allow" ro "e = Allow"
    by (auto split: option.splits)
  with entry bc show ?thesis by (auto simp: find_None_iff)
qed

text \<open>
  A dangerous flag always escalates: if some argument matches a dangerous flag of the entry or
  of the matched subcommand, the effect is at least both the base effect and the escalation
  target (ask unless declared), and the command is not read-only.
\<close>

theorem dangerous_flag_escalates:
  assumes "kb_commands kb (basename program) = Some entry"
    and "base_class kb entry args = (e0, src0, flags, ro)"
    and "a \<in> set args" and "flagged entry flags a"
  shows "\<exists>e src. lookup_with_meta kb program args = (e, src, False)
    \<and> e0 \<le> e \<and> opt_or (ce_escalate_to entry) Ask \<le> e"
proof -
  from assms(3,4) obtain flag where "find (flagged entry flags) args = Some flag"
    by (cases "find (flagged entry flags) args") (auto simp: find_None_iff)
  with lookup_entry [OF assms(1,2)] show ?thesis by simp
qed

text \<open>
  Overlays replace whole entries and only declared defaults: after a merge, a program listed in
  the overlay is looked up in its last overlay entry, any other program is looked up as before,
  and an overlay that declares no default effect leaves the default unchanged.
\<close>

theorem merge_overlay_lookup:
  assumes "merge_overlay_str parse kb source = Inr kb'" and "parse source = Inr file"
  shows "kb_commands kb' p = (case find (\<lambda>e. ce_name e = p) (rev (kf_command file)) of
            Some e \<Rightarrow> Some e | None \<Rightarrow> kb_commands kb p)
    \<and> kb_default_effect kb' = (case kf_default_effect file of Some e \<Rightarrow> e | None \<Rightarrow> kb_default_effect kb)"
  using assms by (auto simp: merge_overlay_str_def insert_entries_lookup opt_or_def)

section \<open>Witnesses\<close>

definition git_entry :: command_entry where
  "git_entry = \<lparr>ce_name = ''git'', ce_effect = Some Ask, ce_arity = None,
     ce_subcommand = [\<lparr>sub_name = [''log''], sub_mode = Sequence, sub_effect = Allow,
        sub_dangerous_flags = [''--output''], sub_source = None, sub_read_only = Some True\<rparr>],
     ce_dangerous_flags = [''-f''], ce_escalate_to = Some Deny, ce_source = None,
     ce_read_only = None\<rparr>"

definition git_kb :: knowledge_base where
  "git_kb = \<lparr>kb_commands = [''git'' \<mapsto> git_entry], kb_default_effect = Ask\<rparr>"

lemma git_log: "lookup_with_meta git_kb ''/usr/bin/git'' [''log'', ''-n''] = (Allow, ''kb:git log'', True)"
  by code_simp

end
