(* ===== verification/Evaluate.thy ===== *)
theory Evaluate
  imports Normalize Command_Rules Knowledge_Base
begin

text \<open>
  The verdict on a command line (\<open>clum-command-kb/src/evaluate.rs\<close>): every segment of the
  normalised command is decided by the first matching rule, otherwise by the knowledge base;
  structural hazards escalate it to at least ask; the strictest segment decides the whole.
  \<open>None\<close> is a panic of the normalisation.
\<close>

record eval_context =
  ec_tool :: string
  ec_caller_group :: "string option"
  ec_host_group :: "string option"

record decision =
  d_effect :: effect
  d_source :: string
  d_reason :: string
  d_commands :: "string list"
  d_hazards :: "hazard list"
  d_read_only :: bool

text \<open>The derived \<open>Debug\<close> of the hazards and of a list of them.\<close>

fun hazard_name :: "hazard \<Rightarrow> string" where
  "hazard_name Redirection = ''Redirection''"
| "hazard_name CommandSubstitution = ''CommandSubstitution''"
| "hazard_name Backtick = ''Backtick''"
| "hazard_name Heredoc = ''Heredoc''"
| "hazard_name WrapperOverflow = ''WrapperOverflow''"
| "hazard_name ControlChar = ''ControlChar''"

definition debug_hazards :: "hazard list \<Rightarrow> string" where
  "debug_hazards hs = ''['' @ join '', '' (map hazard_name hs) @ '']''"

text \<open>The privilege check on the raw input.\<close>

definition elevation_sep :: "char \<Rightarrow> bool" where
  "elevation_sep c \<longleftrightarrow>
     \<not> ((CHR ''a'' \<le> c \<and> c \<le> CHR ''z'') \<or> (CHR ''A'' \<le> c \<and> c \<le> CHR ''Z'')
        \<or> (CHR ''0'' \<le> c \<and> c \<le> CHR ''9'') \<or> c = CHR ''_'' \<or> c = CHR ''-'' \<or> c = CHR ''/'')"

definition has_privilege_elevation :: "string \<Rightarrow> bool" where
  "has_privilege_elevation input \<longleftrightarrow>
     (\<exists>w \<in> set (split_on elevation_sep input).
        last_component w = ''sudo'' \<or> last_component w = ''doas'')"

definition describe :: "simple_command \<Rightarrow> string" where
  "describe cmd =
     (if sc_args cmd = [] then sc_program cmd
      else sc_program cmd @ '' '' @ join '' '' (sc_args cmd))"

text \<open>The decision on one segment: rule or knowledge base, then the hazard escalation.\<close>

definition base_decision ::
    "knowledge_base \<Rightarrow> rule_set \<Rightarrow> eval_context \<Rightarrow> simple_command \<Rightarrow> decision" where
  "base_decision kb rules ctx cmd =
     (case match_rule rules (ec_tool ctx) (sc_program cmd) (sc_args cmd)
             (ec_caller_group ctx) (ec_host_group ctx) of
        Some r \<Rightarrow>
          \<lparr>d_effect = r_action r, d_source = ''rule:'' @ r_id r,
           d_reason = (case r_reason r of Some x \<Rightarrow> x
                       | None \<Rightarrow> ''matched rule '' @ [CHR 0x27] @ r_id r @ [CHR 0x27]),
           d_commands = [], d_hazards = [], d_read_only = False\<rparr>
      | None \<Rightarrow>
          (let (effect, source, read_only) = lookup_with_meta kb (sc_program cmd) (sc_args cmd)
           in \<lparr>d_effect = effect, d_source = source,
               d_reason = ''knowledge base classification for '' @ [CHR 0x27] @ sc_program cmd @ [CHR 0x27],
               d_commands = [], d_hazards = [], d_read_only = read_only\<rparr>))"

definition segment_decision ::
    "knowledge_base \<Rightarrow> rule_set \<Rightarrow> eval_context \<Rightarrow> simple_command \<Rightarrow> decision" where
  "segment_decision kb rules ctx cmd =
     (let seg = base_decision kb rules ctx cmd in
      if sc_hazards cmd = [] then seg
      else let escalated = max (d_effect seg) Ask
           in seg\<lparr>d_reason := (if escalated \<noteq> d_effect seg
                               then d_reason seg @ ''; escalated to ask by structural hazard ''
                                    @ debug_hazards (sc_hazards cmd)
                               else d_reason seg),
                  d_effect := escalated, d_read_only := False\<rparr>)"

text \<open>The mutable variables of the loop over the segments, and the loop.\<close>

record eval_acc =
  ea_aggregate :: effect
  ea_worst_source :: string
  ea_worst_reason :: string
  ea_commands :: "string list"
  ea_hazards :: "hazard list"
  ea_read_only :: bool

definition eval_init :: eval_acc where
  "eval_init = \<lparr>ea_aggregate = Allow, ea_worst_source = [], ea_worst_reason = [],
     ea_commands = [], ea_hazards = [], ea_read_only = True\<rparr>"

definition eval_step ::
    "knowledge_base \<Rightarrow> rule_set \<Rightarrow> eval_context \<Rightarrow> eval_acc \<Rightarrow> simple_command \<Rightarrow> eval_acc" where
  "eval_step kb rules ctx acc cmd =
     (let seg = segment_decision kb rules ctx cmd;
          acc = acc\<lparr>ea_read_only := ea_read_only acc \<and> d_read_only seg,
                    ea_hazards := ea_hazards acc @ sc_hazards cmd,
                    ea_commands := ea_commands acc @ [describe cmd]\<rparr>
      in if ea_aggregate acc < d_effect seg
         then acc\<lparr>ea_aggregate := d_effect seg, ea_worst_source := d_source seg,
                  ea_worst_reason := d_reason seg\<rparr>
         else if ea_worst_source acc = []
         then acc\<lparr>ea_worst_source := d_source seg, ea_worst_reason := d_reason seg\<rparr>
         else acc)"

fun eval_loop ::
    "knowledge_base \<Rightarrow> rule_set \<Rightarrow> eval_context \<Rightarrow> eval_acc \<Rightarrow> simple_command list \<Rightarrow> eval_acc" where
  "eval_loop kb rules ctx acc [] = acc"
| "eval_loop kb rules ctx acc (cmd # cmds) =
     eval_loop kb rules ctx (eval_step kb rules ctx acc cmd) cmds"

definition ask_decision :: "string \<Rightarrow> string \<Rightarrow> string list \<Rightarrow> decision" where
  "ask_decision source reason commands =
     \<lparr>d_effect = Ask, d_source = source, d_reason = reason, d_commands = commands,
      d_hazards = [], d_read_only = False\<rparr>"

definition evaluate ::
    "(string \<Rightarrow> string + string list) \<Rightarrow> knowledge_base \<Rightarrow> rule_set \<Rightarrow> string \<Rightarrow> eval_context
     \<Rightarrow> decision option" where
  "evaluate split kb rules input ctx =
     (if trim input = [] then Some (ask_decision ''empty'' ''empty command'' [])
      else case normalize split input of
        Inl Panic \<Rightarrow> None
      | Inl (ShellParse e) \<Rightarrow>
          Some (ask_decision ''parse-error''
                 (''command could not be parsed (fail-closed): '' @ e) [input])
      | Inr outcome \<Rightarrow>
          if no_commands outcome = []
          then Some (ask_decision ''empty'' ''no executable command found'' [])
          else let acc = eval_loop kb rules ctx eval_init (no_commands outcome)
               in Some \<lparr>d_effect = ea_aggregate acc, d_source = ea_worst_source acc,
                        d_reason = ea_worst_reason acc, d_commands = ea_commands acc,
                        d_hazards = remdups_adj (sort_key hazard_name (ea_hazards acc)),
                        d_read_only = ea_read_only acc \<and> \<not> has_privilege_elevation input\<rparr>)"

section \<open>Lemmas on the loop\<close>

lemma eval_step_simps [simp]:
  "ea_aggregate (eval_step kb rules ctx acc cmd) =
     max (ea_aggregate acc) (d_effect (segment_decision kb rules ctx cmd))"
  "ea_read_only (eval_step kb rules ctx acc cmd) \<longleftrightarrow>
     ea_read_only acc \<and> d_read_only (segment_decision kb rules ctx cmd)"
  "ea_hazards (eval_step kb rules ctx acc cmd) = ea_hazards acc @ sc_hazards cmd"
  "ea_commands (eval_step kb rules ctx acc cmd) = ea_commands acc @ [describe cmd]"
  by (auto simp: eval_step_def Let_def max_def)

lemma eval_loop_aggregate:
  "ea_aggregate (eval_loop kb rules ctx acc cmds) =
     foldl max (ea_aggregate acc) (map (\<lambda>c. d_effect (segment_decision kb rules ctx c)) cmds)"
  by (induction cmds arbitrary: acc) simp_all

lemma eval_loop_read_only:
  "ea_read_only (eval_loop kb rules ctx acc cmds) \<longleftrightarrow>
     ea_read_only acc \<and> (\<forall>c \<in> set cmds. d_read_only (segment_decision kb rules ctx c))"
  by (induction cmds arbitrary: acc) auto

lemma eval_loop_hazards:
  "ea_hazards (eval_loop kb rules ctx acc cmds) = ea_hazards acc @ concat (map sc_hazards cmds)"
  by (induction cmds arbitrary: acc) simp_all

lemma foldl_max_Max:
  fixes e :: effect
  shows "foldl max e xs = Max (insert e (set xs))"
proof (induction xs arbitrary: e)
  case (Cons x xs)
  have "foldl max e (x # xs) = Max (insert (max e x) (set xs))" using Cons by simp
  also have "\<dots> = Max (insert e (set (x # xs)))"
    by (cases "xs = []") (simp_all add: max.assoc)
  finally show ?case .
qed simp

lemma lookup_source_nonempty: "lookup_with_meta kb p a = (e, src, ro) \<Longrightarrow> src \<noteq> []"
  by (auto simp: lookup_with_meta_def Let_def split: option.splits prod.splits if_splits)

lemma segment_source_nonempty: "d_source (segment_decision kb rules ctx cmd) \<noteq> []"
  using lookup_source_nonempty
  by (auto simp: segment_decision_def base_decision_def Let_def split: option.splits prod.splits)

lemma eval_loop_source:
  "cmds \<noteq> [] \<or> ea_worst_source acc \<noteq> [] \<Longrightarrow> ea_worst_source (eval_loop kb rules ctx acc cmds) \<noteq> []"
proof (induction cmds arbitrary: acc)
  case (Cons c cmds)
  have "ea_worst_source (eval_step kb rules ctx acc c) \<noteq> []"
    using segment_source_nonempty by (auto simp: eval_step_def Let_def)
  with Cons.IH show ?case by simp
qed simp

lemma segment_effect_hazard: "sc_hazards cmd \<noteq> [] \<Longrightarrow> d_effect (segment_decision kb rules ctx cmd) \<noteq> Allow"
  by (auto simp: segment_decision_def Let_def max_def split: if_splits)

lemma segment_effect_ge: "d_effect (base_decision kb rules ctx cmd) \<le> d_effect (segment_decision kb rules ctx cmd)"
  by (auto simp: segment_decision_def Let_def)

lemma segment_no_hazard: "sc_hazards cmd = [] \<Longrightarrow> segment_decision kb rules ctx cmd = base_decision kb rules ctx cmd"
  by (simp add: segment_decision_def Let_def)

text \<open>The three ways an evaluation can end.\<close>

lemma evaluate_cases:
  assumes "evaluate split kb rules input ctx = Some d"
  obtains (asked) "d_effect d = Ask" "\<not> d_read_only d" "d_source d \<noteq> []" "d_hazards d = []"
  | (judged) out where "trim input \<noteq> []" "normalize split input = Inr out" "no_commands out \<noteq> []"
      "d_effect d = Max (insert Allow ((\<lambda>c. d_effect (segment_decision kb rules ctx c)) ` set (no_commands out)))"
      "d_read_only d \<longleftrightarrow> (\<forall>c \<in> set (no_commands out). d_read_only (segment_decision kb rules ctx c))
         \<and> \<not> has_privilege_elevation input"
      "d_source d \<noteq> []" "set (d_hazards d) = (\<Union>c \<in> set (no_commands out). set (sc_hazards c))"
proof (cases "\<exists>out. trim input \<noteq> [] \<and> normalize split input = Inr out \<and> no_commands out \<noteq> []")
  case False
  with assms have "d_effect d = Ask" "\<not> d_read_only d" "d_source d \<noteq> []" "d_hazards d = []"
    by (auto simp: evaluate_def ask_decision_def split: if_splits sum.splits norm_error.splits)
  then show thesis by (rule asked)
next
  case True
  then obtain out where out: "trim input \<noteq> []" "normalize split input = Inr out" "no_commands out \<noteq> []"
    by blast
  let ?acc = "eval_loop kb rules ctx eval_init (no_commands out)"
  from assms out have d: "d = \<lparr>d_effect = ea_aggregate ?acc, d_source = ea_worst_source ?acc,
      d_reason = ea_worst_reason ?acc, d_commands = ea_commands ?acc,
      d_hazards = remdups_adj (sort_key hazard_name (ea_hazards ?acc)),
      d_read_only = ea_read_only ?acc \<and> \<not> has_privilege_elevation input\<rparr>"
    by (simp add: evaluate_def Let_def)
  show thesis
  proof (rule judged [OF out])
    show "d_effect d = Max (insert Allow ((\<lambda>c. d_effect (segment_decision kb rules ctx c)) ` set (no_commands out)))"
      by (simp add: d eval_loop_aggregate foldl_max_Max eval_init_def)
    show "d_read_only d \<longleftrightarrow> (\<forall>c \<in> set (no_commands out). d_read_only (segment_decision kb rules ctx c))
         \<and> \<not> has_privilege_elevation input"
      by (simp add: d eval_loop_read_only eval_init_def)
    show "d_source d \<noteq> []" using eval_loop_source [of "no_commands out"] out by (simp add: d)
    show "set (d_hazards d) = (\<Union>c \<in> set (no_commands out). set (sc_hazards c))"
      by (simp add: d eval_loop_hazards eval_init_def)
  qed
qed

lemma segment_allow:
  assumes "d_effect (segment_decision kb rules ctx cmd) = Allow"
  shows "sc_hazards cmd = []"
    and "case match_rule rules (ec_tool ctx) (sc_program cmd) (sc_args cmd)
                (ec_caller_group ctx) (ec_host_group ctx) of
           Some r \<Rightarrow> r_action r = Allow
         | None \<Rightarrow> fst (lookup_with_meta kb (sc_program cmd) (sc_args cmd)) = Allow"
proof -
  show hz: "sc_hazards cmd = []" using assms segment_effect_hazard by blast
  show "case match_rule rules (ec_tool ctx) (sc_program cmd) (sc_args cmd)
                (ec_caller_group ctx) (ec_host_group ctx) of
           Some r \<Rightarrow> r_action r = Allow
         | None \<Rightarrow> fst (lookup_with_meta kb (sc_program cmd) (sc_args cmd)) = Allow"
    using assms segment_no_hazard [OF hz]
    by (auto simp: base_decision_def Let_def split: option.splits prod.splits)
qed

lemma segment_read_only:
  assumes "d_read_only (segment_decision kb rules ctx cmd)"
  shows "sc_hazards cmd = []"
    and "match_rule rules (ec_tool ctx) (sc_program cmd) (sc_args cmd)
           (ec_caller_group ctx) (ec_host_group ctx) = None"
    and "\<exists>src. lookup_with_meta kb (sc_program cmd) (sc_args cmd) = (Allow, src, True)"
    and "d_effect (segment_decision kb rules ctx cmd) = Allow"
proof -
  show hz: "sc_hazards cmd = []"
    using assms by (auto simp: segment_decision_def Let_def split: if_splits)
  show m: "match_rule rules (ec_tool ctx) (sc_program cmd) (sc_args cmd)
           (ec_caller_group ctx) (ec_host_group ctx) = None"
    using assms segment_no_hazard [OF hz]
    by (auto simp: base_decision_def split: option.splits)
  obtain e src ro where l: "lookup_with_meta kb (sc_program cmd) (sc_args cmd) = (e, src, ro)"
    by (cases "lookup_with_meta kb (sc_program cmd) (sc_args cmd)") auto
  with assms m segment_no_hazard [OF hz] have ro by (simp add: base_decision_def)
  with l have "e = Allow" using lookup_read_only_allow by (metis (full_types))
  with l \<open>ro\<close> m segment_no_hazard [OF hz]
  show "\<exists>src. lookup_with_meta kb (sc_program cmd) (sc_args cmd) = (Allow, src, True)"
    and "d_effect (segment_decision kb rules ctx cmd) = Allow"
    by (auto simp: base_decision_def)
qed

lemma Max_Allow_iff:
  "finite S \<Longrightarrow> Max (insert Allow S) = Allow \<longleftrightarrow> (\<forall>e \<in> S. e = Allow)"
  by (auto simp: Max_eq_iff)

section \<open>Properties\<close>

text \<open>
  C14. The engine always answers and fails closed: on every UTF-8 command line, whatever the word
  splitter, knowledge base and rules, evaluation returns a decision (no slice of it panics), and
  the decision is ask, never read-only, when the line is blank, cannot be split into words, or
  contains no command.
\<close>

theorem evaluate_total_fail_closed:
  assumes "utf8_wf input"
  shows "\<exists>d. evaluate split kb rules input ctx = Some d
    \<and> (trim input = [] \<or> (\<exists>e. normalize split input = Inl e)
         \<or> (\<exists>out. normalize split input = Inr out \<and> no_commands out = [])
       \<longrightarrow> d_effect d = Ask \<and> \<not> d_read_only d)"
  using normalize_no_panic [OF assms, of split]
  by (cases "normalize split input")
     (auto simp: evaluate_def ask_decision_def Let_def split: norm_error.splits)

text \<open>
  Strictest wins: the verdict on a command line that normalises to commands is the maximum
  of the verdicts on its commands, so it is deny as soon as one command is denied, and the
  hazards it reports are exactly the hazards of the commands.
\<close>

theorem evaluate_strictest:
  assumes "normalize split input = Inr out" and "no_commands out \<noteq> []" and "trim input \<noteq> []"
    and "evaluate split kb rules input ctx = Some d"
  shows "d_effect d = Max ((\<lambda>c. d_effect (segment_decision kb rules ctx c)) ` set (no_commands out))
    \<and> (d_effect d = Deny \<longleftrightarrow>
         (\<exists>c \<in> set (no_commands out). d_effect (segment_decision kb rules ctx c) = Deny))
    \<and> set (d_hazards d) = (\<Union>c \<in> set (no_commands out). set (sc_hazards c))"
proof -
  let ?E = "(\<lambda>c. d_effect (segment_decision kb rules ctx c)) ` set (no_commands out)"
  let ?acc = "eval_loop kb rules ctx eval_init (no_commands out)"
  have E: "finite ?E" "?E \<noteq> {}" using assms(2) by auto
  from assms have eff: "d_effect d = ea_aggregate ?acc"
    and hz: "d_hazards d = remdups_adj (sort_key hazard_name (ea_hazards ?acc))"
    by (auto simp: evaluate_def Let_def)
  have "d_effect d = Max (insert Allow ?E)"
    by (simp add: eff eval_loop_aggregate foldl_max_Max eval_init_def)
  with E have M: "d_effect d = Max ?E" by simp
  moreover have "d_effect d = Deny \<longleftrightarrow>
      (\<exists>c \<in> set (no_commands out). d_effect (segment_decision kb rules ctx c) = Deny)"
    unfolding M Max_eq_iff [OF E] by force
  moreover have "set (d_hazards d) = (\<Union>c \<in> set (no_commands out). set (sc_hazards c))"
    by (simp add: hz eval_loop_hazards eval_init_def)
  ultimately show ?thesis by (intro conjI)
qed

text \<open>
  C15. An allow is justified command by command: if a command line is allowed, it was normalised
  into at least one command, and each command carries no structural hazard and is allowed by
  the first matching rule or, when no rule matches, by the knowledge base.
\<close>

theorem evaluate_allow_sound:
  assumes "evaluate split kb rules input ctx = Some d" and "d_effect d = Allow"
  shows "\<exists>out. normalize split input = Inr out \<and> no_commands out \<noteq> []
    \<and> (\<forall>c \<in> set (no_commands out). sc_hazards c = []
        \<and> (case match_rule rules (ec_tool ctx) (sc_program c) (sc_args c)
                  (ec_caller_group ctx) (ec_host_group ctx) of
             Some r \<Rightarrow> r_action r = Allow
           | None \<Rightarrow> fst (lookup_with_meta kb (sc_program c) (sc_args c)) = Allow))"
  using assms(1)
proof (cases rule: evaluate_cases)
  case asked
  with assms(2) show ?thesis by simp
next
  case (judged out)
  from judged(4) assms(2)
  have all: "\<forall>c \<in> set (no_commands out). d_effect (segment_decision kb rules ctx c) = Allow"
    using Max_Allow_iff [of "(\<lambda>c. d_effect (segment_decision kb rules ctx c)) ` set (no_commands out)"]
    by auto
  show ?thesis
    by (rule exI [of _ out]) (use judged(2,3) all segment_allow in blast)
qed

text \<open>
  C16. A marked hazard is never allowed through: if the scan of a UTF-8 command line marks a
  redirection, substitution, here-document or control character, the line is not allowed, unless
  the word splitter found no word at all in the segment that holds the mark, the range between
  the separators around it.
\<close>

theorem hazard_never_allowed:
  assumes "utf8_wf input" and "scan_markers input = Some ms" and "m \<in> set ms"
    and "m_kind m = Hazard h" and "evaluate split kb rules input ctx = Some d"
  shows "d_effect d \<noteq> Allow
    \<or> (\<exists>(s, e) \<in> set (ranges_from (length input) 0 ms). s \<le> m_pos m \<and> m_pos m < e
         \<and> (\<exists>seg. slice input s e = Some seg \<and> split seg = Inr []))"
  using assms(5)
proof (cases rule: evaluate_cases)
  case (judged out)
  from normalize_keeps_hazards [OF assms(1) judged(2) assms(2-4)]
  obtain s e seg where se: "(s, e) \<in> set (ranges_from (length input) 0 ms)" "slice input s e = Some seg"
    "s \<le> m_pos m" "m_pos m < e" "split seg = Inr [] \<or> (\<exists>c \<in> set (no_commands out). h \<in> set (sc_hazards c))" by blast
  have "d_effect d \<noteq> Allow" if c: "c \<in> set (no_commands out)" "h \<in> set (sc_hazards c)" for c
  proof -
    from c have "d_effect (segment_decision kb rules ctx c) \<noteq> Allow" by (intro segment_effect_hazard) auto
    with c judged(4) show ?thesis by (auto simp: Max_Allow_iff)
  qed
  with se show ?thesis by blast
qed simp

text \<open>
  C17. The read-only class that bypasses approval is sound: a line classified read-only is
  allowed, mentions neither sudo nor doas as a word, and every command in it is free of
  hazards, is matched by no rule, and is explicitly read-only and allowed in the knowledge base.
\<close>

theorem evaluate_read_only_sound:
  assumes "evaluate split kb rules input ctx = Some d" and "d_read_only d"
  shows "d_effect d = Allow \<and> d_hazards d = [] \<and> \<not> has_privilege_elevation input
    \<and> (\<exists>out. normalize split input = Inr out \<and> no_commands out \<noteq> []
        \<and> (\<forall>c \<in> set (no_commands out). sc_hazards c = []
            \<and> match_rule rules (ec_tool ctx) (sc_program c) (sc_args c)
                (ec_caller_group ctx) (ec_host_group ctx) = None
            \<and> (\<exists>src. lookup_with_meta kb (sc_program c) (sc_args c) = (Allow, src, True))))"
  using assms(1)
proof (cases rule: evaluate_cases)
  case asked
  with assms(2) show ?thesis by simp
next
  case (judged out)
  note ro = judged(5) [THEN iffD1, OF assms(2)]
  have "d_effect d = Allow" using ro judged(4) segment_read_only(4) by (simp add: Max_Allow_iff)
  moreover have "\<forall>c \<in> set (no_commands out). sc_hazards c = []"
    using ro segment_read_only(1) [of kb rules ctx] by blast
  with judged(7) have "d_hazards d = []" by simp
  moreover have "\<exists>out. normalize split input = Inr out \<and> no_commands out \<noteq> []
        \<and> (\<forall>c \<in> set (no_commands out). sc_hazards c = []
            \<and> match_rule rules (ec_tool ctx) (sc_program c) (sc_args c)
                (ec_caller_group ctx) (ec_host_group ctx) = None
            \<and> (\<exists>src. lookup_with_meta kb (sc_program c) (sc_args c) = (Allow, src, True)))"
  proof (intro exI [of _ out] conjI ballI)
    fix c
    assume "c \<in> set (no_commands out)"
    with ro have c: "d_read_only (segment_decision kb rules ctx c)" by simp
    from segment_read_only(1-3) [OF c]
    show "sc_hazards c = []" and "match_rule rules (ec_tool ctx) (sc_program c) (sc_args c)
          (ec_caller_group ctx) (ec_host_group ctx) = None"
      and "\<exists>src. lookup_with_meta kb (sc_program c) (sc_args c) = (Allow, src, True)" .
  qed (use judged in simp_all)
  ultimately show ?thesis using ro by blast
qed

section \<open>Witnesses\<close>

definition sample_ctx :: eval_context where
  "sample_ctx = \<lparr>ec_tool = ''exec'', ec_caller_group = None, ec_host_group = Some ''prod''\<rparr>"

definition no_rules :: rule_set where
  "no_rules = \<lparr>rs_schema_version = 1, rs_rule = []\<rparr>"

definition log_line :: string where
  "log_line = ''git log -n && /usr/bin/git log''"

definition log_out :: normalize_outcome where
  "log_out = \<lparr>no_commands =
      [\<lparr>sc_program = ''git'', sc_args = [''log'', ''-n''], sc_wrappers = [], sc_hazards = []\<rparr>,
       \<lparr>sc_program = ''git'', sc_args = [''log''], sc_wrappers = [], sc_hazards = []\<rparr>],
     no_raw = log_line\<rparr>"

definition log_decision :: decision where
  "log_decision = \<lparr>d_effect = Allow, d_source = ''kb:git log'',
     d_reason = ''knowledge base classification for '' @ [CHR 0x27] @ ''git'' @ [CHR 0x27],
     d_commands = [''git log -n'', ''git log''], d_hazards = [], d_read_only = True\<rparr>"

lemma log_normalize: "normalize space_split log_line = Inr log_out"
  by code_simp

lemma log_evaluate: "evaluate space_split git_kb no_rules log_line sample_ctx = Some log_decision"
  by code_simp

theorem evaluate_total_fail_closed_witness:
  "utf8_wf '' '' \<and> (\<exists>d. evaluate space_split git_kb sample_rules '' '' sample_ctx = Some d \<and> d_effect d = Ask)"
proof -
  have "utf8_wf '' ''" "trim '' '' = []" by code_simp+
  with evaluate_total_fail_closed [OF this(1), of space_split git_kb sample_rules sample_ctx]
  show ?thesis by blast
qed

theorem evaluate_allow_sound_witness:
  "d_effect log_decision = Allow
   \<and> (\<exists>out. normalize space_split log_line = Inr out \<and> (\<forall>c \<in> set (no_commands out). sc_hazards c = []))"
proof -
  have a: "d_effect log_decision = Allow" by (simp add: log_decision_def)
  with evaluate_allow_sound [OF log_evaluate] show ?thesis by blast
qed

theorem hazard_never_allowed_witness:
  "\<exists>d. evaluate space_split git_kb no_rules sample_input sample_ctx = Some d \<and> d_effect d \<noteq> Allow"
proof -
  have "\<exists>d. evaluate space_split git_kb no_rules sample_input sample_ctx = Some d"
    using normalize_no_panic [OF sample_wf]
    by (auto simp: evaluate_def Let_def split: sum.splits norm_error.splits)
  then obtain d where d: "evaluate space_split git_kb no_rules sample_input sample_ctx = Some d" ..
  have "list_all (\<lambda>(s, e). (case slice sample_input s e of None \<Rightarrow> True | Some seg \<Rightarrow> space_split seg \<noteq> Inr []))
      (ranges_from (length sample_input) 0 sample_markers)" by code_simp
  then have "\<not> (\<exists>(s, e) \<in> set (ranges_from (length sample_input) 0 sample_markers). s \<le> 24 \<and> 24 < e
         \<and> (\<exists>seg. slice sample_input s e = Some seg \<and> space_split seg = Inr []))"
    by (fastforce simp: list_all_iff split: option.splits)
  with hazard_never_allowed [OF sample_wf sample_scan _ _ d,
      of "\<lparr>m_pos = 24, m_len = 1, m_kind = Hazard Redirection\<rparr>" Redirection]
  have "d_effect d \<noteq> Allow" by (auto simp: sample_markers_def)
  with d show ?thesis by blast
qed

theorem evaluate_read_only_sound_witness:
  "d_read_only log_decision \<and> \<not> has_privilege_elevation log_line"
proof -
  have "d_read_only log_decision" by (simp add: log_decision_def)
  with evaluate_read_only_sound [OF log_evaluate this] show ?thesis by blast
qed

end
