(* ===== verification/Capability.thy ===== *)
theory Capability
  imports Prelude
begin

text \<open>
  The verbs an authorization decision can grant and the table from tools to verbs
  (\<open>clum-mcp/src/capability.rs\<close>). The strings are those stored in the policy tables.
\<close>

datatype capability =
    HostRead
  | HostAdmin
  | SessionCreate
  | SessionAttach
  | SessionRead
  | SessionKill
  | SessionWrite
  | TerminalRead
  | TerminalInput
  | TerminalManage
  | CommandExec
  | CommandRead
  | FileRead
  | FileWrite
  | ForwardRead
  | ForwardCreate
  | ForwardDelete
  | RecordingRead
  | AuditRead
  | DeployBridge
  | ConfigReload
  | PolicyWrite
  | UsageRead

definition CAPABILITY_ALL :: "capability list" where
  "CAPABILITY_ALL = [HostRead, HostAdmin, SessionCreate, SessionAttach, SessionRead,
     SessionKill, SessionWrite, TerminalRead, TerminalInput, TerminalManage, CommandExec,
     CommandRead, FileRead, FileWrite, ForwardRead, ForwardCreate, ForwardDelete,
     RecordingRead, AuditRead, DeployBridge, ConfigReload, PolicyWrite, UsageRead]"

fun as_str :: "capability \<Rightarrow> string" where
  "as_str HostRead = ''host:read''"
| "as_str HostAdmin = ''host:admin''"
| "as_str SessionCreate = ''session:create''"
| "as_str SessionAttach = ''session:attach''"
| "as_str SessionRead = ''session:read''"
| "as_str SessionKill = ''session:kill''"
| "as_str SessionWrite = ''session:write''"
| "as_str TerminalRead = ''terminal:read''"
| "as_str TerminalInput = ''terminal:input''"
| "as_str TerminalManage = ''terminal:manage''"
| "as_str CommandExec = ''command:exec''"
| "as_str CommandRead = ''command:read''"
| "as_str FileRead = ''file:read''"
| "as_str FileWrite = ''file:write''"
| "as_str ForwardRead = ''forward:read''"
| "as_str ForwardCreate = ''forward:create''"
| "as_str ForwardDelete = ''forward:delete''"
| "as_str RecordingRead = ''recording:read''"
| "as_str AuditRead = ''audit:read''"
| "as_str DeployBridge = ''deploy:bridge''"
| "as_str ConfigReload = ''config:reload''"
| "as_str PolicyWrite = ''policy:write''"
| "as_str UsageRead = ''usage:read''"

definition parse_capability :: "string \<Rightarrow> capability option" where
  "parse_capability raw = find (\<lambda>c. as_str c = raw) CAPABILITY_ALL"

definition is_global_only :: "capability \<Rightarrow> bool" where
  "is_global_only c \<longleftrightarrow> c = ConfigReload \<or> c = PolicyWrite"

definition TOOL_CAPABILITIES :: "(string \<times> capability) list" where
  "TOOL_CAPABILITIES =
    [(''clum_usage_rules'', UsageRead),
     (''host_list'', HostRead),
     (''host_filter'', HostRead),
     (''host_capabilities'', HostRead),
     (''host_set_meta'', HostAdmin),
     (''find_sessions'', HostRead),
     (''find_panes'', HostRead),
     (''session_list'', HostRead),
     (''pane_info'', HostRead),
     (''window_info'', HostRead),
     (''pane_exists'', HostRead),
     (''list_window_panes'', HostRead),
     (''get_pane_title'', HostRead),
     (''get_pane_by_title'', HostRead),
     (''session_create'', SessionCreate),
     (''split_window'', SessionCreate),
     (''split_pane'', SessionCreate),
     (''split_pane_with'', SessionCreate),
     (''break_pane'', SessionCreate),
     (''join_pane'', SessionCreate),
     (''swap_pane'', SessionCreate),
     (''session_attach'', SessionAttach),
     (''stream_pane'', SessionAttach),
     (''close_pane'', SessionKill),
     (''close_window'', SessionKill),
     (''kill_session'', SessionKill),
     (''resize_pane'', SessionWrite),
     (''resize_window'', SessionWrite),
     (''rename_window'', SessionWrite),
     (''select_window'', SessionWrite),
     (''select_layout'', SessionWrite),
     (''set_pane_title'', SessionWrite),
     (''capture_pane'', TerminalRead),
     (''capture_region'', TerminalRead),
     (''wait_for_text'', TerminalRead),
     (''wait_stable'', TerminalRead),
     (''wait_exit'', TerminalRead),
     (''wait_for_bytes'', TerminalRead),
     (''find_pane_text'', TerminalRead),
     (''find_text_all'', TerminalRead),
     (''collect_until_exit'', TerminalRead),
     (''send_keys'', TerminalInput),
     (''send_text'', TerminalInput),
     (''broadcast_keys'', TerminalInput),
     (''batch_send_keys'', TerminalInput),
     (''paste_buffer'', TerminalInput),
     (''clear_history'', TerminalManage),
     (''list_buffers'', TerminalManage),
     (''delete_buffer'', TerminalManage),
     (''exec'', CommandExec),
     (''shell_command'', CommandExec),
     (''batch_exec'', CommandExec),
     (''cmd_escape'', CommandExec),
     (''respawn_pane'', CommandExec),
     (''file_download'', FileRead),
     (''batch_download'', FileRead),
     (''file_upload'', FileWrite),
     (''batch_upload'', FileWrite),
     (''forward_list'', ForwardRead),
     (''forward_create'', ForwardCreate),
     (''forward_close'', ForwardDelete),
     (''list_recordings'', RecordingRead),
     (''get_recording'', RecordingRead),
     (''search_recordings'', RecordingRead),
     (''audit_query'', AuditRead),
     (''query_bridge_audit'', AuditRead),
     (''deploy_bridge'', DeployBridge),
     (''reload_config'', ConfigReload)]"

text \<open>A hash map collected from the table: a later entry replaces an earlier one.\<close>

definition capability_for_tool :: "string \<Rightarrow> capability option" where
  "capability_for_tool tool_name = map_of (rev TOOL_CAPABILITIES) tool_name"

definition exec_tool_capabilities :: "string \<Rightarrow> capability list option" where
  "exec_tool_capabilities tool =
     (if tool = ''exec'' \<or> tool = ''batch_exec'' then Some [CommandExec, CommandRead] else None)"

definition legacy_group_actions :: "capability list" where
  "legacy_group_actions =
     filter (\<lambda>c. \<not> (c = HostAdmin \<or> c = ConfigReload \<or> c = PolicyWrite)) CAPABILITY_ALL"

definition legacy_superadmin_actions :: "capability list" where
  "legacy_superadmin_actions = filter (\<lambda>c. c \<noteq> PolicyWrite) CAPABILITY_ALL"

definition admin_actions :: "capability list" where
  "admin_actions = CAPABILITY_ALL"

section \<open>Lemmas\<close>

lemma CAPABILITY_ALL_complete [simp]: "c \<in> set CAPABILITY_ALL"
  by (cases c) (simp_all add: CAPABILITY_ALL_def)

lemma as_str_distinct: "distinct (map as_str CAPABILITY_ALL)"
  by code_simp

lemma as_str_inject [simp]: "as_str c = as_str d \<longleftrightarrow> c = d"
  using as_str_distinct by (auto simp: distinct_map inj_on_def)

lemma parse_as_str [simp]: "parse_capability (as_str c) = Some c"
proof -
  have "find (\<lambda>d. d = c) CAPABILITY_ALL = Some c"
    by (cases "find (\<lambda>d. d = c) CAPABILITY_ALL") (auto simp: find_None_iff find_Some_iff)
  then show ?thesis by (simp add: parse_capability_def)
qed

lemma legacy_group_actions_iff [simp]:
  "c \<in> set legacy_group_actions \<longleftrightarrow> c \<noteq> HostAdmin \<and> c \<noteq> ConfigReload \<and> c \<noteq> PolicyWrite"
  by (auto simp: legacy_group_actions_def)

lemma legacy_superadmin_actions_iff [simp]:
  "c \<in> set legacy_superadmin_actions \<longleftrightarrow> c \<noteq> PolicyWrite"
  by (simp add: legacy_superadmin_actions_def)

lemma parse_capability_SomeD: "parse_capability raw = Some c \<Longrightarrow> as_str c = raw"
  by (auto simp: parse_capability_def find_Some_iff)

section \<open>Properties\<close>

text \<open>
  Verbs survive storage: parsing the string of a capability gives it back, any other string is
  rejected, and the tool table is consistent with the legacy roles: every tool has exactly one
  entry, no tool needs \<open>policy:write\<close>, and a legacy group key may use every tool except
  \<open>host_set_meta\<close> and \<open>reload_config\<close>.
\<close>

theorem capability_table:
  "(parse_capability raw = Some c \<longleftrightarrow> raw = as_str c)
   \<and> distinct (map fst TOOL_CAPABILITIES) \<and> length TOOL_CAPABILITIES = 68
   \<and> list_all (\<lambda>(t, k). capability_for_tool t = Some k \<and> k \<noteq> PolicyWrite
        \<and> (k \<in> set legacy_group_actions) = (t \<noteq> ''host_set_meta'' \<and> t \<noteq> ''reload_config''))
        TOOL_CAPABILITIES"
proof (intro conjI)
  show "parse_capability raw = Some c \<longleftrightarrow> raw = as_str c" using parse_capability_SomeD by auto
qed code_simp+

end
