(* ===== verification/Policy.thy ===== *)
theory Policy
  imports Capability "HOL-Library.Product_Lexorder"
begin

text \<open>
  The role-based policy store (\<open>clum-mcp/src/policy.rs\<close>): selectors, the in-memory snapshot,
  the decision \<open>check\<close>, the SQLite tables behind it and the operations that change them
  (seeding, legacy migration, grant, bind, unbind, reload).

  A table is the list of its rows in rowid order; a statement of the source is the list
  operation it denotes, with the primary-key and uniqueness constraints of the schema. The
  columns \<open>created_at\<close>, \<open>kind\<close> and \<open>status\<close> are written with fixed or clock values and never
  read, so they have no field. The JSON encoding of selectors and action lists, glob patterns
  and random identifiers come from third-party crates and are parameters.
\<close>

section \<open>Selectors\<close>

text \<open>A hash map of labels is the list of its entries, in iteration order.\<close>

record selector =
  s_group :: "string list option"
  s_labels :: "(string \<times> string) list"
  s_name :: "string option"
  s_all :: bool

record host_resource =
  h_name :: string
  h_group :: "string option"
  h_labels :: "(string \<times> string) list"

definition selector_default :: selector where
  "selector_default = \<lparr>s_group = None, s_labels = [], s_name = None, s_all = False\<rparr>"

definition global :: selector where
  "global = selector_default\<lparr>s_all := True\<rparr>"

definition for_group :: "string \<Rightarrow> selector" where
  "for_group g = selector_default\<lparr>s_group := Some [g]\<rparr>"

text \<open>\<open>glob::Pattern::new\<close> and \<open>matches\<close>: \<open>None\<close> is a malformed pattern.\<close>

type_synonym glob = "string \<Rightarrow> (string \<Rightarrow> bool) option"

definition has_dimension :: "selector \<Rightarrow> bool" where
  "has_dimension s \<longleftrightarrow> s_group s \<noteq> None \<or> s_labels s \<noteq> [] \<or> s_name s \<noteq> None"

definition selector_matches :: "glob \<Rightarrow> selector \<Rightarrow> host_resource option \<Rightarrow> bool" where
  "selector_matches glob s host =
     (if s_all s then True
      else if \<not> has_dimension s then False
      else case host of
        None \<Rightarrow> True
      | Some h \<Rightarrow>
          if (case s_group s of
                None \<Rightarrow> False
              | Some groups \<Rightarrow> (case h_group h of Some g \<Rightarrow> g \<notin> set groups | None \<Rightarrow> True))
          then False
          else if (\<exists>(k, v) \<in> set (s_labels s). map_of (h_labels h) k \<noteq> Some v) then False
          else if (case s_name s of
                     None \<Rightarrow> False
                   | Some pat \<Rightarrow> (case glob pat of Some m \<Rightarrow> \<not> m (h_name h) | None \<Rightarrow> True))
          then False
          else has_dimension s)"

definition describe_selector :: "selector \<Rightarrow> string" where
  "describe_selector s =
     (if s_all s then ''all''
      else let parts =
          (case s_group s of Some groups \<Rightarrow> [''group='' @ join '','' groups] | None \<Rightarrow> [])
          @ (if s_labels s = [] then []
             else [''labels['' @ join '','' (sort (map (\<lambda>(k, v). k @ ''='' @ v) (s_labels s))) @ '']''])
          @ (case s_name s of Some n \<Rightarrow> [''name='' @ n] | None \<Rightarrow> [])
        in if parts = [] then ''empty'' else join '' '' parts)"

section \<open>Snapshot and decision\<close>

record grant =
  g_id :: string
  g_resource_type :: string
  g_selector :: selector
  g_actions :: "string list"
  g_require_approval :: bool

record role =
  ro_id :: string
  ro_name :: string
  ro_builtin :: bool
  ro_grants :: "grant list"

record policy_snapshot =
  sn_revision :: nat
  sn_roles :: "string \<rightharpoonup> role"
  sn_bindings :: "string \<rightharpoonup> string list"
  sn_known_principals :: "string list"

record policy_match =
  pm_role :: string
  pm_grant_id :: string
  pm_selector :: string
  pm_require_approval :: bool

record policy_decision =
  pd_allowed :: bool
  pd_require_approval :: bool
  pd_capability :: string
  pd_matched :: "policy_match list"
  pd_reason :: string

definition LEGACY_SUPERADMIN_ROLE :: string where
  "LEGACY_SUPERADMIN_ROLE = ''legacy-superadmin''"

definition LEGACY_GROUP_PREFIX :: string where
  "LEGACY_GROUP_PREFIX = ''legacy-group:''"

definition quoted :: "string \<Rightarrow> string" where
  "quoted s = CHR 0x27 # s @ [CHR 0x27]"

text \<open>The pre-role rules for a principal that has no row yet.\<close>

definition legacy_fallback ::
    "string \<Rightarrow> string option \<Rightarrow> capability \<Rightarrow> host_resource option \<Rightarrow> policy_decision" where
  "legacy_fallback who group_hint c host =
     (case group_hint of
        Some g \<Rightarrow>
          (let allowed = c \<in> set legacy_group_actions
                 \<and> (case host of None \<Rightarrow> True | Some h \<Rightarrow> h_group h = Some g)
           in \<lparr>pd_allowed = allowed, pd_require_approval = False, pd_capability = as_str c,
               pd_matched = (if allowed
                 then [\<lparr>pm_role = LEGACY_GROUP_PREFIX @ g, pm_grant_id = ''(legacy fallback)'',
                        pm_selector = ''group='' @ g, pm_require_approval = False\<rparr>] else []),
               pd_reason = (if allowed
                 then ''legacy fallback: principal '' @ quoted who @ '' is in group '' @ quoted g
                 else quoted (as_str c) @ '' is not available to group-scoped legacy key ''
                      @ quoted who @ '' (group '' @ g @ '')'')\<rparr>)
      | None \<Rightarrow>
          (let allowed = c \<in> set legacy_superadmin_actions
           in \<lparr>pd_allowed = allowed, pd_require_approval = False, pd_capability = as_str c,
               pd_matched = (if allowed
                 then [\<lparr>pm_role = LEGACY_SUPERADMIN_ROLE, pm_grant_id = ''(legacy fallback)'',
                        pm_selector = ''all'', pm_require_approval = False\<rparr>] else []),
               pd_reason = (if allowed
                 then ''legacy fallback: '' @ quoted who @ '' is a superadmin key''
                 else quoted (as_str c) @ '' is not available to legacy superadmin key ''
                      @ quoted who)\<rparr>))"

definition denied :: "string \<Rightarrow> string \<Rightarrow> policy_decision" where
  "denied cap reason = \<lparr>pd_allowed = False, pd_require_approval = False, pd_capability = cap,
     pd_matched = [], pd_reason = reason\<rparr>"

text \<open>The inner loop of \<open>check\<close> over the grants of one role, and the loop over the roles.\<close>

definition grant_covers ::
    "glob \<Rightarrow> capability \<Rightarrow> host_resource option \<Rightarrow> grant \<Rightarrow> bool" where
  "grant_covers glob c host g \<longleftrightarrow>
     as_str c \<in> set (g_actions g) \<and> selector_matches glob (g_selector g) host
     \<and> \<not> (host = None \<and> is_global_only c \<and> \<not> s_all (g_selector g))"

definition role_matches ::
    "glob \<Rightarrow> capability \<Rightarrow> host_resource option \<Rightarrow> role \<Rightarrow> policy_match list" where
  "role_matches glob c host r =
     map (\<lambda>g. \<lparr>pm_role = ro_name r, pm_grant_id = g_id g,
               pm_selector = describe_selector (g_selector g),
               pm_require_approval = g_require_approval g\<rparr>)
       (filter (grant_covers glob c host) (ro_grants r))"

definition check_snapshot ::
    "glob \<Rightarrow> policy_snapshot \<Rightarrow> string \<Rightarrow> string option \<Rightarrow> capability \<Rightarrow> host_resource option
     \<Rightarrow> policy_decision" where
  "check_snapshot glob sn who group_hint c host =
     (let no_bindings = denied (as_str c) (''principal '' @ quoted who @ '' has no role bindings'')
      in case sn_bindings sn who of
        Some [] \<Rightarrow> no_bindings
      | None \<Rightarrow> if who \<in> set (sn_known_principals sn) then no_bindings
                else legacy_fallback who group_hint c host
      | Some role_names \<Rightarrow>
          (let matched = concat (map (\<lambda>n. case sn_roles sn n of
                                           None \<Rightarrow> []
                                         | Some r \<Rightarrow> role_matches glob c host r) role_names)
           in if matched = [] then
                denied (as_str c) (''no grant for '' @ quoted (as_str c) @ '' on ''
                  @ (case host of Some h \<Rightarrow> h_name h | None \<Rightarrow> ''(no host)'')
                  @ '' (roles: '' @ (if role_names = [] then ''none'' else join '','' role_names) @ '')'')
              else
                \<lparr>pd_allowed = True,
                 pd_require_approval = (\<exists>m \<in> set matched. pm_require_approval m),
                 pd_capability = as_str c, pd_matched = matched, pd_reason = []\<rparr>))"

definition allows_all_snapshot ::
    "policy_snapshot \<Rightarrow> string \<Rightarrow> string option \<Rightarrow> capability \<Rightarrow> bool" where
  "allows_all_snapshot sn who group_hint c =
     (case sn_bindings sn who of
        Some [] \<Rightarrow> False
      | None \<Rightarrow> if who \<in> set (sn_known_principals sn) then False else group_hint = None
      | Some role_names \<Rightarrow>
          (\<exists>n \<in> set role_names. case sn_roles sn n of
             None \<Rightarrow> False
           | Some r \<Rightarrow> (\<exists>g \<in> set (ro_grants r).
                 s_all (g_selector g) \<and> as_str c \<in> set (g_actions g))))"

section \<open>Tables\<close>

record role_row =
  rr_id :: string
  rr_name :: string
  rr_builtin :: bool

record grant_row =
  gr_id :: string
  gr_role_id :: string
  gr_resource_type :: string
  gr_selector_json :: string
  gr_actions_json :: string
  gr_require_approval :: bool

text \<open>
  \<open>db_principals\<close> holds (id, name), \<open>db_bindings\<close> (principal id, role id), \<open>db_revision\<close> the
  \<open>revision\<close> row of \<open>policy_meta\<close>, and \<open>db_api_keys\<close> the name and group of the keys in order of
  creation (\<open>None\<close> when the table does not exist). \<open>db_draws\<close> counts the identifiers drawn so
  far from \<open>Uuid::new_v4\<close>.
\<close>

record policy_db =
  db_principals :: "(string \<times> string) list"
  db_roles :: "role_row list"
  db_grants :: "grant_row list"
  db_bindings :: "(string \<times> string) list"
  db_revision :: "nat option"
  db_api_keys :: "(string \<times> string option) list option"
  db_draws :: nat

text \<open>\<open>serde_json\<close> on selectors and on lists of action strings.\<close>

record policy_json =
  pj_sel_to :: "selector \<Rightarrow> string"
  pj_sel_from :: "string \<Rightarrow> string + selector"
  pj_act_to :: "string list \<Rightarrow> string"
  pj_act_from :: "string \<Rightarrow> string + string list"

type_synonym uuids = "nat \<Rightarrow> string"

definition role_id_of :: "policy_db \<Rightarrow> string \<Rightarrow> string option" where
  "role_id_of db n = map_option rr_id (find (\<lambda>r. rr_name r = n) (db_roles db))"

definition principal_id_of :: "policy_db \<Rightarrow> string \<Rightarrow> string option" where
  "principal_id_of db n = map_option fst (find (\<lambda>p. snd p = n) (db_principals db))"

definition draw :: "uuids \<Rightarrow> policy_db \<Rightarrow> string \<times> policy_db" where
  "draw uuid db = (uuid (db_draws db), db\<lparr>db_draws := Suc (db_draws db)\<rparr>)"

definition ensure_role ::
    "uuids \<Rightarrow> string \<Rightarrow> bool \<Rightarrow> policy_db \<Rightarrow> (string + string) \<times> policy_db" where
  "ensure_role uuid n builtin db =
     (case role_id_of db n of
        Some i \<Rightarrow> (Inr i, db)
      | None \<Rightarrow>
          (let (i, db) = draw uuid db
           in if i \<in> rr_id ` set (db_roles db) then (Inl ''UNIQUE constraint failed: roles.id'', db)
              else (Inr i, db\<lparr>db_roles := db_roles db
                                @ [\<lparr>rr_id = i, rr_name = n, rr_builtin = builtin\<rparr>]\<rparr>)))"

text \<open>\<open>INSERT OR IGNORE\<close>: a row whose id or name is taken is dropped.\<close>

definition insert_principal ::
    "uuids \<Rightarrow> string \<Rightarrow> policy_db \<Rightarrow> string option \<times> policy_db" where
  "insert_principal uuid n db =
     (let (i, db) = draw uuid db
      in if i \<in> fst ` set (db_principals db) \<or> n \<in> snd ` set (db_principals db)
         then (principal_id_of db n, db)
         else (Some i, db\<lparr>db_principals := db_principals db @ [(i, n)]\<rparr>))"

definition ensure_principal ::
    "uuids \<Rightarrow> string \<Rightarrow> policy_db \<Rightarrow> string option \<times> policy_db" where
  "ensure_principal uuid n db =
     (case principal_id_of db n of
        Some i \<Rightarrow> (Some i, db)
      | None \<Rightarrow>
          (case db_api_keys db of
             None \<Rightarrow> (None, db)
           | Some ks \<Rightarrow> if n \<notin> fst ` set ks then (None, db) else insert_principal uuid n db))"

definition insert_binding :: "string \<Rightarrow> string \<Rightarrow> policy_db \<Rightarrow> bool \<times> policy_db" where
  "insert_binding p r db =
     (if (p, r) \<in> set (db_bindings db) then (False, db)
      else (True, db\<lparr>db_bindings := db_bindings db @ [(p, r)]\<rparr>))"

text \<open>\<open>INSERT ... ON CONFLICT(id) DO UPDATE\<close> of a builtin grant: the role of an old row stays.\<close>

definition upsert_grant :: "grant_row \<Rightarrow> policy_db \<Rightarrow> policy_db" where
  "upsert_grant row db =
     (if gr_id row \<in> gr_id ` set (db_grants db)
      then db\<lparr>db_grants := map (\<lambda>g. if gr_id g = gr_id row
                 then g\<lparr>gr_resource_type := gr_resource_type row,
                        gr_selector_json := gr_selector_json row,
                        gr_actions_json := gr_actions_json row\<rparr> else g) (db_grants db)\<rparr>
      else db\<lparr>db_grants := db_grants db @ [row]\<rparr>)"

definition bump_revision :: "policy_db \<Rightarrow> policy_db" where
  "bump_revision db =
     db\<lparr>db_revision := Some (case db_revision db of None \<Rightarrow> 1 | Some v \<Rightarrow> Suc v)\<rparr>"

definition read_revision :: "policy_db \<Rightarrow> nat" where
  "read_revision db = (case db_revision db of Some v \<Rightarrow> v | None \<Rightarrow> 0)"

section \<open>Loading the snapshot\<close>

definition decode_grant :: "policy_json \<Rightarrow> grant_row \<Rightarrow> string + grant" where
  "decode_grant j row =
     (case pj_sel_from j (gr_selector_json row) of
        Inl e \<Rightarrow> Inl (''parse selector of grant '' @ gr_id row @ '': '' @ gr_selector_json row)
      | Inr sel \<Rightarrow>
          (case pj_act_from j (gr_actions_json row) of
             Inl e \<Rightarrow> Inl (''parse actions of grant '' @ gr_id row @ '': '' @ gr_actions_json row)
           | Inr acts \<Rightarrow>
               (case find (\<lambda>a. parse_capability a = None) acts of
                  Some a \<Rightarrow> Inl (''grant '' @ gr_id row @ '' references unknown capability '' @ quoted a)
                | None \<Rightarrow>
                    Inr \<lparr>g_id = gr_id row, g_resource_type = gr_resource_type row, g_selector = sel,
                         g_actions = acts, g_require_approval = gr_require_approval row\<rparr>)))"

text \<open>
  \<open>roles.values_mut().find(..)\<close> and \<open>push\<close>: the role ids are a primary key, so at most one role
  changes, whatever the order of the hash map; a grant of no role is skipped.
\<close>

definition push_grant :: "string \<Rightarrow> grant \<Rightarrow> role list \<Rightarrow> role list" where
  "push_grant rid g = map (\<lambda>r. if ro_id r = rid then r\<lparr>ro_grants := ro_grants r @ [g]\<rparr> else r)"

fun load_grants :: "policy_json \<Rightarrow> grant_row list \<Rightarrow> role list \<Rightarrow> string + role list" where
  "load_grants j [] roles = Inr roles"
| "load_grants j (row # rows) roles =
     (case decode_grant j row of
        Inl e \<Rightarrow> Inl e
      | Inr g \<Rightarrow> load_grants j rows (push_grant (gr_role_id row) g roles))"

definition joined_bindings :: "policy_db \<Rightarrow> (string \<times> string) list" where
  "joined_bindings db =
     [(snd p, rr_name r). (pid, rid) \<leftarrow> db_bindings db,
        p \<leftarrow> filter (\<lambda>p. fst p = pid) (db_principals db),
        r \<leftarrow> filter (\<lambda>r. rr_id r = rid) (db_roles db)]"

definition bound_roles :: "policy_db \<Rightarrow> string \<Rightarrow> string list" where
  "bound_roles db who =
     map snd (filter (\<lambda>b. fst b = who) (sort_key fst (sort_key snd (joined_bindings db))))"

definition load_snapshot :: "policy_json \<Rightarrow> policy_db \<Rightarrow> string + policy_snapshot" where
  "load_snapshot j db =
     (case load_grants j (sort_key gr_id (db_grants db))
             (map (\<lambda>r. \<lparr>ro_id = rr_id r, ro_name = rr_name r, ro_builtin = rr_builtin r, ro_grants = []\<rparr>)
                (sort_key rr_name (db_roles db))) of
        Inl e \<Rightarrow> Inl e
      | Inr roles \<Rightarrow>
          Inr \<lparr>sn_revision = read_revision db,
               sn_roles = map_of (rev (map (\<lambda>r. (ro_name r, r)) roles)),
               sn_bindings = (\<lambda>who. if bound_roles db who = [] then None else Some (bound_roles db who)),
               sn_known_principals = map snd (db_principals db)\<rparr>)"

section \<open>Seeding and migration\<close>

definition seed_builtin_roles ::
    "policy_json \<Rightarrow> uuids \<Rightarrow> policy_db \<Rightarrow> (string + unit) \<times> policy_db" where
  "seed_builtin_roles j uuid db =
     (case ensure_role uuid ''admin'' True db of
        (Inl e, db) \<Rightarrow> (Inl e, db)
      | (Inr admin_id, db) \<Rightarrow>
          (case ensure_role uuid ''operator'' True db of
             (Inl e, db) \<Rightarrow> (Inl e, db)
           | (Inr _, db) \<Rightarrow>
               (case ensure_role uuid ''readonly'' True db of
                  (Inl e, db) \<Rightarrow> (Inl e, db)
                | (Inr _, db) \<Rightarrow>
                    (Inr (), upsert_grant \<lparr>gr_id = ''builtin:admin'', gr_role_id = admin_id,
                       gr_resource_type = ''global'', gr_selector_json = pj_sel_to j global,
                       gr_actions_json = pj_act_to j (map as_str admin_actions),
                       gr_require_approval = False\<rparr> db))))"

definition ensure_legacy_group_role ::
    "policy_json \<Rightarrow> uuids \<Rightarrow> string \<Rightarrow> policy_db \<Rightarrow> (string + unit) \<times> policy_db" where
  "ensure_legacy_group_role j uuid g db =
     (case ensure_role uuid (LEGACY_GROUP_PREFIX @ g) True db of
        (Inl e, db) \<Rightarrow> (Inl e, db)
      | (Inr role_id, db) \<Rightarrow>
          (Inr (), upsert_grant \<lparr>gr_id = ''builtin:legacy-group:'' @ g, gr_role_id = role_id,
             gr_resource_type = ''host'', gr_selector_json = pj_sel_to j (for_group g),
             gr_actions_json = pj_act_to j (map as_str legacy_group_actions),
             gr_require_approval = False\<rparr> db))"

definition ensure_legacy_superadmin_role ::
    "policy_json \<Rightarrow> uuids \<Rightarrow> policy_db \<Rightarrow> (string + unit) \<times> policy_db" where
  "ensure_legacy_superadmin_role j uuid db =
     (case ensure_role uuid LEGACY_SUPERADMIN_ROLE True db of
        (Inl e, db) \<Rightarrow> (Inl e, db)
      | (Inr role_id, db) \<Rightarrow>
          (Inr (), upsert_grant \<lparr>gr_id = ''builtin:legacy-superadmin'', gr_role_id = role_id,
             gr_resource_type = ''global'', gr_selector_json = pj_sel_to j global,
             gr_actions_json = pj_act_to j (map as_str legacy_superadmin_actions),
             gr_require_approval = False\<rparr> db))"

text \<open>One iteration of the migration loop; the loop goes through the hash map of the latest groups.\<close>

definition migrate_one ::
    "policy_json \<Rightarrow> uuids \<Rightarrow> string \<times> string option \<Rightarrow> policy_db \<Rightarrow> (string + unit) \<times> policy_db" where
  "migrate_one j uuid key db =
     (let (n, grp) = key in
      if n \<in> snd ` set (db_principals db) then (Inr (), db)
      else case insert_principal uuid n db of
        (None, db) \<Rightarrow> (Inr (), db)
      | (Some principal_id, db) \<Rightarrow>
          (let (role_name, (res, db)) =
                 (case grp of
                    Some g \<Rightarrow> if g \<noteq> [] then (LEGACY_GROUP_PREFIX @ g, ensure_legacy_group_role j uuid g db)
                              else (LEGACY_SUPERADMIN_ROLE, ensure_legacy_superadmin_role j uuid db)
                  | None \<Rightarrow> (LEGACY_SUPERADMIN_ROLE, ensure_legacy_superadmin_role j uuid db))
           in case res of
                Inl e \<Rightarrow> (Inl e, db)
              | Inr _ \<Rightarrow>
                  (case ensure_role uuid role_name True db of
                     (Inl e, db) \<Rightarrow> (Inl e, db)
                   | (Inr role_id, db) \<Rightarrow> (Inr (), snd (insert_binding principal_id role_id db)))))"

fun migrate_loop ::
    "policy_json \<Rightarrow> uuids \<Rightarrow> (string \<times> string option) list \<Rightarrow> policy_db \<Rightarrow> (string + unit) \<times> policy_db" where
  "migrate_loop j uuid [] db = (Inr (), db)"
| "migrate_loop j uuid (k # ks) db =
     (case migrate_one j uuid k db of
        (Inl e, db) \<Rightarrow> (Inl e, db)
      | (Inr _, db) \<Rightarrow> migrate_loop j uuid ks db)"

text \<open>
  The entries of the hash map filled from the key rows: each name once, with its latest group.
  \<open>order\<close> is the iteration order of the map.
\<close>

definition latest_keys :: "(string \<times> string option) list \<Rightarrow> (string \<times> string option) list" where
  "latest_keys rows = map (\<lambda>n. (n, the (map_of (rev rows) n))) (remdups (map fst rows))"

definition migrate_legacy ::
    "policy_json \<Rightarrow> uuids \<Rightarrow> ((string \<times> string option) list \<Rightarrow> (string \<times> string option) list)
     \<Rightarrow> policy_db \<Rightarrow> (string + unit) \<times> policy_db" where
  "migrate_legacy j uuid order db =
     (case db_api_keys db of
        None \<Rightarrow> (Inr (), db)
      | Some rows \<Rightarrow> migrate_loop j uuid (order (latest_keys rows)) db)"

section \<open>The store\<close>

record policy_store =
  st_db :: policy_db
  st_snapshot :: policy_snapshot
  st_last_check_ms :: nat

definition open_store ::
    "policy_json \<Rightarrow> uuids \<Rightarrow> ((string \<times> string option) list \<Rightarrow> (string \<times> string option) list)
     \<Rightarrow> policy_db \<Rightarrow> (string + policy_store) \<times> policy_db" where
  "open_store j uuid order db =
     (case seed_builtin_roles j uuid db of
        (Inl e, db) \<Rightarrow> (Inl e, db)
      | (Inr _, db) \<Rightarrow>
          (case migrate_legacy j uuid order db of
             (Inl e, db) \<Rightarrow> (Inl e, db)
           | (Inr _, db) \<Rightarrow>
               (case load_snapshot j db of
                  Inl e \<Rightarrow> (Inl (''load policy snapshot: '' @ e), db)
                | Inr sn \<Rightarrow> (Inr \<lparr>st_db = db, st_snapshot = sn, st_last_check_ms = 0\<rparr>, db))))"

definition reload :: "policy_json \<Rightarrow> policy_store \<Rightarrow> (string + nat) \<times> policy_store" where
  "reload j st =
     (case load_snapshot j (st_db st) of
        Inl e \<Rightarrow> (Inl e, st)
      | Inr sn \<Rightarrow> (Inr (sn_revision sn), st\<lparr>st_snapshot := sn\<rparr>))"

text \<open>\<open>raced\<close>: another thread won the exchange of the probe time.\<close>

definition maybe_reload :: "policy_json \<Rightarrow> nat \<Rightarrow> bool \<Rightarrow> policy_store \<Rightarrow> policy_store" where
  "maybe_reload j now raced st =
     (if now - st_last_check_ms st < 1000 then st
      else if raced then st
      else let st = st\<lparr>st_last_check_ms := now\<rparr>
           in if read_revision (st_db st) \<noteq> sn_revision (st_snapshot st) then snd (reload j st) else st)"

definition check ::
    "policy_json \<Rightarrow> glob \<Rightarrow> nat \<Rightarrow> bool \<Rightarrow> policy_store \<Rightarrow> string \<Rightarrow> string option \<Rightarrow> capability
     \<Rightarrow> host_resource option \<Rightarrow> policy_decision \<times> policy_store" where
  "check j glob now raced st who group_hint c host =
     (let st = maybe_reload j now raced st
      in (check_snapshot glob (st_snapshot st) who group_hint c host, st))"

definition allows_all ::
    "policy_json \<Rightarrow> nat \<Rightarrow> bool \<Rightarrow> policy_store \<Rightarrow> string \<Rightarrow> string option \<Rightarrow> capability
     \<Rightarrow> bool \<times> policy_store" where
  "allows_all j now raced st who group_hint c =
     (let st = maybe_reload j now raced st
      in (allows_all_snapshot (st_snapshot st) who group_hint c, st))"

text \<open>The end of every management operation: bump the revision, reload, answer.\<close>

definition commit ::
    "policy_json \<Rightarrow> policy_store \<Rightarrow> policy_db \<Rightarrow> bool \<Rightarrow> (string + bool) \<times> policy_store" where
  "commit j st db answer =
     (case reload j (st\<lparr>st_db := bump_revision db\<rparr>) of
        (Inl e, st) \<Rightarrow> (Inl e, st)
      | (Inr _, st) \<Rightarrow> (Inr answer, st))"

definition RESOURCE_TYPES :: "string list" where
  "RESOURCE_TYPES = [''host'', ''global'', ''command'', ''file'', ''session'', ''recording'',
     ''audit'', ''policy'']"

definition grant_role ::
    "policy_json \<Rightarrow> uuids \<Rightarrow> policy_store \<Rightarrow> string \<Rightarrow> string \<Rightarrow> selector \<Rightarrow> capability list \<Rightarrow> bool
     \<Rightarrow> (string + bool) \<times> policy_store" where
  "grant_role j uuid st role_name resource_type sel actions require_approval =
     (if actions = [] then (Inl ''--actions must list at least one capability'', st)
      else if resource_type \<notin> set RESOURCE_TYPES
      then (Inl (''unknown resource type '' @ quoted resource_type), st)
      else
        let selector_json = pj_sel_to j sel; actions_json = pj_act_to j (map as_str actions)
        in case ensure_role uuid role_name False (st_db st) of
          (Inl e, db) \<Rightarrow> (Inl e, st\<lparr>st_db := db\<rparr>)
        | (Inr role_id, db) \<Rightarrow>
            (case find (\<lambda>r. rr_id r = role_id) (db_roles db) of
               None \<Rightarrow> (Inl ''Query returned no rows'', st\<lparr>st_db := db\<rparr>)
             | Some rrow \<Rightarrow>
               if rr_builtin rrow \<and> (prefix LEGACY_GROUP_PREFIX role_name \<or> role_name = LEGACY_SUPERADMIN_ROLE)
               then (Inl (quoted role_name @ '' is managed by the legacy migration and cannot be edited; bind keys to a normal role instead''),
                     st\<lparr>st_db := db\<rparr>)
               else
                 (case find (\<lambda>g. gr_role_id g = role_id \<and> gr_resource_type g = resource_type
                            \<and> gr_selector_json g = selector_json \<and> gr_actions_json g = actions_json)
                         (db_grants db) of
                    Some old \<Rightarrow>
                      if prefix ''builtin:'' (gr_id old)
                      then (Inl (''grant '' @ quoted (gr_id old) @ '' is builtin and cannot be edited; grant the capability on another role and bind the key to it''),
                            st\<lparr>st_db := db\<rparr>)
                      else commit j st
                             (db\<lparr>db_grants := map (\<lambda>g. if gr_id g = gr_id old
                                   then g\<lparr>gr_require_approval := require_approval\<rparr> else g) (db_grants db)\<rparr>)
                             False
                  | None \<Rightarrow>
                      (let (i, db) = draw uuid db
                       in if i \<in> gr_id ` set (db_grants db)
                          then (Inl ''UNIQUE constraint failed: grants.id'', st\<lparr>st_db := db\<rparr>)
                          else commit j st
                                 (db\<lparr>db_grants := db_grants db @
                                    [\<lparr>gr_id = i, gr_role_id = role_id, gr_resource_type = resource_type,
                                      gr_selector_json = selector_json, gr_actions_json = actions_json,
                                      gr_require_approval = require_approval\<rparr>]\<rparr>)
                                 True))))"

definition bind_role ::
    "policy_json \<Rightarrow> uuids \<Rightarrow> policy_store \<Rightarrow> string \<Rightarrow> string \<Rightarrow> (string + bool) \<times> policy_store" where
  "bind_role j uuid st who role_name =
     (case ensure_principal uuid who (st_db st) of
        (None, db) \<Rightarrow>
          (Inl (''unknown key '' @ quoted who @ '': create it with `clum-mcp agent add` first''),
           st\<lparr>st_db := db\<rparr>)
      | (Some principal_id, db) \<Rightarrow>
          (case role_id_of db role_name of
             None \<Rightarrow> (Inl (''unknown role '' @ quoted role_name @ '' (grant to it first)''), st\<lparr>st_db := db\<rparr>)
           | Some role_id \<Rightarrow>
               (let (changed, db) = insert_binding principal_id role_id db
                in commit j st db changed)))"

definition unbind_role ::
    "policy_json \<Rightarrow> policy_store \<Rightarrow> string \<Rightarrow> string \<Rightarrow> (string + bool) \<times> policy_store" where
  "unbind_role j st who role_name =
     (case principal_id_of (st_db st) who of
        None \<Rightarrow> (Inr False, st)
      | Some principal_id \<Rightarrow>
          (case role_id_of (st_db st) role_name of
             None \<Rightarrow> (Inr False, st)
           | Some role_id \<Rightarrow>
               commit j st
                 ((st_db st)\<lparr>db_bindings := filter (\<lambda>b. b \<noteq> (principal_id, role_id)) (db_bindings (st_db st))\<rparr>)
                 ((principal_id, role_id) \<in> set (db_bindings (st_db st)))))"

definition principal_group :: "policy_db \<Rightarrow> string \<Rightarrow> string option" where
  "principal_group db n =
     (case db_api_keys db of
        None \<Rightarrow> None
      | Some ks \<Rightarrow> (case map_of (rev ks) n of Some g \<Rightarrow> g | None \<Rightarrow> None))"

section \<open>Well-formed tables\<close>

text \<open>The key constraints of the schema and its foreign keys.\<close>

definition db_wf :: "policy_db \<Rightarrow> bool" where
  "db_wf db \<longleftrightarrow>
     distinct (map rr_id (db_roles db)) \<and> distinct (map rr_name (db_roles db))
     \<and> distinct (map fst (db_principals db)) \<and> distinct (map snd (db_principals db))
     \<and> distinct (map gr_id (db_grants db)) \<and> distinct (db_bindings db)
     \<and> fst ` set (db_bindings db) \<subseteq> fst ` set (db_principals db)
     \<and> snd ` set (db_bindings db) \<subseteq> rr_id ` set (db_roles db)
     \<and> gr_role_id ` set (db_grants db) \<subseteq> rr_id ` set (db_roles db)"

lemma distinct_map_find:
  assumes "distinct (map f xs)" and "x \<in> set xs"
  shows "find (\<lambda>y. f y = f x) xs = Some x"
  using assms by (induction xs) (auto simp: image_iff)

lemma distinct_map_filter:
  assumes "distinct (map f xs)" and "x \<in> set xs"
  shows "filter (\<lambda>y. f y = f x) xs = [x]"
  using assms
proof (induction xs)
  case (Cons y xs)
  have none: "filter (\<lambda>z. f z = f y) xs = []" using Cons.prems(1) by (auto simp: filter_empty_conv image_iff)
  show ?case
  proof (cases "y = x")
    case True
    with none show ?thesis by simp
  next
    case False
    with Cons.prems have "x \<in> set xs" "f y \<noteq> f x" by auto
    with Cons show ?thesis by simp
  qed
qed simp

lemma role_id_of_Some:
  "role_id_of db n = Some i \<Longrightarrow> \<exists>r \<in> set (db_roles db). rr_id r = i \<and> rr_name r = n"
  by (auto simp: role_id_of_def find_Some_iff)

lemma role_id_of_None: "role_id_of db n = None \<longleftrightarrow> n \<notin> rr_name ` set (db_roles db)"
  by (auto simp: role_id_of_def find_None_iff)

lemma principal_id_of_Some: "principal_id_of db n = Some i \<Longrightarrow> (i, n) \<in> set (db_principals db)"
  unfolding principal_id_of_def by (auto elim!: find_SomeE)

lemma principal_id_of_None: "principal_id_of db n = None \<longleftrightarrow> n \<notin> snd ` set (db_principals db)"
  by (force simp: principal_id_of_def find_None_iff)

lemma db_wf_draws [simp]: "db_wf (db\<lparr>db_draws := n\<rparr>) = db_wf db"
  "db_wf (db\<lparr>db_revision := v\<rparr>) = db_wf db"
  by (simp_all add: db_wf_def)

lemma append_role_wf:
  "db_wf db \<Longrightarrow> rr_id row \<notin> rr_id ` set (db_roles db) \<Longrightarrow> rr_name row \<notin> rr_name ` set (db_roles db) \<Longrightarrow>
     db_wf (db\<lparr>db_roles := db_roles db @ [row]\<rparr>)"
  unfolding db_wf_def by (simp add: subset_insertI2)

lemma append_principal_wf:
  "db_wf db \<Longrightarrow> i \<notin> fst ` set (db_principals db) \<Longrightarrow> n \<notin> snd ` set (db_principals db) \<Longrightarrow>
     db_wf (db\<lparr>db_principals := db_principals db @ [(i, n)]\<rparr>)"
  unfolding db_wf_def by (simp add: subset_insertI2)

lemma id_of_draws [simp]:
  "principal_id_of (db\<lparr>db_draws := k\<rparr>) n = principal_id_of db n"
  "role_id_of (db\<lparr>db_draws := k\<rparr>) n = role_id_of db n"
  by (simp_all add: principal_id_of_def role_id_of_def)

lemma ensure_role_wf:
  assumes "ensure_role uuid n b db = (res, db')" and "db_wf db"
  shows "db_wf db'" and "db_principals db' = db_principals db" and "db_grants db' = db_grants db"
    and "db_bindings db' = db_bindings db" and "db_api_keys db' = db_api_keys db"
    and "set (db_roles db) \<subseteq> set (db_roles db')"
    and "\<And>i. res = Inr i \<Longrightarrow> \<exists>r \<in> set (db_roles db'). rr_id r = i \<and> rr_name r = n"
proof -
  note d = assms(1) [unfolded ensure_role_def draw_def]
  show "db_principals db' = db_principals db" and "db_grants db' = db_grants db"
    and "db_bindings db' = db_bindings db" and "db_api_keys db' = db_api_keys db"
    and "set (db_roles db) \<subseteq> set (db_roles db')"
    using d by (auto simp: Let_def split: option.splits if_splits)
  show "db_wf db'"
  proof (cases "role_id_of db n")
    case None
    with role_id_of_None have "n \<notin> rr_name ` set (db_roles db)" by blast
    with append_role_wf [of "db\<lparr>db_draws := Suc (db_draws db)\<rparr>"] None d assms(2)
    show ?thesis by (auto simp: Let_def split: if_splits)
  qed (use d assms(2) in auto)
  show "\<exists>r \<in> set (db_roles db'). rr_id r = i \<and> rr_name r = n" if "res = Inr i" for i
    using d that by (auto simp: Let_def dest: role_id_of_Some split: option.splits if_splits)
qed

lemma insert_principal_wf:
  assumes "insert_principal uuid n db = (res, db')" and "db_wf db"
  shows "db_wf db'" and "db_roles db' = db_roles db" and "db_grants db' = db_grants db"
    and "db_bindings db' = db_bindings db" and "db_api_keys db' = db_api_keys db"
    and "set (db_principals db) \<subseteq> set (db_principals db')"
    and "\<And>i. res = Some i \<Longrightarrow> (i, n) \<in> set (db_principals db')"
proof -
  note d = assms(1) [unfolded insert_principal_def draw_def Let_def]
  show "db_wf db'"
    using d assms(2) append_principal_wf [of "db\<lparr>db_draws := Suc (db_draws db)\<rparr>"]
    by (auto split: if_splits)
  show "db_roles db' = db_roles db" and "db_grants db' = db_grants db"
    and "db_bindings db' = db_bindings db" and "db_api_keys db' = db_api_keys db"
    and "set (db_principals db) \<subseteq> set (db_principals db')"
    using d by (auto split: if_splits)
  show "(i, n) \<in> set (db_principals db')" if "res = Some i" for i
    using d that by (auto simp: principal_id_of_Some split: if_splits)
qed

lemma ensure_principal_wf:
  assumes "ensure_principal uuid n db = (res, db')" and "db_wf db"
  shows "db_wf db'" and "db_roles db' = db_roles db" and "db_grants db' = db_grants db"
    and "db_bindings db' = db_bindings db" and "db_api_keys db' = db_api_keys db"
    and "set (db_principals db) \<subseteq> set (db_principals db')"
    and "\<And>i. res = Some i \<Longrightarrow> (i, n) \<in> set (db_principals db')"
  using assms insert_principal_wf [of uuid n db res db']
  by (auto simp: ensure_principal_def principal_id_of_Some split: option.splits if_splits)

lemma insert_binding_wf:
  "db_wf db \<Longrightarrow> p \<in> fst ` set (db_principals db) \<Longrightarrow> r \<in> rr_id ` set (db_roles db) \<Longrightarrow>
     db_wf (snd (insert_binding p r db))"
  by (auto simp: insert_binding_def db_wf_def)

lemma update_grants_wf:
  assumes "db_wf db" and "\<And>g. gr_id (f g) = gr_id g" and "\<And>g. gr_role_id (f g) = gr_role_id g"
  shows "db_wf (db\<lparr>db_grants := map f (db_grants db)\<rparr>)"
proof -
  have "map gr_id (map f (db_grants db)) = map gr_id (db_grants db)" using assms(2) by simp
  moreover have "gr_role_id ` set (map f (db_grants db)) = gr_role_id ` set (db_grants db)"
    using assms(3) by (simp add: image_image)
  ultimately show ?thesis using assms(1) by (simp add: db_wf_def del: map_map)
qed

lemma append_grant_wf:
  "db_wf db \<Longrightarrow> gr_id row \<notin> gr_id ` set (db_grants db) \<Longrightarrow> gr_role_id row \<in> rr_id ` set (db_roles db) \<Longrightarrow>
     db_wf (db\<lparr>db_grants := db_grants db @ [row]\<rparr>)"
  by (auto simp: db_wf_def)

lemma upsert_grant_wf:
  "db_wf db \<Longrightarrow> gr_role_id row \<in> rr_id ` set (db_roles db) \<Longrightarrow> db_wf (upsert_grant row db)"
  unfolding upsert_grant_def by (simp add: append_grant_wf update_grants_wf)

lemma upsert_grant_tables [simp]:
  "db_roles (upsert_grant row db) = db_roles db" "db_principals (upsert_grant row db) = db_principals db"
  "db_bindings (upsert_grant row db) = db_bindings db" "db_api_keys (upsert_grant row db) = db_api_keys db"
  by (simp_all add: upsert_grant_def)

text \<open>What every operation on the tables keeps: the constraints, and the rows of principals.\<close>

definition grows :: "policy_db \<Rightarrow> policy_db \<Rightarrow> bool" where
  "grows db db' \<longleftrightarrow> db_wf db' \<and> set (db_principals db) \<subseteq> set (db_principals db')
     \<and> set (db_roles db) \<subseteq> set (db_roles db') \<and> set (db_bindings db) \<subseteq> set (db_bindings db')
     \<and> db_api_keys db' = db_api_keys db"

lemma grows_refl: "db_wf db \<Longrightarrow> grows db db"
  by (simp add: grows_def)

lemma grows_trans: "grows a b \<Longrightarrow> grows b c \<Longrightarrow> grows a c"
  by (auto simp: grows_def)

lemma grows_wf: "grows a b \<Longrightarrow> db_wf b"
  by (simp add: grows_def)

lemma ensure_role_grows: "db_wf db \<Longrightarrow> ensure_role uuid n b db = (res, db') \<Longrightarrow> grows db db'"
  using ensure_role_wf [of uuid n b db res db'] by (simp add: grows_def)

lemma insert_principal_grows: "db_wf db \<Longrightarrow> insert_principal uuid n db = (res, db') \<Longrightarrow> grows db db'"
  using insert_principal_wf [of uuid n db res db'] by (simp add: grows_def)

lemma ensure_role_id:
  "db_wf db \<Longrightarrow> ensure_role uuid n b db = (Inr i, db') \<Longrightarrow> i \<in> rr_id ` set (db_roles db')"
  using ensure_role_wf(7) by blast

lemma upsert_grant_grows:
  "db_wf db \<Longrightarrow> gr_role_id row \<in> rr_id ` set (db_roles db) \<Longrightarrow> grows db (upsert_grant row db)"
  by (simp add: grows_def upsert_grant_wf)

lemma insert_binding_grows:
  "db_wf db \<Longrightarrow> p \<in> fst ` set (db_principals db) \<Longrightarrow> r \<in> rr_id ` set (db_roles db) \<Longrightarrow>
     grows db (snd (insert_binding p r db))"
  using insert_binding_wf [of db p r] by (auto simp: grows_def insert_binding_def split: if_splits)

lemma ensure_role_upsert_grows:
  assumes "db_wf db" and "\<And>i. gr_role_id (row i) = i"
  shows "grows db (snd (case ensure_role uuid n b db of
      (Inl e, db) \<Rightarrow> (Inl e, db)
    | (Inr i, db) \<Rightarrow> (Inr (), upsert_grant (row i) db)))"
proof -
  obtain res db1 where e: "ensure_role uuid n b db = (res, db1)" by (cases "ensure_role uuid n b db") auto
  note g = ensure_role_grows [OF assms(1) e]
  show ?thesis
  proof (cases res)
    case (Inl err)
    with e g show ?thesis by simp
  next
    case (Inr i)
    with ensure_role_id [OF assms(1)] e have "i \<in> rr_id ` set (db_roles db1)" by blast
    with upsert_grant_grows [OF grows_wf [OF g]] have "grows db1 (upsert_grant (row i) db1)"
      by (simp add: assms(2))
    with grows_trans [OF g] e Inr show ?thesis by simp
  qed
qed

lemma ensure_legacy_grows:
  assumes "db_wf db"
  shows "grows db (snd (ensure_legacy_group_role j uuid g db))"
    and "grows db (snd (ensure_legacy_superadmin_role j uuid db))"
  unfolding ensure_legacy_group_role_def ensure_legacy_superadmin_role_def
  by (rule ensure_role_upsert_grows [OF assms]; simp)+

lemma seed_grows:
  assumes "db_wf db"
  shows "grows db (snd (seed_builtin_roles j uuid db))"
proof -
  obtain r1 d1 where e1: "ensure_role uuid ''admin'' True db = (r1, d1)" by fastforce
  obtain r2 d2 where e2: "ensure_role uuid ''operator'' True d1 = (r2, d2)" by fastforce
  obtain r3 d3 where e3: "ensure_role uuid ''readonly'' True d2 = (r3, d3)" by fastforce
  note g1 = ensure_role_grows [OF assms e1]
  note g2 = ensure_role_grows [OF grows_wf [OF g1] e2]
  note g3 = ensure_role_grows [OF grows_wf [OF g2] e3]
  have up: "grows d3 (upsert_grant row d3)" if "r1 = Inr (gr_role_id row)" for row
  proof -
    have "gr_role_id row \<in> rr_id ` set (db_roles d1)" using ensure_role_id [OF assms] e1 that by blast
    with g2 g3 have "gr_role_id row \<in> rr_id ` set (db_roles d3)" by (auto simp: grows_def)
    then show ?thesis by (rule upsert_grant_grows [OF grows_wf [OF g3]])
  qed
  show ?thesis
    using g1 grows_trans [OF g1 g2] grows_trans [OF grows_trans [OF g1 g2] g3]
      grows_trans [OF grows_trans [OF grows_trans [OF g1 g2] g3] up]
    by (auto simp: seed_builtin_roles_def e1 e2 e3 split: sum.splits)
qed

lemma bind_fresh_role_grows:
  assumes "grows db db1" and "p \<in> fst ` set (db_principals db)"
  shows "grows db (snd (case ensure_role uuid n True db1 of
      (Inl e, db) \<Rightarrow> (Inl e, db)
    | (Inr r, db) \<Rightarrow> (Inr (), snd (insert_binding p r db))))"
proof -
  note wf1 = grows_wf [OF assms(1)]
  obtain res db2 where e: "ensure_role uuid n True db1 = (res, db2)" by fastforce
  note g = grows_trans [OF assms(1) ensure_role_grows [OF wf1 e]]
  have p: "p \<in> fst ` set (db_principals db2)" using assms(2) g by (auto simp: grows_def)
  show ?thesis
  proof (cases res)
    case (Inl err)
    with g show ?thesis by (simp add: e)
  next
    case (Inr r)
    with ensure_role_id [OF wf1] e have "r \<in> rr_id ` set (db_roles db2)" by blast
    from grows_trans [OF g insert_binding_grows [OF grows_wf [OF g] p this]] show ?thesis
      by (simp add: e Inr)
  qed
qed

lemma migrate_one_grows:
  assumes "db_wf db"
  shows "grows db (snd (migrate_one j uuid k db))"
proof -
  obtain n grp where k: "k = (n, grp)" by fastforce
  obtain pid db1 where i: "insert_principal uuid n db = (pid, db1)" by fastforce
  note g1 = insert_principal_grows [OF assms i]
  note wf1 = grows_wf [OF g1]
  have step: "grows db1 (snd (case snd leg of (Inl e, db) \<Rightarrow> (Inl e, db)
      | (Inr _, db) \<Rightarrow> (case ensure_role uuid (fst leg) True db of (Inl e, db) \<Rightarrow> (Inl e, db)
          | (Inr r, db) \<Rightarrow> (Inr (), snd (insert_binding p r db)))))"
    if "grows db1 (snd (snd leg))" "pid = Some p"
    for leg :: "string \<times> (string + unit) \<times> policy_db" and p
  proof -
    from insert_principal_wf(7) [OF i assms] that(2) have "p \<in> fst ` set (db_principals db1)" by force
    from bind_fresh_role_grows [OF _ this] that(1) show ?thesis
      by (cases "snd leg") (auto split: sum.splits)
  qed
  note leg = ensure_legacy_grows [OF wf1, of j uuid]
  show ?thesis
  proof (cases pid)
    case None
    with g1 grows_refl [OF assms] show ?thesis by (simp add: migrate_one_def k i)
  next
    case (Some p)
    let ?leg = "case grp of
        Some g \<Rightarrow> if g \<noteq> [] then (LEGACY_GROUP_PREFIX @ g, ensure_legacy_group_role j uuid g db1)
                  else (LEGACY_SUPERADMIN_ROLE, ensure_legacy_superadmin_role j uuid db1)
      | None \<Rightarrow> (LEGACY_SUPERADMIN_ROLE, ensure_legacy_superadmin_role j uuid db1)"
    have "grows db1 (snd (snd ?leg))" using leg by (simp split: option.splits)
    from grows_trans [OF g1 step [OF this Some]] grows_refl [OF assms] show ?thesis
      by (simp add: migrate_one_def k i Some split_beta split: sum.splits)
  qed
qed

lemma migrate_loop_grows: "db_wf db \<Longrightarrow> grows db (snd (migrate_loop j uuid ks db))"
proof (induction ks arbitrary: db)
  case Nil
  then show ?case by (simp add: grows_refl)
next
  case (Cons k ks)
  obtain res db1 where e: "migrate_one j uuid k db = (res, db1)" by fastforce
  have g: "grows db db1" using migrate_one_grows [OF Cons.prems] e by (metis snd_conv)
  from grows_trans [OF g Cons.IH [OF grows_wf [OF g]]] g show ?case
    by (auto simp: e split: sum.splits)
qed

section \<open>What a loaded snapshot contains\<close>

lemma push_grant_ids: "map ro_id (push_grant rid g rs) = map ro_id rs"
  "map ro_name (push_grant rid g rs) = map ro_name rs"
  by (simp_all add: push_grant_def comp_def if_distrib cong: if_cong)

definition with_grants :: "policy_json \<Rightarrow> grant_row list \<Rightarrow> role \<Rightarrow> role" where
  "with_grants j rows r =
     r\<lparr>ro_grants := ro_grants r @ map (projr \<circ> decode_grant j) (filter (\<lambda>w. gr_role_id w = ro_id r) rows)\<rparr>"

lemma with_grants_simps [simp]:
  "ro_id (with_grants j rows r) = ro_id r" "ro_name (with_grants j rows r) = ro_name r"
  "ro_grants (with_grants j rows r) =
     ro_grants r @ map (projr \<circ> decode_grant j) (filter (\<lambda>w. gr_role_id w = ro_id r) rows)"
  by (simp_all add: with_grants_def)

lemma load_grants_Inr:
  "load_grants j rows roles = Inr roles' \<Longrightarrow>
     (\<forall>w \<in> set rows. \<exists>g. decode_grant j w = Inr g) \<and> roles' = map (with_grants j rows) roles"
proof (induction rows arbitrary: roles)
  case Nil
  then show ?case by (simp add: with_grants_def)
next
  case (Cons w rows)
  from Cons.prems obtain g where g: "decode_grant j w = Inr g"
    and rest: "load_grants j rows (push_grant (gr_role_id w) g roles) = Inr roles'"
    by (auto split: sum.splits)
  from Cons.IH [OF rest] have "roles' = map (with_grants j rows) (push_grant (gr_role_id w) g roles)"
    and dec: "\<forall>w \<in> set rows. \<exists>g. decode_grant j w = Inr g" by auto
  moreover have "with_grants j rows (if ro_id r = gr_role_id w then r\<lparr>ro_grants := ro_grants r @ [g]\<rparr> else r)
      = with_grants j (w # rows) r" for r
    by (auto simp: with_grants_def g)
  ultimately show ?case using g by (simp add: push_grant_def)
qed

definition bare_role :: "role_row \<Rightarrow> role" where
  "bare_role r = \<lparr>ro_id = rr_id r, ro_name = rr_name r, ro_builtin = rr_builtin r, ro_grants = []\<rparr>"

lemma load_snapshot_Inr:
  assumes "load_snapshot j db = Inr sn"
  shows "\<forall>w \<in> set (db_grants db). \<exists>g. decode_grant j w = Inr g"
    and "sn = \<lparr>sn_revision = read_revision db,
      sn_roles = map_of (rev (map (\<lambda>r. (ro_name r, r))
        (map (with_grants j (sort_key gr_id (db_grants db))) (map bare_role (sort_key rr_name (db_roles db)))))),
      sn_bindings = (\<lambda>who. if bound_roles db who = [] then None else Some (bound_roles db who)),
      sn_known_principals = map snd (db_principals db)\<rparr>"
proof -
  from assms obtain roles where
    l: "load_grants j (sort_key gr_id (db_grants db)) (map bare_role (sort_key rr_name (db_roles db))) = Inr roles"
    and sn: "sn = \<lparr>sn_revision = read_revision db, sn_roles = map_of (rev (map (\<lambda>r. (ro_name r, r)) roles)),
      sn_bindings = (\<lambda>who. if bound_roles db who = [] then None else Some (bound_roles db who)),
      sn_known_principals = map snd (db_principals db)\<rparr>"
    unfolding load_snapshot_def bare_role_def by (auto split: sum.splits)
  from load_grants_Inr [OF l] show "\<forall>w \<in> set (db_grants db). \<exists>g. decode_grant j w = Inr g" by simp
  show "sn = \<lparr>sn_revision = read_revision db,
      sn_roles = map_of (rev (map (\<lambda>r. (ro_name r, r))
        (map (with_grants j (sort_key gr_id (db_grants db))) (map bare_role (sort_key rr_name (db_roles db)))))),
      sn_bindings = (\<lambda>who. if bound_roles db who = [] then None else Some (bound_roles db who)),
      sn_known_principals = map snd (db_principals db)\<rparr>"
    unfolding sn using load_grants_Inr [OF l] by (simp only:)
qed

lemma load_snapshot_fields:
  assumes "load_snapshot j db = Inr sn"
  shows "sn_revision sn = read_revision db" and "sn_known_principals sn = map snd (db_principals db)"
    and "sn_bindings sn who = (if bound_roles db who = [] then None else Some (bound_roles db who))"
  by (simp_all add: load_snapshot_Inr(2) [OF assms])

lemma map_of_key_rev:
  "distinct (map f xs) \<Longrightarrow> x \<in> set xs \<Longrightarrow> map_of (rev (map (\<lambda>r. (f r, r)) xs)) (f x) = Some x"
  by (subst map_of_eq_Some_iff) (auto simp: comp_def rev_map [symmetric])

lemma load_snapshot_role:
  assumes "load_snapshot j db = Inr sn" and "db_wf db" and "row \<in> set (db_roles db)"
  obtains r where "sn_roles sn (rr_name row) = Some r" and "ro_name r = rr_name row"
    and "set (ro_grants r) =
      {g. \<exists>w \<in> set (db_grants db). gr_role_id w = rr_id row \<and> decode_grant j w = Inr g}"
proof -
  let ?rows = "sort_key gr_id (db_grants db)"
  let ?roles = "map (with_grants j ?rows) (map bare_role (sort_key rr_name (db_roles db)))"
  let ?r = "with_grants j ?rows (bare_role row)"
  have "distinct (map rr_name (sort_key rr_name (db_roles db)))"
    using assms(2) by (simp add: db_wf_def distinct_map)
  then have "distinct (map ro_name ?roles)" by (simp add: comp_def bare_role_def)
  from map_of_key_rev [OF this, of ?r] have "sn_roles sn (rr_name row) = Some ?r"
    using assms(3) by (simp add: load_snapshot_Inr(2) [OF assms(1)] bare_role_def)
  moreover have "set (ro_grants ?r) =
      (\<lambda>w. projr (decode_grant j w)) ` {w \<in> set (db_grants db). gr_role_id w = rr_id row}"
    by (auto simp: bare_role_def)
  moreover have "\<dots> = {g. \<exists>w \<in> set (db_grants db). gr_role_id w = rr_id row \<and> decode_grant j w = Inr g}"
    using load_snapshot_Inr(1) [OF assms(1)] by force
  ultimately show thesis using that [of ?r] by (simp add: bare_role_def)
qed

lemma set_joined_bindings:
  "set (joined_bindings db) = {(n, m). \<exists>pid r. (pid, n) \<in> set (db_principals db)
     \<and> (pid, rr_id r) \<in> set (db_bindings db) \<and> r \<in> set (db_roles db) \<and> rr_name r = m}"
  unfolding joined_bindings_def by fastforce

lemma set_bound_roles:
  "m \<in> set (bound_roles db who) \<longleftrightarrow> (\<exists>pid r. (pid, who) \<in> set (db_principals db)
     \<and> (pid, rr_id r) \<in> set (db_bindings db) \<and> r \<in> set (db_roles db) \<and> rr_name r = m)"
proof -
  have "m \<in> set (bound_roles db who) \<longleftrightarrow> (who, m) \<in> set (joined_bindings db)"
    by (force simp: bound_roles_def)
  then show ?thesis by (simp add: set_joined_bindings)
qed

text \<open>The matches of \<open>check\<close> over a list of bound roles.\<close>

definition matches_of ::
    "glob \<Rightarrow> policy_snapshot \<Rightarrow> capability \<Rightarrow> host_resource option \<Rightarrow> string list \<Rightarrow> policy_match list" where
  "matches_of glob sn c host role_names =
     concat (map (\<lambda>n. case sn_roles sn n of None \<Rightarrow> [] | Some r \<Rightarrow> role_matches glob c host r) role_names)"

lemma check_bound:
  assumes "sn_bindings sn who = Some rs" and "rs \<noteq> []"
  shows "pd_allowed (check_snapshot glob sn who gh c host) \<longleftrightarrow> matches_of glob sn c host rs \<noteq> []"
    and "pd_require_approval (check_snapshot glob sn who gh c host) \<longleftrightarrow>
      (\<exists>m \<in> set (matches_of glob sn c host rs). pm_require_approval m)"
proof -
  obtain a as where rs: "rs = a # as" using assms(2) by (cases rs) auto
  show "pd_allowed (check_snapshot glob sn who gh c host) \<longleftrightarrow> matches_of glob sn c host rs \<noteq> []"
    and "pd_require_approval (check_snapshot glob sn who gh c host) \<longleftrightarrow>
      (\<exists>m \<in> set (matches_of glob sn c host rs). pm_require_approval m)"
    unfolding check_snapshot_def assms(1) [unfolded rs] rs Let_def option.case list.case
      matches_of_def [symmetric]
    by (simp_all add: denied_def)
qed

lemma check_unbound:
  assumes "sn_bindings sn who = None" and "who \<in> set (sn_known_principals sn)"
  shows "\<not> pd_allowed (check_snapshot glob sn who gh c host)"
    and "\<not> pd_require_approval (check_snapshot glob sn who gh c host)"
  using assms by (simp_all add: check_snapshot_def denied_def Let_def)

text \<open>A grant of the tables that reaches a principal and covers a call.\<close>

definition reaching_grant ::
    "policy_json \<Rightarrow> glob \<Rightarrow> policy_db \<Rightarrow> string \<Rightarrow> capability \<Rightarrow> host_resource option \<Rightarrow> grant \<Rightarrow> bool" where
  "reaching_grant j glob db who c host g \<longleftrightarrow>
     (\<exists>pid r w. (pid, who) \<in> set (db_principals db) \<and> (pid, rr_id r) \<in> set (db_bindings db)
        \<and> r \<in> set (db_roles db) \<and> w \<in> set (db_grants db) \<and> gr_role_id w = rr_id r
        \<and> decode_grant j w = Inr g \<and> grant_covers glob c host g)"

lemma matches_of_iff:
  "(\<exists>m \<in> set (matches_of glob sn c host ns). Q (pm_require_approval m)) \<longleftrightarrow>
     (\<exists>n \<in> set ns. \<exists>r. sn_roles sn n = Some r
        \<and> (\<exists>g \<in> set (ro_grants r). grant_covers glob c host g \<and> Q (g_require_approval g)))"
proof -
  have "(\<exists>m \<in> set (case sn_roles sn n of None \<Rightarrow> [] | Some r \<Rightarrow> role_matches glob c host r). Q (pm_require_approval m))
      \<longleftrightarrow> (\<exists>r. sn_roles sn n = Some r
        \<and> (\<exists>g \<in> set (ro_grants r). grant_covers glob c host g \<and> Q (g_require_approval g)))" for n
    by (cases "sn_roles sn n") (auto simp: role_matches_def)
  then show ?thesis by (simp add: matches_of_def)
qed

lemma matches_of_bound:
  assumes "load_snapshot j db = Inr sn" and "db_wf db"
  shows "(\<exists>m \<in> set (matches_of glob sn c host (bound_roles db who)). Q (pm_require_approval m))
    \<longleftrightarrow> (\<exists>g. reaching_grant j glob db who c host g \<and> Q (g_require_approval g))"
proof
  assume "\<exists>m \<in> set (matches_of glob sn c host (bound_roles db who)). Q (pm_require_approval m)"
  then obtain n r g where n: "n \<in> set (bound_roles db who)" "sn_roles sn n = Some r"
    and g: "g \<in> set (ro_grants r)" "grant_covers glob c host g" "Q (g_require_approval g)"
    unfolding matches_of_iff by blast
  from n(1) obtain pid row where row: "(pid, who) \<in> set (db_principals db)"
    "(pid, rr_id row) \<in> set (db_bindings db)" "row \<in> set (db_roles db)" "rr_name row = n"
    by (auto simp: set_bound_roles)
  obtain r' where "sn_roles sn (rr_name row) = Some r'"
    "set (ro_grants r') = {g. \<exists>w \<in> set (db_grants db). gr_role_id w = rr_id row \<and> decode_grant j w = Inr g}"
    by (rule load_snapshot_role [OF assms row(3)])
  with n(2) row(4) g(1) obtain w where "w \<in> set (db_grants db)" "gr_role_id w = rr_id row"
    "decode_grant j w = Inr g" by auto
  with row g show "\<exists>g. reaching_grant j glob db who c host g \<and> Q (g_require_approval g)"
    unfolding reaching_grant_def by blast
next
  assume "\<exists>g. reaching_grant j glob db who c host g \<and> Q (g_require_approval g)"
  then obtain g pid row w where g: "grant_covers glob c host g" "Q (g_require_approval g)"
    and row: "(pid, who) \<in> set (db_principals db)" "(pid, rr_id row) \<in> set (db_bindings db)"
      "row \<in> set (db_roles db)"
    and w: "w \<in> set (db_grants db)" "gr_role_id w = rr_id row" "decode_grant j w = Inr g"
    unfolding reaching_grant_def by (elim exE conjE)
  obtain r where r: "sn_roles sn (rr_name row) = Some r"
    "set (ro_grants r) = {g. \<exists>w \<in> set (db_grants db). gr_role_id w = rr_id row \<and> decode_grant j w = Inr g}"
    by (rule load_snapshot_role [OF assms row(3)])
  have n: "rr_name row \<in> set (bound_roles db who)" using row by (auto simp: set_bound_roles)
  from r(2) w have "g \<in> set (ro_grants r)" by auto
  with g r(1) n show "\<exists>m \<in> set (matches_of glob sn c host (bound_roles db who)). Q (pm_require_approval m)"
    unfolding matches_of_iff by blast
qed

lemma no_reach_unbound: "bound_roles db who = [] \<Longrightarrow> \<not> reaching_grant j glob db who c host g"
  using set_bound_roles [of _ db who] unfolding reaching_grant_def by auto

lemma check_loaded:
  assumes "load_snapshot j db = Inr sn" and "db_wf db" and "who \<in> snd ` set (db_principals db)"
  shows "pd_allowed (check_snapshot glob sn who gh c host) \<longleftrightarrow> (\<exists>g. reaching_grant j glob db who c host g)"
    and "pd_require_approval (check_snapshot glob sn who gh c host) \<longleftrightarrow>
      (\<exists>g. reaching_grant j glob db who c host g \<and> g_require_approval g)"
proof -
  have "(pd_allowed (check_snapshot glob sn who gh c host) \<longleftrightarrow> (\<exists>g. reaching_grant j glob db who c host g))
    \<and> (pd_require_approval (check_snapshot glob sn who gh c host) \<longleftrightarrow>
      (\<exists>g. reaching_grant j glob db who c host g \<and> g_require_approval g))"
  proof (cases "bound_roles db who = []")
    case True
    then have "sn_bindings sn who = None" using load_snapshot_fields(3) [OF assms(1)] by simp
    moreover have "who \<in> set (sn_known_principals sn)"
      using load_snapshot_fields(2) [OF assms(1)] assms(3) by simp
    ultimately show ?thesis using no_reach_unbound [OF True] check_unbound by blast
  next
    case False
    then have b: "sn_bindings sn who = Some (bound_roles db who)"
      using load_snapshot_fields(3) [OF assms(1)] by simp
    have ne: "matches_of glob sn c host (bound_roles db who) \<noteq> [] \<longleftrightarrow>
        (\<exists>m \<in> set (matches_of glob sn c host (bound_roles db who)). True)"
      by (cases "matches_of glob sn c host (bound_roles db who)") auto
    show ?thesis
      unfolding check_bound [OF b False] ne
      using matches_of_bound [OF assms(1,2), where Q = "\<lambda>_. True"]
        matches_of_bound [OF assms(1,2), where Q = "\<lambda>x. x"] by blast
  qed
  then show "pd_allowed (check_snapshot glob sn who gh c host) \<longleftrightarrow> (\<exists>g. reaching_grant j glob db who c host g)"
    and "pd_require_approval (check_snapshot glob sn who gh c host) \<longleftrightarrow>
      (\<exists>g. reaching_grant j glob db who c host g \<and> g_require_approval g)" by blast+
qed

section \<open>The management operations\<close>

lemma commit_Inr:
  assumes "commit j st db b = (Inr a, st')"
  shows "a = b" and "st_db st' = bump_revision db"
    and "load_snapshot j (bump_revision db) = Inr (st_snapshot st')"
  using assms by (auto simp: commit_def reload_def split: sum.splits)

lemma commit_db: "st_db (snd (commit j st db b)) = bump_revision db"
  by (auto simp: commit_def reload_def split: sum.splits)

lemma bump_revision_wf [simp]: "db_wf (bump_revision db) = db_wf db"
  by (simp add: bump_revision_def)

lemma bump_revision_tables [simp]:
  "db_principals (bump_revision db) = db_principals db" "db_roles (bump_revision db) = db_roles db"
  "db_grants (bump_revision db) = db_grants db" "db_bindings (bump_revision db) = db_bindings db"
  by (simp_all add: bump_revision_def)

lemma bind_role_wf:
  assumes "db_wf (st_db st)"
  shows "db_wf (st_db (snd (bind_role j uuid st who r)))"
proof -
  obtain pid db1 where e: "ensure_principal uuid who (st_db st) = (pid, db1)" by fastforce
  note wf = ensure_principal_wf [OF e assms]
  show ?thesis
  proof (cases "pid = None \<or> role_id_of db1 r = None")
    case True
    with wf(1) show ?thesis by (auto simp: bind_role_def e split: option.splits)
  next
    case False
    then obtain p i where pi: "pid = Some p" "role_id_of db1 r = Some i" by auto
    have "p \<in> fst ` set (db_principals db1)" using wf(7) [OF pi(1)] by force
    moreover have "i \<in> rr_id ` set (db_roles db1)" using role_id_of_Some [OF pi(2)] by blast
    ultimately have "db_wf (snd (insert_binding p i db1))" using insert_binding_wf wf(1) by blast
    then show ?thesis by (simp add: bind_role_def e pi commit_db split_beta)
  qed
qed

lemma unbind_role_wf:
  assumes "db_wf (st_db st)"
  shows "db_wf (st_db (snd (unbind_role j st who r)))"
proof -
  have "db_wf ((st_db st)\<lparr>db_bindings := filter P (db_bindings (st_db st))\<rparr>)" for P
    using assms by (auto simp: db_wf_def)
  with assms show ?thesis by (auto simp: unbind_role_def commit_db split: option.splits)
qed

lemma grant_role_wf:
  assumes "db_wf (st_db st)"
  shows "db_wf (st_db (snd (grant_role j uuid st r rt sel acts appr)))"
proof -
  obtain res db1 where e: "ensure_role uuid r False (st_db st) = (res, db1)" by fastforce
  note wf = ensure_role_wf [OF e assms]
  have upd: "db_wf (db1\<lparr>db_grants := map (\<lambda>g. if gr_id g = gr_id old
        then g\<lparr>gr_require_approval := appr\<rparr> else g) (db_grants db1)\<rparr>)" for old
    by (rule update_grants_wf [OF wf(1)]) simp_all
  have app: "db_wf (db1\<lparr>db_draws := k, db_grants := db_grants db1 @ [row]\<rparr>)"
    if "gr_id row \<notin> gr_id ` set (db_grants db1)" "res = Inr (gr_role_id row)" for row k
    using append_grant_wf [of "db1\<lparr>db_draws := k\<rparr>" row] that wf(1) ensure_role_id [OF assms] e by simp
  show ?thesis
    using assms wf(1) upd app
    by (auto simp: grant_role_def e draw_def Let_def commit_db split: sum.splits option.splits)
qed

lemma open_store_wf:
  assumes "db_wf db"
  shows "db_wf (snd (open_store j uuid ord db))"
    and "\<And>st db'. open_store j uuid ord db = (Inr st, db') \<Longrightarrow>
      st_db st = db' \<and> load_snapshot j db' = Inr (st_snapshot st) \<and> grows db db'"
proof -
  obtain r1 d1 where e1: "seed_builtin_roles j uuid db = (r1, d1)" by fastforce
  have g1: "grows db d1" using seed_grows [OF assms, of j uuid] e1 by simp
  obtain r2 d2 where e2: "migrate_legacy j uuid ord d1 = (r2, d2)" by fastforce
  have "grows d1 (snd (migrate_legacy j uuid ord d1))"
    using grows_refl [OF grows_wf [OF g1]] migrate_loop_grows [OF grows_wf [OF g1]]
    by (simp add: migrate_legacy_def split: option.splits)
  with e2 have g2: "grows d1 d2" by simp
  note g = grows_trans [OF g1 g2]
  show "db_wf (snd (open_store j uuid ord db))"
    using grows_wf [OF g1] grows_wf [OF g] by (auto simp: open_store_def e1 e2 split: sum.splits)
  show "st_db st = db' \<and> load_snapshot j db' = Inr (st_snapshot st) \<and> grows db db'"
    if "open_store j uuid ord db = (Inr st, db')" for st db'
    using that g by (auto simp: open_store_def e1 e2 split: sum.splits)
qed

text \<open>The row that a successful grant leaves in the table, new or already there.\<close>

lemma grant_role_row:
  assumes "grant_role j uuid st role_name rt sel acts appr = (Inr created, st')"
    and "ensure_role uuid role_name False (st_db st) = (res, db1)"
  shows "\<exists>i db2 w. res = Inr i \<and> st_db st' = bump_revision db2
    \<and> load_snapshot j (st_db st') = Inr (st_snapshot st') \<and> db_roles db2 = db_roles db1
    \<and> w \<in> set (db_grants db2) \<and> gr_role_id w = i
    \<and> gr_selector_json w = pj_sel_to j sel \<and> gr_actions_json w = pj_act_to j (map as_str acts)"
proof -
  from assms obtain i where i: "res = Inr i"
    by (auto simp: grant_role_def Let_def split: sum.splits if_splits)
  let ?same = "\<lambda>g. gr_role_id g = i \<and> gr_resource_type g = rt \<and> gr_selector_json g = pj_sel_to j sel
      \<and> gr_actions_json g = pj_act_to j (map as_str acts)"
  show ?thesis
  proof (cases "find ?same (db_grants db1)")
    case None
    with assms i obtain db2 b row where "commit j st db2 b = (Inr created, st')"
      "db_roles db2 = db_roles db1" "db_grants db2 = db_grants db1 @ [row]" "?same row"
      by (auto simp: grant_role_def Let_def draw_def split: option.splits if_splits)
    with commit_Inr [of j st db2 b created st'] i show ?thesis
      by (intro exI [of _ i] exI [of _ db2] exI [of _ row]) simp
  next
    case (Some old)
    let ?f = "\<lambda>g. if gr_id g = gr_id old then g\<lparr>gr_require_approval := appr\<rparr> else g"
    from Some have old: "old \<in> set (db_grants db1)" "?same old" by (auto elim!: find_SomeE)
    from assms i Some have "commit j st (db1\<lparr>db_grants := map ?f (db_grants db1)\<rparr>) False = (Inr created, st')"
      by (auto simp: grant_role_def Let_def split: option.splits if_splits)
    note c = commit_Inr [OF this]
    have "?f old \<in> ?f ` set (db_grants db1)" using old(1) by (rule imageI)
    with c i old show ?thesis
      by (intro exI [of _ i] exI [of _ "db1\<lparr>db_grants := map ?f (db_grants db1)\<rparr>"] exI [of _ "?f old"])
         simp
  qed
qed

section \<open>Properties\<close>

text \<open>
  A principal with no row is judged by the pre-role rules only: a key of a group may use
  what legacy groups may, on hosts of its own group; a key without group anything but
  \<open>policy:write\<close>; approval is never demanded.
\<close>

lemma unknown_principal_legacy:
  assumes "load_snapshot j db = Inr sn" and "who \<notin> snd ` set (db_principals db)"
  shows "(pd_allowed (check_snapshot glob sn who gh c host) \<longleftrightarrow>
      (case gh of
         Some g \<Rightarrow> c \<noteq> HostAdmin \<and> c \<noteq> ConfigReload \<and> c \<noteq> PolicyWrite
                 \<and> (\<forall>h. host = Some h \<longrightarrow> h_group h = Some g)
       | None \<Rightarrow> c \<noteq> PolicyWrite))
    \<and> \<not> pd_require_approval (check_snapshot glob sn who gh c host)"
proof -
  have "bound_roles db who = []"
    using set_bound_roles [of _ db who] assms(2) by (metis image_eqI list.set_intros(1) neq_Nil_conv snd_conv)
  then have "check_snapshot glob sn who gh c host = legacy_fallback who gh c host"
    using load_snapshot_fields(2,3) [OF assms(1)] assms(2) by (simp add: check_snapshot_def)
  then show ?thesis
    by (auto simp: legacy_fallback_def Let_def split: option.splits)
qed

text \<open>
  C38. The decision is exactly what the tables say. For a principal that has a row, the snapshot
  loaded from well-formed tables allows a call if and only if some grant of some role bound to
  the principal lists the capability and its selector covers the host (a capability that is
  global by nature needs a global selector when there is no host), it demands approval if and
  only if one of the covering grants does, and a principal with no binding is denied. A principal
  without a row is not judged by grants at all: a key of a group may use what legacy groups may, on
  hosts of its own group, a key without group anything but \<open>policy:write\<close>, never with approval.
\<close>

theorem policy_decision_exact:
  assumes "load_snapshot j db = Inr sn" and "db_wf db"
  shows "if who \<in> snd ` set (db_principals db)
    then (pd_allowed (check_snapshot glob sn who gh c host) \<longleftrightarrow>
        (\<exists>g. reaching_grant j glob db who c host g))
    \<and> (pd_require_approval (check_snapshot glob sn who gh c host) \<longleftrightarrow>
        (\<exists>g. reaching_grant j glob db who c host g \<and> g_require_approval g))
    \<and> (bound_roles db who = [] \<longrightarrow> \<not> pd_allowed (check_snapshot glob sn who gh c host))
    else (pd_allowed (check_snapshot glob sn who gh c host) \<longleftrightarrow>
      (case gh of
         Some g \<Rightarrow> c \<noteq> HostAdmin \<and> c \<noteq> ConfigReload \<and> c \<noteq> PolicyWrite
                 \<and> (\<forall>h. host = Some h \<longrightarrow> h_group h = Some g)
       | None \<Rightarrow> c \<noteq> PolicyWrite))
    \<and> \<not> pd_require_approval (check_snapshot glob sn who gh c host)"
proof (cases "who \<in> snd ` set (db_principals db)")
  case True
  then show ?thesis using check_loaded [OF assms True] no_reach_unbound by (simp only: if_True) blast
next
  case False
  then show ?thesis using unknown_principal_legacy [OF assms(1) False] by simp
qed

text \<open>
  A selector matches a host exactly when it is global or has at least one dimension and every
  configured dimension holds: the group is listed, every label is equal, the glob is well formed
  and matches. An empty selector matches nothing, with or without a host.
\<close>

theorem selector_matches_exact:
  "(selector_matches glob s (Some h) \<longleftrightarrow> s_all s \<or>
      (has_dimension s
       \<and> (\<forall>gs. s_group s = Some gs \<longrightarrow> (\<exists>g \<in> set gs. h_group h = Some g))
       \<and> (\<forall>k v. (k, v) \<in> set (s_labels s) \<longrightarrow> map_of (h_labels h) k = Some v)
       \<and> (\<forall>p. s_name s = Some p \<longrightarrow> (\<exists>m. glob p = Some m \<and> m (h_name h)))))
   \<and> (\<not> s_all s \<and> \<not> has_dimension s \<longrightarrow> \<not> selector_matches glob s host)"
  by (auto simp: selector_matches_def split: option.splits)

text \<open>
  C39. Every operation on the store keeps the tables well formed, also when it fails half-way:
  opening (seeding and migration), granting, binding and unbinding.
\<close>

theorem policy_tables_invariant:
  assumes "db_wf (st_db st)" and "db_wf db"
  shows "db_wf (st_db (snd (grant_role j uuid st r rt sel acts appr)))
    \<and> db_wf (st_db (snd (bind_role j uuid st who r)))
    \<and> db_wf (st_db (snd (unbind_role j st who r)))
    \<and> db_wf (snd (open_store j uuid ord db))"
  by (intro conjI grant_role_wf bind_role_wf unbind_role_wf open_store_wf(1) assms)

text \<open>
  A grant takes effect at once: when \<open>role grant\<close> succeeds, every principal bound to the role
  is allowed every listed capability on every host the selector covers, as soon as the call
  returns, provided JSON gives back the selector and the action list it was given.
\<close>

theorem grant_takes_effect:
  assumes "grant_role j uuid st role_name rt sel acts appr = (Inr created, st')"
    and "db_wf (st_db st)" and "pj_sel_from j (pj_sel_to j sel) = Inr sel"
    and "pj_act_from j (pj_act_to j (map as_str acts)) = Inr (map as_str acts)"
    and "c \<in> set acts" and "selector_matches glob sel (Some h)"
    and "(pid, who) \<in> set (db_principals (st_db st'))" and "(pid, rid) \<in> set (db_bindings (st_db st'))"
    and "role_id_of (st_db st') role_name = Some rid"
  shows "pd_allowed (check_snapshot glob (st_snapshot st') who gh c (Some h))"
proof -
  obtain res db1 where e: "ensure_role uuid role_name False (st_db st) = (res, db1)" by fastforce
  note wf1 = ensure_role_wf [OF e assms(2)]
  from grant_role_row [OF assms(1) e] obtain i db2 w where i: "res = Inr i"
    and st': "st_db st' = bump_revision db2" "load_snapshot j (st_db st') = Inr (st_snapshot st')"
    and db2: "db_roles db2 = db_roles db1" "w \<in> set (db_grants db2)" "gr_role_id w = i"
      "gr_selector_json w = pj_sel_to j sel" "gr_actions_json w = pj_act_to j (map as_str acts)"
    by blast
  have rid: "rid = i"
  proof -
    from wf1(7) [OF i] obtain r where r: "r \<in> set (db_roles db1)" "rr_id r = i" "rr_name r = role_name" by blast
    from wf1(1) have "distinct (map rr_name (db_roles db1))" by (simp add: db_wf_def)
    from distinct_map_find [OF this r(1)] r assms(9) show ?thesis
      by (simp add: role_id_of_def st' db2)
  qed
  let ?g = "\<lparr>g_id = gr_id w, g_resource_type = gr_resource_type w, g_selector = sel,
      g_actions = map as_str acts, g_require_approval = gr_require_approval w\<rparr>"
  have known: "find (\<lambda>a. parse_capability a = None) (map as_str acts) = None"
    by (simp add: find_None_iff)
  have "decode_grant j w = Inr ?g"
    using assms(3,4) known by (simp add: decode_grant_def db2)
  moreover have "grant_covers glob c (Some h) ?g" using assms(5,6) by (simp add: grant_covers_def)
  moreover from wf1(7) [OF i] obtain r where "r \<in> set (db_roles (st_db st'))" "rr_id r = rid"
    by (auto simp: st' db2 rid)
  ultimately have "reaching_grant j glob (st_db st') who c (Some h) ?g"
    unfolding reaching_grant_def using assms(7,8) db2 rid by (intro exI conjI) (auto simp: st')
  moreover have "db_wf (st_db st')" using grant_role_wf [OF assms(2), of j uuid role_name rt sel acts appr] assms(1) by simp
  ultimately show ?thesis
    using check_loaded(1) [OF st'(2)] assms(7) by force
qed

text \<open>
  Revocation is immediate and is not undone by the legacy rules: when \<open>role unbind\<close> succeeds
  for a known principal and role, the role is no longer bound, every other binding of the
  principal is as before, and a principal left without roles is denied everything, whatever
  group its key has.
\<close>

theorem unbind_revokes:
  assumes "unbind_role j st who r = (Inr changed, st')" and "db_wf (st_db st)"
    and "who \<in> snd ` set (db_principals (st_db st))" and "r \<in> rr_name ` set (db_roles (st_db st))"
  shows "load_snapshot j (st_db st') = Inr (st_snapshot st')
    \<and> set (bound_roles (st_db st') who) = set (bound_roles (st_db st) who) - {r}
    \<and> (set (bound_roles (st_db st) who) \<subseteq> {r} \<longrightarrow>
         \<not> pd_allowed (check_snapshot glob (st_snapshot st') who gh c host))"
proof -
  let ?db = "st_db st"
  obtain pid where pid: "principal_id_of ?db who = Some pid"
    using assms(3) principal_id_of_None by (metis option.exhaust)
  obtain rid where rid: "role_id_of ?db r = Some rid"
    using assms(4) role_id_of_None by (metis option.exhaust)
  let ?db' = "?db\<lparr>db_bindings := filter (\<lambda>b. b \<noteq> (pid, rid)) (db_bindings ?db)\<rparr>"
  from assms(1) pid rid have c: "commit j st ?db' ((pid, rid) \<in> set (db_bindings ?db)) = (Inr changed, st')"
    by (simp add: unbind_role_def)
  note st' = commit_Inr(2,3) [OF c]
  from role_id_of_Some [OF rid] obtain row where row: "row \<in> set (db_roles ?db)" "rr_id row = rid" "rr_name row = r"
    by blast
  have uniq_r: "rr_id x = rid \<longleftrightarrow> rr_name x = r" if "x \<in> set (db_roles ?db)" for x
    using assms(2) that row by (auto simp: db_wf_def distinct_map inj_on_def)
  have uniq_p: "p = pid" if "(p, who) \<in> set (db_principals ?db)" for p
    using assms(2) that principal_id_of_Some [OF pid] unfolding db_wf_def distinct_map inj_on_def
    by (metis fst_conv snd_conv)
  have "m \<in> set (bound_roles (st_db st') who) \<longleftrightarrow> m \<in> set (bound_roles ?db who) \<and> m \<noteq> r" for m
    using uniq_r uniq_p by (auto simp: set_bound_roles st')
  then have b: "set (bound_roles (st_db st') who) = set (bound_roles ?db who) - {r}" by blast
  moreover have "\<not> pd_allowed (check_snapshot glob (st_snapshot st') who gh c host)"
    if "set (bound_roles ?db who) \<subseteq> {r}"
  proof -
    from b that have "bound_roles (st_db st') who = []" by (metis Diff_eq_empty_iff set_empty)
    moreover have "who \<in> snd ` set (db_principals (st_db st'))" using assms(3) by (simp add: st')
    ultimately show ?thesis
      using check_loaded(1) [OF st'(2) _, of who] no_reach_unbound unbind_role_wf [OF assms(2), of j who r] assms(1) st'(1)
      by (metis snd_conv)
  qed
  ultimately show ?thesis using st' by simp
qed

text \<open>
  Reloading fails closed: a probe never changes the tables, the snapshot it leaves is either
  the previous one or one loaded from the tables, never anything else; when loading fails the
  previous snapshot stays; and once a second has passed without a concurrent probe, a loadable
  policy is in force at the revision of the tables.
\<close>

theorem reload_fails_closed:
  "st_db (maybe_reload j now raced st) = st_db st
   \<and> (st_snapshot (maybe_reload j now raced st) = st_snapshot st
      \<or> load_snapshot j (st_db st) = Inr (st_snapshot (maybe_reload j now raced st)))
   \<and> (\<forall>e. load_snapshot j (st_db st) = Inl e \<longrightarrow> st_snapshot (maybe_reload j now raced st) = st_snapshot st)
   \<and> (\<forall>sn. load_snapshot j (st_db st) = Inr sn \<and> 1000 \<le> now - st_last_check_ms st \<and> \<not> raced \<longrightarrow>
        sn_revision (st_snapshot (maybe_reload j now raced st)) = read_revision (st_db st))"
proof (cases "now - st_last_check_ms st < 1000 \<or> raced")
  case True
  then have "maybe_reload j now raced st = st" by (auto simp: maybe_reload_def)
  with True show ?thesis by auto
next
  case False
  then have raced: "raced = False" by simp
  from False have m: "maybe_reload j now False st =
      (let st = st\<lparr>st_last_check_ms := now\<rparr>
       in if read_revision (st_db st) \<noteq> sn_revision (st_snapshot st) then snd (reload j st) else st)"
    by (simp add: maybe_reload_def)
  show ?thesis
  proof (cases "load_snapshot j (st_db st)")
    case (Inl e)
    then have "snd (reload j (st\<lparr>st_last_check_ms := now\<rparr>)) = st\<lparr>st_last_check_ms := now\<rparr>"
      by (simp add: reload_def)
    then show ?thesis by (simp add: raced m Inl Let_def)
  next
    case (Inr sn)
    then have "snd (reload j (st\<lparr>st_last_check_ms := now\<rparr>)) = st\<lparr>st_last_check_ms := now, st_snapshot := sn\<rparr>"
      by (simp add: reload_def)
    with load_snapshot_fields(1) [OF Inr] show ?thesis by (simp add: raced m Inr Let_def)
  qed
qed

section \<open>Migration\<close>

lemma ensure_legacy_bindings:
  assumes "db_wf db"
  shows "db_bindings (snd (ensure_legacy_group_role j uuid g db)) = db_bindings db"
    and "db_bindings (snd (ensure_legacy_superadmin_role j uuid db)) = db_bindings db"
proof -
  have keep: "db_bindings (snd (case ensure_role uuid n True db of (Inl e, db) \<Rightarrow> (Inl e, db)
      | (Inr i, db) \<Rightarrow> (Inr (), upsert_grant (row i) db))) = db_bindings db" for n row
  proof -
    obtain res db1 where e: "ensure_role uuid n True db = (res, db1)"
      by (cases "ensure_role uuid n True db")
    from ensure_role_wf(4) [OF e assms] have "db_bindings db1 = db_bindings db" .
    then show ?thesis by (cases res) (simp_all add: e)
  qed
  show "db_bindings (snd (ensure_legacy_group_role j uuid g db)) = db_bindings db"
    and "db_bindings (snd (ensure_legacy_superadmin_role j uuid db)) = db_bindings db"
    unfolding ensure_legacy_group_role_def ensure_legacy_superadmin_role_def by (rule keep)+
qed

lemma seed_bindings:
  assumes "db_wf db"
  shows "db_bindings (snd (seed_builtin_roles j uuid db)) = db_bindings db"
proof -
  obtain r1 d1 where e1: "ensure_role uuid ''admin'' True db = (r1, d1)" by fastforce
  obtain r2 d2 where e2: "ensure_role uuid ''operator'' True d1 = (r2, d2)" by fastforce
  obtain r3 d3 where e3: "ensure_role uuid ''readonly'' True d2 = (r3, d3)" by fastforce
  note w1 = ensure_role_wf [OF e1 assms]
  note w2 = ensure_role_wf [OF e2 w1(1)]
  note w3 = ensure_role_wf [OF e3 w2(1)]
  show ?thesis using w1(4) w2(4) w3(4)
    by (auto simp: seed_builtin_roles_def e1 e2 e3 split: sum.splits)
qed

lemma insert_principal_fresh:
  assumes "insert_principal uuid n db = (Some p, db')" and "n \<notin> snd ` set (db_principals db)"
  shows "p \<notin> fst ` set (db_principals db)"
  using assms principal_id_of_None [of db n]
  by (auto simp: insert_principal_def draw_def Let_def split: if_splits)

lemma migrate_one_bindings:
  assumes "db_wf db" and "b \<in> set (db_bindings (snd (migrate_one j uuid k db)))"
  shows "b \<in> set (db_bindings db) \<or> fst b \<notin> fst ` set (db_principals db)"
proof -
  obtain n grp where k: "k = (n, grp)" by fastforce
  obtain pid db1 where i: "insert_principal uuid n db = (pid, db1)" by fastforce
  note w = insert_principal_wf [OF i assms(1)]
  show ?thesis
  proof (cases "n \<in> snd ` set (db_principals db) \<or> pid = None")
    case True
    then have "db_bindings (snd (migrate_one j uuid k db)) = db_bindings db"
      using w(4) by (elim disjE) (simp_all add: migrate_one_def k i)
    with assms(2) show ?thesis by simp
  next
    case False
    then obtain p where p: "pid = Some p" "n \<notin> snd ` set (db_principals db)" by auto
    define leg where "leg = (case grp of
        Some g \<Rightarrow> if g \<noteq> [] then (LEGACY_GROUP_PREFIX @ g, ensure_legacy_group_role j uuid g db1)
                  else (LEGACY_SUPERADMIN_ROLE, ensure_legacy_superadmin_role j uuid db1)
      | None \<Rightarrow> (LEGACY_SUPERADMIN_ROLE, ensure_legacy_superadmin_role j uuid db1))"
    obtain nm res db2 where l: "leg = (nm, res, db2)" by (cases leg) auto
    have l2: "db_bindings db2 = db_bindings db1" "db_wf db2"
      using ensure_legacy_bindings [OF w(1)] ensure_legacy_grows [OF w(1), THEN grows_wf] l
      unfolding leg_def by (auto split: option.splits if_splits; metis snd_conv)+
    obtain res' db3 where e: "ensure_role uuid nm True db2 = (res', db3)" by fastforce
    have "db_bindings db3 = db_bindings db" using ensure_role_wf(4) [OF e l2(2)] l2 w(4) by simp
    moreover have "db_bindings (snd (migrate_one j uuid k db)) =
        (case res of Inl _ \<Rightarrow> db_bindings db2 | Inr _ \<Rightarrow>
          (case res' of Inl _ \<Rightarrow> db_bindings db3 | Inr r \<Rightarrow> db_bindings (snd (insert_binding p r db3))))"
      using p l e unfolding leg_def by (simp add: migrate_one_def k i split: sum.splits)
    ultimately have "b \<in> set (db_bindings db) \<or> fst b = p"
      using assms(2) l2 w(4) by (auto simp: insert_binding_def split: sum.splits if_splits)
    with insert_principal_fresh [OF _ p(2)] i p(1) show ?thesis by blast
  qed
qed

lemma migrate_loop_bindings:
  "db_wf db \<Longrightarrow> b \<in> set (db_bindings (snd (migrate_loop j uuid ks db))) \<Longrightarrow>
     b \<in> set (db_bindings db) \<or> fst b \<notin> fst ` set (db_principals db)"
proof (induction ks arbitrary: db)
  case (Cons k ks)
  obtain res db1 where e: "migrate_one j uuid k db = (res, db1)" by fastforce
  have g: "grows db db1" using migrate_one_grows [OF Cons.prems(1), of j uuid k] e by simp
  have one: "x \<in> set (db_bindings db) \<or> fst x \<notin> fst ` set (db_principals db)" if "x \<in> set (db_bindings db1)" for x
    using migrate_one_bindings [OF Cons.prems(1), of x j uuid k] e that by simp
  show ?case
  proof (cases res)
    case (Inl err)
    with Cons.prems(2) one e show ?thesis by simp
  next
    case (Inr u)
    with Cons.prems(2) e have "b \<in> set (db_bindings (snd (migrate_loop j uuid ks db1)))" by simp
    from Cons.IH [OF grows_wf [OF g] this]
    have "b \<in> set (db_bindings db1) \<or> fst b \<notin> fst ` set (db_principals db)"
      using g unfolding grows_def by blast
    with one show ?thesis by blast
  qed
qed simp

text \<open>
  Restarting never restores a revoked binding: after opening a well-formed database, with
  whatever keys and in whatever migration order, a principal that already had a row has exactly
  the bindings it had before, and it still has its row.
\<close>

theorem open_keeps_bindings:
  assumes "open_store j uuid ord db = (Inr st, db')" and "db_wf db" and "(pid, who) \<in> set (db_principals db)"
  shows "((pid, rid) \<in> set (db_bindings (st_db st)) \<longleftrightarrow> (pid, rid) \<in> set (db_bindings db))
    \<and> (pid, who) \<in> set (db_principals (st_db st))"
proof -
  obtain r1 d1 where e1: "seed_builtin_roles j uuid db = (r1, d1)" by fastforce
  have g1: "grows db d1" and b1: "db_bindings d1 = db_bindings db"
    using seed_grows [OF assms(2), of j uuid] seed_bindings [OF assms(2), of j uuid] e1 by simp_all
  from assms(1) have "st_db st = snd (migrate_legacy j uuid ord d1)" and u: "st_db st = db'"
    by (auto simp: open_store_def e1 split: sum.splits prod.splits)
  then have "b \<in> set (db_bindings db) \<or> fst b \<notin> fst ` set (db_principals db)"
    if "b \<in> set (db_bindings (st_db st))" for b
    using that migrate_loop_bindings [OF grows_wf [OF g1], of b j uuid] g1 b1
    by (auto simp: migrate_legacy_def grows_def split: option.splits)
  moreover have "grows db db'" using open_store_wf(2) [OF assms(2,1)] by blast
  ultimately show ?thesis using assms(3) u by (force simp: grows_def)
qed

section \<open>Witnesses\<close>

text \<open>
  A JSON encoding for the selectors used below, an identifier supply without repetition, and a
  store with one role, one bound key and one grant.
\<close>

definition toy_json :: policy_json where
  "toy_json =
     \<lparr>pj_sel_to = (\<lambda>s. if s_all s then ''all''
                       else case s_group s of Some gs \<Rightarrow> ''g:'' @ join '','' gs | None \<Rightarrow> ''none''),
      pj_sel_from = (\<lambda>t. if t = ''all'' then Inr global
                         else if prefix ''g:'' t
                         then Inr (selector_default\<lparr>s_group := Some (split_on (\<lambda>c. c = CHR '','') (drop 2 t))\<rparr>)
                         else Inr selector_default),
      pj_act_to = join '','',
      pj_act_from = (\<lambda>t. Inr (split_on (\<lambda>c. c = CHR '','') t))\<rparr>"

definition toy_uuid :: uuids where
  "toy_uuid n = replicate (Suc n) (CHR ''u'')"

definition db0 :: policy_db where
  "db0 = \<lparr>db_principals = [(''p1'', ''alice'')],
     db_roles = [\<lparr>rr_id = ''r1'', rr_name = ''ops'', rr_builtin = False\<rparr>],
     db_grants = [\<lparr>gr_id = ''g1'', gr_role_id = ''r1'', gr_resource_type = ''host'', gr_selector_json = ''g:dev'',
       gr_actions_json = ''file:read'', gr_require_approval = True\<rparr>],
     db_bindings = [(''p1'', ''r1'')], db_revision = None,
     db_api_keys = Some [(''alice'', Some ''dev''), (''dave'', Some ''dev'')], db_draws = 0\<rparr>"

definition store0 :: policy_store where
  "store0 = \<lparr>st_db = db0, st_snapshot = projr (load_snapshot toy_json db0), st_last_check_ms = 0\<rparr>"

definition dev_host :: host_resource where
  "dev_host = \<lparr>h_name = ''web1'', h_group = Some ''dev'', h_labels = []\<rparr>"

lemma db0_wf: "db_wf db0"
  by (simp add: db_wf_def db0_def)

lemma store0_wf: "db_wf (st_db store0)"
  by (simp add: store0_def db0_wf)

lemma store0_load: "load_snapshot toy_json (st_db store0) = Inr (st_snapshot store0)"
proof -
  have "isl (load_snapshot toy_json db0) = False" by code_simp
  then show ?thesis by (simp add: store0_def)
qed

theorem policy_decision_exact_witness:
  "\<exists>g. reaching_grant toy_json (\<lambda>_. None) (st_db store0) ''alice'' FileRead (Some dev_host) g"
proof -
  have "''alice'' \<in> snd ` set (db_principals (st_db store0))" by code_simp
  moreover have "pd_allowed (check_snapshot (\<lambda>_. None) (st_snapshot store0) ''alice'' None FileRead (Some dev_host))"
    by code_simp
  ultimately show ?thesis
    using policy_decision_exact [OF store0_load store0_wf, of "''alice''" "\<lambda>_. None" None FileRead "Some dev_host"]
    by simp
qed

theorem policy_tables_invariant_witness:
  "db_wf (st_db (snd (unbind_role toy_json store0 ''alice'' ''ops'')))"
  using policy_tables_invariant [OF store0_wf db0_wf] by blast

section \<open>Findings\<close>

text \<open>
  Binding an existing key to a role that does not exist fails, but only after the key has been
  materialised: a key created since the server started, which the legacy rules allowed to read
  files of its group, is denied once the next revision is loaded.
\<close>

theorem failed_bind_locks_out:
  "let st = store0;
       st' = snd (bind_role toy_json toy_uuid st ''dave'' ''no-such-role'')
   in isl (fst (bind_role toy_json toy_uuid st ''dave'' ''no-such-role''))
      \<and> pd_allowed (check_snapshot (\<lambda>_. None) (projr (load_snapshot toy_json (st_db st))) ''dave'' (Some ''dev'') FileRead (Some dev_host))
      \<and> \<not> pd_allowed (check_snapshot (\<lambda>_. None) (projr (load_snapshot toy_json (st_db st'))) ''dave'' (Some ''dev'') FileRead (Some dev_host))"
  by code_simp

end
