(* ===== verification/Tool_Gate.thy ===== *)
theory Tool_Gate
  imports Evaluate Policy Json
begin

text \<open>
  The gate in front of every tool call (\<open>clum-mcp/src/tools/mod.rs\<close> and \<open>tools/rules.rs\<close>):
  which hosts a call touches, whether the caller's roles allow it there, which command text it
  carries, what the command engine says about it for every host group, and whether the call is
  dispatched, refused or answered with a denial. What the tools do once dispatched is input and
  output with the hosts and is not part of this theory.

  Parameters: the word splitter of the engine, the digest (\<open>hex::encode(Sha256)\<close>), the JSON
  printer, the redaction regexes and the \<open>Debug\<close> print of a string list.
\<close>

section \<open>Command payloads\<close>

text \<open>\<open>str::chars\<close>: the characters of a UTF-8 string, each as its bytes.\<close>

function chars :: "string \<Rightarrow> string list" where
  "chars [] = []"
| "chars (c # cs) = (c # take (len_utf8 c - 1) cs) # chars (drop (len_utf8 c - 1) cs)"
  by pat_completeness auto
termination
  by (relation "measure length") auto

text \<open>\<open>to_digit(16)\<close> of a character and \<open>u8 as char\<close> (a Latin-1 character, two bytes from 128 on).\<close>

definition hex_digit :: "string \<Rightarrow> nat option" where
  "hex_digit ch = (case ch of
       [c] \<Rightarrow> (let b = byte_of c in
          if 48 \<le> b \<and> b \<le> 57 then Some (b - 48)
          else if 97 \<le> b \<and> b \<le> 102 then Some (b - 87)
          else if 65 \<le> b \<and> b \<le> 70 then Some (b - 55) else None)
     | _ \<Rightarrow> None)"

definition latin1 :: "nat \<Rightarrow> string" where
  "latin1 v = (if v < 128 then [char_of v] else [char_of (192 + v div 64), char_of (128 + v mod 64)])"

text \<open>The loop of \<open>unescape_keys\<close> on the remaining characters.\<close>

fun unescape_chars :: "string list \<Rightarrow> string" where
  "unescape_chars [] = []"
| "unescape_chars (c # rest) =
     (if c \<noteq> [CHR 0x5C] then c @ unescape_chars rest
      else case rest of
        [] \<Rightarrow> [CHR 0x5C]
      | e # rest' \<Rightarrow>
          if e = ''n'' then CHR 0x0A # unescape_chars rest'
          else if e = ''r'' then CHR 0x0D # unescape_chars rest'
          else if e = ''t'' then CHR 0x09 # unescape_chars rest'
          else if e = ''e'' then CHR 0x1B # unescape_chars rest'
          else if e = ''x'' then
            (case rest' of
               [] \<Rightarrow> CHR 0x5C # ''x''
             | [h] \<Rightarrow> CHR 0x5C # ''x'' @ h
             | h # l # rest'' \<Rightarrow>
                 (case (hex_digit h, hex_digit l) of
                    (Some a, Some b) \<Rightarrow> latin1 (16 * a + b) @ unescape_chars rest''
                  | _ \<Rightarrow> CHR 0x5C # ''x'' @ h @ l @ unescape_chars rest''))
          else if e = [CHR 0x5C] then CHR 0x5C # unescape_chars rest'
          else CHR 0x5C # e @ unescape_chars rest')"

definition unescape_keys :: "string \<Rightarrow> string" where
  "unescape_keys raw = unescape_chars (chars raw)"

definition is_keys_tool :: "string \<Rightarrow> bool" where
  "is_keys_tool t \<longleftrightarrow> t = ''send_keys'' \<or> t = ''batch_send_keys'' \<or> t = ''broadcast_keys''"

definition normalize_payload_args :: "string \<Rightarrow> json \<Rightarrow> json" where
  "normalize_payload_args tool_name args =
     (if is_keys_tool tool_name then
        (case jget_str args ''keys'' of
           None \<Rightarrow> args
         | Some raw \<Rightarrow> (let decoded = unescape_keys raw
                        in if decoded \<noteq> raw then jset ''keys'' (JStr decoded) args else args))
      else args)"

definition command_with_extra_args :: "json \<Rightarrow> string option" where
  "command_with_extra_args args =
     (case jget_str args ''command'' of
        None \<Rightarrow> None
      | Some command \<Rightarrow>
          (let extra = (case jget_strs args ''args'' of Some xs \<Rightarrow> xs | None \<Rightarrow> [])
           in if extra = [] then Some command else Some (command @ '' '' @ join '' '' extra)))"

definition extract_command :: "string \<Rightarrow> json \<Rightarrow> string option" where
  "extract_command tool_name args =
     (if tool_name = ''exec'' \<or> tool_name = ''shell_command'' \<or> tool_name = ''batch_exec''
      then jget_str args ''command''
      else if is_keys_tool tool_name then jget_str args ''keys''
      else if tool_name = ''send_text'' then jget_str args ''text''
      else if tool_name = ''respawn_pane''
      then Some (case command_with_extra_args args of Some c \<Rightarrow> c | None \<Rightarrow> ''respawn-pane:existing-process'')
      else if tool_name = ''split_pane_with''
      then Some (case command_with_extra_args args of Some c \<Rightarrow> c | None \<Rightarrow> ''split-pane:missing-command'')
      else if tool_name = ''cmd_escape''
      then (case jget_strs args ''args'' of
              None \<Rightarrow> None
            | Some a \<Rightarrow> (let s = join '' '' a in if s \<noteq> [] then Some s else None))
      else None)"

section \<open>Adjudication of one call\<close>

datatype verdict = VAllow | VDeny (v_source: string) (v_reason: string) | VAsk (v_source: string) (v_reason: string)

fun severity :: "verdict \<Rightarrow> nat" where
  "severity VAllow = 0"
| "severity (VAsk _ _) = 1"
| "severity (VDeny _ _) = 2"

record call_evaluation =
  cv_verdict :: verdict
  cv_fingerprint :: string
  cv_display :: string
  cv_command :: "string option"
  cv_decision :: "decision option"
  cv_read_only :: bool

definition verdict_of :: "decision \<Rightarrow> verdict" where
  "verdict_of d = (case d_effect d of
       Allow \<Rightarrow> VAllow
     | Deny \<Rightarrow> VDeny (d_source d) (d_reason d)
     | Ask \<Rightarrow> VAsk (d_source d) (d_reason d))"

definition rule_decision :: "rule \<Rightarrow> decision" where
  "rule_decision r =
     \<lparr>d_effect = r_action r, d_source = ''rule:'' @ r_id r,
      d_reason = (case r_reason r of Some x \<Rightarrow> x | None \<Rightarrow> ''matched rule '' @ quoted (r_id r)),
      d_commands = [], d_hazards = [], d_read_only = False\<rparr>"

definition EXEC_CONTEXT_FIELDS :: "string list" where
  "EXEC_CONTEXT_FIELDS = [''env'', ''cwd'', ''shell'', ''kill'']"

definition call_fingerprint ::
    "(string \<Rightarrow> string) \<Rightarrow> (json \<Rightarrow> string) \<Rightarrow> string \<Rightarrow> string option \<Rightarrow> json \<Rightarrow> string" where
  "call_fingerprint digest to_json tool_name command args =
     ''sha256:'' @ digest (tool_name @ [CHR 0x00]
       @ (case command of
            Some c \<Rightarrow> c @ concat (map (\<lambda>f. case jget args f of
                 None \<Rightarrow> [] | Some v \<Rightarrow> CHR 0x00 # f @ ''='' @ to_json v) EXEC_CONTEXT_FIELDS)
          | None \<Rightarrow> to_json (jremove ''approval_id'' args)))"

text \<open>The Chinese text of the placeholder, as UTF-8 bytes.\<close>

definition NO_PAYLOAD_TEXT :: string where
  "NO_PAYLOAD_TEXT = [CHR 0xE6, CHR 0x97, CHR 0xA0, CHR 0xE5, CHR 0x8F, CHR 0xAF, CHR 0xE9,
     CHR 0x9D, CHR 0x99, CHR 0xE6, CHR 0x80, CHR 0x81, CHR 0xE6, CHR 0xA3, CHR 0x80, CHR
     0xE6, CHR 0x9F, CHR 0xA5, CHR 0xE7, CHR 0x9A, CHR 0x84, CHR 0xE5, CHR 0x91, CHR 0xBD,
     CHR 0xE4, CHR 0xBB, CHR 0xA4, CHR 0xE8, CHR 0xBD, CHR 0xBD, CHR 0xE8, CHR 0x8D, CHR
     0xB7]"

text \<open>The redaction patterns, as the replacements they perform, in order.\<close>

definition redact_command_for_display :: "(string \<Rightarrow> string) list \<Rightarrow> string \<Rightarrow> string" where
  "redact_command_for_display patterns cmd = foldl (\<lambda>out re. re out) cmd patterns"

text \<open>What the code calls outside this repository, and the state of the engine.\<close>

record gate_env =
  ge_split :: "string \<Rightarrow> string + string list"
  ge_digest :: "string \<Rightarrow> string"
  ge_to_json :: "json \<Rightarrow> string"
  ge_redact :: "(string \<Rightarrow> string) list"
  ge_debug :: "string list \<Rightarrow> string"
  ge_kb :: knowledge_base
  ge_rules :: rule_set

text \<open>
  The decision for one host group: \<open>None\<close> when the call carries no command and no rule matches
  the tool (the loop continues); \<open>Some None\<close> is a panic of the engine.
\<close>

definition group_decision ::
    "gate_env \<Rightarrow> string \<Rightarrow> string option \<Rightarrow> string option \<Rightarrow> string option \<Rightarrow> decision option option" where
  "group_decision env tool_name command caller_group hg =
     (case command of
        Some cmd \<Rightarrow> Some (evaluate (ge_split env) (ge_kb env) (ge_rules env) cmd
            \<lparr>ec_tool = tool_name, ec_caller_group = caller_group, ec_host_group = hg\<rparr>)
      | None \<Rightarrow> (case match_rule (ge_rules env) tool_name [] [] caller_group hg of
                   Some r \<Rightarrow> Some (Some (rule_decision r))
                 | None \<Rightarrow> None))"

definition candidate ::
    "gate_env \<Rightarrow> string \<Rightarrow> json \<Rightarrow> string option \<Rightarrow> decision \<Rightarrow> call_evaluation" where
  "candidate env tool_name args command d =
     \<lparr>cv_verdict = verdict_of d,
      cv_fingerprint = call_fingerprint (ge_digest env) (ge_to_json env) tool_name command args,
      cv_display = (case command of Some c \<Rightarrow> redact_command_for_display (ge_redact env) c
                    | None \<Rightarrow> ''<'' @ tool_name @ '': '' @ NO_PAYLOAD_TEXT @ ''>''),
      cv_command = command, cv_decision = Some d, cv_read_only = d_read_only d\<rparr>"

fun evaluate_groups ::
    "gate_env \<Rightarrow> string \<Rightarrow> json \<Rightarrow> string option \<Rightarrow> string option \<Rightarrow> call_evaluation option
     \<Rightarrow> string option list \<Rightarrow> call_evaluation option option" where
  "evaluate_groups env tool_name args command caller_group best [] = Some best"
| "evaluate_groups env tool_name args command caller_group best (hg # hgs) =
     (case group_decision env tool_name command caller_group hg of
        None \<Rightarrow> evaluate_groups env tool_name args command caller_group best hgs
      | Some None \<Rightarrow> None
      | Some (Some d) \<Rightarrow>
          (let cand = candidate env tool_name args command d;
               stricter = (case best of None \<Rightarrow> True
                           | Some prev \<Rightarrow> severity (cv_verdict prev) < severity (cv_verdict cand))
           in evaluate_groups env tool_name args command caller_group
                (if stricter then Some cand else best) hgs))"

definition evaluate_call ::
    "gate_env \<Rightarrow> string option \<Rightarrow> string \<Rightarrow> json \<Rightarrow> string option list \<Rightarrow> call_evaluation option option" where
  "evaluate_call env caller_group tool_name args host_groups =
     evaluate_groups env tool_name args (extract_command tool_name args) caller_group None
       (if host_groups = [] then [None] else host_groups)"

section \<open>The hosts of a call\<close>

text \<open>A host of the configuration file and the metadata of an enrolled bridge.\<close>

record host_config =
  hc_name :: string
  hc_bridge_addr :: "string option"
  hc_bridge_token :: "string option"
  hc_group :: string
  hc_tags :: "string list"
  hc_labels :: "(string \<times> string) list"
  hc_allowed_forward_targets :: "string list option"

record host_meta =
  hm_hostname :: string
  hm_group :: string
  hm_tags :: "string list"
  hm_labels :: "(string \<times> string) list"

text \<open>\<open>ctx.router\<close> is the map of the loaded file, \<open>ctx.bridge_store\<close> the list of enrolled hosts.\<close>

type_synonym router = "string \<rightharpoonup> host_config"

definition nonempty :: "'a list \<Rightarrow> 'a list option" where
  "nonempty g = (if g = [] then None else Some g)"

definition resolve_host_group :: "router \<Rightarrow> host_meta list \<Rightarrow> string \<Rightarrow> string option" where
  "resolve_host_group router metas host =
     (case find (\<lambda>m. hm_hostname m = host) metas of
        Some m \<Rightarrow> if hm_group m \<noteq> [] then Some (hm_group m)
                  else Option.bind (map_option hc_group (router host)) nonempty
      | None \<Rightarrow> Option.bind (map_option hc_group (router host)) nonempty)"

fun push_new :: "'a list \<Rightarrow> 'a list \<Rightarrow> 'a list" where
  "push_new acc [] = acc"
| "push_new acc (x # xs) = push_new (if x \<in> set acc then acc else acc @ [x]) xs"

definition call_hosts :: "json \<Rightarrow> string list" where
  "call_hosts args =
     (case jget_str args ''host'' of Some h \<Rightarrow> [h] | None \<Rightarrow> [])
     @ (case jget_strs args ''hosts'' of Some hs \<Rightarrow> hs | None \<Rightarrow> [])"

definition resolve_call_host_groups :: "router \<Rightarrow> host_meta list \<Rightarrow> json \<Rightarrow> string option list" where
  "resolve_call_host_groups router metas args =
     (if call_hosts args = [] then [None]
      else push_new [] (map (resolve_host_group router metas) (call_hosts args)))"

definition approval_scope_host :: "json \<Rightarrow> string" where
  "approval_scope_host args =
     (case jget_str args ''host'' of
        Some h \<Rightarrow> h
      | None \<Rightarrow> (case jget_strs args ''hosts'' of
                   Some hs \<Rightarrow> join '','' (remdups_adj (sort hs))
                 | None \<Rightarrow> []))"

definition host_resource_of :: "router \<Rightarrow> host_meta list \<Rightarrow> string \<Rightarrow> host_resource" where
  "host_resource_of router metas n =
     (let meta = find (\<lambda>m. hm_hostname m = n) metas; configured = router n
      in \<lparr>h_name = n,
          h_group = (case Option.bind (map_option hm_group meta) nonempty of
                       Some g \<Rightarrow> Some g
                     | None \<Rightarrow> Option.bind (map_option hc_group configured) nonempty),
          h_labels = (case Option.bind (map_option hm_labels meta) nonempty of
                        Some l \<Rightarrow> l
                      | None \<Rightarrow> (case configured of Some h \<Rightarrow> hc_labels h | None \<Rightarrow> []))\<rparr>)"

definition resource_names :: "json \<Rightarrow> string list" where
  "resource_names args =
     remdups_adj (sort
       ((case jget_str args ''host'' of Some h \<Rightarrow> if h \<noteq> [] then [h] else [] | None \<Rightarrow> [])
        @ (case jget_strs args ''hosts'' of Some hs \<Rightarrow> hs | None \<Rightarrow> [])))"

definition resolve_call_host_resources :: "router \<Rightarrow> host_meta list \<Rightarrow> json \<Rightarrow> host_resource list" where
  "resolve_call_host_resources router metas args = map (host_resource_of router metas) (resource_names args)"

section \<open>Authorization\<close>

datatype exec_mode = Full | ReadOnly

record authorization =
  au_require_approval :: bool
  au_approval_reason :: "string option"
  au_exec_mode :: exec_mode

definition authorization_default :: authorization where
  "authorization_default = \<lparr>au_require_approval = False, au_approval_reason = None, au_exec_mode = Full\<rparr>"

definition denied_message :: "string \<Rightarrow> policy_decision \<Rightarrow> host_resource option \<Rightarrow> string" where
  "denied_message tool_name d host =
     (case host of
        Some h \<Rightarrow> ''forbidden: '' @ quoted tool_name @ '' requires capability '' @ quoted (pd_capability d)
                  @ ''; host '' @ quoted (h_name h) @ '' is not in your group or role selector (''
                  @ pd_reason d @ '' )''
      | None \<Rightarrow> ''forbidden: '' @ quoted tool_name @ '' requires capability '' @ quoted (pd_capability d)
                @ '' (not in your group or role grants: '' @ pd_reason d @ '')'')"

text \<open>
  The policy is asked at most once for every pair of a capability and a host during one
  authorization (the hosts are distinct and so are the candidate capabilities), so the answers
  are a function of the pair, whatever snapshot each of them was taken from.
\<close>

type_synonym policy_oracle = "capability \<Rightarrow> host_resource option \<Rightarrow> policy_decision"

text \<open>The loop over the hosts: the denial that ended it, or the approval state it accumulated.\<close>

fun check_hosts ::
    "policy_oracle \<Rightarrow> string \<Rightarrow> capability \<Rightarrow> bool \<times> string option \<Rightarrow> host_resource list
     \<Rightarrow> string + (bool \<times> string option)" where
  "check_hosts chk tool_name c acc [] = Inr acc"
| "check_hosts chk tool_name c acc (h # hs) =
     (let d = chk c (Some h)
      in if \<not> pd_allowed d then Inl (denied_message tool_name d (Some h))
         else check_hosts chk tool_name c
           (if pd_require_approval d
            then (True, Some (''role policy requires approval for '' @ quoted (pd_capability d)
                              @ '' on host '' @ quoted (h_name h)))
            else acc) hs)"

definition check_candidate ::
    "policy_oracle \<Rightarrow> string \<Rightarrow> capability \<Rightarrow> host_resource list \<Rightarrow> string + (bool \<times> string option)" where
  "check_candidate chk tool_name c hosts =
     (if hosts = [] then
        (let d = chk c None
         in if \<not> pd_allowed d then Inl (denied_message tool_name d None)
            else if pd_require_approval d
            then Inr (True, Some (''role policy requires approval for '' @ quoted (pd_capability d)))
            else Inr (False, None))
      else check_hosts chk tool_name c (False, None) hosts)"

fun try_candidates ::
    "policy_oracle \<Rightarrow> string \<Rightarrow> host_resource list \<Rightarrow> string option \<Rightarrow> (exec_mode \<times> capability) list
     \<Rightarrow> string option + authorization" where
  "try_candidates chk tool_name hosts first_denial [] = Inl first_denial"
| "try_candidates chk tool_name hosts first_denial ((mode, c) # rest) =
     (case check_candidate chk tool_name c hosts of
        Inr (appr, reason) \<Rightarrow>
          Inr \<lparr>au_require_approval = appr, au_approval_reason = reason, au_exec_mode = mode\<rparr>
      | Inl msg \<Rightarrow>
          try_candidates chk tool_name hosts
            (case first_denial of None \<Rightarrow> Some msg | Some m \<Rightarrow> Some m) rest)"

definition candidates :: "string \<Rightarrow> capability \<Rightarrow> (exec_mode \<times> capability) list" where
  "candidates tool_name base =
     (if exec_tool_capabilities tool_name \<noteq> None
      then [(Full, CommandExec), (ReadOnly, CommandRead)] else [(Full, base)])"

definition authorize ::
    "policy_oracle \<Rightarrow> router \<Rightarrow> host_meta list \<Rightarrow> string option \<Rightarrow> string \<Rightarrow> json
     \<Rightarrow> string + authorization" where
  "authorize chk router metas who tool_name args =
     (case who of
        None \<Rightarrow> Inr authorization_default
      | Some _ \<Rightarrow>
          (case capability_for_tool tool_name of
             None \<Rightarrow> Inr authorization_default
           | Some base \<Rightarrow>
               (case try_candidates chk tool_name (resolve_call_host_resources router metas args) None
                       (candidates tool_name base) of
                  Inr au \<Rightarrow> Inr au
                | Inl first_denial \<Rightarrow>
                    (let message = (case first_denial of
                           Some m \<Rightarrow> m
                         | None \<Rightarrow> ''forbidden: '' @ quoted tool_name @ '' is not authorized'')
                     in Inl (if exec_tool_capabilities tool_name \<noteq> None
                             then message @ ''; '' @ quoted tool_name
                                  @ '' also accepts '' @ quoted ''command:read'' @ '' for read-only commands''
                             else message)))))"

section \<open>The gate\<close>

datatype command_policy = Permissive | Strict

datatype audit_kind = CommandDenied | CommandAllowed

record audit_note =
  an_action :: audit_kind
  an_host :: string
  an_detail :: string
  an_success :: bool
  an_error :: "string option"

text \<open>
  How the gate ends: an error, a denial payload (source, reason, command shown to the agent) or
  the dispatch of the tool with the decoded arguments.
\<close>

datatype gate_outcome = Refused string | Denied string string string | Dispatched json

definition policy_approval_fingerprint :: "gate_env \<Rightarrow> string \<Rightarrow> json \<Rightarrow> string" where
  "policy_approval_fingerprint env tool_name args =
     ''sha256:'' @ ge_digest env (''policy-approval'' @ [CHR 0x00] @ tool_name @ [CHR 0x00]
       @ ge_to_json env (jremove ''approval_id'' args))"

definition escalate_to_ask ::
    "gate_env \<Rightarrow> call_evaluation option \<Rightarrow> string \<Rightarrow> json \<Rightarrow> string \<Rightarrow> string option \<Rightarrow> call_evaluation option" where
  "escalate_to_ask env evaluation tool_name args approval_host reason =
     (let ask = VAsk ''policy:require_approval''
            (case reason of Some r \<Rightarrow> r | None \<Rightarrow> ''role policy requires approval'')
      in case evaluation of
           Some ev \<Rightarrow> if cv_verdict ev = VAllow then Some (ev\<lparr>cv_verdict := ask\<rparr>) else Some ev
         | None \<Rightarrow> Some \<lparr>cv_verdict = ask,
                cv_fingerprint = policy_approval_fingerprint env tool_name args,
                cv_display = (if approval_host = [] then tool_name
                              else tool_name @ '' '' @ [CHR 0xE2, CHR 0x86, CHR 0x92] @ '' '' @ approval_host),
                cv_command = None, cv_decision = None, cv_read_only = False\<rparr>)"

definition agent_visible_command :: "call_evaluation \<Rightarrow> string" where
  "agent_visible_command ev = (case cv_command ev of Some c \<Rightarrow> c | None \<Rightarrow> cv_display ev)"

definition decision_suffix :: "gate_env \<Rightarrow> decision option \<Rightarrow> string" where
  "decision_suffix env d =
     (case d of
        Some d \<Rightarrow> '' segments='' @ ge_debug env (d_commands d) @ '' hazards='' @ debug_hazards (d_hazards d)
      | None \<Rightarrow> [])"

definition read_only_permitted :: "call_evaluation option \<Rightarrow> bool" where
  "read_only_permitted evaluation \<longleftrightarrow>
     (case evaluation of Some ev \<Rightarrow> cv_verdict ev = VAllow \<and> cv_read_only ev | None \<Rightarrow> False)"

definition is_denied :: "call_evaluation option \<Rightarrow> bool" where
  "is_denied evaluation \<longleftrightarrow>
     (case evaluation of Some ev \<Rightarrow> (case cv_verdict ev of VDeny _ _ \<Rightarrow> True | _ \<Rightarrow> False) | None \<Rightarrow> False)"

definition collapse_ask :: "command_policy \<Rightarrow> call_evaluation option \<Rightarrow> call_evaluation option" where
  "collapse_ask policy evaluation =
     (case evaluation of
        Some ev \<Rightarrow> (case cv_verdict ev of
                     VAsk _ _ \<Rightarrow> if policy = Permissive then Some (ev\<lparr>cv_verdict := VAllow\<rparr>) else Some ev
                   | _ \<Rightarrow> Some ev)
      | None \<Rightarrow> None)"

text \<open>The final match on the verdict, with the audit notes it writes.\<close>

definition conclude ::
    "gate_env \<Rightarrow> json \<Rightarrow> string \<Rightarrow> call_evaluation option \<Rightarrow> gate_outcome \<times> audit_note list" where
  "conclude env args approval_host evaluation =
     (case evaluation of
        None \<Rightarrow> (Dispatched args, [])
      | Some ev \<Rightarrow>
          (let host = (case jget_str args ''host'' of
                         Some h \<Rightarrow> if h \<noteq> [] then h else approval_host | None \<Rightarrow> approval_host)
           in case cv_verdict ev of
             VAllow \<Rightarrow>
               (Dispatched args,
                case cv_decision ev of
                  Some d \<Rightarrow>
                    if prefix ''rule:'' (d_source d)
                    then [\<lparr>an_action = CommandAllowed, an_host = host,
                           an_detail = ''allow rule='' @ d_source d @ '' scope='' @ approval_host @ '' cmd=''
                                       @ cv_display ev @ decision_suffix env (cv_decision ev),
                           an_success = True, an_error = None\<rparr>]
                    else []
                | None \<Rightarrow> [])
           | VDeny source reason \<Rightarrow>
               (Denied source reason (agent_visible_command ev),
                [\<lparr>an_action = CommandDenied, an_host = host,
                  an_detail = ''deny rule='' @ source @ '' scope='' @ approval_host @ '' cmd='' @ cv_display ev
                              @ '' why='' @ reason @ decision_suffix env (cv_decision ev),
                  an_success = False, an_error = Some reason\<rparr>])
           | VAsk source reason \<Rightarrow>
               (Denied source reason (agent_visible_command ev),
                [\<lparr>an_action = CommandDenied, an_host = host,
                  an_detail = ''deny source='' @ source @ '' scope='' @ approval_host @ '' cmd='' @ cv_display ev
                              @ '' why='' @ reason,
                  an_success = False, an_error = Some reason\<rparr>])))"

definition gate_evaluated ::
    "gate_env \<Rightarrow> command_policy \<Rightarrow> authorization \<Rightarrow> string \<Rightarrow> json \<Rightarrow> call_evaluation option
     \<Rightarrow> gate_outcome \<times> audit_note list" where
  "gate_evaluated env policy au tool_name args evaluation =
     (let approval_host = approval_scope_host args
      in if au_exec_mode au = ReadOnly \<and> \<not> read_only_permitted evaluation \<and> \<not> is_denied evaluation
         then
           (let command = (case Option.bind evaluation cv_command of Some c \<Rightarrow> c | None \<Rightarrow> tool_name)
            in (Denied ''capability:read-only'' ''read-only capability does not permit this command'' command,
                [\<lparr>an_action = CommandDenied, an_host = approval_host,
                  an_detail = ''deny source=capability:read-only scope='' @ approval_host @ '' cmd='' @ command,
                  an_success = False, an_error = Some ''read-only capability''\<rparr>]))
         else conclude env args approval_host
                (collapse_ask policy
                  (if au_require_approval au
                   then escalate_to_ask env evaluation tool_name args approval_host (au_approval_reason au)
                   else evaluation)))"

text \<open>\<open>execute_tool\<close> up to the dispatch; \<open>None\<close> is a panic of the command engine.\<close>

definition execute_gate ::
    "gate_env \<Rightarrow> policy_oracle \<Rightarrow> router \<Rightarrow> host_meta list \<Rightarrow> command_policy \<Rightarrow> string option
     \<Rightarrow> string option \<Rightarrow> string \<Rightarrow> json \<Rightarrow> (gate_outcome \<times> audit_note list) option" where
  "execute_gate env chk router metas policy who caller_group tool_name args =
     (case authorize chk router metas who tool_name args of
        Inl e \<Rightarrow> Some (Refused e, [])
      | Inr au \<Rightarrow>
          (let args = normalize_payload_args tool_name args;
               groups = resolve_call_host_groups router metas args
           in case evaluate_call env caller_group tool_name args groups of
                None \<Rightarrow> None
              | Some evaluation \<Rightarrow> Some (gate_evaluated env policy au tool_name args evaluation)))"

section \<open>The strictest host group decides\<close>

interpretation strictest_call: strictest "\<lambda>ev. severity (cv_verdict ev)" .

definition group_candidates ::
    "gate_env \<Rightarrow> string \<Rightarrow> json \<Rightarrow> string option \<Rightarrow> string option \<Rightarrow> string option list \<Rightarrow> call_evaluation list" where
  "group_candidates env tool_name args command caller_group hgs =
     map (candidate env tool_name args command)
       (List.map_filter (\<lambda>hg. Option.bind (group_decision env tool_name command caller_group hg) (\<lambda>d. d)) hgs)"

lemma evaluate_groups_pick:
  assumes "evaluate_groups env tool_name args command caller_group best hgs = Some r"
  shows "r = strictest_call.pick best (group_candidates env tool_name args command caller_group hgs)
    \<and> (\<forall>hg \<in> set hgs. group_decision env tool_name command caller_group hg \<noteq> Some None)"
  using assms
proof (induction hgs arbitrary: best)
  case (Cons hg hgs)
  show ?case
  proof (cases "group_decision env tool_name command caller_group hg")
    case None
    with Cons show ?thesis by (simp add: group_candidates_def List.map_filter_simps)
  next
    case (Some od)
    with Cons.prems obtain d where d: "od = Some d" by (cases od) auto
    from Cons.prems Some d
    have "evaluate_groups env tool_name args command caller_group
        (case best of None \<Rightarrow> Some (candidate env tool_name args command d)
         | Some p \<Rightarrow> if severity (cv_verdict p) < severity (cv_verdict (candidate env tool_name args command d))
                     then Some (candidate env tool_name args command d) else Some p) hgs = Some r"
      by (auto simp: Let_def split: option.splits)
    from Cons.IH [OF this] Some d show ?thesis
      by (simp add: group_candidates_def List.map_filter_simps)
  qed
qed (simp add: group_candidates_def List.map_filter_simps)

text \<open>The host groups a call is judged for, and its command text.\<close>

definition judged_groups :: "string option list \<Rightarrow> string option list" where
  "judged_groups hgs = (if hgs = [] then [None] else hgs)"

lemma candidate_severity:
  "severity (cv_verdict (candidate env t args cmd d)) =
     (case d_effect d of Allow \<Rightarrow> 0 | Ask \<Rightarrow> 1 | Deny \<Rightarrow> 2)"
  by (simp add: candidate_def verdict_of_def split: effect.splits)

lemma evaluate_call_cases:
  assumes "evaluate_call env cg t args hgs = Some r"
    and "hg \<in> set (judged_groups hgs)"
    and "group_decision env t (extract_command t args) cg hg = Some od"
  obtains d ev where "od = Some d" and "r = Some ev"
    and "severity (cv_verdict (candidate env t args (extract_command t args) d)) \<le> severity (cv_verdict ev)"
proof -
  let ?cands = "group_candidates env t args (extract_command t args) cg (judged_groups hgs)"
  from assms(1) have e: "evaluate_groups env t args (extract_command t args) cg None (judged_groups hgs) = Some r"
    by (simp add: evaluate_call_def judged_groups_def)
  note p = evaluate_groups_pick [OF e]
  from p assms(2,3) obtain d where d: "od = Some d" by (cases od) auto
  have mem: "candidate env t args (extract_command t args) d \<in> set ?cands"
    using assms(2,3) d by (force simp: group_candidates_def List.map_filter_def)
  then have "?cands \<noteq> []" by auto
  with p strictest_call.pick_None_iff [of ?cands] obtain ev where ev: "r = Some ev" by (cases r) auto
  have "severity (cv_verdict (candidate env t args (extract_command t args) d)) \<le> severity (cv_verdict ev)"
    using strictest_call.pick_max(2) [OF _ mem, of ev] p ev by simp
  with d ev that show thesis by blast
qed

lemma group_decision_no_panic:
  "(\<And>cmd. command = Some cmd \<Longrightarrow> utf8_wf cmd) \<Longrightarrow> group_decision env t command cg hg \<noteq> Some None"
  using normalize_no_panic
  by (auto simp: group_decision_def evaluate_def Let_def split: option.splits sum.splits norm_error.splits)

lemma evaluate_groups_total:
  "(\<And>hg. group_decision env t command cg hg \<noteq> Some None) \<Longrightarrow>
     \<exists>r. evaluate_groups env t args command cg best hgs = Some r"
proof (induction hgs arbitrary: best)
  case (Cons hg hgs)
  show ?case
  proof (cases "group_decision env t command cg hg")
    case None
    with Cons show ?thesis by simp
  next
    case (Some od)
    with Cons.prems obtain d where "od = Some d" by (cases od) metis+
    with Some Cons show ?thesis by (simp add: Let_def)
  qed
qed simp

section \<open>Authorization lemmas\<close>

lemma check_hosts_Inr:
  "check_hosts chk t c acc hs = Inr r \<Longrightarrow>
     (\<forall>h \<in> set hs. pd_allowed (chk c (Some h))) \<and>
     (fst r \<longleftrightarrow> fst acc \<or> (\<exists>h \<in> set hs. pd_require_approval (chk c (Some h))))"
  by (induction hs arbitrary: acc) (auto simp: Let_def split: if_splits)

lemma check_hosts_Inl:
  "check_hosts chk t c acc hs = Inl m \<Longrightarrow> \<exists>h \<in> set hs. \<not> pd_allowed (chk c (Some h))"
  by (induction hs arbitrary: acc) (auto simp: Let_def split: if_splits)

text \<open>A capability covers a call when every host of it, or the call without host, is allowed.\<close>

definition covers_call :: "policy_oracle \<Rightarrow> capability \<Rightarrow> host_resource list \<Rightarrow> bool" where
  "covers_call chk c hosts \<longleftrightarrow>
     (if hosts = [] then pd_allowed (chk c None) else \<forall>h \<in> set hosts. pd_allowed (chk c (Some h)))"

definition call_needs_approval :: "policy_oracle \<Rightarrow> capability \<Rightarrow> host_resource list \<Rightarrow> bool" where
  "call_needs_approval chk c hosts \<longleftrightarrow>
     (if hosts = [] then pd_require_approval (chk c None)
      else \<exists>h \<in> set hosts. pd_require_approval (chk c (Some h)))"

lemma check_candidate_iff:
  "(\<exists>r. check_candidate chk t c hosts = Inr r) \<longleftrightarrow> covers_call chk c hosts"
  "check_candidate chk t c hosts = Inr r \<Longrightarrow> fst r \<longleftrightarrow> call_needs_approval chk c hosts"
proof -
  have "check_hosts chk t c (False, None) hosts = Inr r \<Longrightarrow> \<forall>h \<in> set hosts. pd_allowed (chk c (Some h))" for r
    using check_hosts_Inr by blast
  moreover have "\<forall>h \<in> set hosts. pd_allowed (chk c (Some h)) \<Longrightarrow> \<exists>r. check_hosts chk t c (False, None) hosts = Inr r"
    using check_hosts_Inl by (cases "check_hosts chk t c (False, None) hosts") blast+
  ultimately show "(\<exists>r. check_candidate chk t c hosts = Inr r) \<longleftrightarrow> covers_call chk c hosts"
    by (auto simp: check_candidate_def covers_call_def Let_def)
  show "check_candidate chk t c hosts = Inr r \<Longrightarrow> fst r \<longleftrightarrow> call_needs_approval chk c hosts"
    using check_hosts_Inr [of chk t c "(False, None)" hosts r]
    by (auto simp: check_candidate_def call_needs_approval_def Let_def split: if_splits)
qed

lemma try_candidates_Inr:
  "try_candidates chk t hosts fd cs = Inr au \<Longrightarrow>
     \<exists>pre c post. cs = pre @ (au_exec_mode au, c) # post \<and> covers_call chk c hosts
       \<and> (\<forall>(m, c') \<in> set pre. \<not> covers_call chk c' hosts)
       \<and> (au_require_approval au \<longleftrightarrow> call_needs_approval chk c hosts)"
proof (induction cs arbitrary: fd)
  case (Cons mc cs)
  obtain m c where mc: "mc = (m, c)" by (cases mc)
  show ?case
  proof (cases "check_candidate chk t c hosts")
    case (Inl msg)
    then have no: "\<not> covers_call chk c hosts" using check_candidate_iff(1) [of chk t c hosts] by simp
    from Cons.prems Inl mc obtain fd' where "try_candidates chk t hosts fd' cs = Inr au" by auto
    from Cons.IH [OF this] obtain pre c' post where "cs = pre @ (au_exec_mode au, c') # post"
      "covers_call chk c' hosts" "\<forall>(m, c') \<in> set pre. \<not> covers_call chk c' hosts"
      "au_require_approval au \<longleftrightarrow> call_needs_approval chk c' hosts" by blast
    with mc no show ?thesis by (intro exI [of _ "mc # pre"] exI [of _ c'] exI [of _ post]) auto
  next
    case (Inr r)
    then have "covers_call chk c hosts" using check_candidate_iff(1) [of chk t c hosts] by blast
    with Inr Cons.prems mc check_candidate_iff(2) [OF Inr] show ?thesis
      by (cases r) (intro exI [of _ "[]"] exI [of _ c] exI [of _ cs], auto)
  qed
qed simp

lemma authorize_Inr:
  assumes "authorize chk router metas (Some p) t args = Inr au" and "capability_for_tool t = Some base"
  obtains pre c post where "candidates t base = pre @ (au_exec_mode au, c) # post"
    and "covers_call chk c (resolve_call_host_resources router metas args)"
    and "\<forall>(m, c') \<in> set pre. \<not> covers_call chk c' (resolve_call_host_resources router metas args)"
    and "au_require_approval au \<longleftrightarrow> call_needs_approval chk c (resolve_call_host_resources router metas args)"
proof -
  from assms have "try_candidates chk t (resolve_call_host_resources router metas args) None (candidates t base) = Inr au"
    by (auto simp: authorize_def Let_def split: sum.splits)
  from try_candidates_Inr [OF this] that show thesis by blast
qed

section \<open>Gate lemmas\<close>

lemma conclude_Dispatched:
  "conclude env args ah ev = (Dispatched a, ns) \<Longrightarrow>
     a = args \<and> (\<forall>e. ev = Some e \<longrightarrow> cv_verdict e = VAllow)"
  by (auto simp: conclude_def Let_def split: option.splits verdict.splits)

lemma collapse_ask_deny: "is_denied ev \<Longrightarrow> collapse_ask policy ev = ev"
  by (auto simp: is_denied_def collapse_ask_def split: option.splits verdict.splits)

lemma escalate_deny: "is_denied ev \<Longrightarrow> escalate_to_ask env ev t args ah r = ev"
  by (auto simp: is_denied_def escalate_to_ask_def Let_def split: option.splits verdict.splits)

lemma collapse_ask_strict [simp]: "collapse_ask Strict ev = ev"
  by (auto simp: collapse_ask_def split: option.splits verdict.splits)

lemma escalate_not_allow:
  "\<exists>e. escalate_to_ask env ev t args ah r = Some e \<and> cv_verdict e \<noteq> VAllow"
  by (cases ev) (simp_all add: escalate_to_ask_def Let_def)

lemma gate_evaluated_Dispatched:
  assumes "gate_evaluated env policy au t args ev = (Dispatched a, ns)"
  shows "a = args" and "\<not> is_denied ev"
    and "au_exec_mode au = ReadOnly \<Longrightarrow> read_only_permitted ev"
    and "policy = Strict \<Longrightarrow> \<not> au_require_approval au \<and> (\<forall>e. ev = Some e \<longrightarrow> cv_verdict e = VAllow)"
proof -
  let ?ah = "approval_scope_host args"
  let ?ev = "if au_require_approval au then escalate_to_ask env ev t args ?ah (au_approval_reason au) else ev"
  have ro: "au_exec_mode au \<noteq> ReadOnly \<or> read_only_permitted ev \<or> is_denied ev"
    and c: "conclude env args ?ah (collapse_ask policy ?ev) = (Dispatched a, ns)"
    using assms by (auto simp: gate_evaluated_def Let_def split: if_splits)
  note cd = conclude_Dispatched [OF c]
  show "a = args" using cd by simp
  show nd: "\<not> is_denied ev"
  proof
    assume d: "is_denied ev"
    then have "collapse_ask policy ?ev = ev" by (simp add: escalate_deny collapse_ask_deny)
    with d cd show False by (auto simp: is_denied_def split: option.splits verdict.splits)
  qed
  show "au_exec_mode au = ReadOnly \<Longrightarrow> read_only_permitted ev" using ro nd by blast
  show "\<not> au_require_approval au \<and> (\<forall>e. ev = Some e \<longrightarrow> cv_verdict e = VAllow)" if "policy = Strict"
  proof -
    from cd that have allow: "\<forall>e. ?ev = Some e \<longrightarrow> cv_verdict e = VAllow" by (simp add: collapse_ask_strict)
    with escalate_not_allow [of env ev t args ?ah "au_approval_reason au"]
    have "\<not> au_require_approval au" by (auto split: if_splits)
    with allow show ?thesis by simp
  qed
qed

lemma execute_gate_Dispatched:
  assumes "execute_gate env chk router metas policy who cg t args = Some (Dispatched a, ns)"
  obtains au ev where "authorize chk router metas who t args = Inr au"
    and "evaluate_call env cg t a (resolve_call_host_groups router metas a) = Some ev"
    and "gate_evaluated env policy au t a ev = (Dispatched a, ns)"
    and "a = normalize_payload_args t args"
  using assms gate_evaluated_Dispatched(1)
  by (auto simp: execute_gate_def Let_def split: sum.splits option.splits; metis)

section \<open>Properties\<close>

text \<open>
  C1. Nothing is dispatched without authority: when the gate dispatches a known tool for an
  authenticated caller, one of the capabilities the tool accepts is allowed by the policy on
  every host the call names (or without host, when it names none), and no earlier candidate
  was; a caller that only holds the read-only capability gets through only when the strictest
  verdict is allow and the judged command is read-only. The dispatched arguments are the decoded
  ones that were judged.
\<close>

theorem dispatch_authorized:
  assumes "execute_gate env chk router metas policy (Some p) cg t args = Some (Dispatched a, ns)"
    and "capability_for_tool t = Some base"
  shows "a = normalize_payload_args t args
    \<and> (\<exists>pre mode c post. candidates t base = pre @ (mode, c) # post
        \<and> covers_call chk c (resolve_call_host_resources router metas args)
        \<and> (\<forall>(m, c') \<in> set pre. \<not> covers_call chk c' (resolve_call_host_resources router metas args))
        \<and> (mode = ReadOnly \<longrightarrow> (\<exists>ev. evaluate_call env cg t a (resolve_call_host_groups router metas a) = Some (Some ev)
             \<and> cv_verdict ev = VAllow \<and> cv_read_only ev)))"
proof -
  from assms(1) obtain au ev where au: "authorize chk router metas (Some p) t args = Inr au"
    and ev: "evaluate_call env cg t a (resolve_call_host_groups router metas a) = Some ev"
    and g: "gate_evaluated env policy au t a ev = (Dispatched a, ns)" and a: "a = normalize_payload_args t args"
    by (rule execute_gate_Dispatched)
  obtain pre c post where "candidates t base = pre @ (au_exec_mode au, c) # post"
    "covers_call chk c (resolve_call_host_resources router metas args)"
    "\<forall>(m, c') \<in> set pre. \<not> covers_call chk c' (resolve_call_host_resources router metas args)"
    by (rule authorize_Inr [OF au assms(2)])
  moreover have "au_exec_mode au = ReadOnly \<Longrightarrow> \<exists>e. ev = Some e \<and> cv_verdict e = VAllow \<and> cv_read_only e"
    using gate_evaluated_Dispatched(3) [OF g] by (auto simp: read_only_permitted_def split: option.splits)
  ultimately show ?thesis using a ev by blast
qed

text \<open>
  C2. Deny is final: if the command engine denies the call for any of the host groups it touches,
  the call is not dispatched, whatever the roles, the approval flags and the command policy are,
  and however many other groups allow it.
\<close>

theorem deny_blocks_dispatch:
  assumes "hg \<in> set (judged_groups (resolve_call_host_groups router metas (normalize_payload_args t args)))"
    and "group_decision env t (extract_command t (normalize_payload_args t args)) cg hg = Some (Some d)"
    and "d_effect d = Deny"
  shows "execute_gate env chk router metas policy who cg t args \<noteq> Some (Dispatched a, ns)"
proof
  assume "execute_gate env chk router metas policy who cg t args = Some (Dispatched a, ns)"
  then obtain au ev where ev: "evaluate_call env cg t a (resolve_call_host_groups router metas a) = Some ev"
    and g: "gate_evaluated env policy au t a ev = (Dispatched a, ns)" and a: "a = normalize_payload_args t args"
    by (rule execute_gate_Dispatched)
  obtain d' e where de: "Some d = Some d'" "ev = Some e"
    "severity (cv_verdict (candidate env t a (extract_command t a) d')) \<le> severity (cv_verdict e)"
    by (rule evaluate_call_cases [OF ev assms(1,2) [folded a]])
  then have "is_denied ev"
    using assms(3) by (cases "cv_verdict e") (auto simp: candidate_severity is_denied_def)
  with gate_evaluated_Dispatched(2) [OF g] show False by blast
qed

text \<open>
  C3. Under the strict command policy only what is allowed everywhere runs: a dispatched call was
  allowed by the engine for every host group it touches, and no grant that covers it demands
  approval.
\<close>

theorem strict_dispatch_allowed:
  assumes "execute_gate env chk router metas Strict (Some p) cg t args = Some (Dispatched a, ns)"
    and "capability_for_tool t = Some base"
  shows "(\<forall>hg \<in> set (judged_groups (resolve_call_host_groups router metas a)). \<forall>d.
        group_decision env t (extract_command t a) cg hg = Some (Some d) \<longrightarrow> d_effect d = Allow)
    \<and> (\<exists>mode c. (mode, c) \<in> set (candidates t base)
        \<and> covers_call chk c (resolve_call_host_resources router metas args)
        \<and> \<not> call_needs_approval chk c (resolve_call_host_resources router metas args))"
proof -
  from assms(1) obtain au ev where au: "authorize chk router metas (Some p) t args = Inr au"
    and ev: "evaluate_call env cg t a (resolve_call_host_groups router metas a) = Some ev"
    and g: "gate_evaluated env Strict au t a ev = (Dispatched a, ns)"
    by (rule execute_gate_Dispatched)
  note strict = gate_evaluated_Dispatched(4) [OF g refl]
  have "d_effect d = Allow" if "hg \<in> set (judged_groups (resolve_call_host_groups router metas a))"
    "group_decision env t (extract_command t a) cg hg = Some (Some d)" for hg d
  proof -
    note prem = that
    obtain d' e where "Some d = Some d'" "ev = Some e"
      "severity (cv_verdict (candidate env t a (extract_command t a) d')) \<le> severity (cv_verdict e)"
      by (rule evaluate_call_cases [OF ev prem])
    with strict show ?thesis by (cases "d_effect d") (auto simp: candidate_severity)
  qed
  moreover obtain pre c post where "candidates t base = pre @ (au_exec_mode au, c) # post"
    "covers_call chk c (resolve_call_host_resources router metas args)"
    "au_require_approval au \<longleftrightarrow> call_needs_approval chk c (resolve_call_host_resources router metas args)"
    by (rule authorize_Inr [OF au assms(2)])
  ultimately show ?thesis using strict by (metis in_set_conv_decomp)
qed

text \<open>
  C4. The gate always answers and every denial leaves a trace: for a UTF-8 command text the gate
  never panics, and when it ends with a denial payload it writes exactly one audit record, of a
  denied command, unsuccessful and with the reason.
\<close>

theorem gate_answers_and_audits:
  assumes "\<forall>cmd. extract_command t (normalize_payload_args t args) = Some cmd \<longrightarrow> utf8_wf cmd"
  shows "\<exists>out ns. execute_gate env chk router metas policy who cg t args = Some (out, ns)
    \<and> (\<forall>s r c. out = Denied s r c \<longrightarrow>
         (\<exists>n. ns = [n] \<and> an_action n = CommandDenied \<and> \<not> an_success n \<and> an_error n \<noteq> None))"
proof -
  let ?a = "normalize_payload_args t args"
  obtain ev where ev: "evaluate_call env cg t ?a (resolve_call_host_groups router metas ?a) = Some ev"
    using evaluate_groups_total group_decision_no_panic [OF assms [rule_format]] unfolding evaluate_call_def by metis
  have "\<exists>n. ns = [n] \<and> an_action n = CommandDenied \<and> \<not> an_success n \<and> an_error n \<noteq> None"
    if "gate_evaluated env policy au t ?a ev = (Denied s r c, ns)" for au s r c ns
    using that by (auto simp: gate_evaluated_def conclude_def Let_def split: if_splits option.splits verdict.splits)
  note audited = this
  show ?thesis
  proof (cases "authorize chk router metas who t args")
    case (Inl e)
    then show ?thesis by (simp add: execute_gate_def)
  next
    case (Inr au)
    obtain out ns where g: "gate_evaluated env policy au t ?a ev = (out, ns)"
      by (cases "gate_evaluated env policy au t ?a ev")
    with ev Inr have "execute_gate env chk router metas policy who cg t args = Some (out, ns)"
      by (simp add: execute_gate_def Let_def)
    with audited g show ?thesis by blast
  qed
qed

section \<open>Witnesses\<close>

text \<open>Two hosts in two groups, a rule set that denies \<open>rm -rf\<close> in production, a policy that allows all.\<close>

definition env0 :: gate_env where
  "env0 = \<lparr>ge_split = space_split, ge_digest = (\<lambda>s. s), ge_to_json = (\<lambda>_. []), ge_redact = [],
     ge_debug = (\<lambda>_. []), ge_kb = git_kb,
     ge_rules = \<lparr>rs_schema_version = 1, rs_rule = [deny_rm_compiled]\<rparr>\<rparr>"

definition config0 :: "string \<Rightarrow> string \<Rightarrow> host_config" where
  "config0 n g = \<lparr>hc_name = n, hc_bridge_addr = None, hc_bridge_token = None, hc_group = g, hc_tags = [],
     hc_labels = [], hc_allowed_forward_targets = None\<rparr>"

definition router0 :: router where
  "router0 = [''a'' \<mapsto> config0 ''a'' ''dev'', ''b'' \<mapsto> config0 ''b'' ''prod'']"

definition chk0 :: policy_oracle where
  "chk0 c h = \<lparr>pd_allowed = (c = CommandRead), pd_require_approval = False, pd_capability = as_str c,
     pd_matched = [], pd_reason = []\<rparr>"

definition chk1 :: policy_oracle where
  "chk1 c h = \<lparr>pd_allowed = True, pd_require_approval = False, pd_capability = as_str c,
     pd_matched = [], pd_reason = []\<rparr>"

definition log_args :: json where
  "log_args = JObj [(''command'', JStr ''git log -n''), (''hosts'', JArr [JStr ''a'', JStr ''b''])]"

definition rm_args :: json where
  "rm_args = JObj [(''command'', JStr ''rm -rf /srv''), (''hosts'', JArr [JStr ''a'', JStr ''b''])]"

lemma log_dispatched:
  "execute_gate env0 chk0 router0 [] Strict (Some ''alice'') None ''batch_exec'' log_args = Some (Dispatched log_args, [])"
  by code_simp

lemma batch_exec_capability: "capability_for_tool ''batch_exec'' = Some CommandExec"
  by code_simp

theorem dispatch_authorized_witness:
  "\<exists>pre mode c post. candidates ''batch_exec'' CommandExec = pre @ (mode, c) # post
     \<and> covers_call chk0 c (resolve_call_host_resources router0 [] log_args)"
  using dispatch_authorized [OF log_dispatched batch_exec_capability] by blast

theorem deny_blocks_dispatch_witness:
  "execute_gate env0 chk1 router0 [] Permissive (Some ''alice'') None ''batch_exec'' rm_args \<noteq> Some (Dispatched rm_args, [])"
proof -
  have g: "Some ''prod'' \<in> set (judged_groups (resolve_call_host_groups router0 [] (normalize_payload_args ''batch_exec'' rm_args)))"
    by code_simp
  obtain d where d: "group_decision env0 ''batch_exec'' (extract_command ''batch_exec''
      (normalize_payload_args ''batch_exec'' rm_args)) None (Some ''prod'') = Some (Some d)" "d_effect d = Deny"
  proof -
    have "(case group_decision env0 ''batch_exec'' (extract_command ''batch_exec''
        (normalize_payload_args ''batch_exec'' rm_args)) None (Some ''prod'') of
          Some (Some d) \<Rightarrow> d_effect d = Deny | _ \<Rightarrow> False)" by code_simp
    with that show thesis by (auto split: option.splits)
  qed
  show ?thesis by (rule deny_blocks_dispatch [OF g d])
qed

theorem strict_dispatch_allowed_witness:
  "\<exists>mode c. (mode, c) \<in> set (candidates ''batch_exec'' CommandExec)
     \<and> \<not> call_needs_approval chk0 c (resolve_call_host_resources router0 [] log_args)"
  using strict_dispatch_allowed [OF log_dispatched batch_exec_capability] by blast

theorem gate_answers_and_audits_witness:
  "\<exists>out ns. execute_gate env0 chk1 router0 [] Strict (Some ''alice'') None ''exec'' rm_args = Some (out, ns)"
proof -
  have "extract_command ''exec'' (normalize_payload_args ''exec'' rm_args) = Some ''rm -rf /srv''" by code_simp
  moreover have "utf8_wf ''rm -rf /srv''" by code_simp
  ultimately have wf: "\<forall>cmd. extract_command ''exec'' (normalize_payload_args ''exec'' rm_args) = Some cmd \<longrightarrow> utf8_wf cmd"
    by simp
  from gate_answers_and_audits [OF wf, where env = env0 and chk = chk1 and router = router0 and metas = "[]"
      and policy = Strict and who = "Some ''alice''" and cg = None]
  show ?thesis by (elim exE conjE) (intro exI)
qed

section \<open>Findings\<close>

text \<open>
  Among host groups of equal severity only the first decides the read-only class: a caller
  that may only read is let through when the group whose knowledge-base answer is read-only
  comes first, and refused for the same command and the same two hosts in the other order,
  where an allow rule of the other group (which is never read-only) comes first.
\<close>

theorem read_only_depends_on_host_order:
  "let env = env0\<lparr>ge_rules := \<lparr>rs_schema_version = 1, rs_rule = [allow_all\<lparr>r_host_group := [''prod'']\<rparr>]\<rparr>\<rparr>;
       swapped = JObj [(''command'', JStr ''git log -n''), (''hosts'', JArr [JStr ''b'', JStr ''a''])]
   in execute_gate env chk0 router0 [] Strict (Some ''alice'') None ''batch_exec'' log_args = Some (Dispatched log_args, [])
      \<and> (case execute_gate env chk0 router0 [] Strict (Some ''alice'') None ''batch_exec'' swapped of
           Some (Denied s r c, ns) \<Rightarrow> s = ''capability:read-only'' | _ \<Rightarrow> False)"
  by code_simp

end
