(* ===== verification/Api_Keys.thy ===== *)
theory Api_Keys
  imports Prelude
begin

text \<open>
  The API keys of callers (\<open>clum-mcp/src/api_keys.rs\<close>): the table of keys, the cache in front of it,
  adding, rotating, revoking and validating keys, and the system they form: a command line process
  that changes the table and a server whose requests validate keys against its cache, interleaved.

  The digest of a key is a parameter. Times are milliseconds on one clock that stands for both
  the wall clock written to the table and the monotonic clock of the cache. A stored time is one
  the program wrote, or text that does not parse. \<open>None\<close> as an outcome is a panic.
\<close>

section \<open>State\<close>

definition CACHE_TTL :: nat where
  "CACHE_TTL = 60 * 1000"

record key_record =
  k_name :: string
  k_prefix :: string
  k_expires_at :: "stamp option"
  k_revoked_at :: "stamp option"
  k_group :: "string option"

record key_row =
  kr_id :: string
  kr_hash :: string
  kr_created_at :: nat
  kr_record :: key_record

record cache_entry =
  ce_record :: key_record
  ce_cached_at :: nat

record key_store =
  ks_rows :: "key_row list"
  ks_cache :: "string \<rightharpoonup> cache_entry"

record agent_identity =
  ai_name :: string
  ai_key_prefix :: string
  ai_group :: "string option"

section \<open>Operations\<close>

definition retain :: "(cache_entry \<Rightarrow> bool) \<Rightarrow> (string \<rightharpoonup> cache_entry) \<Rightarrow> (string \<rightharpoonup> cache_entry)" where
  "retain keep m = (\<lambda>h. case m h of Some e \<Rightarrow> if keep e then Some e else None | None \<Rightarrow> None)"

definition fresh :: "nat \<Rightarrow> cache_entry \<Rightarrow> bool" where
  "fresh now e \<longleftrightarrow> now - ce_cached_at e \<le> CACHE_TTL"

text \<open>Dropping expired entries and inserting one.\<close>

definition install :: "nat \<Rightarrow> string \<Rightarrow> key_record \<Rightarrow> key_store \<Rightarrow> key_store" where
  "install now h r st =
     st\<lparr>ks_cache := (retain (fresh now) (ks_cache st))(h \<mapsto> \<lparr>ce_record = r, ce_cached_at = now\<rparr>)\<rparr>"

definition generate_key :: "string \<Rightarrow> string \<Rightarrow> string" where
  "generate_key name random_hex = ''yk_'' @ name @ ''_'' @ random_hex"

definition add_key ::
    "(string \<Rightarrow> string) \<Rightarrow> nat \<Rightarrow> string \<Rightarrow> string \<Rightarrow> string \<Rightarrow> string option \<Rightarrow> key_store
     \<Rightarrow> (string + string) option \<times> key_store" where
  "add_key sha now random_hex uid name grp st =
     (let raw = generate_key name random_hex; h = sha raw
      in case slice raw 0 (min (length raw) 16) of
           None \<Rightarrow> (None, st)
         | Some pfx \<Rightarrow>
             if uid \<in> kr_id ` set (ks_rows st) then (Some (Inl ''UNIQUE constraint failed: api_keys.id''), st)
             else
               let rcd = \<lparr>k_name = name, k_prefix = pfx, k_expires_at = None, k_revoked_at = None, k_group = grp\<rparr>;
                   st = st\<lparr>ks_rows := ks_rows st @ [\<lparr>kr_id = uid, kr_hash = h, kr_created_at = now, kr_record = rcd\<rparr>]\<rparr>
               in (Some (Inr raw), install now h rcd st))"

definition update_records :: "(key_record \<Rightarrow> key_record) \<Rightarrow> key_store \<Rightarrow> key_store" where
  "update_records f st = st\<lparr>ks_rows := map (\<lambda>r. r\<lparr>kr_record := f (kr_record r)\<rparr>) (ks_rows st)\<rparr>"

definition purge_name :: "string \<Rightarrow> key_store \<Rightarrow> key_store" where
  "purge_name name st = st\<lparr>ks_cache := retain (\<lambda>e. k_name (ce_record e) \<noteq> name) (ks_cache st)\<rparr>"

definition GRACE :: nat where
  "GRACE = 24 * 60 * 60 * 1000"

definition rotate_key ::
    "(string \<Rightarrow> string) \<Rightarrow> nat \<Rightarrow> string \<Rightarrow> string \<Rightarrow> string \<Rightarrow> key_store \<Rightarrow> (string + string) option \<times> key_store" where
  "rotate_key sha now random_hex uid name st =
     (let grp = Option.bind (find (\<lambda>r. k_name (kr_record r) = name \<and> k_revoked_at (kr_record r) = None) (ks_rows st))
                    (\<lambda>r. k_group (kr_record r));
          st = update_records (\<lambda>k. if k_name k = name \<and> k_revoked_at k = None \<and> k_expires_at k = None
                                   then k\<lparr>k_expires_at := Some (At (now + GRACE))\<rparr> else k) st
      in add_key sha now random_hex uid name grp (purge_name name st))"

definition revoke_key :: "nat \<Rightarrow> string \<Rightarrow> key_store \<Rightarrow> key_store" where
  "revoke_key now name st =
     purge_name name (update_records (\<lambda>k. if k_name k = name \<and> k_revoked_at k = None
                                          then k\<lparr>k_revoked_at := Some (At now)\<rparr> else k) st)"

definition fetch_by_hash :: "key_row list \<Rightarrow> string \<Rightarrow> key_record option" where
  "fetch_by_hash rows h = map_option kr_record (find (\<lambda>r. kr_hash r = h) rows)"

definition cached :: "nat \<Rightarrow> string \<Rightarrow> key_store \<Rightarrow> key_record option" where
  "cached now h st = (case ks_cache st h of Some e \<Rightarrow> if fresh now e then Some (ce_record e) else None | None \<Rightarrow> None)"

text \<open>The checks on a record, whether it came from the cache or from the table.\<close>

definition check_record :: "nat \<Rightarrow> key_record \<Rightarrow> agent_identity option" where
  "check_record now r =
     (if k_revoked_at r \<noteq> None then None
      else if (case k_expires_at r of Some (At x) \<Rightarrow> x < now | _ \<Rightarrow> False) then None
      else Some \<lparr>ai_name = k_name r, ai_key_prefix = k_prefix r, ai_group = k_group r\<rparr>)"

definition validate_key :: "(string \<Rightarrow> string) \<Rightarrow> nat \<Rightarrow> string \<Rightarrow> key_store \<Rightarrow> agent_identity option \<times> key_store" where
  "validate_key sha now key st =
     (let h = sha key
      in case cached now h st of
           Some r \<Rightarrow> (check_record now r, st)
         | None \<Rightarrow>
             (case fetch_by_hash (ks_rows st) h of
                None \<Rightarrow> (None, st)
              | Some r \<Rightarrow> (check_record now r, install now h r st)))"

text \<open>\<open>is_empty\<close> also answers true when its query fails (\<open>unwrap_or(true)\<close>).\<close>

definition key_store_is_empty :: "bool \<Rightarrow> key_store \<Rightarrow> bool" where
  "key_store_is_empty query_fails st \<longleftrightarrow> query_fails \<or> ks_rows st = []"

section \<open>The system\<close>

text \<open>
  Requests of the server read the cache, read the table and write the cache under separate locks,
  so other steps may come between. A request that has read the table and not yet the cache is
  pending with the record it read and the time it did; \<open>delay\<close> bounds how long that takes. The
  command line process opens the same table with a cache of its own.
\<close>

record key_system =
  sys_now :: nat
  sys_store :: key_store
  sys_pending :: "(string \<times> key_record \<times> nat) list"

inductive key_step :: "(string \<Rightarrow> string) \<Rightarrow> nat \<Rightarrow> key_system \<Rightarrow> key_system \<Rightarrow> bool"
  for sha :: "string \<Rightarrow> string" and delay :: nat where
  tick: "key_step sha delay s (s\<lparr>sys_now := sys_now s + n\<rparr>)"
| cli_add: "sha (generate_key name random_hex) \<notin> kr_hash ` set (ks_rows (sys_store s)) \<Longrightarrow>
    add_key sha (sys_now s) random_hex uid name grp (sys_store s\<lparr>ks_cache := cli_cache\<rparr>) = (res, st) \<Longrightarrow>
    key_step sha delay s (s\<lparr>sys_store := sys_store s\<lparr>ks_rows := ks_rows st\<rparr>\<rparr>)"
| cli_rotate: "sha (generate_key name random_hex) \<notin> kr_hash ` set (ks_rows (sys_store s)) \<Longrightarrow>
    rotate_key sha (sys_now s) random_hex uid name (sys_store s\<lparr>ks_cache := cli_cache\<rparr>) = (res, st) \<Longrightarrow>
    key_step sha delay s (s\<lparr>sys_store := sys_store s\<lparr>ks_rows := ks_rows st\<rparr>\<rparr>)"
| cli_revoke: "st = revoke_key (sys_now s) name (sys_store s\<lparr>ks_cache := cli_cache\<rparr>) \<Longrightarrow>
    key_step sha delay s (s\<lparr>sys_store := sys_store s\<lparr>ks_rows := ks_rows st\<rparr>\<rparr>)"
| request_fetch: "cached (sys_now s) h (sys_store s) = None \<Longrightarrow> fetch_by_hash (ks_rows (sys_store s)) h = Some r \<Longrightarrow>
    key_step sha delay s (s\<lparr>sys_pending := (h, r, sys_now s) # sys_pending s\<rparr>)"
| request_install: "(h, r, t) \<in> set (sys_pending s) \<Longrightarrow> sys_now s \<le> t + delay \<Longrightarrow>
    key_step sha delay s (s\<lparr>sys_store := install (sys_now s) h r (sys_store s),
                            sys_pending := remove1 (h, r, t) (sys_pending s)\<rparr>)"

text \<open>The identity a request is given: from a fresh cache entry, or from its pending record.\<close>

definition accepts :: "nat \<Rightarrow> key_system \<Rightarrow> string \<Rightarrow> agent_identity \<Rightarrow> bool" where
  "accepts delay s h i \<longleftrightarrow>
     (\<exists>r. cached (sys_now s) h (sys_store s) = Some r \<and> check_record (sys_now s) r = Some i)
     \<or> (\<exists>r t. (h, r, t) \<in> set (sys_pending s) \<and> sys_now s \<le> t + delay \<and> check_record (sys_now s) r = Some i)"

definition started :: "key_system \<Rightarrow> bool" where
  "started s \<longleftrightarrow> ks_cache (sys_store s) = Map.empty \<and> sys_pending s = []"

inductive key_reachable :: "(string \<Rightarrow> string) \<Rightarrow> nat \<Rightarrow> key_system \<Rightarrow> bool"
  for sha :: "string \<Rightarrow> string" and delay :: nat where
  start: "started s \<Longrightarrow> key_reachable sha delay s"
| step: "key_reachable sha delay s \<Longrightarrow> key_step sha delay s t \<Longrightarrow> key_reachable sha delay t"

section \<open>The table under updates\<close>

lemma fetch_update [simp]:
  "fetch_by_hash (ks_rows (update_records f st)) h = map_option f (fetch_by_hash (ks_rows st) h)"
proof -
  have "fetch_by_hash (map (\<lambda>r. r\<lparr>kr_record := f (kr_record r)\<rparr>) rows) h = map_option f (fetch_by_hash rows h)" for rows
    by (induction rows) (simp_all add: fetch_by_hash_def)
  from this [of "ks_rows st"] show ?thesis by (simp add: update_records_def)
qed

lemma purge_rows [simp]: "ks_rows (purge_name name st) = ks_rows st"
  by (simp add: purge_name_def)

lemma fetch_append:
  "fetch_by_hash (rows @ [r]) h =
     (case fetch_by_hash rows h of Some x \<Rightarrow> Some x | None \<Rightarrow> if kr_hash r = h then Some (kr_record r) else None)"
  by (induction rows) (simp_all add: fetch_by_hash_def)

lemma fetch_None: "h \<notin> kr_hash ` set rows \<Longrightarrow> fetch_by_hash rows h = None"
  by (induction rows) (auto simp: fetch_by_hash_def)

text \<open>
  No operation removes a key or undoes a revocation; only revoking adds one, stamped with the
  current time.
\<close>

definition rows_grow :: "nat \<Rightarrow> key_row list \<Rightarrow> key_row list \<Rightarrow> bool" where
  "rows_grow now rows rows' \<longleftrightarrow> (\<forall>h r'. fetch_by_hash rows' h = Some r' \<longrightarrow>
     (case fetch_by_hash rows h of
        None \<Rightarrow> k_revoked_at r' = None
      | Some r \<Rightarrow> k_revoked_at r' = k_revoked_at r \<or> k_revoked_at r = None \<and> k_revoked_at r' = Some (At now)))"

lemma rows_grow_refl: "rows_grow now rows rows"
  by (simp add: rows_grow_def)

lemma add_key_grows: "add_key sha now rnd uid name grp st = (res, st') \<Longrightarrow> rows_grow now (ks_rows st) (ks_rows st')"
  by (auto simp: add_key_def Let_def install_def rows_grow_def fetch_append split: option.splits if_splits)

lemma revoke_key_grows: "rows_grow now (ks_rows st) (ks_rows (revoke_key now name st))"
  by (auto simp: revoke_key_def rows_grow_def split: option.splits if_splits)

lemma rotate_key_grows:
  assumes "rotate_key sha now rnd uid name st = (res, st')"
  shows "rows_grow now (ks_rows st) (ks_rows st')"
proof -
  define f where "f k = (if k_name k = name \<and> k_revoked_at k = None \<and> k_expires_at k = None
    then k\<lparr>k_expires_at := Some (At (now + GRACE))\<rparr> else k)" for k :: key_record
  from assms obtain grp where "add_key sha now rnd uid name grp (purge_name name (update_records f st)) = (res, st')"
    by (auto simp: rotate_key_def Let_def f_def [abs_def])
  from add_key_grows [OF this] have g: "rows_grow now (ks_rows (update_records f st)) (ks_rows st')" by simp
  have rv: "k_revoked_at (f k) = k_revoked_at k" for k by (simp add: f_def)
  show ?thesis
    unfolding rows_grow_def
  proof (intro allI impI)
    fix h r' assume "fetch_by_hash (ks_rows st') h = Some r'"
    with g have "case fetch_by_hash (ks_rows (update_records f st)) h of None \<Rightarrow> k_revoked_at r' = None
      | Some r \<Rightarrow> k_revoked_at r' = k_revoked_at r \<or> k_revoked_at r = None \<and> k_revoked_at r' = Some (At now)"
      unfolding rows_grow_def by blast
    then show "case fetch_by_hash (ks_rows st) h of None \<Rightarrow> k_revoked_at r' = None
      | Some r \<Rightarrow> k_revoked_at r' = k_revoked_at r \<or> k_revoked_at r = None \<and> k_revoked_at r' = Some (At now)"
      by (cases "fetch_by_hash (ks_rows st) h") (simp_all add: rv)
  qed
qed

section \<open>The invariant of the system\<close>

text \<open>
  A record that was read as not revoked was read before any revocation the table now shows, and a
  cache entry is at most \<open>delay\<close> younger than the reading of its record.
\<close>

definition read_before :: "key_row list \<Rightarrow> string \<Rightarrow> key_record \<Rightarrow> nat \<Rightarrow> bool" where
  "read_before rows h r t \<longleftrightarrow> (k_revoked_at r = None \<longrightarrow>
     (\<forall>r' x. fetch_by_hash rows h = Some r' \<longrightarrow> k_revoked_at r' = Some (At x) \<longrightarrow> t \<le> x))"

definition key_inv :: "nat \<Rightarrow> key_system \<Rightarrow> bool" where
  "key_inv delay s \<longleftrightarrow>
     (\<forall>(h, r, t) \<in> set (sys_pending s). t \<le> sys_now s \<and> fetch_by_hash (ks_rows (sys_store s)) h \<noteq> None
        \<and> read_before (ks_rows (sys_store s)) h r t)
     \<and> (\<forall>h e. ks_cache (sys_store s) h = Some e \<longrightarrow> ce_cached_at e \<le> sys_now s
          \<and> fetch_by_hash (ks_rows (sys_store s)) h \<noteq> None
          \<and> read_before (ks_rows (sys_store s)) h (ce_record e) (ce_cached_at e - delay))"

lemma read_before_grows:
  assumes "read_before rows h r t" and "rows_grow now rows rows'" and "t \<le> now" and "fetch_by_hash rows h \<noteq> None"
  shows "read_before rows' h r t"
  using assms unfolding read_before_def rows_grow_def by (fastforce split: option.splits)

lemma fetch_grows_add: "add_key sha now rnd uid name grp st = (res, st') \<Longrightarrow>
    fetch_by_hash (ks_rows st) h \<noteq> None \<Longrightarrow> fetch_by_hash (ks_rows st') h \<noteq> None"
  by (auto simp: add_key_def Let_def install_def fetch_append split: option.splits if_splits)

lemma fetch_grows_revoke: "fetch_by_hash (ks_rows st) h \<noteq> None \<Longrightarrow> fetch_by_hash (ks_rows (revoke_key now name st)) h \<noteq> None"
  by (simp add: revoke_key_def)

lemma fetch_grows_rotate: "rotate_key sha now rnd uid name st = (res, st') \<Longrightarrow>
    fetch_by_hash (ks_rows st) h \<noteq> None \<Longrightarrow> fetch_by_hash (ks_rows st') h \<noteq> None"
  by (auto simp: rotate_key_def Let_def dest!: fetch_grows_add [where h = h])

text \<open>A change of the table by the other process keeps the invariant.\<close>

lemma key_inv_rows:
  assumes "key_inv delay s" and "rows_grow (sys_now s) (ks_rows (sys_store s)) rows"
    and "\<And>h. fetch_by_hash (ks_rows (sys_store s)) h \<noteq> None \<Longrightarrow> fetch_by_hash rows h \<noteq> None"
  shows "key_inv delay (s\<lparr>sys_store := sys_store s\<lparr>ks_rows := rows\<rparr>\<rparr>)"
proof -
  note rb = read_before_grows [OF _ assms(2)]
  show ?thesis
    unfolding key_inv_def
  proof (intro conjI ballI allI impI)
    fix p assume "p \<in> set (sys_pending (s\<lparr>sys_store := sys_store s\<lparr>ks_rows := rows\<rparr>\<rparr>))"
    with assms(1,3) rb show "case p of (h, r, t) \<Rightarrow> t \<le> sys_now (s\<lparr>sys_store := sys_store s\<lparr>ks_rows := rows\<rparr>\<rparr>) \<and>
        fetch_by_hash (ks_rows (sys_store (s\<lparr>sys_store := sys_store s\<lparr>ks_rows := rows\<rparr>\<rparr>))) h \<noteq> None \<and>
        read_before (ks_rows (sys_store (s\<lparr>sys_store := sys_store s\<lparr>ks_rows := rows\<rparr>\<rparr>))) h r t"
      by (cases p) (force simp: key_inv_def)
  next
    fix h e assume "ks_cache (sys_store (s\<lparr>sys_store := sys_store s\<lparr>ks_rows := rows\<rparr>\<rparr>)) h = Some e"
    then have e: "ks_cache (sys_store s) h = Some e" by simp
    with assms(1) have i: "ce_cached_at e \<le> sys_now s" "fetch_by_hash (ks_rows (sys_store s)) h \<noteq> None"
      "read_before (ks_rows (sys_store s)) h (ce_record e) (ce_cached_at e - delay)" by (auto simp: key_inv_def)
    then show "ce_cached_at e \<le> sys_now (s\<lparr>sys_store := sys_store s\<lparr>ks_rows := rows\<rparr>\<rparr>)" by simp
    show "fetch_by_hash (ks_rows (sys_store (s\<lparr>sys_store := sys_store s\<lparr>ks_rows := rows\<rparr>\<rparr>))) h \<noteq> None"
      using i(2) assms(3) by simp
    show "read_before (ks_rows (sys_store (s\<lparr>sys_store := sys_store s\<lparr>ks_rows := rows\<rparr>\<rparr>))) h (ce_record e) (ce_cached_at e - delay)"
      using rb [OF i(3) _ i(2)] i(1) by simp
  qed
qed

lemma retain_Some: "retain keep m h = Some e \<longleftrightarrow> m h = Some e \<and> keep e"
  by (auto simp: retain_def split: option.splits)

lemma key_inv_install:
  assumes "key_inv delay s" and "(h, r, t) \<in> set (sys_pending s)" and "sys_now s \<le> t + delay"
  shows "key_inv delay (s\<lparr>sys_store := install (sys_now s) h r (sys_store s), sys_pending := remove1 (h, r, t) (sys_pending s)\<rparr>)"
proof -
  from assms(1,2) have p: "fetch_by_hash (ks_rows (sys_store s)) h \<noteq> None" "read_before (ks_rows (sys_store s)) h r t"
    by (auto simp: key_inv_def)
  from p(2) assms(3) have "read_before (ks_rows (sys_store s)) h r (sys_now s - delay)"
    by (fastforce simp: read_before_def)
  with assms(1) p show ?thesis
    by (auto simp: key_inv_def install_def retain_Some dest: set_remove1_subset [THEN subsetD])
qed

lemma key_step_inv: "key_step sha delay s t \<Longrightarrow> key_inv delay s \<Longrightarrow> key_inv delay t"
proof (induction rule: key_step.induct)
  case (tick s n)
  then show ?case by (force simp: key_inv_def)
next
  case (cli_add name random_hex s uid grp cli_cache res st)
  show ?case
    by (rule key_inv_rows [OF cli_add.prems])
      (use add_key_grows [OF cli_add.hyps(2)] fetch_grows_add [OF cli_add.hyps(2)] in auto)
next
  case (cli_rotate name random_hex s uid cli_cache res st)
  show ?case
    by (rule key_inv_rows [OF cli_rotate.prems])
      (use rotate_key_grows [OF cli_rotate.hyps(2)] fetch_grows_rotate [OF cli_rotate.hyps(2)] in auto)
next
  case (cli_revoke st s name cli_cache)
  show ?case
    by (rule key_inv_rows [OF cli_revoke.prems], unfold cli_revoke.hyps)
      (use revoke_key_grows [of "sys_now s" "sys_store s\<lparr>ks_cache := cli_cache\<rparr>" name]
         fetch_grows_revoke [of "sys_store s\<lparr>ks_cache := cli_cache\<rparr>"] in auto)
next
  case (request_fetch s h r)
  then show ?case by (auto simp: key_inv_def read_before_def)
next
  case (request_install h r t s)
  then show ?case by (intro key_inv_install)
qed

lemma key_reachable_inv: "key_reachable sha delay s \<Longrightarrow> key_inv delay s"
proof (induction rule: key_reachable.induct)
  case (start s)
  then show ?case by (simp add: key_inv_def started_def)
next
  case (step s t)
  then show ?case by (blast intro: key_step_inv)
qed

lemma check_record_unrevoked: "check_record now r = Some i \<Longrightarrow> k_revoked_at r = None"
  by (simp add: check_record_def split: if_splits)

text \<open>
  The prefix kept for display is cut at byte 16 of the key: a name that puts a character across
  that byte makes \<open>add_key\<close> panic, as one of five three-byte characters does.
\<close>

lemma add_key_panics:
  assumes "16 \<le> length (generate_key name rnd)" and "\<not> starts_boundary (drop 16 (generate_key name rnd))"
  shows "add_key sha now rnd uid name grp st = (None, st)"
proof -
  have "slice (generate_key name rnd) 0 (min (length (generate_key name rnd)) 16) = None"
    using assms by (simp add: slice_def min_absorb2)
  then show ?thesis by (simp add: add_key_def)
qed

lemma add_key_panics_example:
  "add_key sha now rnd uid (concat (replicate 5 [CHR 0xE7, CHR 0x94, CHR 0x9F])) grp st = (None, st)"
  by (rule add_key_panics)
    (simp_all add: generate_key_def eval_nat_numeral starts_boundary_def is_cont_def byte_of_def)

section \<open>Properties\<close>

text \<open>
  C28. A revoked key stops working within a minute, whatever interleaving of requests and changes
  led there: in every reachable state of the server and the command line process, a request for a
  key that the table shows revoked since time \<open>x\<close> is given an identity only up to a minute
  after \<open>x\<close>, plus the time a request may take between reading the table and writing the cache.
\<close>

theorem revocation_bound:
  assumes "key_reachable sha delay s" and "accepts delay s h i"
    and "fetch_by_hash (ks_rows (sys_store s)) h = Some r" and "k_revoked_at r = Some (At x)"
  shows "sys_now s \<le> x + CACHE_TTL + delay"
proof -
  have inv: "key_inv delay s" using assms(1) by (rule key_reachable_inv)
  from assms(2) consider
      (hit) r' where "cached (sys_now s) h (sys_store s) = Some r'" "check_record (sys_now s) r' = Some i"
    | (miss) r' t where "(h, r', t) \<in> set (sys_pending s)" "sys_now s \<le> t + delay" "check_record (sys_now s) r' = Some i"
    unfolding accepts_def by blast
  then show ?thesis
  proof cases
    case hit
    then obtain e where e: "ks_cache (sys_store s) h = Some e" "fresh (sys_now s) e" "ce_record e = r'"
      by (auto simp: cached_def split: option.splits if_splits)
    with inv have "read_before (ks_rows (sys_store s)) h r' (ce_cached_at e - delay)" by (auto simp: key_inv_def)
    with check_record_unrevoked [OF hit(2)] assms(3,4) have "ce_cached_at e - delay \<le> x" by (simp add: read_before_def)
    with e(2) show ?thesis by (simp add: fresh_def)
  next
    case miss
    with inv have "read_before (ks_rows (sys_store s)) h r' t" by (auto simp: key_inv_def)
    with check_record_unrevoked [OF miss(3)] assms(3,4) have "t \<le> x" by (simp add: read_before_def)
    with miss(2) show ?thesis by simp
  qed
qed

text \<open>
  The other operations in one process: a key just added is accepted, a revocation takes effect at
  once, and rotating keeps the old key until its day of grace is over.
\<close>

lemma add_then_validate:
  assumes "add_key sha now rnd uid name grp st = (Some (Inr raw), st')" and "now \<le> t" and "t \<le> now + CACHE_TTL"
  shows "\<exists>i. validate_key sha t raw st' = (Some i, st') \<and> ai_name i = name \<and> ai_group i = grp"
  using assms
  by (auto simp: add_key_def Let_def install_def validate_key_def cached_def fresh_def check_record_def
      split: option.splits if_splits)

lemma revoke_then_validate:
  assumes "\<forall>r. fetch_by_hash (ks_rows st) (sha key) = Some r \<longrightarrow> k_name r = name"
    and "\<forall>e. ks_cache st (sha key) = Some e \<longrightarrow> k_name (ce_record e) = name"
  shows "fst (validate_key sha t key (revoke_key now name st)) = None"
proof -
  let ?st = "revoke_key now name st"
  have "ks_cache ?st (sha key) = None"
  proof (cases "ks_cache ?st (sha key)")
    case (Some e)
    with assms(2) show ?thesis
      by (simp add: revoke_key_def purge_name_def update_records_def retain_Some)
  qed
  then have "cached t (sha key) ?st = None" by (simp add: cached_def)
  moreover have "k_revoked_at r \<noteq> None" if r: "fetch_by_hash (ks_rows ?st) (sha key) = Some r" for r
  proof -
    from r obtain r0 where r0: "fetch_by_hash (ks_rows st) (sha key) = Some r0"
      "r = (if k_name r0 = name \<and> k_revoked_at r0 = None then r0\<lparr>k_revoked_at := Some (At now)\<rparr> else r0)"
      by (auto simp: revoke_key_def)
    with assms(1) show ?thesis by (cases "k_revoked_at r0 = None") simp_all
  qed
  ultimately show ?thesis by (auto simp: validate_key_def check_record_def Let_def split: option.splits)
qed

section \<open>Witnesses\<close>

text \<open>A key in the table, read by a request, then revoked before the request writes the cache.\<close>

definition rec0 :: key_record where
  "rec0 = \<lparr>k_name = ''ops'', k_prefix = ''yk_ops'', k_expires_at = None, k_revoked_at = None, k_group = None\<rparr>"

definition sys0 :: key_system where
  "sys0 = \<lparr>sys_now = 0, sys_store = \<lparr>ks_rows = [\<lparr>kr_id = ''1'', kr_hash = ''h'', kr_created_at = 0, kr_record = rec0\<rparr>],
     ks_cache = Map.empty\<rparr>, sys_pending = []\<rparr>"

definition sys1 :: key_system where
  "sys1 = sys0\<lparr>sys_pending := [(''h'', rec0, 0)]\<rparr>"

definition sys2 :: key_system where
  "sys2 = sys1\<lparr>sys_store := sys_store sys1\<lparr>ks_rows := ks_rows (revoke_key 0 ''ops'' (sys_store sys1\<lparr>ks_cache := Map.empty\<rparr>))\<rparr>\<rparr>"

definition sys3 :: key_system where
  "sys3 = sys2\<lparr>sys_store := install 0 ''h'' rec0 (sys_store sys2), sys_pending := []\<rparr>"

definition sys4 :: key_system where
  "sys4 = sys3\<lparr>sys_now := 60000\<rparr>"

lemmas sys_defs = sys0_def sys1_def sys2_def sys3_def sys4_def rec0_def

lemma sys4_reachable: "key_reachable sha 0 sys4"
proof -
  have 0: "key_reachable sha 0 sys0" by (rule key_reachable.start) (simp add: started_def sys_defs)
  have "key_step sha 0 sys0 (sys0\<lparr>sys_pending := (''h'', rec0, sys_now sys0) # sys_pending sys0\<rparr>)"
    by (rule key_step.request_fetch) (simp_all add: sys_defs cached_def fetch_by_hash_def)
  then have 1: "key_reachable sha 0 sys1" using key_reachable.step [OF 0] by (simp add: sys_defs)
  have "key_step sha 0 sys1 sys2"
    unfolding sys2_def using key_step.cli_revoke [OF refl, of sha 0 sys1 "''ops''" Map.empty] by (simp add: sys1_def sys0_def)
  then have 2: "key_reachable sha 0 sys2" by (rule key_reachable.step [OF 1])
  have now: "sys_now sys2 = 0" "sys_pending sys2 = [(''h'', rec0, 0)]" by (simp_all add: sys2_def sys1_def sys0_def)
  have "key_step sha 0 sys2 (sys2\<lparr>sys_store := install (sys_now sys2) ''h'' rec0 (sys_store sys2),
      sys_pending := remove1 (''h'', rec0, 0) (sys_pending sys2)\<rparr>)"
    by (rule key_step.request_install) (simp_all add: now)
  then have "key_step sha 0 sys2 sys3" by (simp add: sys3_def now)
  then have 3: "key_reachable sha 0 sys3" by (rule key_reachable.step [OF 2])
  have "key_step sha 0 sys3 (sys3\<lparr>sys_now := sys_now sys3 + 60000\<rparr>)" by (rule key_step.tick)
  then have "key_step sha 0 sys3 sys4" by (simp add: sys4_def sys3_def now)
  then show ?thesis by (rule key_reachable.step [OF 3])
qed

theorem revocation_bound_witness:
  "accepts 0 sys4 ''h'' \<lparr>ai_name = ''ops'', ai_key_prefix = ''yk_ops'', ai_group = None\<rparr>
   \<and> sys_now sys4 \<le> 0 + CACHE_TTL + 0"
proof -
  have acc: "accepts 0 sys4 ''h'' \<lparr>ai_name = ''ops'', ai_key_prefix = ''yk_ops'', ai_group = None\<rparr>"
    by (simp add: accepts_def sys_defs cached_def install_def fresh_def CACHE_TTL_def check_record_def)
  have row: "fetch_by_hash (ks_rows (sys_store sys4)) ''h'' = Some (rec0\<lparr>k_revoked_at := Some (At 0)\<rparr>)"
    by (simp add: sys_defs install_def revoke_key_def update_records_def purge_name_def fetch_by_hash_def)
  show ?thesis using acc revocation_bound [OF sys4_reachable [of id] acc row, of 0] by simp
qed

end
