(* ===== verification/Bridge_Store.thy ===== *)
theory Bridge_Store
  imports Prelude
begin

text \<open>
  The bridges a server knows and their tokens (\<open>clum-mcp/src/bridge_store.rs\<close>,
  \<open>token_rotation.rs\<close>): enrolling, revoking and re-joining a bridge, rotating its token with a
  grace period for the previous one, the two ways a token is checked (a query, and the map the
  server keeps in memory), host metadata, and the rotation of expired tokens.

  The digest of a token, the printing and parsing of tags and labels and the random tokens are
  parameters. The table is the list of its rows in row order. \<open>None\<close> as an outcome is a panic.
\<close>

section \<open>State\<close>

record bridge_row =
  br_token_hash :: string
  br_token_prefix :: string
  br_hostname :: string
  br_tags :: string
  br_labels :: string
  br_created_at :: stamp
  br_revoked_at :: "nat option"
  br_host_group :: string
  br_previous :: "string option"
  br_rotated_at :: "nat option"

record bridge_entry =
  be_hostname :: string
  be_token_prefix :: string
  be_created_at :: stamp
  be_revoked :: bool

text \<open>The columns declared as keys.\<close>

definition bridges_ok :: "bridge_row list \<Rightarrow> bool" where
  "bridges_ok rows \<longleftrightarrow> distinct (map br_token_hash rows) \<and> distinct (map br_hostname rows)"

section \<open>Operations\<close>

text \<open>\<open>INSERT OR REPLACE\<close>: rows that conflict on either key are deleted.\<close>

definition add_bridge ::
    "(string \<Rightarrow> string) \<Rightarrow> nat \<Rightarrow> string \<Rightarrow> string \<Rightarrow> string \<Rightarrow> string option \<Rightarrow> bridge_row list
     \<Rightarrow> bridge_row list option" where
  "add_bridge sha now hostname token tags_json grp rows =
     (case slice token 0 (min (length token) 8) of
        None \<Rightarrow> None
      | Some pfx \<Rightarrow>
          Some (filter (\<lambda>r. br_token_hash r \<noteq> sha token \<and> br_hostname r \<noteq> hostname) rows @
            [\<lparr>br_token_hash = sha token, br_token_prefix = pfx, br_hostname = hostname, br_tags = tags_json,
              br_labels = ''{}'', br_created_at = At now, br_revoked_at = None,
              br_host_group = (case grp of Some g \<Rightarrow> g | None \<Rightarrow> []), br_previous = None, br_rotated_at = None\<rparr>]))"

definition remove_bridge :: "nat \<Rightarrow> string \<Rightarrow> bridge_row list \<Rightarrow> bridge_row list" where
  "remove_bridge now hostname rows =
     map (\<lambda>r. if br_hostname r = hostname \<and> br_revoked_at r = None then r\<lparr>br_revoked_at := Some now\<rparr> else r) rows"

text \<open>An \<open>UPDATE\<close> that sets a new token: it fails when another row has that digest.\<close>

definition update_token ::
    "(bridge_row \<Rightarrow> bool) \<Rightarrow> string \<Rightarrow> (bridge_row \<Rightarrow> bridge_row) \<Rightarrow> bridge_row list \<Rightarrow> string + bridge_row list" where
  "update_token p h f rows =
     (if (\<exists>r \<in> set rows. p r) \<and> (\<exists>r \<in> set rows. \<not> p r \<and> br_token_hash r = h)
      then Inl ''UNIQUE constraint failed: bridges.token_hash''
      else Inr (map (\<lambda>r. if p r then (f r)\<lparr>br_token_hash := h\<rparr> else r) rows))"

definition join_bridge ::
    "(string \<Rightarrow> string) \<Rightarrow> string \<Rightarrow> string \<Rightarrow> bridge_row list \<Rightarrow> (string + string) \<times> bridge_row list" where
  "join_bridge sha token hostname rows =
     (case update_token (\<lambda>r. br_hostname r = hostname) (sha token)
             (\<lambda>r. r\<lparr>br_token_prefix := take 8 token, br_revoked_at := None, br_previous := None, br_rotated_at := None\<rparr>) rows of
        Inl e \<Rightarrow> (Inl e, rows)
      | Inr rows' \<Rightarrow>
          if \<not> (\<exists>r \<in> set rows. br_hostname r = hostname) then (Inl (''bridge '' @ hostname @ '' not found''), rows')
          else (Inr token, rows'))"

text \<open>\<open>ORDER BY created_at\<close> compares the texts of the column; \<open>txt\<close> prints a stored time.\<close>

definition list_bridges :: "(stamp \<Rightarrow> string) \<Rightarrow> bridge_row list \<Rightarrow> bridge_entry list" where
  "list_bridges txt rows =
     map (\<lambda>r. \<lparr>be_hostname = br_hostname r, be_token_prefix = br_token_prefix r, be_created_at = br_created_at r,
              be_revoked = (br_revoked_at r \<noteq> None)\<rparr>)
       (sort_key (\<lambda>r. txt (br_created_at r)) rows)"

definition GRACE_MS :: nat where
  "GRACE_MS = 12 * 60 * 60 * 1000"

text \<open>\<open>previous_token_hash IS NOT NULL AND rotated_at > cutoff\<close>, with the cutoff twelve hours ago.\<close>

definition in_grace :: "nat \<Rightarrow> bridge_row \<Rightarrow> bool" where
  "in_grace now r \<longleftrightarrow> (case br_rotated_at r of Some t \<Rightarrow> now < t + GRACE_MS | None \<Rightarrow> False)"

definition token_map :: "nat \<Rightarrow> bridge_row list \<Rightarrow> (string \<rightharpoonup> string)" where
  "token_map now rows =
     (let live = filter (\<lambda>r. br_revoked_at r = None) rows;
          m = foldl (\<lambda>m r. m(br_token_hash r \<mapsto> br_hostname r)) Map.empty live;
          prev = filter (\<lambda>r. br_previous r \<noteq> None \<and> in_grace now r) live
      in foldl (\<lambda>m r. case br_previous r of
           Some h \<Rightarrow> (if m h = None then m(h \<mapsto> br_hostname r) else m) | None \<Rightarrow> m) m prev)"

definition validate_token :: "(string \<Rightarrow> string) \<Rightarrow> nat \<Rightarrow> string \<Rightarrow> bridge_row list \<Rightarrow> bool" where
  "validate_token sha now raw_token rows =
     (let h = sha raw_token
      in if \<exists>r \<in> set rows. br_token_hash r = h \<and> br_revoked_at r = None then True
         else \<exists>r \<in> set rows. br_previous r = Some h \<and> br_revoked_at r = None \<and> in_grace now r)"

definition rotate_token ::
    "(string \<Rightarrow> string) \<Rightarrow> nat \<Rightarrow> string \<Rightarrow> string \<Rightarrow> bridge_row list \<Rightarrow> (string + bridge_row list) option" where
  "rotate_token sha now hostname new_token rows =
     (case slice new_token 0 (min (length new_token) 8) of
        None \<Rightarrow> None
      | Some pfx \<Rightarrow>
          Some (update_token (\<lambda>r. br_hostname r = hostname \<and> br_revoked_at r = None) (sha new_token)
            (\<lambda>r. r\<lparr>br_previous := Some (br_token_hash r), br_rotated_at := Some now, br_token_prefix := pfx,
                   br_created_at := At now\<rparr>) rows))"

definition set_host_meta ::
    "string \<Rightarrow> string option \<Rightarrow> string option \<Rightarrow> string option \<Rightarrow> bridge_row list \<Rightarrow> bool \<times> bridge_row list" where
  "set_host_meta hostname grp tags_json labels_json rows =
     (if \<not> (\<exists>r \<in> set rows. br_hostname r = hostname) then (False, rows)
      else (True, map (\<lambda>r. if br_hostname r \<noteq> hostname then r
        else r\<lparr>br_host_group := (case grp of Some g \<Rightarrow> g | None \<Rightarrow> br_host_group r),
               br_tags := (case tags_json of Some t \<Rightarrow> t | None \<Rightarrow> br_tags r),
               br_labels := (case labels_json of Some l \<Rightarrow> l | None \<Rightarrow> br_labels r)\<rparr>) rows))"

section \<open>Rotating expired tokens\<close>

definition token_is_due :: "int \<Rightarrow> u64 \<Rightarrow> bool" where
  "token_is_due age_hours ttl_hours \<longleftrightarrow> sint ttl_hours \<le> age_hours"

text \<open>\<open>num_hours\<close> of a difference of times, which truncates toward zero.\<close>

definition num_hours :: "nat \<Rightarrow> nat \<Rightarrow> int" where
  "num_hours now created =
     (if created \<le> now then int ((now - created) div 3600000) else - int ((created - now) div 3600000))"

text \<open>
  What the loop meets outside: whether the query of the bridges fails (the list is then empty),
  which bridges are connected, the random token drawn for each (or a failure of the random source),
  whether sending it succeeds, and whether the update of the table after that fails.
\<close>

record rotation_env =
  re_list_fails :: bool
  re_online :: "string \<Rightarrow> bool"
  re_token :: "string \<Rightarrow> string option"
  re_sent :: "string \<Rightarrow> bool"
  re_db_fails :: "string \<Rightarrow> bool"

text \<open>The bridges to which a new token was sent, with it, and the table.\<close>

fun rotate_loop ::
    "(string \<Rightarrow> string) \<Rightarrow> rotation_env \<Rightarrow> nat \<Rightarrow> u64 \<Rightarrow> bridge_entry list \<Rightarrow> bridge_row list
     \<Rightarrow> ((string \<times> string) list \<times> bridge_row list) option" where
  "rotate_loop sha env now ttl [] rows = Some ([], rows)"
| "rotate_loop sha env now ttl (b # bs) rows =
     (if be_revoked b then rotate_loop sha env now ttl bs rows
      else case be_created_at b of
        Unparsable _ \<Rightarrow> rotate_loop sha env now ttl bs rows
      | At created \<Rightarrow>
          if \<not> token_is_due (num_hours now created) ttl then rotate_loop sha env now ttl bs rows
          else if \<not> re_online env (be_hostname b) then rotate_loop sha env now ttl bs rows
          else case re_token env (be_hostname b) of
            None \<Rightarrow> rotate_loop sha env now ttl bs rows
          | Some new_token \<Rightarrow>
              if \<not> re_sent env (be_hostname b) then rotate_loop sha env now ttl bs rows
              else case (if re_db_fails env (be_hostname b) then Some (Inl ''database error'')
                         else rotate_token sha now (be_hostname b) new_token rows) of
                None \<Rightarrow> None
              | Some res \<Rightarrow>
                  map_option (\<lambda>(sent, rows). ((be_hostname b, new_token) # sent, rows))
                    (rotate_loop sha env now ttl bs (case res of Inl _ \<Rightarrow> rows | Inr rows' \<Rightarrow> rows')))"

definition rotate_expired_tokens ::
    "(string \<Rightarrow> string) \<Rightarrow> (stamp \<Rightarrow> string) \<Rightarrow> rotation_env \<Rightarrow> nat \<Rightarrow> u64 \<Rightarrow> bridge_row list
     \<Rightarrow> ((string \<times> string) list \<times> bridge_row list) option" where
  "rotate_expired_tokens sha txt env now ttl rows =
     rotate_loop sha env now ttl (if re_list_fails env then [] else list_bridges txt rows) rows"

section \<open>The two checks of a token\<close>

text \<open>A row that accepts a digest: the current token of a live row, or its previous one in grace.\<close>

definition accepts_hash :: "nat \<Rightarrow> string \<Rightarrow> bridge_row \<Rightarrow> bool" where
  "accepts_hash now h r \<longleftrightarrow> br_revoked_at r = None \<and> (br_token_hash r = h \<or> br_previous r = Some h \<and> in_grace now r)"

lemma validate_token_iff: "validate_token sha now t rows \<longleftrightarrow> (\<exists>r \<in> set rows. accepts_hash now (sha t) r)"
  by (auto simp: validate_token_def accepts_hash_def Let_def)

lemma current_map:
  "foldl (\<lambda>m r. m(br_token_hash r \<mapsto> br_hostname r)) m live h =
     (case find (\<lambda>r. br_token_hash r = h) (rev live) of Some r \<Rightarrow> Some (br_hostname r) | None \<Rightarrow> m h)"
  by (induction live arbitrary: m) (auto simp: find_append split: option.splits)

lemma previous_map:
  "foldl (\<lambda>m r. case br_previous r of Some h \<Rightarrow> (if m h = None then m(h \<mapsto> br_hostname r) else m) | None \<Rightarrow> m) m prev h =
     (case m h of Some x \<Rightarrow> Some x
      | None \<Rightarrow> map_option br_hostname (find (\<lambda>r. br_previous r = Some h) prev))"
  by (induction prev arbitrary: m) (auto split: option.splits)

lemma token_map_lookup:
  "token_map now rows h =
     (let live = filter (\<lambda>r. br_revoked_at r = None) rows
      in case find (\<lambda>r. br_token_hash r = h) (rev live) of
           Some r \<Rightarrow> Some (br_hostname r)
         | None \<Rightarrow> map_option br_hostname
             (find (\<lambda>r. br_previous r = Some h) (filter (\<lambda>r. br_previous r \<noteq> None \<and> in_grace now r) live)))"
  by (simp add: token_map_def current_map previous_map Let_def split: option.splits)

lemma find_mem: "find P xs = Some x \<Longrightarrow> x \<in> set xs \<and> P x"
  by (induction xs) (auto split: if_splits)

lemma token_map_owner:
  assumes "token_map now rows h = Some host"
  shows "\<exists>r \<in> set rows. br_hostname r = host \<and> accepts_hash now h r"
proof (cases "find (\<lambda>r. br_token_hash r = h) (rev (filter (\<lambda>r. br_revoked_at r = None) rows))")
  case None
  with assms obtain r where "find (\<lambda>r. br_previous r = Some h)
      (filter (\<lambda>r. br_previous r \<noteq> None \<and> in_grace now r) (filter (\<lambda>r. br_revoked_at r = None) rows)) = Some r"
    "br_hostname r = host" by (auto simp: token_map_lookup Let_def)
  from find_mem [OF this(1)] this(2) show ?thesis by (auto simp: accepts_hash_def)
next
  case (Some r)
  with assms find_mem [OF Some] show ?thesis by (auto simp: token_map_lookup accepts_hash_def)
qed

lemma token_map_dom: "token_map now rows h \<noteq> None \<longleftrightarrow> (\<exists>r \<in> set rows. accepts_hash now h r)"
proof
  assume "\<exists>r \<in> set rows. accepts_hash now h r"
  then obtain r where r: "r \<in> set rows" "accepts_hash now h r" ..
  show "token_map now rows h \<noteq> None"
  proof
    assume none: "token_map now rows h = None"
    then have "find (\<lambda>r. br_token_hash r = h) (rev (filter (\<lambda>r. br_revoked_at r = None) rows)) = None"
      by (simp add: token_map_lookup Let_def split: option.splits)
    with none r show False by (auto simp: token_map_lookup accepts_hash_def find_None_iff)
  qed
qed (use token_map_owner in blast)

section \<open>Rotation of one token and of all expired ones\<close>

definition rotated :: "(string \<Rightarrow> string) \<Rightarrow> nat \<Rightarrow> string \<Rightarrow> bridge_row \<Rightarrow> bridge_row" where
  "rotated sha now token r =
     r\<lparr>br_previous := Some (br_token_hash r), br_rotated_at := Some now, br_token_prefix := take 8 token,
       br_created_at := At now, br_token_hash := sha token\<rparr>"

definition rotate_sent :: "(string \<Rightarrow> string) \<Rightarrow> nat \<Rightarrow> (string \<rightharpoonup> string) \<Rightarrow> bridge_row \<Rightarrow> bridge_row" where
  "rotate_sent sha now sent r =
     (case sent (br_hostname r) of Some t \<Rightarrow> if br_revoked_at r = None then rotated sha now t r else r | None \<Rightarrow> r)"

lemma rotate_sent_simps [simp]:
  "br_hostname (rotate_sent sha now sent r) = br_hostname r"
  "br_revoked_at (rotate_sent sha now sent r) = br_revoked_at r"
  by (simp_all add: rotate_sent_def rotated_def split: option.splits)

definition ascii :: "string \<Rightarrow> bool" where
  "ascii s \<longleftrightarrow> (\<forall>c \<in> set s. byte_of c < 128)"

lemma ascii_slice: "ascii s \<Longrightarrow> slice s 0 (min (length s) 8) = Some (take 8 s)"
proof -
  assume a: "ascii s"
  then have "starts_boundary (drop n s)" for n
    using set_drop_subset [of n s]
    by (cases "drop n s") (auto simp: ascii_def starts_boundary_def is_cont_def)
  from this [of 0] this [of "min (length s) 8"] show ?thesis by (simp add: slice_def min_def)
qed

text \<open>The tokens drawn are ASCII and their digests differ from each other.\<close>

definition drawn_ok :: "(string \<Rightarrow> string) \<Rightarrow> rotation_env \<Rightarrow> bool" where
  "drawn_ok sha env \<longleftrightarrow>
     (\<forall>b t. re_token env b = Some t \<longrightarrow> ascii t
        \<and> (\<forall>b' t'. re_token env b' = Some t' \<longrightarrow> sha t = sha t' \<longrightarrow> b = b'))"

lemma rotate_token_drawn:
  assumes "ascii t" and "\<forall>r \<in> set rows. br_token_hash r \<noteq> sha t"
  shows "rotate_token sha now host t rows = Some (Inr (map (rotate_sent sha now [host \<mapsto> t]) rows))"
proof -
  have "map (\<lambda>r. if br_hostname r = host \<and> br_revoked_at r = None
        then r\<lparr>br_previous := Some (br_token_hash r), br_rotated_at := Some now, br_token_prefix := take 8 t,
               br_created_at := At now\<rparr>\<lparr>br_token_hash := sha t\<rparr> else r) rows
      = map (rotate_sent sha now [host \<mapsto> t]) rows"
    by (rule map_cong) (auto simp: rotate_sent_def rotated_def)
  moreover have "\<not> (\<exists>r \<in> set rows. \<not> p r \<and> br_token_hash r = sha t)" for p using assms(2) by auto
  ultimately show ?thesis using assms(1) by (simp only: rotate_token_def ascii_slice update_token_def simp_thms if_False option.case)
qed

text \<open>The tokens that were sent and then put into the table.\<close>

definition stored :: "rotation_env \<Rightarrow> (string \<times> string) list \<Rightarrow> (string \<rightharpoonup> string)" where
  "stored env sent = map_of (filter (\<lambda>(host, t). \<not> re_db_fails env host) sent)"

lemma stored_simps [simp]:
  "stored env [] = Map.empty"
  "stored env ((host, t) # sent) = (if re_db_fails env host then stored env sent else (stored env sent)(host \<mapsto> t))"
  by (simp_all add: stored_def)

lemma stored_Some: "stored env sent host = Some t \<Longrightarrow> (host, t) \<in> set sent"
  by (auto simp: stored_def dest!: map_of_SomeD)

lemma stored_mem:
  assumes "(host, t) \<in> set sent" and "distinct (map fst sent)" and "\<not> re_db_fails env host"
  shows "stored env sent host = Some t"
proof -
  have "distinct (map fst (filter (\<lambda>(host, t). \<not> re_db_fails env host) sent))"
    using assms(2) by (rule distinct_map_filter)
  then show ?thesis using assms(1,3) by (simp add: stored_def)
qed

lemma rotate_loop_spec:
  assumes "distinct (map be_hostname bs)" and "drawn_ok sha env"
    and "\<forall>b \<in> set bs. \<forall>t. re_token env (be_hostname b) = Some t \<longrightarrow> (\<forall>r \<in> set rows. br_token_hash r \<noteq> sha t)"
  shows "\<exists>sent. rotate_loop sha env now ttl bs rows = Some (sent, map (rotate_sent sha now (stored env sent)) rows)
    \<and> fst ` set sent \<subseteq> be_hostname ` set bs \<and> (\<forall>(b, t) \<in> set sent. re_token env b = Some t)
    \<and> distinct (map fst sent)"
  using assms
proof (induction bs arbitrary: rows)
  case Nil
  show ?case by (simp add: rotate_sent_def)
next
  case (Cons b bs)
  let ?h = "be_hostname b"
  have skip: ?case if "rotate_loop sha env now ttl (b # bs) rows = rotate_loop sha env now ttl bs rows"
  proof -
    have "\<exists>sent. rotate_loop sha env now ttl bs rows = Some (sent, map (rotate_sent sha now (stored env sent)) rows)
      \<and> fst ` set sent \<subseteq> be_hostname ` set bs \<and> (\<forall>(b, t) \<in> set sent. re_token env b = Some t)
    \<and> distinct (map fst sent)"
      by (rule Cons.IH) (use Cons.prems in auto)
    then show ?thesis unfolding that by auto
  qed
  have h: "?h \<notin> be_hostname ` set bs" using Cons.prems(1) by simp
  let ?goes = "\<lambda>created t. \<not> be_revoked b \<and> be_created_at b = At created \<and> token_is_due (num_hours now created) ttl
      \<and> re_online env ?h \<and> re_token env ?h = Some t \<and> re_sent env ?h"
  consider (skipped) "\<nexists>created t. ?goes created t" | (lost) created t where "?goes created t" "re_db_fails env ?h"
    | (stored) created t where "?goes created t" "\<not> re_db_fails env ?h" by blast
  then show ?case
  proof cases
    case skipped
    then have "rotate_loop sha env now ttl (b # bs) rows = rotate_loop sha env now ttl bs rows"
      by (auto split: stamp.splits option.splits)
    then show ?thesis by (rule skip)
  next
    case (lost created t)
    have "\<exists>sent. rotate_loop sha env now ttl bs rows = Some (sent, map (rotate_sent sha now (stored env sent)) rows)
      \<and> fst ` set sent \<subseteq> be_hostname ` set bs \<and> (\<forall>(b, t) \<in> set sent. re_token env b = Some t)
      \<and> distinct (map fst sent)"
      by (rule Cons.IH) (use Cons.prems in auto)
    then obtain sent where "rotate_loop sha env now ttl bs rows = Some (sent, map (rotate_sent sha now (stored env sent)) rows)"
      "fst ` set sent \<subseteq> be_hostname ` set bs" "\<forall>(b, t) \<in> set sent. re_token env b = Some t" "distinct (map fst sent)" by blast
    with lost h show ?thesis by (intro exI [of _ "(?h, t) # sent"]) auto
  next
    case (stored created t)
    then have t: "\<not> be_revoked b" "be_created_at b = At created" "token_is_due (num_hours now created) ttl"
      "re_online env ?h" "re_token env ?h = Some t" "re_sent env ?h" "\<not> re_db_fails env ?h" by blast+
    let ?rows = "map (rotate_sent sha now [?h \<mapsto> t]) rows"
    have fresh: "ascii t" "\<forall>r \<in> set rows. br_token_hash r \<noteq> sha t"
      using t(5) Cons.prems(2,3) by (auto simp: drawn_ok_def)
    have hash: "br_token_hash (rotate_sent sha now [?h \<mapsto> t] r) = br_token_hash r
        \<or> br_token_hash (rotate_sent sha now [?h \<mapsto> t] r) = sha t" for r
      by (simp add: rotate_sent_def rotated_def)
    have ne: "sha t' \<noteq> sha t" if "b' \<in> set bs" "re_token env (be_hostname b') = Some t'" for b' t'
    proof
      assume "sha t' = sha t"
      with that(2) t(5) Cons.prems(2) have "be_hostname b' = ?h" by (auto simp: drawn_ok_def)
      moreover have "?h \<notin> be_hostname ` set bs" using Cons.prems(1) by simp
      ultimately show False using that(1) by (metis imageI)
    qed
    have "\<exists>sent. rotate_loop sha env now ttl bs ?rows = Some (sent, map (rotate_sent sha now (stored env sent)) ?rows)
      \<and> fst ` set sent \<subseteq> be_hostname ` set bs \<and> (\<forall>(b, t) \<in> set sent. re_token env b = Some t)
    \<and> distinct (map fst sent)"
    proof (rule Cons.IH)
      show "distinct (map be_hostname bs)" using Cons.prems(1) by simp
      show "drawn_ok sha env" by (rule Cons.prems(2))
      show "\<forall>b \<in> set bs. \<forall>t. re_token env (be_hostname b) = Some t \<longrightarrow> (\<forall>r \<in> set ?rows. br_token_hash r \<noteq> sha t)"
      proof (intro ballI allI impI)
        fix b' t' r' assume b': "b' \<in> set bs" "re_token env (be_hostname b') = Some t'" and "r' \<in> set ?rows"
        then obtain r where r: "r \<in> set rows" "r' = rotate_sent sha now [?h \<mapsto> t] r" by auto
        have "br_token_hash r \<noteq> sha t'" using Cons.prems(3) b' r(1) by simp
        with hash [of r] ne [OF b'] r(2) show "br_token_hash r' \<noteq> sha t'" by metis
      qed
    qed
    then obtain sent where sent: "rotate_loop sha env now ttl bs ?rows = Some (sent, map (rotate_sent sha now (stored env sent)) ?rows)"
      "fst ` set sent \<subseteq> be_hostname ` set bs" "\<forall>(b, t) \<in> set sent. re_token env b = Some t"
      "distinct (map fst sent)" by blast
    from h sent(2) have nh: "?h \<notin> fst ` set sent" by blast
    then have no: "stored env sent ?h = None" by (auto simp: stored_def map_of_eq_None_iff)
    have eq: "map (rotate_sent sha now (stored env sent)) ?rows = map (rotate_sent sha now (stored env ((?h, t) # sent))) rows"
      unfolding map_map
      by (rule map_cong) (use no t(7) in \<open>simp_all add: rotate_sent_def rotated_def split: option.splits\<close>)
    have "rotate_loop sha env now ttl (b # bs) rows = Some ((?h, t) # sent, map (rotate_sent sha now (stored env sent)) ?rows)"
      by (simp add: t rotate_token_drawn [where sha = sha, OF fresh] sent(1) del: map_map)
    then have "rotate_loop sha env now ttl (b # bs) rows =
        Some ((?h, t) # sent, map (rotate_sent sha now (stored env ((?h, t) # sent))) rows)" unfolding eq .
    moreover have "fst ` set ((?h, t) # sent) \<subseteq> be_hostname ` set (b # bs)" using sent(2) by auto
    moreover have "\<forall>(b, t) \<in> set ((?h, t) # sent). re_token env b = Some t" using sent(3) t(5) by simp
    moreover have "distinct (map fst ((?h, t) # sent))" using nh sent(4) by simp
    ultimately show ?thesis by blast
  qed
qed

section \<open>Keys of the table\<close>

lemma add_bridge_ok: "bridges_ok rows \<Longrightarrow> add_bridge sha now host t tags grp rows = Some rows' \<Longrightarrow> bridges_ok rows'"
  by (auto simp: bridges_ok_def add_bridge_def distinct_map_filter split: option.splits)

lemma map_same_keys:
  "(\<And>r. br_hostname (f r) = br_hostname r) \<Longrightarrow> (\<And>r. br_token_hash (f r) = br_token_hash r) \<Longrightarrow>
     bridges_ok (map f rows) = bridges_ok rows"
  by (simp add: bridges_ok_def o_def)

lemma remove_bridge_ok: "bridges_ok (remove_bridge now host rows) = bridges_ok rows"
  unfolding remove_bridge_def by (rule map_same_keys) simp_all

lemma update_token_ok:
  assumes "bridges_ok rows" and "update_token p h f rows = Inr rows'"
    and "\<And>r. br_hostname (f r) = br_hostname r" and "\<And>r. p r \<Longrightarrow> br_hostname r = host"
  shows "bridges_ok rows'"
proof -
  have rows': "rows' = map (\<lambda>r. if p r then (f r)\<lparr>br_token_hash := h\<rparr> else r) rows"
    and free: "\<And>r. r \<in> set rows \<Longrightarrow> p r \<Longrightarrow> (\<forall>x \<in> set rows. \<not> p x \<longrightarrow> br_token_hash x \<noteq> h)"
    using assms(2) by (auto simp: update_token_def split: if_splits)
  have hosts: "map br_hostname rows' = map br_hostname rows" using assms(3) by (simp add: rows')
  have "distinct (map br_token_hash rows')"
    unfolding distinct_map
  proof (intro conjI)
    have host: "distinct rows" "inj_on br_token_hash (set rows)" "inj_on br_hostname (set rows)"
      using assms(1) by (simp_all add: bridges_ok_def distinct_map)
    have "distinct (map br_hostname rows')" using assms(1) hosts by (simp add: bridges_ok_def)
    then show "distinct rows'" by (simp add: distinct_map)
    show "inj_on br_token_hash (set rows')"
    proof (rule inj_onI)
      fix a b assume "a \<in> set rows'" "b \<in> set rows'" "br_token_hash a = br_token_hash b"
      then obtain x y where xy: "x \<in> set rows" "y \<in> set rows" "a = (if p x then (f x)\<lparr>br_token_hash := h\<rparr> else x)"
        "b = (if p y then (f y)\<lparr>br_token_hash := h\<rparr> else y)" unfolding rows' set_map by (elim imageE)
      show "a = b"
      proof (cases "p x \<longleftrightarrow> p y")
        case True
        have "x = y"
        proof (cases "p x")
          case px: True
          with True assms(4) have "br_hostname x = br_hostname y" by metis
          then show ?thesis using host(3) xy(1,2) by (auto dest: inj_onD)
        next
          case False
          with True xy \<open>br_token_hash a = br_token_hash b\<close> have "br_token_hash x = br_token_hash y" by simp
          then show ?thesis using host(2) xy(1,2) by (auto dest: inj_onD)
        qed
        with xy show ?thesis by simp
      next
        case False
        with xy \<open>br_token_hash a = br_token_hash b\<close> free show ?thesis by (auto split: if_splits)
      qed
    qed
  qed
  with hosts show ?thesis using assms(1) by (simp add: bridges_ok_def)
qed

lemma join_bridge_ok: "bridges_ok rows \<Longrightarrow> bridges_ok (snd (join_bridge sha t host rows))"
proof -
  assume ok: "bridges_ok rows"
  show ?thesis
  proof (cases "update_token (\<lambda>r. br_hostname r = host) (sha t)
      (\<lambda>r. r\<lparr>br_token_prefix := take 8 t, br_revoked_at := None, br_previous := None, br_rotated_at := None\<rparr>) rows")
    case (Inl e)
    with ok show ?thesis by (simp add: join_bridge_def)
  next
    case (Inr rows')
    have "bridges_ok rows'" by (rule update_token_ok [OF ok Inr, where host = host]) simp_all
    with Inr show ?thesis by (simp add: join_bridge_def)
  qed
qed

lemma rotate_token_ok:
  assumes "bridges_ok rows" and "rotate_token sha now host t rows = Some (Inr rows')"
  shows "bridges_ok rows'"
proof -
  from assms(2) obtain pfx where "update_token (\<lambda>r. br_hostname r = host \<and> br_revoked_at r = None) (sha t)
      (\<lambda>r. r\<lparr>br_previous := Some (br_token_hash r), br_rotated_at := Some now, br_token_prefix := pfx, br_created_at := At now\<rparr>)
      rows = Inr rows'"
    by (auto simp: rotate_token_def split: option.splits)
  then show ?thesis by (rule update_token_ok [OF assms(1), where host = host]) simp_all
qed

lemma rotate_sent_ok:
  assumes "bridges_ok rows" and "drawn_ok sha env"
    and "\<forall>b t. re_token env b = Some t \<longrightarrow> (\<forall>r \<in> set rows. br_token_hash r \<noteq> sha t)"
    and "\<And>b t. sent b = Some t \<Longrightarrow> re_token env b = Some t"
  shows "bridges_ok (map (rotate_sent sha now sent) rows)"
proof -
  let ?f = "rotate_sent sha now sent"
  have ok: "distinct rows" "inj_on br_hostname (set rows)" "inj_on br_token_hash (set rows)"
    "distinct (map br_hostname rows)"
    using assms(1) by (simp_all add: bridges_ok_def distinct_map)
  have cases: "br_token_hash (?f r) = br_token_hash r \<or> (\<exists>t. sent (br_hostname r) = Some t \<and> br_token_hash (?f r) = sha t)" for r
    by (simp add: rotate_sent_def rotated_def split: option.splits)
  have "x = y" if xy: "x \<in> set rows" "y \<in> set rows" "br_token_hash (?f x) = br_token_hash (?f y)" for x y
  proof -
    consider (old) "br_token_hash (?f x) = br_token_hash x" "br_token_hash (?f y) = br_token_hash y"
      | (mixed) b t r where "sent b = Some t" "r \<in> set rows" "br_token_hash r = sha t"
      | (new) t u where "sent (br_hostname x) = Some t" "sent (br_hostname y) = Some u" "sha t = sha u"
      using cases [of x] cases [of y] xy by metis
    then show ?thesis
    proof cases
      case old
      with xy(3) have "br_token_hash x = br_token_hash y" by simp
      then show ?thesis using ok(3) xy(1,2) by (auto dest: inj_onD)
    next
      case mixed
      with assms(3,4) show ?thesis by metis
    next
      case new
      then have "br_hostname x = br_hostname y" using assms(2,4) unfolding drawn_ok_def by metis
      then show ?thesis using ok(2) xy(1,2) by (auto dest: inj_onD)
    qed
  qed
  then have "distinct (map (\<lambda>r. br_token_hash (?f r)) rows)" using ok(1) by (auto simp: distinct_map inj_on_def)
  moreover have "map br_hostname (map ?f rows) = map br_hostname rows" by simp
  ultimately show ?thesis using ok(4) by (simp add: bridges_ok_def o_def)
qed

text \<open>Only live rows of the table are rotated, so a token that was sent is in the table.\<close>

lemma rotate_loop_live:
  assumes "rotate_loop sha env now ttl bs rows = Some (sent, rows')" and "(host, t) \<in> set sent"
  shows "\<exists>b \<in> set bs. be_hostname b = host \<and> \<not> be_revoked b"
  using assms
proof (induction bs arbitrary: rows sent rows')
  case (Cons b bs)
  show ?case
  proof (cases "rotate_loop sha env now ttl (b # bs) rows = rotate_loop sha env now ttl bs rows")
    case True
    with Cons show ?thesis by (metis list.set_intros(2))
  next
    case False
    then have live: "\<not> be_revoked b" by auto
    from False Cons.prems(1) obtain res rows1 sent1 tk where
      "rotate_loop sha env now ttl bs rows1 = Some (sent1, res)" "sent = (be_hostname b, tk) # sent1"
      by (auto split: stamp.splits option.splits if_splits)
    with Cons.IH [of rows1 sent1 res] Cons.prems(2) live show ?thesis by auto
  qed
qed simp

lemma sent_accepted:
  assumes "rotate_loop sha env now ttl (list_bridges txt rows) rows = Some (sent, map (rotate_sent sha now (stored env sent)) rows)"
    and "(host, t) \<in> set sent" and "distinct (map fst sent)" and "\<not> re_db_fails env host"
  shows "validate_token sha later t (map (rotate_sent sha now (stored env sent)) rows)"
proof -
  from rotate_loop_live [OF assms(1,2)] obtain r where r: "r \<in> set rows" "br_hostname r = host" "br_revoked_at r = None"
    by (auto simp: list_bridges_def)
  have m: "stored env sent host = Some t" by (rule stored_mem [OF assms(2-4)])
  have mem: "rotate_sent sha now (stored env sent) r \<in> set (map (rotate_sent sha now (stored env sent)) rows)" using r(1) by simp
  show ?thesis
    unfolding validate_token_iff
    by (rule bexI [OF _ mem]) (use r m in \<open>simp add: accepts_hash_def rotate_sent_def rotated_def\<close>)
qed

text \<open>A removed bridge holds no token any more, and re-joining leaves it only the new one.\<close>

lemma remove_bridge_revokes: "token_map later (remove_bridge now host rows) h \<noteq> Some host"
proof
  assume "token_map later (remove_bridge now host rows) h = Some host"
  from token_map_owner [OF this] obtain x where x: "x \<in> set (remove_bridge now host rows)" "br_hostname x = host"
    "br_revoked_at x = None" by (auto simp: accepts_hash_def)
  from x(1) obtain r where r: "x = (if br_hostname r = host \<and> br_revoked_at r = None then r\<lparr>br_revoked_at := Some now\<rparr> else r)"
    unfolding remove_bridge_def set_map by (elim imageE)
  show False
  proof (cases "br_hostname r = host \<and> br_revoked_at r = None")
    case True
    with x(3) r show False by simp
  next
    case False
    then have "x = r" using r by (simp only: if_False)
    with x(2,3) False show False by simp
  qed
qed

lemma join_bridge_only_new:
  assumes "join_bridge sha t host rows = (Inr t, rows')" and "token_map later rows' h = Some host"
  shows "h = sha t"
proof -
  from assms(1) have rows': "rows' = map (\<lambda>r. if br_hostname r = host then r\<lparr>br_token_prefix := take 8 t, br_revoked_at := None,
      br_previous := None, br_rotated_at := None\<rparr>\<lparr>br_token_hash := sha t\<rparr> else r) rows"
    by (simp add: join_bridge_def update_token_def split: if_splits)
  from token_map_owner [OF assms(2)] obtain x where x: "x \<in> set rows'" "br_hostname x = host"
    "accepts_hash later h x" by blast
  from x(1) obtain r where r: "x = (if br_hostname r = host then r\<lparr>br_token_prefix := take 8 t, br_revoked_at := None,
      br_previous := None, br_rotated_at := None\<rparr>\<lparr>br_token_hash := sha t\<rparr> else r)"
    unfolding rows' set_map by (elim imageE)
  show ?thesis
  proof (cases "br_hostname r = host")
    case True
    with x(3) r show ?thesis by (simp add: accepts_hash_def)
  next
    case False
    with x(2) r show ?thesis by simp
  qed
qed

section \<open>Properties\<close>

text \<open>
  The two checks of a bridge token agree: the query accepts a token exactly when its digest is
  in the map the server keeps in memory, and the map names a host that holds that token, as its
  current one or as its previous one in the grace period.
\<close>

theorem token_checks_agree:
  "(validate_token sha now token rows \<longleftrightarrow> token_map now rows (sha token) \<noteq> None)
   \<and> (\<forall>host. token_map now rows (sha token) = Some host \<longrightarrow>
        (\<exists>r \<in> set rows. br_hostname r = host \<and> accepts_hash now (sha token) r))"
proof (intro conjI allI impI)
  show "validate_token sha now token rows \<longleftrightarrow> token_map now rows (sha token) \<noteq> None"
    unfolding validate_token_iff token_map_dom ..
qed (rule token_map_owner)

text \<open>
  C35. What a sweep over the expired tokens leaves behind: whatever bridges are connected and
  whichever sends and updates succeed, the loop ends without a panic and the keys of the table stay
  unique; the token every live bridge held before is accepted for another twelve hours, so a bridge
  that did not store the new token still connects; every token that was sent and whose update of the
  table did not fail is accepted from then on; and where the update failed the row is as before. The
  tokens drawn are ASCII, with digests that are new to the table and differ from each other.
\<close>

theorem rotation_keeps_bridges:
  assumes "bridges_ok rows" and "drawn_ok sha env"
    and "\<forall>b t. re_token env b = Some t \<longrightarrow> (\<forall>r \<in> set rows. br_token_hash r \<noteq> sha t)"
  shows "\<exists>sent rows'. rotate_expired_tokens sha txt env now ttl rows = Some (sent, rows') \<and> bridges_ok rows'
    \<and> (\<forall>r \<in> set rows. br_revoked_at r = None \<longrightarrow>
         (\<forall>t later. sha t = br_token_hash r \<longrightarrow> later < now + GRACE_MS \<longrightarrow> validate_token sha later t rows'))
    \<and> (\<forall>(host, t) \<in> set sent. \<not> re_db_fails env host \<longrightarrow> (\<forall>later. validate_token sha later t rows'))
    \<and> (\<forall>r \<in> set rows. re_db_fails env (br_hostname r) \<longrightarrow> r \<in> set rows')"
proof -
  let ?bs = "if re_list_fails env then [] else list_bridges txt rows"
  have hosts: "map be_hostname (list_bridges txt rows) = map br_hostname (sort_key (\<lambda>r. txt (br_created_at r)) rows)"
    by (simp add: list_bridges_def o_def)
  have dist: "distinct (map be_hostname ?bs)"
  proof -
    have "distinct (map be_hostname (list_bridges txt rows))"
      using assms(1) unfolding hosts by (simp add: bridges_ok_def distinct_map)
    then show ?thesis by simp
  qed
  have "\<exists>sent. rotate_loop sha env now ttl ?bs rows = Some (sent, map (rotate_sent sha now (stored env sent)) rows)
    \<and> fst ` set sent \<subseteq> be_hostname ` set ?bs \<and> (\<forall>(b, t) \<in> set sent. re_token env b = Some t)
    \<and> distinct (map fst sent)"
    by (rule rotate_loop_spec [OF dist assms(2)]) (use assms(3) in blast)
  then obtain sent where s: "rotate_loop sha env now ttl ?bs rows = Some (sent, map (rotate_sent sha now (stored env sent)) rows)"
    "\<forall>(b, t) \<in> set sent. re_token env b = Some t" "distinct (map fst sent)" by blast
  let ?rows' = "map (rotate_sent sha now (stored env sent)) rows"
  have tok: "re_token env b = Some t" if "stored env sent b = Some t" for b t
    using s(2) stored_Some [OF that] by auto
  have "bridges_ok ?rows'" by (rule rotate_sent_ok [OF assms tok])
  moreover have "\<forall>(host, t) \<in> set sent. \<not> re_db_fails env host \<longrightarrow> (\<forall>later. validate_token sha later t ?rows')"
    using sent_accepted [OF _ _ s(3)] s(1) by (cases "re_list_fails env") auto
  moreover have "validate_token sha later t ?rows'"
    if "r \<in> set rows" "br_revoked_at r = None" "sha t = br_token_hash r" "later < now + GRACE_MS" for r t later
    unfolding validate_token_iff
    by (rule bexI [of _ "rotate_sent sha now (stored env sent) r"])
      (use that in \<open>simp_all add: accepts_hash_def rotate_sent_def rotated_def in_grace_def split: option.splits\<close>)
  moreover have "r \<in> set ?rows'" if "r \<in> set rows" "re_db_fails env (br_hostname r)" for r
  proof -
    have "stored env sent (br_hostname r) = None" using that(2) by (auto simp: stored_def map_of_eq_None_iff)
    then have "rotate_sent sha now (stored env sent) r = r" by (simp add: rotate_sent_def)
    with that(1) show ?thesis by (metis image_eqI list.set_map)
  qed
  ultimately show ?thesis using s(1) by (auto simp: rotate_expired_tokens_def)
qed

section \<open>Witnesses\<close>

definition bridge0 :: bridge_row where
  "bridge0 = \<lparr>br_token_hash = ''old'', br_token_prefix = ''old'', br_hostname = ''web'', br_tags = ''[]'', br_labels = ''{}'',
     br_created_at = At 0, br_revoked_at = None, br_host_group = [], br_previous = None, br_rotated_at = None\<rparr>"

definition env0 :: rotation_env where
  "env0 = \<lparr>re_list_fails = False, re_online = (\<lambda>_. True), re_token = [''web'' \<mapsto> ''new''], re_sent = (\<lambda>_. True),
     re_db_fails = (\<lambda>_. False)\<rparr>"

theorem rotation_keeps_bridges_witness:
  "\<exists>sent rows'. rotate_expired_tokens id (\<lambda>_. []) env0 7 0 [bridge0] = Some (sent, rows')
     \<and> validate_token id 8 ''old'' rows'"
proof -
  have ok: "bridges_ok [bridge0]" by (simp add: bridges_ok_def)
  have drawn: "drawn_ok id env0" by (auto simp: drawn_ok_def env0_def ascii_def byte_of_def split: if_splits)
  have new: "\<forall>b t. re_token env0 b = Some t \<longrightarrow> (\<forall>r \<in> set [bridge0]. br_token_hash r \<noteq> id t)"
    by (simp add: env0_def bridge0_def)
  from rotation_keeps_bridges [OF ok drawn new, of "\<lambda>_. []" 7 0]
  obtain sent rows' where "rotate_expired_tokens id (\<lambda>_. []) env0 7 0 [bridge0] = Some (sent, rows')"
    "\<forall>r \<in> set [bridge0]. br_revoked_at r = None \<longrightarrow>
       (\<forall>t later. id t = br_token_hash r \<longrightarrow> later < 7 + GRACE_MS \<longrightarrow> validate_token id later t rows')"
    by blast
  then show ?thesis by (simp add: bridge0_def GRACE_MS_def)
qed

section \<open>Findings\<close>

text \<open>
  The new token is sent before the table is updated. When the update fails the bridge holds a token
  that the server never accepts; it can only connect with the old one, which it may have replaced.
\<close>

theorem lost_update_refuses_bridge:
  "let env = env0\<lparr>re_db_fails := (\<lambda>_. True)\<rparr>
   in rotate_expired_tokens id (\<lambda>_. []) env 7 0 [bridge0] = Some ([(''web'', ''new'')], [bridge0])
      \<and> (\<forall>later. \<not> validate_token id later ''new'' [bridge0])"
  by (simp add: Let_def rotate_expired_tokens_def env0_def bridge0_def list_bridges_def token_is_due_def num_hours_def
      validate_token_def)

end
