(* ===== verification/Wire_Protocol.thy ===== *)
theory Wire_Protocol
  imports Utf8
begin

unbundle bit_operations_syntax

text \<open>
  The bytes on the wire: length-prefixed frames (\<open>clum-core/src/json_frame.rs\<close>, \<open>quic.rs\<close>), the
  token handshake between client and bridge (\<open>quic.rs\<close> \<open>authenticate_bridge\<close> against
  \<open>rmux-bridge/src/auth.rs\<close>) and the attach protocol (\<open>clum-cli/src/protocol.rs\<close> against
  \<open>rmux-bridge/src/interactive.rs\<close>).

  A stream is the list of bytes still to be read; \<open>read_exact\<close> fails when it is too short. Errors
  are messages, a slice out of range is the value \<open>WPanic\<close>. \<open>serde_json\<close> is a parameter.
\<close>

datatype wire_error = WErr string | WPanic

definition read_exact :: "nat \<Rightarrow> bytes \<Rightarrow> wire_error + bytes \<times> bytes" where
  "read_exact n s = (case take_bytes n s of None \<Rightarrow> Inl (WErr ''early eof'') | Some x \<Rightarrow> Inr x)"

lemma read_exact_append [simp]: "length xs = n \<Longrightarrow> read_exact n (xs @ ys) = Inr (xs, ys)"
  by (simp add: read_exact_def)

lemma read_exact_Cons [simp]: "read_exact (Suc 0) (x # ys) = Inr ([x], ys)"
  using read_exact_append [of "[x]" 1 ys] by simp

lemma read_exact_iff: "read_exact n s = Inr (x, r) \<longleftrightarrow> s = x @ r \<and> length x = n"
  by (auto simp: read_exact_def take_bytes_def split: if_splits)

section \<open>Frames\<close>

definition MAX_FRAME_SIZE :: nat where
  "MAX_FRAME_SIZE = 64 * 1024 * 1024"

definition write_json_frame :: "('v \<Rightarrow> string + bytes) \<Rightarrow> 'v \<Rightarrow> wire_error + bytes" where
  "write_json_frame to_vec v = (case to_vec v of
     Inl e \<Rightarrow> Inl (WErr e)
   | Inr data \<Rightarrow>
       if MAX_FRAME_SIZE < length data then Inl (WErr ''frame too large'')
       else if 2 ^ 32 \<le> length data then Inl (WErr ''frame length overflow'')
       else Inr (le_bytes 4 (length data) @ data))"

definition read_sized :: "nat \<Rightarrow> bytes \<Rightarrow> wire_error + bytes \<times> bytes" where
  "read_sized max_len s = (case read_exact 4 s of
     Inl e \<Rightarrow> Inl e
   | Inr (len_buf, s) \<Rightarrow>
       (let len = from_le len_buf
        in if max_len < len then Inl (WErr ''frame too large'') else read_exact len s))"

definition read_json_frame :: "(bytes \<Rightarrow> string + 'v) \<Rightarrow> bytes \<Rightarrow> wire_error + 'v \<times> bytes" where
  "read_json_frame from_slice s = (case read_sized MAX_FRAME_SIZE s of
     Inl e \<Rightarrow> Inl e
   | Inr (buf, s) \<Rightarrow> (case from_slice buf of Inl e \<Rightarrow> Inl (WErr e) | Inr v \<Rightarrow> Inr (v, s)))"

text \<open>Control frames: the writer casts the length to 32 bits and has no limit of its own.\<close>

definition write_frame :: "('v \<Rightarrow> string + bytes) \<Rightarrow> 'v \<Rightarrow> wire_error + bytes" where
  "write_frame to_vec v = (case to_vec v of
     Inl e \<Rightarrow> Inl (WErr e)
   | Inr data \<Rightarrow> Inr (le_bytes 4 (length data) @ data))"

definition read_frame :: "bytes \<Rightarrow> wire_error + bytes \<times> bytes" where
  "read_frame s = read_sized (1024 * 1024) s"

lemma read_sized_frame:
  assumes "length data < 256 ^ 4"
  shows "read_sized m (le_bytes 4 (length data) @ data @ rest) =
    (if m < length data then Inl (WErr ''frame too large'') else Inr (data, rest))"
  using assms by (simp add: read_sized_def codec_simps)

section \<open>The token handshake\<close>

definition constant_time_eq :: "bytes \<Rightarrow> bytes \<Rightarrow> bool" where
  "constant_time_eq a b = (if length a \<noteq> length b then False
     else foldl (\<lambda>r (x, y). r OR (x XOR y)) 0 (zip a b) = 0)"

lemma word_or_zero: "(a :: byte) OR b = 0 \<longleftrightarrow> a = 0 \<and> b = 0"
  by (auto simp: bit_eq_iff bit_simps)

lemma word_xor_zero: "(a :: byte) XOR b = 0 \<longleftrightarrow> a = b"
  by (auto simp: bit_eq_iff bit_simps)

lemma fold_or_zero: "foldl (\<lambda>r (x, y). r OR (x XOR y)) (c :: byte) ps = 0 \<longleftrightarrow> c = 0 \<and> (\<forall>(x, y) \<in> set ps. x = y)"
  by (induction ps arbitrary: c) (auto simp: word_or_zero word_xor_zero)

lemma constant_time_eq_iff: "constant_time_eq a b \<longleftrightarrow> a = b"
proof -
  have "(\<forall>(x, y) \<in> set (zip a b). x = y) \<longleftrightarrow> a = b" if "length a = length b"
    using that by (induction a b rule: list_induct2) auto
  then show ?thesis by (auto simp: constant_time_eq_def fold_or_zero)
qed

text \<open>What the client sends: \<open>AUTH\<close>, the length of the token and the token.\<close>

definition auth_request :: "string \<Rightarrow> bytes" where
  "auth_request token = str_bytes ''AUTH'' @ le_bytes 4 (length token) @ str_bytes token"

text \<open>
  The bridge: the bytes it answers, the length it records for a failed attempt in its audit log,
  and whether it accepts.
\<close>

record auth_outcome =
  ao_reply :: bytes
  ao_audit :: "nat list"
  ao_result :: "wire_error + unit"

definition auth_fail :: "bytes \<Rightarrow> nat list \<Rightarrow> string \<Rightarrow> auth_outcome" where
  "auth_fail reply audit msg = \<lparr>ao_reply = reply, ao_audit = audit, ao_result = Inl (WErr msg)\<rparr>"

definition authenticate_quic :: "string \<Rightarrow> bytes \<Rightarrow> auth_outcome" where
  "authenticate_quic expected_token s = (case read_exact 4 s of
     Inl _ \<Rightarrow> auth_fail [] [] ''early eof''
   | Inr (preamble, s) \<Rightarrow>
       if preamble \<noteq> str_bytes ''AUTH''
       then auth_fail (str_bytes (''ERR invalid auth preamble'' @ [CHR 0x0A])) [] ''invalid auth preamble''
       else case read_exact 4 s of
         Inl _ \<Rightarrow> auth_fail [] [] ''early eof''
       | Inr (len_buf, s) \<Rightarrow>
           (let token_len = from_le len_buf
            in if 1024 < token_len
               then auth_fail (str_bytes (''ERR token too long'' @ [CHR 0x0A])) [] ''token too long''
               else case read_exact token_len s of
                 Inl _ \<Rightarrow> auth_fail [] [] ''early eof''
               | Inr (token_buf, _) \<Rightarrow>
                   if \<not> valid_utf8 token_buf then auth_fail [] [] ''invalid utf-8''
                   else if \<not> constant_time_eq token_buf (str_bytes expected_token)
                   then auth_fail (str_bytes (''ERR auth failed'' @ [CHR 0x0A])) [token_len] ''authentication failed''
                   else \<lparr>ao_reply = str_bytes (''OK'' @ [CHR 0x0A]), ao_audit = [], ao_result = Inr ()\<rparr>))"

text \<open>The client accepts the three bytes \<open>OK\<close> and newline.\<close>

definition auth_accepts :: "bytes \<Rightarrow> wire_error + unit" where
  "auth_accepts reply = (case read_exact 3 reply of
     Inl e \<Rightarrow> Inl e
   | Inr (r, _) \<Rightarrow> if r \<noteq> str_bytes (''OK'' @ [CHR 0x0A])
                  then Inl (WErr ''bridge QUIC authentication failed'') else Inr ())"

section \<open>The attach protocol: requests\<close>

definition ATTACH_MODE_MUX :: byte where "ATTACH_MODE_MUX = 0x00"

definition ATTACH_MODE_RAW :: byte where "ATTACH_MODE_RAW = 0x01"

definition enc_u16 :: "u16 \<Rightarrow> bytes" where
  "enc_u16 v = le_bytes 2 (unat v)"

definition build_attach_payload ::
    "string \<Rightarrow> string \<Rightarrow> string \<Rightarrow> u16 \<Rightarrow> u16 \<Rightarrow> byte \<Rightarrow> bytes" where
  "build_attach_payload client_id session_name pane_id cols rows mode =
     enc_lp 2 (str_bytes client_id) @ enc_lp 2 (str_bytes session_name) @ enc_lp 1 (str_bytes pane_id)
     @ enc_u16 cols @ enc_u16 rows @ enc_lp 1 (str_bytes ''xterm-256color'') @ [mode]"

definition write_attach_request ::
    "string \<Rightarrow> string \<Rightarrow> string \<Rightarrow> u16 \<Rightarrow> u16 \<Rightarrow> byte \<Rightarrow> bytes" where
  "write_attach_request client_id session_name pane_id cols rows mode =
     (let body = build_attach_payload client_id session_name pane_id cols rows mode
      in [0x01] @ le_bytes 2 (length body) @ body)"

definition write_resize :: "u16 \<Rightarrow> u16 \<Rightarrow> bytes" where
  "write_resize cols rows = [0x02] @ le_bytes 2 4 @ enc_u16 cols @ enc_u16 rows"

definition write_detach :: bytes where
  "write_detach = [0x03] @ le_bytes 2 0"

record attach_request =
  at_client_id :: string
  at_session_name :: string
  at_pane_id :: string
  at_cols :: u16
  at_rows :: u16
  at_term :: string
  at_mode :: byte

text \<open>One length-prefixed text of the payload, with the two messages of its length checks.\<close>

definition attach_text :: "nat \<Rightarrow> string \<Rightarrow> string \<Rightarrow> bytes \<Rightarrow> wire_error + string \<times> bytes" where
  "attach_text width short truncated data =
     (if length data < width then Inl (WErr short)
      else let len = from_le (take width data); data = drop width data
           in if length data < len then Inl (WErr truncated)
              else if \<not> valid_utf8 (take len data) then Inl (WErr ''invalid utf-8 sequence'')
              else Inr (bytes_str (take len data), drop len data))"

definition dec_u16 :: "bytes \<Rightarrow> u16" where
  "dec_u16 bs = of_nat (from_le (take 2 bs))"

definition parse_attach_payload :: "bytes \<Rightarrow> wire_error + attach_request" where
  "parse_attach_payload data =
     (case attach_text 2 ''attach payload too short for client_id_len'' ''attach payload truncated in client_id'' data of
        Inl e \<Rightarrow> Inl e
      | Inr (client_id, data) \<Rightarrow>
     (case attach_text 2 ''attach payload too short for session_name_len'' ''attach payload truncated in session_name'' data of
        Inl e \<Rightarrow> Inl e
      | Inr (session_name, data) \<Rightarrow>
     (case attach_text 1 ''attach payload too short for pane_id_len'' ''attach payload truncated in pane_id'' data of
        Inl e \<Rightarrow> Inl e
      | Inr (pane_id, data) \<Rightarrow>
          if length data < 4 then Inl (WErr ''attach payload too short for cols/rows'')
          else let cols = dec_u16 data; rows = dec_u16 (drop 2 data)
               in (case attach_text 1 ''attach payload too short for term_len'' ''attach payload truncated in term'' (drop 4 data) of
                     Inl e \<Rightarrow> Inl e
                   | Inr (trm, data) \<Rightarrow>
                       Inr \<lparr>at_client_id = client_id, at_session_name = session_name, at_pane_id = pane_id,
                            at_cols = cols, at_rows = rows, at_term = trm,
                            at_mode = (case data of [] \<Rightarrow> ATTACH_MODE_MUX
                              | m # _ \<Rightarrow> if m = ATTACH_MODE_RAW then ATTACH_MODE_RAW else ATTACH_MODE_MUX)\<rparr>))))"

text \<open>
  The first message of a control stream: the bridge answers with an error when it is not an
  attach request, and otherwise reads and parses the payload.
\<close>

datatype first_message = Refused byte string | Attach attach_request

definition read_attach_request :: "bytes \<Rightarrow> wire_error + first_message \<times> bytes" where
  "read_attach_request s = (case read_exact 1 s of
     Inl e \<Rightarrow> Inl e
   | Inr (t, s) \<Rightarrow>
       if t \<noteq> [0x01] then Inr (Refused 0x03 ''expected Attach message first'', s)
       else case read_exact 2 s of
         Inl e \<Rightarrow> Inl e
       | Inr (l, s) \<Rightarrow>
           (case read_exact (from_le l) s of
              Inl e \<Rightarrow> Inl e
            | Inr (payload, s) \<Rightarrow> map_sum id (\<lambda>r. (Attach r, s)) (parse_attach_payload payload)))"

text \<open>A later message of the control stream.\<close>

datatype control_message = Resize u16 u16 | ShortResize | Detach | Unknown byte

definition read_control :: "bytes \<Rightarrow> wire_error + control_message \<times> bytes" where
  "read_control s = (case read_exact 1 s of
     Inl e \<Rightarrow> Inl e
   | Inr (t, s) \<Rightarrow>
       (case read_exact 2 s of
          Inl e \<Rightarrow> Inl e
        | Inr (l, s) \<Rightarrow>
            (case read_exact (from_le l) s of
               Inl e \<Rightarrow> Inl e
             | Inr (payload, s) \<Rightarrow>
                 Inr (if t = [0x02] then
                        (if length payload < 4 then ShortResize else Resize (dec_u16 payload) (dec_u16 (drop 2 payload)))
                      else if t = [0x03] then Detach else Unknown (hd t), s))))"

definition window_rows_for :: "byte \<Rightarrow> u16 \<Rightarrow> u16" where
  "window_rows_for mode rows = (if mode = ATTACH_MODE_RAW then rows else if rows = 0 then 0 else rows - 1)"

section \<open>The attach protocol: responses\<close>

definition write_attached :: "bytes \<Rightarrow> bytes" where
  "write_attached scrollback =
     [0x81] @ le_bytes 2 (4 + length scrollback) @ le_bytes 4 (length scrollback) @ scrollback"

definition write_error :: "byte \<Rightarrow> string \<Rightarrow> bytes" where
  "write_error code message =
     [0x82] @ le_bytes 2 (1 + 2 + length message) @ [code] @ le_bytes 2 (length message) @ str_bytes message"

definition write_process_exited :: "u32 \<Rightarrow> bytes" where
  "write_process_exited exit_code = [0x83] @ le_bytes 2 4 @ le_bytes 4 (unat exit_code)"

definition read_attached_response :: "bytes \<Rightarrow> wire_error + bytes \<times> bytes" where
  "read_attached_response s = (case read_exact 1 s of
     Inl e \<Rightarrow> Inl e
   | Inr (t, s) \<Rightarrow>
       if t = [0x82] then
         (case read_exact 2 s of
            Inl e \<Rightarrow> Inl e
          | Inr (l, s) \<Rightarrow>
              (case read_exact (from_le l) s of
                 Inl e \<Rightarrow> Inl e
               | Inr (payload, s) \<Rightarrow>
                   if length payload < 3 then Inl WPanic
                   else let msg_len = from_le (take 2 (drop 1 payload))
                        in if length payload < 3 + msg_len then Inl WPanic
                           else Inl (WErr (''bridge error: '' @ bytes_str (from_utf8_lossy (take msg_len (drop 3 payload)))))))
       else if t \<noteq> [0x81] then Inl (WErr ''unexpected response type'')
       else
         (case read_exact 2 s of
            Inl e \<Rightarrow> Inl e
          | Inr (_, s) \<Rightarrow>
              (case read_exact 4 s of
                 Inl e \<Rightarrow> Inl e
               | Inr (l, s) \<Rightarrow> read_exact (from_le l) s)))"

section \<open>Reading what was written\<close>

lemma attach_text_enc:
  assumes "length s < 256 ^ w" and "valid_utf8 (str_bytes s)"
  shows "attach_text w e1 e2 (enc_lp w (str_bytes s) @ rest) = Inr (s, rest)"
  using assms by (simp add: attach_text_def enc_lp_def codec_simps)

lemma dec_enc_u16: "dec_u16 (enc_u16 v @ rest) = v"
proof -
  have "unat v < 65536" using unsigned_less [of v, where ?'a = nat] by simp
  then show ?thesis by (simp add: dec_u16_def enc_u16_def codec_simps)
qed

lemma length_enc_u16 [simp]: "length (enc_u16 v) = 2"
  by (simp add: enc_u16_def)

lemma length_enc_lp [simp]: "length (enc_lp n s) = n + length s"
  by (simp add: enc_lp_def)

lemma valid_utf8_term: "valid_utf8 (str_bytes ''xterm-256color'')"
  by (rule valid_utf8_ascii) code_simp

text \<open>What the client must respect: texts are UTF-8 and short enough for their length fields.\<close>

definition attach_ok :: "string \<Rightarrow> string \<Rightarrow> string \<Rightarrow> bool" where
  "attach_ok client_id session_name pane_id \<longleftrightarrow>
     valid_utf8 (str_bytes client_id) \<and> valid_utf8 (str_bytes session_name) \<and> valid_utf8 (str_bytes pane_id)
     \<and> length pane_id < 256 \<and> length client_id + length session_name + length pane_id + 25 < 65536"

definition attach_mode :: "byte \<Rightarrow> byte" where
  "attach_mode m = (if m = ATTACH_MODE_RAW then ATTACH_MODE_RAW else ATTACH_MODE_MUX)"

lemma length_attach_payload:
  "length (build_attach_payload c s p cols rows m) = length c + length s + length p + 25"
  by (simp add: build_attach_payload_def)

lemma parse_build_attach:
  assumes "attach_ok c s p"
  shows "parse_attach_payload (build_attach_payload c s p cols rows m) =
    Inr \<lparr>at_client_id = c, at_session_name = s, at_pane_id = p, at_cols = cols, at_rows = rows,
         at_term = ''xterm-256color'', at_mode = attach_mode m\<rparr>"
proof -
  have len: "length c < 256 ^ 2" "length s < 256 ^ 2" "length p < 256 ^ 1" "length ''xterm-256color'' < 256 ^ 1"
    using assms by (simp_all add: attach_ok_def)
  have utf: "valid_utf8 (str_bytes c)" "valid_utf8 (str_bytes s)" "valid_utf8 (str_bytes p)"
    using assms by (simp_all add: attach_ok_def)
  note fld = attach_text_enc [OF len(1) utf(1)] attach_text_enc [OF len(2) utf(2)] attach_text_enc [OF len(3) utf(3)]
    attach_text_enc [OF len(4) valid_utf8_term]
  show ?thesis
    unfolding parse_attach_payload_def build_attach_payload_def
    by (simp add: fld [simplified] dec_enc_u16 attach_mode_def)
qed

lemma read_exact_le [simp]: "read_exact n (le_bytes n v @ rest) = Inr (le_bytes n v, rest)"
  by simp

lemma read_write_attach:
  assumes "attach_ok c s p"
  shows "read_attach_request (write_attach_request c s p cols rows m @ rest) =
    Inr (Attach \<lparr>at_client_id = c, at_session_name = s, at_pane_id = p, at_cols = cols, at_rows = rows,
                 at_term = ''xterm-256color'', at_mode = attach_mode m\<rparr>, rest)"
proof -
  let ?b = "build_attach_payload c s p cols rows m"
  have "length ?b < 256 ^ 2" using assms by (simp add: length_attach_payload attach_ok_def)
  then have "from_le (le_bytes 2 (length ?b)) = length ?b" by (simp add: codec_simps)
  then show ?thesis
    by (simp add: read_attach_request_def write_attach_request_def Let_def parse_build_attach [OF assms])
qed

lemma from_le_2: "n < 65536 \<Longrightarrow> from_le (le_bytes 2 n) = n"
  by (simp add: codec_simps)

lemma from_le_4: "n < 4294967296 \<Longrightarrow> from_le (le_bytes 4 n) = n"
  by (simp add: codec_simps)

lemma read_control_resize: "read_control (write_resize cols rows @ rest) = Inr (Resize cols rows, rest)"
proof -
  have "dec_u16 (enc_u16 rows) = rows" using dec_enc_u16 [of rows "[]"] by simp
  then show ?thesis
    using read_exact_append [of "enc_u16 cols @ enc_u16 rows" 4 rest]
    by (simp add: read_control_def write_resize_def from_le_2 dec_enc_u16)
qed

lemma read_control_detach: "read_control (write_detach @ rest) = Inr (Detach, rest)"
  using read_exact_append [of "[]" 0 rest] by (simp add: read_control_def write_detach_def from_le_2)

lemma read_attached_written:
  "length sb < 4294967296 \<Longrightarrow> read_attached_response (write_attached sb @ rest) = Inr (sb, rest)"
  by (simp add: read_attached_response_def write_attached_def from_le_4)

lemma read_error_written:
  assumes "length msg < 65533" and "valid_utf8 (str_bytes msg)"
  shows "read_attached_response (write_error code msg @ rest) = Inl (WErr (''bridge error: '' @ msg))"
proof -
  let ?p = "[code] @ le_bytes 2 (length msg) @ str_bytes msg"
  have "read_exact (Suc (Suc (Suc (length msg)))) (?p @ rest) = Inr (?p, rest)" by (rule read_exact_append) simp
  then show ?thesis
    using assms by (simp add: read_attached_response_def write_error_def from_le_2 from_utf8_lossy_valid)
qed

text \<open>A complete attempt: the request for a UTF-8 token of at most 1024 bytes, and what follows it.\<close>

definition auth_attempt :: "bytes \<Rightarrow> string \<Rightarrow> bytes \<Rightarrow> bool" where
  "auth_attempt s token rest \<longleftrightarrow>
     s = auth_request token @ rest \<and> valid_utf8 (str_bytes token) \<and> length token \<le> 1024"

lemma auth_attempt_run:
  assumes "auth_attempt s token rest"
  shows "authenticate_quic expected s =
      (if token = expected then \<lparr>ao_reply = str_bytes (''OK'' @ [CHR 0x0A]), ao_audit = [], ao_result = Inr ()\<rparr>
       else auth_fail (str_bytes (''ERR auth failed'' @ [CHR 0x0A])) [length token] ''authentication failed'')"
  using assms read_exact_append [of "str_bytes token" "length token" rest]
  by (simp add: auth_attempt_def authenticate_quic_def auth_request_def from_le_4 constant_time_eq_iff)

lemma no_attempt_run:
  assumes "\<nexists>token rest. auth_attempt s token rest"
  shows "ao_audit (authenticate_quic expected s) = [] \<and> ao_result (authenticate_quic expected s) \<noteq> Inr ()"
proof (rule ccontr)
  assume bad: "\<not> (ao_audit (authenticate_quic expected s) = [] \<and> ao_result (authenticate_quic expected s) \<noteq> Inr ())"
  then obtain pre s1 where 1: "read_exact 4 s = Inr (pre, s1)"
    by (cases "read_exact 4 s") (auto simp: authenticate_quic_def auth_fail_def)
  with bad have pre: "pre = str_bytes ''AUTH''"
    by (auto simp: authenticate_quic_def auth_fail_def split: if_splits)
  with bad 1 obtain l s2 where 2: "read_exact 4 s1 = Inr (l, s2)"
    by (cases "read_exact 4 s1") (auto simp: authenticate_quic_def auth_fail_def)
  with bad 1 pre have le: "from_le l \<le> 1024"
    by (auto simp: authenticate_quic_def auth_fail_def Let_def split: if_splits)
  with bad 1 2 pre obtain t s3 where 3: "read_exact (from_le l) s2 = Inr (t, s3)"
    by (cases "read_exact (from_le l) s2") (auto simp: authenticate_quic_def auth_fail_def)
  with bad 1 2 pre le have t: "valid_utf8 t"
    by (auto simp: authenticate_quic_def auth_fail_def Let_def split: if_splits)
  have "le_bytes 4 (from_le l) = l" "from_le l = length t"
    using le_bytes_from_le [of l] 2 3 by (auto simp: read_exact_iff)
  moreover have "length (bytes_str t) = length t" by (simp add: bytes_str_def)
  ultimately have "auth_attempt s (bytes_str t) s3"
    using 1 2 3 pre t le by (simp add: read_exact_iff auth_request_def auth_attempt_def str_bytes_bytes_str)
  with assms show False by blast
qed

lemma auth_attempt_unique: "auth_attempt s t r \<Longrightarrow> auth_attempt s t' r' \<Longrightarrow> t = t'"
  using auth_attempt_run [of s t r t] auth_attempt_run [of s t' r' t]
  by (auto simp: auth_fail_def split: if_splits)

lemma auth_accepts_cases:
  "auth_accepts (str_bytes (''OK'' @ [CHR 0x0A])) = Inr ()"
  "auth_accepts [] \<noteq> Inr ()"
  "auth_accepts (str_bytes (''ERR invalid auth preamble'' @ [CHR 0x0A])) \<noteq> Inr ()"
  "auth_accepts (str_bytes (''ERR token too long'' @ [CHR 0x0A])) \<noteq> Inr ()"
  "auth_accepts (str_bytes (''ERR auth failed'' @ [CHR 0x0A])) \<noteq> Inr ()"
  by code_simp+

lemma auth_reply_iff:
  "auth_accepts (ao_reply (authenticate_quic expected s)) = Inr () \<longleftrightarrow> ao_result (authenticate_quic expected s) = Inr ()"
  using auth_accepts_cases
  by (auto simp: authenticate_quic_def auth_fail_def Let_def simp del: append.simps split: sum.splits prod.splits if_splits)
section \<open>Properties\<close>

text \<open>
  The client and the bridge agree on the attach protocol: an attach request with valid texts
  that fit their length fields is parsed by the bridge into exactly the fields the client sent
  (an unknown mode byte as the multiplexer mode) with the rest of the stream intact; resize and
  detach messages are read back; the client reads back the scrollback of a positive answer and
  reports the message of an error answer.
\<close>

theorem attach_roundtrip:
  assumes "attach_ok client_id session_name pane_id" and "length scrollback < 2 ^ 32"
    and "length msg < 65533" and "valid_utf8 (str_bytes msg)"
  shows "read_attach_request (write_attach_request client_id session_name pane_id cols rows mode @ rest) =
      Inr (Attach \<lparr>at_client_id = client_id, at_session_name = session_name, at_pane_id = pane_id,
                   at_cols = cols, at_rows = rows, at_term = ''xterm-256color'',
                   at_mode = (if mode = ATTACH_MODE_RAW then ATTACH_MODE_RAW else ATTACH_MODE_MUX)\<rparr>, rest)
    \<and> read_control (write_resize cols rows @ rest) = Inr (Resize cols rows, rest)
    \<and> read_control (write_detach @ rest) = Inr (Detach, rest)
    \<and> read_attached_response (write_attached scrollback @ rest) = Inr (scrollback, rest)
    \<and> read_attached_response (write_error code msg @ rest) = Inl (WErr (''bridge error: '' @ msg))"
proof (intro conjI)
  show "read_control (write_resize cols rows @ rest) = Inr (Resize cols rows, rest)" by (rule read_control_resize)
  show "read_control (write_detach @ rest) = Inr (Detach, rest)" by (rule read_control_detach)
qed (use assms in \<open>simp_all add: read_write_attach attach_mode_def read_attached_written read_error_written\<close>)

text \<open>
  C21. The token handshake is exact on every byte stream. The bridge accepts exactly the streams that
  begin with a complete attempt with its own token, where a complete attempt is the request for
  a UTF-8 token of at most 1024 bytes; a client that reads the answer believes it is accepted exactly
  when the bridge accepted it; and the bridge writes one audit record, with the length of the token,
  exactly when a complete attempt with another token was refused, and none in all other cases
  (a wrong preamble, a token that is too long or not UTF-8, and a stream that ends early leave none).
\<close>

theorem auth_handshake_exact:
  "(ao_result (authenticate_quic expected s) = Inr () \<longleftrightarrow> (\<exists>rest. auth_attempt s expected rest))
    \<and> (auth_accepts (ao_reply (authenticate_quic expected s)) = Inr () \<longleftrightarrow> ao_result (authenticate_quic expected s) = Inr ())
    \<and> (\<forall>n. ao_audit (authenticate_quic expected s) = [n] \<longleftrightarrow>
         (\<exists>token rest. auth_attempt s token rest \<and> token \<noteq> expected \<and> n = length token))
    \<and> length (ao_audit (authenticate_quic expected s)) \<le> 1"
proof (cases "\<exists>token rest. auth_attempt s token rest")
  case True
  then obtain token rest where a: "auth_attempt s token rest" by blast
  then have one: "(\<exists>r. auth_attempt s t r) \<longleftrightarrow> t = token" for t using auth_attempt_unique by blast
  have run: "ao_result (authenticate_quic expected s) = Inr () \<longleftrightarrow> token = expected"
    "ao_audit (authenticate_quic expected s) = (if token = expected then [] else [length token])"
    by (simp_all add: auth_attempt_run [OF a] auth_fail_def)
  show ?thesis unfolding auth_reply_iff run ex_simps [symmetric] one by (auto simp: one)
next
  case False
  with no_attempt_run [OF this, of expected] show ?thesis by (auto simp: auth_reply_iff)
qed

theorem auth_handshake_exact_witness:
  "ao_result (authenticate_quic ''secret'' (auth_request ''secret'')) = Inr ()
   \<and> ao_audit (authenticate_quic ''secret'' (auth_request ''guess'')) = [5]"
proof -
  have "valid_utf8 (str_bytes ''secret'')" "valid_utf8 (str_bytes ''guess'')"
    by ((rule valid_utf8_ascii, code_simp)+)
  then have at: "auth_attempt (auth_request ''secret'') ''secret'' []" "auth_attempt (auth_request ''guess'') ''guess'' []"
    by (simp_all add: auth_attempt_def)
  from auth_handshake_exact [of "''secret''" "auth_request ''secret''"] at(1)
  have "ao_result (authenticate_quic ''secret'' (auth_request ''secret'')) = Inr ()" by blast
  moreover have "ao_audit (authenticate_quic ''secret'' (auth_request ''guess'')) = [5]"
    using auth_handshake_exact [of "''secret''" "auth_request ''guess''"] at(2) by fastforce
  ultimately show ?thesis ..
qed

text \<open>
  Frames are bounded and read back: a value that prints within the limit of 64 MiB is written
  and read back with the rest of the stream intact, a larger one is refused by the writer; a
  reader never takes more than the limit and the four bytes of the length from the stream; and a
  control frame is read back exactly when it has at most 1 MiB, a limit its writer does not check.
\<close>

theorem frame_bounds:
  assumes "to_vec v = Inr data" and "from_slice data = Inr v"
  shows "(length data \<le> MAX_FRAME_SIZE \<longrightarrow>
       (\<exists>f. write_json_frame to_vec v = Inr f \<and> read_json_frame from_slice (f @ rest) = Inr (v, rest)))
    \<and> (MAX_FRAME_SIZE < length data \<longrightarrow> write_json_frame to_vec v = Inl (WErr ''frame too large''))
    \<and> (read_json_frame from_slice s = Inr (w, r) \<longrightarrow> length s \<le> 4 + MAX_FRAME_SIZE + length r)
    \<and> (length data < 2 ^ 32 \<longrightarrow>
       (\<exists>f. write_frame to_vec v = Inr f \<and>
          read_frame (f @ rest) = (if 1024 * 1024 < length data then Inl (WErr ''frame too large'') else Inr (data, rest))))"
proof (intro conjI impI)
  assume small: "length data \<le> MAX_FRAME_SIZE"
  then have "length data < 256 ^ 4" "\<not> 2 ^ 32 \<le> length data" by (simp_all add: MAX_FRAME_SIZE_def)
  with assms small show "\<exists>f. write_json_frame to_vec v = Inr f \<and> read_json_frame from_slice (f @ rest) = Inr (v, rest)"
    by (simp add: write_json_frame_def read_json_frame_def read_sized_frame)
next
  assume "MAX_FRAME_SIZE < length data"
  with assms show "write_json_frame to_vec v = Inl (WErr ''frame too large'')" by (simp add: write_json_frame_def)
next
  assume "read_json_frame from_slice s = Inr (w, r)"
  then obtain buf where "read_sized MAX_FRAME_SIZE s = Inr (buf, r)"
    by (auto simp: read_json_frame_def split: sum.splits prod.splits)
  then show "length s \<le> 4 + MAX_FRAME_SIZE + length r"
    by (auto simp: read_sized_def read_exact_iff Let_def split: sum.splits prod.splits if_splits)
next
  assume "length data < 2 ^ 32"
  then have "length data < 256 ^ 4" by simp
  with assms show "\<exists>f. write_frame to_vec v = Inr f \<and>
      read_frame (f @ rest) = (if 1024 * 1024 < length data then Inl (WErr ''frame too large'') else Inr (data, rest))"
    by (simp add: write_frame_def read_frame_def read_sized_frame)
qed

end
