(* ===== verification/File_Upload.thy ===== *)
theory File_Upload
  imports Wire_Protocol "HOL-Library.AList"
begin

text \<open>
  Uploading a file: the request of the server (\<open>clum-mcp/src/files.rs\<close>) and of the command line
  client (\<open>clum-cli/src/transfer.rs\<close>), the handler of the bridge (\<open>rmux-bridge/src/files.rs\<close>) with its
  temporary file and its four modes, and the answers. The dispatcher of the streams of a
  connection is here too.

  A file system is the list of its entries by path; a path is the list of its components after
  the separators, the dots and, for a relative path, the working directory are resolved. Symbolic
  links are not part of it. Every operation of the operating system may fail: the parameter says
  which do, and how much of a failing write arrives. SHA-256 and its hexadecimal form are
  parameters.
\<close>

section \<open>Files\<close>

datatype node = File bytes | Dir

type_synonym fpath = "string list"

type_synonym fs = "(fpath \<times> node) list"

datatype io_op = OpStat fpath | OpMkDir fpath | OpCreate fpath | OpRename fpath fpath

record io =
  io_cwd :: fpath
  io_pid :: nat
  io_ok :: "io_op \<Rightarrow> bool"
  io_write :: "fpath \<Rightarrow> bytes \<Rightarrow> nat option"

definition split_path :: "string \<Rightarrow> string list" where
  "split_path s = split_on (\<lambda>c. c = CHR ''/'') s"

definition components :: "string \<Rightarrow> string list" where
  "components s = filter (\<lambda>c. c \<noteq> [] \<and> c \<noteq> ''.'') (split_path s)"

definition base_of :: "io \<Rightarrow> string \<Rightarrow> fpath" where
  "base_of io s = (if prefix ''/'' s then [] else io_cwd io)"

definition path_key :: "io \<Rightarrow> string \<Rightarrow> fpath" where
  "path_key io s = base_of io s @ components s"

text \<open>A path that ends in a separator or a dot can only name a directory; the empty path names nothing.\<close>

definition wants_dir :: "string \<Rightarrow> bool" where
  "wants_dir s \<longleftrightarrow> last (split_path s) = [] \<or> last (split_path s) = ''.''"

definition node_at :: "fs \<Rightarrow> fpath \<Rightarrow> node option" where
  "node_at fs k = (if k = [] then Some Dir else map_of fs k)"

text \<open>
  \<open>tokio::fs::metadata\<close>; the callers below only ask whether it succeeds, so a lookup that fails and
  a path under which there is nothing are the same to them.
\<close>

definition metadata :: "io \<Rightarrow> fs \<Rightarrow> string \<Rightarrow> node option" where
  "metadata io fs s = (if s = [] \<or> \<not> io_ok io (OpStat (path_key io s)) then None else case node_at fs (path_key io s) of
     None \<Rightarrow> None
   | Some Dir \<Rightarrow> Some Dir
   | Some (File b) \<Rightarrow> if wants_dir s then None else Some (File b))"

text \<open>\<open>create_dir_all\<close> of the parent: the directories above the last component, from the top.\<close>

definition parent_dirs :: "io \<Rightarrow> string \<Rightarrow> fpath list" where
  "parent_dirs io s = map (\<lambda>n. base_of io s @ take n (components s)) [1..<length (components s)]"

fun create_dirs :: "io \<Rightarrow> fpath list \<Rightarrow> fs \<Rightarrow> fs \<times> bool" where
  "create_dirs io [] fs = (fs, True)"
| "create_dirs io (k # ks) fs = (case node_at fs k of
     Some Dir \<Rightarrow> create_dirs io ks fs
   | Some (File _) \<Rightarrow> (fs, False)
   | None \<Rightarrow> if io_ok io (OpMkDir k) then create_dirs io ks (AList.update k Dir fs) else (fs, False))"

definition create_file :: "io \<Rightarrow> string \<Rightarrow> fs \<Rightarrow> fs option" where
  "create_file io s fs =
     (let k = path_key io s
      in if s = [] \<or> wants_dir s \<or> node_at fs k = Some Dir \<or> node_at fs (butlast k) \<noteq> Some Dir \<or> \<not> io_ok io (OpCreate k)
         then None else Some (AList.update k (File []) fs))"

definition write_file :: "io \<Rightarrow> string \<Rightarrow> bytes \<Rightarrow> fs \<Rightarrow> fs \<times> bool" where
  "write_file io s content fs =
     (let k = path_key io s
      in case io_write io k content of
           None \<Rightarrow> (AList.update k (File content) fs, True)
         | Some n \<Rightarrow> (AList.update k (File (take n content)) fs, False))"

definition rename_file :: "io \<Rightarrow> string \<Rightarrow> string \<Rightarrow> fs \<Rightarrow> fs option" where
  "rename_file io a b fs =
     (let k = path_key io a; k' = path_key io b
      in if b = [] \<or> wants_dir b \<or> node_at fs k' = Some Dir \<or> \<not> io_ok io (OpRename k k') then None
         else map_option (\<lambda>nd. AList.update k' nd (AList.delete k fs)) (map_of fs k))"

section \<open>Streams\<close>

text \<open>
  The first byte of a stream says what it is for; a data stream starts with the identifier of its
  client.
\<close>

datatype stream_kind = ProtocolStream | UploadStream | DownloadStream | ForwardStream | ListStream
  | ControlStream | DataStream string | UnknownStream byte

definition handle_quic_stream :: "bytes \<Rightarrow> wire_error + stream_kind \<times> bytes" where
  "handle_quic_stream s = (case read_exact 1 s of
     Inl e \<Rightarrow> Inl e
   | Inr (t, s) \<Rightarrow>
       if t = [0x01] then Inr (ProtocolStream, s)
       else if t = [0x02] then Inr (UploadStream, s)
       else if t = [0x03] then Inr (DownloadStream, s)
       else if t = [0x05] then Inr (ForwardStream, s)
       else if t = [0x08] then Inr (ListStream, s)
       else if t = [0x06] then Inr (ControlStream, s)
       else if t = [0x07] then
         (case read_exact 1 s of
            Inl e \<Rightarrow> Inl e
          | Inr (l, s) \<Rightarrow>
              (case read_exact (from_le l) s of
                 Inl e \<Rightarrow> Inl e
               | Inr (cid, s) \<Rightarrow>
                   if valid_utf8 cid then Inr (DataStream (bytes_str cid), s)
                   else Inl (WErr ''invalid client_id on 0x07 stream'')))
       else Inr (UnknownStream (hd t), s))"

definition error_envelope :: "string \<Rightarrow> bytes" where
  "error_envelope msg = [0x02] @ le_bytes 2 (length msg) @ str_bytes msg"

definition sanitize_path :: "string \<Rightarrow> string + string" where
  "sanitize_path raw =
     (if CHR 0x00 \<in> set raw then Inl ''path contains null byte''
      else if contains_str raw ''..'' then Inl (''path traversal rejected: '' @ [CHR 0x27] @ raw @ [CHR 0x27])
      else Inr raw)"

text \<open>A length-prefixed path: 16 bits of length, then bytes that are decoded with replacement.\<close>

definition read_path :: "bytes \<Rightarrow> wire_error + string \<times> bytes" where
  "read_path s = (case read_exact 2 s of
     Inl e \<Rightarrow> Inl e
   | Inr (l, s) \<Rightarrow> map_sum id (\<lambda>(p, s). (bytes_str (from_utf8_lossy p), s)) (read_exact (from_le l) s))"

definition path_request :: "byte \<Rightarrow> string \<Rightarrow> bytes" where
  "path_request t remote_path = [t] @ le_bytes 2 (length remote_path) @ str_bytes remote_path"

section \<open>The bridge\<close>

record upload_outcome =
  uo_fs :: fs
  uo_reply :: bytes
  uo_result :: "wire_error + unit"

definition upload_fails :: "string \<Rightarrow> fs \<Rightarrow> upload_outcome" where
  "upload_fails e fs = \<lparr>uo_fs = fs, uo_reply = [], uo_result = Inl (WErr e)\<rparr>"

definition upload_answers :: "bytes \<Rightarrow> fs \<Rightarrow> upload_outcome" where
  "upload_answers reply fs = \<lparr>uo_fs = fs, uo_reply = reply, uo_result = Inr ()\<rparr>"

text \<open>In rename mode the names \<open>p\<close>, \<open>p.1\<close>, \<open>p.2\<close> and so on are tried until one is free.\<close>

definition renamed :: "string \<Rightarrow> nat \<Rightarrow> string" where
  "renamed remote_path n = (if n = 0 then remote_path else remote_path @ ''.'' @ decimal n)"

lemma renamed_0 [simp]: "renamed p 0 = p"
  by (simp add: renamed_def)

lemma split_on_append_plain:
  assumes "\<forall>c \<in> set t. \<not> p c"
  shows "split_on p (s @ t) = butlast (split_on p s) @ [last (split_on p s) @ t]"
proof (induction s)
  case Nil
  from assms have "split_on p t = [t]" by (induction t) auto
  then show ?case by simp
next
  case (Cons c s)
  then show ?case by (cases "split_on p s") (auto split: list.splits)
qed

lemma digits_no_slash: "\<forall>c \<in> set (''.'' @ decimal n). \<not> c = CHR ''/''"
  using decimal_digits [of "CHR ''/''" n] by (auto simp: byte_of_def)

lemma path_key_append:
  assumes "\<forall>c \<in> set t. \<not> c = CHR ''/''" and "1 < length t"
  shows "path_key io (s @ t) = base_of io s @ filter (\<lambda>c. c \<noteq> [] \<and> c \<noteq> ''.'') (butlast (split_path s)) @ [last (split_path s) @ t]"
    and "\<not> wants_dir (s @ t)"
proof -
  from assms have sp: "split_path (s @ t) = butlast (split_path s) @ [last (split_path s) @ t]"
    by (simp add: split_path_def split_on_append_plain)
  have ne: "last (split_path s) @ t \<noteq> []" "last (split_path s) @ t \<noteq> ''.''"
    using assms(2) by (auto simp: append_eq_Cons_conv)
  from assms have "base_of io (s @ t) = base_of io s" by (cases s; cases t) (auto simp: base_of_def)
  with sp ne show "path_key io (s @ t) = base_of io s @ filter (\<lambda>c. c \<noteq> [] \<and> c \<noteq> ''.'') (butlast (split_path s)) @ [last (split_path s) @ t]"
    by (simp add: path_key_def components_def)
  from sp ne show "\<not> wants_dir (s @ t)" by (simp add: wants_dir_def)
qed

lemma path_key_renamed: "path_key io (renamed s (Suc n)) =
    base_of io s @ filter (\<lambda>c. c \<noteq> [] \<and> c \<noteq> ''.'') (butlast (split_path s)) @ [last (split_path s) @ ''.'' @ decimal (Suc n)]"
  using path_key_append(1) [OF digits_no_slash [of "Suc n"], of io s] by (simp add: renamed_def)

lemma metadata_key: "metadata io fs s \<noteq> None \<Longrightarrow> path_key io s \<in> insert [] (fst ` set fs)"
  by (force simp: metadata_def node_at_def split: if_splits option.splits dest: map_of_SomeD)

lemma finite_taken: "finite {n. metadata io fs (renamed s n) \<noteq> None}"
proof -
  have inj: "inj_on (\<lambda>n. path_key io (renamed s n)) {1..}"
    by (rule inj_onI) (auto simp: path_key_renamed Suc_le_eq gr0_conv_Suc)
  have "finite ({n. metadata io fs (renamed s n) \<noteq> None} \<inter> {1..})"
  proof (rule finite_imageD)
    show "finite ((\<lambda>n. path_key io (renamed s n)) ` ({n. metadata io fs (renamed s n) \<noteq> None} \<inter> {1..}))"
      by (rule finite_subset [of _ "insert [] (fst ` set fs)"]) (use metadata_key in auto)
    show "inj_on (\<lambda>n. path_key io (renamed s n)) ({n. metadata io fs (renamed s n) \<noteq> None} \<inter> {1..})"
      by (rule inj_on_subset [OF inj]) simp
  qed
  then show ?thesis
    by (rule finite_subset [rotated, OF finite.insertI [where a = 0]]) (auto simp: Suc_le_eq)
qed

function free_name :: "io \<Rightarrow> fs \<Rightarrow> string \<Rightarrow> nat \<Rightarrow> string" where
  "free_name io fs remote_path n =
     (if metadata io fs (renamed remote_path n) \<noteq> None then free_name io fs remote_path (n + 1) else renamed remote_path n)"
  by pat_completeness auto
termination
proof (relation "measure (\<lambda>(io, fs, s, n). card ({n. metadata io fs (renamed s n) \<noteq> None} \<inter> {n..}))")
  fix io fs s n
  assume "metadata io fs (renamed s n) \<noteq> None"
  then have "n \<in> {n. metadata io fs (renamed s n) \<noteq> None} \<inter> {n..}" by simp
  moreover have "n \<notin> {n. metadata io fs (renamed s n) \<noteq> None} \<inter> {n + 1..}" by simp
  moreover have "{n. metadata io fs (renamed s n) \<noteq> None} \<inter> {n + 1..} \<subseteq> {n. metadata io fs (renamed s n) \<noteq> None} \<inter> {n..}"
    by auto
  ultimately have "{n. metadata io fs (renamed s n) \<noteq> None} \<inter> {n + 1..} \<subset> {n. metadata io fs (renamed s n) \<noteq> None} \<inter> {n..}"
    by blast
  then show "((io, fs, s, n + 1), io, fs, s, n) \<in> measure (\<lambda>(io, fs, s, n). card ({n. metadata io fs (renamed s n) \<noteq> None} \<inter> {n..}))"
    using finite_taken by (simp add: psubset_card_mono)
qed simp

declare free_name.simps [simp del]

text \<open>
  Storing the content under a temporary name and renaming it. \<open>complete\<close> says that the stream was
  finished and not reset after the bytes that were read.
\<close>

definition tmp_path :: "io \<Rightarrow> string \<Rightarrow> string" where
  "tmp_path io remote_path = remote_path @ ''.tmp.'' @ decimal (io_pid io)"

definition upload_ok_reply :: "(bytes \<Rightarrow> bytes) \<Rightarrow> bytes \<Rightarrow> bytes" where
  "upload_ok_reply sha content = [0x00] @ le_bytes 8 (length content) @ sha content"

definition store_upload :: "(bytes \<Rightarrow> bytes) \<Rightarrow> io \<Rightarrow> bool \<Rightarrow> string \<Rightarrow> bytes \<Rightarrow> fs \<Rightarrow> upload_outcome" where
  "store_upload sha io complete remote_path content fs =
     (case create_file io (tmp_path io remote_path) fs of
        None \<Rightarrow> upload_fails ''cannot create the temporary file'' fs
      | Some fs \<Rightarrow>
          (let (fs, ok) = write_file io (tmp_path io remote_path) content fs
           in if \<not> ok then upload_fails ''write failed'' fs
              else if \<not> complete then upload_fails ''stream reset'' fs
              else case rename_file io (tmp_path io remote_path) remote_path fs of
                     None \<Rightarrow> upload_fails ''rename failed'' fs
                   | Some fs \<Rightarrow> upload_answers (upload_ok_reply sha content) fs))"

definition upload_to :: "(bytes \<Rightarrow> bytes) \<Rightarrow> io \<Rightarrow> bool \<Rightarrow> byte \<Rightarrow> string \<Rightarrow> bytes \<Rightarrow> fs \<Rightarrow> upload_outcome" where
  "upload_to sha io complete mode remote_path content fs =
     (let (fs, ok) = create_dirs io (parent_dirs io remote_path) fs
      in if \<not> ok then upload_fails ''cannot create the parent directory'' fs
         else if mode = 0x02 \<and> metadata io fs remote_path \<noteq> None
         then upload_answers ([0x01] @ le_bytes 8 0 @ replicate 32 0) fs
         else
           let remote_path = (if mode = 0x03 then free_name io fs remote_path 0 else remote_path)
           in if mode = 0x04 \<and> metadata io fs remote_path \<noteq> None
              then upload_answers (error_envelope ''file already exists'') fs
              else store_upload sha io complete remote_path content fs)"

definition handle_upload_quic :: "(bytes \<Rightarrow> bytes) \<Rightarrow> io \<Rightarrow> bool \<Rightarrow> bytes \<Rightarrow> fs \<Rightarrow> upload_outcome" where
  "handle_upload_quic sha io complete s fs = (case read_exact 1 s of
     Inl _ \<Rightarrow> upload_fails ''early eof'' fs
   | Inr (mode, s) \<Rightarrow>
       (case read_path s of
          Inl _ \<Rightarrow> upload_fails ''early eof'' fs
        | Inr (raw, s) \<Rightarrow>
            (case sanitize_path raw of
               Inl msg \<Rightarrow> upload_answers (error_envelope msg) fs
             | Inr remote_path \<Rightarrow>
                 (case read_exact 8 s of
                    Inl _ \<Rightarrow> upload_fails ''early eof'' fs
                  | Inr (_, content) \<Rightarrow> upload_to sha io complete (hd mode) remote_path content fs))))"

section \<open>The clients\<close>

datatype overwrite_mode = Overwrite | Skip | Rename | NoClobber

fun mode_byte :: "overwrite_mode \<Rightarrow> byte" where
  "mode_byte Overwrite = 0x01"
| "mode_byte Skip = 0x02"
| "mode_byte Rename = 0x03"
| "mode_byte NoClobber = 0x04"

definition upload_request :: "overwrite_mode \<Rightarrow> string \<Rightarrow> bytes \<Rightarrow> bytes" where
  "upload_request overwrite remote_path content =
     [0x02] @ [mode_byte overwrite] @ le_bytes 2 (length remote_path) @ str_bytes remote_path
     @ le_bytes 8 (length content) @ content"

record file_result =
  fr_path :: string
  fr_status :: string
  fr_size :: "nat option"
  fr_sha256 :: "string option"

definition read_envelope :: "string \<Rightarrow> bytes \<Rightarrow> wire_error + 'a" where
  "read_envelope what s = (case read_exact 2 s of
     Inl e \<Rightarrow> Inl e
   | Inr (l, s) \<Rightarrow>
       (case read_exact (from_le l) s of
          Inl e \<Rightarrow> Inl e
        | Inr (msg, _) \<Rightarrow> Inl (WErr (what @ bytes_str (from_utf8_lossy msg)))))"

text \<open>The answer as the server reads it: an envelope, or always a size and a digest.\<close>

definition upload_reply :: "(bytes \<Rightarrow> string) \<Rightarrow> string \<Rightarrow> bytes \<Rightarrow> wire_error + file_result" where
  "upload_reply hex remote_path s = (case read_exact 1 s of
     Inl e \<Rightarrow> Inl e
   | Inr (code, s) \<Rightarrow>
       if code = [0x02] then read_envelope ''upload failed: '' s
       else case read_exact 8 s of
         Inl e \<Rightarrow> Inl e
       | Inr (written, s) \<Rightarrow>
           (case read_exact 32 s of
              Inl e \<Rightarrow> Inl e
            | Inr (sha256, _) \<Rightarrow>
                if code = [0x00] then
                  Inr \<lparr>fr_path = remote_path, fr_status = ''uploaded'', fr_size = Some (from_le written), fr_sha256 = Some (hex sha256)\<rparr>
                else if code = [0x01] then
                  Inr \<lparr>fr_path = remote_path, fr_status = ''skipped'', fr_size = None, fr_sha256 = None\<rparr>
                else Inl (WErr ''upload failed: server code'')))"

text \<open>Both clients open a stream, send the request and read the answer; \<open>serve\<close> is the other end of the stream.\<close>

definition upload_single :: "(bytes \<Rightarrow> string) \<Rightarrow> (bytes \<Rightarrow> bytes) \<Rightarrow> overwrite_mode \<Rightarrow> string \<Rightarrow> bytes \<Rightarrow> wire_error + file_result" where
  "upload_single hex serve overwrite remote_path content =
     upload_reply hex remote_path (serve (upload_request overwrite remote_path content))"

text \<open>And as the command line client reads it, which only knows the mode that overwrites.\<close>

definition upload_status :: "bytes \<Rightarrow> wire_error + byte \<times> nat \<times> bytes" where
  "upload_status s = (case read_exact 1 s of
     Inl e \<Rightarrow> Inl e
   | Inr (status, s) \<Rightarrow>
       if status = [0x00] then
         (case read_exact 8 s of
            Inl e \<Rightarrow> Inl e
          | Inr (size_buf, s) \<Rightarrow> map_sum id (\<lambda>(hash, _). (0x00, from_le size_buf, hash)) (read_exact 32 s))
       else if status = [0x01] then Inr (0x01, 0, replicate 32 0)
       else if status = [0x02] then read_envelope ''upload failed: '' s
       else Inl (WErr ''unexpected upload status''))"

definition upload_one :: "(bytes \<Rightarrow> bytes) \<Rightarrow> string \<Rightarrow> bytes \<Rightarrow> wire_error + byte \<times> nat \<times> bytes" where
  "upload_one serve remote content = upload_status (serve (upload_request Overwrite remote content))"

definition resolve_remote_file :: "string \<Rightarrow> string \<Rightarrow> string" where
  "resolve_remote_file remote_path file_name = (if suffix ''/'' remote_path then remote_path @ file_name else remote_path)"

section \<open>What the operations keep\<close>

definition only_new_dirs :: "fs \<Rightarrow> fs \<Rightarrow> bool" where
  "only_new_dirs fs fs' \<longleftrightarrow> (\<forall>k. map_of fs' k = map_of fs k \<or> map_of fs k = None \<and> map_of fs' k = Some Dir)"

lemma only_new_dirs_refl [simp]: "only_new_dirs fs fs"
  by (simp add: only_new_dirs_def)

lemma only_new_dirs_file: "only_new_dirs fs fs' \<Longrightarrow> node_at fs' k = Some (File b) \<Longrightarrow> node_at fs k = Some (File b)"
  unfolding only_new_dirs_def node_at_def by (metis node.distinct(1) option.inject)

lemma only_new_dirs_None: "only_new_dirs fs fs' \<Longrightarrow> node_at fs' k = None \<Longrightarrow> map_of fs k = None"
  unfolding only_new_dirs_def node_at_def by (metis option.distinct(1))

lemma create_dirs_effect:
  "create_dirs io ks fs = (fs', ok) \<Longrightarrow>
     only_new_dirs fs fs' \<and> (\<forall>k. node_at fs k = Some Dir \<longrightarrow> node_at fs' k = Some Dir)
     \<and> (ok \<longrightarrow> (\<forall>k \<in> set ks. node_at fs' k = Some Dir))"
proof (induction io ks fs arbitrary: fs' ok rule: create_dirs.induct)
  case (1 io fs)
  then show ?case by simp
next
  case (2 io k ks fs)
  show ?case
  proof (cases "node_at fs k")
    case None
    show ?thesis
    proof (cases "io_ok io (OpMkDir k)")
      case True
      with 2 None have IH: "only_new_dirs (AList.update k Dir fs) fs'"
        "\<forall>j. node_at (AList.update k Dir fs) j = Some Dir \<longrightarrow> node_at fs' j = Some Dir"
        "ok \<longrightarrow> (\<forall>k \<in> set ks. node_at fs' k = Some Dir)" by auto
      from None have k: "k \<noteq> []" "map_of fs k = None" by (auto simp: node_at_def split: if_splits)
      have upd: "map_of (AList.update k Dir fs) j = (if j = k then Some Dir else map_of fs j)" for j
        by (simp add: update_conv')
      have "only_new_dirs fs fs'"
        using IH(1) k by (auto simp: only_new_dirs_def upd split: if_splits)
      moreover have "node_at fs' j = Some Dir" if "node_at fs j = Some Dir" for j
        using IH(2) that k by (auto simp: node_at_def upd split: if_splits)
      moreover have "node_at (AList.update k Dir fs) k = Some Dir" by (simp add: node_at_def upd)
      with IH(2) have "node_at fs' k = Some Dir" by blast
      ultimately show ?thesis using IH(3) by auto
    next
      case False
      with 2 None show ?thesis by auto
    qed
  next
    case (Some nd)
    with 2 show ?thesis by (cases nd) auto
  qed
qed

lemma create_dirs_ok:
  assumes "io_ok io = (\<lambda>_. True)"
  shows "\<forall>k \<in> set ks. \<forall>b. node_at fs k \<noteq> Some (File b) \<Longrightarrow> snd (create_dirs io ks fs)"
  using assms
proof (induction io ks fs rule: create_dirs.induct)
  case (2 io k ks fs)
  show ?case
  proof (cases "node_at fs k")
    case None
    have "node_at (AList.update k Dir fs) j \<noteq> Some (File b)" if "j \<in> set ks" for j b
      using 2(3) that by (auto simp: node_at_def update_conv')
    with 2 None show ?thesis by simp
  next
    case (Some nd)
    with 2 show ?thesis by (cases nd) auto
  qed
qed simp

lemma free_name_free: "metadata io fs (free_name io fs p n) = None \<and> (\<exists>m \<ge> n. free_name io fs p n = renamed p m)"
proof (induction io fs p n rule: free_name.induct)
  case (1 io fs p n)
  show ?case
  proof (cases "metadata io fs (renamed p n) = None")
    case True
    then show ?thesis by (auto simp: free_name.simps [of io fs p n])
  next
    case False
    with 1 obtain m where "n + 1 \<le> m" "metadata io fs (free_name io fs p (n + 1)) = None" "free_name io fs p (n + 1) = renamed p m"
      by auto
    with False show ?thesis by (auto simp: free_name.simps [of io fs p n] intro: exI [of _ m])
  qed
qed

lemma metadata_None:
  "metadata io fs s = None \<Longrightarrow> s \<noteq> [] \<Longrightarrow> \<not> wants_dir s \<Longrightarrow> io_ok io (OpStat (path_key io s)) \<Longrightarrow> node_at fs (path_key io s) = None"
  by (auto simp: metadata_def split: option.splits node.splits if_splits)

text \<open>The name of the temporary file.\<close>

lemma tmp_suffix: "\<forall>c \<in> set (''.tmp.'' @ decimal n). \<not> c = CHR ''/''"
  using digits_no_slash [of n] by auto

lemma tmp_path_facts:
  "path_key io (tmp_path io s) =
     base_of io s @ filter (\<lambda>c. c \<noteq> [] \<and> c \<noteq> ''.'') (butlast (split_path s)) @ [last (split_path s) @ ''.tmp.'' @ decimal (io_pid io)]"
  "\<not> wants_dir (tmp_path io s)" "tmp_path io s \<noteq> []"
  using path_key_append(1) [OF tmp_suffix [of "io_pid io"], of io s] path_key_append(2) [OF tmp_suffix [of "io_pid io"], of s]
  by (simp_all add: tmp_path_def)

lemma split_path_not_Nil [simp]: "split_path s \<noteq> []"
  by (simp add: split_path_def)

lemma components_file:
  assumes "\<not> wants_dir s"
  shows "components s = filter (\<lambda>c. c \<noteq> [] \<and> c \<noteq> ''.'') (butlast (split_path s)) @ [last (split_path s)]"
  unfolding components_def using assms
  by (subst append_butlast_last_id [of "split_path s", symmetric])
     (simp_all add: wants_dir_def del: append_butlast_last_id)

lemma path_key_file:
  assumes "\<not> wants_dir s"
  shows "path_key io s = base_of io s @ filter (\<lambda>c. c \<noteq> [] \<and> c \<noteq> ''.'') (butlast (split_path s)) @ [last (split_path s)]"
  by (simp add: path_key_def components_file [OF assms])

lemma tmp_path_beside:
  assumes "\<not> wants_dir s"
  shows "path_key io (tmp_path io s) \<noteq> path_key io s" "butlast (path_key io (tmp_path io s)) = butlast (path_key io s)"
  using assms by (simp_all add: tmp_path_facts path_key_file butlast_append)

section \<open>Atomic replacement\<close>

text \<open>What may differ from the old file system outside of the temporary file.\<close>

definition committed :: "(bytes \<Rightarrow> bytes) \<Rightarrow> io \<Rightarrow> string \<Rightarrow> bytes \<Rightarrow> fpath \<Rightarrow> upload_outcome \<Rightarrow> bool" where
  "committed sha io target content k out \<longleftrightarrow>
     k = path_key io target \<and> map_of (uo_fs out) k = Some (File content) \<and> uo_reply out = upload_ok_reply sha content"

lemma map_of_update_delete:
  "map_of (AList.update a v (AList.delete b fs)) k = (if k = a then Some v else if k = b then None else map_of fs k)"
  by (simp add: update_conv' delete_conv')

lemma store_upload_effect:
  assumes "k \<noteq> path_key io (tmp_path io target)"
    and "out = store_upload sha io complete target content fs"
  shows "map_of (uo_fs out) k = map_of fs k \<or>
    committed sha io target content k out \<and> complete \<and> target \<noteq> [] \<and> \<not> wants_dir target"
  using assms
  by (auto simp: store_upload_def create_file_def write_file_def rename_file_def upload_fails_def upload_answers_def
        committed_def update_conv' map_of_update_delete Let_def split: option.splits if_splits)

lemma store_upload_confirms:
  assumes "out = store_upload sha io complete target content fs" and "uo_reply out = upload_ok_reply sha content"
  shows "complete \<and> map_of (uo_fs out) (path_key io target) = Some (File content)"
proof -
  have "upload_ok_reply sha content \<noteq> []" by (simp add: upload_ok_reply_def)
  with assms show ?thesis
    by (auto simp: store_upload_def write_file_def rename_file_def upload_fails_def upload_answers_def
        update_conv' map_of_update_delete Let_def split: option.splits if_splits)
qed

lemma mode_bytes: "(0x02 :: byte) \<noteq> 0x03" "(0x02 :: byte) \<noteq> 0x04" "(0x03 :: byte) \<noteq> 0x04" "(0x01 :: byte) \<noteq> 0x02" "(0x01 :: byte) \<noteq> 0x03" "(0x01 :: byte) \<noteq> 0x04"
  by simp_all

text \<open>The file an upload is for: the path itself, or in rename mode the first name that seems free.\<close>

definition upload_target :: "io \<Rightarrow> byte \<Rightarrow> string \<Rightarrow> fs \<Rightarrow> string" where
  "upload_target io mode p fs =
     (if mode = 0x03 then free_name io (fst (create_dirs io (parent_dirs io p) fs)) p 0 else p)"

lemma upload_target_renamed: "\<exists>n. upload_target io mode p fs = renamed p n"
  using free_name_free renamed_0 [of p] unfolding upload_target_def by metis

lemma upload_to_cases:
  assumes "out = upload_to sha io complete mode p content fs"
  obtains (same) fs1 where "only_new_dirs fs fs1" "uo_fs out = fs1" "uo_reply out = [] \<or> hd (uo_reply out) \<noteq> 0x00"
    | (store) fs1 where "only_new_dirs fs fs1" "out = store_upload sha io complete (upload_target io mode p fs) content fs1"
        "mode \<in> {0x02, 0x03, 0x04} \<Longrightarrow> metadata io fs1 (upload_target io mode p fs) = None"
proof -
  obtain fs1 ok where c: "create_dirs io (parent_dirs io p) fs = (fs1, ok)" by (cases "create_dirs io (parent_dirs io p) fs")
  from create_dirs_effect [OF c] have new: "only_new_dirs fs fs1" by simp
  show thesis
  proof (cases "\<not> ok \<or> (mode = 0x02 \<or> mode = 0x04) \<and> metadata io fs1 p \<noteq> None")
    case True
    then show thesis
      using c by (intro same [OF new])
        (auto simp: assms upload_to_def upload_fails_def upload_answers_def error_envelope_def Let_def)
  next
    case False
    then show thesis
      using c free_name_free [of io fs1 p 0]
      by (intro store [OF new]) (auto simp: assms upload_to_def upload_target_def Let_def)
  qed
qed

lemma upload_to_confirms:
  assumes "out = upload_to sha io complete mode p content fs" and "uo_reply out = upload_ok_reply sha content"
  shows "complete \<and> map_of (uo_fs out) (path_key io (upload_target io mode p fs)) = Some (File content)"
  using assms(1)
proof (cases rule: upload_to_cases)
  case (same fs1)
  with assms(2) show ?thesis by (simp add: upload_ok_reply_def)
next
  case (store fs1)
  from store_upload_confirms [OF store(2) assms(2)] show ?thesis .
qed

lemma upload_to_effect:
  assumes out: "out = upload_to sha io complete mode p content fs"
    and k: "k \<noteq> path_key io (tmp_path io (upload_target io mode p fs))"
  shows "map_of (uo_fs out) k = map_of fs k
      \<or> map_of fs k = None \<and> map_of (uo_fs out) k = Some Dir
      \<or> committed sha io (upload_target io mode p fs) content k out \<and> complete
        \<and> (mode \<in> {0x02, 0x03, 0x04} \<and> io_ok io (OpStat k) \<longrightarrow> map_of fs k = None)"
  using out
proof (cases rule: upload_to_cases)
  case (same fs1)
  then show ?thesis by (auto simp: only_new_dirs_def)
next
  case (store fs1)
  let ?target = "upload_target io mode p fs"
  from store_upload_effect [OF k store(2)] store(1)
  consider "map_of (uo_fs out) k = map_of fs k"
    | "map_of fs k = None" "map_of (uo_fs out) k = Some Dir"
    | "committed sha io ?target content k out" "complete" "?target \<noteq> []" "\<not> wants_dir ?target"
    unfolding only_new_dirs_def by metis
  then show ?thesis
  proof cases
    case 3
    have "map_of fs k = None" if "mode \<in> {0x02, 0x03, 0x04}" "io_ok io (OpStat k)"
      using only_new_dirs_None [OF store(1) metadata_None [OF store(3) [OF that(1)] 3(3,4)]] 3(1) that(2)
      by (simp add: committed_def)
    with 3 show ?thesis by blast
  qed simp_all
qed

text \<open>The bytes of an upload stream: mode, path, declared size, content.\<close>

definition upload_stream :: "byte \<Rightarrow> bytes \<Rightarrow> bytes \<Rightarrow> bytes \<Rightarrow> bytes" where
  "upload_stream mode raw size_buf content = [mode] @ le_bytes 2 (length raw) @ raw @ size_buf @ content"

lemma read_path_bytes:
  assumes "read_path s = Inr (p, r)"
  obtains raw where "s = le_bytes 2 (length raw) @ raw @ r" and "p = bytes_str (from_utf8_lossy raw)" and "length raw < 65536"
proof -
  from assms obtain l s1 where 1: "read_exact 2 s = Inr (l, s1)" by (auto simp: read_path_def split: sum.splits)
  with assms obtain raw where 2: "read_exact (from_le l) s1 = Inr (raw, r)" "p = bytes_str (from_utf8_lossy raw)"
    by (cases "read_exact (from_le l) s1") (auto simp: read_path_def)
  have l: "length l = 2" "length raw = from_le l" using 1 2 by (auto simp: read_exact_iff)
  have "from_le l < 256 ^ length l" by (rule from_le_less)
  then have "length raw < 65536" using l by simp
  moreover have "le_bytes 2 (length raw) = l" using le_bytes_from_le [of l] l by simp
  ultimately show thesis using that 1 2 by (auto simp: read_exact_iff)
qed

text \<open>The components of a stored path are never the parent directory.\<close>

lemma split_on_sublist: "w \<in> set (split_on p s) \<Longrightarrow> sublist w s"
proof (induction s arbitrary: w)
  case (Cons c s)
  have hd: "prefix (hd (split_on p s)) s"
    by (induction s) (auto split: list.splits)
  show ?case
  proof (cases "split_on p s")
    case (Cons x xs)
    with hd have "prefix x s" by simp
    with Cons Cons.prems Cons.IH show ?thesis
      by (auto simp: sublist_Cons_right split: if_splits intro: sublist_Nil_left)
  qed simp
qed simp

lemma no_dotdot:
  assumes "sanitize_path raw = Inr p"
  shows "''..'' \<notin> set (components (renamed p n))"
proof
  from assms have "\<not> sublist ''..'' p" by (auto simp: sanitize_path_def contains_str_sublist split: if_splits)
  then have p: "''..'' \<notin> set (split_path p)" using split_on_sublist unfolding split_path_def by blast
  assume asm: "''..'' \<in> set (components (renamed p n))"
  show False
  proof (cases n)
    case 0
    with asm p show False by (simp add: components_def)
  next
    case (Suc m)
    have "split_path (renamed p n) = butlast (split_path p) @ [last (split_path p) @ ''.'' @ decimal n]"
    proof -
      from Suc have "renamed p n = p @ ''.'' @ decimal n" by (simp only: renamed_def nat.distinct if_False)
      then show ?thesis by (simp only: split_path_def split_on_append_plain [OF digits_no_slash])
    qed
    moreover have "''..'' \<notin> set (butlast (split_path p))" using p by (auto dest: in_set_butlastD)
    moreover have "last (split_path p) @ ''.'' @ decimal n \<noteq> ''..''"
    proof
      assume "last (split_path p) @ ''.'' @ decimal n = ''..''"
      then have "last (last (split_path p) @ ''.'' @ decimal n) = CHR ''.''" by simp
      then have "last (decimal n) = CHR ''.''" by simp
      with last_in_set [OF decimal_not_Nil [of n]] have "CHR ''.'' \<in> set (decimal n)" by simp
      with decimal_digits [of "CHR ''.''" n] show False by (simp add: byte_of_def)
    qed
    ultimately show False using asm by (auto simp: components_def split: if_splits)
  qed
qed

text \<open>An operating system on which everything succeeds.\<close>

definition io0 :: io where
  "io0 = \<lparr>io_cwd = [], io_pid = 1, io_ok = (\<lambda>_. True), io_write = (\<lambda>_ _. None)\<rparr>"

text \<open>
  C31. Whatever arrives on an upload stream and whichever operation of the operating system fails,
  an upload is all or nothing. Either the file system stays as it is, or the stream is an upload of
  a path without a parent component and of the bytes behind its header, and then, apart from the
  temporary file, the file system afterwards differs only by new directories and by the target (the
  path, or in rename mode the first of its numbered names that seems free), and the target only when
  the stream was finished: it then holds exactly all bytes behind the header, and the reply states
  their number and digest; a reply that says so is given only then. In the modes that skip, rename or
  refuse the target did not exist before, provided the lookup of the target did not fail.
\<close>

theorem upload_atomic:
  assumes "handle_upload_quic sha io complete s fs = out"
  shows "uo_fs out = fs \<and> (uo_reply out = [] \<or> hd (uo_reply out) \<noteq> 0x00)
    \<or> (\<exists>mode raw size_buf content p.
         s = upload_stream mode raw size_buf content \<and> length raw < 65536 \<and> length size_buf = 8
         \<and> sanitize_path (bytes_str (from_utf8_lossy raw)) = Inr p
         \<and> ''..'' \<notin> set (components (upload_target io mode p fs))
         \<and> (\<forall>k. k \<noteq> path_key io (tmp_path io (upload_target io mode p fs)) \<longrightarrow>
              map_of (uo_fs out) k = map_of fs k
              \<or> map_of fs k = None \<and> map_of (uo_fs out) k = Some Dir
              \<or> k = path_key io (upload_target io mode p fs) \<and> map_of (uo_fs out) k = Some (File content) \<and> complete
                \<and> uo_reply out = [0x00] @ le_bytes 8 (length content) @ sha content
                \<and> (mode \<in> {0x02, 0x03, 0x04} \<and> io_ok io (OpStat k) \<longrightarrow> map_of fs k = None))
         \<and> (uo_reply out = [0x00] @ le_bytes 8 (length content) @ sha content \<longrightarrow>
              complete \<and> map_of (uo_fs out) (path_key io (upload_target io mode p fs)) = Some (File content)))"
proof (cases "\<exists>mode s1 raw s2 p size_buf content. read_exact 1 s = Inr (mode, s1) \<and> read_path s1 = Inr (raw, s2)
    \<and> sanitize_path raw = Inr p \<and> read_exact 8 s2 = Inr (size_buf, content)")
  case False
  with assms show ?thesis
    by (auto simp: handle_upload_quic_def upload_fails_def upload_answers_def error_envelope_def split: sum.splits)
next
  case True
  then obtain mode s1 path s2 p size_buf content where 1: "read_exact 1 s = Inr (mode, s1)" "read_path s1 = Inr (path, s2)"
    "sanitize_path path = Inr p" "read_exact 8 s2 = Inr (size_buf, content)" by blast
  obtain raw where raw: "s1 = le_bytes 2 (length raw) @ raw @ s2" "path = bytes_str (from_utf8_lossy raw)" "length raw < 65536"
    by (rule read_path_bytes [OF 1(2)])
  obtain m where m: "mode = [m]" using 1(1) by (auto simp: read_exact_iff length_Suc_conv)
  have stream: "s = upload_stream m raw size_buf content" "length size_buf = 8"
    using 1 raw(1) m by (auto simp: read_exact_iff upload_stream_def)
  have out: "out = upload_to sha io complete m p content fs" using assms 1 m by (simp add: handle_upload_quic_def)
  obtain n where n: "upload_target io m p fs = renamed p n" using upload_target_renamed by blast
  have dots: "''..'' \<notin> set (components (upload_target io m p fs))" unfolding n by (rule no_dotdot [OF 1(3)])
  let ?t = "upload_target io m p fs"
  have eff: "map_of (uo_fs out) k = map_of fs k \<or> map_of fs k = None \<and> map_of (uo_fs out) k = Some Dir
      \<or> k = path_key io ?t \<and> map_of (uo_fs out) k = Some (File content) \<and> complete
        \<and> uo_reply out = [0x00] @ le_bytes 8 (length content) @ sha content
        \<and> (m \<in> {0x02, 0x03, 0x04} \<and> io_ok io (OpStat k) \<longrightarrow> map_of fs k = None)"
    if "k \<noteq> path_key io (tmp_path io ?t)" for k
    using upload_to_effect [OF out that] unfolding committed_def upload_ok_reply_def by blast
  have conf: "complete \<and> map_of (uo_fs out) (path_key io ?t) = Some (File content)"
    if "uo_reply out = [0x00] @ le_bytes 8 (length content) @ sha content"
    using upload_to_confirms [OF out] that unfolding upload_ok_reply_def by blast
  show ?thesis
    by (rule disjI2, rule exI [of _ m], rule exI [of _ raw], rule exI [of _ size_buf], rule exI [of _ content], rule exI [of _ p])
      (use stream raw(2,3) 1(3) dots eff conf in blast)
qed

definition upload0 :: upload_outcome where
  "upload0 = handle_upload_quic (\<lambda>x. x) io0 True (tl (upload_request Overwrite ''a'' [1])) [([''a''], File [7])]"

theorem upload_atomic_witness:
  "hd (uo_reply upload0) = 0x00 \<and>
    (\<exists>mode raw size_buf content p. tl (upload_request Overwrite ''a'' [1]) = upload_stream mode raw size_buf content
       \<and> (\<forall>k. k \<noteq> path_key io0 (tmp_path io0 (upload_target io0 mode p [([''a''], File [7])])) \<longrightarrow>
            map_of (uo_fs upload0) k = map_of [([''a''], File [7])] k
            \<or> map_of [([''a''], File [7])] k = None \<and> map_of (uo_fs upload0) k = Some Dir
            \<or> k = path_key io0 (upload_target io0 mode p [([''a''], File [7])]) \<and> map_of (uo_fs upload0) k = Some (File content)))"
proof -
  have r: "uo_reply upload0 \<noteq> []" "hd (uo_reply upload0) = 0x00" unfolding upload0_def by code_simp+
  with upload_atomic [OF upload0_def [symmetric]] show ?thesis by blast
qed

section \<open>Delivery\<close>

lemma create_dirs_keys: "k \<notin> set ks \<Longrightarrow> node_at (fst (create_dirs io ks fs)) k = node_at fs k"
  by (induction io ks fs rule: create_dirs.induct) (auto simp: node_at_def update_conv' split: option.splits node.splits)

lemma length_parent_dirs: "d \<in> set (parent_dirs io p) \<Longrightarrow> length d < length (path_key io p)"
  by (auto simp: parent_dirs_def path_key_def)

lemma length_renamed_key:
  assumes "\<not> wants_dir p"
  shows "length (path_key io (renamed p n)) = length (path_key io p)"
    and "length (path_key io (tmp_path io (renamed p n))) = length (path_key io p)"
    and "butlast (path_key io (renamed p n)) = butlast (path_key io p)"
    and "\<not> wants_dir (renamed p n)"
proof -
  show 1: "length (path_key io (renamed p n)) = length (path_key io p)"
    using assms by (cases n) (simp_all add: path_key_renamed path_key_file)
  show 2: "butlast (path_key io (renamed p n)) = butlast (path_key io p)"
    using assms by (cases n) (simp_all add: path_key_renamed path_key_file butlast_append)
  show 3: "\<not> wants_dir (renamed p n)"
    using assms path_key_append(2) [OF digits_no_slash [of n], of p] by (cases n) (simp_all add: renamed_def)
  have "length (path_key io (tmp_path io (renamed p n))) = Suc (length (butlast (path_key io (tmp_path io (renamed p n)))))"
    by (simp add: tmp_path_facts)
  also have "\<dots> = length (path_key io p)"
    using tmp_path_beside(2) [OF 3, of io] 2 assms by (simp add: path_key_file)
  finally show "length (path_key io (tmp_path io (renamed p n))) = length (path_key io p)" .
qed

text \<open>
  What an upload needs of the bridge: an operating system that does as it is told, a path that is
  accepted and names a file, parents that are not files, a target that is not a directory.
\<close>

definition upload_ready :: "io \<Rightarrow> fs \<Rightarrow> string \<Rightarrow> bool" where
  "upload_ready io fs p \<longleftrightarrow>
     io_ok io = (\<lambda>_. True) \<and> io_write io = (\<lambda>_ _. None) \<and> node_at fs (io_cwd io) = Some Dir
     \<and> length p < 65536 \<and> valid_utf8 (str_bytes p) \<and> sanitize_path p = Inr p \<and> p \<noteq> [] \<and> \<not> wants_dir p
     \<and> (\<forall>d \<in> set (parent_dirs io p). \<forall>b. node_at fs d \<noteq> Some (File b))
     \<and> node_at fs (path_key io p) \<noteq> Some Dir
     \<and> (\<forall>n. node_at fs (path_key io (tmp_path io (renamed p n))) \<noteq> Some Dir)"

lemma store_upload_ok:
  assumes "io_ok io = (\<lambda>_. True)" and "io_write io = (\<lambda>_ _. None)"
    and "target \<noteq> []" and "\<not> wants_dir target"
    and "node_at fs (path_key io target) \<noteq> Some Dir" and "node_at fs (path_key io (tmp_path io target)) \<noteq> Some Dir"
    and "node_at fs (butlast (path_key io target)) = Some Dir"
  shows "uo_reply (store_upload sha io True target content fs) = upload_ok_reply sha content"
    and "map_of (uo_fs (store_upload sha io True target content fs)) (path_key io target) = Some (File content)"
    and "map_of (uo_fs (store_upload sha io True target content fs)) (path_key io (tmp_path io target)) = None"
proof -
  let ?k = "path_key io target" and ?t = "path_key io (tmp_path io target)"
  from assms have ne: "?k \<noteq> ?t" "?k \<noteq> []" using tmp_path_beside(1) [of target io] by (auto simp: path_key_file)
  have 1: "create_file io (tmp_path io target) fs = Some (AList.update ?t (File []) fs)"
    using assms tmp_path_facts(2,3) [of io target] tmp_path_beside(2) [of target io] by (simp add: create_file_def Let_def)
  have 2: "write_file io (tmp_path io target) content (AList.update ?t (File []) fs) =
      (AList.update ?t (File content) (AList.update ?t (File []) fs), True)"
    using assms by (simp add: write_file_def)
  have 3: "rename_file io (tmp_path io target) target (AList.update ?t (File content) (AList.update ?t (File []) fs)) =
      Some (AList.update ?k (File content) (AList.delete ?t (AList.update ?t (File content) (AList.update ?t (File []) fs))))"
    using assms ne by (simp add: rename_file_def Let_def node_at_def update_conv')
  from 1 2 3 have "store_upload sha io True target content fs =
      upload_answers (upload_ok_reply sha content)
        (AList.update ?k (File content) (AList.delete ?t (AList.update ?t (File content) (AList.update ?t (File []) fs))))"
    by (simp add: store_upload_def)
  with ne show "uo_reply (store_upload sha io True target content fs) = upload_ok_reply sha content"
    "map_of (uo_fs (store_upload sha io True target content fs)) ?k = Some (File content)"
    "map_of (uo_fs (store_upload sha io True target content fs)) ?t = None"
    by (simp_all add: upload_answers_def map_of_update_delete)
qed

lemma free_name_cong:
  "(\<And>n. metadata io fs (renamed p n) = metadata io fs' (renamed p n)) \<Longrightarrow> free_name io fs p n = free_name io fs' p n"
proof (induction io fs p n rule: free_name.induct)
  case (1 io fs p n)
  show ?case
  proof (cases "metadata io fs (renamed p n) = None")
    case True
    with 1(2) [of n] show ?thesis by (simp add: free_name.simps [of io fs p n] free_name.simps [of io fs' p n])
  next
    case False
    with 1 have "free_name io fs p (n + 1) = free_name io fs' p (n + 1)" by blast
    with False 1(2) [of n] show ?thesis by (simp add: free_name.simps [of io fs p n] free_name.simps [of io fs' p n])
  qed
qed

text \<open>The file system once the parents are there.\<close>

lemma parents_created:
  assumes "upload_ready io fs p"
  obtains fs1 where "create_dirs io (parent_dirs io p) fs = (fs1, True)" and "only_new_dirs fs fs1"
    and "\<And>n. metadata io fs1 (renamed p n) = metadata io fs (renamed p n)"
    and "\<And>n. node_at fs1 (path_key io (tmp_path io (renamed p n))) \<noteq> Some Dir"
    and "node_at fs1 (path_key io p) \<noteq> Some Dir"
    and "node_at fs1 (butlast (path_key io p)) = Some Dir"
proof -
  from assms have ready: "io_ok io = (\<lambda>_. True)" "\<not> wants_dir p" "node_at fs (io_cwd io) = Some Dir"
    "\<forall>d \<in> set (parent_dirs io p). \<forall>b. node_at fs d \<noteq> Some (File b)" "node_at fs (path_key io p) \<noteq> Some Dir"
    "\<forall>n. node_at fs (path_key io (tmp_path io (renamed p n))) \<noteq> Some Dir"
    by (simp_all add: upload_ready_def)
  let ?fs1 = "fst (create_dirs io (parent_dirs io p) fs)"
  have c: "create_dirs io (parent_dirs io p) fs = (?fs1, True)"
    using create_dirs_ok [OF ready(1,4)] by (metis prod.collapse)
  note eff = create_dirs_effect [OF c]
  have same: "node_at ?fs1 k = node_at fs k" if "length k = length (path_key io p)" for k
    using that length_parent_dirs [of k io p] by (intro create_dirs_keys) auto
  have key: "node_at ?fs1 (path_key io (renamed p n)) = node_at fs (path_key io (renamed p n))" for n
    by (rule same) (rule length_renamed_key(1) [OF ready(2)])
  have "node_at ?fs1 (butlast (path_key io p)) = Some Dir"
  proof (cases "components p")
    case Nil
    with components_file [OF ready(2)] have False by simp
    then show ?thesis ..
  next
    case (Cons c cs)
    show ?thesis
    proof (cases "cs = []")
      case True
      with Cons ready(3) eff show ?thesis by (auto simp: path_key_def base_of_def node_at_def)
    next
      case False
      with Cons have "butlast (path_key io p) \<in> set (parent_dirs io p)"
        by (auto simp: parent_dirs_def path_key_def butlast_append butlast_conv_take Suc_le_eq intro!: image_eqI [of _ _ "length cs"])
      with eff show ?thesis by blast
    qed
  qed
  with c eff key ready same length_renamed_key(2) [OF ready(2)] show thesis
    by (intro that [of ?fs1]) (auto simp: metadata_def)
qed

text \<open>A bridge that serves one stream; the outcome of a stream that is not an upload is not of interest here.\<close>

definition bridge_upload :: "(bytes \<Rightarrow> bytes) \<Rightarrow> io \<Rightarrow> fs \<Rightarrow> bytes \<Rightarrow> upload_outcome" where
  "bridge_upload sha io fs req = (case handle_quic_stream req of
     Inr (UploadStream, s) \<Rightarrow> handle_upload_quic sha io True s fs
   | _ \<Rightarrow> upload_fails ''not an upload'' fs)"

lemma bridge_upload_request:
  assumes "upload_ready io fs p"
  shows "bridge_upload sha io fs (upload_request m p content) = upload_to sha io True (mode_byte m) p content fs"
proof -
  from assms have p: "length p < 256 ^ 2" "valid_utf8 (str_bytes p)" "sanitize_path p = Inr p"
    by (simp_all add: upload_ready_def)
  have "read_path (le_bytes 2 (length p) @ str_bytes p @ rest) = Inr (p, rest)" for rest
    using p by (simp add: read_path_def codec_simps from_utf8_lossy_valid)
  with p show ?thesis
    by (simp add: bridge_upload_def upload_request_def handle_quic_stream_def handle_upload_quic_def)
qed

lemma upload_reply_ok:
  assumes "length content < 2 ^ 64" and "length (sha content) = 32"
  shows "upload_reply hex p (upload_ok_reply sha content) =
      Inr \<lparr>fr_path = p, fr_status = ''uploaded'', fr_size = Some (length content), fr_sha256 = Some (hex (sha content))\<rparr>"
    and "upload_status (upload_ok_reply sha content) = Inr (0x00, length content, sha content)"
proof -
  have "read_exact 32 (sha content) = Inr (sha content, [])" using read_exact_append [OF assms(2), of "[]"] by simp
  then show "upload_reply hex p (upload_ok_reply sha content) =
      Inr \<lparr>fr_path = p, fr_status = ''uploaded'', fr_size = Some (length content), fr_sha256 = Some (hex (sha content))\<rparr>"
    "upload_status (upload_ok_reply sha content) = Inr (0x00, length content, sha content)"
    using assms(1) by (simp_all add: upload_reply_def upload_status_def upload_ok_reply_def codec_simps)
qed

lemma upload_reply_skipped:
  "upload_reply hex p ([0x01] @ le_bytes 8 0 @ replicate 32 0) =
     Inr \<lparr>fr_path = p, fr_status = ''skipped'', fr_size = None, fr_sha256 = None\<rparr>"
  using read_exact_append [of "replicate 32 (0 :: byte)" 32 "[]"] by (simp add: upload_reply_def)

lemma read_envelope_error:
  assumes "length msg < 65536" and "\<forall>c \<in> set msg. byte_of c < 128"
  shows "read_envelope what (le_bytes 2 (length msg) @ str_bytes msg) = Inl (WErr (what @ msg))"
proof -
  have "valid_utf8 (str_bytes msg)"
    using assms(2) by (intro valid_utf8_ascii) (auto simp: str_bytes_def byte_of_def word_less_nat_alt unat_of_char_byte)
  moreover have "read_exact (length msg) (str_bytes msg) = Inr (str_bytes msg, [])"
    using read_exact_append [of "str_bytes msg" "length msg" "[]"] by simp
  ultimately show ?thesis using assms(1) by (simp add: read_envelope_def codec_simps from_utf8_lossy_valid)
qed

text \<open>
  Uploading to a bridge whose operating system does as it is told delivers the file. When the
  path is free, or the mode overwrites, or the mode renames, both clients learn the size and the
  digest of the content, the target holds exactly the content and no temporary file is left; in
  rename mode the target is the first free name, while the result still names the path that was
  asked for. When the path is taken, the skipping mode answers so and the refusing mode fails,
  and neither changes a file.
\<close>

theorem upload_delivers:
  assumes "upload_ready io fs p" and "length content < 2 ^ 64" and "length (sha content) = 32"
  shows "let out = bridge_upload sha io fs (upload_request m p content);
             result = upload_single hex (\<lambda>req. uo_reply (bridge_upload sha io fs req)) m p content;
             taken = (metadata io fs p \<noteq> None);
             target = (if m = Rename then free_name io fs p 0 else p)
         in if m = Skip \<and> taken then
              result = Inr \<lparr>fr_path = p, fr_status = ''skipped'', fr_size = None, fr_sha256 = None\<rparr> \<and> only_new_dirs fs (uo_fs out)
            else if m = NoClobber \<and> taken then
              result = Inl (WErr ''upload failed: file already exists'') \<and> only_new_dirs fs (uo_fs out)
            else
              result = Inr \<lparr>fr_path = p, fr_status = ''uploaded'', fr_size = Some (length content), fr_sha256 = Some (hex (sha content))\<rparr>
              \<and> (m = Overwrite \<longrightarrow>
                   upload_one (\<lambda>req. uo_reply (bridge_upload sha io fs req)) p content = Inr (0x00, length content, sha content))
              \<and> map_of (uo_fs out) (path_key io target) = Some (File content)
              \<and> map_of (uo_fs out) (path_key io (tmp_path io target)) = None"
proof -
  from assms(1) have os: "io_ok io = (\<lambda>_. True)" "io_write io = (\<lambda>_ _. None)" "p \<noteq> []" "\<not> wants_dir p"
    by (simp_all add: upload_ready_def)
  obtain fs1 where c: "create_dirs io (parent_dirs io p) fs = (fs1, True)" and new: "only_new_dirs fs fs1"
    and meta: "\<And>n. metadata io fs1 (renamed p n) = metadata io fs (renamed p n)"
    and tmp: "\<And>n. node_at fs1 (path_key io (tmp_path io (renamed p n))) \<noteq> Some Dir"
    and key: "node_at fs1 (path_key io p) \<noteq> Some Dir" and par: "node_at fs1 (butlast (path_key io p)) = Some Dir"
    by (rule parents_created [OF assms(1)]) (rule that)
  have meta0: "metadata io fs1 p = metadata io fs p" using meta [of 0] by simp
  have free: "free_name io fs1 p 0 = free_name io fs p 0" by (rule free_name_cong) (rule meta)
  define target where "target = (if m = Rename then free_name io fs p 0 else p)"
  obtain n where n: "target = renamed p n"
    using free_name_free [of io fs p 0] renamed_0 [of p] unfolding target_def by metis
  have target: "target \<noteq> []" "\<not> wants_dir target" "node_at fs1 (butlast (path_key io target)) = Some Dir"
      "node_at fs1 (path_key io (tmp_path io target)) \<noteq> Some Dir"
    using os(3,4) length_renamed_key [OF os(4)] par tmp unfolding n by (auto simp: renamed_def)
  have "metadata io fs1 target = None" if "m = Rename"
    using that free_name_free [of io fs1 p 0] free by (simp add: target_def)
  then have nodir: "node_at fs1 (path_key io target) \<noteq> Some Dir"
    using key target metadata_None [of io fs1 target] os(1) by (auto simp: target_def split: if_splits)
  have out: "bridge_upload sha io fs (upload_request m' p content) = upload_to sha io True (mode_byte m') p content fs" for m'
    by (rule bridge_upload_request [OF assms(1)])
  note store = store_upload_ok [OF os(1,2) target(1,2) nodir target(4,3), of sha content]
  show ?thesis
  proof (cases "(m = Skip \<or> m = NoClobber) \<and> metadata io fs p \<noteq> None")
    case True
    then show ?thesis
      using c new meta0 upload_reply_skipped [of hex p] read_envelope_error [of "''file already exists''" "''upload failed: ''"]
      by (auto simp: Let_def upload_single_def out upload_to_def upload_answers_def upload_reply_def error_envelope_def byte_of_def)
  next
    case False
    have "upload_to sha io True (mode_byte m) p content fs = store_upload sha io True target content fs1"
      using False c free meta0 by (cases m) (auto simp: upload_to_def target_def Let_def)
    moreover have "target = p" if "m = Overwrite" using that by (simp add: target_def)
    ultimately show ?thesis
      using False store upload_reply_ok [of content sha, OF assms(2,3)] unfolding Let_def target_def [symmetric]
      by (auto simp: upload_single_def upload_one_def out)
  qed
qed

text \<open>
  A lookup of the target that fails counts as an absent file, also in the mode that must not
  replace anything: the existing file is replaced.
\<close>

lemma failed_lookup_replaces:
  "map_of (uo_fs (upload_to (\<lambda>x. x) (io0\<lparr>io_ok := \<lambda>op. op \<noteq> OpStat [''a'']\<rparr>) True (mode_byte NoClobber) ''a'' [1]
     [([''a''], File [7])])) [''a''] = Some (File [1])"
  by code_simp

text \<open>
  The size that a client declares is read and not compared with what arrives, so a stream that is
  finished early is stored and confirmed as a complete file.
\<close>

lemma declared_size_ignored:
  assumes "length raw < 65536" and "length size_buf = 8" and "length size_buf' = 8"
  shows "handle_upload_quic sha io True ([mode] @ le_bytes 2 (length raw) @ raw @ size_buf @ content) fs =
    handle_upload_quic sha io True ([mode] @ le_bytes 2 (length raw) @ raw @ size_buf' @ content) fs"
  using assms by (simp add: handle_upload_quic_def read_path_def codec_simps split: sum.split)

text \<open>
  The search for a free name in rename mode ends: it returns the first of the names \<open>p\<close>, \<open>p.1\<close>, \<open>p.2\<close>
  and so on under which nothing exists, after at most two rounds more than the file system has
  entries.
\<close>

theorem free_name_first:
  "\<exists>m \<le> length fs + 1. free_name io fs p 0 = renamed p m \<and> metadata io fs (renamed p m) = None
     \<and> list_all (\<lambda>j. metadata io fs (renamed p j) \<noteq> None) [0..<m]"
proof -
  have "\<exists>m \<ge> n. free_name io fs p n = renamed p m \<and> metadata io fs (renamed p m) = None
      \<and> (\<forall>j \<in> {n..<m}. metadata io fs (renamed p j) \<noteq> None)" for n
  proof (induction io fs p n rule: free_name.induct)
    case (1 io fs p n)
    show ?case
    proof (cases "metadata io fs (renamed p n) = None")
      case True
      then show ?thesis by (intro exI [of _ n]) (simp add: free_name.simps [of io fs p n])
    next
      case False
      with 1 obtain m where m: "n + 1 \<le> m" "free_name io fs p (n + 1) = renamed p m" "metadata io fs (renamed p m) = None"
          "\<forall>j \<in> {n + 1..<m}. metadata io fs (renamed p j) \<noteq> None" by blast
      have "metadata io fs (renamed p j) \<noteq> None" if "j \<in> {n..<m}" for j
        using that False m(4) by (cases "j = n") auto
      with m(1-3) False show ?thesis by (intro exI [of _ m]) (auto simp: free_name.simps [of io fs p n])
    qed
  qed
  from this [of 0] obtain m where m: "free_name io fs p 0 = renamed p m" "metadata io fs (renamed p m) = None"
    "\<forall>j \<in> {0..<m}. metadata io fs (renamed p j) \<noteq> None" by blast
  have inj: "inj_on (\<lambda>j. path_key io (renamed p j)) {1..<m}"
    by (rule inj_onI) (auto simp: path_key_renamed Suc_le_eq gr0_conv_Suc)
  have "path_key io (renamed p j) \<in> fst ` set fs" if "j \<in> {1..<m}" for j
    using that m(3) metadata_key [of io fs "renamed p j"] by (cases j) (auto simp: path_key_renamed)
  then have "card ((\<lambda>j. path_key io (renamed p j)) ` {1..<m}) \<le> card (fst ` set fs)"
    by (intro card_mono) auto
  also have "card (fst ` set fs) \<le> length fs" by (metis card_image_le card_length finite_set le_trans)
  finally have "m \<le> length fs + 1" using inj by (simp add: card_image)
  with m show ?thesis by (intro exI [of _ m]) (auto simp: list_all_iff)
qed

end
