(* ===== verification/File_Download.thy ===== *)
theory File_Download
  imports File_Upload
begin

text \<open>
  Downloading files and directories: the handlers of the bridge (\<open>rmux-bridge/src/files.rs\<close>), the
  server (\<open>clum-mcp/src/files.rs\<close>) and the command line client (\<open>clum-cli/src/transfer.rs\<close>), which
  asks for a manifest first and fetches the files of a directory one stream each.

  A directory on the bridge is the list of its entries in directory order; what is neither a directory nor a
  link is read like a file, pipes and devices too. What the operating
  system finds under a path, following links, is a parameter, as is the text of its errors. The
  local side is the list of the files that are written, in order, and a parameter that says for
  which paths creating a file or directory succeeds; the bytes of a write arrive. Throttling and
  progress reports are left out.
\<close>

section \<open>The bridge\<close>

text \<open>
  A regular file that can be read is \<open>TFile\<close>. Everything else that is neither a directory nor a link is \<open>TOther\<close>: a
  pipe, a socket, a device, a file without read permission or one that changes, with the size the operating
  system reports and what opening and reading it gives, \<open>None\<close> when that fails. \<open>TShut\<close> is a directory
  that cannot be listed, \<open>TGone\<close> an entry that has disappeared when it is looked at. Reading a pipe nobody
  writes to never ends and has no counterpart.
\<close>

type_synonym file_source = "nat \<times> bytes option"

datatype tnode = TFile bytes | TOther file_source | TDir "(string \<times> tnode) list" | TShut | TLink | TGone

fun node_source :: "tnode \<Rightarrow> file_source option" where
  "node_source (TFile b) = Some (length b, Some b)"
| "node_source (TOther src) = Some src"
| "node_source _ = None"

fun_cases node_sourceE: "node_source nd = Some src"

definition to_string_lossy :: "string \<Rightarrow> string" where
  "to_string_lossy s = bytes_str (from_utf8_lossy (str_bytes s))"

definition MAX_DIR_DEPTH :: nat where "MAX_DIR_DEPTH = 64"

fun collect_remote_files :: "nat \<Rightarrow> string \<Rightarrow> (string \<times> tnode) list \<Rightarrow> string + (string \<times> file_source) list" where
  "collect_remote_files depth pre [] = Inr []"
| "collect_remote_files depth pre ((name, TFile b) # es) =
     map_sum id (Cons (to_string_lossy (pre @ name), (length b, Some b))) (collect_remote_files depth pre es)"
| "collect_remote_files depth pre ((name, TOther src) # es) =
     map_sum id (Cons (to_string_lossy (pre @ name), src)) (collect_remote_files depth pre es)"
| "collect_remote_files depth pre ((name, TDir ds) # es) =
     (if MAX_DIR_DEPTH < depth + 1 then Inl ''directory too deep (>64)''
      else case collect_remote_files (depth + 1) (pre @ name @ ''/'') ds of
        Inl e \<Rightarrow> Inl e
      | Inr files \<Rightarrow> map_sum id (append files) (collect_remote_files depth pre es))"
| "collect_remote_files depth pre ((name, TShut) # es) = Inl ''read_dir''"
| "collect_remote_files depth pre ((name, TLink) # es) = collect_remote_files depth pre es"
| "collect_remote_files depth pre ((name, TGone) # es) = collect_remote_files depth pre es"

text \<open>A handler that fails before it has written anything sends nothing.\<close>

definition download_file_quic :: "file_source \<Rightarrow> wire_error + bytes" where
  "download_file_quic src = (case src of
     (_, None) \<Rightarrow> Inl (WErr ''open'')
   | (file_size, Some content) \<Rightarrow> Inr ([0x00] @ le_bytes 8 file_size @ content))"

text \<open>
  The entries of a directory. Where a file cannot be opened the handler ends: its name has been sent,
  and the stream ends there.
\<close>

fun send_entries :: "(string \<times> file_source) list \<Rightarrow> bytes" where
  "send_entries [] = []"
| "send_entries ((rel, file_size, None) # files) = le_bytes 2 (length rel) @ str_bytes rel"
| "send_entries ((rel, file_size, Some content) # files) =
     le_bytes 2 (length rel) @ str_bytes rel @ le_bytes 8 file_size @ content @ send_entries files"

definition download_dir_quic :: "(string \<times> tnode) list \<Rightarrow> wire_error + bytes" where
  "download_dir_quic es = (case collect_remote_files 0 [] es of
     Inl e \<Rightarrow> Inl (WErr e)
   | Inr files \<Rightarrow> Inr ([0x04] @ le_bytes 4 (length files) @ send_entries files))"

record remote_fs =
  rf_lookup :: "string \<Rightarrow> tnode option"
  rf_error :: "string \<Rightarrow> string"

definition stat_error :: "remote_fs \<Rightarrow> string \<Rightarrow> bytes" where
  "stat_error rf p = error_envelope (''failed to stat: '' @ rf_error rf p)"

definition handle_download_quic :: "remote_fs \<Rightarrow> bytes \<Rightarrow> wire_error + bytes" where
  "handle_download_quic rf s = (case read_path s of
     Inl e \<Rightarrow> Inl e
   | Inr (raw, _) \<Rightarrow>
       (case sanitize_path raw of
          Inl msg \<Rightarrow> Inr (error_envelope msg)
        | Inr remote_path \<Rightarrow>
            (case rf_lookup rf remote_path of
               Some (TDir es) \<Rightarrow> download_dir_quic es
             | Some TShut \<Rightarrow> Inl (WErr ''read_dir'')
             | Some node \<Rightarrow> (case node_source node of Some src \<Rightarrow> download_file_quic src | None \<Rightarrow> Inr (stat_error rf remote_path))
             | None \<Rightarrow> Inr (stat_error rf remote_path))))"

definition list_entry :: "string \<times> nat \<Rightarrow> bytes" where
  "list_entry e = (case e of (rel, n) \<Rightarrow> le_bytes 2 (length rel) @ str_bytes rel @ le_bytes 8 n)"

definition list_reply :: "(string \<times> nat) list \<Rightarrow> bytes" where
  "list_reply entries = [0x00] @ le_bytes 4 (length entries) @ concat (map list_entry entries)"

definition handle_list_quic :: "remote_fs \<Rightarrow> bytes \<Rightarrow> wire_error + bytes" where
  "handle_list_quic rf s = (case read_path s of
     Inl e \<Rightarrow> Inl e
   | Inr (raw, _) \<Rightarrow>
       (case sanitize_path raw of
          Inl msg \<Rightarrow> Inl (WErr msg)
        | Inr remote_path \<Rightarrow>
            (case rf_lookup rf remote_path of
               Some (TDir es) \<Rightarrow>
                 (case collect_remote_files 0 [] es of
                    Inl e \<Rightarrow> Inl (WErr e)
                  | Inr files \<Rightarrow> Inr (list_reply (map (\<lambda>(rel, file_size, _). (rel, file_size)) files)))
             | Some TShut \<Rightarrow> Inl (WErr ''read_dir'')
             | Some node \<Rightarrow>
                 (case node_source node of
                    Some (file_size, _) \<Rightarrow> Inr (list_reply [([], file_size)])
                  | None \<Rightarrow> Inr (stat_error rf remote_path))
             | None \<Rightarrow> Inr (stat_error rf remote_path))))"

text \<open>What the other end of a stream reads: nothing, when the handler fails.\<close>

definition bridge_serve :: "remote_fs \<Rightarrow> bytes \<Rightarrow> bytes" where
  "bridge_serve rf req = (case handle_quic_stream req of
     Inr (DownloadStream, s) \<Rightarrow> (case handle_download_quic rf s of Inl _ \<Rightarrow> [] | Inr reply \<Rightarrow> reply)
   | Inr (ListStream, s) \<Rightarrow> (case handle_list_quic rf s of Inl _ \<Rightarrow> [] | Inr reply \<Rightarrow> reply)
   | _ \<Rightarrow> [])"

section \<open>The server\<close>

definition MAX_DOWNLOAD_FILE_BYTES :: nat where "MAX_DOWNLOAD_FILE_BYTES = 32 * 1024 * 1024 * 1024"

definition MAX_DIR_ENTRIES :: nat where "MAX_DIR_ENTRIES = 100000"

definition MAX_REL_PATH_LEN :: nat where "MAX_REL_PATH_LEN = 4096"

text \<open>The files written and the result.\<close>

type_synonym 'a download_result = "(string \<times> bytes) list \<times> (wire_error + 'a)"

definition downloaded :: "(bytes \<Rightarrow> string) \<Rightarrow> string \<Rightarrow> nat \<Rightarrow> bytes \<Rightarrow> file_result" where
  "downloaded digest path declared content =
     \<lparr>fr_path = path, fr_status = ''downloaded'', fr_size = Some declared, fr_sha256 = Some (digest content)\<rparr>"

definition read_single_file :: "(bytes \<Rightarrow> string) \<Rightarrow> (string \<Rightarrow> bool) \<Rightarrow> string \<Rightarrow> bytes \<Rightarrow> file_result download_result" where
  "read_single_file digest create local_path s = (case read_exact 8 s of
     Inl e \<Rightarrow> ([], Inl e)
   | Inr (size_buf, s) \<Rightarrow>
       (let file_size = from_le size_buf
        in if MAX_DOWNLOAD_FILE_BYTES < file_size then ([], Inl (WErr ''file declares too many bytes''))
           else if \<not> create local_path then ([], Inl (WErr ''failed to create''))
           else let content = take file_size s
                in ([(local_path, content)],
                    if length content \<noteq> file_size then Inl (WErr ''truncated transfer'')
                    else Inr (downloaded digest local_path file_size content))))"

definition rel_unsafe :: "string \<Rightarrow> bool" where
  "rel_unsafe rel \<longleftrightarrow> contains_str rel ''..'' \<or> prefix ''/'' rel"

fun read_entries :: "(bytes \<Rightarrow> string) \<Rightarrow> (string \<Rightarrow> bool) \<Rightarrow> string \<Rightarrow> nat \<Rightarrow> bytes \<Rightarrow> file_result list download_result" where
  "read_entries digest create base 0 s = ([], Inr [])"
| "read_entries digest create base (Suc n) s = (case read_exact 2 s of
     Inl e \<Rightarrow> ([], Inl e)
   | Inr (l, s) \<Rightarrow>
       if from_le l = 0 \<or> MAX_REL_PATH_LEN < from_le l then ([], Inl (WErr ''invalid relative path length''))
       else case read_exact (from_le l) s of
         Inl e \<Rightarrow> ([], Inl e)
       | Inr (path_buf, s) \<Rightarrow>
           (let rel = bytes_str (from_utf8_lossy path_buf)
            in if rel_unsafe rel then ([], Inl (WErr ''unsafe relative path from bridge''))
               else case read_exact 8 s of
                 Inl e \<Rightarrow> ([], Inl e)
               | Inr (size_buf, s) \<Rightarrow>
                   (let file_size = from_le size_buf; local_path = base @ ''/'' @ rel
                    in if MAX_DOWNLOAD_FILE_BYTES < file_size then ([], Inl (WErr ''file declares too many bytes''))
                       else if \<not> create local_path then ([], Inl (WErr ''failed to create''))
                       else let content = take file_size s;
                                (ws, res) = read_entries digest create base n (drop file_size s)
                            in ((local_path, content) # ws, map_sum id (Cons (downloaded digest rel file_size content)) res))))"

definition read_directory :: "(bytes \<Rightarrow> string) \<Rightarrow> (string \<Rightarrow> bool) \<Rightarrow> string \<Rightarrow> bytes \<Rightarrow> file_result list download_result" where
  "read_directory digest create base s = (case read_exact 4 s of
     Inl e \<Rightarrow> ([], Inl e)
   | Inr (count_buf, s) \<Rightarrow>
       if MAX_DIR_ENTRIES < from_le count_buf then ([], Inl (WErr ''directory listing declares too many entries''))
       else if \<not> create base then ([], Inl (WErr ''failed to create directory''))
       else read_entries digest create base (from_le count_buf) s)"

definition sanitize_local_path :: "string \<Rightarrow> string + string" where
  "sanitize_local_path raw =
     (if CHR 0x00 \<in> set raw then Inl ''path contains null byte''
      else if contains_str raw ''..'' then Inl (''path traversal rejected: '' @ [CHR 0x27] @ raw @ [CHR 0x27])
      else Inr raw)"

definition download_file ::
    "(bytes \<Rightarrow> string) \<Rightarrow> (string \<Rightarrow> bool) \<Rightarrow> (bytes \<Rightarrow> bytes) \<Rightarrow> string \<Rightarrow> string \<Rightarrow> file_result list download_result" where
  "download_file digest create serve remote_path local_path = (case sanitize_local_path local_path of
     Inl msg \<Rightarrow> ([], Inl (WErr msg))
   | Inr local_path \<Rightarrow>
       (case read_exact 1 (serve (path_request 0x03 remote_path)) of
          Inl e \<Rightarrow> ([], Inl e)
        | Inr (code, s) \<Rightarrow>
            if code = [0x00] then
              (let (ws, res) = read_single_file digest create local_path s in (ws, map_sum id (\<lambda>r. [r]) res))
            else if code = [0x04] then read_directory digest create local_path s
            else if code = [0x02] then ([], read_envelope ''download failed: '' s)
            else ([], Inl (WErr ''unknown response code''))))"

section \<open>The command line client\<close>

definition validate_rel_path :: "string \<Rightarrow> bool" where
  "validate_rel_path rel \<longleftrightarrow> rel \<noteq> [] \<and> \<not> prefix ''/'' rel \<and> ''..'' \<notin> set (split_path rel)"

definition join_path :: "string \<Rightarrow> string \<Rightarrow> string" where
  "join_path base rel = (if base = [] \<or> suffix ''/'' base then base @ rel else base @ ''/'' @ rel)"

text \<open>\<open>Path::join\<close> in general: an absolute path replaces the one it is joined to.\<close>

definition path_join :: "string \<Rightarrow> string \<Rightarrow> string" where
  "path_join base rel = (if prefix ''/'' rel then rel else join_path base rel)"

definition trim_slashes :: "string \<Rightarrow> string" where
  "trim_slashes s = rev (dropWhile (\<lambda>c. c = CHR ''/'') (rev s))"

definition recv_to_file :: "(string \<Rightarrow> bool) \<Rightarrow> string \<Rightarrow> nat \<Rightarrow> bytes \<Rightarrow> (string \<times> bytes) list \<times> (wire_error + bytes)" where
  "recv_to_file create path n s =
     (if \<not> create path then ([], Inl (WErr ''create''))
      else ([(path, take n s)], if length s < n then Inl (WErr ''stream ended early'') else Inr (drop n s)))"

fun read_manifest :: "nat \<Rightarrow> bytes \<Rightarrow> wire_error + (string \<times> nat) list" where
  "read_manifest 0 s = Inr []"
| "read_manifest (Suc n) s = (case read_exact 2 s of
     Inl e \<Rightarrow> Inl e
   | Inr (l, s) \<Rightarrow>
       (case read_exact (from_le l) s of
          Inl e \<Rightarrow> Inl e
        | Inr (rel, s) \<Rightarrow>
            if \<not> valid_utf8 rel then Inl (WErr ''invalid UTF-8 in rel path'')
            else case read_exact 8 s of
              Inl e \<Rightarrow> Inl e
            | Inr (size_buf, s) \<Rightarrow> map_sum id (Cons (bytes_str rel, from_le size_buf)) (read_manifest n s)))"

definition fetch_manifest :: "(bytes \<Rightarrow> bytes) \<Rightarrow> string \<Rightarrow> wire_error + (string \<times> nat) list" where
  "fetch_manifest serve remote_path = (case read_exact 1 (serve (path_request 0x08 remote_path)) of
     Inl e \<Rightarrow> Inl e
   | Inr (status, s) \<Rightarrow>
       if status = [0x00] then
         (case read_exact 4 s of Inl e \<Rightarrow> Inl e | Inr (count_buf, s) \<Rightarrow> read_manifest (from_le count_buf) s)
       else if status = [0x02] then read_envelope ''list failed: '' s
       else Inl (WErr ''unexpected list status''))"

definition download_one ::
    "(string \<Rightarrow> bool) \<Rightarrow> (bytes \<Rightarrow> bytes) \<Rightarrow> string \<Rightarrow> string \<Rightarrow> string \<Rightarrow> nat download_result" where
  "download_one create serve remote_base base rel =
     (if \<not> validate_rel_path rel then ([], Inl (WErr ''invalid relative path''))
      else case read_exact 1 (serve (path_request 0x03 (trim_slashes remote_base @ ''/'' @ rel))) of
        Inl e \<Rightarrow> ([], Inl e)
      | Inr (status, s) \<Rightarrow>
          if status = [0x00] then
            (case read_exact 8 s of
               Inl e \<Rightarrow> ([], Inl e)
             | Inr (size_buf, s) \<Rightarrow>
                 (let (ws, res) = recv_to_file create (join_path base rel) (from_le size_buf) s
                  in (ws, map_sum id (\<lambda>_. from_le size_buf) res)))
          else if status = [0x02] then ([], read_envelope ''download failed: '' s)
          else if status = [0x04] then ([], Inl (WErr ''expected file but server returned directory''))
          else ([], Inl (WErr ''unexpected download status'')))"

text \<open>The result of a client command is the number of bytes it reports.\<close>

definition download_dir_parallel ::
    "(string \<Rightarrow> bool) \<Rightarrow> (bytes \<Rightarrow> bytes) \<Rightarrow> string \<Rightarrow> string \<Rightarrow> (string \<times> nat) list \<Rightarrow> nat download_result" where
  "download_dir_parallel create serve remote_path local_path entries =
     (if \<not> create local_path then ([], Inl (WErr ''mkdir''))
      else
        let rs = map (\<lambda>(rel, _). download_one create serve remote_path local_path rel) entries
        in (concat (map fst rs),
            if list_ex (\<lambda>(_, r). isl r) rs then Inl (WErr ''file(s) failed to pull'')
            else Inr (sum_list (map (\<lambda>(_, r). projr r) rs))))"

fun legacy_entries :: "(string \<Rightarrow> bool) \<Rightarrow> string \<Rightarrow> nat \<Rightarrow> bytes \<Rightarrow> nat download_result" where
  "legacy_entries create base 0 s = ([], Inr 0)"
| "legacy_entries create base (Suc n) s = (case read_exact 2 s of
     Inl e \<Rightarrow> ([], Inl e)
   | Inr (l, s) \<Rightarrow>
       (case read_exact (from_le l) s of
          Inl e \<Rightarrow> ([], Inl e)
        | Inr (rel_bytes, s) \<Rightarrow>
            if \<not> valid_utf8 rel_bytes then ([], Inl (WErr ''invalid UTF-8 in rel path''))
            else if \<not> validate_rel_path (bytes_str rel_bytes) then ([], Inl (WErr ''invalid relative path''))
            else case read_exact 8 s of
              Inl e \<Rightarrow> ([], Inl e)
            | Inr (size_buf, s) \<Rightarrow>
                (case recv_to_file create (join_path base (bytes_str rel_bytes)) (from_le size_buf) s of
                   (ws, Inl e) \<Rightarrow> (ws, Inl e)
                 | (ws, Inr s) \<Rightarrow>
                     (let (ws', res) = legacy_entries create base n s
                      in (ws @ ws', map_sum id (\<lambda>b. from_le size_buf + b) res)))))"

definition legacy_download :: "(string \<Rightarrow> bool) \<Rightarrow> (bytes \<Rightarrow> bytes) \<Rightarrow> string \<Rightarrow> string \<Rightarrow> nat download_result" where
  "legacy_download create serve remote_path local_path =
     (case read_exact 1 (serve (path_request 0x03 remote_path)) of
        Inl e \<Rightarrow> ([], Inl e)
      | Inr (status, s) \<Rightarrow>
          if status = [0x00] then
            (case read_exact 8 s of
               Inl e \<Rightarrow> ([], Inl e)
             | Inr (size_buf, s) \<Rightarrow>
                 (let (ws, res) = recv_to_file create local_path (from_le size_buf) s
                  in (ws, map_sum id (\<lambda>_. from_le size_buf) res)))
          else if status = [0x04] then
            (case read_exact 4 s of
               Inl e \<Rightarrow> ([], Inl e)
             | Inr (count_buf, s) \<Rightarrow>
                 if \<not> create local_path then ([], Inl (WErr ''mkdir''))
                 else legacy_entries create local_path (from_le count_buf) s)
          else if status = [0x02] then ([], read_envelope ''download failed: '' s)
          else ([], Inl (WErr ''unexpected download status'')))"

definition download :: "(string \<Rightarrow> bool) \<Rightarrow> (bytes \<Rightarrow> bytes) \<Rightarrow> string \<Rightarrow> string \<Rightarrow> nat download_result" where
  "download create serve remote_path local_path = (case fetch_manifest serve remote_path of
     Inl _ \<Rightarrow> legacy_download create serve remote_path local_path
   | Inr entries \<Rightarrow>
       if length entries = 1 \<and> fst (entries ! 0) = [] then legacy_download create serve remote_path local_path
       else download_dir_parallel create serve remote_path local_path entries)"

section \<open>What a directory download sends\<close>

text \<open>What lies below a directory, is neither a directory nor a link, and is reached without following a link.\<close>

inductive reach :: "(string \<times> tnode) list \<Rightarrow> string \<Rightarrow> file_source \<Rightarrow> bool" where
  reach_file: "(name, nd) \<in> set es \<Longrightarrow> node_source nd = Some src \<Longrightarrow> reach es name src"
| reach_dir: "(name, TDir ds) \<in> set es \<Longrightarrow> reach ds rel src \<Longrightarrow> reach es (name @ ''/'' @ rel) src"

inductive_simps reach_Nil [simp]: "reach [] rel src"

lemma reach_Cons: "reach ((name, nd) # es) rel src \<longleftrightarrow>
    node_source nd = Some src \<and> rel = name \<or> (\<exists>ds r. nd = TDir ds \<and> rel = name @ ''/'' @ r \<and> reach ds r src) \<or> reach es rel src"
  unfolding reach.simps [of "(name, nd) # es" rel src] reach.simps [of es rel src] by auto

lemma collect_remote_files_exact:
  "collect_remote_files depth pre es = Inr files \<Longrightarrow>
     set files = {(to_string_lossy (pre @ rel), src) |rel src. reach es rel src}"
proof (induction depth pre es arbitrary: files rule: collect_remote_files.induct)
  case (2 depth pre name b es)
  then obtain fs where "collect_remote_files depth pre es = Inr fs" "files = (to_string_lossy (pre @ name), length b, Some b) # fs"
    by (cases "collect_remote_files depth pre es") auto
  with 2 show ?case by (auto simp: reach_Cons)
next
  case (3 depth pre name src es)
  then obtain fs where "collect_remote_files depth pre es = Inr fs" "files = (to_string_lossy (pre @ name), src) # fs"
    by (cases "collect_remote_files depth pre es") auto
  with 3 show ?case by (auto simp: reach_Cons)
next
  case (4 depth pre name ds es)
  then obtain fs1 where 1: "collect_remote_files (depth + 1) (pre @ name @ ''/'') ds = Inr fs1" "\<not> MAX_DIR_DEPTH < depth + 1"
    by (auto split: if_splits sum.splits)
  with 4 obtain fs2 where 2: "collect_remote_files depth pre es = Inr fs2" "files = fs1 @ fs2"
    by (cases "collect_remote_files depth pre es") auto
  from 4(1) [OF 1(2,1)] 4(2) [OF 1(2,1) 2(1)] show ?case
    unfolding 2(2) by (auto simp: reach_Cons)
qed (auto simp: reach_Cons)

section \<open>Reading back\<close>

declare str_bytes_bytes_str [simp]

lemma valid_utf8_lossy: "valid_utf8 (from_utf8_lossy v)"
proof (induction v rule: from_utf8_lossy.induct)
  case (1 v)
  have rep: "valid_utf8 [0xEF, 0xBF, 0xBD]" by code_simp
  show ?case
  proof (cases "v = []")
    case True
    then show ?thesis by (simp add: from_utf8_lossy.simps [of "[]"] valid_utf8_def)
  next
    case False
    with 1 rep show ?thesis
      using valid_utf8_append [OF valid_utf8_Char] valid_utf8_append [OF rep]
      by (subst from_utf8_lossy.simps) (auto split: utf8_head.splits)
  qed
qed

lemma collected_utf8:
  "collect_remote_files depth pre es = Inr files \<Longrightarrow> (rel, src) \<in> set files \<Longrightarrow> valid_utf8 (str_bytes rel)"
  by (auto dest!: collect_remote_files_exact simp: to_string_lossy_def valid_utf8_lossy)

lemma read_path_request:
  assumes "length p < 65536" and "valid_utf8 (str_bytes p)"
  shows "read_path (le_bytes 2 (length p) @ str_bytes p) = Inr (p, [])"
  using assms read_exact_append [of "str_bytes p" "length p" "[]"]
  by (simp add: read_path_def codec_simps from_utf8_lossy_valid)

text \<open>An entry that the server and the client accept.\<close>

definition entry_ok :: "string \<times> bytes \<Rightarrow> bool" where
  "entry_ok f \<longleftrightarrow> (case f of (rel, b) \<Rightarrow>
     rel \<noteq> [] \<and> length rel \<le> MAX_REL_PATH_LEN \<and> \<not> rel_unsafe rel \<and> length b \<le> MAX_DOWNLOAD_FILE_BYTES)"

text \<open>What is collected when a file can be read and holds as many bytes as the operating system reports.\<close>

definition readable :: "string \<times> bytes \<Rightarrow> string \<times> file_source" where
  "readable f = (case f of (rel, b) \<Rightarrow> (rel, length b, Some b))"

lemma readable_simp [simp]: "readable (rel, b) = (rel, length b, Some b)"
  by (simp add: readable_def)

definition file_reply :: "bytes \<Rightarrow> bytes" where
  "file_reply content = [0x00] @ le_bytes 8 (length content) @ content"

lemma download_readable [simp]: "download_file_quic (length b, Some b) = Inr (file_reply b)"
  by (simp add: download_file_quic_def file_reply_def)

lemma read_entries_sent:
  assumes "list_all entry_ok files" and "\<forall>(rel, b) \<in> set files. valid_utf8 (str_bytes rel)"
  shows "read_entries digest (\<lambda>_. True) base (length files) (send_entries (map readable files) @ rest) =
    (map (\<lambda>(rel, b). (base @ ''/'' @ rel, b)) files, Inr (map (\<lambda>(rel, b). downloaded digest rel (length b) b) files))"
  using assms
proof (induction files)
  case (Cons f files)
  obtain rel b where f: "f = (rel, b)" by (cases f)
  with Cons.prems have ok: "rel \<noteq> []" "length rel \<le> 4096" "\<not> rel_unsafe rel" "length b \<le> 32 * 1024 * 1024 * 1024"
    "valid_utf8 (str_bytes rel)"
    by (auto simp: entry_ok_def MAX_REL_PATH_LEN_def MAX_DOWNLOAD_FILE_BYTES_def)
  then have "from_le (le_bytes 2 (length rel)) = length rel" "from_le (le_bytes 8 (length b)) = length b"
    by (simp_all add: codec_simps)
  with Cons ok show ?case
    by (simp add: f from_utf8_lossy_valid MAX_REL_PATH_LEN_def MAX_DOWNLOAD_FILE_BYTES_def Let_def)
qed simp

lemma read_manifest_sent:
  assumes "\<forall>(rel, n) \<in> set entries. length rel < 65536 \<and> n < 2 ^ 64 \<and> valid_utf8 (str_bytes rel)"
  shows "read_manifest (length entries) (concat (map list_entry entries)) = Inr entries"
  using assms
proof (induction entries)
  case (Cons e entries)
  obtain rel n where e: "e = (rel, n)" by (cases e)
  with Cons.prems have "from_le (le_bytes 2 (length rel)) = length rel" "from_le (le_bytes 8 n) = n" "valid_utf8 (str_bytes rel)"
    by (auto simp: codec_simps)
  with Cons show ?case by (simp add: e list_entry_def)
qed simp

section \<open>Directories arrive\<close>

text \<open>A path that a client may send: accepted by the bridge and short enough to extend.\<close>

definition remote_ok :: "string \<Rightarrow> bool" where
  "remote_ok p \<longleftrightarrow> length p < 61000 \<and> valid_utf8 (str_bytes p) \<and> sanitize_path p = Inr p \<and> \<not> suffix ''/'' p"

text \<open>
  What the code relies on from the operating system of the bridge: below a directory, a path made of
  its name and the names on the way resolves to the file that is there; names are UTF-8 and hold no null byte.
\<close>

definition dir_resolves :: "remote_fs \<Rightarrow> string \<Rightarrow> (string \<times> tnode) list \<Rightarrow> bool" where
  "dir_resolves rf p es \<longleftrightarrow> rf_lookup rf p = Some (TDir es) \<and>
     (\<forall>rel src. reach es rel src \<longrightarrow> Option.bind (rf_lookup rf (p @ ''/'' @ rel)) node_source = Some src \<and> valid_utf8 (str_bytes rel) \<and> CHR 0x00 \<notin> set rel)"

lemma handle_stream_path [simp]:
  "handle_quic_stream (path_request 0x03 p) = Inr (DownloadStream, le_bytes 2 (length p) @ str_bytes p)"
  "handle_quic_stream (path_request 0x08 p) = Inr (ListStream, le_bytes 2 (length p) @ str_bytes p)"
  by (simp_all add: path_request_def handle_quic_stream_def)

lemma to_string_lossy_valid: "valid_utf8 (str_bytes s) \<Longrightarrow> to_string_lossy s = s"
  by (simp add: to_string_lossy_def from_utf8_lossy_valid)

lemma trim_slashes_id: "\<not> suffix ''/'' p \<Longrightarrow> trim_slashes p = p"
  by (cases p rule: rev_cases) (auto simp: trim_slashes_def suffix_def)

lemma sublist_append_slash:
  assumes "sublist ''..'' (u @ ''/'' @ v)"
  shows "sublist ''..'' u \<or> sublist ''..'' v"
proof -
  from assms obtain x y where xy: "u @ [CHR ''/''] @ v = x @ ''..'' @ y" by (auto simp: sublist_def)
  then consider z where "u = x @ z" "z @ [CHR ''/''] @ v = ''..'' @ y" | z where "x = u @ z" "[CHR ''/''] @ v = z @ ''..'' @ y"
    by (auto simp: append_eq_append_conv2)
  then show ?thesis
  proof cases
    case 1
    then have "prefix ''..'' z \<or> prefix z ''..''" by (metis prefixI prefix_same_cases)
    then have "prefix ''..'' z" using 1(2) by (cases z rule: list.exhaust; cases "tl z" rule: list.exhaust) auto
    with 1(1) show ?thesis by (metis append.assoc prefixE sublist_def)
  next
    case 2
    then have "sublist ''..'' v" by (cases z) (auto simp: sublist_def)
    then show ?thesis ..
  qed
qed

lemma remote_ok_extend:
  assumes "remote_ok p" and "length rel \<le> 4096" and "valid_utf8 (str_bytes rel)" and "\<not> sublist ''..'' rel" and "CHR 0x00 \<notin> set rel"
  shows "length (p @ ''/'' @ rel) < 65536" "valid_utf8 (str_bytes (p @ ''/'' @ rel))" "sanitize_path (p @ ''/'' @ rel) = Inr (p @ ''/'' @ rel)"
proof -
  from assms have p: "valid_utf8 (str_bytes p)" "CHR 0x00 \<notin> set p" "\<not> sublist ''..'' p"
    by (auto simp: remote_ok_def sanitize_path_def contains_str_sublist split: if_splits)
  show "length (p @ ''/'' @ rel) < 65536" using assms by (simp add: remote_ok_def)
  have "valid_utf8 (str_bytes ''/'')" by code_simp
  then show "valid_utf8 (str_bytes (p @ ''/'' @ rel))"
    using p(1) assms(3) by (simp only: str_bytes_def map_append valid_utf8_append)
  show "sanitize_path (p @ ''/'' @ rel) = Inr (p @ ''/'' @ rel)"
    using p assms(4,5) sublist_append_slash [of p rel] by (auto simp: sanitize_path_def contains_str_sublist)
qed

lemma split_path_no_dotdot: "\<not> sublist ''..'' rel \<Longrightarrow> ''..'' \<notin> set (split_path rel)"
  using split_on_sublist unfolding split_path_def by blast

lemma bridge_serve_path:
  assumes "length p < 65536" and "valid_utf8 (str_bytes p)" and "sanitize_path p = Inr p"
  shows "Option.bind (rf_lookup rf p) node_source = Some (length b, Some b) \<Longrightarrow> bridge_serve rf (path_request 0x03 p) = file_reply b"
    and "rf_lookup rf p = Some (TDir es) \<Longrightarrow> collect_remote_files 0 [] es = Inr files \<Longrightarrow>
      bridge_serve rf (path_request 0x03 p) = [0x04] @ le_bytes 4 (length files) @ send_entries files
      \<and> bridge_serve rf (path_request 0x08 p) = list_reply (map (\<lambda>(rel, file_size, _). (rel, file_size)) files)"
    and "Option.bind (rf_lookup rf p) node_source = Some (length b, Some b) \<Longrightarrow> bridge_serve rf (path_request 0x08 p) = list_reply [([], length b)]"
  using assms(3)
  by (simp_all add: bridge_serve_def read_path_request [OF assms(1,2)] handle_download_quic_def handle_list_quic_def
      download_dir_quic_def bind_eq_Some_conv) (auto elim!: node_sourceE)

lemma download_one_file:
  assumes "remote_ok p" and "length rel \<le> 4096" and "rel \<noteq> []" and "\<not> rel_unsafe rel" and "valid_utf8 (str_bytes rel)"
    and "CHR 0x00 \<notin> set rel" and "Option.bind (rf_lookup rf (p @ ''/'' @ rel)) node_source = Some (length b, Some b)" and "length b < 2 ^ 64"
  shows "download_one (\<lambda>_. True) (bridge_serve rf) p base rel = ([(join_path base rel, b)], Inr (length b))"
proof -
  from assms have "\<not> sublist ''..'' rel" by (simp add: rel_unsafe_def contains_str_sublist)
  with assms have "validate_rel_path rel"
    by (simp add: validate_rel_path_def rel_unsafe_def split_path_no_dotdot)
  moreover have "trim_slashes p = p" using assms(1) by (simp add: trim_slashes_id remote_ok_def)
  moreover have "bridge_serve rf (path_request 0x03 (p @ ''/'' @ rel)) = file_reply b"
    using remote_ok_extend [OF assms(1,2,5) \<open>\<not> sublist ''..'' rel\<close> assms(6)] assms(7) by (rule bridge_serve_path(1))
  ultimately show ?thesis
    using assms(8) by (simp add: download_one_def file_reply_def recv_to_file_def codec_simps)
qed

lemma fetch_manifest_sent:
  assumes "\<forall>(rel, n) \<in> set entries. length rel < 65536 \<and> n < 2 ^ 64 \<and> valid_utf8 (str_bytes rel)"
    and "length entries < 2 ^ 32" and "serve (path_request 0x08 p) = list_reply entries"
  shows "fetch_manifest serve p = Inr entries"
  using assms read_manifest_sent [OF assms(1)] by (simp add: fetch_manifest_def list_reply_def codec_simps)

text \<open>
  C32. A directory arrives complete and unchanged at both clients. The files of a download are exactly what
  lies below the directory, is neither a directory nor a link and is reached without following a
  link, each under its path relative to the directory. Suppose each of them can be read and holds as
  many bytes as the operating system reports, names are UTF-8 without null bytes and resolve to what was
  listed; the bridge accepts the remote path, which does not end in a slash and is shorter than
  61000 bytes, and the server the local one; no directory is deeper than 64 levels; there are at most
  100000 files, each of at most 32 GiB and with a relative path of 1 to 4096 bytes without \<open>..\<close>; and creating
  the local files succeeds. Then the server stores each file under the local directory and reports
  its size and digest; the manifest the command line client asks for lists them with their sizes, and
  fetching them one by one stores the same files.
\<close>

theorem directory_arrives:
  assumes "dir_resolves rf remote es" and "remote_ok remote" and "sanitize_local_path local = Inr local"
    and "collect_remote_files 0 [] es = Inr (map readable files)" and "list_all entry_ok files" and "length files \<le> MAX_DIR_ENTRIES"
  shows "set (map readable files) = {(rel, src). reach es rel src}
    \<and> download_file digest (\<lambda>_. True) (bridge_serve rf) remote local =
      (map (\<lambda>(rel, b). (local @ ''/'' @ rel, b)) files, Inr (map (\<lambda>(rel, b). downloaded digest rel (length b) b) files))
    \<and> fetch_manifest (bridge_serve rf) remote = Inr (map (\<lambda>(rel, b). (rel, length b)) files)
    \<and> download (\<lambda>_. True) (bridge_serve rf) remote local =
      (map (\<lambda>(rel, b). (join_path local rel, b)) files, Inr (sum_list (map (\<lambda>(rel, b). length b) files)))"
proof -
  from assms(1) have res: "rf_lookup rf remote = Some (TDir es)"
    "\<And>rel src. reach es rel src \<Longrightarrow> Option.bind (rf_lookup rf (remote @ ''/'' @ rel)) node_source = Some src \<and> valid_utf8 (str_bytes rel) \<and> CHR 0x00 \<notin> set rel"
    by (auto simp: dir_resolves_def)
  have "to_string_lossy rel = rel" if "reach es rel src" for rel src using res(2) [OF that] to_string_lossy_valid by blast
  then have set_files: "set (map readable files) = {(rel, src). reach es rel src}"
    unfolding collect_remote_files_exact [OF assms(4)] append_Nil by (auto, metis)
  have reached: "reach es rel (length b, Some b)" if "(rel, b) \<in> set files" for rel b
  proof -
    from that have "readable (rel, b) \<in> set (map readable files)" by (simp only: set_map imageI)
    then show ?thesis unfolding set_files by simp
  qed
  have ok: "rel \<noteq> []" "length rel \<le> 4096" "\<not> rel_unsafe rel" "length b \<le> 34359738368"
      "valid_utf8 (str_bytes rel)" "CHR 0x00 \<notin> set rel" "Option.bind (rf_lookup rf (remote @ ''/'' @ rel)) node_source = Some (length b, Some b)"
    if "(rel, b) \<in> set files" for rel b
    using that assms(5) reached [OF that] res(2) [of rel "(length b, Some b)"]
    by (auto simp: list_all_iff entry_ok_def MAX_REL_PATH_LEN_def MAX_DOWNLOAD_FILE_BYTES_def)
  have n: "length files \<le> 100000" using assms(6) by (simp add: MAX_DIR_ENTRIES_def)
  from assms(2) have p: "length remote < 65536" "valid_utf8 (str_bytes remote)" "sanitize_path remote = Inr remote"
    by (simp_all add: remote_ok_def)
  have sizes: "map ((\<lambda>(rel, file_size, _). (rel, file_size)) \<circ> readable) files = map (\<lambda>(rel, b). (rel, length b)) files"
    by (auto simp: readable_def)
  note served = bridge_serve_path(2) [OF p res(1) assms(4), unfolded list.map_comp sizes length_map]
  have server: "download_file digest (\<lambda>_. True) (bridge_serve rf) remote local =
      (map (\<lambda>(rel, b). (local @ ''/'' @ rel, b)) files, Inr (map (\<lambda>(rel, b). downloaded digest rel (length b) b) files))"
    using assms(3) served n read_entries_sent [OF assms(5), of digest local "[]"] ok(5)
    by (auto simp: download_file_def read_directory_def codec_simps MAX_DIR_ENTRIES_def)
  have manifest: "fetch_manifest (bridge_serve rf) remote = Inr (map (\<lambda>(rel, b). (rel, length b)) files)"
  proof (rule fetch_manifest_sent)
    show "\<forall>(rel, n) \<in> set (map (\<lambda>(rel, b). (rel, length b)) files). length rel < 65536 \<and> n < 2 ^ 64 \<and> valid_utf8 (str_bytes rel)"
      using ok(2,4,5) by fastforce
  qed (use served n in auto)
  have "map (\<lambda>(rel, _). download_one (\<lambda>_. True) (bridge_serve rf) remote local rel) (map (\<lambda>(rel, b). (rel, length b)) files) =
      map (\<lambda>(rel, b). ([(join_path local rel, b)], Inr (length b))) files"
    using download_one_file [OF assms(2) ok(2,1,3,5,6,7)] ok(4) by (fastforce simp: list.map_comp)
  then have "download_dir_parallel (\<lambda>_. True) (bridge_serve rf) remote local (map (\<lambda>(rel, b). (rel, length b)) files) =
      (map (\<lambda>(rel, b). (join_path local rel, b)) files, Inr (sum_list (map (\<lambda>(rel, b). length b) files)))"
    by (induction files) (auto simp: download_dir_parallel_def Let_def)
  moreover have "\<not> (length files = 1 \<and> fst (map (\<lambda>(rel, b). (rel, length b)) files ! 0) = [])"
    using ok(1) by (cases files) auto
  ultimately have "download (\<lambda>_. True) (bridge_serve rf) remote local =
      (map (\<lambda>(rel, b). (join_path local rel, b)) files, Inr (sum_list (map (\<lambda>(rel, b). length b) files)))"
    by (simp only: download_def manifest sum.case length_map if_False)
  with set_files server manifest show ?thesis by blast
qed

text \<open>A directory with a file and a link.\<close>

definition es0 :: "(string \<times> tnode) list" where
  "es0 = [(''x'', TFile [1]), (''l'', TLink)]"

definition rf0 :: remote_fs where
  "rf0 = \<lparr>rf_lookup = (\<lambda>p. if p = ''d'' then Some (TDir es0) else if p = ''d/x'' then Some (TFile [1]) else None), rf_error = (\<lambda>_. [])\<rparr>"

theorem directory_arrives_witness:
  "download_file (\<lambda>_. []) (\<lambda>_. True) (bridge_serve rf0) ''d'' ''o'' =
     ([(''o/x'', [1])], Inr [\<lparr>fr_path = ''x'', fr_status = ''downloaded'', fr_size = Some 1, fr_sha256 = Some []\<rparr>])
   \<and> download (\<lambda>_. True) (bridge_serve rf0) ''d'' ''o'' = ([(''o/x'', [1])], Inr 1)"
proof -
  have valid: "valid_utf8 (str_bytes ''x'')" "valid_utf8 (str_bytes ''d'')" by code_simp+
  have "reach es0 rel src \<longleftrightarrow> rel = ''x'' \<and> src = (1, Some [1])" for rel src by (auto simp: es0_def reach_Cons)
  with valid have 1: "dir_resolves rf0 ''d'' es0" by (simp add: dir_resolves_def rf0_def)
  from valid have 2: "remote_ok ''d''"
    by (simp add: remote_ok_def sanitize_path_def contains_str_sublist sublist_Cons_right suffix_def)
  have 3: "sanitize_local_path ''o'' = Inr ''o''"
    by (simp add: sanitize_local_path_def contains_str_sublist sublist_Cons_right)
  from valid have 4: "collect_remote_files 0 [] es0 = Inr (map readable [(''x'', [1])])" by (simp add: es0_def to_string_lossy_valid)
  have 5: "list_all entry_ok [(''x'', [1])]" "length [(''x'', [1 :: byte])] \<le> MAX_DIR_ENTRIES"
    by (simp_all add: entry_ok_def rel_unsafe_def contains_str_sublist sublist_Cons_right MAX_REL_PATH_LEN_def
        MAX_DOWNLOAD_FILE_BYTES_def MAX_DIR_ENTRIES_def)
  from directory_arrives [OF 1 2 3 4 5, of "\<lambda>_. []"] show ?thesis by (simp add: downloaded_def join_path_def suffix_def)
qed

section \<open>Downloads stay where they belong\<close>

lemma read_entries_confined:
  "read_entries digest create base n s = (ws, res) \<Longrightarrow> length ws \<le> n
     \<and> list_all (\<lambda>(path, content). length content \<le> MAX_DOWNLOAD_FILE_BYTES \<and> (\<exists>rel. path = base @ ''/'' @ rel \<and> \<not> rel_unsafe rel)) ws"
proof (induction n arbitrary: s ws res)
  case (Suc n)
  from Suc.prems show ?case
    by (auto simp: Let_def min_le_iff_disj split: sum.splits if_splits prod.split_asm dest!: Suc.IH)
qed simp

lemma sanitize_local_no_dotdot: "sanitize_local_path raw = Inr p \<Longrightarrow> p = raw \<and> \<not> sublist ''..'' p"
  by (auto simp: sanitize_local_path_def contains_str_sublist split: if_splits)

lemma download_file_confined:
  assumes "download_file digest create serve remote local = (ws, res)"
  shows "length ws \<le> MAX_DIR_ENTRIES
    \<and> list_all (\<lambda>(path, content). length content \<le> MAX_DOWNLOAD_FILE_BYTES \<and> \<not> sublist ''..'' path
         \<and> (path = local \<or> (\<exists>rel. path = local @ ''/'' @ rel \<and> \<not> prefix ''/'' rel))) ws"
proof (cases "sanitize_local_path local")
  case (Inl e)
  with assms show ?thesis by (auto simp: download_file_def)
next
  case (Inr l)
  then have l: "l = local" "\<not> sublist ''..'' local" using sanitize_local_no_dotdot by blast+
  have single: "length ws \<le> 1 \<and> list_all (\<lambda>(path, content). length content \<le> MAX_DOWNLOAD_FILE_BYTES \<and> path = local) ws"
    if "read_single_file digest create local s = (ws, r)" for s r
    using that by (auto simp: read_single_file_def Let_def split: sum.splits if_splits)
  have dir: "length ws \<le> MAX_DIR_ENTRIES
      \<and> list_all (\<lambda>(path, content). length content \<le> MAX_DOWNLOAD_FILE_BYTES \<and> (\<exists>rel. path = local @ ''/'' @ rel \<and> \<not> rel_unsafe rel)) ws"
    if "read_directory digest create local s = (ws, r)" for s r
    using that by (auto simp: read_directory_def split: sum.splits if_splits dest!: read_entries_confined)
  consider "ws = []" | s r where "read_single_file digest create local s = (ws, r)" | s r where "read_directory digest create local s = (ws, r)"
    using assms Inr l(1) by (auto simp: download_file_def split: sum.splits if_splits prod.splits)
  then show ?thesis
  proof cases
    case 2
    from single [OF this] l(2) show ?thesis by (auto simp: list_all_iff MAX_DIR_ENTRIES_def)
  next
    case 3
    from dir [OF this] l(2) show ?thesis
      using sublist_append_slash [of local] by (fastforce simp: list_all_iff rel_unsafe_def contains_str_sublist)
  qed simp
qed

text \<open>The command line client: every path is a validated one, and what it reports is what it wrote.\<close>

definition pulled_ok :: "string \<Rightarrow> nat download_result \<Rightarrow> bool" where
  "pulled_ok local d \<longleftrightarrow> (case d of (ws, res) \<Rightarrow>
     list_all (\<lambda>(path, content). path = local \<or> (\<exists>rel. path = join_path local rel \<and> validate_rel_path rel)) ws
     \<and> (\<forall>n. res = Inr n \<longrightarrow> n = sum_list (map (\<lambda>(path, content). length content) ws)))"

lemma pulled_ok_fail [simp]: "pulled_ok local ([], Inl e)"
  by (simp add: pulled_ok_def)

lemma read_envelope_fails: "\<exists>e. read_envelope what s = Inl e"
  by (auto simp: read_envelope_def split: sum.splits)

lemma recv_to_file_ok:
  assumes "recv_to_file create path n s = (ws, res)"
    and "path = local \<or> (\<exists>rel. path = join_path local rel \<and> validate_rel_path rel)"
  shows "pulled_ok local (ws, map_sum id (\<lambda>_. n) res)"
  using assms by (auto simp: recv_to_file_def pulled_ok_def split: if_splits)

lemma pulled_ok_envelope [simp]: "pulled_ok local ([], read_envelope what s)"
  using read_envelope_fails [of what s] by (metis pulled_ok_fail)

lemma download_one_ok: "pulled_ok base (download_one create serve remote base rel)"
  by (simp add: download_one_def split: sum.split prod.split) (blast intro: recv_to_file_ok)

lemma legacy_entries_ok: "pulled_ok base (legacy_entries create base n s)"
proof (induction n arbitrary: s)
  case 0
  then show ?case by (simp add: pulled_ok_def)
next
  case (Suc n)
  have fail: "pulled_ok base (ws, Inl e)" if "recv_to_file create (join_path base rel) m t = (ws, Inl e)" "validate_rel_path rel"
    for rel m t ws e
    using recv_to_file_ok [OF that(1), of base] that(2) by auto
  have step: "pulled_ok base (ws @ ws', map_sum id ((+) m) res)"
    if "recv_to_file create (join_path base rel) m t = (ws, Inr t')" "legacy_entries create base n t' = (ws', res)" "validate_rel_path rel"
    for rel m t ws t' ws' res
    using Suc.IH [of t'] that by (cases res) (auto simp: pulled_ok_def recv_to_file_def split: if_splits)
  show ?case
    by (simp split: sum.split prod.split) (blast intro: fail step)
qed

lemma legacy_download_ok: "pulled_ok local (legacy_download create serve remote local)"
  by (simp add: legacy_download_def legacy_entries_ok split: sum.split prod.split) (blast intro: recv_to_file_ok)

lemma download_dir_parallel_ok: "pulled_ok local (download_dir_parallel create serve remote local entries)"
proof (cases "create local")
  case True
  have all: "pulled_ok local (concat (map fst rs),
      if list_ex (\<lambda>(_, r). isl r) rs then Inl (WErr ''file(s) failed to pull'') else Inr (sum_list (map (\<lambda>(_, r). projr r) rs)))"
    if "\<forall>r \<in> set rs. pulled_ok local r" for rs
    using that
  proof (induction rs)
    case (Cons r rs)
    obtain ws res where r: "r = (ws, res)" by (cases r)
    with Cons show ?case by (cases res) (auto simp: pulled_ok_def split: if_splits)
  qed (simp add: pulled_ok_def)
  have "\<forall>r \<in> set (map (\<lambda>(rel, _). download_one create serve remote local rel) entries). pulled_ok local r"
    by (auto simp: download_one_ok)
  from all [OF this] True show ?thesis unfolding download_dir_parallel_def Let_def by simp
qed (simp add: download_dir_parallel_def)

lemma download_ok: "pulled_ok local (download create serve remote local)"
  by (simp add: download_def legacy_download_ok download_dir_parallel_ok split: sum.split)

text \<open>
  C33. Whatever a bridge sends in answer to a download, the clients write only where the caller asked. The
  server writes at most a hundred thousand files of at most 32 GiB each, at the local path or below
  it, and no path it writes contains the parent directory. The command line client writes at the
  local path or at validated relative paths below it, and when it reports success, the number of
  bytes it reports is the number of bytes it wrote; the number and the size of its files have no limit.
\<close>

theorem downloads_confined:
  assumes "download_file digest create serve remote local = (ws, res)" and "download create serve remote local = (ws', res')"
  shows "length ws \<le> 100000
    \<and> list_all (\<lambda>(path, content). length content \<le> 32 * 1024 ^ 3 \<and> ''..'' \<notin> set (components path)
        \<and> (path = local \<or> (\<exists>rel. path = local @ ''/'' @ rel \<and> \<not> prefix ''/'' rel))) ws
    \<and> list_all (\<lambda>(path, content). path = local
        \<or> (\<exists>rel. path = join_path local rel \<and> \<not> prefix ''/'' rel \<and> ''..'' \<notin> set (components rel))) ws'
    \<and> (\<forall>n. res' = Inr n \<longrightarrow> n = sum_list (map (\<lambda>(path, content). length content) ws'))"
proof -
  have comp: "''..'' \<notin> set (components p)" if "\<not> sublist ''..'' p" for p
    using split_path_no_dotdot [OF that] by (simp add: components_def)
  have val: "\<not> prefix ''/'' rel \<and> ''..'' \<notin> set (components rel)" if "validate_rel_path rel" for rel
    using that by (simp add: validate_rel_path_def components_def)
  from download_file_confined [OF assms(1)] comp
  have "length ws \<le> 100000
    \<and> list_all (\<lambda>(path, content). length content \<le> 32 * 1024 ^ 3 \<and> ''..'' \<notin> set (components path)
        \<and> (path = local \<or> (\<exists>rel. path = local @ ''/'' @ rel \<and> \<not> prefix ''/'' rel))) ws"
    by (fastforce simp: list_all_iff MAX_DIR_ENTRIES_def MAX_DOWNLOAD_FILE_BYTES_def)
  moreover from download_ok [of local create serve remote] assms(2) val
  have "list_all (\<lambda>(path, content). path = local
        \<or> (\<exists>rel. path = join_path local rel \<and> \<not> prefix ''/'' rel \<and> ''..'' \<notin> set (components rel))) ws'
    \<and> (\<forall>n. res' = Inr n \<longrightarrow> n = sum_list (map (\<lambda>(path, content). length content) ws'))"
    by (fastforce simp: pulled_ok_def list_all_iff)
  ultimately show ?thesis by blast
qed

theorem downloads_confined_witness:
  "length [(''o'', [7 :: byte])] \<le> 100000
    \<and> list_all (\<lambda>(path, content). length content \<le> 32 * 1024 ^ 3 \<and> ''..'' \<notin> set (components path)
        \<and> (path = ''o'' \<or> (\<exists>rel. path = ''o'' @ ''/'' @ rel \<and> \<not> prefix ''/'' rel))) [(''o'', [7 :: byte])]"
proof -
  have 1: "download_file (\<lambda>_. []) (\<lambda>_. True) (\<lambda>_. file_reply [7]) ''d'' ''o'' =
      ([(''o'', [7])], Inr [downloaded (\<lambda>_. []) ''o'' 1 [7]])"
    by (simp add: download_file_def sanitize_local_path_def contains_str_sublist sublist_Cons_right file_reply_def
        read_single_file_def codec_simps MAX_DOWNLOAD_FILE_BYTES_def Let_def)
  obtain ws' res' where "download (\<lambda>_. True) (\<lambda>_. file_reply [7]) ''d'' ''o'' = (ws', res')" by fastforce
  from downloads_confined [OF 1 this] show ?thesis by blast
qed

text \<open>
  A pipe in the directory is read like a file, but the size the operating system reports for it is zero: what
  is read from it arrives where the next entry is expected, and can name a file of its own.
\<close>

lemma pipe_forges_entry:
  assumes "list_all entry_ok [(p, []), (rel, b)]" and "valid_utf8 (str_bytes p)" and "valid_utf8 (str_bytes rel)"
  shows "read_entries digest (\<lambda>_. True) base 2 (send_entries [(p, 0, Some (send_entries [readable (rel, b)])), readable f]) =
    ([(base @ ''/'' @ p, []), (base @ ''/'' @ rel, b)], Inr [downloaded digest p 0 [], downloaded digest rel (length b) b])"
proof -
  have "send_entries [(p, 0, Some (send_entries [readable (rel, b)])), readable f] =
      send_entries (map readable [(p, []), (rel, b)]) @ send_entries [readable f]" by simp
  moreover have "2 = length [(p, []), (rel, b)]" by simp
  ultimately show ?thesis
    using read_entries_sent [OF assms(1), of digest base "send_entries [readable f]"] assms(2,3)
    by (simp only:) simp
qed

text \<open>
  The server reads the files of a directory without checking that they are complete: when the stream
  ends inside the last file, it stores the part and reports the declared size.
\<close>

lemma truncated_directory_accepted:
  assumes "entry_ok (rel, b)" and "valid_utf8 (str_bytes rel)" and "k \<le> length b"
  shows "read_directory digest (\<lambda>_. True) base (le_bytes 4 1 @ take (10 + length rel + k) (send_entries [readable (rel, b)])) =
    ([(base @ ''/'' @ rel, take k b)], Inr [downloaded digest rel (length b) (take k b)])"
proof -
  from assms have ok: "rel \<noteq> []" "length rel \<le> 4096" "\<not> rel_unsafe rel" "length b \<le> 32 * 1024 * 1024 * 1024"
    by (auto simp: entry_ok_def MAX_REL_PATH_LEN_def MAX_DOWNLOAD_FILE_BYTES_def)
  then have le: "from_le (le_bytes 2 (length rel)) = length rel" "from_le (le_bytes 8 (length b)) = length b" "from_le (le_bytes 4 1) = 1"
    by (simp_all add: codec_simps)
  have "take (10 + length rel + k) (send_entries [readable (rel, b)]) = le_bytes 2 (length rel) @ str_bytes rel @ le_bytes 8 (length b) @ take k b"
    by simp
  with ok le assms(2,3) show ?thesis
    by (simp add: read_directory_def from_utf8_lossy_valid MAX_REL_PATH_LEN_def MAX_DOWNLOAD_FILE_BYTES_def MAX_DIR_ENTRIES_def Let_def)
qed

end
