(* ===== verification/Http_Entry.thy ===== *)
theory Http_Entry
  imports Tool_Gate Api_Keys Bridge_Store Recording_Crypto File_Download
begin

text \<open>
  The HTTPS entrance of the server (\<open>clum-mcp/src/http_server.rs\<close>): who a request is admitted as,
  what a tool call of an admitted request is judged as, and which files the download routes serve.

  The interface of an entrance, shared with the QUIC one, is the locale \<open>entrance\<close>. Parameters: the
  digest, the decision of the policy store for a caller, the decoding of a path by the web
  framework, path resolution and file reads of the operating system, and the ciphers of
  \<open>Recording_Crypto\<close>.
\<close>

section \<open>Peers\<close>

text \<open>An address is four octets or eight 16 bit segments; the port plays no role.\<close>

datatype ip_addr = V4 byte byte byte byte | V6 "u16 list"

fun ipv4_is_loopback :: "ip_addr \<Rightarrow> bool" where
  "ipv4_is_loopback (V4 a _ _ _) \<longleftrightarrow> a = 127"
| "ipv4_is_loopback (V6 _) \<longleftrightarrow> False"

definition to_ipv4_mapped :: "u16 list \<Rightarrow> ip_addr option" where
  "to_ipv4_mapped segs =
     (if length segs = 8 \<and> take 6 segs = [0, 0, 0, 0, 0, 0xFFFF]
      then Some (V4 (ucast (drop_bit 8 (segs ! 6))) (ucast (segs ! 6)) (ucast (drop_bit 8 (segs ! 7))) (ucast (segs ! 7)))
      else None)"

fun is_loopback_socket :: "ip_addr \<Rightarrow> bool" where
  "is_loopback_socket (V4 a b c d) \<longleftrightarrow> ipv4_is_loopback (V4 a b c d)"
| "is_loopback_socket (V6 segs) \<longleftrightarrow>
     segs = [0, 0, 0, 0, 0, 0, 0, 1] \<or> (case to_ipv4_mapped segs of Some v4 \<Rightarrow> ipv4_is_loopback v4 | None \<Rightarrow> False)"

section \<open>What an entrance promises\<close>

text \<open>
  An entrance admits a peer with the credential it presents as somebody (\<open>Some (Some i)\<close>), as the
  administrator that needs no key (\<open>Some None\<close>), or not at all.
\<close>

locale entrance =
  fixes admit :: "(string \<Rightarrow> string) \<Rightarrow> nat \<Rightarrow> bool \<Rightarrow> ip_addr option \<Rightarrow> string option \<Rightarrow> key_store \<Rightarrow> agent_identity option option"
  assumes keyless_law: "admit sha now fails peer cred st = Some None \<Longrightarrow>
      key_store_is_empty fails st \<and> (\<exists>a. peer = Some a \<and> is_loopback_socket a)"
    and identity_law: "admit sha now fails peer cred st = Some (Some i) \<Longrightarrow>
      fst (validate_key sha now (case cred of Some t \<Rightarrow> t | None \<Rightarrow> []) st) = Some i"
begin

lemma no_keyless_admission:
  assumes "ks_rows st \<noteq> []"
  shows "admit sha now False peer cred st \<noteq> Some None"
proof
  assume "admit sha now False peer cred st = Some None"
  from keyless_law [OF this] assms show False by (simp add: key_store_is_empty_def)
qed

lemma admitted_key:
  assumes "admit sha now fails peer cred st = Some (Some i)"
  obtains t r where "cached now (sha t) st = Some r \<or> cached now (sha t) st = None \<and> fetch_by_hash (ks_rows st) (sha t) = Some r"
    "check_record now r = Some i" "t = (case cred of Some t \<Rightarrow> t | None \<Rightarrow> [])"
  using identity_law [OF assms] that by (auto simp: validate_key_def Let_def split: option.splits)

lemma revoked_refused:
  assumes "fetch_by_hash (ks_rows st) (sha t) = Some r" and "k_revoked_at r \<noteq> None" and "cached now (sha t) st = None"
  shows "admit sha now fails peer (Some t) st \<noteq> Some (Some i)"
proof
  assume "admit sha now fails peer (Some t) st = Some (Some i)"
  from admitted_key [OF this] assms show False by (auto simp: check_record_def)
qed

end

section \<open>Requests\<close>

record http_request =
  rq_remote :: "ip_addr option"
  rq_authorization :: "string option"
  rq_path :: string

record http_env =
  he_sha :: "string \<Rightarrow> string"
  he_now :: nat
  he_instant :: nat
  he_query_fails :: bool
  he_downloads :: "string \<rightharpoonup> nat"
  he_bridges :: "bridge_row list"
  he_tags :: "string \<Rightarrow> string list"
  he_labels :: "string \<Rightarrow> (string \<times> string) list"
  he_router :: router
  he_check :: "string \<Rightarrow> string option \<Rightarrow> policy_oracle"

text \<open>The metadata of the enrolled bridges that are not revoked; \<open>tags\<close> and \<open>labels\<close> read the JSON columns.\<close>

definition get_all_host_meta :: "(string \<Rightarrow> string list) \<Rightarrow> (string \<Rightarrow> (string \<times> string) list) \<Rightarrow> bridge_row list \<Rightarrow> host_meta list" where
  "get_all_host_meta tags labels rows =
     map (\<lambda>r. \<lparr>hm_hostname = br_hostname r, hm_group = br_host_group r, hm_tags = tags (br_tags r), hm_labels = labels (br_labels r)\<rparr>)
       (filter (\<lambda>r. br_revoked_at r = None) rows)"

definition he_metas :: "http_env \<Rightarrow> host_meta list" where
  "he_metas env = get_all_host_meta (he_tags env) (he_labels env) (he_bridges env)"

definition recording_host_resource :: "http_env \<Rightarrow> string \<Rightarrow> host_resource" where
  "recording_host_resource env host =
     (case find (\<lambda>m. hm_hostname m = host) (he_metas env) of
        Some m \<Rightarrow> \<lparr>h_name = host, h_group = nonempty (hm_group m), h_labels = hm_labels m\<rparr>
      | None \<Rightarrow>
          (case he_router env host of
             Some h \<Rightarrow> \<lparr>h_name = host, h_group = nonempty (hc_group h), h_labels = hc_labels h\<rparr>
           | None \<Rightarrow> \<lparr>h_name = host, h_group = None, h_labels = []\<rparr>))"

definition is_download_path :: "string \<Rightarrow> bool" where
  "is_download_path path \<longleftrightarrow> prefix ''/releases/'' path"

text \<open>\<open>HeaderValue::to_str\<close> takes visible ASCII and tabs only.\<close>

definition header_to_str :: "string \<Rightarrow> string option" where
  "header_to_str v = (if list_all (\<lambda>c. (32 \<le> byte_of c \<and> byte_of c < 127) \<or> byte_of c = 9) v then Some v else None)"

definition bearer_token :: "http_request \<Rightarrow> string option" where
  "bearer_token rq = Option.bind (Option.bind (rq_authorization rq) header_to_str)
     (\<lambda>s. if prefix ''Bearer '' s then Some (drop 7 s) else None)"

text \<open>\<open>trim_start_matches\<close> with a text removes every leading copy of it.\<close>

function trim_start_matches :: "string \<Rightarrow> string \<Rightarrow> string" where
  "trim_start_matches p s = (if p \<noteq> [] \<and> prefix p s then trim_start_matches p (drop (length p) s) else s)"
  by pat_completeness auto
termination
  by (relation "measure (\<lambda>(p, s). length s)") (auto simp: prefix_def)

declare trim_start_matches.simps [simp del]

definition recording_host :: "string \<Rightarrow> string" where
  "recording_host path =
     hd (split_on (\<lambda>c. c = CHR ''/'') (trim_start_matches ''/'' (trim_start_matches ''/recordings'' path)))"

datatype admission = Rejected nat | Passed "agent_identity option"

definition authorize_download_path :: "string \<Rightarrow> admission" where
  "authorize_download_path path = (if is_download_path path then Passed None else Rejected 403)"

definition download_token_valid :: "http_env \<Rightarrow> string \<Rightarrow> bool" where
  "download_token_valid env t \<longleftrightarrow> prefix ''dl_'' t
     \<and> (case he_downloads env (he_sha env t) of Some expires \<Rightarrow> he_instant env < expires | None \<Rightarrow> False)"

definition bootstrap_loopback :: "http_env \<Rightarrow> http_request \<Rightarrow> key_store \<Rightarrow> bool" where
  "bootstrap_loopback env rq st \<longleftrightarrow> key_store_is_empty (he_query_fails env) st
     \<and> (case rq_remote rq of Some a \<Rightarrow> is_loopback_socket a | None \<Rightarrow> False)"

definition auth_middleware :: "http_env \<Rightarrow> http_request \<Rightarrow> key_store \<Rightarrow> admission \<times> key_store" where
  "auth_middleware env rq st =
     (if bootstrap_loopback env rq st then (Passed None, st)
      else case bearer_token rq of
        None \<Rightarrow> (Rejected 401, st)
      | Some t \<Rightarrow>
          (case validate_key (he_sha env) (he_now env) t st of
             (Some i, st) \<Rightarrow>
               (if prefix ''/recordings'' (rq_path rq) then
                  (let host = recording_host (rq_path rq)
                   in if host = [] then Rejected 403
                      else if \<not> pd_allowed (he_check env (ai_name i) (ai_group i) RecordingRead (Some (recording_host_resource env host)))
                      then Rejected 403
                      else Passed (Some i))
                else Passed (Some i), st)
           | (None, st) \<Rightarrow>
               (if \<not> prefix ''/mcp'' (rq_path rq) then
                  if download_token_valid env t then authorize_download_path (rq_path rq)
                  else if validate_token (he_sha env) (he_now env) t (he_bridges env) then authorize_download_path (rq_path rq)
                  else Rejected 401
                else Rejected 401, st)))"

section \<open>Tool calls\<close>

text \<open>
  \<open>call_tool\<close> with the identity the middleware attached, at a later moment with its own view of
  the key store; \<open>Inl\<close> is the error for a missing identity, \<open>None\<close> a panic of the command engine.
\<close>

definition call_tool ::
    "http_env \<Rightarrow> gate_env \<Rightarrow> command_policy \<Rightarrow> agent_identity option \<Rightarrow> key_store \<Rightarrow> string \<Rightarrow> json
     \<Rightarrow> string + (gate_outcome \<times> audit_note list) option" where
  "call_tool env genv policy idn st tool_name args =
     (case idn of
        Some i \<Rightarrow>
          Inr (execute_gate genv (he_check env (ai_name i) (ai_group i)) (he_router env) (he_metas env) policy
                 (Some (ai_name i)) (ai_group i) tool_name args)
      | None \<Rightarrow>
          if \<not> key_store_is_empty (he_query_fails env) st then Inl ''missing caller identity''
          else Inr (execute_gate genv (he_check env [] None) (he_router env) (he_metas env) policy None None tool_name args))"


section \<open>The HTTPS entrance is an entrance\<close>

lemma auth_middleware_keyless:
  assumes "auth_middleware env rq st = (Passed None, st')"
  shows "bootstrap_loopback env rq st
    \<or> is_download_path (rq_path rq) \<and> (\<exists>t. bearer_token rq = Some t \<and> fst (validate_key (he_sha env) (he_now env) t st) = None
        \<and> (download_token_valid env t \<or> validate_token (he_sha env) (he_now env) t (he_bridges env)))"
  using assms by (auto simp: auth_middleware_def authorize_download_path_def Let_def split: if_splits option.splits prod.splits)

lemma auth_middleware_identity:
  assumes "auth_middleware env rq st = (Passed (Some i), st')"
  obtains t where "bearer_token rq = Some t" "validate_key (he_sha env) (he_now env) t st = (Some i, st')"
    "prefix ''/recordings'' (rq_path rq) \<Longrightarrow> pd_allowed (he_check env (ai_name i) (ai_group i) RecordingRead
       (Some (recording_host_resource env (recording_host (rq_path rq)))))"
  using assms that by (auto simp: auth_middleware_def authorize_download_path_def Let_def split: if_splits option.splits prod.splits)

lemma mcp_no_download: "\<not> is_download_path (''/mcp'' @ rest)"
  by (simp add: is_download_path_def)

lemma bearer_of_header: "bearer_token \<lparr>rq_remote = a, rq_authorization = map_option (\<lambda>t. ''Bearer '' @ t) c, rq_path = p\<rparr> = Some t \<Longrightarrow> c = Some t"
  by (auto simp: bearer_token_def header_to_str_def Option.bind_eq_Some_conv split: if_splits option.splits)

text \<open>The admission of a tool call that presents a key, or none.\<close>

definition http_admit ::
    "http_env \<Rightarrow> string \<Rightarrow> (string \<Rightarrow> string) \<Rightarrow> nat \<Rightarrow> bool \<Rightarrow> ip_addr option \<Rightarrow> string option \<Rightarrow> key_store \<Rightarrow> agent_identity option option" where
  "http_admit env rest sha now fails peer cred st =
     (case fst (auth_middleware (env\<lparr>he_sha := sha, he_now := now, he_query_fails := fails\<rparr>)
          \<lparr>rq_remote = peer, rq_authorization = map_option (\<lambda>t. ''Bearer '' @ t) cred, rq_path = ''/mcp'' @ rest\<rparr> st) of
        Passed idn \<Rightarrow> Some idn | Rejected _ \<Rightarrow> None)"

interpretation http: entrance "http_admit env rest" for env rest
proof
  fix sha now fails peer cred st
  let ?env = "env\<lparr>he_sha := sha, he_now := now, he_query_fails := fails\<rparr>"
  let ?rq = "\<lparr>rq_remote = peer, rq_authorization = map_option (\<lambda>t. ''Bearer '' @ t) cred, rq_path = ''/mcp'' @ rest\<rparr>"
  obtain a st' where am: "auth_middleware ?env ?rq st = (a, st')" by (cases "auth_middleware ?env ?rq st")
  show "key_store_is_empty fails st \<and> (\<exists>a. peer = Some a \<and> is_loopback_socket a)" if "http_admit env rest sha now fails peer cred st = Some None"
  proof -
    have "a = Passed None" using that am by (simp add: http_admit_def split: admission.splits)
    from auth_middleware_keyless [OF am [unfolded this]] mcp_no_download [of rest] show ?thesis
      by (auto simp: bootstrap_loopback_def split: option.splits)
  qed
  show "fst (validate_key sha now (case cred of Some t \<Rightarrow> t | None \<Rightarrow> []) st) = Some i" if "http_admit env rest sha now fails peer cred st = Some (Some i)" for i
  proof -
    have "a = Passed (Some i)" using that am by (simp add: http_admit_def split: admission.splits)
    from auth_middleware_identity [OF am [unfolded this]] obtain t where
      "bearer_token ?rq = Some t" "validate_key sha now t st = (Some i, st')" by auto
    with bearer_of_header [of peer cred "''/mcp'' @ rest" t] show ?thesis by simp
  qed
qed

section \<open>Tool calls over HTTPS\<close>

lemma dispatch_covered:
  assumes "execute_gate genv chk router metas policy (Some p) cg t args = Some (Dispatched a, ns)" and "capability_for_tool t = Some base"
  shows "\<exists>(mode, c) \<in> set (candidates t base). covers_call chk c (resolve_call_host_resources router metas args)"
proof -
  from assms(1) obtain au where au: "authorize chk router metas (Some p) t args = Inr au" by (rule execute_gate_Dispatched)
  obtain pre c post where "candidates t base = pre @ (au_exec_mode au, c) # post" "covers_call chk c (resolve_call_host_resources router metas args)"
    by (rule authorize_Inr [OF au assms(2)])
  then show ?thesis by force
qed

text \<open>
  C9. A tool call that arrives over HTTPS runs only for somebody who may: when the middleware admits
  a request for the tool endpoint and the call is then dispatched, possibly with a key store that has
  changed in between, either the request carries a key that the store validates, and the policy lets
  the owner of that key use a capability the tool accepts on every host the call names, or the peer
  is on the machine itself and, at both moments, the key table is empty or its query fails.
\<close>

theorem http_dispatch_authorized:
  assumes "auth_middleware env rq st = (Passed idn, st')" and "prefix ''/mcp'' (rq_path rq)"
    and "call_tool env' genv policy idn st2 t args = Inr (Some (Dispatched a, ns))" and "capability_for_tool t = Some base"
  shows "(idn = None \<and> (he_query_fails env \<or> ks_rows st = []) \<and> (he_query_fails env' \<or> ks_rows st2 = [])
       \<and> (\<exists>a. rq_remote rq = Some a \<and> is_loopback_socket a))
    \<or> (\<exists>i token. idn = Some i \<and> bearer_token rq = Some token \<and> fst (validate_key (he_sha env) (he_now env) token st) = Some i
       \<and> (\<exists>(mode, c) \<in> set (candidates t base). covers_call (he_check env' (ai_name i) (ai_group i)) c
             (resolve_call_host_resources (he_router env') (he_metas env') args)))"
proof (cases idn)
  case None
  have "\<not> is_download_path (rq_path rq)" using assms(2) by (auto simp: is_download_path_def prefix_def)
  with auth_middleware_keyless [OF assms(1) [unfolded None]] have "bootstrap_loopback env rq st" by blast
  with None assms(3) show ?thesis by (auto simp: bootstrap_loopback_def call_tool_def key_store_is_empty_def split: option.splits if_splits)
next
  case (Some i)
  with assms(1) obtain token where "bearer_token rq = Some token" "validate_key (he_sha env) (he_now env) token st = (Some i, st')"
    by (auto elim: auth_middleware_identity)
  moreover have "\<exists>(mode, c) \<in> set (candidates t base). covers_call (he_check env' (ai_name i) (ai_group i)) c
      (resolve_call_host_resources (he_router env') (he_metas env') args)"
    by (rule dispatch_covered [OF _ assms(4)]) (use assms(3) Some in \<open>simp add: call_tool_def\<close>)
  ultimately show ?thesis using Some by auto
qed


section \<open>Downloads\<close>

text \<open>
  A resolved path is the list of its components; \<open>wf_canon\<close> resolves a path with its links,
  \<open>wf_read\<close> reads a resolved file.
\<close>

record web_files =
  wf_canon :: "string \<Rightarrow> string list option"
  wf_read :: "string list \<Rightarrow> bytes option"

datatype http_response = HStatus nat | HBody string bytes

text \<open>\<open>Path::parent\<close> drops the last component.\<close>

definition path_parent :: "string \<Rightarrow> string option" where
  "path_parent p = (let q = trim_slashes p
     in if q = [] then None else Some (trim_slashes (rev (dropWhile (\<lambda>c. c \<noteq> CHR ''/'') (rev q)))))"

definition has_dotdot :: "string \<Rightarrow> bool" where
  "has_dotdot path \<longleftrightarrow> ''..'' \<in> set (split_on (\<lambda>c. c = CHR ''/'') path)"

definition content_type :: "string \<Rightarrow> string" where
  "content_type path =
     (if suffix ''.sh'' path then ''text/x-shellscript''
      else if suffix ''.crt'' path \<or> suffix ''.pem'' path then ''application/x-pem-file''
      else ''application/octet-stream'')"

definition serve_static :: "web_files \<Rightarrow> string \<Rightarrow> string \<Rightarrow> http_response" where
  "serve_static fls dir path =
     (if has_dotdot path then HStatus 403
      else
        let requested = path_join dir path
        in case wf_canon fls dir of
          None \<Rightarrow> HStatus 404
        | Some canonical_dir \<Rightarrow>
            (let inside = (\<lambda>p. prefix canonical_dir p);
                 outside = (case Option.bind (path_parent requested) (wf_canon fls) of
                     Some p \<Rightarrow> if inside p \<or> p = canonical_dir then HStatus 404 else HStatus 403
                   | None \<Rightarrow> HStatus 403)
             in case wf_canon fls requested of
               Some p \<Rightarrow>
                 if inside p then
                   (case wf_read fls p of Some data \<Rightarrow> HBody (content_type path) data | None \<Rightarrow> HStatus 404)
                 else outside
             | None \<Rightarrow> outside))"

definition decrypt_or_passthrough :: "rec_crypto \<Rightarrow> (string \<rightharpoonup> bytes) \<Rightarrow> bytes \<Rightarrow> string + bytes" where
  "decrypt_or_passthrough rc keys data = (if is_encrypted data then decrypt_recording rc keys data else Inr data)"

definition serve_recording :: "rec_crypto \<Rightarrow> (string \<rightharpoonup> bytes) \<Rightarrow> web_files \<Rightarrow> string \<Rightarrow> string \<Rightarrow> http_response" where
  "serve_recording rc keys fls dir path =
     (if has_dotdot path then HStatus 403
      else case wf_canon fls dir of
        None \<Rightarrow> HStatus 404
      | Some canonical_dir \<Rightarrow>
          (case wf_canon fls (path_join dir path) of
             None \<Rightarrow> HStatus 404
           | Some p \<Rightarrow>
               if \<not> prefix canonical_dir p then HStatus 404
               else case wf_read fls p of
                 None \<Rightarrow> HStatus 404
               | Some raw \<Rightarrow>
                   (case decrypt_or_passthrough rc keys raw of
                      Inl _ \<Rightarrow> HStatus 500
                    | Inr plain \<Rightarrow> HBody ''application/octet-stream'' plain)))"

record download_site =
  ds_static_dir :: "string option"
  ds_files :: web_files
  ds_crypto :: rec_crypto
  ds_keys :: "string \<rightharpoonup> bytes"
  ds_decode :: "string \<Rightarrow> string option"

text \<open>The routes under a static directory; the framework decodes what follows the fixed part.\<close>

definition download_route :: "download_site \<Rightarrow> string \<Rightarrow> http_response" where
  "download_route site path =
     (case ds_static_dir site of
        None \<Rightarrow> HStatus 404
      | Some dir \<Rightarrow>
          if prefix ''/releases/'' path \<and> path \<noteq> ''/releases/'' then
            (case ds_decode site (drop 10 path) of
               None \<Rightarrow> HStatus 400 | Some p \<Rightarrow> serve_static (ds_files site) (path_join dir ''releases'') p)
          else if prefix ''/recordings/'' path \<and> path \<noteq> ''/recordings/'' then
            (case ds_decode site (drop 12 path) of
               None \<Rightarrow> HStatus 400
             | Some p \<Rightarrow> serve_recording (ds_crypto site) (ds_keys site) (ds_files site) (path_join dir ''recordings'') p)
          else HStatus 404)"

definition http_get :: "http_env \<Rightarrow> download_site \<Rightarrow> http_request \<Rightarrow> key_store \<Rightarrow> http_response \<times> key_store" where
  "http_get env site rq st = (case auth_middleware env rq st of
     (Rejected code, st) \<Rightarrow> (HStatus code, st)
   | (Passed _, st) \<Rightarrow> (download_route site (rq_path rq), st))"

text \<open>Issuing a download token: the token, the seconds it lives, and the map.\<close>

definition issue_download_token :: "http_env \<Rightarrow> nat \<Rightarrow> bytes \<Rightarrow> string \<times> nat \<times> http_env" where
  "issue_download_token env ttl_hours random =
     (let token = ''dl_'' @ hex_encode random; ttl_secs = ttl_hours * 3600
      in (token, ttl_secs, env\<lparr>he_downloads := (he_downloads env)(he_sha env token \<mapsto> he_instant env + ttl_secs * 1000)\<rparr>))"

lemma serve_static_body:
  assumes "serve_static fls dir path = HBody ct data"
  obtains cd p where "wf_canon fls dir = Some cd" "wf_canon fls (path_join dir path) = Some p" "prefix cd p" "wf_read fls p = Some data"
proof (cases "wf_canon fls dir")
  case None
  with assms show thesis by (simp add: serve_static_def Let_def split: if_splits)
next
  case (Some cd)
  let ?out = "case Option.bind (path_parent (path_join dir path)) (wf_canon fls) of
      Some p \<Rightarrow> if prefix cd p \<or> p = cd then HStatus 404 else HStatus 403 | None \<Rightarrow> HStatus 403"
  have out: "?out \<noteq> HBody ct data" by (simp split: option.split)
  from assms Some have "(case wf_canon fls (path_join dir path) of
      Some p \<Rightarrow> if prefix cd p then (case wf_read fls p of Some data \<Rightarrow> HBody (content_type path) data | None \<Rightarrow> HStatus 404) else ?out
    | None \<Rightarrow> ?out) = HBody ct data"
    by (simp add: serve_static_def Let_def split: if_splits)
  with out that [OF Some] show thesis by (simp split: option.splits if_splits)
qed

lemma serve_recording_body:
  assumes "serve_recording rc keys fls dir path = HBody ct data"
  obtains cd p raw where "wf_canon fls dir = Some cd" "wf_canon fls (path_join dir path) = Some p" "prefix cd p" "wf_read fls p = Some raw"
    "decrypt_or_passthrough rc keys raw = Inr data"
  using assms that by (auto simp: serve_recording_def split: if_splits option.splits sum.splits)

text \<open>
  C13. Without a valid key only released files can be fetched: when a request that presents no valid
  key, and does not come from the machine itself while the key table is empty or its query fails, is
  answered with a file, it carries a download token that has not expired or a token of an enrolled bridge, and the bytes are
  those of a file inside the release directory as the operating system resolves it.
\<close>

theorem tokens_read_only_releases:
  assumes "http_get env site rq st = (HBody ct data, st')" and "\<not> ((he_query_fails env \<or> ks_rows st = []) \<and> (\<exists>a. rq_remote rq = Some a \<and> is_loopback_socket a))"
    and "\<forall>t. bearer_token rq = Some t \<longrightarrow> fst (validate_key (he_sha env) (he_now env) t st) = None"
  shows "\<exists>t dir root p. bearer_token rq = Some t
    \<and> (download_token_valid env t \<or> validate_token (he_sha env) (he_now env) t (he_bridges env))
    \<and> ds_static_dir site = Some dir \<and> wf_canon (ds_files site) (path_join dir ''releases'') = Some root
    \<and> prefix root p \<and> wf_read (ds_files site) p = Some data"
proof -
  obtain idn where am: "auth_middleware env rq st = (Passed idn, st')" and route: "download_route site (rq_path rq) = HBody ct data"
    using assms(1) by (auto simp: http_get_def split: prod.splits admission.splits)
  have "idn = None" using am assms(3) by (cases idn) (auto elim: auth_middleware_identity)
  moreover have "\<not> bootstrap_loopback env rq st"
    using assms(2) by (auto simp: bootstrap_loopback_def key_store_is_empty_def split: option.splits)
  ultimately obtain t where t: "is_download_path (rq_path rq)" "bearer_token rq = Some t"
      "download_token_valid env t \<or> validate_token (he_sha env) (he_now env) t (he_bridges env)" using auth_middleware_keyless am by blast
  from t(1) obtain rest where path: "rq_path rq = ''/releases/'' @ rest" by (auto simp: is_download_path_def prefix_def)
  with route obtain dir p where d: "ds_static_dir site = Some dir" "serve_static (ds_files site) (path_join dir ''releases'') p = HBody ct data"
    by (auto simp: download_route_def split: option.splits if_splits)
  from serve_static_body [OF d(2)] t d(1) show ?thesis by metis
qed

text \<open>
  A download token works until it expires: from its issue on, for the number of seconds that is
  reported with it, its bearer may fetch what is released; afterwards, and everywhere else, it opens
  nothing that it did not open before.
\<close>

lemma download_token_lifetime:
  assumes "issue_download_token env ttl_hours random = (tok, ttl_secs, env')" and "he_instant env \<le> later"
    and "bearer_token rq = Some tok" and "fst (validate_key (he_sha env) now tok st) = None"
    and "\<not> key_store_is_empty False st"
    and "\<not> validate_token (he_sha env) now tok (he_bridges env)"
  shows "fst (auth_middleware (env'\<lparr>he_instant := later, he_now := now, he_query_fails := False\<rparr>) rq st) =
    (if prefix ''/mcp'' (rq_path rq) \<or> he_instant env + ttl_secs * 1000 \<le> later then Rejected 401
     else if is_download_path (rq_path rq) then Passed None else Rejected 403)"
proof -
  obtain st' where v: "validate_key (he_sha env) now tok st = (None, st')" using assms(4) by (cases "validate_key (he_sha env) now tok st") simp
  from assms(1) have env': "env' = env\<lparr>he_downloads := (he_downloads env)(he_sha env tok \<mapsto> he_instant env + ttl_secs * 1000)\<rparr>"
    and dl: "prefix ''dl_'' tok" by (auto simp: issue_download_token_def Let_def)
  have nb: "\<not> bootstrap_loopback (env'\<lparr>he_instant := later, he_now := now, he_query_fails := False\<rparr>) rq st"
    using assms(5) by (simp add: bootstrap_loopback_def)
  have "download_token_valid (env'\<lparr>he_instant := later, he_now := now, he_query_fails := False\<rparr>) tok \<longleftrightarrow> later < he_instant env + ttl_secs * 1000"
    using dl by (simp add: download_token_valid_def env')
  with nb v assms(3,6) show ?thesis by (simp add: auth_middleware_def env' authorize_download_path_def)
qed


section \<open>Where the entrance differs from the tool gate\<close>

text \<open>
  When the table of keys cannot be read, a peer on the machine itself is admitted as the
  administrator without a key, whatever keys exist.
\<close>

lemma keyless_when_query_fails:
  "is_loopback_socket a \<Longrightarrow> http_admit env rest sha now True (Some a) cred st = Some None"
  by (simp add: http_admit_def auth_middleware_def bootstrap_loopback_def key_store_is_empty_def)

text \<open>The approval a grant demands is not looked at when a recording is fetched.\<close>

lemma recording_approval_skipped:
  assumes "bearer_token rq = Some t" and "validate_key (he_sha env) (he_now env) t st = (Some i, st')" and "\<not> bootstrap_loopback env rq st"
    and "recording_host (rq_path rq) \<noteq> []"
    and "he_check env (ai_name i) (ai_group i) RecordingRead (Some (recording_host_resource env (recording_host (rq_path rq)))) =
      \<lparr>pd_allowed = True, pd_require_approval = True, pd_capability = cap, pd_matched = ms, pd_reason = why\<rparr>"
  shows "auth_middleware env rq st = (Passed (Some i), st')"
  using assms by (simp add: auth_middleware_def Let_def)

text \<open>
  The host whose rules are checked is read from the path before it is decoded and resolved: with
  a leading dot the rules of a host named dot are asked, and the file of another host is served.
\<close>

lemma trim_start_matches_append: "p \<noteq> [] \<Longrightarrow> trim_start_matches p (p @ s) = trim_start_matches p s"
  by (simp add: trim_start_matches.simps [of p "p @ s"])

lemma trim_start_matches_other: "\<not> prefix p s \<Longrightarrow> trim_start_matches p s = s"
  by (simp add: trim_start_matches.simps [of p s])

lemma recording_host_dot: "recording_host (''/recordings/./'' @ rest) = ''.''"
proof -
  have "trim_start_matches ''/recordings'' (''/recordings'' @ ''/./'' @ rest) = ''/./'' @ rest"
    by (subst trim_start_matches_append) (simp_all add: trim_start_matches_other)
  moreover have "trim_start_matches ''/'' (''/'' @ ''./'' @ rest) = ''./'' @ rest"
    by (subst trim_start_matches_append) (simp_all add: trim_start_matches_other)
  ultimately show ?thesis by (simp add: recording_host_def split: list.split)
qed

text \<open>
  The resource a recording is judged by is that of the tool gate when the enrolled metadata has a
  group and labels, when the host is not enrolled, or when the hosts file does not know it.
\<close>

lemma recording_resource_agrees:
  assumes "case find (\<lambda>m. hm_hostname m = host) (he_metas env) of
      Some m \<Rightarrow> hm_group m \<noteq> [] \<and> hm_labels m \<noteq> [] \<or> he_router env host = None | None \<Rightarrow> True"
  shows "recording_host_resource env host = host_resource_of (he_router env) (he_metas env) host"
  using assms by (auto simp: recording_host_resource_def host_resource_of_def nonempty_def Let_def split: option.splits)

lemma recording_resource_differs:
  assumes "find (\<lambda>m. hm_hostname m = host) (he_metas env) = Some m" and "hm_group m = []"
    and "he_router env host = Some h" and "hc_group h \<noteq> []"
  shows "h_group (recording_host_resource env host) = None
    \<and> h_group (host_resource_of (he_router env) (he_metas env) host) = Some (hc_group h)"
  using assms by (simp add: recording_host_resource_def host_resource_of_def nonempty_def Let_def)

section \<open>Witnesses\<close>

definition key_alice :: key_store where
  "key_alice = \<lparr>ks_rows = [\<lparr>kr_id = ''1'', kr_hash = ''yk_alice'', kr_created_at = 0,
     kr_record = \<lparr>k_name = ''alice'', k_prefix = ''yk_alice'', k_expires_at = None, k_revoked_at = None, k_group = None\<rparr>\<rparr>],
     ks_cache = Map.empty\<rparr>"

definition alice :: agent_identity where
  "alice = \<lparr>ai_name = ''alice'', ai_key_prefix = ''yk_alice'', ai_group = None\<rparr>"

definition http0 :: http_env where
  "http0 = \<lparr>he_sha = (\<lambda>s. s), he_now = 5, he_instant = 5, he_query_fails = False, he_downloads = [''dl_ab'' \<mapsto> 9], he_bridges = [],
     he_tags = (\<lambda>_. []), he_labels = (\<lambda>_. []), he_router = router0, he_check = (\<lambda>_ _. chk0)\<rparr>"

definition mcp_request :: http_request where
  "mcp_request = \<lparr>rq_remote = Some (V4 10 0 0 1), rq_authorization = Some ''Bearer yk_alice'', rq_path = ''/mcp''\<rparr>"

lemma mcp_admitted: "\<exists>st'. auth_middleware http0 mcp_request key_alice = (Passed (Some alice), st')"
proof -
  have "bearer_token mcp_request = Some ''yk_alice''" by code_simp
  then show ?thesis
    by (simp add: auth_middleware_def bootstrap_loopback_def mcp_request_def validate_key_def http0_def key_alice_def cached_def
        fetch_by_hash_def check_record_def alice_def key_store_is_empty_def Let_def)
qed

theorem http_dispatch_authorized_witness:
  "\<exists>(mode, c) \<in> set (candidates ''batch_exec'' CommandExec). covers_call chk0 c (resolve_call_host_resources router0 [] log_args)"
proof -
  obtain st' where am: "auth_middleware http0 mcp_request key_alice = (Passed (Some alice), st')" using mcp_admitted by blast
  have metas: "he_metas http0 = []" by (simp add: he_metas_def get_all_host_meta_def http0_def)
  have call: "call_tool http0 Tool_Gate.env0 Strict (Some alice) key_alice ''batch_exec'' log_args = Inr (Some (Dispatched log_args, []))"
    unfolding call_tool_def metas using log_dispatched by (simp add: alice_def http0_def)
  have "prefix ''/mcp'' (rq_path mcp_request)" by (simp add: mcp_request_def)
  from http_dispatch_authorized [OF am this call batch_exec_capability] metas show ?thesis by (auto simp: http0_def)
qed

definition site0 :: download_site where
  "site0 = \<lparr>ds_static_dir = Some ''/srv'', ds_files = \<lparr>wf_canon = (\<lambda>p. if p = ''/srv/releases'' then Some [''srv'', ''releases'']
       else if p = ''/srv/releases/install.sh'' then Some [''srv'', ''releases'', ''install.sh''] else None),
     wf_read = (\<lambda>p. if p = [''srv'', ''releases'', ''install.sh''] then Some [35, 33] else None)\<rparr>,
     ds_crypto = toy_rc, ds_keys = Map.empty, ds_decode = Some\<rparr>"

definition release_request :: http_request where
  "release_request = \<lparr>rq_remote = Some (V4 10 0 0 1), rq_authorization = Some ''Bearer dl_ab'', rq_path = ''/releases/install.sh''\<rparr>"

theorem tokens_read_only_releases_witness:
  "\<exists>p. prefix [''srv'', ''releases''] p \<and> wf_read (ds_files site0) p = Some [35, 33]"
proof -
  have b: "bearer_token release_request = Some ''dl_ab''" by code_simp
  have v: "validate_key (he_sha http0) (he_now http0) ''dl_ab'' key_alice = (None, key_alice)"
    by (simp add: validate_key_def http0_def key_alice_def cached_def fetch_by_hash_def)
  have nb: "\<not> bootstrap_loopback http0 release_request key_alice" by (simp add: bootstrap_loopback_def key_store_is_empty_def http0_def key_alice_def)
  have "auth_middleware http0 release_request key_alice = (Passed None, key_alice)"
    using b v nb by (simp add: auth_middleware_def authorize_download_path_def download_token_valid_def is_download_path_def)
       (simp add: http0_def release_request_def)
  moreover have "download_route site0 ''/releases/install.sh'' = HBody ''text/x-shellscript'' [35, 33]"
    by (simp add: download_route_def site0_def path_join_def join_path_def serve_static_def has_dotdot_def content_type_def suffix_def)
  ultimately have "http_get http0 site0 release_request key_alice = (HBody ''text/x-shellscript'' [35, 33], key_alice)"
    by (simp add: http_get_def release_request_def)
  moreover have "\<not> ((he_query_fails http0 \<or> ks_rows key_alice = []) \<and> (\<exists>a. rq_remote release_request = Some a \<and> is_loopback_socket a))"
    by (simp add: release_request_def)
  ultimately obtain root p where
    "wf_canon (ds_files site0) (path_join ''/srv'' ''releases'') = Some root" "prefix root p" "wf_read (ds_files site0) p = Some [35, 33]"
    using tokens_read_only_releases [of http0 site0 release_request key_alice] b v by (auto simp: site0_def)
  moreover have "wf_canon (ds_files site0) (path_join ''/srv'' ''releases'') = Some [''srv'', ''releases'']"
    by (simp add: site0_def path_join_def join_path_def suffix_def)
  ultimately show ?thesis by auto
qed

end
