(* ===== verification/Recording_Store.thy ===== *)
theory Recording_Store
  imports Json
begin

text \<open>
  The directory of finished recordings on a bridge (\<open>rmux-bridge/src/cast_recorder.rs\<close>): clean-up by
  age and by size, the list of recordings that are not synced yet, and marking them as synced.

  The recording directory is the list of its entries in directory order; a date directory holds
  regular files. What is left of a directory whose removal fails is a parameter, as are JSON
  parsing and printing.
\<close>

section \<open>The directory\<close>

record rec_dir =
  rd_name :: string
  rd_is_dir :: bool
  rd_files :: "(string \<times> bytes) list"

definition dir_size :: "rec_dir \<Rightarrow> nat" where
  "dir_size d = sum_list (map (\<lambda>(name, content). length content) (rd_files d))"

definition total_recording_size :: "rec_dir list \<Rightarrow> nat" where
  "total_recording_size ds = sum_list (map dir_size (filter rd_is_dir ds))"

text \<open>Ten bytes with dashes at positions 4 and 7.\<close>

definition is_date_name :: "string \<Rightarrow> bool" where
  "is_date_name name \<longleftrightarrow> length name = 10 \<and> name ! 4 = CHR ''-'' \<and> name ! 7 = CHR ''-''"

text \<open>\<open>removal d\<close> is what a failing removal of \<open>d\<close> leaves behind, \<open>None\<close> a removal that succeeds.\<close>

definition remove_dir :: "(rec_dir \<Rightarrow> rec_dir option) \<Rightarrow> rec_dir \<Rightarrow> rec_dir list \<Rightarrow> rec_dir list \<times> bool" where
  "remove_dir removal d ds = (case removal d of
     None \<Rightarrow> (filter (\<lambda>e. rd_name e \<noteq> rd_name d) ds, True)
   | Some d' \<Rightarrow> (map (\<lambda>e. if rd_name e = rd_name d then d' else e) ds, False))"

record cleanup_state =
  cs_dirs :: "rec_dir list"
  cs_deleted :: nat
  cs_freed :: nat

text \<open>The first phase, over the date directories in order of their names; the second list is \<open>remaining\<close>.\<close>

fun cleanup_expired ::
    "(rec_dir \<Rightarrow> rec_dir option) \<Rightarrow> string \<Rightarrow> rec_dir list \<Rightarrow> cleanup_state \<Rightarrow> cleanup_state \<times> rec_dir list" where
  "cleanup_expired removal cutoff [] s = (s, [])"
| "cleanup_expired removal cutoff (d # ds) s =
     (if rd_name d < cutoff then
        let (dirs, ok) = remove_dir removal d (cs_dirs s)
        in if ok then cleanup_expired removal cutoff ds
             \<lparr>cs_dirs = dirs, cs_deleted = cs_deleted s + 1, cs_freed = cs_freed s + dir_size d\<rparr>
           else let (s, rest) = cleanup_expired removal cutoff ds (s\<lparr>cs_dirs := dirs\<rparr>) in (s, d # rest)
      else let (s, rest) = cleanup_expired removal cutoff ds s in (s, d # rest))"

text \<open>The second phase: the size of a directory is read again before it is removed.\<close>

definition size_of_name :: "string \<Rightarrow> rec_dir list \<Rightarrow> nat" where
  "size_of_name n ds = (case find (\<lambda>e. rd_name e = n) ds of Some e \<Rightarrow> dir_size e | None \<Rightarrow> 0)"

fun cleanup_oversize ::
    "(rec_dir \<Rightarrow> rec_dir option) \<Rightarrow> nat \<Rightarrow> nat \<Rightarrow> rec_dir list \<Rightarrow> cleanup_state \<Rightarrow> cleanup_state" where
  "cleanup_oversize removal max_bytes current_size [] s = s"
| "cleanup_oversize removal max_bytes current_size (d # ds) s =
     (if current_size \<le> max_bytes then s
      else
        let size = size_of_name (rd_name d) (cs_dirs s);
            (dirs, ok) = remove_dir removal d (cs_dirs s)
        in if ok then cleanup_oversize removal max_bytes (current_size - size) ds
             \<lparr>cs_dirs = dirs, cs_deleted = cs_deleted s + 1, cs_freed = cs_freed s + size\<rparr>
           else cleanup_oversize removal max_bytes current_size ds (s\<lparr>cs_dirs := dirs\<rparr>))"

definition date_dirs :: "rec_dir list \<Rightarrow> rec_dir list" where
  "date_dirs ds = sort_key rd_name (filter (\<lambda>d. is_date_name (rd_name d) \<and> rd_is_dir d) ds)"

definition cleanup_recordings ::
    "(rec_dir \<Rightarrow> rec_dir option) \<Rightarrow> string \<Rightarrow> nat \<Rightarrow> rec_dir list \<Rightarrow> cleanup_state" where
  "cleanup_recordings removal cutoff max_size_mb ds =
     (let (s, remaining) = cleanup_expired removal cutoff (date_dirs ds) \<lparr>cs_dirs = ds, cs_deleted = 0, cs_freed = 0\<rparr>;
          max_bytes = max_size_mb * 1024 * 1024 mod 2 ^ 64
      in cleanup_oversize removal max_bytes (total_recording_size (cs_dirs s)) remaining s)"

section \<open>What clean-up removes\<close>

definition without :: "rec_dir list \<Rightarrow> rec_dir list \<Rightarrow> rec_dir list" where
  "without gone ds = filter (\<lambda>e. rd_name e \<notin> rd_name ` set gone) ds"

lemma without_Nil [simp]: "without [] ds = ds"
  by (simp add: without_def)

lemma without_Cons: "without (d # gone) ds = without gone (filter (\<lambda>e. rd_name e \<noteq> rd_name d) ds)"
  by (auto simp: without_def intro: filter_cong)

lemma without_append: "without (xs @ ys) ds = without ys (without xs ds)"
  by (auto simp: without_def intro: filter_cong)

lemma total_remove:
  assumes "distinct (map rd_name ds)" and "d \<in> set ds" and "rd_is_dir d"
  shows "total_recording_size (filter (\<lambda>e. rd_name e \<noteq> rd_name d) ds) + dir_size d = total_recording_size ds"
  using assms
proof (induction ds)
  case (Cons x ds)
  show ?case
  proof (cases "x = d")
    case True
    with Cons.prems have "filter (\<lambda>e. rd_name e \<noteq> rd_name d) ds = ds" by (force simp: image_iff intro: filter_True)
    with True Cons.prems show ?thesis by (simp add: total_recording_size_def)
  next
    case False
    with Cons.prems have "rd_name x \<noteq> rd_name d" by auto
    with Cons False show ?thesis by (simp add: total_recording_size_def)
  qed
qed simp

lemma total_without:
  assumes "distinct (map rd_name ds)" and "distinct (map rd_name gone)" and "set gone \<subseteq> set ds" and "list_all rd_is_dir gone"
  shows "total_recording_size (without gone ds) + sum_list (map dir_size gone) = total_recording_size ds"
  using assms
proof (induction gone arbitrary: ds)
  case (Cons d gone)
  let ?ds = "filter (\<lambda>e. rd_name e \<noteq> rd_name d) ds"
  have "total_recording_size (without gone ?ds) + sum_list (map dir_size gone) = total_recording_size ?ds"
    by (rule Cons.IH) (use Cons.prems in \<open>force simp: distinct_map_filter image_iff\<close>)+
  with total_remove [of ds d] Cons.prems show ?case by (simp add: without_Cons)
qed simp

lemma cleanup_expired_ok:
  "cleanup_expired (\<lambda>_. None) cutoff ds s =
     (let gone = filter (\<lambda>d. rd_name d < cutoff) ds
      in (\<lparr>cs_dirs = without gone (cs_dirs s), cs_deleted = cs_deleted s + length gone,
            cs_freed = cs_freed s + sum_list (map dir_size gone)\<rparr>, filter (\<lambda>d. \<not> rd_name d < cutoff) ds))"
  by (induction ds arbitrary: s) (simp_all add: remove_dir_def without_Cons Let_def)

lemma size_of_name_mem: "distinct (map rd_name ds) \<Longrightarrow> d \<in> set ds \<Longrightarrow> size_of_name (rd_name d) ds = dir_size d"
  by (induction ds) (auto simp: size_of_name_def)

text \<open>The second phase removes the shortest prefix that brings the size under the limit.\<close>

lemma cleanup_oversize_ok:
  assumes "distinct (map rd_name ds)" and "distinct (map rd_name (cs_dirs s))" and "set ds \<subseteq> set (cs_dirs s)"
  shows "\<exists>k \<le> length ds. cleanup_oversize (\<lambda>_. None) mx cur ds s =
      \<lparr>cs_dirs = without (take k ds) (cs_dirs s), cs_deleted = cs_deleted s + k,
       cs_freed = cs_freed s + sum_list (map dir_size (take k ds))\<rparr>
    \<and> (k < length ds \<longrightarrow> cur - sum_list (map dir_size (take k ds)) \<le> mx)
    \<and> (0 < k \<longrightarrow> mx < cur - sum_list (map dir_size (take (k - 1) ds)))"
  using assms
proof (induction ds arbitrary: cur s)
  case Nil
  show ?case by simp
next
  case (Cons d ds)
  show ?case
  proof (cases "cur \<le> mx")
    case True
    then show ?thesis by (intro exI [of _ 0]) simp
  next
    case False
    let ?dirs = "filter (\<lambda>e. rd_name e \<noteq> rd_name d) (cs_dirs s)"
    let ?s = "\<lparr>cs_dirs = ?dirs, cs_deleted = cs_deleted s + 1, cs_freed = cs_freed s + dir_size d\<rparr>"
    have "distinct (map rd_name (cs_dirs ?s))" "set ds \<subseteq> set (cs_dirs ?s)" "distinct (map rd_name ds)"
      using Cons.prems by (force simp: distinct_map_filter image_iff)+
    from Cons.IH [OF this(3) this(1,2), of "cur - dir_size d"] obtain k where k: "k \<le> length ds"
      "cleanup_oversize (\<lambda>_. None) mx (cur - dir_size d) ds ?s =
        \<lparr>cs_dirs = without (take k ds) ?dirs, cs_deleted = cs_deleted s + 1 + k,
         cs_freed = cs_freed s + dir_size d + sum_list (map dir_size (take k ds))\<rparr>"
      "k < length ds \<longrightarrow> cur - dir_size d - sum_list (map dir_size (take k ds)) \<le> mx"
      "0 < k \<longrightarrow> mx < cur - dir_size d - sum_list (map dir_size (take (k - 1) ds))"
      by auto
    have sz: "size_of_name (rd_name d) (cs_dirs s) = dir_size d"
      using size_of_name_mem Cons.prems by simp
    show ?thesis
    proof (rule exI [of _ "Suc k"], intro conjI)
      show "cleanup_oversize (\<lambda>_. None) mx cur (d # ds) s =
          \<lparr>cs_dirs = without (take (Suc k) (d # ds)) (cs_dirs s), cs_deleted = cs_deleted s + Suc k,
           cs_freed = cs_freed s + sum_list (map dir_size (take (Suc k) (d # ds)))\<rparr>"
        using False sz k(2) by (simp add: remove_dir_def without_Cons Let_def)
      show "0 < Suc k \<longrightarrow> mx < cur - sum_list (map dir_size (take (Suc k - 1) (d # ds)))"
        using False k(4) by (cases k) simp_all
    qed (use k in simp_all)
  qed
qed

lemma filter_less_sorted:
  "sorted (map f xs) \<Longrightarrow> filter (\<lambda>x. f x < (c :: 'a :: linorder)) xs = take (length (filter (\<lambda>x. f x < c) xs)) xs
     \<and> filter (\<lambda>x. \<not> f x < c) xs = drop (length (filter (\<lambda>x. f x < c) xs)) xs"
proof (induction xs)
  case (Cons x xs)
  show ?case
  proof (cases "f x < c")
    case False
    with Cons.prems have "\<forall>y \<in> set xs. \<not> f y < c" by auto
    with False show ?thesis by (simp add: filter_False)
  qed (use Cons in auto)
qed simp

lemma date_dirs_facts:
  assumes "distinct (map rd_name ds)"
  shows "sorted (map rd_name (date_dirs ds))" and "distinct (map rd_name (date_dirs ds))"
    and "set (date_dirs ds) \<subseteq> set ds" and "list_all rd_is_dir (date_dirs ds)"
  using assms by (auto simp: date_dirs_def distinct_map inj_on_def list_all_iff)

text \<open>
  Clean-up removes what it has to and no more, oldest first: when the removals succeed, what is
  gone is a prefix of the date directories in order, every other entry is kept, the numbers
  reported are right, everything before the cut-off date is gone, the rest is within the limit
  unless no date directory is left, and the last directory removed was expired or the recordings
  were still over the limit with it.
\<close>

theorem cleanup_recordings_exact:
  assumes "distinct (map rd_name ds)"
  shows "\<exists>n \<le> length (date_dirs ds).
    let gone = take n (date_dirs ds); s = cleanup_recordings (\<lambda>_. None) cutoff mb ds; mx = mb * 1024 * 1024 mod 2 ^ 64
    in cs_dirs s = without gone ds \<and> cs_deleted s = n \<and> cs_freed s + total_recording_size (cs_dirs s) = total_recording_size ds
      \<and> (\<forall>d \<in> set (date_dirs ds). rd_name d < cutoff \<longrightarrow> d \<in> set gone)
      \<and> (n < length (date_dirs ds) \<longrightarrow> total_recording_size (cs_dirs s) \<le> mx)
      \<and> (0 < n \<longrightarrow> rd_name (date_dirs ds ! (n - 1)) < cutoff
          \<or> mx < total_recording_size (without (take (n - 1) (date_dirs ds)) ds))"
proof -
  define dates where "dates = date_dirs ds"
  define m where "m = length (filter (\<lambda>d. rd_name d < cutoff) dates)"
  define mx :: nat where "mx = mb * 1024 * 1024 mod 2 ^ 64"
  note facts = date_dirs_facts [OF assms, folded dates_def]
  note split = filter_less_sorted [OF facts(1), of cutoff, folded m_def]
  have le: "m \<le> length dates" by (simp add: m_def)
  define s0 where "s0 = \<lparr>cs_dirs = without (take m dates) ds, cs_deleted = m, cs_freed = sum_list (map dir_size (take m dates))\<rparr>"
  have p1: "cleanup_expired (\<lambda>_. None) cutoff dates \<lparr>cs_dirs = ds, cs_deleted = 0, cs_freed = 0\<rparr> = (s0, drop m dates)"
    using split le by (simp add: cleanup_expired_ok s0_def Let_def)
  have d0: "distinct (map rd_name (cs_dirs s0))" using assms by (simp add: s0_def without_def distinct_map_filter)
  have dd: "distinct (map rd_name (drop m dates))" using facts(2) by (metis distinct_drop drop_map)
  have sub: "set (drop m dates) \<subseteq> set (cs_dirs s0)"
  proof
    fix d assume d: "d \<in> set (drop m dates)"
    have "distinct (map rd_name (take m dates) @ map rd_name (drop m dates))" using facts(2) by (metis append_take_drop_id map_append)
    with d have "rd_name d \<notin> rd_name ` set (take m dates)" by auto
    moreover have "d \<in> set ds" using d facts(3) in_set_dropD by fastforce
    ultimately show "d \<in> set (cs_dirs s0)" by (simp add: s0_def without_def)
  qed
  let ?cur = "total_recording_size (cs_dirs s0)"
  obtain k where k: "k \<le> length dates - m"
    "cleanup_oversize (\<lambda>_. None) mx ?cur (drop m dates) s0 =
       \<lparr>cs_dirs = without (take k (drop m dates)) (cs_dirs s0), cs_deleted = cs_deleted s0 + k,
        cs_freed = cs_freed s0 + sum_list (map dir_size (take k (drop m dates)))\<rparr>"
    "k < length dates - m \<longrightarrow> ?cur - sum_list (map dir_size (take k (drop m dates))) \<le> mx"
    "0 < k \<longrightarrow> mx < ?cur - sum_list (map dir_size (take (k - 1) (drop m dates)))"
    using cleanup_oversize_ok [OF dd d0 sub, of mx ?cur] by auto
  have tot: "total_recording_size (without (take j dates) ds) + sum_list (map dir_size (take j dates)) = total_recording_size ds" for j
    by (rule total_without [OF assms])
      (use facts in \<open>auto simp: list_all_iff take_map [symmetric] distinct_take dest: in_set_takeD\<close>)
  have tk: "take (m + j) dates = take m dates @ take j (drop m dates)" for j by (rule take_add)
  have cur: "?cur - sum_list (map dir_size (take j (drop m dates))) = total_recording_size (without (take (m + j) dates) ds)" for j
    using tot [of m] tot [of "m + j"] by (simp add: s0_def tk)
  have s: "cleanup_recordings (\<lambda>_. None) cutoff mb ds =
      \<lparr>cs_dirs = without (take (m + k) dates) ds, cs_deleted = m + k, cs_freed = sum_list (map dir_size (take (m + k) dates))\<rparr>"
    unfolding cleanup_recordings_def dates_def [symmetric] p1 using k(2) by (simp add: mx_def Let_def s0_def tk without_append)
  have gone: "\<forall>d \<in> set dates. rd_name d < cutoff \<longrightarrow> d \<in> set (take (m + k) dates)"
  proof (intro ballI impI)
    fix d assume "d \<in> set dates" "rd_name d < cutoff"
    then have "d \<in> set (filter (\<lambda>d. rd_name d < cutoff) dates)" by simp
    then show "d \<in> set (take (m + k) dates)" using split unfolding tk by simp
  qed
  have last_one: "rd_name (dates ! (m + k - 1)) < cutoff \<or> mx < total_recording_size (without (take (m + k - 1) dates) ds)" if "0 < m + k"
  proof (cases "k = 0")
    case True
    with that le have "dates ! (m - 1) \<in> set (take m dates)" by (auto simp: in_set_conv_nth intro!: exI [of _ "m - 1"])
    then have "dates ! (m - 1) \<in> set (filter (\<lambda>d. rd_name d < cutoff) dates)" using split by simp
    with True show ?thesis by simp
  next
    case False
    with k(4) cur [of "k - 1"] show ?thesis by simp
  qed
  show ?thesis
    unfolding dates_def [symmetric] Let_def s mx_def [symmetric]
    by (rule exI [of _ "m + k"]) (use k le tot [of "m + k"] cur [of k] gone last_one in auto)
qed

section \<open>Recordings that are not synced\<close>

definition ends_with :: "string \<Rightarrow> string \<Rightarrow> bool" where
  "ends_with s x \<longleftrightarrow> suffix x s"

text \<open>\<open>trim_end_matches(".meta")\<close> removes the suffix as often as it is there.\<close>

function trim_meta :: "string \<Rightarrow> string" where
  "trim_meta s = (if suffix ''.meta'' s then trim_meta (take (length s - 5) s) else s)"
  by pat_completeness auto
termination
  by (relation "measure length") (auto simp: suffix_def)

declare trim_meta.simps [simp del]

record unsynced =
  us_file :: string
  us_date :: string
  us_size :: nat
  us_sha256 :: string

text \<open>
  One file of a date directory. Reading a file as text fails off UTF-8 and parsing may fail; both
  are in the parameter. The path reported is the one of the file in its date directory.
\<close>

definition unsynced_entry :: "(bytes \<Rightarrow> json option) \<Rightarrow> rec_dir \<Rightarrow> string \<times> bytes \<Rightarrow> unsynced list" where
  "unsynced_entry parse d f = (case f of (meta_name, content) \<Rightarrow>
     if \<not> ends_with meta_name ''.meta'' then []
     else case parse content of
       None \<Rightarrow> []
     | Some meta \<Rightarrow>
         if Option.bind (jget meta ''synced'') jas_bool = Some False then
           let cast_name = trim_meta meta_name @ ''.cast'';
               size_bytes = (case map_of (rd_files d) cast_name of
                  Some c \<Rightarrow> length c
                | None \<Rightarrow> (case Option.bind (jget meta ''size_bytes'') jas_u64 of Some n \<Rightarrow> n | None \<Rightarrow> 0))
           in [\<lparr>us_file = cast_name, us_date = rd_name d, us_size = size_bytes,
                us_sha256 = (case jget_str meta ''sha256'' of Some h \<Rightarrow> h | None \<Rightarrow> [])\<rparr>]
         else [])"

definition list_unsynced :: "(bytes \<Rightarrow> json option) \<Rightarrow> rec_dir list \<Rightarrow> unsynced list" where
  "list_unsynced parse ds =
     concat (map (\<lambda>d. if \<not> is_date_name (rd_name d) \<or> \<not> rd_is_dir d then []
                     else concat (map (unsynced_entry parse d) (rd_files d))) ds)"

text \<open>
  \<open>with_extension\<close>: the part from the last dot on is replaced, unless the only dot is the first
  character.
\<close>

definition with_extension_meta :: "string \<Rightarrow> string" where
  "with_extension_meta s =
     (let back = takeWhile (\<lambda>c. c \<noteq> CHR ''.'') (rev s); n = length s - length back - 1
      in if CHR ''.'' \<in> set s \<and> n \<noteq> 0 then take n s @ ''.meta'' else s @ ''.meta'')"

text \<open>\<open>meta["synced"] = v\<close>: a missing key is inserted, \<open>null\<close> becomes an object, other values panic.\<close>

fun jput :: "string \<Rightarrow> json \<Rightarrow> json \<Rightarrow> json option" where
  "jput k v (JObj kvs) = Some (if map_of kvs k = None then JObj (insort_key fst (k, v) kvs) else jset k v (JObj kvs))"
| "jput k v JNull = Some (JObj [(k, v)])"
| "jput k v _ = None"

definition unsafe_name :: "string \<Rightarrow> bool" where
  "unsafe_name s \<longleftrightarrow> CHR ''/'' \<in> set s \<or> CHR 0x5C \<in> set s \<or> contains_str s ''..''"

definition write_in :: "string \<Rightarrow> string \<Rightarrow> bytes \<Rightarrow> rec_dir list \<Rightarrow> rec_dir list" where
  "write_in date name content ds =
     map (\<lambda>d. if rd_name d = date
               then d\<lparr>rd_files := map (\<lambda>(n, c). if n = name then (n, content) else (n, c)) (rd_files d)\<rparr> else d) ds"

definition file_in :: "string \<Rightarrow> string \<Rightarrow> rec_dir list \<Rightarrow> bytes option" where
  "file_in date name ds = (case find (\<lambda>d. rd_name d = date \<and> rd_is_dir d) ds of
     None \<Rightarrow> None
   | Some d \<Rightarrow> map_of (rd_files d) name)"

text \<open>
  \<open>None\<close> is the panic. A date or a file name that is empty or a single dot addresses a file
  outside the date directories; such a file is not part of the model and is not found.
\<close>

definition mark_synced ::
    "(bytes \<Rightarrow> json option) \<Rightarrow> (json \<Rightarrow> bytes) \<Rightarrow> string \<Rightarrow> string \<Rightarrow> rec_dir list \<Rightarrow> (string + rec_dir list) option" where
  "mark_synced parse print file_name date ds =
     (if unsafe_name file_name then Some (Inl ''unsafe file_name in mark_synced'')
      else if unsafe_name date then Some (Inl ''unsafe date in mark_synced'')
      else if file_name = [] \<or> file_name = ''.'' \<or> date = [] \<or> date = ''.'' then Some (Inl ''not found'')
      else case file_in date (with_extension_meta file_name) ds of
        None \<Rightarrow> Some (Inl ''not found'')
      | Some content \<Rightarrow>
          (case parse content of
             None \<Rightarrow> Some (Inl ''invalid meta'')
           | Some meta \<Rightarrow>
               (case jput ''synced'' (JBool True) meta of
                  None \<Rightarrow> None
                | Some meta' \<Rightarrow> Some (Inr (write_in date (with_extension_meta file_name) (print meta') ds)))))"

section \<open>Marking\<close>

lemma with_extension_cast:
  assumes "s \<noteq> []"
  shows "with_extension_meta (s @ ''.cast'') = s @ ''.meta''"
proof -
  have "takeWhile (\<lambda>c. c \<noteq> CHR ''.'') (rev (s @ ''.cast'')) = rev ''cast''" by simp
  with assms show ?thesis by (simp add: with_extension_meta_def Let_def)
qed

lemma trim_meta_suffix: "\<not> suffix ''.meta'' s \<Longrightarrow> trim_meta (s @ ''.meta'') = s"
  by (simp add: trim_meta.simps [of "s @ ''.meta''"] trim_meta.simps [of s] suffix_def)

text \<open>Well-formed: entries with distinct names, files with distinct names, no file name with a doubled extension.\<close>

definition store_ok :: "rec_dir list \<Rightarrow> bool" where
  "store_ok ds \<longleftrightarrow> distinct (map rd_name ds) \<and>
     (\<forall>d \<in> set ds. distinct (map fst (rd_files d)) \<and> (\<forall>(n, c) \<in> set (rd_files d). \<not> suffix ''.meta.meta'' n \<and> n \<noteq> ''.meta''))"

lemma store_ok_names:
  "store_ok ds \<longleftrightarrow> distinct (map rd_name ds)
     \<and> (\<forall>ns \<in> set (map (\<lambda>d. map fst (rd_files d)) ds). distinct ns \<and> (\<forall>n \<in> set ns. \<not> suffix ''.meta.meta'' n \<and> n \<noteq> ''.meta''))"
  by (fastforce simp: store_ok_def)

lemma write_in_names:
  "map rd_name (write_in date name content ds) = map rd_name ds"
  "map (\<lambda>d. map fst (rd_files d)) (write_in date name content ds) = map (\<lambda>d. map fst (rd_files d)) ds"
proof -
  show "map rd_name (write_in date name content ds) = map rd_name ds" by (induction ds) (simp_all add: write_in_def)
  show "map (\<lambda>d. map fst (rd_files d)) (write_in date name content ds) = map (\<lambda>d. map fst (rd_files d)) ds"
    unfolding write_in_def map_map by (rule map_cong [OF refl]) (auto simp: o_def split: if_splits)
qed

lemma store_ok_write_in: "store_ok (write_in date name content ds) \<longleftrightarrow> store_ok ds"
  unfolding store_ok_names write_in_names ..

lemma mark_synced_writes:
  "mark_synced parse print f date ds = Some (Inr ds') \<Longrightarrow> \<exists>name content. ds' = write_in date name content ds"
  by (auto simp: mark_synced_def split: if_splits option.splits)

lemma jget_jput: "jput k v j = Some j' \<Longrightarrow> jget j k \<noteq> None \<Longrightarrow> jget j' k = Some v"
  by (cases j) (auto simp: map_of_set_present split: if_splits)

lemma unsynced_entry_name:
  assumes "store_ok ds" and "d \<in> set ds" and "(n, c) \<in> set (rd_files d)" and "v \<in> set (unsynced_entry parse d (n, c))"
  obtains s where "n = s @ ''.meta''" and "s \<noteq> []" and "us_file v = s @ ''.cast''" and "us_date v = rd_name d"
proof -
  from assms(4) have "suffix ''.meta'' n" and v: "us_file v = trim_meta n @ ''.cast''" "us_date v = rd_name d"
    by (auto simp: unsynced_entry_def ends_with_def Let_def split: option.splits if_splits)
  then obtain s where s: "n = s @ ''.meta''" by (auto simp: suffix_def)
  have nn: "\<not> suffix ''.meta.meta'' n \<and> n \<noteq> ''.meta''" using assms(1-3) unfolding store_ok_def by fastforce
  have "\<not> suffix ''.meta'' s"
  proof
    assume "suffix ''.meta'' s"
    then obtain t where "s = t @ ''.meta''" by (auto simp: suffix_def)
    then have "n = t @ ''.meta.meta''" by (simp add: s)
    with nn show False by (auto simp: suffix_def)
  qed
  with v s have "us_file v = s @ ''.cast''" by (simp add: trim_meta_suffix)
  with that [OF s _ this v(2)] nn s show thesis by auto
qed

definition same_recording :: "unsynced \<Rightarrow> unsynced \<Rightarrow> bool" where
  "same_recording u v \<longleftrightarrow> us_file v = us_file u \<and> us_date v = us_date u"

lemma map_of_write:
  "map_of (map (\<lambda>(n, c). if n = name then (n, content) else (n, c)) fs) k =
     (if k = name then map_option (\<lambda>_. content) (map_of fs k) else map_of fs k)"
  by (induction fs) auto

lemma file_in_write_other:
  assumes "date \<noteq> date' \<or> name \<noteq> name'"
  shows "file_in date name (write_in date' name' content ds) = file_in date name ds"
proof -
  let ?w = "\<lambda>d. if rd_name d = date' then d\<lparr>rd_files := map (\<lambda>(n, c). if n = name' then (n, content) else (n, c)) (rd_files d)\<rparr> else d"
  have "find (\<lambda>e. rd_name e = date \<and> rd_is_dir e) (map ?w ds) = map_option ?w (find (\<lambda>e. rd_name e = date \<and> rd_is_dir e) ds)"
    by (induction ds) auto
  moreover have "map_of (rd_files (?w e)) name = map_of (rd_files e) name"
    if "find (\<lambda>e. rd_name e = date \<and> rd_is_dir e) ds = Some e" for e
  proof -
    have "rd_name e = date" using that by (auto simp: find_Some_iff)
    with assms show ?thesis by (cases "date = date'") (simp_all add: map_of_write)
  qed
  ultimately show ?thesis unfolding file_in_def write_in_def
    by (cases "find (\<lambda>e. rd_name e = date \<and> rd_is_dir e) ds") simp_all
qed

lemma unsynced_entry_frame:
  assumes "rd_name d' = rd_name d" and "\<And>s. map_of (rd_files d') (s @ ''.cast'') = map_of (rd_files d) (s @ ''.cast'')"
  shows "unsynced_entry parse d' f = unsynced_entry parse d f"
  unfolding unsynced_entry_def Let_def assms ..

lemma marked_dir:
  assumes "store_ok ds" and "d \<in> set ds" and "map_of (rd_files d) (s @ ''.meta'') = Some content"
    and "parse (print meta') = Some meta'" and "jget meta' ''synced'' = Some (JBool True)"
  shows "(let d' = d\<lparr>rd_files := map (\<lambda>(n, c). if n = s @ ''.meta'' then (n, print meta') else (n, c)) (rd_files d)\<rparr>
          in concat (map (unsynced_entry parse d') (rd_files d'))) =
    filter (\<lambda>v. \<not> (us_file v = s @ ''.cast'' \<and> us_date v = rd_name d)) (concat (map (unsynced_entry parse d) (rd_files d)))"
proof -
  let ?g = "\<lambda>(n, c). if n = s @ ''.meta'' then (n, print meta') else (n, c)"
  define d' where "d' = d\<lparr>rd_files := map ?g (rd_files d)\<rparr>"
  have fr: "unsynced_entry parse d' f = unsynced_entry parse d f" for f
    by (rule unsynced_entry_frame) (simp_all add: d'_def map_of_write)
  have marked: "unsynced_entry parse d (s @ ''.meta'', print meta') = []"
    using assms(4,5) by (simp add: unsynced_entry_def)
  have "unsynced_entry parse d (?g (n, c)) =
      filter (\<lambda>v. \<not> (us_file v = s @ ''.cast'' \<and> us_date v = rd_name d)) (unsynced_entry parse d (n, c))"
    if "(n, c) \<in> set (rd_files d)" for n c
  proof (cases "n = s @ ''.meta''")
    case True
    have "us_file v = s @ ''.cast'' \<and> us_date v = rd_name d" if v: "v \<in> set (unsynced_entry parse d (n, c))" for v
      by (rule unsynced_entry_name [OF assms(1,2) \<open>(n, c) \<in> _\<close> v]) (use True in simp)
    with True marked show ?thesis by (auto simp: filter_empty_conv)
  next
    case False
    have "us_file v \<noteq> s @ ''.cast''" if v: "v \<in> set (unsynced_entry parse d (n, c))" for v
      by (rule unsynced_entry_name [OF assms(1,2) \<open>(n, c) \<in> _\<close> v]) (use False in auto)
    with False show ?thesis by (auto intro!: filter_True [symmetric])
  qed
  then have "map (unsynced_entry parse d') (rd_files d') =
      map (filter (\<lambda>v. \<not> (us_file v = s @ ''.cast'' \<and> us_date v = rd_name d)) \<circ> unsynced_entry parse d) (rd_files d)"
    unfolding fr [abs_def] by (auto simp: d'_def)
  then show ?thesis unfolding Let_def d'_def [symmetric] by (simp add: filter_concat)
qed

text \<open>
  Marking a listed recording as synced takes exactly this one off the list: when its name is
  one that may be addressed and the metadata are read back as printed, it succeeds, every other
  recording is listed as before and no other file changes.
\<close>

theorem mark_synced_unlists:
  assumes "store_ok ds" and "u \<in> set (list_unsynced parse ds)" and "\<not> unsafe_name (us_file u)" and "\<not> unsafe_name (us_date u)"
    and "\<forall>c meta meta'. parse c = Some meta \<longrightarrow> jput ''synced'' (JBool True) meta = Some meta' \<longrightarrow> parse (print meta') = Some meta'"
  shows "\<exists>ds'. mark_synced parse print (us_file u) (us_date u) ds = Some (Inr ds')
    \<and> list_unsynced parse ds' = filter (\<lambda>v. \<not> same_recording u v) (list_unsynced parse ds)
    \<and> store_ok ds'
    \<and> (\<forall>date name. file_in date name ds' \<noteq> file_in date name ds
         \<longrightarrow> date = us_date u \<and> name = with_extension_meta (us_file u))"
proof -
  from assms(2) obtain d n c where d: "d \<in> set ds" "is_date_name (rd_name d)" "rd_is_dir d" "(n, c) \<in> set (rd_files d)"
    "u \<in> set (unsynced_entry parse d (n, c))"
    by (auto simp: list_unsynced_def split: if_splits)
  obtain s where s: "n = s @ ''.meta''" "s \<noteq> []" "us_file u = s @ ''.cast''" "us_date u = rd_name d"
    by (rule unsynced_entry_name [OF assms(1) d(1,4,5)])
  have dist: "distinct (map rd_name ds)" "distinct (map fst (rd_files d))" using assms(1) d(1) by (auto simp: store_ok_def)
  have mo: "map_of (rd_files d) (s @ ''.meta'') = Some c" using dist(2) d(4) s(1) by simp
  have fd: "find (\<lambda>e. rd_name e = rd_name d \<and> rd_is_dir e) ds = Some d"
    using dist(1) d(1,3) by (induction ds) force+
  obtain meta where meta: "parse c = Some meta" "Option.bind (jget meta ''synced'') jas_bool = Some False"
    using d(5) by (auto simp: unsynced_entry_def split: option.splits if_splits)
  then have some: "jget meta ''synced'' \<noteq> None" by (cases "jget meta ''synced''") auto
  then obtain meta' where m': "jput ''synced'' (JBool True) meta = Some meta'" by (cases meta) auto
  let ?g = "\<lambda>(n, c). if n = s @ ''.meta'' then (n, print meta') else (n, c)"
  define ds' where "ds' = write_in (rd_name d) (s @ ''.meta'') (print meta') ds"
  have mk: "mark_synced parse print (us_file u) (us_date u) ds = Some (Inr ds')"
  proof -
    have "rd_name d \<noteq> []" "rd_name d \<noteq> ''.''" using d(2) by (auto simp: is_date_name_def)
    then show ?thesis
      using assms(3,4) s mo fd meta(1) m' by (simp add: mark_synced_def with_extension_cast file_in_def ds'_def)
  qed
  let ?L = "\<lambda>d. if \<not> is_date_name (rd_name d) \<or> \<not> rd_is_dir d then [] else concat (map (unsynced_entry parse d) (rd_files d))"
  let ?w = "\<lambda>e. if rd_name e = rd_name d then e\<lparr>rd_files := map ?g (rd_files e)\<rparr> else e"
  have L: "?L (?w e) = filter (\<lambda>v. \<not> same_recording u v) (?L e)" if e: "e \<in> set ds" for e
  proof (cases "rd_name e = rd_name d")
    case True
    then have "e = d" using dist(1) d(1) e by (metis distinct_map inj_onD)
    then show ?thesis
      using marked_dir [OF assms(1) d(1) mo, of parse print meta'] assms(5) meta(1) m' jget_jput [OF m' some] s(3,4) d(2,3)
      by (simp add: Let_def same_recording_def)
  next
    case False
    have "us_date v = rd_name e" if "(n', c') \<in> set (rd_files e)" "v \<in> set (unsynced_entry parse e (n', c'))" for n' c' v
      by (rule unsynced_entry_name [OF assms(1) e that])
    then have "\<forall>v \<in> set (?L e). \<not> same_recording u v" using False s(4) by (auto simp: same_recording_def)
    then have "filter (\<lambda>v. \<not> same_recording u v) (?L e) = ?L e" by (simp add: filter_True del: set_concat)
    with False show ?thesis by simp
  qed
  have "list_unsynced parse ds' = concat (map (?L \<circ> ?w) ds)"
    by (simp add: list_unsynced_def ds'_def write_in_def o_def)
  also have "\<dots> = concat (map (filter (\<lambda>v. \<not> same_recording u v) \<circ> ?L) ds)" using L by (simp cong: map_cong)
  also have "\<dots> = filter (\<lambda>v. \<not> same_recording u v) (list_unsynced parse ds)" by (simp add: list_unsynced_def filter_concat)
  finally have lst: "list_unsynced parse ds' = filter (\<lambda>v. \<not> same_recording u v) (list_unsynced parse ds)" .
  have "file_in date name ds' = file_in date name ds" if "\<not> (date = rd_name d \<and> name = s @ ''.meta'')" for date name
    unfolding ds'_def by (rule file_in_write_other) (use that in auto)
  moreover have "store_ok ds'" using assms(1) by (simp add: ds'_def store_ok_write_in)
  ultimately show ?thesis using mk lst s(2-4) by (intro exI [of _ ds']) (simp add: with_extension_cast, blast)
qed

end
