(* ===== verification/Recording_Sync.thy ===== *)
theory Recording_Sync
  imports Recording_Store File_Download
begin

text \<open>
  Bringing recordings from the bridges to the server (\<open>clum-mcp/src/recording_sync.rs\<close>): the list of
  recordings that are not synced yet, their download, the digest check, the local copy and the
  mark on the bridge, with the commands the bridge answers itself (\<open>rmux-bridge/src/proxy.rs\<close>).

  The server relies on a bridge through three operations, the locale \<open>recording_bridge\<close>; its
  interpretation is the bridge of this development, with \<open>Recording_Store\<close> for the commands and
  \<open>File_Download\<close> for the files. JSON texts, SHA-256, the file a local path denotes and the local writes that
  fail are parameters; frames carry JSON values as \<open>Wire_Protocol\<close> shows.
\<close>

section \<open>The server\<close>

definition MAX_RECORDING_SIZE :: nat where "MAX_RECORDING_SIZE = 256 * 1024 * 1024"

text \<open>The operations of a bridge, on a state of its own.\<close>

record 'b bridge_ops =
  bo_list :: "'b \<Rightarrow> wire_error + json"
  bo_fetch :: "'b \<Rightarrow> string \<Rightarrow> wire_error + bytes"
  bo_mark :: "'b \<Rightarrow> string \<Rightarrow> string \<Rightarrow> 'b \<times> (wire_error + json)"

definition download_recording :: "(bytes \<Rightarrow> bytes) \<Rightarrow> string \<Rightarrow> wire_error + bytes" where
  "download_recording serve remote_path = (case read_exact 1 (serve (path_request 0x03 remote_path)) of
     Inl e \<Rightarrow> Inl e
   | Inr (status, s) \<Rightarrow>
       if status = [0x00] then
         (case read_exact 8 s of
            Inl e \<Rightarrow> Inl e
          | Inr (size_buf, s) \<Rightarrow>
              if MAX_RECORDING_SIZE < from_le size_buf then Inl (WErr ''recording too large'')
              else map_sum id fst (read_exact (from_le size_buf) s))
       else if status = [0x02] then read_envelope ''download failed: '' s
       else Inl (WErr ''download failed: unexpected status''))"

definition mark_synced_on_bridge :: "'b bridge_ops \<Rightarrow> 'b \<Rightarrow> string \<Rightarrow> string \<Rightarrow> 'b \<times> (wire_error + unit)" where
  "mark_synced_on_bridge ops b file_name date = (case bo_mark ops b file_name date of
     (b, Inl e) \<Rightarrow> (b, Inl e)
   | (b, Inr resp) \<Rightarrow>
       (b, if Option.bind (jget resp ''ok'') jas_bool = Some False
           then Inl (WErr (''mark_synced failed: '' @ (case jget_str resp ''error'' of Some e \<Rightarrow> e | None \<Rightarrow> ''unknown error'')))
           else Inr ()))"

definition str_or_empty :: "json \<Rightarrow> string \<Rightarrow> string" where
  "str_or_empty v k = (case jget_str v k of Some s \<Rightarrow> s | None \<Rightarrow> [])"

definition remote_path_of :: "json \<Rightarrow> string" where
  "remote_path_of fi = (if str_or_empty fi ''path'' \<noteq> [] then str_or_empty fi ''path''
     else ''recordings/'' @ str_or_empty fi ''date'' @ ''/'' @ str_or_empty fi ''file'')"

text \<open>
  The local disk: where the recordings lie, which file a path denotes, and what becomes of a write, \<open>None\<close> when it
  succeeds, \<open>Some None\<close> when it fails and leaves the disk as it is, \<open>Some (Some part)\<close> when it fails and the file
  holds \<open>part\<close>. The store is the content of the files, not of the paths: two paths may denote one file.
\<close>

record local_disk =
  ld_root :: string
  ld_file :: "string \<Rightarrow> string"
  ld_write :: "string \<Rightarrow> bytes \<Rightarrow> bytes option option"

type_synonym local_store = "(string \<times> bytes) list"

definition local_path :: "local_disk \<Rightarrow> string \<Rightarrow> string \<Rightarrow> string \<Rightarrow> string" where
  "local_path disk host date file_name = path_join (path_join (path_join (ld_root disk) host) date) file_name"

definition store_file :: "local_disk \<Rightarrow> string \<Rightarrow> bytes \<Rightarrow> local_store \<Rightarrow> local_store \<times> bool" where
  "store_file disk path data loc = (case ld_write disk path data of
     None \<Rightarrow> (AList.update (ld_file disk path) data loc, True)
   | Some None \<Rightarrow> (loc, False)
   | Some (Some part) \<Rightarrow> (AList.update (ld_file disk path) part loc, False))"

text \<open>The loop over the listed files; the number counts the recordings that were synced.\<close>

fun sync_files ::
    "'b bridge_ops \<Rightarrow> (bytes \<Rightarrow> string) \<Rightarrow> local_disk \<Rightarrow> string \<Rightarrow> json list
     \<Rightarrow> 'b \<Rightarrow> local_store \<Rightarrow> nat \<Rightarrow> 'b \<times> local_store \<times> (wire_error + nat)" where
  "sync_files ops digest disk host [] b loc synced = (b, loc, Inr synced)"
| "sync_files ops digest disk host (fi # fis) b loc synced =
     (let file_name = str_or_empty fi ''file''; date = str_or_empty fi ''date''; expected_sha = str_or_empty fi ''sha256''
      in if file_name = [] \<or> date = [] then sync_files ops digest disk host fis b loc synced
         else if \<not> is_date_name date \<or> CHR ''/'' \<in> set file_name \<or> contains_str file_name ''..''
         then sync_files ops digest disk host fis b loc synced
         else case bo_fetch ops b (remote_path_of fi) of
           Inl _ \<Rightarrow> sync_files ops digest disk host fis b loc synced
         | Inr data \<Rightarrow>
             if expected_sha \<noteq> [] \<and> digest data \<noteq> expected_sha then sync_files ops digest disk host fis b loc synced
             else case store_file disk (local_path disk host date file_name) data loc of
               (loc, False) \<Rightarrow> (b, loc, Inl (WErr ''write failed''))
             | (loc, True) \<Rightarrow>
                 (case mark_synced_on_bridge ops b file_name date of
                    (b, Inl e) \<Rightarrow> (b, loc, Inl e)
                  | (b, Inr _) \<Rightarrow> sync_files ops digest disk host fis b loc (synced + 1)))"

definition sync_host ::
    "'b bridge_ops \<Rightarrow> (bytes \<Rightarrow> string) \<Rightarrow> local_disk \<Rightarrow> string \<Rightarrow> 'b \<Rightarrow> local_store
     \<Rightarrow> 'b \<times> local_store \<times> (wire_error + nat)" where
  "sync_host ops digest disk host b loc = (case bo_list ops b of
     Inl e \<Rightarrow> (b, loc, Inl e)
   | Inr resp \<Rightarrow>
       (case jget_str resp ''error'' of
          Some err \<Rightarrow> (b, loc, Inl (WErr (''bridge returned error: '' @ err)))
        | None \<Rightarrow>
            sync_files ops digest disk host
              (case Option.bind (jget resp ''files'') jas_array of Some fs \<Rightarrow> fs | None \<Rightarrow> []) b loc 0))"

section \<open>What holds of every bridge\<close>

text \<open>A bridge that keeps a record of the marks it receives.\<close>

definition traced :: "'b bridge_ops \<Rightarrow> ('b \<times> (string \<times> string) list) bridge_ops" where
  "traced ops = \<lparr>bo_list = (\<lambda>(b, _). bo_list ops b), bo_fetch = (\<lambda>(b, _). bo_fetch ops b),
     bo_mark = (\<lambda>(b, ms) f d. case bo_mark ops b f d of (b', r) \<Rightarrow> ((b', ms @ [(f, d)]), r))\<rparr>"

definition listed_name :: "json list \<Rightarrow> string \<Rightarrow> string \<Rightarrow> json \<Rightarrow> bool" where
  "listed_name fis date file_name fi \<longleftrightarrow>
     fi \<in> set fis \<and> str_or_empty fi ''file'' = file_name \<and> str_or_empty fi ''date'' = date
     \<and> is_date_name date \<and> file_name \<noteq> [] \<and> CHR ''/'' \<notin> set file_name \<and> \<not> contains_str file_name ''..''"

definition file_key :: "local_disk \<Rightarrow> string \<Rightarrow> string \<Rightarrow> string \<Rightarrow> string" where
  "file_key disk host date file_name = ld_file disk (local_path disk host date file_name)"

text \<open>
  A file that holds a verified copy: it is the file of a listed recording, and its content has the listed
  digest, when the listing gives one. A file that a failing write left behind.
\<close>

definition holds_copy :: "local_disk \<Rightarrow> (bytes \<Rightarrow> string) \<Rightarrow> string \<Rightarrow> json list \<Rightarrow> local_store \<Rightarrow> string \<Rightarrow> bool" where
  "holds_copy disk digest host fis loc k \<longleftrightarrow>
     (\<exists>d f fi c. k = file_key disk host d f \<and> listed_name fis d f fi \<and> map_of loc k = Some c
        \<and> (str_or_empty fi ''sha256'' = [] \<or> digest c = str_or_empty fi ''sha256''))"

definition cut_short :: "local_disk \<Rightarrow> string \<Rightarrow> json list \<Rightarrow> local_store \<Rightarrow> string \<Rightarrow> bool" where
  "cut_short disk host fis loc k \<longleftrightarrow>
     (\<exists>d f fi data part. k = file_key disk host d f \<and> listed_name fis d f fi
        \<and> ld_write disk (local_path disk host d f) data = Some (Some part) \<and> map_of loc k = Some part)"

text \<open>The files a loop changed, and the marks it sent; \<open>failed\<close> tells that it ended with an error.\<close>

definition settled :: "local_disk \<Rightarrow> (bytes \<Rightarrow> string) \<Rightarrow> string \<Rightarrow> json list \<Rightarrow> bool \<Rightarrow> local_store \<Rightarrow> string \<Rightarrow> bool" where
  "settled disk digest host fis failed loc k \<longleftrightarrow> holds_copy disk digest host fis loc k \<or> failed \<and> cut_short disk host fis loc k"

definition sync_sound ::
    "local_disk \<Rightarrow> (bytes \<Rightarrow> string) \<Rightarrow> string \<Rightarrow> json list \<Rightarrow> bool \<Rightarrow> local_store \<Rightarrow> (string \<times> string) list
     \<Rightarrow> local_store \<Rightarrow> (string \<times> string) list \<Rightarrow> bool" where
  "sync_sound disk digest host fis failed loc ms loc' ms' \<longleftrightarrow>
     (\<forall>k. map_of loc' k = map_of loc k \<or> settled disk digest host fis failed loc' k)
     \<and> (\<exists>new. ms' = ms @ new \<and> list_all (\<lambda>(f, d). settled disk digest host fis failed loc' (file_key disk host d f)) new)"

lemma sync_sound_refl: "sync_sound disk digest host fis failed loc ms loc ms"
  by (simp add: sync_sound_def)

lemma settled_later: "settled disk digest host fis failed loc k \<Longrightarrow> settled disk digest host (fi # fis) failed loc k"
  unfolding settled_def holds_copy_def cut_short_def listed_name_def by (fastforce simp del: split_paired_Ex)

lemma sync_sound_later:
  "sync_sound disk digest host fis failed loc ms loc' ms' \<Longrightarrow> sync_sound disk digest host (fi # fis) failed loc ms loc' ms'"
  unfolding sync_sound_def list_all_iff by (blast intro: settled_later)

lemma sync_sound_copy:
  assumes "listed_name fis d f fi" and "str_or_empty fi ''sha256'' = [] \<or> digest c = str_or_empty fi ''sha256''"
    and "sync_sound disk digest host fis failed (AList.update (file_key disk host d f) c loc) (ms @ [(f, d)]) loc' ms'"
  shows "sync_sound disk digest host fis failed loc ms loc' ms'"
proof -
  let ?k = "file_key disk host d f"
  from assms(3) have keys: "map_of loc' k = map_of (AList.update ?k c loc) k \<or> settled disk digest host fis failed loc' k" for k
    unfolding sync_sound_def by blast
  have "holds_copy disk digest host fis loc' ?k" if "map_of loc' ?k = Some c"
    using that assms(1,2) unfolding holds_copy_def by blast
  with keys [of ?k] have mine: "settled disk digest host fis failed loc' ?k" by (auto simp: update_conv' settled_def)
  have "map_of loc' k = map_of loc k \<or> settled disk digest host fis failed loc' k" for k
    using keys [of k] mine by (cases "k = ?k") (simp_all add: update_conv')
  moreover from assms(3) obtain new where "ms' = ms @ (f, d) # new"
      "list_all (\<lambda>(f, d). settled disk digest host fis failed loc' (file_key disk host d f)) new"
    unfolding sync_sound_def by auto
  ultimately show ?thesis unfolding sync_sound_def using mine by (intro conjI exI [of _ "(f, d) # new"]) simp_all
qed

lemma sync_sound_cut:
  assumes "listed_name fis d f fi" and "ld_write disk (local_path disk host d f) data = Some (Some part)"
  shows "sync_sound disk digest host fis True loc ms (AList.update (file_key disk host d f) part loc) ms"
proof -
  have "cut_short disk host fis (AList.update (file_key disk host d f) part loc) (file_key disk host d f)"
    using assms unfolding cut_short_def by (fastforce simp: update_conv')
  then show ?thesis by (auto simp: sync_sound_def settled_def update_conv')
qed

lemma traced_mark:
  "mark_synced_on_bridge (traced ops) (b, ms) f d = (case mark_synced_on_bridge ops b f d of (b', r) \<Rightarrow> ((b', ms @ [(f, d)]), r))"
  by (simp add: mark_synced_on_bridge_def traced_def split: prod.split sum.split)

lemma traced_fetch: "bo_fetch (traced ops) (b, ms) = bo_fetch ops b"
  by (simp add: traced_def)

lemma sync_files_sound:
  "sync_files (traced ops) digest disk host fis (b, ms) loc synced = ((b', ms'), loc', r) \<Longrightarrow>
     sync_sound disk digest host fis (isl r) loc ms loc' ms'"
proof (induction fis arbitrary: b ms loc synced)
  case Nil
  then show ?case by (simp add: sync_sound_refl)
next
  case (Cons fi fis)
  define f d where fd: "f = str_or_empty fi ''file''" "d = str_or_empty fi ''date''"
  show ?case
  proof (cases "\<exists>c. f \<noteq> [] \<and> d \<noteq> [] \<and> is_date_name d \<and> CHR ''/'' \<notin> set f \<and> \<not> contains_str f ''..''
      \<and> bo_fetch ops b (remote_path_of fi) = Inr c \<and> (str_or_empty fi ''sha256'' = [] \<or> digest c = str_or_empty fi ''sha256'')")
    case True
    then obtain c where c: "f \<noteq> []" "d \<noteq> []" "is_date_name d" "CHR ''/'' \<notin> set f" "\<not> contains_str f ''..''"
        "bo_fetch ops b (remote_path_of fi) = Inr c" "str_or_empty fi ''sha256'' = [] \<or> digest c = str_or_empty fi ''sha256''" by blast
    have l: "listed_name (fi # fis) d f fi" using c fd by (simp add: listed_name_def)
    have step: "sync_files (traced ops) digest disk host (fi # fis) (b, ms) loc synced =
        (case store_file disk (local_path disk host d f) c loc of
           (loc, False) \<Rightarrow> ((b, ms), loc, Inl (WErr ''write failed''))
         | (loc, True) \<Rightarrow>
             (case mark_synced_on_bridge ops b f d of
                (b, Inl e) \<Rightarrow> ((b, ms @ [(f, d)]), loc, Inl e)
              | (b, Inr _) \<Rightarrow> sync_files (traced ops) digest disk host fis (b, ms @ [(f, d)]) loc (synced + 1)))"
      using c by (auto simp: fd [symmetric] traced_mark traced_fetch Let_def split: prod.split sum.split bool.split)
    obtain b1 r1 where m: "mark_synced_on_bridge ops b f d = (b1, r1)" by (cases "mark_synced_on_bridge ops b f d")
    show ?thesis
    proof (cases "ld_write disk (local_path disk host d f) c")
      case None
      have "sync_sound disk digest host (fi # fis) (isl r) (AList.update (file_key disk host d f) c loc) (ms @ [(f, d)]) loc' ms'"
        using Cons.prems m None Cons.IH [THEN sync_sound_later]
        by (cases r1) (auto simp: step store_file_def file_key_def sync_sound_refl simp del: sync_files.simps)
      with l c(7) show ?thesis by (rule sync_sound_copy)
    next
      case (Some w)
      with Cons.prems sync_sound_cut [OF l, of disk host c] show ?thesis
        by (cases w) (auto simp: step store_file_def file_key_def sync_sound_refl simp del: sync_files.simps)
    qed
  next
    case False
    with Cons.prems show ?thesis using sync_sound_later [OF Cons.IH]
      by (auto simp: fd traced_fetch Let_def sync_sound_refl split: if_splits sum.splits)
  qed
qed

lemma traced_sync_files:
  "sync_files (traced ops) digest disk host fis (b, ms) loc synced = ((b', ms'), loc', r) \<Longrightarrow>
     sync_files ops digest disk host fis b loc synced = (b', loc', r)"
  by (induction fis arbitrary: b ms loc synced)
     (auto simp: traced_mark traced_fetch Let_def split: if_splits sum.splits prod.splits bool.splits)

text \<open>
  C34. The server gives up no recording it does not hold. Whatever a bridge answers, and whichever file a
  path denotes, a pass over the listed recordings changes no file but those at the path made of the
  store's directory, the host, a listed date of ten characters with two dashes and a listed file
  name without separators and double dots. A changed file holds content with the listed digest, or
  any downloaded content where the listing gives an empty digest; the one exception is a file whose
  write failed, and then the pass ends with an error. Every mark the server sends names a recording
  whose file is of this kind at the end. The date is not checked further, so that such a path can
  lie outside the directory of the host. Keeping the record of marks does not change the pass.
\<close>

theorem sync_marks_only_verified:
  "case sync_files (traced ops) digest disk host fis (b, []) loc synced of ((b', marks), loc', r) \<Rightarrow>
     sync_files ops digest disk host fis b loc synced = (b', loc', r)
     \<and> list_all (\<lambda>(f, d). holds_copy disk digest host fis loc' (file_key disk host d f)
          \<or> isl r \<and> cut_short disk host fis loc' (file_key disk host d f)) marks
     \<and> (\<forall>k. map_of loc' k = map_of loc k \<or> holds_copy disk digest host fis loc' k \<or> isl r \<and> cut_short disk host fis loc' k)"
proof -
  obtain b' marks loc' r where s: "sync_files (traced ops) digest disk host fis (b, []) loc synced = ((b', marks), loc', r)"
    by (metis prod.exhaust)
  from sync_files_sound [OF s] traced_sync_files [OF s] show ?thesis
    by (simp add: s sync_sound_def settled_def)
qed

text \<open>
  The date of an entry is a path component that is checked for its length and its dashes only: a
  bridge may list one that leads out of the directory of its host, or out of the store.
\<close>

lemma date_leaves_store:
  "is_date_name ''../a-bb-cc'' \<and> is_date_name ''/abc-de-fg''
   \<and> local_path (disk\<lparr>ld_root := ''/rec''\<rparr>) ''web1'' ''../a-bb-cc'' ''x'' = ''/rec/web1/../a-bb-cc/x''
   \<and> local_path disk host ''/abc-de-fg'' ''x'' = ''/abc-de-fg/x''"
  by (simp add: is_date_name_def local_path_def path_join_def join_path_def suffix_def)

section \<open>What the server relies on\<close>

text \<open>A recording that waits on a bridge: file name, date, path and content.\<close>

type_synonym waiting = "string \<times> string \<times> string \<times> bytes"

definition describes_file :: "(bytes \<Rightarrow> string) \<Rightarrow> json \<Rightarrow> waiting \<Rightarrow> bool" where
  "describes_file digest fi w \<longleftrightarrow> (case w of (f, d, p, c) \<Rightarrow>
     jget_str fi ''file'' = Some f \<and> jget_str fi ''date'' = Some d \<and> jget_str fi ''path'' = Some p \<and> jget_str fi ''sha256'' = Some (digest c))"

definition waiting_ok :: "waiting \<Rightarrow> bool" where
  "waiting_ok w \<longleftrightarrow> (case w of (f, d, p, c) \<Rightarrow>
     f \<noteq> [] \<and> p \<noteq> [] \<and> is_date_name d \<and> CHR ''/'' \<notin> set f \<and> \<not> contains_str f ''..'')"

definition same_name :: "waiting \<Rightarrow> waiting \<Rightarrow> bool" where
  "same_name v w \<longleftrightarrow> fst v = fst w \<and> fst (snd v) = fst (snd w)"

locale recording_bridge =
  fixes ops :: "'b bridge_ops" and digest :: "bytes \<Rightarrow> string"
    and inv :: "'b \<Rightarrow> bool" and waiting :: "'b \<Rightarrow> waiting list"
  assumes list_law: "inv b \<Longrightarrow> \<exists>resp fis. bo_list ops b = Inr resp \<and> jget_str resp ''error'' = None
      \<and> Option.bind (jget resp ''files'') jas_array = Some fis \<and> list_all2 (describes_file digest) fis (waiting b)"
    and fetch_law: "inv b \<Longrightarrow> (f, d, p, c) \<in> set (waiting b) \<Longrightarrow> bo_fetch ops b p = Inr c"
    and mark_law: "inv b \<Longrightarrow> (f, d, p, c) \<in> set (waiting b) \<Longrightarrow>
      \<exists>b' resp. bo_mark ops b f d = (b', Inr resp) \<and> Option.bind (jget resp ''ok'') jas_bool = Some True \<and> inv b'
        \<and> waiting b' = filter (\<lambda>v. \<not> same_name (f, d, p, c) v) (waiting b)"
    and names_law: "inv b \<Longrightarrow> list_all waiting_ok (waiting b) \<and> distinct (map (\<lambda>(f, d, _). (f, d)) (waiting b))"
begin

lemma waiting_same:
  assumes "inv b" and "v \<in> set (waiting b)" and "w \<in> set (waiting b)" and "same_name v w"
  shows "v = w"
proof -
  from names_law [OF assms(1)] have "inj_on (\<lambda>(f, d, _). (f, d)) (set (waiting b))" by (simp add: distinct_map)
  moreover have "(\<lambda>(f, d, _). (f, d)) v = (\<lambda>(f, d, _). (f, d)) w" using assms(4) by (simp add: same_name_def split_beta)
  ultimately show ?thesis using assms(2,3) by (rule inj_onD)
qed

lemma sync_files_drains:
  assumes writes: "\<forall>p c. ld_write disk p c = None"
  shows "inv b \<Longrightarrow> list_all2 (describes_file digest) fis ws \<Longrightarrow> set ws = set (waiting b) \<Longrightarrow>
     distinct (map (\<lambda>(f, d, _). file_key disk host d f) ws) \<Longrightarrow>
     \<exists>b' loc'. sync_files ops digest disk host fis b loc synced = (b', loc', Inr (synced + length ws))
       \<and> inv b' \<and> waiting b' = []
       \<and> (\<forall>(f, d, p, c) \<in> set ws. map_of loc' (file_key disk host d f) = Some c)
       \<and> (\<forall>k. (\<forall>(f, d, p, c) \<in> set ws. k \<noteq> file_key disk host d f) \<longrightarrow> map_of loc' k = map_of loc k)"
proof (induction ws arbitrary: fis b loc synced)
  case Nil
  then show ?case by simp
next
  case (Cons w ws)
  obtain f d p c where w: "w = (f, d, p, c)" by (cases w)
  let ?k = "file_key disk host d f"
  have apart: "\<forall>(f', d', p', c') \<in> set ws. ?k \<noteq> file_key disk host d' f'" using Cons.prems(4) by (force simp: w)
  from Cons.prems(2) obtain fi fis' where fis: "fis = fi # fis'" "describes_file digest fi w" "list_all2 (describes_file digest) fis' ws"
    by (auto simp: list_all2_Cons2)
  have mem: "(f, d, p, c) \<in> set (waiting b)" using Cons.prems(3) w by auto
  have names: "f \<noteq> []" "p \<noteq> []" "is_date_name d" "CHR ''/'' \<notin> set f" "\<not> contains_str f ''..''" "d \<noteq> []"
    using names_law [OF Cons.prems(1)] mem by (auto simp: list_all_iff waiting_ok_def is_date_name_def)
  have str: "str_or_empty fi ''file'' = f" "str_or_empty fi ''date'' = d" "str_or_empty fi ''sha256'' = digest c" "remote_path_of fi = p"
    using fis(2) names(2) by (auto simp: w describes_file_def str_or_empty_def remote_path_of_def)
  obtain b1 resp where b1: "bo_mark ops b f d = (b1, Inr resp)" "Option.bind (jget resp ''ok'') jas_bool = Some True" "inv b1"
      "waiting b1 = filter (\<lambda>v. \<not> same_name (f, d, p, c) v) (waiting b)"
    using mark_law [OF Cons.prems(1) mem] by blast
  have only: "same_name (f, d, p, c) v \<longleftrightarrow> v = w" if "v \<in> set (waiting b)" for v
    using waiting_same [OF Cons.prems(1) mem that] by (auto simp: same_name_def w)
  have "set (waiting b1) = set (waiting b) - {w}" unfolding b1(4) using only by auto
  also have "\<dots> = set ws" using apart unfolding Cons.prems(3) [symmetric] by (auto simp: w)
  finally have "set (waiting b1) = set ws" .
  then have ws: "set ws = set (waiting b1)" "distinct (map (\<lambda>(f, d, _). file_key disk host d f) ws)" using Cons.prems(4) by simp_all
  from Cons.IH [OF b1(3) fis(3) ws, of "AList.update ?k c loc" "synced + 1"] obtain b' loc' where IH:
      "sync_files ops digest disk host fis' b1 (AList.update ?k c loc) (synced + 1) = (b', loc', Inr (synced + 1 + length ws))"
      "inv b'" "waiting b' = []" "\<forall>(f, d, p, c) \<in> set ws. map_of loc' (file_key disk host d f) = Some c"
      "\<forall>k. (\<forall>(f, d, p, c) \<in> set ws. k \<noteq> file_key disk host d f) \<longrightarrow> map_of loc' k = map_of (AList.update ?k c loc) k"
    by blast
  have "sync_files ops digest disk host fis b loc synced = (b', loc', Inr (synced + length (w # ws)))"
    using names str b1(1,2) fetch_law [OF Cons.prems(1) mem] IH(1) writes
    by (simp add: fis(1) Let_def mark_synced_on_bridge_def store_file_def file_key_def)
  moreover have mine: "map_of loc' ?k = Some c"
    using IH(5) apart by (simp add: update_conv')
  moreover have "map_of loc' k = map_of loc k" if "\<forall>(f, d, p, c) \<in> set (w # ws). k \<noteq> file_key disk host d f" for k
    using IH(5) that by (simp add: w update_conv' del: split_paired_All)
  moreover have "\<forall>(f, d, p, c) \<in> set (w # ws). map_of loc' (file_key disk host d f) = Some c" using IH(4) mine by (simp add: w)
  ultimately show ?case using IH(2,3) by blast
qed

lemma sync_host_drains:
  assumes "inv b" and "\<forall>p c. ld_write disk p c = None" and "inj_on (\<lambda>(f, d). file_key disk host d f) ((\<lambda>(f, d, _). (f, d)) ` set (waiting b))"
  shows "\<exists>b' loc'. sync_host ops digest disk host b loc = (b', loc', Inr (length (waiting b)))
       \<and> inv b' \<and> waiting b' = []
       \<and> (\<forall>(f, d, p, c) \<in> set (waiting b). map_of loc' (file_key disk host d f) = Some c)
       \<and> (\<forall>k. (\<forall>(f, d, p, c) \<in> set (waiting b). k \<noteq> file_key disk host d f) \<longrightarrow> map_of loc' k = map_of loc k)"
proof -
  obtain resp fis where r: "bo_list ops b = Inr resp" "jget_str resp ''error'' = None"
      "Option.bind (jget resp ''files'') jas_array = Some fis" "list_all2 (describes_file digest) fis (waiting b)"
    using list_law [OF assms(1)] by blast
  have "distinct (map (\<lambda>(f, d). file_key disk host d f) (map (\<lambda>(f, d, _). (f, d)) (waiting b)))"
    unfolding distinct_map [of "\<lambda>(f, d). file_key disk host d f"] using names_law [OF assms(1)] assms(3) by simp
  moreover have "map (\<lambda>(f, d). file_key disk host d f) (map (\<lambda>(f, d, _). (f, d)) (waiting b)) = map (\<lambda>(f, d, _). file_key disk host d f) (waiting b)"
    by (simp add: split_beta)
  ultimately have "distinct (map (\<lambda>(f, d, _). file_key disk host d f) (waiting b))" by (simp only:)
  from sync_files_drains [OF assms(2,1) r(4) refl this, of loc 0] r show ?thesis by (simp add: sync_host_def)
qed

end

section \<open>The bridge\<close>

definition cast_path :: "string \<Rightarrow> string \<Rightarrow> string \<Rightarrow> string" where
  "cast_path rdir date name = join_path (join_path rdir date) name"

definition unsynced_json :: "string \<Rightarrow> unsynced \<Rightarrow> json" where
  "unsynced_json rdir u =
     JObj [(''date'', JStr (us_date u)), (''file'', JStr (us_file u)), (''path'', JStr (cast_path rdir (us_date u) (us_file u))),
           (''sha256'', JStr (us_sha256 u)), (''size_bytes'', JInt (int (us_size u)))]"

text \<open>The two commands the bridge answers from its recording directory; \<open>None\<close> is a panic or another command.\<close>

definition local_command ::
    "(bytes \<Rightarrow> json option) \<Rightarrow> (json \<Rightarrow> bytes) \<Rightarrow> string \<Rightarrow> json \<Rightarrow> rec_dir list \<Rightarrow> (rec_dir list \<times> json) option" where
  "local_command parse print rdir request ds =
     (if jget_str request ''command'' = Some ''list_unsynced_recordings'' then
        Some (ds, JObj [(''files'', JArr (map (unsynced_json rdir) (list_unsynced parse ds)))])
      else if jget_str request ''command'' = Some ''mark_synced'' then
        (let params = (case jget request ''params'' of Some v \<Rightarrow> v | None \<Rightarrow> JNull)
         in map_option
              (\<lambda>r. case r of
                 Inl e \<Rightarrow> (ds, JObj [(''error'', JStr (''mark_synced failed: '' @ e)), (''ok'', JBool False)])
               | Inr ds' \<Rightarrow> (ds', JObj [(''ok'', JBool True)]))
              (mark_synced parse print (str_or_empty params ''file'') (str_or_empty params ''date'') ds))
      else None)"

text \<open>The files of the recording directory as the operating system finds them.\<close>

definition stored_files :: "string \<Rightarrow> rec_dir list \<Rightarrow> (string \<times> bytes) list" where
  "stored_files rdir ds =
     concat (map (\<lambda>d. if rd_is_dir d then map (\<lambda>(n, c). (cast_path rdir (rd_name d) n, c)) (rd_files d) else []) ds)"

definition store_fs :: "string \<Rightarrow> rec_dir list \<Rightarrow> remote_fs" where
  "store_fs rdir ds = \<lparr>rf_lookup = (\<lambda>p. map_option TFile (map_of (stored_files rdir ds) p)), rf_error = (\<lambda>_. ''not found'')\<rparr>"

definition store_ops :: "(bytes \<Rightarrow> json option) \<Rightarrow> (json \<Rightarrow> bytes) \<Rightarrow> string \<Rightarrow> rec_dir list bridge_ops" where
  "store_ops parse print rdir =
     \<lparr>bo_list = (\<lambda>ds. case local_command parse print rdir (JObj [(''command'', JStr ''list_unsynced_recordings'')]) ds of
          None \<Rightarrow> Inl (WErr ''stream closed'') | Some (_, resp) \<Rightarrow> Inr resp),
      bo_fetch = (\<lambda>ds p. download_recording (bridge_serve (store_fs rdir ds)) p),
      bo_mark = (\<lambda>ds f d. case local_command parse print rdir
            (JObj [(''command'', JStr ''mark_synced''), (''params'', JObj [(''date'', JStr d), (''file'', JStr f)])]) ds of
          None \<Rightarrow> (ds, Inl (WErr ''stream closed'')) | Some (ds', resp) \<Rightarrow> (ds', Inr resp))\<rparr>"

definition waiting_of :: "(bytes \<Rightarrow> json option) \<Rightarrow> string \<Rightarrow> rec_dir list \<Rightarrow> waiting list" where
  "waiting_of parse rdir ds =
     map (\<lambda>u. (us_file u, us_date u, cast_path rdir (us_date u) (us_file u),
               case file_in (us_date u) (us_file u) ds of Some c \<Rightarrow> c | None \<Rightarrow> []))
       (list_unsynced parse ds)"

text \<open>
  What a pass needs of a bridge: well-formed directories of files whose names the operating system
  allows, metadata that are printed and parsed back, and for every recording that waits, a path
  that may be sent, the digest of the file in its metadata, and a file within the limit.
\<close>

definition recording_ready :: "string \<Rightarrow> (bytes \<Rightarrow> string) \<Rightarrow> rec_dir list \<Rightarrow> unsynced \<Rightarrow> bool" where
  "recording_ready rdir digest ds u \<longleftrightarrow>
     \<not> unsafe_name (us_file u) \<and> \<not> unsafe_name (us_date u)
     \<and> length (cast_path rdir (us_date u) (us_file u)) < 65536 \<and> valid_utf8 (str_bytes (cast_path rdir (us_date u) (us_file u)))
     \<and> sanitize_path (cast_path rdir (us_date u) (us_file u)) = Inr (cast_path rdir (us_date u) (us_file u))
     \<and> (case file_in (us_date u) (us_file u) ds of
          Some c \<Rightarrow> us_sha256 u = digest c \<and> length c \<le> MAX_RECORDING_SIZE | None \<Rightarrow> False)"

definition plain_names :: "rec_dir list \<Rightarrow> bool" where
  "plain_names ds \<longleftrightarrow> list_all (\<lambda>d. rd_name d \<noteq> [] \<and> CHR ''/'' \<notin> set (rd_name d) \<and> list_all (\<lambda>n. CHR ''/'' \<notin> set n) (map fst (rd_files d))) ds"

definition meta_law :: "(bytes \<Rightarrow> json option) \<Rightarrow> (json \<Rightarrow> bytes) \<Rightarrow> bool" where
  "meta_law parse print \<longleftrightarrow>
     (\<forall>c meta meta'. parse c = Some meta \<longrightarrow> jput ''synced'' (JBool True) meta = Some meta' \<longrightarrow> parse (print meta') = Some meta')"

definition sync_ready :: "(bytes \<Rightarrow> json option) \<Rightarrow> (json \<Rightarrow> bytes) \<Rightarrow> string \<Rightarrow> (bytes \<Rightarrow> string) \<Rightarrow> rec_dir list \<Rightarrow> bool" where
  "sync_ready parse print rdir digest ds \<longleftrightarrow>
     store_ok ds \<and> plain_names ds \<and> meta_law parse print \<and> list_all (recording_ready rdir digest ds) (list_unsynced parse ds)"

lemma plain_names_iff:
  "plain_names ds \<longleftrightarrow> list_all (\<lambda>n. n \<noteq> [] \<and> CHR ''/'' \<notin> set n) (map rd_name ds)
     \<and> list_all (list_all (\<lambda>n. CHR ''/'' \<notin> set n)) (map (\<lambda>d. map fst (rd_files d)) ds)"
  by (auto simp: plain_names_def list_all_iff)

lemma join_path_inject: "join_path a x = join_path a y \<longleftrightarrow> x = y"
  by (simp add: join_path_def)

lemma no_slash_append_inject:
  assumes "CHR ''/'' \<notin> set n" and "CHR ''/'' \<notin> set n'" and "x @ CHR ''/'' # n = y @ CHR ''/'' # n'"
  shows "x = y \<and> n = n'"
proof -
  have "takeWhile (\<lambda>c. c \<noteq> CHR ''/'') (rev (z @ CHR ''/'' # m)) = rev m" if "CHR ''/'' \<notin> set m" for z m
    using that by (simp add: takeWhile_append)
  with assms have "rev n = rev n'" by metis
  with assms(3) show ?thesis by simp
qed

lemma cast_path_inject:
  assumes "CHR ''/'' \<notin> set d" "CHR ''/'' \<notin> set d'" "CHR ''/'' \<notin> set n" "CHR ''/'' \<notin> set n'" "d \<noteq> []" "d' \<noteq> []"
    and "cast_path rdir d n = cast_path rdir d' n'"
  shows "d = d' \<and> n = n'"
proof -
  have "\<not> suffix ''/'' (join_path rdir x) \<and> join_path rdir x \<noteq> []" if "CHR ''/'' \<notin> set x" "x \<noteq> []" for x
    using that by (auto simp: join_path_def suffix_def append_eq_append_conv2 append_eq_Cons_conv Cons_eq_append_conv)
  with assms have "join_path rdir d @ CHR ''/'' # n = join_path rdir d' @ CHR ''/'' # n'"
    by (simp add: cast_path_def join_path_def [of "join_path rdir _"])
  from no_slash_append_inject [OF assms(3,4) this] show ?thesis by (simp add: join_path_inject)
qed

lemma stored_lookup:
  assumes "store_ok ds" and "plain_names ds" and "file_in date name ds = Some c"
  shows "rf_lookup (store_fs rdir ds) (cast_path rdir date name) = Some (TFile c)"
proof -
  have "\<exists>d \<in> set ds. rd_name d = date \<and> rd_is_dir d \<and> map_of (rd_files d) name = Some c"
    using assms(3) by (auto simp: file_in_def split: option.splits elim!: find_SomeE)
  then obtain d where d: "d \<in> set ds" "rd_name d = date" "rd_is_dir d" "map_of (rd_files d) name = Some c" by blast
  have plain: "CHR ''/'' \<notin> set (rd_name e)" "rd_name e \<noteq> []" "(n, x) \<in> set (rd_files e) \<Longrightarrow> CHR ''/'' \<notin> set n" if "e \<in> set ds" for e n x
    using that assms(2) by (fastforce simp: plain_names_def list_all_iff)+
  have mem: "(cast_path rdir date name, c) \<in> set (stored_files rdir ds)"
    using d map_of_SomeD [OF d(4)] by (force simp: stored_files_def)
  have uniq: "x = c" if "(cast_path rdir date name, x) \<in> set (stored_files rdir ds)" for x
  proof -
    from that obtain e n where e: "e \<in> set ds" "rd_is_dir e" "(n, x) \<in> set (rd_files e)" "cast_path rdir date name = cast_path rdir (rd_name e) n"
      by (auto simp: stored_files_def split: if_splits)
    have same: "date = rd_name e \<and> name = n"
      using cast_path_inject [OF _ _ _ _ _ _ e(4)] plain(1,2) [OF d(1)] plain(1,2) [OF e(1)] d(2)
        plain(3) [OF d(1) map_of_SomeD [OF d(4)]] plain(3) [OF e(1,3)] by simp
    have "inj_on rd_name (set ds)" using assms(1) by (simp add: store_ok_def distinct_map)
    then have "e = d" by (rule inj_onD) (use same d(1,2) e(1) in simp_all)
    moreover have "distinct (map fst (rd_files d))" using assms(1) d(1) by (simp add: store_ok_def)
    ultimately show ?thesis using e(3) d(4) same by simp
  qed
  have "map_of (stored_files rdir ds) (cast_path rdir date name) \<noteq> None"
    unfolding map_of_eq_None_iff using image_eqI [OF _ mem, of _ fst] by simp
  then obtain x where "map_of (stored_files rdir ds) (cast_path rdir date name) = Some x" by blast
  with uniq [OF map_of_SomeD [OF this]] show ?thesis by (simp add: store_fs_def)
qed

text \<open>The recordings of a list have different names.\<close>

lemma distinct_entries:
  assumes "store_ok ds" and "d \<in> set ds" and "set fs \<subseteq> set (rd_files d)" and "distinct (map fst fs)"
  shows "distinct (map us_file (concat (map (unsynced_entry parse d) fs)))"
  using assms(3,4)
proof (induction fs)
  case (Cons f fs)
  obtain n c where f: "f = (n, c)" by (cases f)
  have one: "length (unsynced_entry parse d f) \<le> 1"
    by (simp add: f unsynced_entry_def Let_def split: option.split)
  have "us_file u \<noteq> us_file v" if u: "u \<in> set (unsynced_entry parse d f)" and vs: "v \<in> set (concat (map (unsynced_entry parse d) fs))" for u v
  proof -
    from vs obtain n' c' where v: "(n', c') \<in> set fs" "v \<in> set (unsynced_entry parse d (n', c'))" by auto
    have m: "(n, c) \<in> set (rd_files d)" "(n', c') \<in> set (rd_files d)" using Cons.prems(1) v(1) f by auto
    obtain s where s: "n = s @ ''.meta''" "us_file u = s @ ''.cast''"
      by (rule unsynced_entry_name [OF assms(1,2) m(1) u [unfolded f]])
    obtain s' where s': "n' = s' @ ''.meta''" "us_file v = s' @ ''.cast''"
      by (rule unsynced_entry_name [OF assms(1,2) m(2) v(2)])
    have "n \<noteq> n'" using Cons.prems(2) v(1) f by force
    with s s' show ?thesis by auto
  qed
  moreover have "distinct (map us_file (concat (map (unsynced_entry parse d) fs)))" using Cons by auto
  moreover have "distinct (map us_file (unsynced_entry parse d f))" using one by (cases "unsynced_entry parse d f") auto
  ultimately show ?case by (auto simp: image_iff)
qed simp

lemma distinct_listed:
  "store_ok ds \<Longrightarrow> distinct (map (\<lambda>u. (us_file u, us_date u)) (list_unsynced parse ds))"
proof (induction ds)
  case (Cons d ds)
  from Cons.prems have ok: "store_ok ds" "rd_name d \<notin> rd_name ` set ds" "distinct (map fst (rd_files d))"
    by (auto simp: store_ok_def)
  define L where "L = (\<lambda>d. if \<not> is_date_name (rd_name d) \<or> \<not> rd_is_dir d then [] else concat (map (unsynced_entry parse d) (rd_files d)))"
  have lst: "list_unsynced parse ds' = concat (map L ds')" for ds' by (simp add: list_unsynced_def L_def)
  have date: "us_date u = rd_name e" if "u \<in> set (L e)" for u e
    using that by (auto simp: L_def unsynced_entry_def Let_def split: if_splits option.splits)
  have "distinct (map us_file (L d))"
    using distinct_entries [OF Cons.prems, of d "rd_files d" parse] ok(3) by (simp add: L_def)
  then have "distinct (map (\<lambda>u. (us_file u, us_date u)) (L d))" by (auto simp: distinct_map inj_on_def)
  moreover have "(\<lambda>u. (us_file u, us_date u)) ` set (L d) \<inter> (\<lambda>u. (us_file u, us_date u)) ` set (concat (map L ds)) = {}"
    using date ok(2) by auto
  ultimately show ?case using Cons.IH [OF ok(1)] by (simp add: lst)
qed (simp add: list_unsynced_def)

lemma listed_dates: "u \<in> set (list_unsynced parse ds) \<Longrightarrow> is_date_name (us_date u)"
  by (auto simp: list_unsynced_def unsynced_entry_def Let_def split: if_splits option.splits)

lemma listed_cast:
  assumes "store_ok ds" and "u \<in> set (list_unsynced parse ds)"
  obtains s where "s \<noteq> []" and "us_file u = s @ ''.cast''"
proof -
  from assms(2) obtain d n c where "d \<in> set ds" "(n, c) \<in> set (rd_files d)" "u \<in> set (unsynced_entry parse d (n, c))"
    by (auto simp: list_unsynced_def split: if_splits)
  from unsynced_entry_name [OF assms(1) this] that show thesis by metis
qed

section \<open>The bridge keeps its promises\<close>

lemma bridge_fetch:
  assumes "rf_lookup rf p = Some (TFile c)" and "length p < 65536" and "valid_utf8 (str_bytes p)" and "sanitize_path p = Inr p"
    and "length c \<le> MAX_RECORDING_SIZE"
  shows "download_recording (bridge_serve rf) p = Inr c"
proof -
  from assms(1) have "Option.bind (rf_lookup rf p) node_source = Some (length c, Some c)" by simp
  moreover have "read_exact (length c) c = Inr (c, [])" using read_exact_append [of c "length c" "[]"] by simp
  ultimately show ?thesis using bridge_serve_path(1) [OF assms(2-4)] assms(5)
    by (simp add: download_recording_def file_reply_def codec_simps MAX_RECORDING_SIZE_def)
qed

lemma sync_readyD:
  assumes "sync_ready parse print rdir digest ds"
  shows "store_ok ds" "plain_names ds" "meta_law parse print"
    and "\<And>u. u \<in> set (list_unsynced parse ds) \<Longrightarrow> recording_ready rdir digest ds u"
  using assms by (auto simp: sync_ready_def list_all_iff)

lemma waiting_entry:
  assumes "(f, d, p, c) \<in> set (waiting_of parse rdir ds)" and "sync_ready parse print rdir digest ds"
  obtains u where "u \<in> set (list_unsynced parse ds)" "f = us_file u" "d = us_date u" "p = cast_path rdir d f"
    "file_in d f ds = Some c" "us_sha256 u = digest c" "recording_ready rdir digest ds u"
proof -
  from assms(1) obtain u where u: "u \<in> set (list_unsynced parse ds)" "f = us_file u" "d = us_date u" "p = cast_path rdir d f"
      "c = (case file_in d f ds of Some c \<Rightarrow> c | None \<Rightarrow> [])"
    by (auto simp: waiting_of_def)
  from sync_readyD(4) [OF assms(2) u(1)] have r: "recording_ready rdir digest ds u" .
  with u(2,3,5) have "file_in d f ds = Some c \<and> us_sha256 u = digest c"
    by (auto simp: recording_ready_def split: option.splits)
  with that u r show thesis by blast
qed

lemma store_fetch:
  assumes "sync_ready parse print rdir digest ds" and "(f, d, p, c) \<in> set (waiting_of parse rdir ds)"
  shows "bo_fetch (store_ops parse print rdir) ds p = Inr c"
proof -
  obtain u where u: "f = us_file u" "d = us_date u" "p = cast_path rdir d f" "file_in d f ds = Some c" "recording_ready rdir digest ds u"
    by (rule waiting_entry [OF assms(2,1)])
  from u(1,2,4,5) have "length c \<le> MAX_RECORDING_SIZE" by (simp add: recording_ready_def)
  moreover have "rf_lookup (store_fs rdir ds) p = Some (TFile c)"
    unfolding u(3) by (rule stored_lookup [OF sync_readyD(1,2) [OF assms(1)] u(4)])
  ultimately have "download_recording (bridge_serve (store_fs rdir ds)) p = Inr c"
    using u by (intro bridge_fetch) (auto simp: recording_ready_def)
  then show ?thesis by (simp add: store_ops_def)
qed

lemma store_mark:
  assumes ready: "sync_ready parse print rdir digest ds" and mem: "(f, d, p, c) \<in> set (waiting_of parse rdir ds)"
  shows "\<exists>ds' resp. bo_mark (store_ops parse print rdir) ds f d = (ds', Inr resp) \<and> Option.bind (jget resp ''ok'') jas_bool = Some True
    \<and> sync_ready parse print rdir digest ds'
    \<and> waiting_of parse rdir ds' = filter (\<lambda>v. \<not> same_name (f, d, p, c) v) (waiting_of parse rdir ds)"
proof -
  obtain u where u: "u \<in> set (list_unsynced parse ds)" "f = us_file u" "d = us_date u" "recording_ready rdir digest ds u"
    by (rule waiting_entry [OF mem ready])
  from u(4) have safe: "\<not> unsafe_name (us_file u)" "\<not> unsafe_name (us_date u)" by (simp_all add: recording_ready_def)
  have law: "\<forall>c meta meta'. parse c = Some meta \<longrightarrow> jput ''synced'' (JBool True) meta = Some meta' \<longrightarrow> parse (print meta') = Some meta'"
    using sync_readyD(3) [OF ready] by (simp add: meta_law_def)
  obtain ds' where ds': "mark_synced parse print f d ds = Some (Inr ds')"
      "list_unsynced parse ds' = filter (\<lambda>v. \<not> same_recording u v) (list_unsynced parse ds)" "store_ok ds'"
      "\<forall>date name. file_in date name ds' \<noteq> file_in date name ds \<longrightarrow> date = us_date u \<and> name = with_extension_meta (us_file u)"
    using mark_synced_unlists [where print = print, OF sync_readyD(1) [OF ready] u(1) safe law] u(2,3) by auto
  from mark_synced_writes [OF ds'(1)] sync_readyD(2) [OF ready] have plain: "plain_names ds'"
    unfolding plain_names_iff by (auto simp only: write_in_names)
  obtain s where s: "s \<noteq> []" "us_file u = s @ ''.cast''" by (rule listed_cast [OF sync_readyD(1) [OF ready] u(1)])
  have unchanged: "file_in (us_date v) (us_file v) ds' = file_in (us_date v) (us_file v) ds" if v: "v \<in> set (list_unsynced parse ds)" for v
  proof (rule ccontr)
    assume "file_in (us_date v) (us_file v) ds' \<noteq> file_in (us_date v) (us_file v) ds"
    with ds'(4) have "us_file v = with_extension_meta (us_file u)" by blast
    with s have "us_file v = s @ ''.meta''" by (simp add: with_extension_cast)
    moreover obtain s' where "us_file v = s' @ ''.cast''" by (rule listed_cast [OF sync_readyD(1) [OF ready] v])
    ultimately have "take 5 (rev (s' @ ''.cast'')) = take 5 (rev (s @ ''.meta''))" by simp
    then show False by simp
  qed
  have same: "same_recording u v \<longleftrightarrow> same_name (f, d, p, c) (us_file v, us_date v, x, y)" for v x y
    by (auto simp: same_recording_def same_name_def u)
  have wait: "waiting_of parse rdir ds' = filter (\<lambda>v. \<not> same_name (f, d, p, c) v) (waiting_of parse rdir ds)"
    unfolding waiting_of_def ds'(2) filter_map o_def same [symmetric] using unchanged by auto
  have "sync_ready parse print rdir digest ds'"
    using ready ds'(2,3) plain unchanged by (auto simp: sync_ready_def list_all_iff recording_ready_def)
  then show ?thesis using ds'(1) wait
    by (simp add: store_ops_def local_command_def jget_str_def str_or_empty_def)
qed

interpretation stored: recording_bridge "store_ops parse print rdir" digest "sync_ready parse print rdir digest" "waiting_of parse rdir"
  for parse print rdir digest
proof
  fix ds
  assume ready: "sync_ready parse print rdir digest ds"
  have "describes_file digest (unsynced_json rdir u)
      (us_file u, us_date u, cast_path rdir (us_date u) (us_file u), case file_in (us_date u) (us_file u) ds of Some c \<Rightarrow> c | None \<Rightarrow> [])"
    if "u \<in> set (list_unsynced parse ds)" for u
    using sync_readyD(4) [OF ready that] by (auto simp: describes_file_def unsynced_json_def jget_str_def recording_ready_def split: option.splits)
  then show "\<exists>resp fis. bo_list (store_ops parse print rdir) ds = Inr resp \<and> jget_str resp ''error'' = None
      \<and> Option.bind (jget resp ''files'') jas_array = Some fis \<and> list_all2 (describes_file digest) fis (waiting_of parse rdir ds)"
    by (simp add: store_ops_def local_command_def jget_str_def waiting_of_def list_all2_map1 list_all2_map2 list_all2_same)
  have "waiting_ok w" if wm: "w \<in> set (waiting_of parse rdir ds)" for w
  proof -
    obtain f d p c where w: "w = (f, d, p, c)" by (cases w)
    obtain u where u: "u \<in> set (list_unsynced parse ds)" "f = us_file u" "d = us_date u" "p = cast_path rdir d f" "recording_ready rdir digest ds u"
      by (rule waiting_entry [OF wm [unfolded w] ready])
    obtain s where "us_file u = s @ ''.cast''" by (rule listed_cast [OF sync_readyD(1) [OF ready] u(1)])
    with u listed_dates [OF u(1)] show ?thesis
      by (auto simp: w waiting_ok_def recording_ready_def unsafe_name_def cast_path_def join_path_def)
  qed
  moreover have "distinct (map (\<lambda>(f, d, _). (f, d)) (waiting_of parse rdir ds))"
    using distinct_listed [OF sync_readyD(1) [OF ready], of parse] by (simp add: waiting_of_def o_def)
  ultimately show "list_all waiting_ok (waiting_of parse rdir ds) \<and> distinct (map (\<lambda>(f, d, _). (f, d)) (waiting_of parse rdir ds))"
    by (simp add: list_all_iff)
next
  show "bo_fetch (store_ops parse print rdir) ds p = Inr c"
    if "sync_ready parse print rdir digest ds" "(f, d, p, c) \<in> set (waiting_of parse rdir ds)" for ds f d p c
    by (rule store_fetch [OF that])
  show "\<exists>ds' resp. bo_mark (store_ops parse print rdir) ds f d = (ds', Inr resp) \<and> Option.bind (jget resp ''ok'') jas_bool = Some True
      \<and> sync_ready parse print rdir digest ds'
      \<and> waiting_of parse rdir ds' = filter (\<lambda>v. \<not> same_name (f, d, p, c) v) (waiting_of parse rdir ds)"
    if "sync_ready parse print rdir digest ds" "(f, d, p, c) \<in> set (waiting_of parse rdir ds)" for ds f d p c
    by (rule store_mark [OF that])
qed

text \<open>
  A pass over a bridge brings every recording home. When the digests in the metadata are those of
  the files, the local disk accepts the writes and keeps the recordings in different files, the pass reports as many recordings as were
  listed; afterwards the bridge lists none, the file at host, date and file name holds
  exactly the bytes of each recording on the bridge, and everything else in it is unchanged.
\<close>

theorem sync_brings_home:
  assumes "sync_ready parse print rdir digest ds" and "\<forall>p c. ld_write disk p c = None"
    and "inj_on (\<lambda>(f, d). file_key disk host d f) ((\<lambda>u. (us_file u, us_date u)) ` set (list_unsynced parse ds))"
  shows "\<exists>ds' loc'. sync_host (store_ops parse print rdir) digest disk host ds loc = (ds', loc', Inr (length (list_unsynced parse ds)))
    \<and> list_unsynced parse ds' = []
    \<and> (\<forall>u \<in> set (list_unsynced parse ds). map_of loc' (file_key disk host (us_date u) (us_file u)) = file_in (us_date u) (us_file u) ds)
    \<and> (\<forall>k. k \<notin> (\<lambda>u. (file_key disk host (us_date u) (us_file u))) ` set (list_unsynced parse ds) \<longrightarrow> map_of loc' k = map_of loc k)"
proof -
  have "(\<lambda>(f, d, _). (f, d)) ` set (waiting_of parse rdir ds) = (\<lambda>u. (us_file u, us_date u)) ` set (list_unsynced parse ds)"
    by (force simp: waiting_of_def)
  with assms(3) have apart: "inj_on (\<lambda>(f, d). file_key disk host d f) ((\<lambda>(f, d, _). (f, d)) ` set (waiting_of parse rdir ds))" by simp
  obtain ds' loc' where s: "sync_host (store_ops parse print rdir) digest disk host ds loc = (ds', loc', Inr (length (waiting_of parse rdir ds)))"
      "waiting_of parse rdir ds' = []"
      "\<forall>(f, d, p, c) \<in> set (waiting_of parse rdir ds). map_of loc' (file_key disk host d f) = Some c"
      "\<forall>k. (\<forall>(f, d, p, c) \<in> set (waiting_of parse rdir ds). k \<noteq> file_key disk host d f) \<longrightarrow> map_of loc' k = map_of loc k"
    using stored.sync_host_drains [OF assms(1,2) apart, of loc] by blast
  have "map_of loc' (file_key disk host (us_date u) (us_file u)) = file_in (us_date u) (us_file u) ds" if "u \<in> set (list_unsynced parse ds)" for u
    using s(3) that sync_readyD(4) [OF assms(1) that] by (auto simp: waiting_of_def recording_ready_def split: option.splits)
  moreover have "map_of loc' k = map_of loc k" if "k \<notin> (\<lambda>u. (file_key disk host (us_date u) (us_file u))) ` set (list_unsynced parse ds)" for k
  proof -
    have "\<forall>(f, d, p, c) \<in> set (waiting_of parse rdir ds). k \<noteq> file_key disk host d f" using that by (auto simp: waiting_of_def)
    with s(4) show ?thesis by blast
  qed
  ultimately show ?thesis using s(1,2) by (auto simp: waiting_of_def)
qed


text \<open>One recording of two bytes on the bridge.\<close>

definition meta0 :: json where
  "meta0 = JObj [(''sha256'', JStr ''ab''), (''synced'', JBool False)]"

definition meta1 :: json where
  "meta1 = JObj [(''sha256'', JStr ''ab''), (''synced'', JBool True)]"

definition parse0 :: "bytes \<Rightarrow> json option" where
  "parse0 c = (if c = [1] then Some meta0 else if c = [2] then Some meta1 else None)"

definition store0_dirs :: "rec_dir list" where
  "store0_dirs = [\<lparr>rd_name = ''2024-01-20'', rd_is_dir = True, rd_files = [(''s.meta'', [1]), (''s.cast'', [7, 7])]\<rparr>]"

lemma store0_listed:
  "list_unsynced parse0 store0_dirs = [\<lparr>us_file = ''s.cast'', us_date = ''2024-01-20'', us_size = 2, us_sha256 = ''ab''\<rparr>]"
  by (simp add: list_unsynced_def store0_dirs_def is_date_name_def unsynced_entry_def ends_with_def suffix_def
      parse0_def meta0_def trim_meta.simps jget_str_def Let_def)

lemma store0_ready: "sync_ready parse0 (\<lambda>_. [2]) ''/r'' (\<lambda>_. ''ab'') store0_dirs"
proof -
  have "store_ok store0_dirs" by (auto simp: store_ok_def store0_dirs_def suffix_def)
  moreover have "plain_names store0_dirs" by (simp add: plain_names_def store0_dirs_def)
  moreover have "meta_law parse0 (\<lambda>_. [2])"
    by (auto simp: meta_law_def parse0_def meta0_def meta1_def split: if_splits)
  moreover have "file_in ''2024-01-20'' ''s.cast'' store0_dirs = Some [7, 7]" by (simp add: file_in_def store0_dirs_def)
  moreover have "cast_path ''/r'' ''2024-01-20'' ''s.cast'' = ''/r/2024-01-20/s.cast''" by (simp add: cast_path_def join_path_def suffix_def)
  moreover have "sanitize_path ''/r/2024-01-20/s.cast'' = Inr ''/r/2024-01-20/s.cast''" by code_simp
  moreover have "valid_utf8 (str_bytes ''/r/2024-01-20/s.cast'')" by code_simp
  ultimately show ?thesis
    by (simp add: sync_ready_def store0_listed recording_ready_def unsafe_name_def contains_str.simps MAX_RECORDING_SIZE_def)
qed

section \<open>Clean-up of the local store\<close>

text \<open>
  The first phase, over the entries of a host directory in directory order: what is left, and the
  date directories that are not expired.
\<close>

fun prune_expired ::
    "(rec_dir \<Rightarrow> rec_dir option) \<Rightarrow> string \<Rightarrow> rec_dir list \<Rightarrow> rec_dir list \<Rightarrow> rec_dir list \<times> rec_dir list" where
  "prune_expired removal cutoff [] ds = (ds, [])"
| "prune_expired removal cutoff (d # entries) ds =
     (if is_date_name (rd_name d) \<and> rd_is_dir d then
        if rd_name d < cutoff then prune_expired removal cutoff entries (fst (remove_dir removal d ds))
        else let (ds, rest) = prune_expired removal cutoff entries ds in (ds, d # rest)
      else prune_expired removal cutoff entries ds)"

fun prune_oversize :: "(rec_dir \<Rightarrow> rec_dir option) \<Rightarrow> nat \<Rightarrow> nat \<Rightarrow> rec_dir list \<Rightarrow> rec_dir list \<Rightarrow> rec_dir list" where
  "prune_oversize removal max_bytes tot [] ds = ds"
| "prune_oversize removal max_bytes tot (d # dates) ds =
     (if tot \<le> max_bytes then ds
      else
        let size = size_of_name (rd_name d) ds;
            (ds, ok) = remove_dir removal d ds
        in prune_oversize removal max_bytes (if ok then tot - size else tot) dates ds)"

definition cleanup_host_dir :: "(rec_dir \<Rightarrow> rec_dir option) \<Rightarrow> string \<Rightarrow> nat \<Rightarrow> rec_dir list \<Rightarrow> rec_dir list" where
  "cleanup_host_dir removal cutoff max_size_mb ds =
     (let (ds', dates) = prune_expired removal cutoff ds ds;
          max_bytes = min (max_size_mb * (1024 * 1024)) (2 ^ 64 - 1)
      in prune_oversize removal max_bytes (total_recording_size ds') (sort_key rd_name dates) ds')"

record host_dir =
  hd_name :: string
  hd_is_dir :: bool
  hd_entries :: "rec_dir list"

definition cleanup_local_recordings ::
    "(host_dir \<Rightarrow> rec_dir \<Rightarrow> rec_dir option) \<Rightarrow> string \<Rightarrow> nat \<Rightarrow> host_dir list \<Rightarrow> host_dir list" where
  "cleanup_local_recordings removal cutoff max_size_mb hs =
     map (\<lambda>h. if hd_is_dir h then h\<lparr>hd_entries := cleanup_host_dir (removal h) cutoff max_size_mb (hd_entries h)\<rparr> else h) hs"

lemma prune_oversize_cleanup:
  "prune_oversize removal mx cur dates (cs_dirs s) = cs_dirs (cleanup_oversize removal mx cur dates s)"
  by (induction removal mx cur dates s rule: cleanup_oversize.induct) (auto simp: Let_def split: prod.split)

lemma prune_expired_ok:
  "prune_expired (\<lambda>_. None) cutoff entries ds =
     (let dates = filter (\<lambda>d. is_date_name (rd_name d) \<and> rd_is_dir d) entries
      in (without (filter (\<lambda>d. rd_name d < cutoff) dates) ds, filter (\<lambda>d. \<not> rd_name d < cutoff) dates))"
  by (induction entries arbitrary: ds) (simp_all add: remove_dir_def without_Cons Let_def)

lemma without_cong: "set xs = set ys \<Longrightarrow> without xs ds = without ys ds"
  by (simp add: without_def)

text \<open>
  The server prunes each host's recordings exactly as a bridge prunes its own: when the removals
  succeed and the limit in bytes fits into 64 bits, what is left of a host directory after the
  server's pass, which walks the directory once in its own order, is what is left after the bridge's
  clean-up, which sorts first. Entries of the local store that are no directories are kept.
\<close>

theorem cleanup_local_agrees:
  assumes "max_size_mb * 1024 * 1024 < 2 ^ 64"
  shows "cleanup_local_recordings (\<lambda>_ _. None) cutoff max_size_mb hs =
    map (\<lambda>h. if hd_is_dir h then h\<lparr>hd_entries := cs_dirs (cleanup_recordings (\<lambda>_. None) cutoff max_size_mb (hd_entries h))\<rparr> else h) hs"
proof -
  have "cleanup_host_dir (\<lambda>_. None) cutoff max_size_mb ds = cs_dirs (cleanup_recordings (\<lambda>_. None) cutoff max_size_mb ds)" for ds
  proof -
    let ?dates = "filter (\<lambda>d. is_date_name (rd_name d) \<and> rd_is_dir d) ds"
    have "sort_key rd_name (filter (\<lambda>d. \<not> rd_name d < cutoff) ?dates) = filter (\<lambda>d. \<not> rd_name d < cutoff) (date_dirs ds)"
      by (simp only: date_dirs_def filter_sort)
    moreover have "without (filter (\<lambda>d. rd_name d < cutoff) ?dates) ds = without (filter (\<lambda>d. rd_name d < cutoff) (date_dirs ds)) ds"
      by (rule without_cong) (auto simp: date_dirs_def)
    moreover have "min (max_size_mb * (1024 * 1024)) (2 ^ 64 - 1) = max_size_mb * 1024 * 1024 mod 2 ^ 64" using assms by simp
    ultimately show ?thesis
      by (simp only: cleanup_host_dir_def cleanup_recordings_def prune_expired_ok cleanup_expired_ok Let_def prod.case
          prune_oversize_cleanup [symmetric] cleanup_state.simps)
  qed
  then show ?thesis by (simp add: cleanup_local_recordings_def)
qed

end
