(* ===== verification/Quic_Entry.thy ===== *)
theory Quic_Entry
  imports Http_Entry Recording_Sync
begin

text \<open>
  The QUIC entrance of the server (\<open>clum-mcp/src/quic_server.rs\<close>, \<open>registry.rs\<close>): bridges register
  with their token and stay in the registry while their connection lasts, command line clients open
  a relay to a host for a purpose, and bridges push finished recordings.

  Parameters: the ones of \<open>Http_Entry\<close>, the outcome of a direct connection to a bridge, and JSON
  parsing of the frames.
\<close>

section \<open>Tokens and groups in memory\<close>

record quic_cache =
  qc_tokens :: "string \<rightharpoonup> string"
  qc_groups :: "string \<rightharpoonup> string"

text \<open>
  \<open>opened\<close> tells whether the database opens, \<open>db_tokens\<close> is the result of its query for the tokens
  (\<open>None\<close> when it fails) and \<open>metas\<close> the metadata it returns.
\<close>

definition group_map :: "host_meta list \<Rightarrow> (string \<rightharpoonup> string)" where
  "group_map metas = foldl (\<lambda>m h. if hm_group h \<noteq> [] then m(hm_hostname h \<mapsto> hm_group h) else m) Map.empty metas"

definition refresh_bridge_state ::
    "bool \<Rightarrow> (string \<rightharpoonup> string) option \<Rightarrow> host_meta list \<Rightarrow> (string \<rightharpoonup> string) \<Rightarrow> quic_cache \<Rightarrow> quic_cache" where
  "refresh_bridge_state opened db_tokens metas static_tokens qc =
     (if \<not> opened then qc
      else \<lparr>qc_tokens = (case db_tokens of Some m \<Rightarrow> m ++ static_tokens | None \<Rightarrow> qc_tokens qc), qc_groups = group_map metas\<rparr>)"

section \<open>Registration of bridges\<close>

text \<open>The flds of a registered connection that later code reads; \<open>'c\<close> is the connection.\<close>

record 'c bridge_conn =
  bc_conn :: 'c
  bc_hostname :: string
  bc_capabilities :: "string list"
  bc_version :: string
  bc_machine_id :: string
  bc_os_info :: string
  bc_registered_at :: nat
  bc_last_heartbeat :: nat

type_synonym 'c registry = "string \<rightharpoonup> 'c bridge_conn"

definition reg_register :: "'c bridge_conn \<Rightarrow> 'c registry \<Rightarrow> string + 'c registry" where
  "reg_register c reg =
     (if reg (bc_hostname c) \<noteq> None then Inl (''hostname '' @ quoted (bc_hostname c) @ '' already registered'')
      else Inr (reg(bc_hostname c \<mapsto> c)))"

definition reg_unregister :: "string \<Rightarrow> 'c registry \<Rightarrow> 'c registry" where
  "reg_unregister hostname reg = reg(hostname := None)"

definition update_heartbeat :: "nat \<Rightarrow> string \<Rightarrow> 'c registry \<Rightarrow> 'c registry" where
  "update_heartbeat now hostname reg =
     (case reg hostname of Some c \<Rightarrow> reg(hostname \<mapsto> c\<lparr>bc_last_heartbeat := now\<rparr>) | None \<Rightarrow> reg)"

text \<open>Online as \<open>list\<close> reports it: the connection is open and the last heartbeat is under 30 seconds old.\<close>

definition bridge_online :: "nat \<Rightarrow> ('c \<Rightarrow> bool) \<Rightarrow> 'c bridge_conn \<Rightarrow> bool" where
  "bridge_online now is_open c \<longleftrightarrow> is_open (bc_conn c) \<and> now - bc_last_heartbeat c < 30000"

definition json_str_or :: "string \<Rightarrow> json \<Rightarrow> string \<Rightarrow> string" where
  "json_str_or dflt v k = (case jget_str v k of Some s \<Rightarrow> s | None \<Rightarrow> dflt)"

datatype reg_outcome = RegRefused | RegDuplicate | Registered string

text \<open>The frames that are sent, the registry, and how the registration ends.\<close>

definition handle_bridge_registration ::
    "(string \<Rightarrow> string) \<Rightarrow> (string \<rightharpoonup> string) \<Rightarrow> string \<Rightarrow> string \<Rightarrow> nat \<Rightarrow> 'c \<Rightarrow> json \<Rightarrow> 'c registry
     \<Rightarrow> json list \<times> 'c registry \<times> reg_outcome" where
  "handle_bridge_registration sha tokens pubkey key_id now conn reg_msg reg =
     (case tokens (sha (json_str_or [] reg_msg ''token'')) of
        None \<Rightarrow>
          ([JObj [(''error'', JStr ''invalid token''), (''ok'', JBool False), (''type'', JStr ''register_ack'')]], reg, RegRefused)
      | Some hostname \<Rightarrow>
          (let ack = JObj [(''hostname'', JStr hostname), (''ok'', JBool True), (''recording_key_id'', JStr key_id),
                           (''recording_pubkey'', JStr pubkey), (''type'', JStr ''register_ack'')];
               c = \<lparr>bc_conn = conn, bc_hostname = hostname,
                    bc_capabilities = (case jget_strs reg_msg ''capabilities'' of Some cs \<Rightarrow> cs | None \<Rightarrow> []),
                    bc_version = json_str_or ''unknown'' reg_msg ''version'', bc_machine_id = json_str_or [] reg_msg ''machine_id'',
                    bc_os_info = json_str_or [] reg_msg ''os_info'', bc_registered_at = now, bc_last_heartbeat = now\<rparr>
           in case reg_register c reg of
                Inl _ \<Rightarrow> ([ack], reg, RegDuplicate)
              | Inr reg \<Rightarrow> ([ack], reg, Registered hostname)))"

text \<open>
  The server with its connections. A registered connection is served by a task of its own, which
  takes the hostname out of the registry when the connection ends; a refused or duplicate one never
  gets that far.
\<close>

record 'c quic_system =
  qy_registry :: "'c registry"
  qy_serving :: "('c \<times> string) list"
  qy_cache :: quic_cache
  qy_now :: nat

inductive quic_step :: "(string \<Rightarrow> string) \<Rightarrow> (string \<rightharpoonup> string) \<Rightarrow> 'c quic_system \<Rightarrow> 'c quic_system \<Rightarrow> bool"
  for sha :: "string \<Rightarrow> string" and static_tokens :: "string \<rightharpoonup> string" where
  connect: "c \<notin> fst ` set (qy_serving s) \<Longrightarrow>
    handle_bridge_registration sha (qc_tokens (qy_cache s)) pubkey key_id (qy_now s) c msg (qy_registry s) = (sent, reg, outcome) \<Longrightarrow>
    quic_step sha static_tokens s
      (s\<lparr>qy_registry := reg,
         qy_serving := (case outcome of Registered h \<Rightarrow> (c, h) # qy_serving s | _ \<Rightarrow> qy_serving s)\<rparr>)"
| disconnect: "(c, h) \<in> set (qy_serving s) \<Longrightarrow>
    quic_step sha static_tokens s (s\<lparr>qy_registry := reg_unregister h (qy_registry s), qy_serving := remove1 (c, h) (qy_serving s)\<rparr>)"
| heartbeat: "(c, h) \<in> set (qy_serving s) \<Longrightarrow>
    quic_step sha static_tokens s (s\<lparr>qy_registry := update_heartbeat (qy_now s) h (qy_registry s)\<rparr>)"
| refresh: "quic_step sha static_tokens s (s\<lparr>qy_cache := refresh_bridge_state opened db_tokens metas static_tokens (qy_cache s)\<rparr>)"
| tick: "quic_step sha static_tokens s (s\<lparr>qy_now := qy_now s + n\<rparr>)"

inductive quic_reachable :: "(string \<Rightarrow> string) \<Rightarrow> (string \<rightharpoonup> string) \<Rightarrow> 'c quic_system \<Rightarrow> bool"
  for sha :: "string \<Rightarrow> string" and static_tokens :: "string \<rightharpoonup> string" where
  start: "qy_registry s = Map.empty \<Longrightarrow> qy_serving s = [] \<Longrightarrow> quic_reachable sha static_tokens s"
| step: "quic_reachable sha static_tokens s \<Longrightarrow> quic_step sha static_tokens s t \<Longrightarrow> quic_reachable sha static_tokens t"

text \<open>The registry holds exactly the connections that are being served, one per hostname.\<close>

definition registry_inv :: "'c quic_system \<Rightarrow> bool" where
  "registry_inv s \<longleftrightarrow> distinct (map fst (qy_serving s)) \<and> distinct (map snd (qy_serving s))
     \<and> (\<forall>h. case qy_registry s h of
          Some c \<Rightarrow> bc_hostname c = h \<and> (bc_conn c, h) \<in> set (qy_serving s)
        | None \<Rightarrow> h \<notin> snd ` set (qy_serving s))"


lemma registry_invD:
  assumes "registry_inv s"
  shows "distinct (map fst (qy_serving s))" "distinct (map snd (qy_serving s))"
    and "(qy_registry s h = None) \<longleftrightarrow> h \<notin> snd ` set (qy_serving s)"
    and "qy_registry s h = Some c \<Longrightarrow> bc_hostname c = h \<and> (bc_conn c, h) \<in> set (qy_serving s)"
proof -
  from assms have reg: "case qy_registry s h of Some c \<Rightarrow> bc_hostname c = h \<and> (bc_conn c, h) \<in> set (qy_serving s)
      | None \<Rightarrow> h \<notin> snd ` set (qy_serving s)" unfolding registry_inv_def by blast
  show "distinct (map fst (qy_serving s))" "distinct (map snd (qy_serving s))" using assms by (simp_all add: registry_inv_def)
  show "(qy_registry s h = None) \<longleftrightarrow> h \<notin> snd ` set (qy_serving s)" using reg by (force split: option.splits)
  show "qy_registry s h = Some c \<Longrightarrow> bc_hostname c = h \<and> (bc_conn c, h) \<in> set (qy_serving s)" using reg by simp
qed

lemma registry_inv_frame: "qy_registry t = qy_registry s \<Longrightarrow> qy_serving t = qy_serving s \<Longrightarrow> registry_inv t = registry_inv s"
  by (simp add: registry_inv_def split: option.split)

lemma registration_cases:
  assumes "handle_bridge_registration sha tokens pubkey key_id now conn msg reg = (sent, reg', outcome)"
  obtains (refused) "reg' = reg" "outcome = RegRefused \<or> outcome = RegDuplicate"
  | (registered) h c where "tokens (sha (json_str_or [] msg ''token'')) = Some h" "reg h = None" "reg' = reg(h \<mapsto> c)"
      "bc_hostname c = h" "bc_conn c = conn" "outcome = Registered h"
proof (cases "tokens (sha (json_str_or [] msg ''token''))")
  case None
  with assms show thesis by (intro refused) (auto simp: handle_bridge_registration_def)
next
  case (Some h)
  show thesis
  proof (cases "reg h")
    case None
    with assms Some have "reg' = reg(h \<mapsto> (the (reg' h))) \<and> bc_hostname (the (reg' h)) = h \<and> bc_conn (the (reg' h)) = conn \<and> outcome = Registered h"
      by (auto simp: handle_bridge_registration_def reg_register_def Let_def)
    with registered [OF Some None] show thesis by blast
  next
    case (Some c)
    with assms \<open>tokens _ = Some h\<close> show thesis by (intro refused) (auto simp: handle_bridge_registration_def reg_register_def Let_def)
  qed
qed

lemma serving_inject:
  "distinct (map fst xs) \<Longrightarrow> distinct (map snd xs) \<Longrightarrow> (c, h) \<in> set xs \<Longrightarrow> (c', h') \<in> set xs \<Longrightarrow> c = c' \<longleftrightarrow> h = h'"
  by (force simp: distinct_map inj_on_def)

lemma registry_inv_step:
  assumes "registry_inv s" and "quic_step sha static_tokens s t"
  shows "registry_inv t"
  using assms(2)
proof cases
  case (connect c pubkey key_id msg sent reg outcome)
  from connect(3) show ?thesis
  proof (cases rule: registration_cases)
    case refused
    then have "t = s" using connect(1) by auto
    with assms(1) show ?thesis by simp
  next
    case (registered h bc)
    have t: "qy_registry t = (qy_registry s)(h \<mapsto> bc)" "qy_serving t = (c, h) # qy_serving s"
      using connect(1) registered by simp_all
    have "h \<notin> snd ` set (qy_serving s)" using registered(2) registry_invD(3) [OF assms(1)] by blast
    with connect(2) registry_invD [OF assms(1)] t registered show ?thesis
      by (auto simp: registry_inv_def split: option.split)
  qed
next
  case (disconnect c h)
  note inv = registry_invD [OF assms(1)]
  have dist: "distinct (qy_serving s)" using inv(1) by (simp add: distinct_map)
  have t: "qy_registry t = (qy_registry s)(h := None)" "set (qy_serving t) = set (qy_serving s) - {(c, h)}"
    using disconnect(1) dist by (simp_all add: reg_unregister_def)
  have "distinct (map fst (qy_serving t))" "distinct (map snd (qy_serving t))"
    using inv(1,2) disconnect(1) dist by (auto simp: distinct_map inj_on_def)
  moreover have only: "(c', h) \<in> set (qy_serving s) \<Longrightarrow> c' = c" for c'
    using serving_inject [OF inv(1,2) disconnect(2)] by blast
  have "case qy_registry t k of Some bc \<Rightarrow> bc_hostname bc = k \<and> (bc_conn bc, k) \<in> set (qy_serving t) | None \<Rightarrow> k \<notin> snd ` set (qy_serving t)" for k
  proof (cases "k = h")
    case True
    then show ?thesis using t only by auto
  next
    case False
    then show ?thesis using t inv(3) [of k] inv(4) [of k] by (cases "qy_registry s k") auto
  qed
  ultimately show ?thesis by (simp add: registry_inv_def)
next
  case (heartbeat c h)
  then show ?thesis using assms(1) registry_invD [OF assms(1)]
    by (auto simp: registry_inv_def update_heartbeat_def split: option.splits)
qed (use assms(1) registry_inv_frame [of t s] in simp_all)

lemma quic_reachable_inv: "quic_reachable sha static_tokens s \<Longrightarrow> registry_inv s"
proof (induction rule: quic_reachable.induct)
  case (start s)
  then show ?case by (simp add: registry_inv_def)
qed (rule registry_inv_step)


text \<open>
  C12. The registry holds one connection per host and the right one: in every state the server reaches,
  each entry is that of a connection being served under that hostname, every connection being served
  has its entry, a connection that ends takes its own entry out and leaves all others as they are,
  and a connection enters only with a token the server holds in memory for that hostname.
\<close>

theorem registry_serves_one:
  assumes "quic_reachable sha static_tokens s"
  shows "list_all (\<lambda>(c, h). case qy_registry s h of Some bc \<Rightarrow> bc_conn bc = c \<and> bc_hostname bc = h | None \<Rightarrow> False) (qy_serving s)
    \<and> dom (qy_registry s) = snd ` set (qy_serving s)
    \<and> (\<forall>c h. (c, h) \<in> set (qy_serving s) \<longrightarrow>
         (\<forall>k bc. reg_unregister h (qy_registry s) k = Some bc \<longleftrightarrow> qy_registry s k = Some bc \<and> bc_conn bc \<noteq> c))
    \<and> (\<forall>c pubkey key_id msg sent reg h.
         handle_bridge_registration sha (qc_tokens (qy_cache s)) pubkey key_id (qy_now s) c msg (qy_registry s) = (sent, reg, Registered h) \<longrightarrow>
           qc_tokens (qy_cache s) (sha (json_str_or [] msg ''token'')) = Some h \<and> qy_registry s h = None)"
proof -
  note inv = registry_invD [OF quic_reachable_inv [OF assms]]
  have own: "\<exists>bc. qy_registry s h = Some bc \<and> bc_conn bc = c \<and> bc_hostname bc = h" if "(c, h) \<in> set (qy_serving s)" for c h
  proof -
    from that have "qy_registry s h \<noteq> None" using inv(3) by force
    then obtain bc where bc: "qy_registry s h = Some bc" by blast
    with inv(4) serving_inject [OF inv(1,2) that] show ?thesis by blast
  qed
  have entry: "reg_unregister h (qy_registry s) k = Some bc \<longleftrightarrow> qy_registry s k = Some bc \<and> bc_conn bc \<noteq> c"
    if "(c, h) \<in> set (qy_serving s)" for c h k bc
  proof (cases "k = h")
    case True
    with own [OF that] show ?thesis by (auto simp: reg_unregister_def)
  next
    case False
    have "bc_conn bc \<noteq> c" if "qy_registry s k = Some bc"
      using inv(4) [OF that] serving_inject [OF inv(1,2) \<open>(c, h) \<in> _\<close>] False by blast
    with False show ?thesis by (auto simp: reg_unregister_def)
  qed
  have "dom (qy_registry s) = snd ` set (qy_serving s)" by (rule set_eqI) (simp add: domIff inv(3))
  moreover have "list_all (\<lambda>(c, h). case qy_registry s h of Some bc \<Rightarrow> bc_conn bc = c \<and> bc_hostname bc = h | None \<Rightarrow> False) (qy_serving s)"
    using own by (fastforce simp: list_all_iff)
  ultimately show ?thesis using entry by (auto elim: registration_cases)
qed

section \<open>Relays\<close>

definition purpose_capabilities :: "string \<Rightarrow> capability list option" where
  "purpose_capabilities purpose =
     (if purpose = ''term'' then Some [SessionAttach, TerminalInput, SessionRead]
      else if purpose = ''forward'' then Some [ForwardCreate]
      else if purpose = ''push'' then Some [FileWrite]
      else if purpose = ''pull'' then Some [FileRead]
      else if purpose = ''list'' then Some [HostRead]
      else if purpose = ''replay'' then Some [RecordingRead]
      else None)"

definition relay_host_group :: "(string \<rightharpoonup> string) \<Rightarrow> router \<Rightarrow> string \<Rightarrow> string option" where
  "relay_host_group groups router host =
     (case Option.bind (groups host) nonempty of
        Some g \<Rightarrow> Some g
      | None \<Rightarrow> Option.bind (map_option hc_group (router host)) nonempty)"

definition relay_resource :: "http_env \<Rightarrow> (string \<rightharpoonup> string) \<Rightarrow> string \<Rightarrow> host_resource" where
  "relay_resource env groups host =
     (let labels = (case find (\<lambda>m. hm_hostname m = host) (he_metas env) of Some m \<Rightarrow> hm_labels m | None \<Rightarrow> [])
      in \<lparr>h_name = host, h_group = relay_host_group groups (he_router env) host,
          h_labels = (if labels = [] then (case he_router env host of Some h \<Rightarrow> hc_labels h | None \<Rightarrow> []) else labels)\<rparr>)"

text \<open>The loop over the capabilities of the purpose: the error of the first that is not granted outright.\<close>

fun relay_check :: "policy_oracle \<Rightarrow> string \<Rightarrow> string \<Rightarrow> host_resource \<Rightarrow> capability list \<Rightarrow> string option" where
  "relay_check chk purpose host resource [] = None"
| "relay_check chk purpose host resource (c # cs) =
     (let d = chk c (Some resource)
      in if \<not> pd_allowed d \<or> pd_require_approval d then
           Some (if pd_require_approval d
             then ''forbidden: purpose '' @ quoted purpose @ '' requires capability '' @ quoted (as_str c)
                  @ '' which is configured to require human approval; use the MCP tools instead of the CLI relay''
             else ''forbidden: purpose '' @ quoted purpose @ '' requires capability '' @ quoted (as_str c)
                  @ ''; host '' @ quoted host @ '' is not in your group or role selector'')
         else relay_check chk purpose host resource cs)"

definition agent_nack :: "string \<Rightarrow> json" where
  "agent_nack e = JObj [(''error'', JStr e), (''ok'', JBool False), (''type'', JStr ''agent_ack'')]"

definition agent_ack :: "string \<Rightarrow> json" where
  "agent_ack host = JObj [(''host'', JStr host), (''ok'', JBool True), (''type'', JStr ''agent_ack'')]"

definition BOOTSTRAP_REFUSAL :: string where
  "BOOTSTRAP_REFUSAL = ''bootstrap mode: server has no API keys '' @ [CHR 0xE2, CHR 0x80, CHR 0x94]
     @ '' non-loopback clients are rejected until '' @ quoted ''clum-mcp agent add'' @ '' is run on the server host''"

text \<open>The first part: who the caller is. \<open>None\<close> for the store stands for a server started without one.\<close>

definition agent_identify :: "http_env \<Rightarrow> ip_addr \<Rightarrow> json \<Rightarrow> key_store option \<Rightarrow> (string + agent_identity option) \<times> key_store option" where
  "agent_identify env remote msg store =
     (let store_empty = (case store of Some st \<Rightarrow> key_store_is_empty (he_query_fails env) st | None \<Rightarrow> True)
      in if \<not> store_empty then
           (case store of
              Some st \<Rightarrow>
                (case validate_key (he_sha env) (he_now env) (json_str_or [] msg ''api_key'') st of
                   (Some i, st) \<Rightarrow> (Inr (Some i), Some st)
                 | (None, st) \<Rightarrow> (Inl ''invalid api key'', Some st))
            | None \<Rightarrow> (Inl [], None))
         else if \<not> is_loopback_socket remote then (Inl BOOTSTRAP_REFUSAL, store)
         else (Inr None, store))"

record relay_audit =
  ra_agent :: string
  ra_host :: string
  ra_purpose :: string

record relay_state =
  rl_last_agents :: "string \<rightharpoonup> string"
  rl_audit :: "relay_audit list"

text \<open>How a request ends: an answer that refuses it, a failure without answer, or a relay to a connection.\<close>

datatype 'c relay_outcome = RelayRefused json | RelayFailed string | RelayOpen json 'c

definition relay_target :: "http_env \<Rightarrow> (string \<Rightarrow> string \<Rightarrow> 'c option) \<Rightarrow> 'c registry \<Rightarrow> string \<Rightarrow> 'c relay_outcome + 'c" where
  "relay_target env direct reg host =
     (case reg host of
        Some b \<Rightarrow> Inr (bc_conn b)
      | None \<Rightarrow>
          (case he_router env host of
             None \<Rightarrow> Inl (RelayRefused (agent_nack (''host '' @ quoted host @ '' not found'')))
           | Some h \<Rightarrow>
               (case hc_bridge_addr h of
                  None \<Rightarrow> Inl (RelayFailed (''host '' @ quoted host @ '': bridge_addr not configured''))
                | Some addr \<Rightarrow>
                    (case hc_bridge_token h of
                       None \<Rightarrow> Inl (RelayFailed (''host '' @ quoted host @ '': bridge_token not configured''))
                     | Some tok \<Rightarrow>
                         (case direct addr tok of
                            None \<Rightarrow> Inl (RelayFailed (''direct connect to '' @ host @ '':'' @ addr @ '' failed'')) | Some c \<Rightarrow> Inr c)))))"

definition handle_agent_connection ::
    "http_env \<Rightarrow> (string \<rightharpoonup> string) \<Rightarrow> (string \<Rightarrow> string \<Rightarrow> 'c option) \<Rightarrow> 'c registry \<Rightarrow> ip_addr \<Rightarrow> json
     \<Rightarrow> key_store option \<Rightarrow> relay_state \<Rightarrow> 'c relay_outcome \<times> key_store option \<times> relay_state" where
  "handle_agent_connection env groups direct reg remote msg store rl =
     (case agent_identify env remote msg store of
        (Inl e, store) \<Rightarrow> (RelayRefused (agent_nack e), store, rl)
      | (Inr idn, store) \<Rightarrow>
          (let agent_name = (case idn of Some i \<Rightarrow> ai_name i | None \<Rightarrow> ''unknown'');
               host = json_str_or [] msg ''host'';
               purpose = json_str_or ''unknown'' msg ''purpose'';
               open_relay =
                 (case relay_target env direct reg host of
                    Inl out \<Rightarrow> (out, store, rl)
                  | Inr c \<Rightarrow>
                      (RelayOpen (agent_ack host) c, store,
                       rl\<lparr>rl_last_agents := (rl_last_agents rl)(host \<mapsto> agent_name),
                          rl_audit := rl_audit rl @ [\<lparr>ra_agent = agent_name, ra_host = host, ra_purpose = purpose\<rparr>]\<rparr>))
           in if host = [] then (RelayRefused (agent_nack ''missing host''), store, rl)
              else case idn of
                None \<Rightarrow> open_relay
              | Some i \<Rightarrow>
                  (case purpose_capabilities purpose of
                     None \<Rightarrow> (RelayRefused (agent_nack (''unsupported relay purpose '' @ quoted purpose)), store, rl)
                   | Some caps \<Rightarrow>
                       (case relay_check (he_check env (ai_name i) (ai_group i)) purpose host (relay_resource env groups host) caps of
                          Some e \<Rightarrow> (RelayRefused (agent_nack e), store, rl)
                        | None \<Rightarrow> open_relay))))"


lemma relay_check_None:
  "relay_check chk purpose host resource cs = None \<longleftrightarrow>
     list_all (\<lambda>c. pd_allowed (chk c (Some resource)) \<and> \<not> pd_require_approval (chk c (Some resource))) cs"
  by (induction cs) (auto simp: Let_def)

text \<open>The admission of a caller that presents a key, or none, in the form of an entrance.\<close>

definition agent_fields :: "string option \<Rightarrow> (string \<times> json) list \<Rightarrow> (string \<times> json) list" where
  "agent_fields cred flds =
     (case cred of Some t \<Rightarrow> [(''api_key'', JStr t)] | None \<Rightarrow> []) @ filter (\<lambda>(k, _). k \<noteq> ''api_key'') flds"

lemma agent_fields_key: "json_str_or [] (JObj (agent_fields cred flds)) ''api_key'' = (case cred of Some t \<Rightarrow> t | None \<Rightarrow> [])"
proof -
  have "map_of (filter (\<lambda>(k, _). k \<noteq> ''api_key'') flds) ''api_key'' = None" by (induction flds) auto
  then show ?thesis by (cases cred) (simp_all add: agent_fields_def json_str_or_def jget_str_def)
qed

definition quic_admit ::
    "http_env \<Rightarrow> (string \<times> json) list \<Rightarrow> (string \<Rightarrow> string) \<Rightarrow> nat \<Rightarrow> bool \<Rightarrow> ip_addr option \<Rightarrow> string option \<Rightarrow> key_store \<Rightarrow> agent_identity option option" where
  "quic_admit env flds sha now fails peer cred st =
     (case peer of
        None \<Rightarrow> None
      | Some a \<Rightarrow>
          (case fst (agent_identify (env\<lparr>he_sha := sha, he_now := now, he_query_fails := fails\<rparr>) a
                 (JObj (agent_fields cred flds)) (Some st)) of
             Inr idn \<Rightarrow> Some idn | Inl _ \<Rightarrow> None))"

lemma agent_identify_cases:
  assumes "agent_identify env remote msg store = (Inr idn, store')"
  obtains (keyless) "idn = None" "is_loopback_socket remote" "case store of Some st \<Rightarrow> key_store_is_empty (he_query_fails env) st | None \<Rightarrow> True" "store' = store"
  | (key) st i st' where "store = Some st" "idn = Some i" "store' = Some st'" "\<not> key_store_is_empty (he_query_fails env) st"
      "validate_key (he_sha env) (he_now env) (json_str_or [] msg ''api_key'') st = (Some i, st')"
  using assms by (auto simp: agent_identify_def Let_def split: if_splits option.splits prod.splits)

text \<open>What is left of the request once the caller is known.\<close>

lemma handle_agent_open:
  assumes "handle_agent_connection env groups direct reg remote msg store rl = (RelayOpen ack c, store', rl')"
  obtains idn where "agent_identify env remote msg store = (Inr idn, store')"
    "json_str_or [] msg ''host'' \<noteq> []"
    "relay_target env direct reg (json_str_or [] msg ''host'') = Inr c"
    "ack = agent_ack (json_str_or [] msg ''host'')"
    "rl' = rl\<lparr>rl_last_agents := (rl_last_agents rl)(json_str_or [] msg ''host'' \<mapsto> (case idn of Some i \<Rightarrow> ai_name i | None \<Rightarrow> ''unknown'')),
        rl_audit := rl_audit rl @ [\<lparr>ra_agent = (case idn of Some i \<Rightarrow> ai_name i | None \<Rightarrow> ''unknown''),
          ra_host = json_str_or [] msg ''host'', ra_purpose = json_str_or ''unknown'' msg ''purpose''\<rparr>]\<rparr>"
    "\<And>i. idn = Some i \<Longrightarrow> \<exists>caps. purpose_capabilities (json_str_or ''unknown'' msg ''purpose'') = Some caps
       \<and> list_all (\<lambda>k. pd_allowed (he_check env (ai_name i) (ai_group i) k (Some (relay_resource env groups (json_str_or [] msg ''host''))))
            \<and> \<not> pd_require_approval (he_check env (ai_name i) (ai_group i) k (Some (relay_resource env groups (json_str_or [] msg ''host''))))) caps"
proof -
  obtain res st where ai: "agent_identify env remote msg store = (res, st)" by (cases "agent_identify env remote msg store")
  with assms obtain idn where idn: "res = Inr idn"
    by (cases res) (auto simp: handle_agent_connection_def)
  let ?host = "json_str_or [] msg ''host''"
  show thesis
  proof (cases "relay_target env direct reg ?host")
    case (Inl out)
    then have "\<not> (\<exists>ack c. out = RelayOpen ack c)" by (auto simp: relay_target_def split: option.splits)
    with assms ai idn Inl show thesis
      by (auto simp: handle_agent_connection_def Let_def split: if_splits option.splits)
  next
    case (Inr c')
    show thesis
      by (rule that [of idn])
         (use assms ai idn Inr in \<open>auto simp: handle_agent_connection_def Let_def relay_check_None split: if_splits option.splits\<close>)
  qed
qed

text \<open>
  C10. A relay is opened only for a caller that may use it: when a client gets a relay, it has named a
  host, and either its key is valid, its purpose is one of the six that exist, and the policy grants
  its owner every capability of the purpose on that host without demanding approval; or the client is
  on the machine itself and there is no key store, the key table is empty, or the query of the table
  fails. The relay leads to the registered bridge of that host, or to the configured one when none
  is registered, and the request adds exactly one audit record with the caller, the host and the
  purpose.
\<close>

theorem relay_authorized:
  assumes "handle_agent_connection env groups direct reg remote msg store rl = (RelayOpen ack c, store', rl')"
  defines "host \<equiv> json_str_or [] msg ''host''" and "purpose \<equiv> json_str_or ''unknown'' msg ''purpose''"
  shows "host \<noteq> [] \<and> relay_target env direct reg host = Inr c
    \<and> (\<exists>who. rl_audit rl' = rl_audit rl @ [\<lparr>ra_agent = who, ra_host = host, ra_purpose = purpose\<rparr>]
        \<and> rl_last_agents rl' = (rl_last_agents rl)(host \<mapsto> who)
        \<and> ((is_loopback_socket remote \<and> (store = None \<or> he_query_fails env \<or> (\<exists>st. store = Some st \<and> ks_rows st = [])) \<and> who = ''unknown'')
          \<or> (\<exists>st i caps. store = Some st \<and> who = ai_name i
              \<and> fst (validate_key (he_sha env) (he_now env) (json_str_or [] msg ''api_key'') st) = Some i
              \<and> purpose_capabilities purpose = Some caps
              \<and> list_all (\<lambda>k. pd_allowed (he_check env who (ai_group i) k (Some (relay_resource env groups host)))
                   \<and> \<not> pd_require_approval (he_check env who (ai_group i) k (Some (relay_resource env groups host)))) caps)))"
proof -
  from assms(1) obtain idn where idn: "agent_identify env remote msg store = (Inr idn, store')"
      "host \<noteq> []" "relay_target env direct reg host = Inr c"
      "rl' = rl\<lparr>rl_last_agents := (rl_last_agents rl)(host \<mapsto> (case idn of Some i \<Rightarrow> ai_name i | None \<Rightarrow> ''unknown'')),
          rl_audit := rl_audit rl @ [\<lparr>ra_agent = (case idn of Some i \<Rightarrow> ai_name i | None \<Rightarrow> ''unknown''), ra_host = host, ra_purpose = purpose\<rparr>]\<rparr>"
      "\<And>i. idn = Some i \<Longrightarrow> \<exists>caps. purpose_capabilities purpose = Some caps
         \<and> list_all (\<lambda>k. pd_allowed (he_check env (ai_name i) (ai_group i) k (Some (relay_resource env groups host)))
              \<and> \<not> pd_require_approval (he_check env (ai_name i) (ai_group i) k (Some (relay_resource env groups host)))) caps"
    unfolding host_def purpose_def by (rule handle_agent_open) blast
  from idn(1) show ?thesis
  proof (cases rule: agent_identify_cases)
    case keyless
    then have "store = None \<or> he_query_fails env \<or> (\<exists>st. store = Some st \<and> ks_rows st = [])"
      by (auto simp: key_store_is_empty_def split: option.splits)
    with keyless idn show ?thesis by simp
  next
    case (key st i st')
    with idn show ?thesis by auto
  qed
qed

interpretation quic: entrance "quic_admit env flds" for env flds
proof
  fix sha now fails peer cred st
  let ?ai = "\<lambda>a. agent_identify (env\<lparr>he_sha := sha, he_now := now, he_query_fails := fails\<rparr>) a (JObj (agent_fields cred flds)) (Some st)"
  have admit: "\<exists>a st'. peer = Some a \<and> ?ai a = (Inr idn, st')" if "quic_admit env flds sha now fails peer cred st = Some idn" for idn
    using that by (cases peer; cases "?ai (the peer)") (auto simp: quic_admit_def split: sum.splits)
  show "key_store_is_empty fails st \<and> (\<exists>a. peer = Some a \<and> is_loopback_socket a)" if "quic_admit env flds sha now fails peer cred st = Some None"
    using admit [OF that] by (auto elim: agent_identify_cases)
  show "fst (validate_key sha now (case cred of Some t \<Rightarrow> t | None \<Rightarrow> []) st) = Some i" if "quic_admit env flds sha now fails peer cred st = Some (Some i)" for i
    using admit [OF that] by (auto simp: agent_fields_key elim: agent_identify_cases)
qed


section \<open>Once there is a key\<close>

inductive key_steps :: "(string \<Rightarrow> string) \<Rightarrow> nat \<Rightarrow> key_system \<Rightarrow> key_system \<Rightarrow> bool"
  for sha :: "string \<Rightarrow> string" and delay :: nat where
  none: "key_steps sha delay s s"
| more: "key_steps sha delay s t \<Longrightarrow> key_step sha delay t u \<Longrightarrow> key_steps sha delay s u"

lemma key_step_keeps_rows: "key_step sha delay s t \<Longrightarrow> ks_rows (sys_store s) \<noteq> [] \<Longrightarrow> ks_rows (sys_store t) \<noteq> []"
  by (induction rule: key_step.induct)
     (auto simp: add_key_def rotate_key_def revoke_key_def update_records_def install_def Let_def split: option.splits if_splits)

lemma key_steps_keep_rows: "key_steps sha delay s t \<Longrightarrow> ks_rows (sys_store s) \<noteq> [] \<Longrightarrow> ks_rows (sys_store t) \<noteq> []"
proof (induction rule: key_steps.induct)
  case (more s t u)
  show ?case by (rule key_step_keeps_rows [OF more.hyps(2) more.IH [OF more.prems]])
qed

text \<open>
  C11. The first key ends the time without keys for good: from a state with a key on, whatever keys
  are added, rotated and revoked and whatever requests are served in between, as long as the table
  can be read, an HTTPS request without a bearer token is refused on every path and from every peer,
  the machine itself included, and a caller, with or without a credential, is admitted to the tool
  endpoint or the relay endpoint only as the owner of a record that is filed under the digest of the
  key presented (over QUIC the empty text when there is none) and says it is neither revoked nor
  expired: the record of the table or a cached copy within its lifetime.
\<close>

theorem first_key_ends_bootstrap:
  assumes "ks_rows (sys_store s) \<noteq> []" and "key_steps sha delay s t"
  shows "(\<not> he_query_fails env \<and> bearer_token rq = None \<longrightarrow>
      auth_middleware env rq (sys_store t) = (Rejected 401, sys_store t))
    \<and> (http_admit env rest sha now False peer cred (sys_store t) = Some idn
        \<or> quic_admit env flds sha now False peer cred (sys_store t) = Some idn \<longrightarrow>
       (\<exists>i r k. idn = Some i \<and> k = (case cred of Some k \<Rightarrow> k | None \<Rightarrow> [])
         \<and> k_revoked_at r = None \<and> (\<forall>x. k_expires_at r = Some (At x) \<longrightarrow> now \<le> x)
         \<and> ai_name i = k_name r \<and> ai_group i = k_group r
         \<and> (cached now (sha k) (sys_store t) = Some r \<or> fetch_by_hash (ks_rows (sys_store t)) (sha k) = Some r)))"
proof (intro conjI impI)
  have rows: "ks_rows (sys_store t) \<noteq> []" by (rule key_steps_keep_rows [OF assms(2,1)])
  show "auth_middleware env rq (sys_store t) = (Rejected 401, sys_store t)"
    if "\<not> he_query_fails env \<and> bearer_token rq = None"
    using that rows by (simp add: auth_middleware_def bootstrap_loopback_def key_store_is_empty_def)
  assume adm: "http_admit env rest sha now False peer cred (sys_store t) = Some idn
        \<or> quic_admit env flds sha now False peer cred (sys_store t) = Some idn"
  then obtain i where i: "idn = Some i"
    using http.no_keyless_admission [OF rows] quic.no_keyless_admission [OF rows] by (cases idn) blast+
  let ?k = "case cred of Some k \<Rightarrow> k | None \<Rightarrow> []"
  have "\<exists>r. (cached now (sha ?k) (sys_store t) = Some r \<or> fetch_by_hash (ks_rows (sys_store t)) (sha ?k) = Some r) \<and> check_record now r = Some i"
    using adm
  proof
    assume "http_admit env rest sha now False peer cred (sys_store t) = Some idn"
    from http.admitted_key [OF this [unfolded i]] show ?thesis by metis
  next
    assume "quic_admit env flds sha now False peer cred (sys_store t) = Some idn"
    from quic.admitted_key [OF this [unfolded i]] show ?thesis by metis
  qed
  then obtain r where r: "cached now (sha ?k) (sys_store t) = Some r \<or> fetch_by_hash (ks_rows (sys_store t)) (sha ?k) = Some r"
    "check_record now r = Some i" by blast
  from r(2) have "k_revoked_at r = None \<and> (\<forall>x. k_expires_at r = Some (At x) \<longrightarrow> now \<le> x) \<and> ai_name i = k_name r \<and> ai_group i = k_group r"
    by (auto simp: check_record_def split: if_splits)
  with i r(1) show "\<exists>i r k. idn = Some i \<and> k = ?k
         \<and> k_revoked_at r = None \<and> (\<forall>x. k_expires_at r = Some (At x) \<longrightarrow> now \<le> x)
         \<and> ai_name i = k_name r \<and> ai_group i = k_group r
         \<and> (cached now (sha k) (sys_store t) = Some r \<or> fetch_by_hash (ks_rows (sys_store t)) (sha k) = Some r)" by blast
qed


section \<open>Bridges and the token table\<close>

text \<open>
  After a refresh the server registers exactly the bridges the table accepts, and those of the
  configuration: a token is registered under a hostname only if it is a configured token of that
  hostname or some live row of the table holds it, as its current token or in its grace period.
  A revoked bridge is thus turned away from the next refresh on.
\<close>

lemma refreshed_registration:
  assumes "qc_tokens qc = qc_tokens (refresh_bridge_state True (Some (token_map now rows)) metas static_tokens qc')"
    and "handle_bridge_registration sha (qc_tokens qc) pubkey key_id later c msg reg = (sent, reg', Registered h)"
  shows "static_tokens (sha (json_str_or [] msg ''token'')) = Some h
    \<or> (\<exists>r \<in> set rows. br_hostname r = h \<and> br_revoked_at r = None \<and> accepts_hash now (sha (json_str_or [] msg ''token'')) r)"
  using assms(2)
proof (cases rule: registration_cases)
  case (registered h' bc)
  let ?h = "sha (json_str_or [] msg ''token'')"
  from registered(1,6) assms(1) have "(token_map now rows ++ static_tokens) ?h = Some h" by (simp add: refresh_bridge_state_def)
  then consider "static_tokens ?h = Some h" | "token_map now rows ?h = Some h" by (auto simp: map_add_def split: option.splits)
  then show ?thesis
  proof cases
    case 2
    from token_map_owner [OF this] show ?thesis by (auto simp: accepts_hash_def)
  qed simp
qed simp

lemma group_map_find:
  assumes "distinct (map hm_hostname metas)"
  shows "group_map metas host = Option.bind (map_option hm_group (find (\<lambda>m. hm_hostname m = host) metas)) nonempty"
proof -
  have "foldl (\<lambda>m h. if hm_group h \<noteq> [] then m(hm_hostname h \<mapsto> hm_group h) else m) m metas host =
      (case Option.bind (map_option hm_group (find (\<lambda>m. hm_hostname m = host) metas)) nonempty of Some g \<Rightarrow> Some g | None \<Rightarrow> m host)" for m
    using assms
  proof (induction metas arbitrary: m)
    case (Cons h metas)
    from Cons.prems have "hm_hostname h \<notin> hm_hostname ` set metas" by simp
    then have "find (\<lambda>m. hm_hostname m = hm_hostname h) metas = None" unfolding find_None_iff by (metis imageI)
    with Cons show ?case by (auto simp: nonempty_def split: option.splits)
  qed simp
  from this [of Map.empty] show ?thesis by (simp add: group_map_def split: option.split)
qed

lemma distinct_metas: "bridges_ok (he_bridges env) \<Longrightarrow> distinct (map hm_hostname (he_metas env))"
  by (auto simp: bridges_ok_def he_metas_def get_all_host_meta_def o_def distinct_map inj_on_def)

text \<open>The host a relay is judged by is the one the tool gate judges, when the cached groups are those of the table.\<close>

lemma relay_resource_agrees:
  assumes "distinct (map hm_hostname (he_metas env))"
  shows "relay_resource env (group_map (he_metas env)) host = host_resource_of (he_router env) (he_metas env) host"
proof -
  let ?m = "find (\<lambda>m. hm_hostname m = host) (he_metas env)"
  have "Option.bind (Option.bind (map_option hm_group ?m) nonempty) nonempty = Option.bind (map_option hm_group ?m) nonempty"
    by (cases ?m) (auto simp: nonempty_def)
  then show ?thesis
    by (cases ?m) (auto simp: relay_resource_def relay_host_group_def group_map_find [OF assms] host_resource_of_def nonempty_def Let_def)
qed

text \<open>
  A relay means grants in the tables: when the policy store has loaded its snapshot from
  well-formed tables, the cached groups are those of the enrolled bridges, and a caller whose key is
  valid and whose name has a row gets a relay, then for every capability of the purpose some grant of
  a role bound to the caller covers the host as the tool gate sees it, and no covering grant demands
  approval.
\<close>

theorem relay_backed_by_grants:
  assumes "handle_agent_connection env groups direct reg remote msg (Some st) rl = (RelayOpen ack c, store', rl')"
    and "\<not> key_store_is_empty (he_query_fails env) st"
    and "load_snapshot j db = Inr sn" and "db_wf db" and "he_check env = check_snapshot glob sn"
    and "bridges_ok (he_bridges env)" and "groups = group_map (he_metas env)"
    and "\<forall>i. fst (validate_key (he_sha env) (he_now env) (json_str_or [] msg ''api_key'') st) = Some i \<longrightarrow> ai_name i \<in> snd ` set (db_principals db)"
  shows "\<exists>i caps. fst (validate_key (he_sha env) (he_now env) (json_str_or [] msg ''api_key'') st) = Some i
    \<and> purpose_capabilities (json_str_or ''unknown'' msg ''purpose'') = Some caps
    \<and> (\<forall>k \<in> set caps.
        (\<exists>g. reaching_grant j glob db (ai_name i) k (Some (host_resource_of (he_router env) (he_metas env) (json_str_or [] msg ''host''))) g)
        \<and> (\<forall>g. reaching_grant j glob db (ai_name i) k (Some (host_resource_of (he_router env) (he_metas env) (json_str_or [] msg ''host''))) g
             \<longrightarrow> \<not> g_require_approval g))"
proof -
  from assms(1) obtain idn where idn: "agent_identify env remote msg (Some st) = (Inr idn, store')"
      "\<And>i. idn = Some i \<Longrightarrow> \<exists>caps. purpose_capabilities (json_str_or ''unknown'' msg ''purpose'') = Some caps
       \<and> list_all (\<lambda>k. pd_allowed (he_check env (ai_name i) (ai_group i) k (Some (relay_resource env groups (json_str_or [] msg ''host''))))
            \<and> \<not> pd_require_approval (he_check env (ai_name i) (ai_group i) k (Some (relay_resource env groups (json_str_or [] msg ''host''))))) caps"
    by (rule handle_agent_open) blast
  from idn(1) show ?thesis
  proof (cases rule: agent_identify_cases)
    case keyless
    with assms(2) show ?thesis by simp
  next
    case (key st1 i st')
    then have v: "fst (validate_key (he_sha env) (he_now env) (json_str_or [] msg ''api_key'') st) = Some i" by simp
    note loaded = check_loaded [OF assms(3,4) assms(8) [rule_format, OF v]]
    from idn(2) [OF key(2)] v show ?thesis
      unfolding assms(5,7) relay_resource_agrees [OF distinct_metas [OF assms(6)]] list_all_iff loaded by blast
  qed
qed


section \<open>Pushed recordings\<close>

definition MAX_PUSH_RECORDING_SIZE :: nat where "MAX_PUSH_RECORDING_SIZE = 256 * 1024 * 1024"

definition unsafe_push_name :: "string \<Rightarrow> bool" where
  "unsafe_push_name n \<longleftrightarrow> contains_str n ''..'' \<or> CHR ''/'' \<in> set n \<or> CHR 0x5C \<in> set n"

text \<open>
  The server's end of a push stream: the answer and the local store. \<open>from_slice\<close> and \<open>to_vec\<close> read
  and print JSON, \<open>today\<close> is the current date and \<open>disk\<close> the server's disk.
\<close>

definition push_target :: "string \<Rightarrow> string \<Rightarrow> (string \<rightharpoonup> string) \<Rightarrow> json \<Rightarrow> string + string" where
  "push_target hostname raw_filename last_agents header =
     (if unsafe_push_name raw_filename then Inl (''unsafe recording filename: '' @ raw_filename)
      else
        let agent = (case last_agents hostname of Some a \<Rightarrow> a | None \<Rightarrow> ''unknown'')
        in if unsafe_push_name agent then Inl (''unsafe agent name in recording push: '' @ agent)
           else Inr (agent @ ''_'' @ raw_filename))"

definition handle_push_stream ::
    "(bytes \<Rightarrow> string + json) \<Rightarrow> (json \<Rightarrow> string + bytes) \<Rightarrow> string \<Rightarrow> local_disk \<Rightarrow> string
     \<Rightarrow> (string \<rightharpoonup> string) \<Rightarrow> bytes \<Rightarrow> local_store \<Rightarrow> (wire_error + bytes) \<times> local_store" where
  "handle_push_stream from_slice to_vec today disk hostname last_agents s loc =
     (case read_frame s of
        Inl e \<Rightarrow> (Inl e, loc)
      | Inr (header_data, s) \<Rightarrow>
          (case from_slice header_data of
             Inl e \<Rightarrow> (Inl (WErr e), loc)
           | Inr header \<Rightarrow>
               if jget_str header ''type'' \<noteq> Some ''recording_push'' then (Inl (WErr ''unexpected push type''), loc)
               else
                 let raw_filename = json_str_or ''unknown.cast'' header ''filename'';
                     size = (case Option.bind (jget header ''size'') jas_u64 of Some n \<Rightarrow> n | None \<Rightarrow> 0)
                 in if MAX_PUSH_RECORDING_SIZE < size then (Inl (WErr ''recording too large''), loc)
                    else case push_target hostname raw_filename last_agents header of
                      Inl e \<Rightarrow> (Inl (WErr e), loc)
                    | Inr safe_filename \<Rightarrow>
                        (case read_exact size s of
                           Inl e \<Rightarrow> (Inl e, loc)
                         | Inr (file_data, s) \<Rightarrow>
                             (case store_file disk (local_path disk hostname today safe_filename) file_data loc of
                                (loc, False) \<Rightarrow> (Inl (WErr ''write failed''), loc)
                              | (loc, True) \<Rightarrow>
                                  (write_frame to_vec (JObj [(''ok'', JBool True), (''type'', JStr ''recording_ack'')]), loc)))))"

text \<open>The bridge's end: the header frame, then the file.\<close>

definition push_header :: "string \<Rightarrow> bytes \<Rightarrow> json" where
  "push_header filename data =
     JObj [(''filename'', JStr filename), (''size'', JInt (int (length data))), (''type'', JStr ''recording_push'')]"

definition push_recording :: "(json \<Rightarrow> string + bytes) \<Rightarrow> string \<Rightarrow> bytes \<Rightarrow> wire_error + bytes" where
  "push_recording to_vec filename data = map_sum id (\<lambda>h. h @ data) (write_frame to_vec (push_header filename data))"

lemma no_dotdot_append: "\<not> contains_str a ''..'' \<Longrightarrow> \<not> contains_str b ''..'' \<Longrightarrow> \<not> contains_str (a @ ''_'' @ b) ''..''"
  by (auto simp: contains_str_sublist sublist_append sublist_Cons_right Cons_eq_append_conv prefix_Cons)

lemma unsafe_push_name_join: "\<not> unsafe_push_name a \<Longrightarrow> \<not> unsafe_push_name b \<Longrightarrow> \<not> unsafe_push_name (a @ ''_'' @ b)"
  using no_dotdot_append [of a b] by (simp add: unsafe_push_name_def)

lemma push_target_safe:
  assumes "push_target hostname raw last_agents header = Inr n"
  shows "\<not> unsafe_push_name n"
proof -
  define a where "a = (case last_agents hostname of Some a \<Rightarrow> a | None \<Rightarrow> ''unknown'')"
  from assms have "\<not> unsafe_push_name raw \<and> \<not> unsafe_push_name a \<and> n = a @ ''_'' @ raw"
    by (simp add: push_target_def Let_def a_def [symmetric] split: if_split_asm)
  with unsafe_push_name_join show ?thesis by blast
qed

lemma read_frame_suffix: "read_frame s = Inr (h, r) \<Longrightarrow> \<exists>pre. s = pre @ h @ r"
  by (auto simp: read_frame_def read_sized_def read_exact_iff Let_def split: sum.splits prod.splits if_splits)

lemma handle_push_stream_cases:
  assumes "handle_push_stream from_slice to_vec today disk hostname agents s loc = (ans, loc')"
  obtains (refused) e where "ans = Inl e" "loc' = loc"
  | (stored) n data pre rest kept where "loc' = AList.update (ld_file disk (local_path disk hostname today n)) kept loc"
      "\<not> unsafe_push_name n" "s = pre @ data @ rest" "length data \<le> MAX_PUSH_RECORDING_SIZE"
      "kept = data \<or> isl ans \<and> ld_write disk (local_path disk hostname today n) data = Some (Some kept)"
proof (cases "read_frame s")
  case (Inl e)
  with assms refused show thesis by (auto simp: handle_push_stream_def)
next
  case (Inr hs)
  obtain hd1 s1 where fr: "read_frame s = Inr (hd1, s1)" using Inr by (cases hs) simp
  show thesis
  proof (cases "\<exists>header n data r. from_slice hd1 = Inr header \<and> push_target hostname (json_str_or ''unknown.cast'' header ''filename'') agents header = Inr n
      \<and> read_exact (case Option.bind (jget header ''size'') jas_u64 of Some n \<Rightarrow> n | None \<Rightarrow> 0) s1 = Inr (data, r)
      \<and> jget_str header ''type'' = Some ''recording_push''
      \<and> (case Option.bind (jget header ''size'') jas_u64 of Some n \<Rightarrow> n | None \<Rightarrow> 0) \<le> MAX_PUSH_RECORDING_SIZE")
    case True
    then obtain header n data r where c: "from_slice hd1 = Inr header"
        "push_target hostname (json_str_or ''unknown.cast'' header ''filename'') agents header = Inr n"
        "read_exact (case Option.bind (jget header ''size'') jas_u64 of Some n \<Rightarrow> n | None \<Rightarrow> 0) s1 = Inr (data, r)"
        "jget_str header ''type'' = Some ''recording_push''"
        "(case Option.bind (jget header ''size'') jas_u64 of Some n \<Rightarrow> n | None \<Rightarrow> 0) \<le> MAX_PUSH_RECORDING_SIZE"
      by blast
    have res: "(ans, loc') = (case store_file disk (local_path disk hostname today n) data loc of
        (loc, False) \<Rightarrow> (Inl (WErr ''write failed''), loc)
      | (loc, True) \<Rightarrow> (write_frame to_vec (JObj [(''ok'', JBool True), (''type'', JStr ''recording_ack'')]), loc))"
      using assms c by (simp add: handle_push_stream_def fr Let_def not_less)
    obtain pre where "s = pre @ hd1 @ s1" using read_frame_suffix [OF fr] by blast
    with c(3,5) have d: "s = (pre @ hd1) @ data @ r" "length data \<le> MAX_PUSH_RECORDING_SIZE" by (auto simp: read_exact_iff)
    note st = stored [OF _ push_target_safe [OF c(2)] d]
    show thesis
    proof (cases "ld_write disk (local_path disk hostname today n) data")
      case None
      with res have "loc' = AList.update (ld_file disk (local_path disk hostname today n)) data loc" by (simp add: store_file_def)
      then show thesis by (rule st) simp
    next
      case (Some w)
      show thesis
      proof (cases w)
        case None
        with Some res show thesis by (intro refused) (simp_all add: store_file_def)
      next
        case (Some part)
        with \<open>ld_write disk _ data = Some w\<close> res show thesis by (intro st [of part]) (simp_all add: store_file_def)
      qed
    qed
  next
    case False
    with assms refused show thesis
      by (auto simp: handle_push_stream_def fr Let_def split: sum.splits prod.splits if_splits)
  qed
qed

text \<open>
  Pushed recordings arrive whole, and nothing else does. Whatever arrives on a push stream, the
  server's local store changes in at most one file, of the host the connection registered as, under
  today's date and a name without separators and dots that would leave the directory; that file
  holds a part of the stream of at most 256 MiB, or what a failing write left, which is not acknowledged. A
  bridge's push of a recording with a plain name is stored unchanged, under the name of the agent
  that last used the host, and acknowledged, when the disk accepts the write.
\<close>

theorem push_confined_and_exact:
  fixes disk :: local_disk and hostname today :: string
  assumes "to_vec (push_header f content) = Inr d" and "from_slice d = Inr (push_header f content)" and "length d \<le> 1024 * 1024"
    and "to_vec (JObj [(''ok'', JBool True), (''type'', JStr ''recording_ack'')]) = Inr a"
    and "\<not> unsafe_push_name f" and "\<not> unsafe_push_name (case agents hostname of Some x \<Rightarrow> x | None \<Rightarrow> ''unknown'')"
    and "length content \<le> MAX_PUSH_RECORDING_SIZE"
  defines "path \<equiv> local_path disk hostname today"
  assumes "ld_write disk (path ((case agents hostname of Some x \<Rightarrow> x | None \<Rightarrow> ''unknown'') @ ''_'' @ f)) content = None"
  shows "(\<forall>s. case handle_push_stream from_slice to_vec today disk hostname agents s loc of (ans, loc') \<Rightarrow>
      loc' = loc \<or> (\<exists>n data pre rest kept. loc' = AList.update (ld_file disk (path n)) kept loc \<and> \<not> unsafe_push_name n
        \<and> s = pre @ data @ rest \<and> length data \<le> MAX_PUSH_RECORDING_SIZE
        \<and> (kept = data \<or> isl ans \<and> ld_write disk (path n) data = Some (Some kept))))
    \<and> (\<exists>s. push_recording to_vec f content = Inr s
        \<and> handle_push_stream from_slice to_vec today disk hostname agents s loc
          = (Inr (le_bytes 4 (length a) @ a),
             AList.update (ld_file disk (path ((case agents hostname of Some x \<Rightarrow> x | None \<Rightarrow> ''unknown'') @ ''_'' @ f))) content loc))"
proof (intro conjI allI)
  fix s
  obtain ans loc' where h: "handle_push_stream from_slice to_vec today disk hostname agents s loc = (ans, loc')" by (metis prod.exhaust)
  from h have "loc' = loc \<or> (\<exists>n data pre rest kept. loc' = AList.update (ld_file disk (path n)) kept loc \<and> \<not> unsafe_push_name n
      \<and> s = pre @ data @ rest \<and> length data \<le> MAX_PUSH_RECORDING_SIZE
      \<and> (kept = data \<or> isl ans \<and> ld_write disk (path n) data = Some (Some kept)))"
    unfolding path_def by (cases rule: handle_push_stream_cases) blast+
  with h show "case handle_push_stream from_slice to_vec today disk hostname agents s loc of (ans, loc') \<Rightarrow>
      loc' = loc \<or> (\<exists>n data pre rest kept. loc' = AList.update (ld_file disk (path n)) kept loc \<and> \<not> unsafe_push_name n
        \<and> s = pre @ data @ rest \<and> length data \<le> MAX_PUSH_RECORDING_SIZE
        \<and> (kept = data \<or> isl ans \<and> ld_write disk (path n) data = Some (Some kept)))" by simp
next
  let ?s = "le_bytes 4 (length d) @ d @ content" and ?n = "(case agents hostname of Some x \<Rightarrow> x | None \<Rightarrow> ''unknown'') @ ''_'' @ f"
  have "read_frame ?s = Inr (d, content)" using assms(3) by (simp add: read_frame_def read_sized_frame)
  moreover have "read_exact (length content) content = Inr (content, [])" using read_exact_append [of content "length content" "[]"] by simp
  moreover have "jas_u64 (JInt (int (length content))) = Some (length content)" using assms(7) by (simp add: MAX_PUSH_RECORDING_SIZE_def)
  moreover have "store_file disk (local_path disk hostname today ?n) content loc = (AList.update (ld_file disk (path ?n)) content loc, True)"
    using assms(9) by (simp add: store_file_def path_def)
  ultimately have "handle_push_stream from_slice to_vec today disk hostname agents ?s loc
      = (Inr (le_bytes 4 (length a) @ a), AList.update (ld_file disk (path ?n)) content loc)"
    using assms(2,4-7) by (simp add: handle_push_stream_def push_header_def jget_str_def json_str_or_def push_target_def write_frame_def)
  moreover have "push_recording to_vec f content = Inr ?s" using assms(1) by (simp add: push_recording_def write_frame_def)
  ultimately show "\<exists>s. push_recording to_vec f content = Inr s
        \<and> handle_push_stream from_slice to_vec today disk hostname agents s loc
          = (Inr (le_bytes 4 (length a) @ a), AList.update (ld_file disk (path ?n)) content loc)"
    by blast
qed


section \<open>The first message\<close>

text \<open>Which handler the first frame of a connection goes to; anything else is answered with an error.\<close>

datatype first_frame = BridgeRegister json | AgentConnect json | UnknownFirst

definition handle_connection :: "json \<Rightarrow> first_frame" where
  "handle_connection msg =
     (if jget_str msg ''type'' = Some ''bridge_register'' then BridgeRegister msg
      else if jget_str msg ''type'' = Some ''agent_connect'' then AgentConnect msg
      else UnknownFirst)"

section \<open>What the purpose of a relay does not bind\<close>

text \<open>A relay copies the bytes of each stream of the client to the bridge and the answer back.\<close>

definition relay_stream :: "(bytes \<Rightarrow> bytes) \<Rightarrow> bytes \<Rightarrow> bytes" where
  "relay_stream bridge request = bridge request"

text \<open>
  The purpose is checked when the relay is opened and never again: through a relay opened for
  listing hosts, which needs \<open>host:read\<close> only, every file of the host can be downloaded.
\<close>

lemma list_relay_downloads:
  assumes "rf_lookup rf p = Some (TFile c)" and "length p < 65536" and "valid_utf8 (str_bytes p)" and "sanitize_path p = Inr p"
    and "length c \<le> MAX_RECORDING_SIZE"
  shows "purpose_capabilities ''list'' = Some [HostRead]
    \<and> download_recording (relay_stream (bridge_serve rf)) p = Inr c"
proof -
  have "relay_stream (bridge_serve rf) = bridge_serve rf" by (rule ext) (simp add: relay_stream_def)
  with bridge_fetch [OF assms] show ?thesis by (simp add: purpose_capabilities_def)
qed

section \<open>Witnesses\<close>

definition conns0 :: "nat quic_system" where
  "conns0 = \<lparr>qy_registry = Map.empty, qy_serving = [], qy_cache = \<lparr>qc_tokens = [''t1'' \<mapsto> ''web1''], qc_groups = Map.empty\<rparr>, qy_now = 0\<rparr>"

definition conns1 :: "nat quic_system" where
  "conns1 = conns0\<lparr>qy_registry := [''web1'' \<mapsto> \<lparr>bc_conn = 7, bc_hostname = ''web1'', bc_capabilities = [], bc_version = ''unknown'',
     bc_machine_id = [], bc_os_info = [], bc_registered_at = 0, bc_last_heartbeat = 0\<rparr>], qy_serving := [(7, ''web1'')]\<rparr>"

theorem registry_serves_one_witness:
  "dom (qy_registry conns1) = {''web1''} \<and> reg_unregister ''web1'' (qy_registry conns1) ''web1'' = None"
proof -
  let ?msg = "JObj [(''token'', JStr ''t1'')]"
  have tok: "json_str_or [] ?msg ''token'' = ''t1''" "json_str_or d ?msg ''version'' = d" "json_str_or d ?msg ''machine_id'' = d"
      "json_str_or d ?msg ''os_info'' = d" "jget_strs ?msg ''capabilities'' = None" for d
    by (simp_all add: json_str_or_def jget_str_def jget_strs_def)
  have "\<exists>sent. handle_bridge_registration (\<lambda>x. x) (qc_tokens (qy_cache conns0)) [] [] (qy_now conns0) 7 ?msg (qy_registry conns0)
      = (sent, qy_registry conns1, Registered ''web1'')"
    by (simp add: handle_bridge_registration_def conns0_def conns1_def reg_register_def tok Let_def)
  then obtain sent where reg: "handle_bridge_registration (\<lambda>x. x) (qc_tokens (qy_cache conns0)) [] [] (qy_now conns0) 7 ?msg (qy_registry conns0)
      = (sent, qy_registry conns1, Registered ''web1'')" by blast
  have "quic_step (\<lambda>x. x) Map.empty conns0 (conns0\<lparr>qy_registry := qy_registry conns1,
      qy_serving := (case Registered ''web1'' of Registered h \<Rightarrow> (7, h) # qy_serving conns0 | _ \<Rightarrow> qy_serving conns0)\<rparr>)"
    by (rule quic_step.connect [OF _ reg]) (simp add: conns0_def)
  then have "quic_step (\<lambda>x. x) Map.empty conns0 conns1" by (simp add: conns1_def conns0_def)
  moreover have "quic_reachable (\<lambda>x. x) Map.empty conns0" by (rule quic_reachable.start) (simp_all add: conns0_def)
  ultimately have "quic_reachable (\<lambda>x. x) Map.empty conns1" by (rule quic_reachable.step [rotated])
  from registry_serves_one [OF this] have "dom (qy_registry conns1) = snd ` set (qy_serving conns1)" by blast
  then show ?thesis by (simp add: conns1_def reg_unregister_def)
qed

definition relay_db :: policy_db where
  "relay_db = db0\<lparr>db_grants := map (\<lambda>g. g\<lparr>gr_require_approval := False\<rparr>) (db_grants db0)\<rparr>"

definition relay_sn :: policy_snapshot where
  "relay_sn = projr (load_snapshot toy_json relay_db)"

lemma relay_loaded: "load_snapshot toy_json relay_db = Inr relay_sn" "db_wf relay_db"
proof -
  have "isl (load_snapshot toy_json relay_db) = False" by code_simp
  then show "load_snapshot toy_json relay_db = Inr relay_sn" by (simp add: relay_sn_def)
  show "db_wf relay_db" by (simp add: db_wf_def relay_db_def db0_def)
qed

definition relay_env :: http_env where
  "relay_env = http0\<lparr>he_check := check_snapshot (\<lambda>_. None) relay_sn, he_bridges := [], he_router := [''web1'' \<mapsto> config0 ''web1'' ''dev'']\<rparr>"

definition pull_msg :: json where
  "pull_msg = JObj [(''api_key'', JStr ''yk_alice''), (''host'', JStr ''web1''), (''purpose'', JStr ''pull'')]"

lemma pull_allowed:
  "pd_allowed (check_snapshot (\<lambda>_. None) relay_sn ''alice'' None FileRead (Some dev_host))"
  "\<not> pd_require_approval (check_snapshot (\<lambda>_. None) relay_sn ''alice'' None FileRead (Some dev_host))"
  by code_simp+

lemma pull_fields: "json_str_or [] pull_msg ''api_key'' = ''yk_alice''" "json_str_or [] pull_msg ''host'' = ''web1''"
    "json_str_or d pull_msg ''purpose'' = ''pull''"
  by (simp_all add: json_str_or_def jget_str_def pull_msg_def)

lemma alice_valid: "\<exists>st'. validate_key (\<lambda>x. x) 5 ''yk_alice'' key_alice = (Some alice, st')"
  by (simp add: validate_key_def key_alice_def cached_def fetch_by_hash_def check_record_def alice_def Let_def)

lemma pull_opened:
  "\<exists>store'. handle_agent_connection relay_env Map.empty (\<lambda>_ _. None) (qy_registry conns1) (V4 10 0 0 1) pull_msg (Some key_alice)
     \<lparr>rl_last_agents = Map.empty, rl_audit = []\<rparr> =
     (RelayOpen (agent_ack ''web1'') 7, store', \<lparr>rl_last_agents = [''web1'' \<mapsto> ''alice''],
        rl_audit = [\<lparr>ra_agent = ''alice'', ra_host = ''web1'', ra_purpose = ''pull''\<rparr>]\<rparr>)"
proof -
  obtain st' where v: "validate_key (\<lambda>x. x) 5 ''yk_alice'' key_alice = (Some alice, st')" using alice_valid by blast
  have ne: "\<not> key_store_is_empty False key_alice" by (simp add: key_store_is_empty_def key_alice_def)
  have res: "relay_resource relay_env Map.empty ''web1'' = dev_host"
    by (simp add: relay_resource_def relay_host_group_def relay_env_def http0_def he_metas_def get_all_host_meta_def config0_def nonempty_def dev_host_def)
  have "agent_identify relay_env (V4 10 0 0 1) pull_msg (Some key_alice) = (Inr (Some alice), Some st')"
    using v ne by (simp add: agent_identify_def pull_fields relay_env_def http0_def)
  moreover have "purpose_capabilities ''pull'' = Some [FileRead]" by (simp add: purpose_capabilities_def)
  moreover have "relay_check (he_check relay_env (ai_name alice) (ai_group alice)) ''pull'' ''web1'' dev_host [FileRead] = None"
    using pull_allowed by (simp add: relay_env_def alice_def)
  moreover have "relay_target relay_env (\<lambda>_ _. None) (qy_registry conns1) ''web1'' = Inr 7" by (simp add: relay_target_def conns1_def)
  ultimately show ?thesis by (simp add: handle_agent_connection_def pull_fields res alice_def Let_def del: relay_check.simps)
qed

theorem relay_authorized_witness:
  "\<exists>caps. purpose_capabilities ''pull'' = Some caps \<and> list_all (\<lambda>k. pd_allowed (he_check relay_env ''alice'' None k (Some (relay_resource relay_env Map.empty ''web1'')))) caps"
proof -
  obtain store' where o: "handle_agent_connection relay_env Map.empty (\<lambda>_ _. None) (qy_registry conns1) (V4 10 0 0 1) pull_msg (Some key_alice)
     \<lparr>rl_last_agents = Map.empty, rl_audit = []\<rparr> =
     (RelayOpen (agent_ack ''web1'') 7, store', \<lparr>rl_last_agents = [''web1'' \<mapsto> ''alice''],
        rl_audit = [\<lparr>ra_agent = ''alice'', ra_host = ''web1'', ra_purpose = ''pull''\<rparr>]\<rparr>)" using pull_opened by blast
  have "\<not> is_loopback_socket (V4 10 0 0 1)" by simp
  moreover have "fst (validate_key (he_sha relay_env) (he_now relay_env) (json_str_or [] pull_msg ''api_key'') key_alice) = Some alice"
    using alice_valid by (auto simp: pull_fields relay_env_def http0_def)
  ultimately show ?thesis using relay_authorized [OF o] by (auto simp: pull_fields alice_def list_all_iff)
qed

definition local_request :: http_request where
  "local_request = \<lparr>rq_remote = Some (V4 127 0 0 1), rq_authorization = None, rq_path = ''/mcp''\<rparr>"

theorem first_key_ends_bootstrap_witness:
  "quic_admit relay_env [] (\<lambda>x. x) 5 False (Some (V4 10 0 0 1)) (Some ''yk_alice'') key_alice = Some (Some alice)
   \<and> (\<exists>r :: key_record. k_revoked_at r = None \<and> k_name r = ai_name alice)
   \<and> auth_middleware http0 local_request key_alice = (Rejected 401, key_alice)"
proof -
  let ?s = "\<lparr>sys_now = 5, sys_store = key_alice, sys_pending = []\<rparr>"
  have rows: "ks_rows (sys_store ?s) \<noteq> []" by (simp add: key_alice_def)
  have a: "quic_admit relay_env [] (\<lambda>x. x) 5 False (Some (V4 10 0 0 1)) (Some ''yk_alice'') key_alice = Some (Some alice)"
    using alice_valid by (auto simp: quic_admit_def agent_identify_def agent_fields_key key_store_is_empty_def key_alice_def Let_def)
  then have b: "quic_admit relay_env [] (\<lambda>x. x) 5 False (Some (V4 10 0 0 1)) (Some ''yk_alice'') (sys_store ?s) = Some (Some alice)" by simp
  from first_key_ends_bootstrap [OF rows key_steps.none [of "\<lambda>x. x" 0]] b obtain r :: key_record where
    "k_revoked_at r = None" "ai_name alice = k_name r" by blast
  moreover from first_key_ends_bootstrap [OF rows key_steps.none [of "\<lambda>x. x" 0], of http0 local_request]
  have "auth_middleware http0 local_request key_alice = (Rejected 401, key_alice)"
    by (simp add: http0_def local_request_def bearer_token_def)
  ultimately show ?thesis using a by metis
qed

end
