(* ===== verification/Terminal_State.thy ===== *)
theory Terminal_State
  imports Tool_Gate
begin

text \<open>
  What the bridge reads off a screen: the state of the terminal
  (\<open>rmux-bridge/src/terminal_state.rs\<close>), the text without escape sequences and blank lines
  (\<open>rmux-bridge/src/protocol/mod.rs\<close>) and the line of a prompt (\<open>protocol/exec.rs\<close>).
\<close>

section \<open>Lines\<close>

text \<open>\<open>str::lines\<close>: a final line feed ends the last line, a carriage return before a line feed is dropped.\<close>

definition strip_cr :: "string \<Rightarrow> string" where
  "strip_cr l = (if l \<noteq> [] \<and> last l = CHR 0x0D then butlast l else l)"

definition lines :: "string \<Rightarrow> string list" where
  "lines s = (let ws = split_on (\<lambda>c. c = CHR 0x0A) s
              in map strip_cr (butlast ws) @ (if last ws = [] then [] else [last ws]))"

section \<open>State of the terminal\<close>

datatype terminal_state = Ready | Running | Password | Confirm | Repl | Editor | Pager | Unknown

text \<open>The name \<open>serde\<close> gives a state (\<open>rename_all = "snake_case"\<close>).\<close>

fun state_name :: "terminal_state \<Rightarrow> string" where
  "state_name Ready = ''ready''"
| "state_name Running = ''running''"
| "state_name Password = ''password''"
| "state_name Confirm = ''confirm''"
| "state_name Repl = ''repl''"
| "state_name Editor = ''editor''"
| "state_name Pager = ''pager''"
| "state_name Unknown = ''unknown''"

definition password_keywords :: "string list" where
  "password_keywords = [''password:'', ''Password:'', ''PASSWORD:'', ''[sudo]'', ''passphrase'', ''Passphrase'',
     ''Enter PIN:'', ''token:'', ''Token:'']"

definition confirm_patterns :: "string list" where
  "confirm_patterns = [''[y/n]'', ''[Y/n]'', ''[y/N]'', ''(y/n)'', ''Are you sure'', ''Continue?'', ''Proceed?'',
     ''Do you want to'', ''Overwrite?'', ''yes/no'', ''Yes/No'']"

definition editor_markers :: "string list" where
  "editor_markers = [''-- INSERT --'', ''-- VISUAL --'', ''-- NORMAL --'', ''-- REPLACE --'', ''-- COMMAND --'',
     ''[New File]'', ''[New DIRECTORY]'', ''[New]'', ''GNU nano'', ''Pico editor'']"

definition repl_prefixes :: "string list" where
  "repl_prefixes = [''>>>'', ''... '', ''In ['', ''mysql>'', ''node>'', ''irb>'', ''pry>'']"

text \<open>The last twelve lines up to the last one that is not blank.\<close>

definition detection_window :: "string list \<Rightarrow> string list" where
  "detection_window ls =
     (let effective = rev (dropWhile (\<lambda>l. trim l = []) (rev ls)) in drop (length effective - 12) effective)"

definition is_shell_prompt :: "string \<Rightarrow> bool" where
  "is_shell_prompt tail \<longleftrightarrow>
     suffix ''$'' tail \<or> suffix ''#'' tail \<or> suffix ''>'' tail \<or> suffix ''%'' tail
     \<or> prefix [CHR 0xE2, CHR 0x9E, CHR 0x9C] tail \<or> prefix [CHR 0xE2, CHR 0x9D, CHR 0xAF] tail"

definition detect_terminal_state :: "string \<Rightarrow> nat \<Rightarrow> bool \<Rightarrow> terminal_state" where
  "detect_terminal_state screen cursor_col cursor_visible =
     (let ls = lines screen; window = detection_window ls
      in if ls = [] then Unknown
         else if window = [] then Unknown
         else let tail = trim (last window)
         in if \<not> cursor_visible then
              (if list_ex (contains_str screen) [''-- INSERT --'', ''-- VISUAL --'', ''-- NORMAL --'', ''-- REPLACE --'']
               then Editor
               else if contains_str screen ''(END)'' \<or> contains_str screen ''(end)'' \<or> prefix '':'' tail then Pager
               else Running)
            else if list_ex (contains_str tail) password_keywords then Password
            else if list_ex (contains_str tail) confirm_patterns then Confirm
            else if list_ex (contains_str screen) editor_markers then Editor
            else if 3 \<le> length (filter (\<lambda>l. trim l = ''~'') window) then Editor
            else if prefix '':'' tail \<or> contains_str tail ''(END)'' \<or> contains_str tail ''(end)''
                    \<or> contains_str screen ''Manual page'' \<and> contains_str tail ''(press h for help)''
            then Pager
            else if list_ex (\<lambda>p. prefix p tail) repl_prefixes then Repl
            else if is_shell_prompt tail then
              (if contains_str tail ''['' \<and> contains_str tail '']'' then Running
               else if 80 < length tail \<and> \<not> contains_str tail ''@'' \<and> \<not> contains_str tail '':~'' then Running
               else if cursor_col = 0 then Running
               else Ready)
            else Unknown)"

section \<open>Clean text\<close>

text \<open>
  A match of \<open>ANSI_RE\<close> at the start: escape and one character of \<open>@-Z\<close> or \<open>\-_\<close>, or escape, a bracket,
  parameter bytes, intermediate bytes and a final byte. The classes do not overlap, so the longest
  runs are the only match.
\<close>

definition ansi_match :: "string \<Rightarrow> nat option" where
  "ansi_match s = (case s of
     e # c # cs \<Rightarrow>
       if e \<noteq> CHR 0x1B then None
       else if 0x40 \<le> byte_of c \<and> byte_of c \<le> 0x5A \<or> 0x5C \<le> byte_of c \<and> byte_of c \<le> 0x5F then Some 2
       else if c = CHR ''['' then
         (let params = takeWhile (\<lambda>c. 0x30 \<le> byte_of c \<and> byte_of c \<le> 0x3F) cs;
              inter = takeWhile (\<lambda>c. 0x20 \<le> byte_of c \<and> byte_of c \<le> 0x2F) (drop (length params) cs)
          in case drop (length params + length inter) cs of
               f # _ \<Rightarrow> if 0x40 \<le> byte_of f \<and> byte_of f \<le> 0x7E then Some (3 + length params + length inter) else None
             | [] \<Rightarrow> None)
       else None
   | _ \<Rightarrow> None)"

lemma ansi_match_pos: "ansi_match s = Some n \<Longrightarrow> 0 < n"
  by (auto simp: ansi_match_def Let_def split: list.splits if_splits)

text \<open>\<open>ansi_re.replace_all(raw, "")\<close>.\<close>

function strip_ansi :: "string \<Rightarrow> string" where
  "strip_ansi [] = []"
| "strip_ansi (c # cs) = (case ansi_match (c # cs) of
     Some n \<Rightarrow> strip_ansi (drop n (c # cs))
   | None \<Rightarrow> c # strip_ansi cs)"
  by pat_completeness auto
termination
  by (relation "measure length") (auto dest: ansi_match_pos)

declare strip_ansi.simps(2) [simp del]

definition clean_text :: "string \<Rightarrow> string option \<Rightarrow> string" where
  "clean_text raw command =
     (let ls = lines (strip_ansi raw);
          ls = (case command of
            Some cmd \<Rightarrow> dropWhile (\<lambda>l. trim l = [] \<or> contains_str (trim l) cmd \<or> trim l = cmd) ls
          | None \<Rightarrow> ls)
      in join [CHR 0x0A] (filter (\<lambda>l. trim l \<noteq> []) ls))"

text \<open>\<open>char::is_control\<close>: the C0 and C1 controls and delete.\<close>

definition is_control :: "string \<Rightarrow> bool" where
  "is_control ch \<longleftrightarrow> (case map byte_of ch of
     [b] \<Rightarrow> b < 0x20 \<or> b = 0x7F
   | [a, b] \<Rightarrow> a = 0xC2 \<and> 0x80 \<le> b \<and> b < 0xA0
   | _ \<Rightarrow> False)"

definition sanitize_prompt_line :: "string \<Rightarrow> string option" where
  "sanitize_prompt_line raw_text =
     (let ls = lines (clean_text raw_text None)
      in if ls = [] then None
         else let no_ctrl = trim (concat (filter (\<lambda>ch. \<not> is_control ch) (chars (trim (last ls)))));
                  cs = chars no_ctrl
              in if no_ctrl = [] then None
                 else Some (concat (take 120 cs) @ (if 120 < length cs then [CHR 0xE2, CHR 0x80, CHR 0xA6] else [])))"

section \<open>Facts\<close>

lemma state_name_inject [simp]: "state_name a = state_name b \<longleftrightarrow> a = b"
  by (cases a; cases b) simp_all

text \<open>What the state \<open>Ready\<close> means.\<close>

lemma detect_Ready:
  assumes "detect_terminal_state screen col vis = Ready"
  shows "vis \<and> 0 < col \<and> (let tail = trim (last (detection_window (lines screen)))
     in is_shell_prompt tail \<and> \<not> list_ex (contains_str tail) (password_keywords @ confirm_patterns)
        \<and> \<not> list_ex (contains_str screen) editor_markers
        \<and> length (filter (\<lambda>l. trim l = ''~'') (detection_window (lines screen))) < 3
        \<and> \<not> prefix '':'' tail \<and> \<not> contains_str tail ''(END)'' \<and> \<not> list_ex (\<lambda>p. prefix p tail) repl_prefixes)"
  using assms by (auto simp: detect_terminal_state_def Let_def split: if_splits)

text \<open>
  A prompt in brackets, the default of several distributions, is taken for a progress bar: with it
  the terminal is never ready.
\<close>

lemma bracket_prompt_running: "detect_terminal_state ''[root@web1 ~]# '' 15 True = Running"
  by code_simp

text \<open>
  The tests look for texts only: the screen of an editor in normal mode, without a mode line and
  filled with text, whose ruler ends in a percentage, counts as a prompt.
\<close>

lemma editor_ruler_ready:
  "detect_terminal_state (''int main(void) {'' @ [CHR 0x0A] @ ''  return 0;'' @ [CHR 0x0A] @ ''12,5          27%'') 4 True = Ready"
  by code_simp

lemma plain_prompt_ready: "detect_terminal_state ''user@host:~$ '' 14 True = Ready"
  by code_simp

end
