(* ===== verification/Error_Code.thy ===== *)
theory Error_Code
  imports Json
begin

text \<open>
  The classification of error texts (\<open>clum-core/src/error_code.rs\<close>), shared by the bridge, which adds
  the code to its answers (\<open>rmux-bridge/src/proxy.rs\<close>), and the server, which adds code, hint and the
  retry flag to the result of a tool (\<open>clum-mcp/src/error.rs\<close>).
\<close>

section \<open>Classification\<close>

definition em_dash :: string where "em_dash = [CHR 0xE2, CHR 0x80, CHR 0x94]"

text \<open>
  \<open>str::to_lowercase\<close>, as far as a text without non-ASCII characters can be found in its result: the
  ASCII letters, and the two other characters whose lower case contains an ASCII letter, U+212A and
  U+0130. Every other non-ASCII character has a lower case of non-ASCII characters and is left as it is.
\<close>

definition lower_char :: "char \<Rightarrow> char" where
  "lower_char c = (if 65 \<le> byte_of c \<and> byte_of c \<le> 90 then char_of (byte_of c + 32) else c)"

fun to_lowercase :: "string \<Rightarrow> string" where
  "to_lowercase [] = []"
| "to_lowercase (c # cs) =
     (if c = CHR 0xE2 \<and> take 2 cs = [CHR 0x84, CHR 0xAA] then CHR ''k'' # to_lowercase (drop 2 cs)
      else if c = CHR 0xC4 \<and> take 1 cs = [CHR 0xB0] then CHR ''i'' # CHR 0xCC # CHR 0x87 # to_lowercase (drop 1 cs)
      else lower_char c # to_lowercase cs)"

definition CODE_UNKNOWN :: string where "CODE_UNKNOWN = ''UNKNOWN''"
definition CODE_FORBIDDEN :: string where "CODE_FORBIDDEN = ''FORBIDDEN''"
definition CODE_HOST_NOT_FOUND :: string where "CODE_HOST_NOT_FOUND = ''HOST_NOT_FOUND''"
definition CODE_INVALID_PARAMS :: string where "CODE_INVALID_PARAMS = ''INVALID_PARAMS''"
definition CODE_SESSION_NOT_FOUND :: string where "CODE_SESSION_NOT_FOUND = ''SESSION_NOT_FOUND''"
definition CODE_SESSION_EXISTS :: string where "CODE_SESSION_EXISTS = ''SESSION_EXISTS''"
definition CODE_PANE_NOT_FOUND :: string where "CODE_PANE_NOT_FOUND = ''PANE_NOT_FOUND''"
definition CODE_PANE_BUSY :: string where "CODE_PANE_BUSY = ''PANE_BUSY''"
definition CODE_WINDOW_NOT_FOUND :: string where "CODE_WINDOW_NOT_FOUND = ''WINDOW_NOT_FOUND''"
definition CODE_FORWARD_NOT_FOUND :: string where "CODE_FORWARD_NOT_FOUND = ''FORWARD_NOT_FOUND''"
definition CODE_FORWARD_DENIED :: string where "CODE_FORWARD_DENIED = ''FORWARD_DENIED''"
definition CODE_PATH_TRAVERSAL :: string where "CODE_PATH_TRAVERSAL = ''PATH_TRAVERSAL''"
definition CODE_AUTH_FAILED :: string where "CODE_AUTH_FAILED = ''AUTH_FAILED''"
definition CODE_BRIDGE_UNREACHABLE :: string where "CODE_BRIDGE_UNREACHABLE = ''BRIDGE_UNREACHABLE''"
definition CODE_CONNECTION_LOST :: string where "CODE_CONNECTION_LOST = ''CONNECTION_LOST''"
definition CODE_CONNECT_TIMEOUT :: string where "CODE_CONNECT_TIMEOUT = ''CONNECT_TIMEOUT''"
definition CODE_TIMEOUT :: string where "CODE_TIMEOUT = ''TIMEOUT''"
definition CODE_CLI_FAILED :: string where "CODE_CLI_FAILED = ''CLI_FAILED''"
definition CODE_PROTOCOL_ERROR :: string where "CODE_PROTOCOL_ERROR = ''PROTOCOL_ERROR''"
definition CODE_COMMAND_DENIED :: string where "CODE_COMMAND_DENIED = ''COMMAND_DENIED''"
definition CODE_APPROVAL_REQUIRED :: string where "CODE_APPROVAL_REQUIRED = ''APPROVAL_REQUIRED''"
definition CODE_APPROVAL_INVALID :: string where "CODE_APPROVAL_INVALID = ''APPROVAL_INVALID''"

lemmas code_defs = CODE_UNKNOWN_def CODE_FORBIDDEN_def CODE_HOST_NOT_FOUND_def CODE_INVALID_PARAMS_def CODE_SESSION_NOT_FOUND_def CODE_SESSION_EXISTS_def CODE_PANE_NOT_FOUND_def CODE_PANE_BUSY_def CODE_WINDOW_NOT_FOUND_def CODE_FORWARD_NOT_FOUND_def CODE_FORWARD_DENIED_def CODE_PATH_TRAVERSAL_def CODE_AUTH_FAILED_def CODE_BRIDGE_UNREACHABLE_def CODE_CONNECTION_LOST_def CODE_CONNECT_TIMEOUT_def CODE_TIMEOUT_def CODE_CLI_FAILED_def CODE_PROTOCOL_ERROR_def CODE_COMMAND_DENIED_def CODE_APPROVAL_REQUIRED_def CODE_APPROVAL_INVALID_def

definition classify_error_message :: "string \<Rightarrow> string" where
  "classify_error_message msg =
     (let m = to_lowercase msg; has = (\<lambda>p. contains_str m p)
      in if has ''cannot be used'' then CODE_APPROVAL_INVALID
         else if has ''requires approval'' then CODE_APPROVAL_REQUIRED
         else if has ''denied by rule'' \<or> has ''blocked by command rule'' then CODE_COMMAND_DENIED
         else if has ''not in your group'' \<or> has ''requires superadmin'' then CODE_FORBIDDEN
         else if has ''host not found'' \<or> has ''not found in enrolled'' then CODE_HOST_NOT_FOUND
         else if has (''missing '' @ [CHR 0x27]) \<or> has ''empty hosts list'' then CODE_INVALID_PARAMS
         else if has ''invalid pane'' \<or> has ''invalid source_pane'' \<or> has ''invalid target_pane'' then CODE_PANE_NOT_FOUND
         else if (has ''pane id'' \<and> has ''not found'') \<or> has (''can'' @ [CHR 0x27] @ ''t find pane'') \<or> has ''pane not found'' \<or> has ''no pane found with title'' \<or> has ''pane has no id'' then CODE_PANE_NOT_FOUND
         else if has ''session already exists'' \<or> has ''duplicate session'' then CODE_SESSION_EXISTS
         else if has ''session not found'' \<or> has (''can'' @ [CHR 0x27] @ ''t find session'') \<or> has ''no such session'' then CODE_SESSION_NOT_FOUND
         else if has ''window not found'' \<or> has (''can'' @ [CHR 0x27] @ ''t find window'') then CODE_WINDOW_NOT_FOUND
         else if has ''forward not found'' then CODE_FORWARD_NOT_FOUND
         else if has ''pane still active'' then CODE_PANE_BUSY
         else if has ''path traversal'' \<or> has ''unsafe relative path'' \<or> has ''path contains null byte'' \<or> has ''directory too deep'' \<or> has ''path outside recordings'' then CODE_PATH_TRAVERSAL
         else if has ''not in allowed list'' then CODE_FORWARD_DENIED
         else if has ''authentication failed'' \<or> has ''auth failed'' \<or> has ''invalid auth preamble'' \<or> has ''token too long'' then CODE_AUTH_FAILED
         else if has ''connection refused'' \<or> has ''registration rejected'' \<or> has ''handshake failed'' then CODE_BRIDGE_UNREACHABLE
         else if has ''connection lost'' \<or> has ''connection reset'' then CODE_CONNECTION_LOST
         else if has ''connect timeout'' \<or> has ''connect timed out'' \<or> has ''connection timed out'' then CODE_CONNECT_TIMEOUT
         else if has ''timeout'' \<or> has ''timed out'' then CODE_TIMEOUT
         else if has ''invalid direction'' \<or> has ''must be 0-65535'' \<or> has ''must be non-zero'' \<or> has ''must be positive'' \<or> has ''must be absolute'' \<or> has ''mutually exclusive'' \<or> has ''coordinates'' \<or> has ''base64'' \<or> has ''unknown layout'' then CODE_INVALID_PARAMS
         else if has ''rmux cli'' \<or> has ''cli command'' then CODE_CLI_FAILED
         else if has ''frame too large'' \<or> has ''unknown request type'' \<or> has ''invalid json'' then CODE_PROTOCOL_ERROR
         else CODE_UNKNOWN)"

section \<open>Hints\<close>

record classified =
  cl_code :: string
  cl_hint :: string
  cl_retryable :: bool

definition cl :: "string \<Rightarrow> string \<Rightarrow> bool \<Rightarrow> classified" where
  "cl code hint retryable = \<lparr>cl_code = code, cl_hint = hint, cl_retryable = retryable\<rparr>"

definition lookup :: "string \<Rightarrow> classified" where
  "lookup code =
     (if code = CODE_APPROVAL_REQUIRED then cl ''APPROVAL_REQUIRED'' (''a human must approve '' @ em_dash @ '' run '' @ [CHR 0x27] @ ''clum-mcp approval approve <approval_id>'' @ [CHR 0x27] @ '' on the server host, or change the command to a read-only equivalent'') False
      else if code = CODE_APPROVAL_INVALID then cl ''APPROVAL_INVALID'' (''approval was not usable (one-shot, bound to the exact command/tool/host) '' @ em_dash @ '' re-run WITHOUT approval_id to request a fresh one; do not retry the same id'') False
      else if code = CODE_COMMAND_DENIED then cl ''COMMAND_DENIED'' (''command blocked by policy '' @ em_dash @ '' the rule id is in recovery_hint; use a safer equivalent or ask an admin to adjust command-rules.toml'') False
      else if code = CODE_FORBIDDEN then cl ''FORBIDDEN'' (''host not in your group '' @ em_dash @ '' ask an admin to check your group assignment'') False
      else if code = CODE_HOST_NOT_FOUND then cl ''HOST_NOT_FOUND'' (''check available host names with host_list'') False
      else if code = CODE_INVALID_PARAMS then cl ''INVALID_PARAMS'' (''missing or invalid parameter '' @ em_dash @ '' check this tool'' @ [CHR 0x27] @ ''s inputSchema.required in tools/list'') False
      else if code = CODE_PANE_NOT_FOUND then cl ''PANE_NOT_FOUND'' (''confirm the current pane_id with list_window_panes (the pane may have been closed)'') False
      else if code = CODE_SESSION_EXISTS then cl ''SESSION_EXISTS'' (''session already exists '' @ em_dash @ '' use session_attach directly, or choose another name'') False
      else if code = CODE_SESSION_NOT_FOUND then cl ''SESSION_NOT_FOUND'' (''create the session with session_create'') False
      else if code = CODE_WINDOW_NOT_FOUND then cl ''WINDOW_NOT_FOUND'' (''confirm the window with window_info / select_window'') False
      else if code = CODE_FORWARD_NOT_FOUND then cl ''FORWARD_NOT_FOUND'' (''confirm the forward id with forward_list'') False
      else if code = CODE_PANE_BUSY then cl ''PANE_BUSY'' (''pane is busy with a running process '' @ em_dash @ '' use close_pane / pick another pane, or respawn_pane(kill=true) when replacement is intentional'') False
      else if code = CODE_PATH_TRAVERSAL then cl ''PATH_TRAVERSAL'' (''paths must not contain '' @ [CHR 0x27] @ ''..'' @ [CHR 0x27] @ '' and downloads require relative paths '' @ em_dash @ '' fix the path and retry'') False
      else if code = CODE_FORWARD_DENIED then cl ''FORWARD_DENIED'' (''forward target not whitelisted '' @ em_dash @ '' check allowed_forward_targets in hosts.yaml'') False
      else if code = CODE_AUTH_FAILED then cl ''AUTH_FAILED'' (''check that the bridge_token in hosts.yaml matches the bridge (direct mode)'') False
      else if code = CODE_BRIDGE_UNREACHABLE then cl ''BRIDGE_UNREACHABLE'' (''bridge not running '' @ em_dash @ '' verify with systemctl status rmux-bridge, then retry'') True
      else if code = CODE_CONNECTION_LOST then cl ''CONNECTION_LOST'' (''bridge restart or network drop '' @ em_dash @ '' wait a few seconds and retry'') True
      else if code = CODE_CONNECT_TIMEOUT then cl ''CONNECT_TIMEOUT'' (''connect timeout '' @ em_dash @ '' confirm the host is up and Server port 9788 reachable, then retry'') True
      else if code = CODE_TIMEOUT then cl ''TIMEOUT'' (''exec timeout does NOT kill the process '' @ em_dash @ '' check progress with capture_pane and wait with wait_for_text; do not blindly re-run'') False
      else if code = CODE_CLI_FAILED then cl ''CLI_FAILED'' (''bridge rmux CLI fallback failed '' @ em_dash @ '' check the rmux install (rmux list-commands)'') False
      else if code = CODE_PROTOCOL_ERROR then cl ''PROTOCOL_ERROR'' (''frame protocol error '' @ em_dash @ '' check the bridge version and consider upgrading'') False
      else cl ''UNKNOWN'' (''inspect the error detail; if needed, check terminal state with capture_pane before retrying'') False)"



definition classify_message :: "string \<Rightarrow> classified" where
  "classify_message msg = lookup (classify_error_message msg)"

section \<open>Results\<close>

text \<open>\<open>obj.insert(k, v)\<close>, which is also \<open>value[k] = v\<close> for an object, and \<open>entry(k).or_insert(v)\<close>.\<close>

fun put_entry :: "string \<Rightarrow> json \<Rightarrow> (string \<times> json) list \<Rightarrow> (string \<times> json) list" where
  "put_entry k v [] = [(k, v)]"
| "put_entry k v ((k', v') # kvs) =
     (if k = k' then (k, v) # kvs else if k < k' then (k, v) # (k', v') # kvs else (k', v') # put_entry k v kvs)"

fun jinsert :: "string \<Rightarrow> json \<Rightarrow> json \<Rightarrow> json" where
  "jinsert k v (JObj kvs) = JObj (put_entry k v kvs)"
| "jinsert k v j = j"

definition jor_insert :: "string \<Rightarrow> json \<Rightarrow> json \<Rightarrow> json" where
  "jor_insert k v j = (if jget j k = None then jinsert k v j else j)"

definition jget_bool :: "json \<Rightarrow> string \<Rightarrow> bool option" where
  "jget_bool v k = Option.bind (jget v k) jas_bool"

definition str_or :: "string \<Rightarrow> string option \<Rightarrow> string" where
  "str_or d s = (case s of Some s \<Rightarrow> s | None \<Rightarrow> d)"

text \<open>The bridge adds the code to an answer that reports a failure without one.\<close>

definition send_response :: "json \<Rightarrow> json" where
  "send_response response =
     (if jget_bool response ''ok'' = Some False \<and> jget response ''error_code'' = None
      then jinsert ''error_code'' (JStr (classify_error_message (str_or [] (jget_str response ''error'')))) response
      else response)"

definition enrich_error :: "json \<Rightarrow> json" where
  "enrich_error obj =
     (if \<not> (case obj of JObj _ \<Rightarrow> True | _ \<Rightarrow> False) then obj
      else if jget_bool obj ''ok'' \<noteq> Some False then obj
      else case jget_str obj ''error_code'' of
        Some code \<Rightarrow>
          (if jget obj ''recovery_hint'' = None \<or> jget obj ''retryable'' = None
           then let classified = lookup code
                in jor_insert ''retryable'' (JBool (cl_retryable classified))
                     (jor_insert ''recovery_hint'' (JStr (cl_hint classified)) obj)
           else obj)
      | None \<Rightarrow>
          (let msg = str_or [] (jget_str obj ''error'')
           in if jget_bool obj ''refused'' = Some True
              then let obj = jinsert ''error_code'' (JStr ''REFUSED_STATE'') obj;
                       obj = (if msg \<noteq> [] then jinsert ''recovery_hint'' (JStr msg) obj else obj)
                   in jinsert ''retryable'' (JBool False) obj
              else let classified = classify_message msg
                   in jinsert ''retryable'' (JBool (cl_retryable classified))
                        (jinsert ''recovery_hint'' (JStr (cl_hint classified))
                          (jinsert ''error_code'' (JStr (cl_code classified)) obj))))"

definition error_result :: "string \<Rightarrow> json" where
  "error_result msg =
     (let classified = classify_message msg
      in JObj [(''error'', JStr msg), (''error_code'', JStr (cl_code classified)), (''ok'', JBool False),
               (''recovery_hint'', JStr (cl_hint classified)), (''retryable'', JBool (cl_retryable classified))])"

text \<open>The result of a call as a client sees it: whether it is flagged as an error, and the value.\<close>

definition call_result :: "string + json \<Rightarrow> string + bool \<times> json" where
  "call_result r = (case r of
     Inr result \<Rightarrow>
       (let result = enrich_error result in Inr (jget_bool result ''ok'' = Some False, result))
   | Inl e \<Rightarrow> if prefix ''unknown tool'' e then Inl e else Inr (True, error_result e))"

section \<open>Facts\<close>

lemma map_of_put_entry [simp]: "map_of (put_entry k v kvs) = (map_of kvs)(k \<mapsto> v)"
  by (induction k v kvs rule: put_entry.induct) (auto simp: fun_eq_iff)

lemma jget_jinsert [simp]: "jget (jinsert k v (JObj kvs)) k' = (if k' = k then Some v else map_of kvs k')"
  by simp

lemma set_put_entry: "fst ` set (put_entry k v kvs) = insert k (fst ` set kvs)"
  by (induction k v kvs rule: put_entry.induct) auto

text \<open>The entries of an object are in strictly increasing key order.\<close>

definition keys_sorted :: "json \<Rightarrow> bool" where
  "keys_sorted j \<longleftrightarrow> (case j of JObj kvs \<Rightarrow> sorted_wrt (<) (map fst kvs) | _ \<Rightarrow> True)"

lemma sorted_put_entry:
  "sorted_wrt (<) (map fst kvs) \<Longrightarrow> sorted_wrt (<) (map fst (put_entry k v kvs))"
proof (induction k v kvs rule: put_entry.induct)
  case (2 k v k' v' kvs)
  then show ?case
    using set_put_entry [of k v kvs] by (auto simp flip: set_map simp: set_put_entry dest: order.strict_trans)
qed simp

lemma keys_sorted_jinsert [simp]: "keys_sorted j \<Longrightarrow> keys_sorted (jinsert k v j)"
  by (cases j) (auto simp: keys_sorted_def sorted_put_entry)

lemma keys_sorted_jor_insert [simp]: "keys_sorted j \<Longrightarrow> keys_sorted (jor_insert k v j)"
  by (simp add: jor_insert_def)

definition known_codes :: "string list" where
  "known_codes = [CODE_UNKNOWN, CODE_FORBIDDEN, CODE_HOST_NOT_FOUND, CODE_INVALID_PARAMS, CODE_SESSION_NOT_FOUND,
     CODE_SESSION_EXISTS, CODE_PANE_NOT_FOUND, CODE_PANE_BUSY, CODE_WINDOW_NOT_FOUND, CODE_FORWARD_NOT_FOUND,
     CODE_FORWARD_DENIED, CODE_PATH_TRAVERSAL, CODE_AUTH_FAILED, CODE_BRIDGE_UNREACHABLE, CODE_CONNECTION_LOST,
     CODE_CONNECT_TIMEOUT, CODE_TIMEOUT, CODE_CLI_FAILED, CODE_PROTOCOL_ERROR, CODE_COMMAND_DENIED,
     CODE_APPROVAL_REQUIRED, CODE_APPROVAL_INVALID]"

lemma if_mem: "a \<in> A \<Longrightarrow> b \<in> A \<Longrightarrow> (if c then a else b) \<in> A"
  by simp

lemma classify_known: "classify_error_message msg \<in> set known_codes"
  unfolding classify_error_message_def Let_def by (intro if_mem) (simp_all add: known_codes_def)

lemma lookup_code: "code \<in> set known_codes \<Longrightarrow> cl_code (lookup code) = code"
  by (auto simp: known_codes_def lookup_def code_defs cl_def)

lemma classify_message_code [simp]: "cl_code (classify_message msg) = classify_error_message msg"
  unfolding classify_message_def using classify_known by (rule lookup_code)

lemma enrich_ok: "jget_bool j ''ok'' \<noteq> Some False \<Longrightarrow> enrich_error j = j"
  by (simp add: enrich_error_def)

lemma failing_object: "jget_bool j ''ok'' = Some False \<Longrightarrow> \<exists>kvs. j = JObj kvs"
  by (cases j) (auto simp: jget_bool_def)

lemma jget_jor_insert [simp]:
  "jget (jor_insert k v (JObj kvs)) k' = (if k' = k then Some (case map_of kvs k of Some w \<Rightarrow> w | None \<Rightarrow> v) else map_of kvs k')"
  by (auto simp: jor_insert_def split: option.split)

lemma jor_insert_obj: "\<exists>kvs'. jor_insert k v (JObj kvs) = JObj kvs' \<and> map_of kvs' = (map_of kvs)(k \<mapsto> (case map_of kvs k of Some w \<Rightarrow> w | None \<Rightarrow> v))"
  by (auto simp: jor_insert_def fun_eq_iff split: option.split)

text \<open>The fields of an enriched failure, case by case.\<close>

definition enriched :: "json \<Rightarrow> string \<Rightarrow> json option" where
  "enriched j k =
     (let msg = str_or [] (jget_str j ''error''); refused = (jget_bool j ''refused'' = Some True)
      in case jget_str j ''error_code'' of
        Some code \<Rightarrow>
          (if k = ''recovery_hint'' \<and> jget j k = None then Some (JStr (cl_hint (lookup code)))
           else if k = ''retryable'' \<and> jget j k = None then Some (JBool (cl_retryable (lookup code)))
           else jget j k)
      | None \<Rightarrow>
          (if k = ''error_code'' then Some (JStr (if refused then ''REFUSED_STATE'' else classify_error_message msg))
           else if k = ''recovery_hint'' then
             (if refused then (if msg = [] then jget j k else Some (JStr msg)) else Some (JStr (cl_hint (classify_message msg))))
           else if k = ''retryable'' then Some (JBool (\<not> refused \<and> cl_retryable (classify_message msg)))
           else jget j k))"

lemma jget_enrich_error:
  assumes "jget_bool j ''ok'' = Some False"
  shows "jget (enrich_error j) k = enriched j k"
proof -
  obtain kvs where j: "j = JObj kvs" using failing_object [OF assms] by blast
  show ?thesis
  proof (cases "jget_str j ''error_code''")
    case (Some code)
    obtain kvs' where i: "jor_insert ''recovery_hint'' (JStr (cl_hint (lookup code))) (JObj kvs) = JObj kvs'"
        "map_of kvs' = (map_of kvs)(''recovery_hint'' \<mapsto> (case map_of kvs ''recovery_hint'' of Some w \<Rightarrow> w | None \<Rightarrow> JStr (cl_hint (lookup code))))"
      using jor_insert_obj by blast
    show ?thesis using assms Some i
      by (auto simp: j enrich_error_def enriched_def Let_def split: option.splits)
  next
    case None
    then show ?thesis using assms by (auto simp: j enrich_error_def enriched_def Let_def)
  qed
qed

lemma keys_sorted_enrich_error: "keys_sorted j \<Longrightarrow> keys_sorted (enrich_error j)"
  by (auto simp: enrich_error_def Let_def split: option.split)

text \<open>Two objects with sorted keys and the same fields are the same object.\<close>

lemma map_of_above: "\<forall>a \<in> set (map fst zs). p < a \<Longrightarrow> q \<le> p \<Longrightarrow> map_of zs (q :: string) = None"
  by (force simp: map_of_eq_None_iff)

lemma sorted_entries_eq:
  "sorted_wrt (<) (map fst xs) \<Longrightarrow> sorted_wrt (<) (map fst ys) \<Longrightarrow> (\<And>k. map_of xs k = map_of ys k) \<Longrightarrow> xs = (ys :: (string \<times> json) list)"
proof (induction xs arbitrary: ys)
  case Nil
  show ?case
  proof (cases ys)
    case (Cons y ys')
    then show ?thesis using Nil.prems(3) [of "fst y"] by (cases y) simp
  qed simp
next
  case (Cons x xs)
  obtain k v where x: "x = (k, v)" by (cases x)
  have "map_of ys k = Some v" using Cons.prems(3) [of k] x by simp
  then obtain k' v' ys' where ys: "ys = (k', v') # ys'" by (cases ys) auto
  have above: "\<forall>a \<in> set (map fst xs). k < a" "\<forall>a \<in> set (map fst ys'). k' < a"
    using Cons.prems(1,2) x ys by simp_all
  have k: "k = k'"
  proof (rule linorder_cases [of k k'])
    assume "k < k'"
    then show ?thesis using Cons.prems(3) [of k] map_of_above [OF above(2), of k] x ys by (simp add: less_imp_le split: if_splits)
  next
    assume "k' < k"
    then show ?thesis using Cons.prems(3) [of k'] map_of_above [OF above(1), of "k'"] x ys by (simp add: less_imp_le split: if_splits)
  qed
  have "map_of xs q = map_of ys' q" for q
  proof (cases "q = k")
    case True
    then show ?thesis using map_of_above [OF above(1), of k] map_of_above [OF above(2), of k] k by simp
  next
    case False
    then show ?thesis using Cons.prems(3) [of q] x ys k by simp
  qed
  then have "xs = ys'" using Cons.IH [of ys'] Cons.prems(1,2) x ys by simp
  then show ?case using Cons.prems(3) [of k] x ys k by simp
qed

lemma objects_eq:
  assumes "keys_sorted (JObj xs)" and "keys_sorted (JObj ys)" and "\<And>k. jget (JObj xs) k = jget (JObj ys) k"
  shows "JObj xs = JObj ys"
  using assms sorted_entries_eq [of xs ys] by (auto simp: keys_sorted_def fun_eq_iff)

section \<open>Properties\<close>

definition result_ok :: "string + json \<Rightarrow> bool" where
  "result_ok r \<longleftrightarrow> (case r of Inr j \<Rightarrow> keys_sorted j | Inl _ \<Rightarrow> True)"

definition complete_error :: "json \<Rightarrow> bool" where
  "complete_error v \<longleftrightarrow> jget_bool v ''ok'' = Some False \<and> jget_str v ''error_code'' \<noteq> None \<and> jget v ''retryable'' \<noteq> None
     \<and> (jget v ''recovery_hint'' \<noteq> None \<or> jget_bool v ''refused'' = Some True \<and> str_or [] (jget_str v ''error'') = [])"

definition added_fields :: "string list" where "added_fields = [''error_code'', ''recovery_hint'', ''retryable'']"

lemma enriched_other: "k \<notin> set added_fields \<Longrightarrow> enriched j k = jget j k"
  by (auto simp: enriched_def added_fields_def Let_def split: option.split)

lemma jget_bool_enrich: "k \<notin> set added_fields \<Longrightarrow> jget_bool (enrich_error j) k = jget_bool j k"
  by (cases "jget_bool j ''ok'' = Some False") (simp_all add: jget_bool_def [of "enrich_error j"] jget_enrich_error enriched_other enrich_ok jget_bool_def [symmetric])

lemma jget_str_enrich: "k \<notin> set added_fields \<Longrightarrow> jget_str (enrich_error j) k = jget_str j k"
  by (cases "jget_bool j ''ok'' = Some False") (simp_all add: jget_str_def [of "enrich_error j"] jget_enrich_error enriched_other enrich_ok jget_str_def [symmetric])

lemma complete_enrich:
  assumes "jget_bool j ''ok'' = Some False"
  shows "complete_error (enrich_error j)"
proof -
  have s: "jget_str (enrich_error j) ''error_code'' = Option.bind (enriched j ''error_code'') jas_str"
    by (simp add: jget_str_def jget_enrich_error [OF assms])
  show ?thesis
    unfolding complete_error_def s jget_enrich_error [OF assms]
    using assms jget_bool_enrich [of "''ok''" j] jget_bool_enrich [of "''refused''" j] jget_str_enrich [of "''error''" j]
    by (cases "jget_str j ''error_code''") (auto simp: added_fields_def enriched_def Let_def jget_str_def split: if_splits)
qed

lemma enrich_complete: "complete_error v \<Longrightarrow> jget v ''recovery_hint'' \<noteq> None \<Longrightarrow> enrich_error v = v"
  by (auto simp: enrich_error_def complete_error_def split: option.split)

lemma error_result_complete: "complete_error (error_result e)"
  by (simp add: complete_error_def error_result_def Let_def jget_bool_def jget_str_def)

lemma keys_sorted_error_result: "keys_sorted (error_result e)"
  by (simp add: keys_sorted_def error_result_def Let_def)

text \<open>
  C26. Every answer to a tool call is well formed. An error that begins with \<open>unknown tool\<close> is passed
  on as it is, as an error of the protocol without a code. Every other call is answered with a value:
  one that failed, or whose result says so, is flagged as an error, and then its value has a code that
  is a text, a retry flag and a hint, except for a refusal without an explanation, which has no hint;
  all other fields are those the tool gave and the keys of the object stay in order. Classifying
  the value again changes nothing, except that it adds a hint to such an unexplained refusal.
\<close>

theorem errors_are_complete:
  assumes "result_ok r"
  shows "case call_result r of
     Inl e \<Rightarrow> r = Inl e \<and> prefix ''unknown tool'' e
   | Inr (flag, v) \<Rightarrow> keys_sorted v \<and> (flag \<longleftrightarrow> jget_bool v ''ok'' = Some False) \<and> (flag \<longrightarrow> complete_error v)
       \<and> (\<not> flag \<or> jget v ''recovery_hint'' \<noteq> None \<longrightarrow> enrich_error v = v)
       \<and> (case r of Inr j \<Rightarrow> (flag \<longleftrightarrow> jget_bool j ''ok'' = Some False) \<and> (\<forall>k. k \<in> set added_fields \<or> jget v k = jget j k)
          | Inl e \<Rightarrow> flag \<and> jget_str v ''error'' = Some e \<and> jget_str v ''error_code'' = Some (classify_error_message e))"
proof (cases r)
  case (Inl e)
  then show ?thesis
    using error_result_complete [of e] keys_sorted_error_result [of e] enrich_complete [of "error_result e"]
    by (simp add: call_result_def complete_error_def) (simp add: error_result_def jget_str_def Let_def)
next
  case (Inr j)
  have "jget_bool (enrich_error j) ''ok'' = jget_bool j ''ok''" by (rule jget_bool_enrich) (simp add: added_fields_def)
  moreover have "k \<in> set added_fields \<or> jget (enrich_error j) k = jget j k" for k
    using enriched_other [of k j] by (cases "jget_bool j ''ok'' = Some False") (auto simp: jget_enrich_error enrich_ok)
  moreover have "enrich_error (enrich_error j) = enrich_error j"
    if "jget_bool j ''ok'' \<noteq> Some False \<or> jget (enrich_error j) ''recovery_hint'' \<noteq> None"
    using that complete_enrich [of j] enrich_complete [of "enrich_error j"]
    by (cases "jget_bool j ''ok'' = Some False") (simp_all add: enrich_ok)
  ultimately show ?thesis
    using assms Inr complete_enrich [of j] by (simp add: call_result_def Let_def result_ok_def keys_sorted_enrich_error)
qed

definition lost_session :: json where
  "lost_session = JObj [(''error'', JStr ''session not found''), (''ok'', JBool False)]"

theorem errors_are_complete_witness:
  "case call_result (Inr lost_session) of Inl _ \<Rightarrow> False
   | Inr (flag, v) \<Rightarrow> flag \<and> complete_error v \<and> jget_str v ''error_code'' = Some CODE_SESSION_NOT_FOUND"
proof -
  have "result_ok (Inr lost_session)" by (simp add: result_ok_def keys_sorted_def lost_session_def)
  note t = errors_are_complete [OF this]
  have "call_result (Inr lost_session) = Inr (True, enrich_error lost_session)"
    and "jget_str (enrich_error lost_session) ''error_code'' = Some CODE_SESSION_NOT_FOUND"
    by code_simp+
  with t show ?thesis by simp
qed

text \<open>A refusal without an explanation gets a hint only when it is classified a second time.\<close>

lemma refusal_classified_twice:
  "let v = JObj [(''ok'', JBool False), (''refused'', JBool True)]
   in jget (enrich_error v) ''recovery_hint'' = None \<and> jget (enrich_error (enrich_error v)) ''recovery_hint'' \<noteq> None"
  by code_simp

text \<open>
  Both sides give a failure the same code, hint and retry flag: an answer the bridge has classified
  comes out of the server as it would had only the server classified it.
\<close>

theorem classified_once:
  assumes "keys_sorted j" and "jget_bool j ''refused'' \<noteq> Some True" and "jget j ''error_code'' = None"
    and "jget j ''recovery_hint'' = None" and "jget j ''retryable'' = None"
  shows "enrich_error (send_response j) = enrich_error j"
proof (cases "jget_bool j ''ok'' = Some False")
  case True
  obtain kvs where j: "j = JObj kvs" using failing_object [OF True] by blast
  have s: "send_response j = jinsert ''error_code'' (JStr (classify_error_message (str_or [] (jget_str j ''error'')))) j"
    using True assms(3) by (simp add: send_response_def)
  have ok: "jget_bool (send_response j) ''ok'' = Some False" unfolding s using True by (simp add: j jget_bool_def)
  have get: "jget (enrich_error (send_response j)) k = jget (enrich_error j) k" for k
    using assms(2-5) unfolding jget_enrich_error [OF ok] jget_enrich_error [OF True]
    unfolding s by (auto simp: j enriched_def Let_def jget_str_def jget_bool_def classify_message_def)
  obtain xs ys where "enrich_error (send_response j) = JObj xs" "enrich_error j = JObj ys"
    using failing_object [of "enrich_error j"] failing_object [of "enrich_error (send_response j)"] True ok
      jget_bool_enrich [of "''ok''"] by (auto simp: added_fields_def)
  then show ?thesis
    using objects_eq [of xs ys] get keys_sorted_enrich_error [of j] keys_sorted_enrich_error [of "send_response j"] assms(1)
    by (simp add: s)
qed (simp add: send_response_def)

end
