(* ===== verification/Multiplexer.thy ===== *)
theory Multiplexer
  imports Terminal_State Error_Code Recording_Sync
begin

text \<open>
  The terminal multiplexer as the handlers of a bridge see it (\<open>rmux-bridge/src/protocol/\<close>). It is an
  external service behind a client library. Its operations are a record of functions on a state of its
  own, each with a result that may be an error text; whatever happens on the terminals between two
  operations is part of the operations. Base64 and two regular expressions are fields of the same
  record. The combinators below compose handlers the way the handlers of the source nest their matches.
\<close>

section \<open>Answers\<close>

text \<open>\<open>json!({...})\<close> inserts its entries one after the other; an absent option is \<open>null\<close>.\<close>

definition jobj :: "(string \<times> json) list \<Rightarrow> json" where
  "jobj kvs = JObj (fold (\<lambda>(k, v). put_entry k v) kvs [])"

definition jopt :: "('a \<Rightarrow> json) \<Rightarrow> 'a option \<Rightarrow> json" where
  "jopt f x = (case x of Some y \<Rightarrow> f y | None \<Rightarrow> JNull)"

definition jnat :: "nat \<Rightarrow> json" where
  "jnat n = JInt (int n)"

definition failed :: "string \<Rightarrow> json" where
  "failed e = jobj [(''ok'', JBool False), (''error'', JStr e)]"

section \<open>The multiplexer\<close>

type_synonym ('m, 'a) sdk = "'m \<Rightarrow> 'm \<times> (string + 'a)"
type_synonym 'm handler = "'m \<Rightarrow> 'm \<times> json"

text \<open>Handles of the library, which the bridge only passes on.\<close>

type_synonym pane = nat
type_synonym session = nat

record snapshot =
  sn_text :: string
  sn_row :: nat
  sn_col :: nat
  sn_visible :: bool

datatype process_state = PUnknown | PRunning "nat option" | PExited

record exit_state =
  xs_code :: "int option"
  xs_signal :: "int option"
  xs_message :: "string option"

record pane_info =
  pi_id :: nat
  pi_text :: string
  pi_window_id :: string
  pi_session_id :: string
  pi_index :: nat
  pi_cols :: nat
  pi_rows :: nat
  pi_command :: json
  pi_cwd :: json
  pi_tags :: json
  pi_process :: process_state
  pi_exit :: "exit_state option"

record pane_found =
  pf_pane_id :: string
  pf_session :: string
  pf_session_id :: string
  pf_window_id :: string
  pf_window_index :: nat
  pf_pane_index :: nat
  pf_title :: json
  pf_command :: json
  pf_cwd :: json
  pf_tags :: json
  pf_process :: process_state

record pane_filter =
  ff_session :: "string option"
  ff_title :: "string option"
  ff_title_prefix :: "string option"
  ff_command :: "string option"
  ff_cwd :: "string option"
  ff_window :: "nat option"
  ff_running :: bool
  ff_exited :: bool

record window_info =
  wi_id :: string
  wi_cols :: nat
  wi_rows :: nat
  wi_name :: json
  wi_index :: nat

record text_match =
  tm_start_row :: nat
  tm_start_col :: nat
  tm_end_row :: nat
  tm_end_col :: nat
  tm_text :: string

record capture_request =
  cr_ansi :: "bool option"
  cr_start :: "int option"
  cr_end :: "int option"
  cr_join :: "bool option"
  cr_spaces :: "bool option"
  cr_alternate :: "bool option"
  cr_buffer :: "string option"

datatype command_spec = ShellCommand string | Argv "string list"

record split_request =
  sr_down :: bool
  sr_command :: command_spec
  sr_cwd :: "string option"
  sr_env :: "(string \<times> string) list"
  sr_title :: "string option"
  sr_keep :: "bool option"

record respawn_request =
  rr_kill :: bool
  rr_cwd :: "string option"
  rr_keep :: "bool option"
  rr_command :: "command_spec option"
  rr_env :: "string list option"

record ensure_request =
  er_name :: string
  er_detached :: bool
  er_dir :: "string option"
  er_env :: "string list"
  er_command :: string

record run_result =
  ru_exit :: "int option"
  ru_stdout :: bytes
  ru_stderr :: bytes

record collected =
  co_bytes :: bytes
  co_exit :: "exit_state option"
  co_truncated :: bool
  co_lagged :: bool
  co_missed :: nat

datatype wait_error = WaitTimeout string | WaitError string
datatype collect_end = Collected collected | CollectError string | JoinError string | CollectTimeout
datatype layout = EvenHorizontal | EvenVertical | MainHorizontal | MainVertical | Tiled

record 'm rmux =
  mx_session_name :: "string \<Rightarrow> string + string"
  mx_has_session :: "string \<Rightarrow> ('m, bool) sdk"
  mx_session :: "string \<Rightarrow> ('m, session) sdk"
  mx_get_pane :: "bool \<Rightarrow> string \<Rightarrow> nat \<Rightarrow> ('m, pane) sdk"
  mx_pane_by_title :: "string \<Rightarrow> ('m, pane) sdk"
  mx_pane_text :: "nat \<Rightarrow> string"
  mx_id :: "pane \<Rightarrow> ('m, nat option) sdk"
  mx_snapshot :: "pane \<Rightarrow> ('m, snapshot) sdk"
  mx_info :: "pane \<Rightarrow> ('m, pane_info list) sdk"
  mx_exists :: "pane \<Rightarrow> ('m, bool) sdk"
  mx_title :: "pane \<Rightarrow> ('m, string option) sdk"
  mx_set_title :: "pane \<Rightarrow> string \<Rightarrow> ('m, unit) sdk"
  mx_resize :: "pane \<Rightarrow> nat \<Rightarrow> nat \<Rightarrow> ('m, unit) sdk"
  mx_close :: "pane \<Rightarrow> ('m, bool) sdk"
  mx_split :: "pane \<Rightarrow> bool \<Rightarrow> ('m, pane) sdk"
  mx_split_with :: "pane \<Rightarrow> split_request \<Rightarrow> ('m, pane) sdk"
  mx_respawn :: "pane \<Rightarrow> respawn_request \<Rightarrow> ('m, unit) sdk"
  mx_spawn :: "pane \<Rightarrow> string list \<Rightarrow> ('m, unit) sdk"
  mx_shell :: "pane \<Rightarrow> string \<Rightarrow> ('m, unit) sdk"
  mx_send_key :: "pane \<Rightarrow> string \<Rightarrow> ('m, unit) sdk"
  mx_send_text :: "pane \<Rightarrow> string \<Rightarrow> ('m, unit) sdk"
  mx_broadcast :: "pane list \<Rightarrow> string \<Rightarrow> ('m, unit) sdk"
  mx_find_text :: "pane \<Rightarrow> string \<Rightarrow> ('m, text_match option) sdk"
  mx_find_text_all :: "pane \<Rightarrow> string \<Rightarrow> ('m, text_match list) sdk"
  mx_capture :: "pane \<Rightarrow> capture_request \<Rightarrow> ('m, bytes \<times> string option) sdk"
  mx_region :: "pane \<Rightarrow> (nat \<times> nat \<times> nat \<times> nat) option \<Rightarrow> bool \<Rightarrow> ('m, string) sdk"
  mx_expect_text :: "pane \<Rightarrow> string \<Rightarrow> nat \<Rightarrow> 'm \<Rightarrow> 'm \<times> (wait_error + snapshot)"
  mx_wait_stable :: "pane \<Rightarrow> nat \<Rightarrow> nat \<Rightarrow> ('m, snapshot) sdk"
  mx_wait_for :: "bool \<Rightarrow> pane \<Rightarrow> bytes \<Rightarrow> nat \<Rightarrow> 'm \<Rightarrow> 'm \<times> (wait_error + unit)"
  mx_collect :: "bool \<Rightarrow> pane \<Rightarrow> nat \<Rightarrow> nat \<Rightarrow> 'm \<Rightarrow> 'm \<times> collect_end"
  mx_recover_output :: "pane \<Rightarrow> ('m, unit) sdk"
  mx_elapsed :: "'m \<Rightarrow> 'm \<times> nat"
  mx_kill :: "session \<Rightarrow> ('m, bool) sdk"
  mx_new_window :: "session \<Rightarrow> ('m, unit) sdk"
  mx_window_close :: "session \<Rightarrow> nat \<Rightarrow> ('m, unit) sdk"
  mx_window_rename :: "session \<Rightarrow> nat \<Rightarrow> string \<Rightarrow> ('m, unit) sdk"
  mx_window_resize :: "session \<Rightarrow> nat \<Rightarrow> nat option \<Rightarrow> nat option \<Rightarrow> ('m, unit) sdk"
  mx_window_select :: "session \<Rightarrow> nat \<Rightarrow> ('m, unit) sdk"
  mx_window_layout :: "session \<Rightarrow> nat \<Rightarrow> layout \<Rightarrow> ('m, unit) sdk"
  mx_window_info :: "session \<Rightarrow> nat \<Rightarrow> ('m, window_info list) sdk"
  mx_window_panes :: "session \<Rightarrow> nat \<Rightarrow> ('m, (string \<times> bool) list) sdk"
  mx_ensure :: "ensure_request \<Rightarrow> ('m, pane) sdk"
  mx_list_sessions :: "('m, string list) sdk"
  mx_find_sessions :: "string option \<Rightarrow> ('m, string list) sdk"
  mx_find_panes :: "pane_filter \<Rightarrow> ('m, pane_found list) sdk"
  mx_capabilities :: "('m, string list) sdk"
  mx_has_capability :: "string \<Rightarrow> ('m, bool) sdk"
  mx_cmd :: "string list \<Rightarrow> ('m, run_result) sdk"
  mx_cli :: "string list \<Rightarrow> ('m, bool \<times> bytes \<times> bytes) sdk"
  mx_socket :: string
  mx_user :: "(string \<times> string \<times> string) option"
  mx_b64 :: "bytes \<Rightarrow> string"
  mx_unb64 :: "string \<Rightarrow> string + bytes"
  mx_pane_id_re :: "string \<Rightarrow> string option"
  mx_buffer_re :: "string \<Rightarrow> (string \<times> string \<times> string) option"

text \<open>An operation whose error is the answer, and one whose error is handled.\<close>

definition reply :: "json \<Rightarrow> 'm handler" where
  "reply j m = (m, j)"

definition attempt :: "('m \<Rightarrow> 'm \<times> 'a) \<Rightarrow> ('a \<Rightarrow> 'm handler) \<Rightarrow> 'm handler" where
  "attempt op f m = (case op m of (m', r) \<Rightarrow> f r m')"

definition sdk :: "('m, 'a) sdk \<Rightarrow> ('a \<Rightarrow> 'm handler) \<Rightarrow> 'm handler" where
  "sdk op f = attempt op (\<lambda>r. case r of Inl e \<Rightarrow> reply (failed e) | Inr x \<Rightarrow> f x)"

definition map_answer :: "(json \<Rightarrow> json) \<Rightarrow> 'm handler \<Rightarrow> 'm handler" where
  "map_answer F h m = apsnd F (h m)"

definition lossy :: "bytes \<Rightarrow> string" where
  "lossy bs = bytes_str (from_utf8_lossy bs)"

section \<open>Names\<close>

definition parse_u32 :: "string \<Rightarrow> nat option" where
  "parse_u32 s =
     (let ds = (if prefix ''+'' s then tl s else s); n = foldl (\<lambda>n c. n * 10 + (of_char c - 48)) 0 ds
      in if ds \<noteq> [] \<and> list_all (\<lambda>c. 48 \<le> byte_of c \<and> byte_of c \<le> 57) ds \<and> n < 2 ^ 32 then Some n else None)"

definition parse_pane_id :: "string \<Rightarrow> nat option" where
  "parse_pane_id raw = (if prefix ''%'' raw then parse_u32 (tl raw) else None)"

definition with_session_name :: "'m rmux \<Rightarrow> string \<Rightarrow> (string \<Rightarrow> 'm handler) \<Rightarrow> 'm handler" where
  "with_session_name mx name f = (case mx_session_name mx name of Inl e \<Rightarrow> reply (failed e) | Inr sn \<Rightarrow> f sn)"

definition with_target :: "'m rmux \<Rightarrow> string \<Rightarrow> string \<Rightarrow> (string \<Rightarrow> nat \<Rightarrow> 'm handler) \<Rightarrow> 'm handler" where
  "with_target mx session_name pane_id_str f = (case parse_pane_id pane_id_str of
     None \<Rightarrow> reply (failed (''invalid pane_id: '' @ pane_id_str))
   | Some pane_id \<Rightarrow> with_session_name mx session_name (\<lambda>sn. f sn pane_id))"

definition with_pane :: "'m rmux \<Rightarrow> string \<Rightarrow> string \<Rightarrow> (pane \<Rightarrow> 'm handler) \<Rightarrow> 'm handler" where
  "with_pane mx session_name pane_id_str f =
     with_target mx session_name pane_id_str (\<lambda>sn pane_id. sdk (mx_get_pane mx False sn pane_id) f)"

definition with_session :: "'m rmux \<Rightarrow> string \<Rightarrow> (session \<Rightarrow> 'm handler) \<Rightarrow> 'm handler" where
  "with_session mx session_name f = with_session_name mx session_name (\<lambda>sn. sdk (mx_session mx sn) f)"

definition ok_reply :: "(string \<times> json) list \<Rightarrow> 'm handler" where
  "ok_reply kvs = reply (jobj ((''ok'', JBool True) # kvs))"

text \<open>A multiplexer that is not there; the examples below are made from it.\<close>

definition absent_mux :: "'m rmux" where
  "absent_mux = \<lparr>mx_session_name = Inr,
     mx_has_session = (\<lambda>_ m. (m, Inl ''unavailable'')),
     mx_session = (\<lambda>_ m. (m, Inl ''unavailable'')),
     mx_get_pane = (\<lambda>_ _ _ m. (m, Inl ''unavailable'')),
     mx_pane_by_title = (\<lambda>_ m. (m, Inl ''unavailable'')),
     mx_pane_text = (\<lambda>n. CHR ''%'' # decimal n),
     mx_id = (\<lambda>_ m. (m, Inl ''unavailable'')),
     mx_snapshot = (\<lambda>_ m. (m, Inl ''unavailable'')),
     mx_info = (\<lambda>_ m. (m, Inl ''unavailable'')),
     mx_exists = (\<lambda>_ m. (m, Inl ''unavailable'')),
     mx_title = (\<lambda>_ m. (m, Inl ''unavailable'')),
     mx_set_title = (\<lambda>_ _ m. (m, Inl ''unavailable'')),
     mx_resize = (\<lambda>_ _ _ m. (m, Inl ''unavailable'')),
     mx_close = (\<lambda>_ m. (m, Inl ''unavailable'')),
     mx_split = (\<lambda>_ _ m. (m, Inl ''unavailable'')),
     mx_split_with = (\<lambda>_ _ m. (m, Inl ''unavailable'')),
     mx_respawn = (\<lambda>_ _ m. (m, Inl ''unavailable'')),
     mx_spawn = (\<lambda>_ _ m. (m, Inl ''unavailable'')),
     mx_shell = (\<lambda>_ _ m. (m, Inl ''unavailable'')),
     mx_send_key = (\<lambda>_ _ m. (m, Inl ''unavailable'')),
     mx_send_text = (\<lambda>_ _ m. (m, Inl ''unavailable'')),
     mx_broadcast = (\<lambda>_ _ m. (m, Inl ''unavailable'')),
     mx_find_text = (\<lambda>_ _ m. (m, Inl ''unavailable'')),
     mx_find_text_all = (\<lambda>_ _ m. (m, Inl ''unavailable'')),
     mx_capture = (\<lambda>_ _ m. (m, Inl ''unavailable'')),
     mx_region = (\<lambda>_ _ _ m. (m, Inl ''unavailable'')),
     mx_expect_text = (\<lambda>_ _ _ m. (m, Inl (WaitError ''unavailable''))),
     mx_wait_stable = (\<lambda>_ _ _ m. (m, Inl ''unavailable'')),
     mx_wait_for = (\<lambda>_ _ _ _ m. (m, Inl (WaitError ''unavailable''))),
     mx_collect = (\<lambda>_ _ _ _ m. (m, CollectError ''unavailable'')),
     mx_recover_output = (\<lambda>_ m. (m, Inl ''unavailable'')),
     mx_elapsed = (\<lambda>m. (m, 0)),
     mx_kill = (\<lambda>_ m. (m, Inl ''unavailable'')),
     mx_new_window = (\<lambda>_ m. (m, Inl ''unavailable'')),
     mx_window_close = (\<lambda>_ _ m. (m, Inl ''unavailable'')),
     mx_window_rename = (\<lambda>_ _ _ m. (m, Inl ''unavailable'')),
     mx_window_resize = (\<lambda>_ _ _ _ m. (m, Inl ''unavailable'')),
     mx_window_select = (\<lambda>_ _ m. (m, Inl ''unavailable'')),
     mx_window_layout = (\<lambda>_ _ _ m. (m, Inl ''unavailable'')),
     mx_window_info = (\<lambda>_ _ m. (m, Inl ''unavailable'')),
     mx_window_panes = (\<lambda>_ _ m. (m, Inl ''unavailable'')),
     mx_ensure = (\<lambda>_ m. (m, Inl ''unavailable'')),
     mx_list_sessions = (\<lambda>m. (m, Inl ''unavailable'')),
     mx_find_sessions = (\<lambda>_ m. (m, Inl ''unavailable'')),
     mx_find_panes = (\<lambda>_ m. (m, Inl ''unavailable'')),
     mx_capabilities = (\<lambda>m. (m, Inl ''unavailable'')),
     mx_has_capability = (\<lambda>_ m. (m, Inl ''unavailable'')),
     mx_cmd = (\<lambda>_ m. (m, Inl ''unavailable'')),
     mx_cli = (\<lambda>_ m. (m, Inl ''unavailable'')),
     mx_socket = [],
     mx_user = None,
     mx_b64 = bytes_str,
     mx_unb64 = (\<lambda>s. Inr (str_bytes s)),
     mx_pane_id_re = (\<lambda>_. None),
     mx_buffer_re = (\<lambda>_. None)\<rparr>"

end
