(* ===== verification/Bridge_Protocol.thy ===== *)
theory Bridge_Protocol
  imports Multiplexer
begin

text \<open>
  The requests a bridge answers: one handler per message type on the terminal multiplexer
  (\<open>rmux-bridge/src/protocol/\<close>), the table of connection events (\<open>rmux-bridge/src/bridge_audit.rs\<close>), the
  commands answered from the bridge's own stores and the dispatch (\<open>rmux-bridge/src/proxy.rs\<close>).
\<close>

section \<open>Screens\<close>

definition snapshot_state :: "snapshot \<Rightarrow> terminal_state" where
  "snapshot_state s = detect_terminal_state (sn_text s) (sn_col s) (sn_visible s)"

definition state_json :: "snapshot \<Rightarrow> json" where
  "state_json s = JStr (state_name (snapshot_state s))"

definition cursor_json :: "snapshot \<Rightarrow> json" where
  "cursor_json s = jobj [(''row'', jnat (sn_row s)), (''col'', jnat (sn_col s)), (''visible'', JBool (sn_visible s))]"

text \<open>The fields that go with a failed wait: the screen as it is now, when it can be read.\<close>

definition fill_partial_fields :: "'m rmux \<Rightarrow> pane \<Rightarrow> json \<Rightarrow> 'm handler" where
  "fill_partial_fields mx p resp = attempt (mx_snapshot mx p) (\<lambda>r. reply (case r of
     Inl _ \<Rightarrow> resp
   | Inr s \<Rightarrow> jinsert ''cursor'' (cursor_json s) (jinsert ''terminal_state'' (state_json s) (jinsert ''partial_output'' (JStr (sn_text s)) resp))))"

section \<open>Input\<close>

definition pane_pre_context :: "'m rmux \<Rightarrow> pane \<Rightarrow> 'm \<Rightarrow> 'm \<times> string option \<times> string option" where
  "pane_pre_context mx p m = (case mx_snapshot mx p m of
     (m', Inl _) \<Rightarrow> (m', None, None)
   | (m', Inr s) \<Rightarrow>
       (m', Some (state_name (snapshot_state s)),
        if state_name (snapshot_state s) = ''password'' then sanitize_prompt_line (sn_text s) else None))"

definition attach_pre_context :: "json \<Rightarrow> string option \<Rightarrow> string option \<Rightarrow> json" where
  "attach_pre_context resp pre_state prompt_line =
     (let resp = (case pre_state of Some s \<Rightarrow> jinsert ''pre_terminal_state'' (JStr s) resp | None \<Rightarrow> resp)
      in case prompt_line of Some p \<Rightarrow> jinsert ''prompt_line'' (JStr p) resp | None \<Rightarrow> resp)"

definition input_answer :: "string option \<Rightarrow> string option \<Rightarrow> string + unit \<Rightarrow> 'm handler" where
  "input_answer pre_state prompt_line r = reply (case r of
     Inr _ \<Rightarrow> attach_pre_context (jobj [(''ok'', JBool True)]) pre_state prompt_line
   | Inl e \<Rightarrow> attach_pre_context (failed e) pre_state prompt_line)"

definition handle_send_keys :: "'m rmux \<Rightarrow> string \<Rightarrow> string \<Rightarrow> string \<Rightarrow> 'm handler" where
  "handle_send_keys mx session_name pane_id_str keys = with_pane mx session_name pane_id_str (\<lambda>p.
     attempt (pane_pre_context mx p) (\<lambda>(pre_state, prompt_line).
       attempt (mx_send_key mx p keys) (input_answer pre_state prompt_line)))"

definition handle_send_text :: "'m rmux \<Rightarrow> string \<Rightarrow> string \<Rightarrow> string \<Rightarrow> 'm handler" where
  "handle_send_text mx session_name pane_id_str t = with_pane mx session_name pane_id_str (\<lambda>p.
     attempt (pane_pre_context mx p) (\<lambda>(pre_state, prompt_line).
       attempt (mx_send_text mx p t) (input_answer pre_state prompt_line)))"

text \<open>The panes of a broadcast, in order; the first name that is wrong ends it.\<close>

fun broadcast_panes :: "'m rmux \<Rightarrow> string \<Rightarrow> string list \<Rightarrow> pane list \<Rightarrow> (pane list \<Rightarrow> 'm handler) \<Rightarrow> 'm handler" where
  "broadcast_panes mx sn [] panes f = f panes"
| "broadcast_panes mx sn (pid_str # pids) panes f = (case parse_pane_id pid_str of
     None \<Rightarrow> reply (failed (''invalid pane_id: '' @ pid_str))
   | Some pane_id \<Rightarrow> sdk (mx_get_pane mx False sn pane_id) (\<lambda>p. broadcast_panes mx sn pids (panes @ [p]) f))"

text \<open>The first pane that waits for a password.\<close>

fun broadcast_context :: "'m rmux \<Rightarrow> pane list \<Rightarrow> 'm \<Rightarrow> 'm \<times> string option \<times> string option" where
  "broadcast_context mx [] m = (m, None, None)"
| "broadcast_context mx (p # ps) m = (case pane_pre_context mx p m of
     (m', state, prompt) \<Rightarrow> if state = Some ''password'' then (m', Some ''password'', prompt) else broadcast_context mx ps m')"

definition handle_broadcast_keys :: "'m rmux \<Rightarrow> string \<Rightarrow> string list \<Rightarrow> string \<Rightarrow> 'm handler" where
  "handle_broadcast_keys mx session_name pane_ids keys = with_session_name mx session_name (\<lambda>sn.
     broadcast_panes mx sn pane_ids [] (\<lambda>panes.
       attempt (broadcast_context mx panes) (\<lambda>(pre_state, prompt_line).
         attempt (mx_broadcast mx panes keys) (input_answer pre_state prompt_line))))"

definition handle_cmd_escape :: "'m rmux \<Rightarrow> string list \<Rightarrow> 'm handler" where
  "handle_cmd_escape mx args = sdk (mx_cmd mx args) (\<lambda>r.
     ok_reply [(''stdout'', JArr (map (\<lambda>b. JInt (uint b)) (ru_stdout r))), (''stderr'', JArr (map (\<lambda>b. JInt (uint b)) (ru_stderr r))),
               (''exit_code'', jopt JInt (ru_exit r))])"

definition handle_spawn_command :: "'m rmux \<Rightarrow> string \<Rightarrow> string \<Rightarrow> string \<Rightarrow> string list \<Rightarrow> 'm handler" where
  "handle_spawn_command mx session_name pane_id_str command args = with_pane mx session_name pane_id_str (\<lambda>p.
     sdk (mx_spawn mx p (command # args)) (\<lambda>_. ok_reply [(''spawned'', JBool True)]))"

definition handle_shell_command :: "'m rmux \<Rightarrow> string \<Rightarrow> string \<Rightarrow> string \<Rightarrow> 'm handler" where
  "handle_shell_command mx session_name pane_id_str cmd = with_pane mx session_name pane_id_str (\<lambda>p.
     sdk (mx_shell mx p cmd) (\<lambda>_. ok_reply []))"

text \<open>\<open>as_object\<close>, and the environment of a new process.\<close>

fun jas_object :: "json \<Rightarrow> (string \<times> json) list option" where
  "jas_object (JObj kvs) = Some kvs"
| "jas_object _ = None"

definition respawn_env :: "json option \<Rightarrow> string list option" where
  "respawn_env env =
     (let env_strings = map_option (map (\<lambda>(k, v). k @ ''='' @ str_or [] (jas_str v))) (Option.bind env jas_object)
      in if env_strings = Some [] then None else env_strings)"

definition handle_respawn_pane ::
    "'m rmux \<Rightarrow> string \<Rightarrow> string \<Rightarrow> string option \<Rightarrow> string list option \<Rightarrow> bool option \<Rightarrow> string option \<Rightarrow> json option
     \<Rightarrow> bool option \<Rightarrow> bool option \<Rightarrow> 'm handler" where
  "handle_respawn_pane mx session_name pane_id_str command args shell cwd env kill keep_alive_on_exit =
     with_pane mx session_name pane_id_str (\<lambda>p.
       sdk (mx_respawn mx p
              \<lparr>rr_kill = (kill = Some True), rr_cwd = cwd, rr_keep = keep_alive_on_exit,
               rr_command = map_option (\<lambda>cmd. if shell = Some True then ShellCommand cmd
                  else Argv (cmd # (case args of Some a \<Rightarrow> a | None \<Rightarrow> []))) command,
               rr_env = (if command = None then None else respawn_env env)\<rparr>)
         (\<lambda>_. ok_reply [(''respawned'', JBool True)]))"

section \<open>Panes\<close>

definition handle_attach_session :: "'m rmux \<Rightarrow> string \<Rightarrow> 'm handler" where
  "handle_attach_session mx name = with_session_name mx name (\<lambda>sn. sdk (mx_has_session mx sn) (\<lambda>there.
     if there then ok_reply [(''session_name'', JStr name), (''attached'', JBool True)]
     else reply (failed (''session not found: '' @ name))))"

definition handle_detach_session :: "'m rmux \<Rightarrow> string \<Rightarrow> 'm handler" where
  "handle_detach_session mx name = with_session_name mx name (\<lambda>sn. sdk (mx_has_session mx sn) (\<lambda>there.
     if there then ok_reply [(''session_name'', JStr name), (''detached'', JBool True)]
     else reply (failed (''session not found: '' @ name))))"

text \<open>\<open>Down\<close> for a horizontal split, \<open>Right\<close> for a vertical one.\<close>

definition split_direction :: "string \<Rightarrow> bool option" where
  "split_direction direction =
     (if direction = ''horizontal'' \<or> direction = ''h'' then Some True
      else if direction = ''vertical'' \<or> direction = ''v'' then Some False else None)"

definition invalid_direction :: "string \<Rightarrow> json" where
  "invalid_direction direction = failed (''invalid direction: '' @ direction @ ''. Use horizontal or vertical'')"

definition handle_split_pane :: "'m rmux \<Rightarrow> string \<Rightarrow> string \<Rightarrow> string \<Rightarrow> 'm handler" where
  "handle_split_pane mx session_name pane_id_str direction = with_target mx session_name pane_id_str (\<lambda>sn pane_id.
     case split_direction direction of
       None \<Rightarrow> reply (invalid_direction direction)
     | Some down \<Rightarrow> sdk (mx_get_pane mx False sn pane_id) (\<lambda>p. sdk (mx_split mx p down) (\<lambda>new. sdk (mx_id mx new) (\<lambda>i.
         case i of
           Some i \<Rightarrow> ok_reply [(''pane_id'', JStr (mx_pane_text mx i))]
         | None \<Rightarrow> reply (failed ''split pane has no id'')))))"

definition handle_resize_pane :: "'m rmux \<Rightarrow> string \<Rightarrow> string \<Rightarrow> nat \<Rightarrow> nat \<Rightarrow> 'm handler" where
  "handle_resize_pane mx session_name pane_id_str cols rows = with_pane mx session_name pane_id_str (\<lambda>p.
     sdk (mx_resize mx p cols rows) (\<lambda>_. ok_reply []))"

definition handle_set_pane_title :: "'m rmux \<Rightarrow> string \<Rightarrow> string \<Rightarrow> string \<Rightarrow> 'm handler" where
  "handle_set_pane_title mx session_name pane_id_str title = with_pane mx session_name pane_id_str (\<lambda>p.
     sdk (mx_set_title mx p title) (\<lambda>_. ok_reply []))"

definition handle_get_pane_title :: "'m rmux \<Rightarrow> string \<Rightarrow> string \<Rightarrow> 'm handler" where
  "handle_get_pane_title mx session_name pane_id_str = with_pane mx session_name pane_id_str (\<lambda>p.
     sdk (mx_title mx p) (\<lambda>t. ok_reply [(''pane_id'', JStr pane_id_str), (''title'', jopt JStr t)]))"

definition handle_close_pane :: "'m rmux \<Rightarrow> string \<Rightarrow> string \<Rightarrow> 'm handler" where
  "handle_close_pane mx session_name pane_id_str = with_pane mx session_name pane_id_str (\<lambda>p.
     sdk (mx_close mx p) (\<lambda>closed. ok_reply [(''closed'', JBool closed)]))"

definition handle_pane_info :: "'m rmux \<Rightarrow> string \<Rightarrow> string \<Rightarrow> 'm handler" where
  "handle_pane_info mx session_name pane_id_str = with_pane mx session_name pane_id_str (\<lambda>p.
     sdk (mx_info mx p) (\<lambda>info. attempt (mx_snapshot mx p) (\<lambda>r.
       let (state, cursor) = (case r of Inr s \<Rightarrow> (state_json s, cursor_json s) | Inl _ \<Rightarrow> (JNull, JNull))
       in case find (\<lambda>i. Some (pi_id i) = parse_pane_id pane_id_str) info of
            Some i \<Rightarrow>
              ok_reply [(''info'', jobj [(''pane_id'', JStr (pi_text i)), (''window_id'', JStr (pi_window_id i)),
                  (''session_id'', JStr (pi_session_id i)), (''index'', jnat (pi_index i)), (''size_cols'', jnat (pi_cols i)),
                  (''size_rows'', jnat (pi_rows i)), (''command'', pi_command i), (''working_directory'', pi_cwd i),
                  (''tags'', pi_tags i)]),
                (''terminal_state'', state), (''cursor'', cursor)]
          | None \<Rightarrow> reply (failed ''pane not found in info snapshot''))))"

definition handle_pane_exists :: "'m rmux \<Rightarrow> string \<Rightarrow> string \<Rightarrow> 'm handler" where
  "handle_pane_exists mx session_name pane_id_str = with_pane mx session_name pane_id_str (\<lambda>p.
     sdk (mx_exists mx p) (\<lambda>there. ok_reply [(''exists'', JBool there)]))"

definition process_text :: "process_state \<Rightarrow> string" where
  "process_text s = (case s of PUnknown \<Rightarrow> ''unknown'' | PRunning _ \<Rightarrow> ''running'' | PExited \<Rightarrow> ''exited'')"

definition with_pid :: "process_state \<Rightarrow> json \<Rightarrow> json" where
  "with_pid s obj = (case s of PRunning (Some pid) \<Rightarrow> jinsert ''pid'' (jnat pid) obj | _ \<Rightarrow> obj)"

definition found_json :: "pane_found \<Rightarrow> json" where
  "found_json d = with_pid (pf_process d)
     (jobj [(''pane_id'', JStr (pf_pane_id d)), (''session_name'', JStr (pf_session d)), (''session_id'', JStr (pf_session_id d)),
            (''window_id'', JStr (pf_window_id d)), (''window_index'', jnat (pf_window_index d)), (''pane_index'', jnat (pf_pane_index d)),
            (''title'', pf_title d), (''command'', pf_command d), (''working_directory'', pf_cwd d),
            (''process'', JStr (process_text (pf_process d))), (''tags'', pf_tags d)])"

text \<open>\<open>splitn(n, c)\<close> and one line of the listing that \<open>rmux list-panes\<close> prints.\<close>

definition splitn :: "nat \<Rightarrow> char \<Rightarrow> string \<Rightarrow> string list" where
  "splitn n x s = (let ws = split_on (\<lambda>c. c = x) s
                   in if length ws \<le> n then ws else take (n - 1) ws @ [join [x] (drop (n - 1) ws)])"

definition nat_or_zero :: "nat option \<Rightarrow> nat" where
  "nat_or_zero v = (case v of Some n \<Rightarrow> n | None \<Rightarrow> 0)"

definition listed_pane :: "string option \<Rightarrow> string \<Rightarrow> json option" where
  "listed_pane title_filter line =
     (let parts = splitn 9 (CHR 0x09) line
      in if length parts < 9 then None
         else if title_filter \<noteq> None \<and> title_filter \<noteq> Some (parts ! 4) then None
         else Some (jobj [(''pane_id'', JStr (parts ! 3)), (''session_name'', JStr (parts ! 0)),
                (''window_index'', jnat (nat_or_zero (parse_u32 (parts ! 1)))),
                (''pane_index'', jnat (nat_or_zero (parse_u32 (parts ! 2)))),
                (''title'', JStr (parts ! 4)), (''command'', JStr (parts ! 5)), (''working_directory'', JStr (parts ! 8)),
                (''process'', JStr (if parts ! 6 = ''1'' then ''exited'' else ''running'')),
                (''pid'', jopt jnat (parse_u32 (parts ! 7)))]))"

definition list_format :: string where
  "list_format = join [CHR 0x09] [''#{session_name}'', ''#{window_index}'', ''#{pane_index}'', ''#{pane_id}'', ''#{pane_title}'',
     ''#{pane_current_command}'', ''#{pane_dead}'', ''#{pane_pid}'', ''#{pane_current_path}'']"

definition find_panes_cli_fallback :: "'m rmux \<Rightarrow> json \<Rightarrow> 'm handler" where
  "find_panes_cli_fallback mx args =
     attempt (mx_cli mx ([''-S'', mx_socket mx, ''list-panes'', ''-s'']
         @ (case jget_str args ''session_name'' of Some s \<Rightarrow> [''-t'', s] | None \<Rightarrow> []) @ [''-F'', list_format]))
       (\<lambda>r. case r of
          Inl e \<Rightarrow> reply (failed (''rmux CLI spawn failed: '' @ e))
        | Inr (success, stdout, stderr) \<Rightarrow>
            if \<not> success then reply (failed (''rmux CLI failed: '' @ lossy stderr))
            else let panes = List.map_filter (listed_pane (jget_str args ''title'')) (lines (lossy stdout))
                 in ok_reply [(''panes'', JArr panes), (''count'', jnat (length panes)), (''fallback'', JBool True)])"

definition as_u32 :: "nat \<Rightarrow> nat" where
  "as_u32 n = n mod 2 ^ 32"

definition jget_u64 :: "json \<Rightarrow> string \<Rightarrow> nat option" where
  "jget_u64 v k = Option.bind (jget v k) jas_u64"

definition handle_find_panes :: "'m rmux \<Rightarrow> json \<Rightarrow> 'm handler" where
  "handle_find_panes mx args =
     (let running = (jget_bool args ''running'' = Some True); exited = (jget_bool args ''exited'' = Some True)
      in if running \<and> exited then reply (failed ''running and exited are mutually exclusive'')
         else attempt (mx_find_panes mx
                \<lparr>ff_session = jget_str args ''session_name'', ff_title = jget_str args ''title'',
                 ff_title_prefix = jget_str args ''title_prefix'', ff_command = jget_str args ''command_contains'',
                 ff_cwd = jget_str args ''cwd_contains'', ff_window = map_option as_u32 (jget_u64 args ''window_index''),
                 ff_running = running, ff_exited = exited\<rparr>)
              (\<lambda>r. case r of
                 Inr panes \<Rightarrow> ok_reply [(''panes'', JArr (map found_json panes)), (''count'', jnat (length panes))]
               | Inl _ \<Rightarrow> find_panes_cli_fallback mx args))"

definition match_json :: "text_match \<Rightarrow> json" where
  "match_json t = jobj [(''start_row'', jnat (tm_start_row t)), (''start_col'', jnat (tm_start_col t)),
     (''end_row'', jnat (tm_end_row t)), (''end_col'', jnat (tm_end_col t)), (''text'', JStr (tm_text t))]"

definition handle_find_pane_text :: "'m rmux \<Rightarrow> string \<Rightarrow> string \<Rightarrow> string \<Rightarrow> 'm handler" where
  "handle_find_pane_text mx session_name pane_id_str pattern = with_pane mx session_name pane_id_str (\<lambda>p.
     sdk (mx_find_text mx p pattern) (\<lambda>r. case r of
       Some t \<Rightarrow> ok_reply [(''found'', JBool True), (''match'', match_json t)]
     | None \<Rightarrow> ok_reply [(''found'', JBool False)]))"

text \<open>A command of the multiplexer's own command line, refused when it exits with another code than zero.\<close>

definition int_text :: "int \<Rightarrow> string" where
  "int_text i = (if i < 0 then CHR ''-'' # decimal (nat (- i)) else decimal (nat i))"

definition cli_failure :: "string \<Rightarrow> run_result \<Rightarrow> json" where
  "cli_failure name r = failed (''CLI command '' @ [CHR 0x27] @ name @ [CHR 0x27] @ '' exited with code ''
     @ (case ru_exit r of None \<Rightarrow> ''none'' | Some c \<Rightarrow> int_text c) @ '': '' @ lossy (ru_stderr r))"

definition cli_command :: "'m rmux \<Rightarrow> string list \<Rightarrow> (run_result \<Rightarrow> 'm handler) \<Rightarrow> 'm handler" where
  "cli_command mx args f = sdk (mx_cmd mx args) (\<lambda>r.
     if ru_exit r = Some 0 then f r else reply (cli_failure (hd args) r))"

definition handle_clear_history :: "'m rmux \<Rightarrow> string \<Rightarrow> 'm handler" where
  "handle_clear_history mx pane_id_str = (case parse_pane_id pane_id_str of
     None \<Rightarrow> reply (failed (''invalid pane_id: '' @ pane_id_str))
   | Some pane_id \<Rightarrow> cli_command mx [''clear-history'', ''-t'', mx_pane_text mx pane_id] (\<lambda>_. ok_reply []))"

definition split_env :: "json option \<Rightarrow> (string \<times> string) list" where
  "split_env env = (case Option.bind env jas_object of
     Some kvs \<Rightarrow> List.map_filter (\<lambda>(k, v). map_option (Pair k) (jas_str v)) kvs
   | None \<Rightarrow> [])"

definition handle_split_pane_with ::
    "'m rmux \<Rightarrow> string \<Rightarrow> string \<Rightarrow> string \<Rightarrow> string \<Rightarrow> string list \<Rightarrow> bool \<Rightarrow> string option \<Rightarrow> json option \<Rightarrow> string option
     \<Rightarrow> bool option \<Rightarrow> 'm handler" where
  "handle_split_pane_with mx session_name pane_id_str direction command args shell cwd env title keep_alive_on_exit =
     with_target mx session_name pane_id_str (\<lambda>sn pane_id.
       case split_direction direction of
         None \<Rightarrow> reply (invalid_direction direction)
       | Some down \<Rightarrow> sdk (mx_get_pane mx False sn pane_id) (\<lambda>p.
           sdk (mx_split_with mx p
                  \<lparr>sr_down = down, sr_command = (if shell then ShellCommand command else Argv (command # args)),
                   sr_cwd = cwd, sr_env = split_env env, sr_title = title, sr_keep = keep_alive_on_exit\<rparr>)
             (\<lambda>new. attempt (mx_id mx new) (\<lambda>i. case i of
                Inr (Some i) \<Rightarrow> ok_reply [(''new_pane_id'', JStr (mx_pane_text mx i))]
              | Inr None \<Rightarrow> reply (failed ''split pane has no id'')
              | Inl e \<Rightarrow> reply (jobj [(''ok'', JBool False), (''found'', JBool True), (''error'', JStr e)])))))"

definition titled_errors :: "string option \<Rightarrow> string option \<Rightarrow> json \<Rightarrow> json" where
  "titled_errors title_error id_error resp =
     (let resp = (case title_error of Some e \<Rightarrow> jinsert ''title_error'' (JStr e) resp | None \<Rightarrow> resp)
      in case id_error of Some e \<Rightarrow> jinsert ''id_error'' (JStr e) resp | None \<Rightarrow> resp)"

definition titled_json :: "string \<Rightarrow> pane_info \<Rightarrow> json" where
  "titled_json pane_title i = with_pid (pi_process i)
     (jobj [(''pane_id'', JStr (pi_text i)), (''session_id'', JStr (pi_session_id i)), (''window_id'', JStr (pi_window_id i)),
            (''pane_index'', jnat (pi_index i)), (''title'', JStr pane_title), (''command'', pi_command i),
            (''working_directory'', pi_cwd i), (''process'', JStr (process_text (pi_process i))), (''tags'', pi_tags i)])"

definition handle_get_pane_by_title :: "'m rmux \<Rightarrow> string \<Rightarrow> 'm handler" where
  "handle_get_pane_by_title mx title = attempt (mx_pane_by_title mx title) (\<lambda>r. case r of
     Inr p \<Rightarrow>
       attempt (mx_title mx p) (\<lambda>t. attempt (mx_id mx p) (\<lambda>i.
         let pane_title = (case t of Inr (Some t) \<Rightarrow> t | _ \<Rightarrow> []); title_error = (case t of Inl e \<Rightarrow> Some e | Inr _ \<Rightarrow> None);
             pane_id = (case i of Inr i \<Rightarrow> i | Inl _ \<Rightarrow> None); id_error = (case i of Inl e \<Rightarrow> Some e | Inr _ \<Rightarrow> None)
         in sdk (mx_info mx p) (\<lambda>info. reply (titled_errors title_error id_error
              (case find (\<lambda>x. pane_id = Some (pi_id x)) info of
                 Some x \<Rightarrow> jobj [(''ok'', JBool True), (''found'', JBool True), (''pane'', titled_json pane_title x)]
               | None \<Rightarrow> jobj [(''ok'', JBool False), (''found'', JBool False),
                     (''error'', JStr (''no pane found with title: '' @ title))])))))
   | Inl _ \<Rightarrow>
       map_answer (\<lambda>result. if jget_bool result ''ok'' = Some True then
              (case Option.bind (jget result ''panes'') jas_array of
                 Some (x # _) \<Rightarrow> jobj [(''ok'', JBool True), (''found'', JBool True), (''pane'', x), (''fallback'', JBool True)]
               | _ \<Rightarrow> jobj [(''ok'', JBool True), (''found'', JBool False), (''fallback'', JBool True)])
            else result)
         (find_panes_cli_fallback mx (jobj [(''title'', JStr title)])))"

definition handle_break_pane :: "'m rmux \<Rightarrow> string \<Rightarrow> nat option \<Rightarrow> bool \<Rightarrow> 'm handler" where
  "handle_break_pane mx pane_id_str destination_window detached =
     (if pane_id_str \<noteq> [] \<and> parse_pane_id pane_id_str = None then reply (failed (''invalid pane_id: '' @ pane_id_str))
      else cli_command mx ([''break-pane''] @ (if pane_id_str \<noteq> [] then [''-s'', pane_id_str] else [])
             @ (case destination_window of Some dw \<Rightarrow> [''-t'', '':'' @ decimal dw] | None \<Rightarrow> []) @ (if detached then [''-d''] else []))
           (\<lambda>r. ok_reply [(''pane_id'', JStr (case mx_pane_id_re mx (lossy (ru_stdout r)) of
                    Some t \<Rightarrow> CHR ''%'' # dropWhile (\<lambda>c. c = CHR ''%'') t | None \<Rightarrow> [])),
                  (''window_index'', jopt jnat destination_window)]))"

definition pane_pair_checked :: "string \<Rightarrow> string \<Rightarrow> 'm handler \<Rightarrow> 'm handler" where
  "pane_pair_checked source_pane_id target_pane_id f =
     (if parse_pane_id source_pane_id = None then reply (failed (''invalid source_pane_id: '' @ source_pane_id))
      else if parse_pane_id target_pane_id = None then reply (failed (''invalid target_pane_id: '' @ target_pane_id))
      else f)"

definition handle_join_pane :: "'m rmux \<Rightarrow> string \<Rightarrow> string \<Rightarrow> string option \<Rightarrow> nat option \<Rightarrow> 'm handler" where
  "handle_join_pane mx source_pane_id target_pane_id direction join_size = pane_pair_checked source_pane_id target_pane_id
     (case (if direction \<in> {None, Some ''vertical'', Some ''v''} then Some ''-h''
            else if direction \<in> {Some ''horizontal'', Some ''h''} then Some ''-v'' else None) of
        None \<Rightarrow> reply (failed (''invalid direction: '' @ the direction @ ''. Expected '' @ [CHR 0x27] @ ''horizontal'' @ [CHR 0x27]
           @ ''/'' @ [CHR 0x27] @ ''h'' @ [CHR 0x27] @ '' or '' @ [CHR 0x27] @ ''vertical'' @ [CHR 0x27] @ ''/'' @ [CHR 0x27] @ ''v'' @ [CHR 0x27]))
      | Some flag \<Rightarrow>
          cli_command mx ([''join-pane'', ''-s'', source_pane_id, ''-t'', target_pane_id, flag]
              @ (case join_size of Some s \<Rightarrow> [''-l'', decimal s] | None \<Rightarrow> []))
            (\<lambda>_. ok_reply [(''source_pane_id'', JStr source_pane_id), (''target_pane_id'', JStr target_pane_id)]))"

definition handle_swap_pane :: "'m rmux \<Rightarrow> string \<Rightarrow> string \<Rightarrow> bool \<Rightarrow> 'm handler" where
  "handle_swap_pane mx source_pane_id target_pane_id detached = pane_pair_checked source_pane_id target_pane_id
     (cli_command mx ([''swap-pane'', ''-s'', source_pane_id, ''-t'', target_pane_id] @ (if detached then [''-d''] else []))
       (\<lambda>_. ok_reply [(''source_pane_id'', JStr source_pane_id), (''target_pane_id'', JStr target_pane_id)]))"

definition handle_capabilities :: "'m rmux \<Rightarrow> string option \<Rightarrow> 'm handler" where
  "handle_capabilities mx wanted = sdk (mx_capabilities mx) (\<lambda>cs.
     let resp = jobj [(''ok'', JBool True), (''capabilities'', JArr (map JStr cs)), (''count'', jnat (length cs))]
     in case wanted of
          None \<Rightarrow> reply resp
        | Some c \<Rightarrow> sdk (mx_has_capability mx c) (\<lambda>has. reply (jinsert ''has_capability'' (JBool has) resp)))"

definition handle_capture_region ::
    "'m rmux \<Rightarrow> string \<Rightarrow> string \<Rightarrow> nat option \<Rightarrow> nat option \<Rightarrow> nat option \<Rightarrow> nat option \<Rightarrow> bool \<Rightarrow> 'm handler" where
  "handle_capture_region mx session_name pane_id_str row col rows cols styled = with_pane mx session_name pane_id_str (\<lambda>p.
     let shown = (\<lambda>t. ok_reply [(''text'', JStr t), (''styled'', JBool styled)])
     in case (row, col, rows, cols) of
          (Some r, Some c, Some rs, Some cs) \<Rightarrow>
            if rs = 0 \<or> cs = 0 then reply (failed ''rows and cols must be non-zero'')
            else sdk (mx_region mx p (Some (r, c, rs, cs)) styled) shown
        | (None, None, None, None) \<Rightarrow> sdk (mx_region mx p None styled) shown
        | _ \<Rightarrow> reply (failed ''all 4 coordinates required (row, col, rows, cols), or omit all for full screenshot''))"

section \<open>Sessions and windows\<close>

definition handle_new_session :: "'m rmux \<Rightarrow> string \<Rightarrow> bool \<Rightarrow> 'm handler" where
  "handle_new_session mx name detached = with_session_name mx name (\<lambda>sn.
     let (env_vars, login_cmd, working_dir) = (case mx_user mx of
           Some (home, user, shell) \<Rightarrow>
             ([''HOME='' @ home, ''USER='' @ user, ''LOGNAME='' @ user, ''SHELL='' @ shell], ''exec '' @ shell @ '' -l'', Some home)
         | None \<Rightarrow> ([], ''exec /bin/sh -l'', None))
     in sdk (mx_ensure mx \<lparr>er_name = sn, er_detached = detached, er_dir = working_dir, er_env = env_vars, er_command = login_cmd\<rparr>)
          (\<lambda>p. sdk (mx_id mx p) (\<lambda>i. case i of
             Some i \<Rightarrow> ok_reply [(''session_name'', JStr name), (''pane_id'', JStr (mx_pane_text mx i)), (''window_count'', jnat 1)]
           | None \<Rightarrow> reply (failed ''pane has no id''))))"

definition session_entry :: "string \<Rightarrow> json" where
  "session_entry s = jobj [(''session_name'', JStr s)]"

definition handle_list_sessions :: "'m rmux \<Rightarrow> 'm handler" where
  "handle_list_sessions mx = sdk (mx_list_sessions mx) (\<lambda>ss. ok_reply [(''sessions'', JArr (map session_entry ss))])"

definition handle_kill_session :: "'m rmux \<Rightarrow> string \<Rightarrow> 'm handler" where
  "handle_kill_session mx session_name = with_session mx session_name (\<lambda>s.
     sdk (mx_kill mx s) (\<lambda>killed. ok_reply [(''killed'', JBool killed)]))"

definition handle_find_sessions :: "'m rmux \<Rightarrow> json \<Rightarrow> 'm handler" where
  "handle_find_sessions mx args = sdk (mx_find_sessions mx (jget_str args ''name'')) (\<lambda>ss.
     ok_reply [(''sessions'', JArr (map session_entry ss)), (''count'', jnat (length ss))])"

definition handle_split_window :: "'m rmux \<Rightarrow> string \<Rightarrow> 'm handler" where
  "handle_split_window mx session_name = with_session mx session_name (\<lambda>s.
     sdk (mx_new_window mx s) (\<lambda>_. ok_reply [(''window_created'', JBool True)]))"

definition handle_close_window :: "'m rmux \<Rightarrow> string \<Rightarrow> nat \<Rightarrow> 'm handler" where
  "handle_close_window mx session_name window_index = with_session mx session_name (\<lambda>s.
     sdk (mx_window_close mx s window_index) (\<lambda>_. ok_reply [(''closed'', JBool True)]))"

definition handle_rename_window :: "'m rmux \<Rightarrow> string \<Rightarrow> nat \<Rightarrow> string \<Rightarrow> 'm handler" where
  "handle_rename_window mx session_name window_index name = with_session mx session_name (\<lambda>s.
     sdk (mx_window_rename mx s window_index name) (\<lambda>_. ok_reply []))"

definition handle_resize_window :: "'m rmux \<Rightarrow> string \<Rightarrow> nat \<Rightarrow> nat option \<Rightarrow> nat option \<Rightarrow> 'm handler" where
  "handle_resize_window mx session_name window_index width height = with_session mx session_name (\<lambda>s.
     sdk (mx_window_resize mx s window_index width height) (\<lambda>_. ok_reply []))"

definition handle_select_window :: "'m rmux \<Rightarrow> string \<Rightarrow> nat \<Rightarrow> 'm handler" where
  "handle_select_window mx session_name window_index = with_session mx session_name (\<lambda>s.
     sdk (mx_window_select mx s window_index) (\<lambda>_. ok_reply []))"

definition layout_named :: "string \<Rightarrow> layout option" where
  "layout_named name =
     (if name = ''even-horizontal'' then Some EvenHorizontal else if name = ''even-vertical'' then Some EvenVertical
      else if name = ''main-horizontal'' then Some MainHorizontal else if name = ''main-vertical'' then Some MainVertical
      else if name = ''tiled'' then Some Tiled else None)"

definition handle_select_layout :: "'m rmux \<Rightarrow> string \<Rightarrow> nat \<Rightarrow> string \<Rightarrow> 'm handler" where
  "handle_select_layout mx session_name window_index name = with_session mx session_name (\<lambda>s.
     case layout_named name of
       None \<Rightarrow> reply (failed (''unknown layout: '' @ name
          @ ''. Use: even-horizontal, even-vertical, main-horizontal, main-vertical, tiled''))
     | Some l \<Rightarrow> sdk (mx_window_layout mx s window_index l) (\<lambda>_. ok_reply []))"

definition handle_window_info :: "'m rmux \<Rightarrow> string \<Rightarrow> nat \<Rightarrow> 'm handler" where
  "handle_window_info mx session_name window_index = with_session mx session_name (\<lambda>s.
     sdk (mx_window_info mx s window_index) (\<lambda>info. case find (\<lambda>w. wi_index w = window_index) info of
       Some w \<Rightarrow> ok_reply [(''info'', jobj [(''window_id'', JStr (wi_id w)), (''size_cols'', jnat (wi_cols w)),
                   (''size_rows'', jnat (wi_rows w)), (''name'', wi_name w), (''index'', jnat (wi_index w))])]
     | None \<Rightarrow> reply (failed ''window not found in info snapshot'')))"

definition handle_list_window_panes :: "'m rmux \<Rightarrow> string \<Rightarrow> nat \<Rightarrow> 'm handler" where
  "handle_list_window_panes mx session_name window_index = with_session mx session_name (\<lambda>s.
     sdk (mx_window_panes mx s window_index) (\<lambda>ps.
       ok_reply [(''panes'', JArr (map (\<lambda>(i, active). jobj [(''pane_id'', JStr i), (''active'', JBool active)]) ps))]))"

section \<open>Paste buffers\<close>

definition buffer_entry :: "'m rmux \<Rightarrow> string \<Rightarrow> json option" where
  "buffer_entry mx line = (case mx_buffer_re mx line of
     None \<Rightarrow> None
   | Some (name, buffer_size, preview) \<Rightarrow>
       let n = foldl (\<lambda>n c. n * 10 + (of_char c - 48)) 0 buffer_size :: nat
       in if list_all (\<lambda>c. 48 \<le> byte_of c \<and> byte_of c \<le> 57) buffer_size \<and> buffer_size \<noteq> [] \<and> n < 2 ^ 64
          then Some (jobj [(''name'', JStr name), (''size'', jnat n), (''preview'', JStr preview)]) else None)"

definition handle_list_buffers :: "'m rmux \<Rightarrow> 'm handler" where
  "handle_list_buffers mx = cli_command mx [''list-buffers''] (\<lambda>r.
     let buffers = List.map_filter (buffer_entry mx) (lines (lossy (ru_stdout r)))
     in ok_reply [(''buffers'', JArr buffers), (''count'', jnat (length buffers))])"

definition handle_paste_buffer :: "'m rmux \<Rightarrow> string \<Rightarrow> string \<Rightarrow> 'm handler" where
  "handle_paste_buffer mx pane_id_str buffer_name = (case parse_pane_id pane_id_str of
     None \<Rightarrow> reply (failed (''invalid pane_id: '' @ pane_id_str))
   | Some pane_id \<Rightarrow> cli_command mx ([''paste-buffer''] @ (if buffer_name \<noteq> [] then [''-b'', buffer_name] else [])
        @ [''-t'', mx_pane_text mx pane_id]) (\<lambda>_. ok_reply []))"

definition handle_delete_buffer :: "'m rmux \<Rightarrow> string \<Rightarrow> 'm handler" where
  "handle_delete_buffer mx buffer_name = cli_command mx [''delete-buffer'', ''-b'', buffer_name] (\<lambda>_. ok_reply [])"

section \<open>Output\<close>

definition snapshot_fields :: "snapshot \<Rightarrow> (string \<times> json) list" where
  "snapshot_fields s = [(''terminal_state'', state_json s), (''cursor'', cursor_json s)]"

text \<open>\<open>lines[lines.len() - n..].join("\n")\<close> when there are more than \<open>n\<close> lines.\<close>

definition tail_lines :: "nat \<Rightarrow> string \<Rightarrow> string" where
  "tail_lines n t = (let ls = lines t in if n < length ls then join [CHR 0x0A] (drop (length ls - n) ls) else t)"

definition handle_capture_pane ::
    "'m rmux \<Rightarrow> string \<Rightarrow> string \<Rightarrow> nat option \<Rightarrow> capture_request \<Rightarrow> 'm handler" where
  "handle_capture_pane mx session_name pane_id_str max_lines req = with_pane mx session_name pane_id_str (\<lambda>p.
     if cr_ansi req \<noteq> None \<or> cr_alternate req \<noteq> None \<or> cr_start req \<noteq> None \<or> cr_end req \<noteq> None \<or> cr_buffer req \<noteq> None
        \<or> cr_join req \<noteq> None \<or> cr_spaces req \<noteq> None
     then
       let req = (if cr_start req = None then (case max_lines of
             Some n \<Rightarrow> if 0 < n then req\<lparr>cr_start := Some (- int n)\<rparr> else req | None \<Rightarrow> req) else req);
           ansi = (cr_ansi req = Some True)
       in sdk (mx_capture mx p req) (\<lambda>(stdout, buffer_name).
            let resp = jobj [(''ok'', JBool True), (''text'', JStr (if ansi then mx_b64 mx stdout else lossy stdout)),
                  (''buffer_written'', jopt JStr buffer_name)];
                resp = jinsert ''encoding'' (if ansi then JStr ''base64'' else JNull) resp
            in attempt (mx_snapshot mx p) (\<lambda>r. reply (case r of
                 Inr s \<Rightarrow> jinsert ''cursor'' (cursor_json s) (jinsert ''terminal_state'' (state_json s) resp)
               | Inl _ \<Rightarrow> resp)))
     else
       sdk (mx_snapshot mx p) (\<lambda>s.
         let full_text = clean_text (sn_text s) None;
             t = (case max_lines of Some n \<Rightarrow> if 0 < n then tail_lines n full_text else full_text | None \<Rightarrow> full_text)
         in ok_reply ((''text'', JStr t) # snapshot_fields s)))"

definition handle_wait_for_text :: "'m rmux \<Rightarrow> string \<Rightarrow> string \<Rightarrow> string \<Rightarrow> nat \<Rightarrow> 'm handler" where
  "handle_wait_for_text mx session_name pane_id_str t timeout_ms = with_pane mx session_name pane_id_str (\<lambda>p.
     attempt (mx_expect_text mx p t timeout_ms) (\<lambda>r. case r of
       Inr s \<Rightarrow> ok_reply ((''found'', JBool True) # snapshot_fields s)
     | Inl (WaitTimeout _) \<Rightarrow>
         fill_partial_fields mx p (jobj [(''ok'', JBool False), (''found'', JBool False), (''error'', JStr (''timeout waiting for: '' @ t))])
     | Inl (WaitError e) \<Rightarrow> reply (failed e)))"

definition handle_wait_for_bytes :: "'m rmux \<Rightarrow> string \<Rightarrow> string \<Rightarrow> string \<Rightarrow> bool \<Rightarrow> nat \<Rightarrow> 'm handler" where
  "handle_wait_for_bytes mx session_name pane_id_str bytes_b64 only_new timeout_ms =
     with_target mx session_name pane_id_str (\<lambda>sn pane_id. sdk (mx_get_pane mx True sn pane_id) (\<lambda>p.
       case mx_unb64 mx bytes_b64 of
         Inl e \<Rightarrow> reply (failed (''invalid base64: '' @ e))
       | Inr decoded \<Rightarrow>
           attempt (if only_new then mx_has_capability mx ''sdk.waits.armed'' else (\<lambda>m. (m, Inr False))) (\<lambda>armed.
             attempt (mx_wait_for mx (armed = Inr True) p decoded timeout_ms) (\<lambda>r. case r of
               Inr _ \<Rightarrow> ok_reply [(''found'', JBool True)]
             | Inl (WaitTimeout _) \<Rightarrow> fill_partial_fields mx p (jobj [(''ok'', JBool False), (''found'', JBool False),
                   (''error'', JStr (''timeout waiting for bytes after '' @ decimal timeout_ms @ ''ms''))])
             | Inl (WaitError e) \<Rightarrow> fill_partial_fields mx p (jobj [(''ok'', JBool False), (''found'', JBool False), (''error'', JStr e)])))))"

text \<open>
  The polling loop of \<open>wait_exit\<close>. A pause of 100 ms takes at least that long, so the time that has passed
  at the end of round \<open>i\<close> is at least \<open>100 * i\<close>.
\<close>

function wait_exit_loop :: "'m rmux \<Rightarrow> pane \<Rightarrow> nat \<Rightarrow> nat \<Rightarrow> 'm handler" where
  "wait_exit_loop mx p timeout_ms i m = (case mx_info mx p m of
     (m1, Inl e) \<Rightarrow> (m1, failed e)
   | (m1, Inr []) \<Rightarrow> (m1, jobj [(''ok'', JBool True), (''exited'', JBool False)])
   | (m1, Inr (x # _)) \<Rightarrow>
       (case pi_exit x of
          Some state \<Rightarrow> (m1, jobj [(''ok'', JBool True), (''exited'', JBool True), (''exit_code'', jopt JInt (xs_code state)),
             (''signal'', jopt JInt (xs_signal state))])
        | None \<Rightarrow>
            if pi_process x = PExited then (m1, jobj [(''ok'', JBool True), (''exited'', JBool False)])
            else case mx_elapsed mx m1 of (m2, clock) \<Rightarrow>
              if timeout_ms \<le> max clock (100 * i) then fill_partial_fields mx p (failed ''timeout waiting for exit'') m2
              else wait_exit_loop mx p timeout_ms (Suc i) m2))"
  by pat_completeness auto
termination
  by (relation "measure (\<lambda>(mx, p, timeout_ms, i, m). timeout_ms - i)") auto

declare wait_exit_loop.simps [simp del]

definition handle_wait_exit :: "'m rmux \<Rightarrow> string \<Rightarrow> string \<Rightarrow> nat \<Rightarrow> 'm handler" where
  "handle_wait_exit mx session_name pane_id_str timeout_ms = with_pane mx session_name pane_id_str (\<lambda>p.
     wait_exit_loop mx p timeout_ms 0)"

definition handle_wait_stable :: "'m rmux \<Rightarrow> string \<Rightarrow> string \<Rightarrow> nat \<Rightarrow> nat \<Rightarrow> 'm handler" where
  "handle_wait_stable mx session_name pane_id_str stable_ms timeout_ms = with_pane mx session_name pane_id_str (\<lambda>p.
     if stable_ms = 0 then reply (failed ''stable_ms must be positive (0 is meaningless for stability check)'')
     else attempt (mx_wait_stable mx p stable_ms timeout_ms) (\<lambda>r. case r of
       Inr s \<Rightarrow> ok_reply ((''stable'', JBool True) # snapshot_fields s)
     | Inl e \<Rightarrow> fill_partial_fields mx p (jobj [(''ok'', JBool False), (''stable'', JBool False),
           (''error'', JStr (''timeout: pane did not stabilize within '' @ decimal timeout_ms @ ''ms: '' @ e))])))"

definition collected_json ::
    "string \<Rightarrow> nat \<Rightarrow> exit_state option \<Rightarrow> bool \<Rightarrow> bool \<Rightarrow> nat \<Rightarrow> json" where
  "collected_json output n ex truncated lagged missed =
     (let resp = jobj [(''ok'', JBool True), (''output'', JStr output), (''collected_bytes'', jnat n),
            (''exit_code'', jopt JInt (Option.bind ex xs_code)), (''signal'', jopt JInt (Option.bind ex xs_signal)),
            (''truncated'', JBool truncated), (''lagged'', JBool lagged), (''missed_events'', jnat missed)]
      in case Option.bind ex xs_message of Some msg \<Rightarrow> jinsert ''message'' (JStr msg) resp | None \<Rightarrow> resp)"

definition is_dead :: "pane_info \<Rightarrow> bool" where
  "is_dead i \<longleftrightarrow> pi_process i = PExited \<or> pi_exit i \<noteq> None"

definition collect_live :: "'m rmux \<Rightarrow> pane \<Rightarrow> nat \<Rightarrow> nat \<Rightarrow> string \<Rightarrow> 'm handler" where
  "collect_live mx p max_bytes timeout_ms starting_at =
     attempt (mx_collect mx (starting_at = ''oldest'') p max_bytes timeout_ms) (\<lambda>r. case r of
       Collected c \<Rightarrow> reply (collected_json (mx_b64 mx (co_bytes c)) (length (co_bytes c)) (co_exit c) (co_truncated c) (co_lagged c) (co_missed c))
     | CollectError e \<Rightarrow> reply (failed e)
     | JoinError e \<Rightarrow> reply (failed (''join error: '' @ e))
     | CollectTimeout \<Rightarrow> fill_partial_fields mx p (failed (''timeout after '' @ decimal timeout_ms @ ''ms'')))"

definition handle_collect_until_exit :: "'m rmux \<Rightarrow> string \<Rightarrow> string \<Rightarrow> nat \<Rightarrow> nat \<Rightarrow> string \<Rightarrow> 'm handler" where
  "handle_collect_until_exit mx session_name pane_id_str max_bytes timeout_ms starting_at =
     with_target mx session_name pane_id_str (\<lambda>sn pane_id. sdk (mx_get_pane mx True sn pane_id) (\<lambda>p.
       attempt (mx_info mx p) (\<lambda>info.
         case (case info of Inr (x # _) \<Rightarrow> if is_dead x then Some x else None | _ \<Rightarrow> None) of
           Some x \<Rightarrow> attempt (mx_snapshot mx p) (\<lambda>s.
             let t = (case s of Inr s \<Rightarrow> sn_text s | Inl _ \<Rightarrow> [])
             in reply (collected_json (mx_b64 mx (str_bytes t)) (length t) (pi_exit x) False False 0))
         | None \<Rightarrow> collect_live mx p max_bytes timeout_ms starting_at)))"

definition handle_find_text_all :: "'m rmux \<Rightarrow> string \<Rightarrow> string \<Rightarrow> string \<Rightarrow> 'm handler" where
  "handle_find_text_all mx session_name pane_id_str pattern = with_pane mx session_name pane_id_str (\<lambda>p.
     sdk (mx_find_text_all mx p pattern) (\<lambda>ts.
       ok_reply [(''matches'', JArr (map match_json ts)), (''count'', jnat (length ts))]))"

section \<open>Connection events\<close>

record bridge_event =
  be_event_type :: string
  be_client_addr :: string
  be_client_id :: "string option"
  be_session_name :: "string option"
  be_pane_id :: "string option"
  be_cols :: "nat option"
  be_rows :: "nat option"
  be_detail :: "json option"
  be_duration_secs :: "real option"
  be_exit_code :: "int option"

record connect_row =
  cw_event_id :: string
  cw_timestamp :: string
  cw_auth_method :: string
  cw_event :: bridge_event

text \<open>
  A row keeps the fields of its event; \<open>event_id\<close> is the primary key, and an insertion that violates it
  is only reported. The detail is stored as JSON text and parsed again, which gives it back.
\<close>

definition log_connect_event :: "string \<Rightarrow> string \<Rightarrow> bridge_event \<Rightarrow> connect_row list \<Rightarrow> connect_row list" where
  "log_connect_event event_id now ev rows =
     (if event_id \<in> set (map cw_event_id rows) then rows
      else rows @ [\<lparr>cw_event_id = event_id, cw_timestamp = now, cw_auth_method = ''token'', cw_event = ev\<rparr>])"

definition event_matches :: "string option \<Rightarrow> string option \<Rightarrow> string option \<Rightarrow> string option \<Rightarrow> connect_row \<Rightarrow> bool" where
  "event_matches event_type session_name since until r \<longleftrightarrow>
     (case event_type of Some et \<Rightarrow> be_event_type (cw_event r) = et | None \<Rightarrow> True)
     \<and> (case session_name of Some sn \<Rightarrow> be_session_name (cw_event r) = Some sn | None \<Rightarrow> True)
     \<and> (case since of Some s \<Rightarrow> s \<le> cw_timestamp r | None \<Rightarrow> True)
     \<and> (case until of Some u \<Rightarrow> cw_timestamp r \<le> u | None \<Rightarrow> True)"

definition event_json :: "connect_row \<Rightarrow> json" where
  "event_json r = (let ev = cw_event r in
     jobj [(''event_id'', JStr (cw_event_id r)), (''timestamp'', JStr (cw_timestamp r)), (''client_addr'', JStr (be_client_addr ev)),
           (''client_id'', jopt JStr (be_client_id ev)), (''auth_method'', JStr (cw_auth_method r)),
           (''event_type'', JStr (be_event_type ev)), (''session_name'', jopt JStr (be_session_name ev)),
           (''pane_id'', jopt JStr (be_pane_id ev)), (''cols'', jopt jnat (be_cols ev)), (''rows'', jopt jnat (be_rows ev)),
           (''detail'', jopt id (be_detail ev)), (''duration_secs'', jopt JFloat (be_duration_secs ev)),
           (''exit_code'', jopt JInt (be_exit_code ev))])"

definition query_events ::
    "string option \<Rightarrow> string option \<Rightarrow> string option \<Rightarrow> string option \<Rightarrow> nat \<Rightarrow> connect_row list \<Rightarrow> json list" where
  "query_events event_type session_name since until limit rows =
     map event_json (take limit (rev (sort_key cw_timestamp (filter (event_matches event_type session_name since until) rows))))"

definition event_stats :: "string option \<Rightarrow> connect_row list \<Rightarrow> nat \<times> json" where
  "event_stats since rows =
     (let rs = filter (event_matches None None since None) rows;
          count = (\<lambda>t. length (filter (\<lambda>r. be_event_type (cw_event r) = t) rs))
      in (length rs, jobj (map (\<lambda>t. (t, jnat (count t))) (remdups (map (be_event_type \<circ> cw_event) rs)))))"

definition cleanup_events :: "string \<Rightarrow> connect_row list \<Rightarrow> connect_row list \<times> nat" where
  "cleanup_events cutoff rows =
     (filter (\<lambda>r. cutoff \<le> cw_timestamp r) rows, length (filter (\<lambda>r. cw_timestamp r < cutoff) rows))"

section \<open>Dispatch\<close>

definition DEFAULT_WAIT_TIMEOUT_MS :: nat where "DEFAULT_WAIT_TIMEOUT_MS = 30000"
definition DEFAULT_COLLECT_TIMEOUT_MS :: nat where "DEFAULT_COLLECT_TIMEOUT_MS = 60000"
definition DEFAULT_BYTES_WAIT_TIMEOUT_MS :: nat where "DEFAULT_BYTES_WAIT_TIMEOUT_MS = 600000"

definition nat_or :: "nat \<Rightarrow> nat option \<Rightarrow> nat" where
  "nat_or d v = (case v of Some n \<Rightarrow> n | None \<Rightarrow> d)"

definition bool_or :: "bool \<Rightarrow> bool option \<Rightarrow> bool" where
  "bool_or d v = (case v of Some b \<Rightarrow> b | None \<Rightarrow> d)"

definition jget_i64 :: "json \<Rightarrow> string \<Rightarrow> int option" where
  "jget_i64 v k = Option.bind (jget v k) jas_i64"

definition u16_field :: "json \<Rightarrow> string \<Rightarrow> nat option" where
  "u16_field v k = (case jget_u64 v k of Some n \<Rightarrow> if n < 2 ^ 16 then Some n else None | None \<Rightarrow> None)"

text \<open>The match on the type of a request; \<open>None\<close> is an error that ends the connection.\<close>

definition dispatch_request :: "'m rmux \<Rightarrow> json \<Rightarrow> 'm handler option" where
  "dispatch_request mx request =
     (let t = str_or [] (jget_str request ''type''); sn = str_or [] (jget_str request ''session_name'');
          pane_id = str_or [] (jget_str request ''pane_id''); s = (\<lambda>k. str_or [] (jget_str request k));
          idx = as_u32 (nat_or 0 (jget_u64 request ''window_index'')); strs = (case jget_strs request ''args'' of Some a \<Rightarrow> a | None \<Rightarrow> []);
          timeout = (\<lambda>d. nat_or d (jget_u64 request ''timeout_ms''))
      in if t = ''new_session'' then Some (handle_new_session mx (str_or ''clum'' (jget_str request ''name'')) (bool_or True (jget_bool request ''detached'')))
         else if t = ''list_sessions'' then Some (handle_list_sessions mx)
         else if t = ''attach_session'' then Some (handle_attach_session mx sn)
         else if t = ''detach_session'' then Some (handle_detach_session mx sn)
         else if t = ''send_keys'' then Some (handle_send_keys mx sn pane_id (s ''keys''))
         else if t = ''capture_pane'' then
           Some (handle_capture_pane mx sn pane_id (jget_u64 request ''max_lines'')
             \<lparr>cr_ansi = jget_bool request ''ansi'', cr_start = jget_i64 request ''start_line'', cr_end = jget_i64 request ''end_line'',
              cr_join = jget_bool request ''join_wrapped'', cr_spaces = jget_bool request ''preserve_spaces'',
              cr_alternate = jget_bool request ''alternate'', cr_buffer = jget_str request ''buffer_name''\<rparr>)
         else if t = ''wait_for_text'' then Some (handle_wait_for_text mx sn pane_id (s ''text'') (timeout DEFAULT_WAIT_TIMEOUT_MS))
         else if t = ''wait_exit'' then Some (handle_wait_exit mx sn pane_id (timeout DEFAULT_WAIT_TIMEOUT_MS))
         else if t = ''split_window'' then Some (handle_split_window mx sn)
         else if t = ''spawn_command'' then Some (handle_spawn_command mx sn pane_id (s ''command'') strs)
         else if t = ''shell_command'' then Some (handle_shell_command mx sn pane_id (s ''command''))
         else if t = ''respawn_pane'' then
           Some (handle_respawn_pane mx sn pane_id (jget_str request ''command'') (jget_strs request ''args'') (jget_bool request ''shell'')
             (jget_str request ''cwd'') (jget request ''env'') (jget_bool request ''kill'') (jget_bool request ''keep_alive_on_exit''))
         else if t = ''broadcast_keys'' then
           Some (handle_broadcast_keys mx sn (case jget_strs request ''pane_ids'' of Some a \<Rightarrow> a | None \<Rightarrow> []) (s ''keys''))
         else if t = ''cmd_escape'' then Some (handle_cmd_escape mx strs)
         else if t = ''split_pane'' then Some (handle_split_pane mx sn pane_id (str_or ''horizontal'' (jget_str request ''direction'')))
         else if t = ''resize_pane'' then
           (let cols = nat_or 80 (jget_u64 request ''cols''); rows = nat_or 24 (jget_u64 request ''rows'')
            in if cols < 2 ^ 16 \<and> rows < 2 ^ 16 then Some (handle_resize_pane mx sn pane_id cols rows) else None)
         else if t = ''send_text'' then Some (handle_send_text mx sn pane_id (s ''text''))
         else if t = ''set_pane_title'' then Some (handle_set_pane_title mx sn pane_id (s ''title''))
         else if t = ''find_pane_text'' then Some (handle_find_pane_text mx sn pane_id (s ''pattern''))
         else if t = ''close_pane'' then Some (handle_close_pane mx sn pane_id)
         else if t = ''close_window'' then Some (handle_close_window mx sn idx)
         else if t = ''kill_session'' then Some (handle_kill_session mx sn)
         else if t = ''rename_window'' then Some (handle_rename_window mx sn idx (s ''name''))
         else if t = ''list_window_panes'' then Some (handle_list_window_panes mx sn idx)
         else if t = ''resize_window'' then
           (let w = jget_u64 request ''width''; h = jget_u64 request ''height''
            in if nat_or 0 w < 2 ^ 16 \<and> nat_or 0 h < 2 ^ 16 then Some (handle_resize_window mx sn idx w h) else None)
         else if t = ''select_window'' then Some (handle_select_window mx sn idx)
         else if t = ''select_layout'' then Some (handle_select_layout mx sn idx (str_or ''tiled'' (jget_str request ''layout'')))
         else if t = ''pane_info'' then Some (handle_pane_info mx sn pane_id)
         else if t = ''window_info'' then Some (handle_window_info mx sn idx)
         else if t = ''pane_exists'' then Some (handle_pane_exists mx sn pane_id)
         else if t = ''find_panes'' then Some (handle_find_panes mx request)
         else if t = ''find_sessions'' then Some (handle_find_sessions mx request)
         else if t = ''get_pane_title'' then Some (handle_get_pane_title mx sn pane_id)
         else if t = ''find_text_all'' then Some (handle_find_text_all mx sn pane_id (s ''pattern''))
         else if t = ''clear_history'' then Some (handle_clear_history mx pane_id)
         else if t = ''list_buffers'' then Some (handle_list_buffers mx)
         else if t = ''paste_buffer'' then Some (handle_paste_buffer mx pane_id (s ''buffer_name''))
         else if t = ''delete_buffer'' then Some (handle_delete_buffer mx (s ''buffer_name''))
         else if t = ''split_pane_with'' then
           Some (handle_split_pane_with mx sn pane_id (str_or ''horizontal'' (jget_str request ''direction'')) (s ''command'') strs
             (bool_or True (jget_bool request ''shell'')) (jget_str request ''cwd'') (jget request ''env'') (jget_str request ''title'')
             (jget_bool request ''keep_alive_on_exit''))
         else if t = ''get_pane_by_title'' then Some (handle_get_pane_by_title mx (s ''title''))
         else if t = ''collect_until_exit'' then
           Some (handle_collect_until_exit mx sn pane_id (nat_or 1048576 (jget_u64 request ''max_bytes'')) (timeout DEFAULT_COLLECT_TIMEOUT_MS)
             (str_or ''now'' (jget_str request ''starting_at'')))
         else if t = ''break_pane'' then
           Some (handle_break_pane mx pane_id (map_option as_u32 (jget_u64 request ''destination_window'')) (bool_or False (jget_bool request ''detached'')))
         else if t = ''join_pane'' then
           Some (handle_join_pane mx (s ''source_pane_id'') (s ''target_pane_id'') (jget_str request ''direction'') (map_option as_u32 (jget_u64 request ''size'')))
         else if t = ''swap_pane'' then
           Some (handle_swap_pane mx (s ''source_pane_id'') (s ''target_pane_id'') (bool_or False (jget_bool request ''detached'')))
         else if t = ''capabilities'' then Some (handle_capabilities mx (jget_str request ''check''))
         else if t = ''capture_region'' then
           Some (handle_capture_region mx sn pane_id (u16_field request ''row'') (u16_field request ''col'') (u16_field request ''rows'')
             (u16_field request ''cols'') (bool_or False (jget_bool request ''styled'')))
         else if t = ''wait_for_bytes'' then
           Some (handle_wait_for_bytes mx sn pane_id (s ''bytes'') (bool_or False (jget_bool request ''only_new'')) (timeout DEFAULT_BYTES_WAIT_TIMEOUT_MS))
         else if t = ''wait_stable'' then
           Some (handle_wait_stable mx sn pane_id (nat_or 500 (jget_u64 request ''stable_ms'')) (timeout DEFAULT_WAIT_TIMEOUT_MS))
         else Some (reply (failed (''unknown request type: '' @ t))))"

text \<open>The start of a stream of output; the stream itself is the multiplexer's.\<close>

definition subscribe_pane_output :: "'m rmux \<Rightarrow> string \<Rightarrow> string \<Rightarrow> 'm handler" where
  "subscribe_pane_output mx session_name pane_id_str = with_pane mx session_name pane_id_str (\<lambda>p.
     sdk (mx_recover_output mx p) (\<lambda>_. ok_reply [(''stream_subscribed'', JBool True), (''pane_id'', JStr pane_id_str)]))"

text \<open>
  The bridge: the multiplexer, its connection events and its recordings. \<open>br_db_error\<close> is the error
  its event database gives to a query, \<open>br_list_error\<close> the one of reading the recording directories,
  when they fail.
\<close>

record 'm bridge =
  br_mux :: 'm
  br_events :: "connect_row list"
  br_dirs :: "rec_dir list"
  br_db_error :: "string option"
  br_list_error :: "string option"

text \<open>
  One request of a connection and its answer; \<open>None\<close> is an error or a panic, which ends the connection.
  The local commands are recognised by the field \<open>command\<close>, before the type of the request is looked at.
\<close>

definition bridge_answer ::
    "(bytes \<Rightarrow> json option) \<Rightarrow> (json \<Rightarrow> bytes) \<Rightarrow> string \<Rightarrow> 'm rmux \<Rightarrow> json \<Rightarrow> 'm bridge \<Rightarrow> ('m bridge \<times> json) option" where
  "bridge_answer parse print rdir mx request b =
     (let params = (case jget request ''params'' of Some v \<Rightarrow> v | None \<Rightarrow> JNull);
          on_mux = (\<lambda>h. case h (br_mux b) of (m, r) \<Rightarrow> (b\<lparr>br_mux := m\<rparr>, r))
      in if jget_str request ''command'' = Some ''audit_query'' then
           Some (b, case br_db_error b of Some e \<Rightarrow> failed (''audit query failed: '' @ e) | None \<Rightarrow>
             jobj [(''events'', JArr (query_events (jget_str params ''event_type'') (jget_str params ''session_name'')
              (jget_str params ''since'') (jget_str params ''until'') (min (nat_or 50 (jget_u64 params ''limit'')) 10000) (br_events b)))])
         else if jget_str request ''command'' = Some ''audit_stats'' then
           Some (b, case br_db_error b of Some e \<Rightarrow> failed (''audit stats failed: '' @ e) | None \<Rightarrow>
             (case event_stats (jget_str params ''since'') (br_events b) of
                (n, by_type) \<Rightarrow> jobj [(''total'', jnat n), (''events_by_type'', by_type)]))
         else if jget_str request ''command'' = Some ''list_unsynced_recordings'' \<and> br_list_error b \<noteq> None then
           Some (b, failed (''list_unsynced failed: '' @ the (br_list_error b)))
         else if jget_str request ''command'' \<in> {Some ''list_unsynced_recordings'', Some ''mark_synced''} then
           map_option (\<lambda>(ds, r). (b\<lparr>br_dirs := ds\<rparr>, r)) (local_command parse print rdir request (br_dirs b))
         else if jget_str request ''type'' = Some ''stream_subscribe'' then
           Some (on_mux (subscribe_pane_output mx (str_or [] (jget_str request ''session_name'')) (str_or [] (jget_str request ''pane_id''))))
         else map_option on_mux (dispatch_request mx request))"

definition handle_request ::
    "(bytes \<Rightarrow> json option) \<Rightarrow> (json \<Rightarrow> bytes) \<Rightarrow> string \<Rightarrow> 'm rmux \<Rightarrow> json \<Rightarrow> 'm bridge \<Rightarrow> ('m bridge \<times> json) option" where
  "handle_request parse print rdir mx request b =
     map_option (\<lambda>(b', r). (b', send_response r)) (bridge_answer parse print rdir mx request b)"

section \<open>Facts about answers\<close>

text \<open>The answers a handler may give, before a code is added.\<close>

definition answer_ok :: "json \<Rightarrow> bool" where
  "answer_ok j \<longleftrightarrow> (\<exists>kvs. j = JObj kvs) \<and> keys_sorted j \<and> jget j ''error_code'' = None
     \<and> (jget_bool j ''ok'' = Some False \<longrightarrow> jget_str j ''error'' \<noteq> None)"

definition handler_ok :: "'m handler \<Rightarrow> bool" where
  "handler_ok h \<longleftrightarrow> (\<forall>m. answer_ok (snd (h m)))"

named_theorems answer_intros "handlers that give well-formed answers"

lemma map_of_fold_put: "map_of (fold (\<lambda>(k, v). put_entry k v) kvs acc) k = (case map_of (rev kvs) k of Some v \<Rightarrow> Some v | None \<Rightarrow> map_of acc k)"
proof (induction kvs arbitrary: acc)
  case (Cons x kvs)
  obtain a v where x: "x = (a, v)" by (cases x)
  show ?case by (simp add: x Cons.IH map_add_def split: option.split)
qed simp

lemma sorted_fold_put: "sorted_wrt (<) (map fst acc) \<Longrightarrow> sorted_wrt (<) (map fst (fold (\<lambda>(k, v). put_entry k v) kvs acc))"
  by (induction kvs arbitrary: acc) (auto simp: sorted_put_entry)

lemma jget_jobj [simp]: "jget (jobj kvs) k = map_of (rev kvs) k"
  by (simp add: jobj_def map_of_fold_put split: option.split)

lemma keys_sorted_jobj [simp]: "keys_sorted (jobj kvs)"
  by (simp add: jobj_def keys_sorted_def sorted_fold_put)

lemma jobj_object: "\<exists>kvs'. jobj kvs = JObj kvs'"
  by (simp add: jobj_def)

lemma answer_ok_jobj:
  "map_of (rev kvs) ''error_code'' = None \<Longrightarrow> (map_of (rev kvs) ''ok'' = Some (JBool False) \<Longrightarrow> \<exists>e. map_of (rev kvs) ''error'' = Some (JStr e))
   \<Longrightarrow> answer_ok (jobj kvs)"
  using jobj_object [of kvs]
  by (auto simp: answer_ok_def jget_bool_def jget_str_def bind_eq_Some_conv elim!: jas_bool.elims)

lemma answer_ok_failed [simp, answer_intros]: "answer_ok (failed e)"
  unfolding failed_def by (rule answer_ok_jobj) simp_all

lemma answer_ok_jinsert:
  "answer_ok j \<Longrightarrow> k \<notin> {''ok'', ''error'', ''error_code''} \<Longrightarrow> answer_ok (jinsert k v j)"
  by (auto simp: answer_ok_def jget_bool_def jget_str_def dest: keys_sorted_jinsert [of _ k v])

lemma handler_ok_reply [answer_intros]: "answer_ok j \<Longrightarrow> handler_ok (reply j)"
  by (simp add: handler_ok_def reply_def)

lemma handler_ok_attempt [answer_intros]: "(\<And>r. handler_ok (f r)) \<Longrightarrow> handler_ok (attempt op f)"
  by (auto simp: handler_ok_def attempt_def split: prod.split)

lemma handler_ok_sdk [answer_intros]: "(\<And>x. handler_ok (f x)) \<Longrightarrow> handler_ok (sdk op f)"
  unfolding sdk_def by (rule handler_ok_attempt) (auto intro: answer_intros split: sum.split)

lemma handler_ok_map [answer_intros]: "handler_ok h \<Longrightarrow> (\<And>r. answer_ok r \<Longrightarrow> answer_ok (F r)) \<Longrightarrow> handler_ok (map_answer F h)"
  by (auto simp: handler_ok_def map_answer_def)

lemma handler_ok_if: "handler_ok a \<Longrightarrow> handler_ok b \<Longrightarrow> handler_ok (if c then a else b)"
  by simp

lemma handler_ok_prod: "(\<And>a b. handler_ok (f a b)) \<Longrightarrow> handler_ok (case x of (a, b) \<Rightarrow> f a b)"
  by (cases x) simp

lemma handler_ok_option: "handler_ok a \<Longrightarrow> (\<And>x. handler_ok (g x)) \<Longrightarrow> handler_ok (case r of None \<Rightarrow> a | Some x \<Rightarrow> g x)"
  by (cases r) simp_all

lemma handler_ok_sum: "(\<And>e. handler_ok (f e)) \<Longrightarrow> (\<And>x. handler_ok (g x)) \<Longrightarrow> handler_ok (case r of Inl e \<Rightarrow> f e | Inr x \<Rightarrow> g x)"
  by (cases r) simp_all

lemma handler_ok_wait_error:
  "(\<And>e. handler_ok (f e)) \<Longrightarrow> (\<And>e. handler_ok (g e)) \<Longrightarrow> handler_ok (case r of WaitTimeout e \<Rightarrow> f e | WaitError e \<Rightarrow> g e)"
  by (cases r) simp_all

lemma answer_ok_sum: "(\<And>e. answer_ok (f e)) \<Longrightarrow> (\<And>x. answer_ok (g x)) \<Longrightarrow> answer_ok (case r of Inl e \<Rightarrow> f e | Inr x \<Rightarrow> g x)"
  by (cases r) simp_all

lemmas branch_intros = handler_ok_if handler_ok_prod handler_ok_option handler_ok_sum handler_ok_wait_error answer_ok_sum

lemma handler_ok_session_name [answer_intros]: "(\<And>x. handler_ok (f x)) \<Longrightarrow> handler_ok (with_session_name mx name f)"
  by (auto simp: with_session_name_def intro: answer_intros split: sum.split)

lemma handler_ok_target [answer_intros]: "(\<And>x y. handler_ok (f x y)) \<Longrightarrow> handler_ok (with_target mx name pid f)"
  by (auto simp: with_target_def intro: answer_intros split: option.split)

lemma handler_ok_pane [answer_intros]: "(\<And>x. handler_ok (f x)) \<Longrightarrow> handler_ok (with_pane mx name pid f)"
  by (auto simp: with_pane_def intro!: answer_intros)

lemma handler_ok_session [answer_intros]: "(\<And>x. handler_ok (f x)) \<Longrightarrow> handler_ok (with_session mx name f)"
  by (auto simp: with_session_def intro!: answer_intros)

lemma handler_ok_ok_reply [answer_intros]:
  "map_of (rev kvs) ''error_code'' = None \<Longrightarrow> map_of (rev kvs) ''ok'' = None \<Longrightarrow> handler_ok (ok_reply kvs)"
  unfolding ok_reply_def by (intro handler_ok_reply answer_ok_jobj) (auto simp: map_add_Some_iff)

lemma handler_ok_fill [answer_intros]: "answer_ok resp \<Longrightarrow> handler_ok (fill_partial_fields mx p resp)"
  unfolding fill_partial_fields_def by (intro answer_intros) (auto intro!: answer_ok_jinsert split: sum.split)

lemma handler_ok_cli [answer_intros]: "(\<And>r. handler_ok (f r)) \<Longrightarrow> handler_ok (cli_command mx args f)"
  unfolding cli_command_def cli_failure_def by (intro answer_intros) (auto intro!: answer_intros)

lemma handler_ok_input [answer_intros]: "handler_ok (input_answer pre_state prompt_line r)"
  unfolding input_answer_def attach_pre_context_def Let_def
  by (intro answer_intros) (auto intro!: answer_ok_jinsert answer_ok_jobj answer_ok_failed split: sum.split option.split)

lemma broadcast_panes_ok [answer_intros]: "(\<And>ps. handler_ok (f ps)) \<Longrightarrow> handler_ok (broadcast_panes mx sn pids ps f)"
  by (induction pids arbitrary: ps) (auto intro!: answer_intros split: option.split)

lemma input_handlers_ok [answer_intros]:
  shows "handler_ok (handle_send_keys mx sn pid keys)" and "handler_ok (handle_send_text mx sn pid keys)"
    and "handler_ok (handle_broadcast_keys mx sn pids keys)" and "handler_ok (handle_cmd_escape mx args)"
    and "handler_ok (handle_spawn_command mx sn pid cmd args)" and "handler_ok (handle_shell_command mx sn pid cmd)"
    and "handler_ok (handle_respawn_pane mx sn pid c a sh cwd env k ka)"
  unfolding handle_send_keys_def handle_send_text_def handle_broadcast_keys_def handle_cmd_escape_def
    handle_spawn_command_def handle_shell_command_def handle_respawn_pane_def
  by (auto intro!: answer_intros split: prod.split)

lemma session_handlers_ok [answer_intros]:
  shows "handler_ok (handle_new_session mx name d)" and "handler_ok (handle_list_sessions mx)"
    and "handler_ok (handle_attach_session mx name)" and "handler_ok (handle_detach_session mx name)"
    and "handler_ok (handle_kill_session mx name)" and "handler_ok (handle_find_sessions mx args)"
    and "handler_ok (handle_split_window mx name)" and "handler_ok (handle_close_window mx name i)"
    and "handler_ok (handle_rename_window mx name i n)" and "handler_ok (handle_resize_window mx name i w h)"
    and "handler_ok (handle_select_window mx name i)" and "handler_ok (handle_select_layout mx name i l)"
    and "handler_ok (handle_window_info mx name i)" and "handler_ok (handle_list_window_panes mx name i)"
  unfolding handle_new_session_def handle_list_sessions_def handle_attach_session_def handle_detach_session_def
    handle_kill_session_def handle_find_sessions_def handle_split_window_def handle_close_window_def handle_rename_window_def
    handle_resize_window_def handle_select_window_def handle_select_layout_def handle_window_info_def handle_list_window_panes_def
  by (auto intro!: answer_intros split: prod.split option.split)

lemma pane_handlers_ok [answer_intros]:
  shows "handler_ok (handle_split_pane mx sn pid d)" and "handler_ok (handle_resize_pane mx sn pid c r)"
    and "handler_ok (handle_set_pane_title mx sn pid t)" and "handler_ok (handle_get_pane_title mx sn pid)"
    and "handler_ok (handle_close_pane mx sn pid)" and "handler_ok (handle_pane_info mx sn pid)"
    and "handler_ok (handle_pane_exists mx sn pid)" and "handler_ok (handle_find_pane_text mx sn pid t)"
    and "handler_ok (handle_clear_history mx pid)" and "handler_ok (handle_capabilities mx w)"
  unfolding handle_split_pane_def handle_resize_pane_def handle_set_pane_title_def handle_get_pane_title_def handle_close_pane_def
    handle_pane_info_def handle_pane_exists_def handle_find_pane_text_def handle_clear_history_def handle_capabilities_def
    invalid_direction_def Let_def
  by (auto intro!: answer_intros answer_ok_jinsert answer_ok_jobj split: prod.split option.split sum.split)

lemma fallback_ok [answer_intros]: "handler_ok (find_panes_cli_fallback mx args)"
  unfolding find_panes_cli_fallback_def Let_def by (auto intro!: answer_intros split: sum.split prod.split)

lemma titled_ok: "answer_ok j \<Longrightarrow> answer_ok (titled_errors a b j)"
  by (auto simp: titled_errors_def intro!: answer_ok_jinsert split: option.split)

lemma by_title_ok [answer_intros]: "handler_ok (handle_get_pane_by_title mx title)"
  unfolding handle_get_pane_by_title_def Let_def
  by (intro answer_intros) (auto intro!: answer_intros titled_ok answer_ok_jobj split: sum.split option.split list.split)

lemma arranging_handlers_ok [answer_intros]:
  shows "handler_ok (handle_find_panes mx request)" and "handler_ok (handle_break_pane mx pid dw d)"
    and "handler_ok (handle_join_pane mx s t dir n)" and "handler_ok (handle_swap_pane mx s t d)"
    and "handler_ok (handle_split_pane_with mx sn pid direction cmd args sh cwd env ti ka)"
  unfolding handle_find_panes_def handle_break_pane_def handle_join_pane_def handle_swap_pane_def handle_split_pane_with_def
    pane_pair_checked_def invalid_direction_def Let_def
  by (intro branch_intros answer_intros answer_ok_jobj; simp)+

lemma region_ok [answer_intros]: "handler_ok (handle_capture_region mx sn pid r c rs cs st)"
  unfolding handle_capture_region_def Let_def
  by (rule handler_ok_pane, cases r; cases c; cases rs; cases cs) (auto intro!: answer_intros)

lemma buffer_handlers_ok [answer_intros]:
  shows "handler_ok (handle_list_buffers mx)" and "handler_ok (handle_paste_buffer mx pid b)" and "handler_ok (handle_delete_buffer mx b)"
  unfolding handle_list_buffers_def handle_paste_buffer_def handle_delete_buffer_def Let_def
  by (auto intro!: answer_intros split: option.split)

lemma wait_exit_loop_ok [answer_intros]: "handler_ok (wait_exit_loop mx p t i)"
proof -
  have "answer_ok (snd (wait_exit_loop mx p t i m))" for m
  proof (induction mx p t i m rule: wait_exit_loop.induct)
    case (1 mx p t i m)
    have "answer_ok (snd (fill_partial_fields mx p (failed ''timeout waiting for exit'') m'))" for m'
      by (rule handler_ok_fill [OF answer_ok_failed, unfolded handler_ok_def, rule_format])
    then show ?case
      using 1 by (subst wait_exit_loop.simps)
        (auto intro!: answer_ok_jobj split: prod.split sum.split list.split option.split)
  qed
  then show ?thesis by (simp add: handler_ok_def)
qed

lemma capture_ok [answer_intros]: "handler_ok (handle_capture_pane mx sn pid ml req)"
proof -
  have base: "answer_ok (jobj [(''ok'', JBool True), (''text'', t), (''buffer_written'', b)])" for t b
    by (rule answer_ok_jobj) simp_all
  show ?thesis unfolding handle_capture_pane_def Let_def snapshot_fields_def
    by (intro branch_intros answer_intros answer_ok_jinsert base) simp_all
qed

lemma output_handlers_ok [answer_intros]:
  shows "handler_ok (handle_wait_for_text mx sn pid t n)"
    and "handler_ok (handle_wait_for_bytes mx sn pid b new n)" and "handler_ok (handle_wait_exit mx sn pid n)"
    and "handler_ok (handle_wait_stable mx sn pid k n)" and "handler_ok (handle_find_text_all mx sn pid t)"
  unfolding handle_wait_for_text_def handle_wait_for_bytes_def handle_wait_exit_def handle_wait_stable_def
    handle_find_text_all_def snapshot_fields_def Let_def
  by (intro branch_intros answer_intros answer_ok_jobj; simp)+

lemma collect_ok [answer_intros]: "handler_ok (handle_collect_until_exit mx sn pid mb n st)"
  unfolding handle_collect_until_exit_def collect_live_def collected_json_def Let_def
  by (auto intro!: answer_intros answer_ok_jinsert answer_ok_jobj split: option.split collect_end.split)

lemma subscribe_ok [answer_intros]: "handler_ok (subscribe_pane_output mx sn pid)"
  unfolding subscribe_pane_output_def by (auto intro!: answer_intros)

definition dispatch_ok :: "'m handler option \<Rightarrow> bool" where
  "dispatch_ok x \<longleftrightarrow> (\<forall>h. x = Some h \<longrightarrow> handler_ok h)"

lemma dispatch_ok_intros:
  shows "dispatch_ok a \<Longrightarrow> dispatch_ok b \<Longrightarrow> dispatch_ok (if c then a else b)"
    and "handler_ok h \<Longrightarrow> dispatch_ok (Some h)" and "dispatch_ok None"
  by (simp_all add: dispatch_ok_def)

lemma dispatch_request_ok: "dispatch_request mx request = Some h \<Longrightarrow> handler_ok h"
proof -
  have "dispatch_ok (dispatch_request mx request)"
    unfolding dispatch_request_def Let_def by (intro dispatch_ok_intros answer_intros)
  then show "dispatch_request mx request = Some h \<Longrightarrow> handler_ok h" by (simp add: dispatch_ok_def)
qed

lemma local_answer_ok: "local_command parse print rdir request ds = Some (ds', r) \<Longrightarrow> answer_ok r"
proof -
  have "answer_ok (JObj [(''files'', v)])" "answer_ok (JObj [(''error'', JStr e), (''ok'', JBool False)])"
      "answer_ok (JObj [(''ok'', JBool True)])" for v e
    by (simp_all add: answer_ok_def keys_sorted_def jget_bool_def jget_str_def)
  then show "local_command parse print rdir request ds = Some (ds', r) \<Longrightarrow> answer_ok r"
    unfolding local_command_def Let_def
    apply (auto split: if_split_asm)
    subgoal for z by (cases z) auto
    done
qed

lemma on_mux_ok: "handler_ok h \<Longrightarrow> (case h m of (m', r) \<Rightarrow> (b\<lparr>br_mux := m'\<rparr>, r)) = (b', r) \<Longrightarrow> answer_ok r"
  by (cases "h m") (auto simp: handler_ok_def dest: spec [of _ m])

lemma bridge_answer_ok:
  assumes "bridge_answer parse print rdir mx request b = Some (b', r)"
  shows "answer_ok r"
proof -
  have bad: "answer_ok (failed e)" for e by (auto simp: failed_def intro!: answer_ok_jobj)
  have ev: "answer_ok (jobj [(''events'', v)])" "answer_ok (jobj [(''total'', v), (''events_by_type'', w)])" for v w
    by (auto intro!: answer_ok_jobj)
  show ?thesis
  proof (cases "jget_str request ''command'' = Some ''audit_query''")
    case True
    then show ?thesis using assms ev bad by (auto simp: bridge_answer_def Let_def split: option.split_asm)
  next
    case nq: False
    show ?thesis
    proof (cases "jget_str request ''command'' = Some ''audit_stats''")
      case True
      then show ?thesis using assms ev bad by (auto simp: bridge_answer_def Let_def split: prod.split_asm option.split_asm)
    next
      case ns: False
      show ?thesis
      proof (cases "jget_str request ''command'' = Some ''list_unsynced_recordings'' \<and> br_list_error b \<noteq> None")
        case True
        then show ?thesis using assms bad by (auto simp: bridge_answer_def Let_def)
      next
      case nf: False
      show ?thesis
      proof (cases "jget_str request ''command'' \<in> {Some ''list_unsynced_recordings'', Some ''mark_synced''}")
        case True
        then show ?thesis using assms nq ns nf local_answer_ok
          by (simp only: bridge_answer_def Let_def if_False if_True map_option_eq_Some) auto
      next
        case nl: False
        note step = assms [unfolded bridge_answer_def Let_def if_not_P [OF nq] if_not_P [OF ns] if_not_P [OF nf] if_not_P [OF nl]]
        then show ?thesis using dispatch_request_ok [of mx request]
          by (cases "jget_str request ''type'' = Some ''stream_subscribe''")
             (simp_all only: if_True if_False option.inject map_option_eq_Some, auto intro: on_mux_ok [OF subscribe_ok] on_mux_ok)
      qed
      qed
    qed
  qed
qed

text \<open>
  C27. A bridge answers every request with an object whose keys are in order; an answer that reports a
  failure has an error text and the code the text is classified as, one of the known codes, and no
  handler sets a code itself.
\<close>

theorem bridge_answers_classified:
  assumes "handle_request parse print rdir mx request b = Some (b', r)"
  shows "keys_sorted r \<and> (\<exists>kvs. r = JObj kvs)
     \<and> (jget_bool r ''ok'' = Some False \<longrightarrow>
          (\<exists>e. jget_str r ''error'' = Some e \<and> jget_str r ''error_code'' = Some (classify_error_message e)
             \<and> classify_error_message e \<in> set known_codes))
     \<and> (jget_bool r ''ok'' \<noteq> Some False \<longrightarrow> jget r ''error_code'' = None)"
proof -
  obtain r0 where r0: "bridge_answer parse print rdir mx request b = Some (b', r0)" "r = send_response r0"
    using assms by (auto simp: handle_request_def)
  note ok = bridge_answer_ok [OF r0(1)]
  then obtain kvs where kvs: "r0 = JObj kvs" by (auto simp: answer_ok_def)
  show ?thesis
    using ok classify_known keys_sorted_jinsert [of r0 "''error_code''"]
    by (auto simp: r0(2) send_response_def answer_ok_def kvs jget_bool_def jget_str_def str_or_def split: option.splits)
qed

definition idle_bridge :: "unit bridge" where
  "idle_bridge = \<lparr>br_mux = (), br_events = [], br_dirs = [], br_db_error = None, br_list_error = None\<rparr>"

definition bad_pane_request :: json where
  "bad_pane_request = JObj [(''keys'', JStr ''ls''), (''pane_id'', JStr ''7''), (''session_name'', JStr ''clum''), (''type'', JStr ''send_keys'')]"

theorem bridge_answers_classified_witness:
  "case handle_request (\<lambda>_. None) (\<lambda>_. []) [] absent_mux bad_pane_request idle_bridge of
     None \<Rightarrow> False
   | Some (b, r) \<Rightarrow> b = idle_bridge \<and> keys_sorted r \<and> jget_str r ''error_code'' = Some CODE_PANE_NOT_FOUND"
proof -
  have a: "bridge_answer (\<lambda>_. None) (\<lambda>_. []) [] absent_mux bad_pane_request idle_bridge = Some (idle_bridge, failed ''invalid pane_id: 7'')"
    by (simp add: bridge_answer_def dispatch_request_def bad_pane_request_def jget_str_def handle_send_keys_def with_pane_def
        with_target_def parse_pane_id_def reply_def str_or_def Let_def idle_bridge_def)
  have "handle_request (\<lambda>_. None) (\<lambda>_. []) [] absent_mux bad_pane_request idle_bridge
      = Some (idle_bridge, send_response (failed ''invalid pane_id: 7''))"
    by (simp add: handle_request_def a)
  note t = bridge_answers_classified [OF this] and r = this
  have "jget_bool (send_response (failed ''invalid pane_id: 7'')) ''ok'' = Some False"
      "jget_str (send_response (failed ''invalid pane_id: 7'')) ''error'' = Some ''invalid pane_id: 7''"
      "classify_error_message ''invalid pane_id: 7'' = CODE_PANE_NOT_FOUND"
    by code_simp+
  with t show ?thesis by (simp add: r)
qed

text \<open>
  The field \<open>command\<close> of a request is also the command line of \<open>shell_command\<close>, \<open>spawn_command\<close>,
  \<open>split_pane_with\<close> and \<open>respawn_pane\<close>: a command line that is the name of a local command is not run, and
  whoever may run commands on a pane reads the bridge's connection events.
\<close>

lemma shell_command_reads_events:
  "br_db_error b = None \<Longrightarrow> bridge_answer parse print rdir mx
     (JObj [(''command'', JStr ''audit_query''), (''pane_id'', JStr p), (''session_name'', JStr sn), (''type'', JStr ''shell_command'')]) b
   = Some (b, jobj [(''events'', JArr (query_events None None None None 50 (br_events b)))])"
  by (simp add: bridge_answer_def jget_str_def jget_u64_def nat_or_def Let_def)

text \<open>A window index is cut to 32 bits: closing window \<open>2 ^ 32\<close> closes window 0.\<close>

lemma close_window_wraps:
  "dispatch_request mx (JObj [(''session_name'', JStr sn), (''type'', JStr ''close_window''), (''window_index'', JInt (2 ^ 32))])
   = Some (handle_close_window mx sn 0)"
  by (simp add: dispatch_request_def jget_str_def jget_u64_def nat_or_def as_u32_def str_or_def Let_def)

text \<open>A size beyond 16 bits is not answered: it ends the connection.\<close>

lemma resize_ends_connection:
  "dispatch_request mx (JObj [(''cols'', JInt 65536), (''pane_id'', JStr p), (''session_name'', JStr sn), (''type'', JStr ''resize_pane'')]) = None"
  by (simp add: dispatch_request_def jget_str_def jget_u64_def nat_or_def str_or_def Let_def)

end
