(* ===== verification/Tool_Link.thy ===== *)
theory Tool_Link
  imports Bridge_Protocol Audit_Chain
begin

text \<open>
  What the tools of the server share (\<open>clum-mcp/src/tools/common.rs\<close>, \<open>tools/deploy.rs\<close>,
  \<open>transport.rs\<close>): finding the host, connecting to its bridge, one request and its answer, the pane a call
  means, the audit record, and the connection to the bridge of this development.

  Everything outside the server is a state of its own with the operations of \<open>link\<close>: a stream through the
  registry, a direct connection, a request with its answer, the clock in nanoseconds and pauses. An
  error of sending and an error of receiving are not distinguished by any tool. A request ends with an
  answer or an error; the source sets no time limit, and a call whose request never ends waits for ever.
\<close>

section \<open>Hosts and connections\<close>

record 's link =
  lk_registry :: "string \<Rightarrow> 's \<Rightarrow> 's \<times> bool"
  lk_direct :: "string \<Rightarrow> string \<Rightarrow> 's \<Rightarrow> 's \<times> (string + unit)"
  lk_ask :: "json \<Rightarrow> 's \<Rightarrow> 's \<times> (string + json)"
  lk_now :: "'s \<Rightarrow> nat"
  lk_pause :: "nat \<Rightarrow> 's \<Rightarrow> 's"
  lk_to_json :: "json \<Rightarrow> string"

record 's tool_ctx =
  tc_hosts :: router
  tc_enrolled :: "string list"
  tc_link :: "'s link"
  tc_agent :: string
  tc_op :: "string option"
  tc_event_id :: string
  tc_time :: string

definition resolve_host_config :: "'s tool_ctx \<Rightarrow> string \<Rightarrow> string + host_config" where
  "resolve_host_config ctx host_name = (case tc_hosts ctx host_name of
     Some h \<Rightarrow> Inr h
   | None \<Rightarrow>
       if host_name \<in> set (tc_enrolled ctx)
       then Inr \<lparr>hc_name = host_name, hc_bridge_addr = None, hc_bridge_token = None, hc_group = [], hc_tags = [],
                 hc_labels = [], hc_allowed_forward_targets = None\<rparr>
       else Inl (''host not found: '' @ host_name))"

definition connect_to_host :: "'s tool_ctx \<Rightarrow> host_config \<Rightarrow> 's \<Rightarrow> 's \<times> (string + unit)" where
  "connect_to_host ctx host s = (case lk_registry (tc_link ctx) (hc_name host) s of
     (s', True) \<Rightarrow> (s', Inr ())
   | (s', False) \<Rightarrow>
       (case (hc_bridge_addr host, hc_bridge_token host) of
          (Some addr, Some tok) \<Rightarrow> lk_direct (tc_link ctx) addr tok s'
        | _ \<Rightarrow> (s', Inl (''host '' @ [CHR 0x27] @ hc_name host @ [CHR 0x27]
            @ '': no bridge_addr/bridge_token configured and not found in registry '' @ em_dash
            @ '' either configure hosts.yaml for direct connection or ensure bridge is enrolled''))))"

section \<open>Panes\<close>

definition trim_percent :: "string \<Rightarrow> string" where
  "trim_percent s = dropWhile (\<lambda>c. c = CHR ''%'') s"

definition resolve_pane_id :: "'s link \<Rightarrow> string \<Rightarrow> string option \<Rightarrow> 's \<Rightarrow> 's \<times> (string + string \<times> bool)" where
  "resolve_pane_id lk session_name provided s = (case provided of
     Some i \<Rightarrow> (s, Inr (i, False))
   | None \<Rightarrow>
       (case lk_ask lk (jobj [(''type'', JStr ''list_window_panes''), (''session_name'', JStr session_name), (''window_index'', jnat 0)]) s of
          (s', Inl e) \<Rightarrow> (s', Inl e)
        | (s', Inr resp) \<Rightarrow>
            (s', if jget_bool resp ''ok'' = Some False then
                   Inl (case jget_str resp ''error'' of
                     Some e \<Rightarrow> e
                   | None \<Rightarrow> lk_to_json lk (case jget resp ''error'' of Some v \<Rightarrow> v | None \<Rightarrow> JNull))
                 else case Option.bind (jget resp ''panes'') jas_array of
                   None \<Rightarrow> Inl ''no panes in list_window_panes response''
                 | Some ps \<Rightarrow>
                     (case List.map_filter (\<lambda>p. Option.bind (jget_str p ''pane_id'') (\<lambda>i. parse_u32 (trim_percent i))) ps of
                        [] \<Rightarrow> Inl ''no valid pane_id found in session window 0''
                      | n # ns \<Rightarrow> Inr (CHR ''%'' # decimal (Min (set (n # ns))), True)))))"

definition enrich_pane_response :: "json \<Rightarrow> string \<Rightarrow> bool \<Rightarrow> json" where
  "enrich_pane_response response pane_id auto_resolved =
     (let response = jinsert ''resolved_pane_id'' (JStr pane_id) response
      in if auto_resolved then jinsert ''auto_resolved'' (JBool True) response else response)"

section \<open>Audit records\<close>

definition audit_flagged ::
    "'s tool_ctx \<Rightarrow> string \<Rightarrow> string \<Rightarrow> string \<Rightarrow> string option \<Rightarrow> string \<Rightarrow> bool \<Rightarrow> string option \<Rightarrow> bool \<Rightarrow> nat \<Rightarrow> string option
     \<Rightarrow> audit_event" where
  "audit_flagged ctx action host session pane_id detail redacted output_summary success duration_ms error_message =
     \<lparr>e_event_id = tc_event_id ctx, e_timestamp = tc_time ctx, e_agent_name = tc_agent ctx, e_host_name = host,
      e_session_name = session, e_pane_id = pane_id, e_operation_id = tc_op ctx,
      e_action_json = [CHR 0x22] @ action @ [CHR 0x22], e_detail = detail, e_redacted = redacted,
      e_output_summary = output_summary, e_success = success, e_duration_ms = of_nat duration_ms,
      e_error_message = error_message\<rparr>"

definition audit ::
    "'s tool_ctx \<Rightarrow> string \<Rightarrow> string \<Rightarrow> string \<Rightarrow> string option \<Rightarrow> string \<Rightarrow> string option \<Rightarrow> bool \<Rightarrow> nat \<Rightarrow> string option \<Rightarrow> audit_event" where
  "audit ctx action host session pane_id detail output_summary success duration_ms error_message =
     audit_flagged ctx action host session pane_id detail False output_summary success duration_ms error_message"

section \<open>Tools\<close>

text \<open>
  A tool ends with a result, with an error, or with a panic (\<open>None\<close>), and with the events it logged.
\<close>

type_synonym 's tool = "'s \<Rightarrow> 's \<times> (string + json) option \<times> audit_event list"

definition tool_fail :: "string \<Rightarrow> 's tool" where
  "tool_fail e s = (s, Some (Inl e), [])"

definition tool_done :: "json \<Rightarrow> audit_event list \<Rightarrow> 's tool" where
  "tool_done r evs s = (s, Some (Inr r), evs)"

definition tool_try :: "('s \<Rightarrow> 's \<times> (string + 'a)) \<Rightarrow> ('a \<Rightarrow> 's tool) \<Rightarrow> 's tool" where
  "tool_try op f s = (case op s of (s', Inl e) \<Rightarrow> tool_fail e s' | (s', Inr x) \<Rightarrow> f x s')"

text \<open>\<open>args[k].as_str().context("missing 'k'")?\<close> and the same for numbers.\<close>

definition quoted_name :: "string \<Rightarrow> string" where
  "quoted_name k = [CHR 0x27] @ k @ [CHR 0x27]"

definition need :: "'a option \<Rightarrow> string \<Rightarrow> ('a \<Rightarrow> 's tool) \<Rightarrow> 's tool" where
  "need v k f = (case v of Some x \<Rightarrow> f x | None \<Rightarrow> tool_fail (''missing '' @ quoted_name k))"

definition session_arg :: "json \<Rightarrow> string" where
  "session_arg args = str_or ''clum'' (jget_str args ''session_name'')"

definition on_host :: "'s tool_ctx \<Rightarrow> string \<Rightarrow> 's tool \<Rightarrow> 's tool" where
  "on_host ctx host_name f = (case resolve_host_config ctx host_name of
     Inl e \<Rightarrow> tool_fail e
   | Inr host \<Rightarrow> tool_try (connect_to_host ctx host) (\<lambda>_. f))"

definition on_pane :: "'s tool_ctx \<Rightarrow> string \<Rightarrow> json \<Rightarrow> (string \<Rightarrow> bool \<Rightarrow> 's tool) \<Rightarrow> 's tool" where
  "on_pane ctx host_name args f = on_host ctx host_name
     (tool_try (resolve_pane_id (tc_link ctx) (session_arg args) (jget_str args ''pane_id'')) (\<lambda>(pane_id, auto). f pane_id auto))"

definition exchange :: "'s tool_ctx \<Rightarrow> json \<Rightarrow> (json \<Rightarrow> 's tool) \<Rightarrow> 's tool" where
  "exchange ctx request f = tool_try (lk_ask (tc_link ctx) request) f"

text \<open>Fields of the arguments that are passed on as they are: \<open>if let Some(v) = args.get(k)\<close>.\<close>

definition pass_on :: "json \<Rightarrow> string list \<Rightarrow> (string \<times> json) list" where
  "pass_on args ks = List.map_filter (\<lambda>k. map_option (Pair k) (jget args k)) ks"

section \<open>The bridge at the other end\<close>

definition bridge_ask ::
    "(bytes \<Rightarrow> json option) \<Rightarrow> (json \<Rightarrow> bytes) \<Rightarrow> string \<Rightarrow> 'm rmux \<Rightarrow> json \<Rightarrow> 'm bridge \<Rightarrow> 'm bridge \<times> (string + json)" where
  "bridge_ask parse print rdir mx request b = (case handle_request parse print rdir mx request b of
     None \<Rightarrow> (b, Inl ''connection lost'')
   | Some (b', r) \<Rightarrow> (b', Inr r))"

definition bridge_link ::
    "(bytes \<Rightarrow> json option) \<Rightarrow> (json \<Rightarrow> bytes) \<Rightarrow> string \<Rightarrow> 'm rmux \<Rightarrow> ('m \<Rightarrow> nat) \<Rightarrow> (nat \<Rightarrow> 'm \<Rightarrow> 'm) \<Rightarrow> 'm bridge link" where
  "bridge_link parse print rdir mx now pause =
     \<lparr>lk_registry = (\<lambda>_ b. (b, True)), lk_direct = (\<lambda>_ _ b. (b, Inr ())), lk_ask = bridge_ask parse print rdir mx,
      lk_now = now \<circ> br_mux, lk_pause = (\<lambda>d b. b\<lparr>br_mux := pause d (br_mux b)\<rparr>), lk_to_json = (\<lambda>_. ''null'')\<rparr>"

section \<open>Batches\<close>

text \<open>
  The results of the tasks of a batch in the order of the hosts; \<open>None\<close> is a task that was cancelled or
  panicked. A later result of the same name replaces an earlier one.
\<close>

definition collect_step :: "(string \<times> json) option \<Rightarrow> json \<times> nat \<times> nat \<Rightarrow> json \<times> nat \<times> nat" where
  "collect_step h acc = (case acc of (results, success, failed_count) \<Rightarrow> case h of
     Some (host_name, result) \<Rightarrow>
       (jinsert host_name result results,
        if jget_bool result ''ok'' = Some True then (success + 1, failed_count) else (success, failed_count + 1))
   | None \<Rightarrow> (jinsert ''unknown'' (jobj [(''ok'', JBool False), (''error'', JStr ''task cancelled'')]) results, success, failed_count + 1))"

definition collect_batch_results :: "(string \<times> json) option list \<Rightarrow> json \<times> nat \<times> nat" where
  "collect_batch_results handles = fold collect_step handles (JObj [], 0, 0)"

lemma collect_step_counts: "collect_step h (j, a, b) = (j', a', b') \<Longrightarrow> a' + b' = a + b + 1"
  by (auto simp: collect_step_def split: option.split_asm prod.split_asm if_split_asm)

lemma collect_counts: "fold collect_step handles (j, a, b) = (j', a', b') \<Longrightarrow> a' + b' = a + b + length handles"
proof (induction handles arbitrary: j a b)
  case (Cons h handles)
  obtain j1 a1 b1 where s: "collect_step h (j, a, b) = (j1, a1, b1)" by (metis prod_cases3)
  show ?case using Cons.IH [of j1 a1 b1] Cons.prems collect_step_counts [OF s] by (simp add: s)
qed simp

end
