(* ===== verification/Exec_Tool.thy ===== *)
theory Exec_Tool
  imports Tool_Link
begin

text \<open>
  Running a command in a pane and waiting for its end (\<open>clum-mcp/src/tools/exec.rs\<close>): the check that the
  terminal is ready, the markers around the command, waiting for the closing marker, reading the output
  and the exit code off the screen, and going on after the connection was lost.

  The three characters of the marker are a parameter. Loops that could run for ever are partial
  functions; that they end is proved.
\<close>

section \<open>Checks\<close>

definition bad_control :: "char \<Rightarrow> bool" where
  "bad_control ch \<longleftrightarrow> (byte_of ch < 0x20 \<or> byte_of ch = 0x7F) \<and> ch \<noteq> CHR 0x09"

definition hex2 :: "char \<Rightarrow> string" where
  "hex2 c = (let d = (\<lambda>n. if n < 10 then char_of (48 + n) else char_of (87 + n)) in [d (byte_of c div 16), d (byte_of c mod 16)])"

text \<open>The first character that is not allowed decides; the characters concerned are single bytes.\<close>

definition validate_command_for_exec :: "string \<Rightarrow> string + string" where
  "validate_command_for_exec cmd = (case find bad_control cmd of
     None \<Rightarrow> Inr cmd
   | Some ch \<Rightarrow>
       if ch = CHR 0x0A \<or> ch = CHR 0x0D
       then Inl (''exec rejected: command contains newline/carriage return (0x'' @ hex2 ch
         @ ''). Use shell_command tool for multi-line scripts or complex commands.'')
       else Inl (''exec rejected: command contains unsafe control character 0x'' @ hex2 ch
         @ ''. Control characters are not allowed.''))"

section \<open>Results\<close>

record exec_result =
  xr_ok :: bool
  xr_output :: string
  xr_exit_code :: "int option"
  xr_duration_ms :: nat
  xr_error :: "string option"
  xr_terminal_state :: "json option"
  xr_cursor :: "json option"
  xr_pre_state :: "json option"
  xr_refused :: bool

record sent_command =
  sc_precheck :: "json option"
  sc_start :: string
  sc_sentinel :: string
  sc_timeout_ms :: nat
  sc_started :: nat

datatype send_outcome = Sent sent_command | SendDone exec_result
datatype await_outcome = AwaitDone exec_result | Lost

definition PROBE_WINDOW :: int where "PROBE_WINDOW = 20"
definition SCROLLBACK_CAP :: int where "SCROLLBACK_CAP = 50000"

definition elapsed_ms :: "'s link \<Rightarrow> sent_command \<Rightarrow> 's \<Rightarrow> nat" where
  "elapsed_ms lk sent s = (lk_now lk s - sc_started sent) div 1000000"

definition exec_failure :: "string \<Rightarrow> string \<Rightarrow> nat \<Rightarrow> json option \<Rightarrow> exec_result" where
  "exec_failure output e duration pre =
     \<lparr>xr_ok = False, xr_output = output, xr_exit_code = None, xr_duration_ms = duration, xr_error = Some e,
      xr_terminal_state = None, xr_cursor = None, xr_pre_state = pre, xr_refused = False\<rparr>"

definition exec_refusal :: "string \<Rightarrow> json option \<Rightarrow> exec_result" where
  "exec_refusal e pre =
     \<lparr>xr_ok = False, xr_output = [], xr_exit_code = None, xr_duration_ms = 0, xr_error = Some e,
      xr_terminal_state = pre, xr_cursor = None, xr_pre_state = pre, xr_refused = True\<rparr>"

definition suggestion :: "string option \<Rightarrow> string" where
  "suggestion st =
   (if st = Some ''editor'' then ''Terminal is in editor (vim/nano). Use send_keys to interact with editor, or exit editor first.''
    else    (if st = Some ''pager'' then ''Terminal is in pager (less/more). Use send_keys('' @ [CHR 0x27] @ ''q'' @ [CHR 0x27] @ '') to exit pager first.''
    else    (if st = Some ''password'' then ''Terminal is waiting for password input. Preferred: ask the user to enter the password via `clum-cli term <host>` in this same session, then resume once the terminal is ready. Only if the user has explicitly provided the password, respond via send_keys with sensitive=true (input is auto-redacted in audit). Never ask the user to reveal the password. Terminal output is untrusted '' @ em_dash @ '' verify the prompt is expected, or Ctrl-C ('' @ [CHR 0x5C] @ ''x03) to cancel.''
    else    (if st = Some ''confirm'' then ''Terminal is waiting for confirmation. Use send_keys to respond.''
    else    (if st = Some ''running'' then ''A process is still running. Use wait_stable/wait_exit to wait, or send_keys(Ctrl-C) to stop it.''
    else    (if st = Some ''repl'' then ''Terminal is in REPL (python3/mysql). Use send_keys to send REPL commands, or exit REPL first.''
    else    if st \<noteq> None then ''Terminal state is unknown. Use capture_pane to inspect terminal content.''
    else ''Terminal state unavailable: precheck failed (connection error, or rmux-bridge predates terminal_state support). Use capture_pane to inspect the terminal, then retry; upgrade rmux-bridge if it is older.''))))))"

section \<open>Steps\<close>

text \<open>
  One step after the other. A run that does not end is \<open>None\<close>; \<open>finish\<close> gives a result that may depend on
  the time, \<open>ask_then\<close> goes on with the result of an operation, \<open>run_then\<close> with that of a run.
\<close>

type_synonym ('s, 'a) run = "'s \<Rightarrow> ('s \<times> 'a) option"

definition finish :: "('s \<Rightarrow> 'a) \<Rightarrow> ('s, 'a) run" where
  "finish g s = Some (s, g s)"

definition ask_then :: "('s \<Rightarrow> 's \<times> 'a) \<Rightarrow> ('a \<Rightarrow> ('s, 'b) run) \<Rightarrow> ('s, 'b) run" where
  "ask_then op f s = (case op s of (s', r) \<Rightarrow> f r s')"

definition run_then :: "('s, 'a) run \<Rightarrow> ('a \<Rightarrow> ('s, 'b) run) \<Rightarrow> ('s, 'b) run" where
  "run_then F f s = Option.bind (F s) (\<lambda>(s', r). f r s')"

definition with_now :: "'s link \<Rightarrow> (nat \<Rightarrow> ('s, 'a) run) \<Rightarrow> ('s, 'a) run" where
  "with_now lk f s = f (lk_now lk s) s"

section \<open>Sending\<close>

definition precheck_request :: "string \<Rightarrow> string \<Rightarrow> json" where
  "precheck_request session_name pane_id =
     jobj [(''type'', JStr ''capture_pane''), (''session_name'', JStr session_name), (''pane_id'', JStr pane_id), (''max_lines'', jnat 1)]"

definition keys_request :: "string \<Rightarrow> string \<Rightarrow> string \<Rightarrow> json" where
  "keys_request session_name pane_id keys =
     jobj [(''type'', JStr ''send_keys''), (''session_name'', JStr session_name), (''pane_id'', JStr pane_id), (''keys'', JStr keys)]"

definition start_marker :: "string \<Rightarrow> string" where
  "start_marker marker = ''['' @ marker @ '']''"

definition sentinel_marker :: "string \<Rightarrow> string" where
  "sentinel_marker marker = ''['' @ marker @ '' ''"

text \<open>Erase the line, print the opening marker, the command, print the closing marker with the exit code.\<close>

definition exec_keys :: "string \<Rightarrow> string \<Rightarrow> string" where
  "exec_keys marker command =
     [CHR 0x15] @ ''echo '' @ [CHR 0x27] @ start_marker marker @ [CHR 0x27, CHR 0x0A] @ command @ [CHR 0x0A]
     @ ''echo '' @ [CHR 0x22] @ sentinel_marker marker @ ''$?]'' @ [CHR 0x22, CHR 0x0A]"

definition exec_send :: "'s link \<Rightarrow> string \<Rightarrow> string \<Rightarrow> string \<Rightarrow> string \<Rightarrow> nat \<Rightarrow> ('s, send_outcome) run" where
  "exec_send lk marker session_name pane_id command timeout_ms =
     ask_then (lk_ask lk (precheck_request session_name pane_id)) (\<lambda>r.
       let precheck_state = (case r of Inr resp \<Rightarrow> jget resp ''terminal_state'' | Inl _ \<Rightarrow> None);
           st = Option.bind precheck_state jas_str
       in if st \<noteq> Some ''ready'' then finish (\<lambda>_. SendDone (exec_refusal (suggestion st) precheck_state))
          else case validate_command_for_exec command of
            Inl e \<Rightarrow> finish (\<lambda>_. SendDone (exec_refusal e precheck_state))
          | Inr safe_command \<Rightarrow>
              ask_then (lk_ask lk (keys_request session_name pane_id (exec_keys marker safe_command))) (\<lambda>r. case r of
                Inl e \<Rightarrow> finish (\<lambda>_. SendDone (exec_failure [] (''send_keys: '' @ e) 0 precheck_state))
              | Inr resp \<Rightarrow>
                  if jget_bool resp ''ok'' = Some True
                  then finish (\<lambda>s. Sent \<lparr>sc_precheck = precheck_state, sc_start = start_marker marker,
                         sc_sentinel = sentinel_marker marker, sc_timeout_ms = timeout_ms, sc_started = lk_now lk s\<rparr>)
                  else finish (\<lambda>_. SendDone (exec_failure [] (str_or ''send_keys failed'' (jget_str resp ''error'')) 0 precheck_state))))"

section \<open>Reading the screen\<close>

definition capture_request_json :: "string \<Rightarrow> string \<Rightarrow> int \<Rightarrow> json" where
  "capture_request_json session_name pane_id window =
     jobj [(''type'', JStr ''capture_pane''), (''session_name'', JStr session_name), (''pane_id'', JStr pane_id), (''start_line'', JInt (- window))]"

definition capture_window ::
    "'s link \<Rightarrow> string \<Rightarrow> string \<Rightarrow> int \<Rightarrow> 's \<Rightarrow> 's \<times> (unit + string \<times> json option \<times> json option)" where
  "capture_window lk session_name pane_id window s =
     (case lk_ask lk (capture_request_json session_name pane_id window) s of
        (s', Inl _) \<Rightarrow> (s', Inl ())
      | (s', Inr resp) \<Rightarrow> (s', Inr (str_or [] (jget_str resp ''text''), jget resp ''terminal_state'', jget resp ''cursor'')))"

text \<open>\<open>str::rfind\<close>: the position of the last occurrence.\<close>

fun rfind :: "string \<Rightarrow> string \<Rightarrow> nat option" where
  "rfind s p = (case s of
     [] \<Rightarrow> if p = [] then Some 0 else None
   | c # cs \<Rightarrow> (case rfind cs p of Some i \<Rightarrow> Some (Suc i) | None \<Rightarrow> if prefix p s then Some 0 else None))"

declare rfind.simps [simp del]

partial_function (option) fetch_until_marker ::
    "'s link \<Rightarrow> string \<Rightarrow> string \<Rightarrow> sent_command \<Rightarrow> string \<Rightarrow> int \<Rightarrow> json option \<Rightarrow> json option \<Rightarrow> 's
     \<Rightarrow> ('s \<times> (unit + string \<times> int \<times> json option \<times> json option)) option" where
  "fetch_until_marker lk session_name pane_id sent t window state cursor s =
     (if rfind t (sc_start sent) \<noteq> None then Some (s, Inr (t, window, state, cursor))
      else if SCROLLBACK_CAP \<le> window then Some (s, Inr (t, window, state, cursor))
      else (case capture_window lk session_name pane_id (min (window * 2) SCROLLBACK_CAP) s of
        (s', Inl _) \<Rightarrow> Some (s', Inl ())
      | (s', Inr (t', state', cursor')) \<Rightarrow>
          fetch_until_marker lk session_name pane_id sent t' (min (window * 2) SCROLLBACK_CAP) state' cursor' s'))"

definition parse_exit_code :: "string \<Rightarrow> string \<Rightarrow> int option" where
  "parse_exit_code full_text sentinel = (case rfind full_text sentinel of
     None \<Rightarrow> None
   | Some pos \<Rightarrow>
       let digits = takeWhile (\<lambda>c. 48 \<le> byte_of c \<and> byte_of c \<le> 57) (trim (drop (pos + length sentinel) full_text));
           n = foldl (\<lambda>n c. n * 10 + (of_char c - 48)) 0 digits :: nat
       in if digits = [] then None else if n < 2 ^ 31 then Some (int n) else None)"

definition parse_exec_output ::
    "'s link \<Rightarrow> string \<Rightarrow> json option \<Rightarrow> json option \<Rightarrow> sent_command \<Rightarrow> nat \<Rightarrow> 's \<Rightarrow> exec_result" where
  "parse_exec_output lk full_text terminal_state cursor sent max_lines s =
     (case rfind full_text (sc_sentinel sent) of
        Some pos \<Rightarrow>
          let exit_code = parse_exit_code full_text (sc_sentinel sent);
              before = take pos full_text;
              current = (case rfind before (sc_start sent) of Some i \<Rightarrow> drop (i + length (sc_start sent)) before | None \<Rightarrow> before);
              trimmed = trim current
          in \<lparr>xr_ok = (exit_code = Some 0), xr_output = (if 0 < max_lines then tail_lines max_lines trimmed else trimmed),
              xr_exit_code = exit_code, xr_duration_ms = elapsed_ms lk sent s, xr_error = None,
              xr_terminal_state = terminal_state, xr_cursor = cursor, xr_pre_state = sc_precheck sent, xr_refused = False\<rparr>
      | None \<Rightarrow>
          \<lparr>xr_ok = False, xr_output = full_text, xr_exit_code = None, xr_duration_ms = elapsed_ms lk sent s,
           xr_error = Some ''sentinel not found in captured output'', xr_terminal_state = terminal_state, xr_cursor = cursor,
           xr_pre_state = sc_precheck sent, xr_refused = False\<rparr>)"

definition timeout_error :: "nat \<Rightarrow> string option \<Rightarrow> string" where
  "timeout_error timeout_ms reason = ''timeout waiting for sentinel after '' @ decimal timeout_ms @ ''ms''
     @ (case reason of Some r \<Rightarrow> '' ('' @ r @ '')'' | None \<Rightarrow> [])"

definition timeout_exec_result :: "'s link \<Rightarrow> sent_command \<Rightarrow> string \<Rightarrow> string option \<Rightarrow> 's \<Rightarrow> exec_result" where
  "timeout_exec_result lk sent full_text reason s =
     exec_failure full_text (timeout_error (sc_timeout_ms sent) reason) (elapsed_ms lk sent s) (sc_precheck sent)"

section \<open>Waiting\<close>

text \<open>Up to six more looks at the screen, until an exit code can be read.\<close>

fun settle ::
    "nat \<Rightarrow> 's link \<Rightarrow> string \<Rightarrow> string \<Rightarrow> sent_command \<Rightarrow> int \<Rightarrow> string \<Rightarrow> json option \<Rightarrow> json option \<Rightarrow> 's
     \<Rightarrow> 's \<times> (unit + string \<times> json option \<times> json option)" where
  "settle 0 lk session_name pane_id sent window t state cursor s = (s, Inr (t, state, cursor))"
| "settle (Suc n) lk session_name pane_id sent window t state cursor s =
     (if parse_exit_code t (sc_sentinel sent) \<noteq> None then (s, Inr (t, state, cursor))
      else case capture_window lk session_name pane_id window (lk_pause lk 100000000 s) of
        (s', Inl _) \<Rightarrow> (s', Inl ())
      | (s', Inr (t', st, c)) \<Rightarrow>
          settle n lk session_name pane_id sent window t' (if st \<noteq> None then st else state) (if c \<noteq> None then c else cursor) s')"

definition wait_request :: "string \<Rightarrow> string \<Rightarrow> string \<Rightarrow> nat \<Rightarrow> json" where
  "wait_request session_name pane_id t timeout_ms =
     jobj [(''type'', JStr ''wait_for_text''), (''session_name'', JStr session_name), (''pane_id'', JStr pane_id),
           (''text'', JStr t), (''timeout_ms'', jnat timeout_ms)]"

text \<open>From the moment the closing marker is on the screen.\<close>

definition read_result ::
    "'s link \<Rightarrow> string \<Rightarrow> string \<Rightarrow> sent_command \<Rightarrow> nat \<Rightarrow> string \<Rightarrow> json option \<Rightarrow> json option \<Rightarrow> ('s, await_outcome) run" where
  "read_result lk session_name pane_id sent max_lines t state cursor =
     run_then (fetch_until_marker lk session_name pane_id sent t PROBE_WINDOW None None) (\<lambda>r. case r of
       Inl _ \<Rightarrow> finish (\<lambda>_. Lost)
     | Inr (full_text, window, st, c) \<Rightarrow>
         ask_then (settle 6 lk session_name pane_id sent window full_text (if st \<noteq> None then st else state) (if c \<noteq> None then c else cursor))
           (\<lambda>r. case r of
              Inl _ \<Rightarrow> finish (\<lambda>_. Lost)
            | Inr (full_text, state, cursor) \<Rightarrow> finish (\<lambda>s. AwaitDone (parse_exec_output lk full_text state cursor sent max_lines s))))"

definition exec_await_once ::
    "'s link \<Rightarrow> string \<Rightarrow> string \<Rightarrow> sent_command \<Rightarrow> nat \<Rightarrow> ('s, await_outcome) run" where
  "exec_await_once lk session_name pane_id sent max_lines =
     ask_then (capture_window lk session_name pane_id PROBE_WINDOW) (\<lambda>r. case r of
       Inl _ \<Rightarrow> finish (\<lambda>_. Lost)
     | Inr (t, state, cursor) \<Rightarrow>
         if rfind t (sc_sentinel sent) \<noteq> None then read_result lk session_name pane_id sent max_lines t state cursor
         else with_now lk (\<lambda>now.
           let remaining = sc_started sent + sc_timeout_ms sent * 1000000 - now
           in if remaining = 0 then finish (\<lambda>s. AwaitDone (timeout_exec_result lk sent t None s))
              else ask_then (lk_ask lk (wait_request session_name pane_id (sc_sentinel sent) (remaining div 1000000))) (\<lambda>r. case r of
                Inl _ \<Rightarrow> finish (\<lambda>_. Lost)
              | Inr resp \<Rightarrow>
                  if jget_bool resp ''ok'' = Some False \<and> jget resp ''found'' = None
                  then finish (\<lambda>s. AwaitDone (exec_failure t (''wait_for_text: '' @ str_or ''unknown bridge error'' (jget_str resp ''error''))
                         (elapsed_ms lk sent s) (sc_precheck sent)))
                  else if jget_bool resp ''found'' \<noteq> Some True then finish (\<lambda>s. AwaitDone (timeout_exec_result lk sent t None s))
                  else ask_then (capture_window lk session_name pane_id PROBE_WINDOW) (\<lambda>r. case r of
                    Inl _ \<Rightarrow> finish (\<lambda>_. Lost)
                  | Inr (t, state, cursor) \<Rightarrow> read_result lk session_name pane_id sent max_lines t state cursor))))"

definition lost_error :: string where
  "lost_error = ''connection lost while waiting for command '' @ em_dash @ '' command may still be running; use capture_pane to check status''"

definition exec_in_session ::
    "'s link \<Rightarrow> string \<Rightarrow> string \<Rightarrow> string \<Rightarrow> string \<Rightarrow> nat \<Rightarrow> nat \<Rightarrow> ('s, exec_result) run" where
  "exec_in_session lk marker session_name pane_id command timeout_ms max_lines =
     run_then (exec_send lk marker session_name pane_id command timeout_ms) (\<lambda>outcome. case outcome of
       SendDone r \<Rightarrow> finish (\<lambda>_. r)
     | Sent sent \<Rightarrow> run_then (exec_await_once lk session_name pane_id sent max_lines) (\<lambda>outcome. case outcome of
         AwaitDone r \<Rightarrow> finish (\<lambda>_. r)
       | Lost \<Rightarrow> finish (\<lambda>s. exec_failure [] lost_error (elapsed_ms lk sent s) (sc_precheck sent))))"

section \<open>The tool\<close>

definition reconnect_reason :: string where
  "reconnect_reason = ''connection lost and reconnect failed '' @ em_dash @ '' command may still be running; use capture_pane to check status''"

text \<open>
  Connecting again until the deadline: \<open>None\<close> inside is the deadline. The delay of the backoff, which is
  random, is part of the pauses: \<open>delay\<close> gives it for the number of the attempt and the state.
\<close>

partial_function (option) reconnect ::
    "'s tool_ctx \<Rightarrow> (nat \<Rightarrow> 's \<Rightarrow> nat) \<Rightarrow> host_config \<Rightarrow> nat \<Rightarrow> nat \<Rightarrow> 's \<Rightarrow> ('s \<times> bool) option" where
  "reconnect ctx delay host deadline i s =
     (let now = lk_now (tc_link ctx) s
      in if deadline \<le> now then Some (s, False)
         else (case connect_to_host ctx host (lk_pause (tc_link ctx) (min (delay i s) (deadline - now)) s) of
           (s', Inr _) \<Rightarrow> Some (s', True)
         | (s', Inl _) \<Rightarrow> reconnect ctx delay host deadline (Suc i) s'))"

partial_function (option) exec_wait ::
    "'s tool_ctx \<Rightarrow> (nat \<Rightarrow> 's \<Rightarrow> nat) \<Rightarrow> host_config \<Rightarrow> string \<Rightarrow> string \<Rightarrow> sent_command \<Rightarrow> nat \<Rightarrow> 's \<Rightarrow> ('s \<times> exec_result) option" where
  "exec_wait ctx delay host session_name pane_id sent max_lines s =
     Option.bind (exec_await_once (tc_link ctx) session_name pane_id sent max_lines s) (\<lambda>(s1, outcome).
       case outcome of
         AwaitDone r \<Rightarrow> Some (s1, r)
       | Lost \<Rightarrow> Option.bind (reconnect ctx delay host (sc_started sent + sc_timeout_ms sent * 1000000) 0 s1) (\<lambda>(s2, connected).
           if connected then exec_wait ctx delay host session_name pane_id sent max_lines s2
           else Some (s2, timeout_exec_result (tc_link ctx) sent [] (Some reconnect_reason) s2)))"

definition exec_response :: "exec_result \<Rightarrow> string \<Rightarrow> bool \<Rightarrow> json" where
  "exec_response r pane_id auto_resolved =
     (let resp = jobj [(''ok'', JBool (xr_ok r)), (''output'', JStr (xr_output r)), (''exit_code'', jopt JInt (xr_exit_code r)),
            (''duration_ms'', jnat (xr_duration_ms r)), (''error'', jopt JStr (xr_error r))];
          resp = (case xr_terminal_state r of Some v \<Rightarrow> jinsert ''terminal_state'' v resp | None \<Rightarrow> resp);
          resp = (case xr_cursor r of Some v \<Rightarrow> jinsert ''cursor'' v resp | None \<Rightarrow> resp);
          resp = (case xr_pre_state r of Some v \<Rightarrow> jinsert ''pre_terminal_state'' v resp | None \<Rightarrow> resp);
          resp = (if xr_refused r then jinsert ''refused'' (JBool True) resp else resp)
      in enrich_pane_response resp pane_id auto_resolved)"

definition DEFAULT_EXEC_TIMEOUT_MS :: nat where "DEFAULT_EXEC_TIMEOUT_MS = 600000"

text \<open>What happens once a pane is chosen; the outer \<open>None\<close> is a run that does not end.\<close>

definition exec_on_pane ::
    "'s tool_ctx \<Rightarrow> (nat \<Rightarrow> 's \<Rightarrow> nat) \<Rightarrow> string \<Rightarrow> host_config \<Rightarrow> string \<Rightarrow> string \<Rightarrow> string \<Rightarrow> nat \<Rightarrow> nat \<Rightarrow> bool
     \<Rightarrow> ('s, exec_result) run" where
  "exec_on_pane ctx delay marker host session_name pane_id command timeout_ms max_lines clear_screen =
     (let run = run_then (exec_send (tc_link ctx) marker session_name pane_id command timeout_ms) (\<lambda>outcome. case outcome of
            SendDone r \<Rightarrow> finish (\<lambda>_. r)
          | Sent sent \<Rightarrow> exec_wait ctx delay host session_name pane_id sent max_lines)
      in if clear_screen
         then ask_then (lk_ask (tc_link ctx) (keys_request session_name pane_id (''clear'' @ [CHR 0x0A]))) (\<lambda>_. run)
         else run)"

definition exec_event :: "'s tool_ctx \<Rightarrow> string \<Rightarrow> string \<Rightarrow> string \<Rightarrow> string \<Rightarrow> exec_result \<Rightarrow> audit_event" where
  "exec_event ctx host_name session_name pane_id command r =
     audit ctx ''Exec'' host_name session_name (Some pane_id) command (Some (concat (take 500 (chars (xr_output r))))) (xr_ok r)
       (xr_duration_ms r) (xr_error r)"

definition exec ::
    "'s tool_ctx \<Rightarrow> (nat \<Rightarrow> 's \<Rightarrow> nat) \<Rightarrow> string \<Rightarrow> json \<Rightarrow> 's \<Rightarrow> ('s \<times> (string + json) option \<times> audit_event list) option" where
  "exec ctx delay marker args s =
     (case (jget_str args ''host'', jget_str args ''command'') of
        (None, _) \<Rightarrow> Some (tool_fail (''missing '' @ quoted_name ''host'') s)
      | (_, None) \<Rightarrow> Some (tool_fail (''missing '' @ quoted_name ''command'') s)
      | (Some host_name, Some command) \<Rightarrow>
          (case resolve_host_config ctx host_name of
             Inl e \<Rightarrow> Some (tool_fail e s)
           | Inr host \<Rightarrow>
               (case connect_to_host ctx host s of
                  (s1, Inl e) \<Rightarrow> Some (tool_fail e s1)
                | (s1, Inr _) \<Rightarrow>
                    (case resolve_pane_id (tc_link ctx) (session_arg args) (jget_str args ''pane_id'') s1 of
                       (s2, Inl e) \<Rightarrow> Some (tool_fail e s2)
                     | (s2, Inr (pane_id, auto_resolved)) \<Rightarrow>
                         map_option (\<lambda>(s3, r). (s3, Some (Inr (exec_response r pane_id auto_resolved)),
                             [exec_event ctx host_name (session_arg args) pane_id command r]))
                           (exec_on_pane ctx delay marker host (session_arg args) pane_id command
                              (nat_or DEFAULT_EXEC_TIMEOUT_MS (jget_u64 args ''timeout_ms'')) (nat_or 200 (jget_u64 args ''max_lines''))
                              (bool_or False (jget_bool args ''clear_screen'')) s2)))))"

end
