(* ===== verification/Exec_Proofs.thy ===== *)
theory Exec_Proofs
  imports Exec_Tool
begin

text \<open>
  What the execution of a command guarantees: what is typed and when, on any connection and on the one to
  the bridge of this development; what is reported of the screen; and that every run ends. A run is
  observed through a link that writes down its requests.
\<close>

section \<open>Requests of a run\<close>

type_synonym exchange_log = "(json \<times> (string + json)) list"

definition traced_link :: "'s link \<Rightarrow> ('s \<times> exchange_log) link" where
  "traced_link lk =
     \<lparr>lk_registry = (\<lambda>h (s, tr). case lk_registry lk h s of (s', r) \<Rightarrow> ((s', tr), r)),
      lk_direct = (\<lambda>a t (s, tr). case lk_direct lk a t s of (s', r) \<Rightarrow> ((s', tr), r)),
      lk_ask = (\<lambda>q (s, tr). case lk_ask lk q s of (s', r) \<Rightarrow> ((s', tr @ [(q, r)]), r)),
      lk_now = lk_now lk \<circ> fst, lk_pause = (\<lambda>d (s, tr). (lk_pause lk d s, tr)), lk_to_json = lk_to_json lk\<rparr>"

definition quiet_log :: "exchange_log \<Rightarrow> bool" where
  "quiet_log tr \<longleftrightarrow> list_all (\<lambda>(q, _). jget_str q ''type'' \<in> {Some ''capture_pane'', Some ''wait_for_text''}) tr"

lemma quiet_log_simps [simp]:
  "quiet_log []" "quiet_log (tr @ tr') \<longleftrightarrow> quiet_log tr \<and> quiet_log tr'"
  "quiet_log ((q, r) # tr) \<longleftrightarrow> jget_str q ''type'' \<in> {Some ''capture_pane'', Some ''wait_for_text''} \<and> quiet_log tr"
  by (simp_all add: quiet_log_def)

lemma request_types [simp]:
  "jget_str (capture_request_json sn pid w) ''type'' = Some ''capture_pane''"
  "jget_str (wait_request sn pid t n) ''type'' = Some ''wait_for_text''"
  "jget_str (precheck_request sn pid) ''type'' = Some ''capture_pane''"
  "jget_str (keys_request sn pid ks) ''type'' = Some ''send_keys''"
  by (simp_all add: capture_request_json_def wait_request_def precheck_request_def keys_request_def jget_str_def)

text \<open>A step of the program and the same step with a log: the log grows by at most \<open>n\<close> requests that type nothing.\<close>

definition logged :: "nat \<Rightarrow> ('s \<times> 'a) option \<Rightarrow> exchange_log \<Rightarrow> (('s \<times> exchange_log) \<times> 'a) option \<Rightarrow> bool" where
  "logged n x tr y \<longleftrightarrow> (\<exists>s r new. x = Some (s, r) \<and> y = Some ((s, tr @ new), r) \<and> quiet_log new \<and> length new \<le> n)"

lemma loggedE:
  assumes "logged n x tr y"
  obtains s r new where "x = Some (s, r)" "y = Some ((s, tr @ new), r)" "quiet_log new" "length new \<le> n"
  using assms unfolding logged_def by blast

lemma logged_now: "logged n (Some (s, r)) tr (Some ((s, tr), r))"
  by (auto simp: logged_def)

lemma logged_trans: "logged n x (tr @ new) y \<Longrightarrow> quiet_log new \<Longrightarrow> n + length new \<le> k \<Longrightarrow> logged k x tr y"
  by (fastforce simp: logged_def)

lemma capture_logged:
  "logged 1 (Some (capture_window lk sn pid w s)) tr (Some (capture_window (traced_link lk) sn pid w (s, tr)))"
  by (auto simp: logged_def capture_window_def traced_link_def split: prod.split sum.split)

lemma captureE:
  obtains s' r new where "capture_window lk sn pid w s = (s', r)" "capture_window (traced_link lk) sn pid w (s, tr) = ((s', tr @ new), r)"
    "quiet_log new" "length new \<le> 1"
  using capture_logged [of lk sn pid w s tr] that unfolding logged_def by auto

lemma fetch_logged:
  "0 < window \<Longrightarrow> SCROLLBACK_CAP \<le> window * 2 ^ k \<Longrightarrow>
   logged k (fetch_until_marker lk sn pid sent t window st c s) tr (fetch_until_marker (traced_link lk) sn pid sent t window st c (s, tr))"
proof (induction k arbitrary: window t st c s tr)
  case 0
  then show ?case by (auto simp: fetch_until_marker.simps intro: logged_now)
next
  case (Suc k)
  let ?w = "min (window * 2) SCROLLBACK_CAP"
  obtain s' r new where c: "capture_window lk sn pid ?w s = (s', r)"
      "capture_window (traced_link lk) sn pid ?w (s, tr) = ((s', tr @ new), r)" "quiet_log new" "length new \<le> 1"
    by (rule captureE)
  have "0 < ?w" using Suc.prems by (simp add: SCROLLBACK_CAP_def)
  moreover have "SCROLLBACK_CAP \<le> ?w * 2 ^ k"
  proof (cases "window * 2 \<le> SCROLLBACK_CAP")
    case True
    then show ?thesis using Suc.prems(2) by (simp add: min_absorb1 mult.assoc)
  next
    case False
    then show ?thesis by (simp add: min_absorb2 SCROLLBACK_CAP_def)
  qed
  ultimately have IH: "logged k (fetch_until_marker lk sn pid sent t' ?w st' c' s') (tr @ new)
      (fetch_until_marker (traced_link lk) sn pid sent t' ?w st' c' (s', tr @ new))" for t' st' c'
    by (rule Suc.IH)
  show ?case
    using c IH [THEN logged_trans, OF c(3), of "Suc k"]
    by (auto simp: fetch_until_marker.simps [of _ _ _ _ t] intro: logged_now split: sum.split prod.split)
       (auto simp: logged_def)
qed

lemma settle_logged:
  "logged n (Some (settle n lk sn pid sent w t st c s)) tr (Some (settle n (traced_link lk) sn pid sent w t st c (s, tr)))"
proof (induction n arbitrary: t st c s tr)
  case 0
  then show ?case by (simp add: logged_now)
next
  case (Suc n)
  have p: "lk_pause (traced_link lk) d (s, tr) = (lk_pause lk d s, tr)" for d by (simp add: traced_link_def)
  obtain s' r new where c: "capture_window lk sn pid w (lk_pause lk 100000000 s) = (s', r)"
      "capture_window (traced_link lk) sn pid w (lk_pause lk 100000000 s, tr) = ((s', tr @ new), r)" "quiet_log new" "length new \<le> 1"
    by (rule captureE)
  show ?case
    using c p Suc.IH [of _ _ _ s' "tr @ new", THEN logged_trans, OF c(3), of "Suc n"]
    by (auto intro: logged_now split: sum.split prod.split) (auto simp: logged_def)
qed

text \<open>Runs that do the same with and without a log.\<close>

definition quietly :: "nat \<Rightarrow> ('s, 'a) run \<Rightarrow> ('s \<times> exchange_log, 'a) run \<Rightarrow> bool" where
  "quietly n F F' \<longleftrightarrow> (\<forall>s tr. logged n (F s) tr (F' (s, tr)))"

definition quiet_op :: "nat \<Rightarrow> ('s \<Rightarrow> 's \<times> 'a) \<Rightarrow> ('s \<times> exchange_log \<Rightarrow> ('s \<times> exchange_log) \<times> 'a) \<Rightarrow> bool" where
  "quiet_op n op op' \<longleftrightarrow> quietly n (\<lambda>s. Some (op s)) (\<lambda>s. Some (op' s))"

lemma quietly_finish: "(\<And>s tr. g' (s, tr) = g s) \<Longrightarrow> quietly n (finish g) (finish g')"
  by (simp add: quietly_def finish_def logged_now)

lemma quietly_mono: "quietly a F F' \<Longrightarrow> a \<le> n \<Longrightarrow> quietly n F F'"
  unfolding quietly_def logged_def by (meson order_trans)

lemma quietly_run_then:
  assumes "quietly a F F'" and "\<And>r. quietly b (f r) (f' r)" and "a + b \<le> n"
  shows "quietly n (run_then F f) (run_then F' f')"
  unfolding quietly_def
proof (intro allI)
  fix s tr
  obtain s1 r1 new where 1: "F s = Some (s1, r1)" "F' (s, tr) = Some ((s1, tr @ new), r1)" "quiet_log new" "length new \<le> a"
    using assms(1) unfolding quietly_def by (blast elim: loggedE)
  have "logged b (f r1 s1) (tr @ new) (f' r1 (s1, tr @ new))" using assms(2) by (simp add: quietly_def)
  then have "logged n (f r1 s1) tr (f' r1 (s1, tr @ new))" using 1(3) by (rule logged_trans) (use 1(4) assms(3) in simp)
  then show "logged n (run_then F f s) tr (run_then F' f' (s, tr))" by (simp add: run_then_def 1(1,2))
qed

lemma ask_then_run: "ask_then op f = run_then (\<lambda>s. Some (op s)) f"
  by (simp add: ask_then_def run_then_def fun_eq_iff split: prod.split)

lemma quietly_ask_then:
  "quiet_op a op op' \<Longrightarrow> (\<And>r. quietly b (f r) (f' r)) \<Longrightarrow> a + b \<le> n \<Longrightarrow> quietly n (ask_then op f) (ask_then op' f')"
  unfolding ask_then_run quiet_op_def by (rule quietly_run_then)

lemma quietly_now: "(\<And>now. quietly n (f now) (f' now)) \<Longrightarrow> quietly n (with_now lk f) (with_now (traced_link lk) f')"
  by (simp add: quietly_def with_now_def traced_link_def)

lemma quiet_capture: "quiet_op 1 (capture_window lk sn pid w) (capture_window (traced_link lk) sn pid w)"
  unfolding quiet_op_def quietly_def by (intro allI capture_logged)

lemma quiet_settle: "quiet_op n (settle n lk sn pid sent w t st c) (settle n (traced_link lk) sn pid sent w t st c)"
  unfolding quiet_op_def quietly_def by (intro allI settle_logged)

lemma quiet_wait: "quiet_op 1 (lk_ask lk (wait_request sn pid t k)) (lk_ask (traced_link lk) (wait_request sn pid t k))"
  by (auto simp: quiet_op_def quietly_def logged_def traced_link_def split: prod.split)

lemma quiet_fetch:
  "quietly 12 (fetch_until_marker lk sn pid sent t PROBE_WINDOW st c) (fetch_until_marker (traced_link lk) sn pid sent t PROBE_WINDOW st c)"
  unfolding quietly_def by (intro allI fetch_logged) (simp_all add: SCROLLBACK_CAP_def PROBE_WINDOW_def)

lemma traced_results [simp]:
  "timeout_exec_result (traced_link lk) sent t rs (s, tr) = timeout_exec_result lk sent t rs s"
  "elapsed_ms (traced_link lk) sent (s, tr) = elapsed_ms lk sent s" "lk_now (traced_link lk) (s, tr) = lk_now lk s"
  "parse_exec_output (traced_link lk) x y z sent ml (s, tr) = parse_exec_output lk x y z sent ml s"
  by (simp_all add: timeout_exec_result_def elapsed_ms_def parse_exec_output_def traced_link_def Let_def split: option.split)

lemma quiet_read_result:
  "quietly 18 (read_result lk sn pid sent ml t st c) (read_result (traced_link lk) sn pid sent ml t st c)"
  unfolding read_result_def
  by (rule quietly_run_then [OF quiet_fetch, of 6])
     (auto intro!: quietly_finish quietly_ask_then [OF quiet_settle, of 0] split: sum.split prod.split)

lemma quiet_await:
  "quietly 21 (exec_await_once lk sn pid sent ml) (exec_await_once (traced_link lk) sn pid sent ml)"
proof -
  have r: "quietly 20 (read_result lk sn pid sent ml t st c) (read_result (traced_link lk) sn pid sent ml t st c)" for t st c
    by (rule quietly_mono [OF quiet_read_result]) simp
  have two: "quietly 19 (ask_then (capture_window lk sn pid PROBE_WINDOW) (\<lambda>r. case r of Inl _ \<Rightarrow> finish (\<lambda>_. Lost)
       | Inr (t, st, c) \<Rightarrow> read_result lk sn pid sent ml t st c))
      (ask_then (capture_window (traced_link lk) sn pid PROBE_WINDOW) (\<lambda>r. case r of Inl _ \<Rightarrow> finish (\<lambda>_. Lost)
       | Inr (t, st, c) \<Rightarrow> read_result (traced_link lk) sn pid sent ml t st c))"
    by (rule quietly_ask_then [OF quiet_capture, of 18]) (auto intro!: quietly_finish quiet_read_result split: sum.split prod.split)
  show ?thesis unfolding exec_await_once_def Let_def
    by (rule quietly_ask_then [OF quiet_capture, of 20])
       (auto intro!: quietly_finish r quietly_now quietly_ask_then [OF quiet_wait, of 19] two split: sum.split prod.split)
qed

section \<open>Typing\<close>

lemma validate_command:
  "validate_command_for_exec cmd = (if list_all (\<lambda>c. \<not> bad_control c) cmd then Inr cmd else Inl (projl (validate_command_for_exec cmd)))"
proof -
  have "list_all (\<lambda>c. \<not> bad_control c) cmd \<longleftrightarrow> find bad_control cmd = None"
    by (induction cmd) (auto simp: find_None_iff list_all_iff)
  then show ?thesis by (auto simp: validate_command_for_exec_def split: option.split)
qed

definition answers_ready :: "string + json \<Rightarrow> bool" where
  "answers_ready a \<longleftrightarrow> (case a of Inr resp \<Rightarrow> jget_str resp ''terminal_state'' = Some ''ready'' | Inl _ \<Rightarrow> False)"

lemma ask_traced: "lk_ask lk q s = (s', r) \<Longrightarrow> lk_ask (traced_link lk) q (s, tr) = ((s', tr @ [(q, r)]), r)"
  by (simp add: traced_link_def)

text \<open>How the part up to the sending ends.\<close>

lemma exec_send_cases:
  assumes "lk_ask lk (precheck_request sn pid) s = (s1, a)"
    and "lk_ask lk (keys_request sn pid (exec_keys marker cmd)) s1 = (s2, k)"
  obtains (refused) r where "exec_send lk marker sn pid cmd tmo s = Some (s1, SendDone r)" "xr_refused r"
      "\<not> (answers_ready a \<and> list_all (\<lambda>c. \<not> bad_control c) cmd)"
      "exec_send (traced_link lk) marker sn pid cmd tmo (s, tr) = Some ((s1, tr @ [(precheck_request sn pid, a)]), SendDone r)"
  | (typed) out where "exec_send lk marker sn pid cmd tmo s = Some (s2, out)" "answers_ready a" "list_all (\<lambda>c. \<not> bad_control c) cmd"
      "exec_send (traced_link lk) marker sn pid cmd tmo (s, tr) =
         Some ((s2, tr @ [(precheck_request sn pid, a), (keys_request sn pid (exec_keys marker cmd), k)]), out)"
proof -
  define pre where "pre = (case a of Inr resp \<Rightarrow> jget resp ''terminal_state'' | Inl _ \<Rightarrow> None)"
  have ready: "answers_ready a \<longleftrightarrow> Option.bind pre jas_str = Some ''ready''"
    by (simp add: answers_ready_def pre_def jget_str_def split: sum.split)
  note t = ask_traced [OF assms(1), of tr] ask_traced [OF assms(2), of "tr @ [(precheck_request sn pid, a)]"]
  show thesis
  proof (cases "answers_ready a \<and> list_all (\<lambda>c. \<not> bad_control c) cmd")
    case True
    then have v: "validate_command_for_exec cmd = Inr cmd" using validate_command [of cmd] by simp
    show thesis
      using True ready v assms t
      by (intro typed [of "case k of Inl e \<Rightarrow> SendDone (exec_failure [] (''send_keys: '' @ e) 0 pre)
            | Inr resp \<Rightarrow> if jget_bool resp ''ok'' = Some True
                then Sent \<lparr>sc_precheck = pre, sc_start = start_marker marker, sc_sentinel = sentinel_marker marker,
                           sc_timeout_ms = tmo, sc_started = lk_now lk s2\<rparr>
                else SendDone (exec_failure [] (str_or ''send_keys failed'' (jget_str resp ''error'')) 0 pre)"])
         (simp_all add: exec_send_def ask_then_def finish_def pre_def [symmetric] split: sum.split)
  next
    case False
    then obtain e where e: "answers_ready a \<Longrightarrow> validate_command_for_exec cmd = Inl e" using validate_command [of cmd] by metis
    show thesis
      using False ready e assms t
      by (intro refused [of "exec_refusal (if answers_ready a then e else suggestion (Option.bind pre jas_str)) pre"])
         (auto simp: exec_send_def ask_then_def finish_def pre_def [symmetric] exec_refusal_def split: sum.split)
  qed
qed

definition after_send :: "'s link \<Rightarrow> string \<Rightarrow> string \<Rightarrow> nat \<Rightarrow> send_outcome \<Rightarrow> ('s, exec_result) run" where
  "after_send lk sn pid ml out = (case out of
     SendDone r \<Rightarrow> finish (\<lambda>_. r)
   | Sent sent \<Rightarrow> run_then (exec_await_once lk sn pid sent ml) (\<lambda>outcome. case outcome of
       AwaitDone r \<Rightarrow> finish (\<lambda>_. r)
     | Lost \<Rightarrow> finish (\<lambda>s. exec_failure [] lost_error (elapsed_ms lk sent s) (sc_precheck sent))))"

lemma exec_in_session_after: "exec_in_session lk marker sn pid cmd tmo ml = run_then (exec_send lk marker sn pid cmd tmo) (after_send lk sn pid ml)"
  by (simp add: exec_in_session_def after_send_def [abs_def])

lemma quiet_after_send: "quietly 21 (after_send lk sn pid ml out) (after_send (traced_link lk) sn pid ml out)"
  unfolding after_send_def
  by (auto intro!: quietly_finish quietly_run_then [OF quiet_await, of 0] split: send_outcome.split await_outcome.split)

lemma exec_run_log:
  assumes a: "lk_ask lk (precheck_request sn pid) s = (s1, a)"
    and k: "lk_ask lk (keys_request sn pid (exec_keys marker cmd)) s1 = (s2, k)"
  shows "\<exists>s' rest r. exec_in_session (traced_link lk) marker sn pid cmd tmo ml (s, []) = Some ((s', (precheck_request sn pid, a) # rest), r)
     \<and> exec_in_session lk marker sn pid cmd tmo ml s = Some (s', r) \<and> length rest \<le> 22
     \<and> (if answers_ready a \<and> list_all (\<lambda>c. \<not> bad_control c) cmd
        then \<exists>rest'. rest = (keys_request sn pid (exec_keys marker cmd), k) # rest' \<and> quiet_log rest'
        else rest = [] \<and> xr_refused r)"
proof (rule exec_send_cases [OF a k, of tmo "[]"])
  fix r assume "exec_send lk marker sn pid cmd tmo s = Some (s1, SendDone r)" "xr_refused r"
    "\<not> (answers_ready a \<and> list_all (\<lambda>c. \<not> bad_control c) cmd)"
    "exec_send (traced_link lk) marker sn pid cmd tmo (s, []) = Some ((s1, [] @ [(precheck_request sn pid, a)]), SendDone r)"
  then show ?thesis
    by (intro exI [of _ s1] exI [of _ "[]"] exI [of _ r]) (simp add: exec_in_session_def run_then_def finish_def)
next
  let ?tr = "[(precheck_request sn pid, a), (keys_request sn pid (exec_keys marker cmd), k)]"
  fix out assume ty: "exec_send lk marker sn pid cmd tmo s = Some (s2, out)" "answers_ready a" "list_all (\<lambda>c. \<not> bad_control c) cmd"
    "exec_send (traced_link lk) marker sn pid cmd tmo (s, []) = Some ((s2, [] @ ?tr), out)"
  obtain s' r new where n: "after_send lk sn pid ml out s2 = Some (s', r)" "quiet_log new" "length new \<le> 21"
      "after_send (traced_link lk) sn pid ml out (s2, ?tr) = Some ((s', ?tr @ new), r)"
    using quiet_after_send [of lk sn pid ml out] unfolding quietly_def by (blast elim: loggedE)
  then show ?thesis using ty
    by (intro exI [of _ s'] exI [of _ "tl ?tr @ new"] exI [of _ r]) (simp add: exec_in_session_after run_then_def)
qed

text \<open>
  C6. The run of one command in a session, as a batch uses it, types the command only into a terminal that is
  ready, and once. Whatever the answers are, as long as each request is answered or fails, the run asks at
  most 23 times and returns; its first request is a look at the pane. If the answer says that the
  terminal is ready and the command has no control character other than tabs, the second request types
  the command between its markers, and no later request types anything. In every other case, also when
  the request fails or the answer has no terminal state, nothing is typed and the result is a refusal.
  Keeping the log changes nothing.
\<close>

theorem exec_types_once_when_ready:
  "\<exists>s' tr r. exec_in_session (traced_link lk) marker sn pid cmd tmo ml (s, []) = Some ((s', tr), r)
     \<and> exec_in_session lk marker sn pid cmd tmo ml s = Some (s', r) \<and> length tr \<le> 23
     \<and> (\<exists>a rest. tr = (precheck_request sn pid, a) # rest
          \<and> (if answers_ready a \<and> list_all (\<lambda>c. \<not> bad_control c) cmd
             then \<exists>k rest'. rest = (keys_request sn pid (exec_keys marker cmd), k) # rest' \<and> quiet_log rest'
             else rest = [] \<and> xr_refused r))"
proof -
  obtain s1 a where a: "lk_ask lk (precheck_request sn pid) s = (s1, a)" by fastforce
  obtain s2 k where k: "lk_ask lk (keys_request sn pid (exec_keys marker cmd)) s1 = (s2, k)" by fastforce
  obtain s' rest r where "exec_in_session (traced_link lk) marker sn pid cmd tmo ml (s, []) = Some ((s', (precheck_request sn pid, a) # rest), r)"
      "exec_in_session lk marker sn pid cmd tmo ml s = Some (s', r)" "length rest \<le> 22"
      "if answers_ready a \<and> list_all (\<lambda>c. \<not> bad_control c) cmd
        then \<exists>rest'. rest = (keys_request sn pid (exec_keys marker cmd), k) # rest' \<and> quiet_log rest' else rest = [] \<and> xr_refused r"
    using exec_run_log [OF a k, of tmo ml] by blast
  then show ?thesis
    by (intro exI [of _ s'] exI [of _ "(precheck_request sn pid, a) # rest"] exI [of _ r]) (auto split: if_splits)
qed

section \<open>At the bridge\<close>

definition look_request :: capture_request where
  "look_request = \<lparr>cr_ansi = None, cr_start = None, cr_end = None, cr_join = None, cr_spaces = None, cr_alternate = None, cr_buffer = None\<rparr>"

lemma precheck_dispatch:
  "bridge_answer parse print rdir mx (precheck_request sn pid) b =
     (case handle_capture_pane mx sn pid (Some 1) look_request (br_mux b) of (m, r) \<Rightarrow> Some (b\<lparr>br_mux := m\<rparr>, r))"
  by (simp add: bridge_answer_def dispatch_request_def precheck_request_def jget_str_def jget_u64_def jget_bool_def jget_i64_def
      str_or_def jnat_def look_request_def Let_def split: prod.split)

lemma look_at_pane:
  assumes "handle_capture_pane mx sn pid (Some 1) look_request m = (m', r)" and "jget_str r ''terminal_state'' = Some ''ready''"
  obtains i sn' m1 p snap where "parse_pane_id pid = Some i" "mx_session_name mx sn = Inr sn'" "mx_get_pane mx False sn' i m = (m1, Inr p)"
    "mx_snapshot mx p m1 = (m', Inr snap)" "snapshot_state snap = Ready"
proof -
  have f: "jget_str (failed e) ''terminal_state'' = None" for e by (simp add: failed_def jget_str_def)
  have "jget_str (jobj ((''ok'', JBool True) # (''text'', t) # snapshot_fields snap)) ''terminal_state'' = Some (state_name (snapshot_state snap))" for t snap
    by (simp add: snapshot_fields_def jget_str_def state_json_def)
  moreover have "state_name x = ''ready'' \<longleftrightarrow> x = Ready" for x by (cases x) simp_all
  ultimately show thesis
    using assms that f
    by (auto simp: handle_capture_pane_def look_request_def with_pane_def with_target_def with_session_name_def sdk_def attempt_def reply_def
        ok_reply_def Let_def split: option.split_asm sum.split_asm prod.split_asm)
qed

definition prompt_screen :: snapshot where
  "prompt_screen = \<lparr>sn_text = ''me@box:~$ '', sn_row = 0, sn_col = 10, sn_visible = True\<rparr>"

definition prompt_mux :: "unit rmux" where
  "prompt_mux = absent_mux\<lparr>mx_get_pane := \<lambda>_ _ i m. (m, Inr i), mx_snapshot := \<lambda>_ m. (m, Inr prompt_screen),
     mx_send_key := \<lambda>_ _ m. (m, Inr ())\<rparr>"

definition prompt_link :: "unit bridge link" where
  "prompt_link = bridge_link (\<lambda>_. None) (\<lambda>_. []) [] prompt_mux (\<lambda>_. 0) (\<lambda>_ m. m)"

lemma prompt_mux_sel:
  "mx_session_name prompt_mux = Inr" "mx_get_pane prompt_mux k sn i m = (m, Inr i)" "mx_snapshot prompt_mux p m = (m, Inr prompt_screen)"
  "mx_capture prompt_mux p rq m = (m, Inl ''unavailable'')" "mx_send_key prompt_mux p ks m = (m, Inr ())" "parse_pane_id ''%1'' = Some 1" "snapshot_state prompt_screen = Ready"
  by (simp_all add: prompt_mux_def absent_mux_def parse_pane_id_def parse_u32_def byte_of_def of_char_def) code_simp

lemma prompt_look:
  "\<exists>t. handle_capture_pane prompt_mux ''s'' ''%1'' (Some 1) look_request () = ((), jobj ((''ok'', JBool True) # (''text'', JStr t) # snapshot_fields prompt_screen))"
  by (simp add: handle_capture_pane_def look_request_def with_pane_def with_target_def with_session_name_def sdk_def attempt_def reply_def
      ok_reply_def prompt_mux_sel Let_def) (rule exI, rule refl)

lemma prompt_keys:
  "bridge_answer (\<lambda>_. None) (\<lambda>_. []) [] prompt_mux (keys_request ''s'' ''%1'' ks) idle_bridge =
     Some (idle_bridge, attach_pre_context (jobj [(''ok'', JBool True)]) (Some ''ready'') None)"
  by (simp add: bridge_answer_def dispatch_request_def keys_request_def jget_str_def str_or_def Let_def handle_send_keys_def with_pane_def
      with_target_def with_session_name_def sdk_def attempt_def reply_def prompt_mux_sel input_answer_def idle_bridge_def pane_pre_context_def)

lemma prompt_capture:
  "bridge_answer (\<lambda>_. None) (\<lambda>_. []) [] prompt_mux (capture_request_json ''s'' ''%1'' PROBE_WINDOW) idle_bridge = Some (idle_bridge, failed ''unavailable'')"
  by (simp add: bridge_answer_def dispatch_request_def capture_request_json_def jget_str_def jget_u64_def jget_bool_def jget_i64_def str_or_def
      PROBE_WINDOW_def handle_capture_pane_def with_pane_def with_target_def with_session_name_def sdk_def attempt_def reply_def
      prompt_mux_sel idle_bridge_def Let_def)

text \<open>The keys are typed; no output can be read, and without any time to wait the run ends.\<close>

lemma prompt_run:
  "\<exists>tr r. exec_in_session (traced_link prompt_link) ''abc'' ''s'' ''%1'' ''ls'' 0 0 (idle_bridge, []) = Some ((idle_bridge, tr), r)
     \<and> \<not> xr_refused r \<and> (\<exists>resp. snd (tr ! 1) = Inr resp \<and> jget_bool resp ''ok'' = Some True)"
proof -
  have v: "validate_command_for_exec ''ls'' = Inr ''ls''" by code_simp
  have k: "jget_bool (send_response (attach_pre_context (jobj [(''ok'', JBool True)]) (Some ''ready'') None)) ''ok'' = Some True" by code_simp
  have c: "jget_str (send_response (failed ''unavailable'')) ''text'' = None" by code_simp
  have f: "rfind [] (sentinel_marker ''abc'') = None" by code_simp
  obtain t where t: "handle_capture_pane prompt_mux ''s'' ''%1'' (Some 1) look_request () =
      ((), jobj ((''ok'', JBool True) # (''text'', JStr t) # snapshot_fields prompt_screen))" using prompt_look by blast
  have r: "Option.bind (jget (send_response (jobj ((''ok'', JBool True) # (''text'', JStr t) # snapshot_fields prompt_screen))) ''terminal_state'') jas_str = Some ''ready''"
    by (simp add: send_response_def snapshot_fields_def state_json_def prompt_mux_sel(7) jget_bool_def)
  have a: "bridge_answer (\<lambda>_. None) (\<lambda>_. []) [] prompt_mux (precheck_request ''s'' ''%1'') idle_bridge =
      Some (idle_bridge, jobj ((''ok'', JBool True) # (''text'', JStr t) # snapshot_fields prompt_screen))"
    using t by (simp add: precheck_dispatch idle_bridge_def)
  note defs = run_then_def ask_then_def with_now_def finish_def traced_link_def prompt_link_def bridge_link_def bridge_ask_def handle_request_def
  have sent: "exec_send (traced_link prompt_link) ''abc'' ''s'' ''%1'' ''ls'' 0 (idle_bridge, []) = Some ((idle_bridge,
      [(precheck_request ''s'' ''%1'', Inr (send_response (jobj ((''ok'', JBool True) # (''text'', JStr t) # snapshot_fields prompt_screen)))),
       (keys_request ''s'' ''%1'' (exec_keys ''abc'' ''ls''), Inr (send_response (attach_pre_context (jobj [(''ok'', JBool True)]) (Some ''ready'') None)))]),
      Sent \<lparr>sc_precheck = jget (send_response (jobj ((''ok'', JBool True) # (''text'', JStr t) # snapshot_fields prompt_screen))) ''terminal_state'',
        sc_start = start_marker ''abc'', sc_sentinel = sentinel_marker ''abc'', sc_timeout_ms = 0, sc_started = 0\<rparr>)"
    by (simp add: exec_send_def defs a prompt_keys r v k Let_def del: jget.simps)
  show ?thesis
    unfolding exec_in_session_def run_then_def [of "exec_send _ _ _ _ _ _"] sent
    by (simp add: exec_await_once_def defs capture_window_def prompt_capture c f k str_or_def Let_def timeout_exec_result_def exec_failure_def
        del: jget.simps)
qed

text \<open>
  C7. On the bridge of this development the answer is about the screen the command is typed on: when a
  run is not refused, the pane of that name exists and its screen was read with a visible cursor that is
  not in the first column. The last line of that screen that is not blank, of the lines the detection looks
  at, ends like a shell prompt, holds none of the texts of a question for a password or a confirmation, does
  not start like a command line of a pager or the prompt of an interpreter and does not say \<open>(END)\<close>; the screen
  holds none of the mode lines of an editor and fewer than three lines with a tilde alone. Between that look
  and the typing the connection asks for nothing else. The tests are about these texts only.
\<close>

theorem exec_types_at_a_prompt:
  assumes "exec_in_session (traced_link (bridge_link parse print rdir mx now pause)) marker sn pid cmd tmo ml (b, []) = Some ((b', tr), r)"
    and "\<not> xr_refused r"
  shows "\<exists>i sn' m1 p m2 snap. parse_pane_id pid = Some i \<and> mx_session_name mx sn = Inr sn'
     \<and> mx_get_pane mx False sn' i (br_mux b) = (m1, Inr p) \<and> mx_snapshot mx p m1 = (m2, Inr snap)
     \<and> sn_visible snap \<and> 0 < sn_col snap
     \<and> (let tail = trim (last (detection_window (lines (sn_text snap))))
        in is_shell_prompt tail \<and> \<not> list_ex (contains_str tail) (password_keywords @ confirm_patterns)
           \<and> \<not> list_ex (contains_str (sn_text snap)) editor_markers
           \<and> length (filter (\<lambda>l. trim l = ''~'') (detection_window (lines (sn_text snap)))) < 3
           \<and> \<not> prefix '':'' tail \<and> \<not> contains_str tail ''(END)'' \<and> \<not> list_ex (\<lambda>p. prefix p tail) repl_prefixes)
     \<and> fst (tr ! 1) = keys_request sn pid (exec_keys marker cmd)
     \<and> snd (tr ! 1) = snd (bridge_ask parse print rdir mx (fst (tr ! 1)) (b\<lparr>br_mux := m2\<rparr>))"
proof -
  let ?lk = "bridge_link parse print rdir mx now pause"
  obtain m2 resp0 where h: "handle_capture_pane mx sn pid (Some 1) look_request (br_mux b) = (m2, resp0)" by fastforce
  have ok: "answer_ok resp0" using capture_ok [of mx sn pid "Some 1" look_request] h unfolding handler_ok_def by (metis snd_conv)
  let ?b = "b\<lparr>br_mux := m2\<rparr>" and ?q = "keys_request sn pid (exec_keys marker cmd)"
  have ask: "lk_ask ?lk (precheck_request sn pid) b = (?b, Inr (send_response resp0))"
    by (simp add: bridge_link_def bridge_ask_def handle_request_def precheck_dispatch h [simplified])
  obtain s2 k where k: "lk_ask ?lk ?q ?b = (s2, k)" by fastforce
  have k': "k = snd (bridge_ask parse print rdir mx ?q ?b)" using k by (simp add: bridge_link_def)
  obtain tr' where tr: "answers_ready (Inr (send_response resp0))" "tr = (precheck_request sn pid, Inr (send_response resp0)) # (?q, k) # tr'"
    using exec_run_log [OF ask k, of tmo ml] assms by (auto split: if_split_asm)
  have "jget_str resp0 ''terminal_state'' = Some ''ready''"
    using tr(1) ok by (auto simp: answers_ready_def send_response_def jget_str_def answer_ok_def split: if_split_asm)
  then obtain i sn' m1 p snap where "parse_pane_id pid = Some i" "mx_session_name mx sn = Inr sn'"
      "mx_get_pane mx False sn' i (br_mux b) = (m1, Inr p)" "mx_snapshot mx p m1 = (m2, Inr snap)" "snapshot_state snap = Ready"
    using look_at_pane [OF h] by blast
  then show ?thesis using detect_Ready [of "sn_text snap" "sn_col snap" "sn_visible snap"] tr(2) k'
    by (fastforce simp: snapshot_state_def Let_def)
qed

theorem exec_types_at_a_prompt_witness:
  "\<exists>b' tr r i m2 snap resp. exec_in_session (traced_link prompt_link) ''abc'' ''s'' ''%1'' ''ls'' 0 0 (idle_bridge, []) = Some ((b', tr), r)
     \<and> \<not> xr_refused r \<and> parse_pane_id ''%1'' = Some i \<and> mx_snapshot prompt_mux i () = (m2, Inr snap) \<and> sn_visible snap
     \<and> is_shell_prompt (trim (last (detection_window (lines (sn_text snap)))))
     \<and> fst (tr ! 1) = keys_request ''s'' ''%1'' (exec_keys ''abc'' ''ls'') \<and> snd (tr ! 1) = Inr resp \<and> jget_bool resp ''ok'' = Some True"
proof -
  obtain tr r resp where run: "exec_in_session (traced_link prompt_link) ''abc'' ''s'' ''%1'' ''ls'' 0 0 (idle_bridge, []) = Some ((idle_bridge, tr), r)"
      "\<not> xr_refused r" and typed: "snd (tr ! 1) = Inr resp" "jget_bool resp ''ok'' = Some True" using prompt_run by blast
  from exec_types_at_a_prompt [OF run(1) [unfolded prompt_link_def] run(2)] run typed show ?thesis
    unfolding prompt_mux_sel(1-3,6) Let_def
    by (intro exI [of _ idle_bridge] exI [of _ tr] exI [of _ r] exI [of _ 1] exI [of _ "()"] exI [of _ prompt_screen] exI [of _ resp]) auto
qed

section \<open>Output and exit code\<close>

lemma rfind_None: "rfind s p = None \<longleftrightarrow> \<not> contains_str s p"
proof (induction s)
  case Nil
  show ?case by (simp add: rfind.simps [of "[]"] contains_str.simps [of "[]"])
next
  case (Cons c s)
  then show ?case by (auto simp: rfind.simps [of "c # s"] contains_str.simps [of "c # s"] split: option.split)
qed

lemma rfind_append: "rfind s p = Some i \<Longrightarrow> rfind (a @ s) p = Some (length a + i)"
  by (induction a) (simp_all add: rfind.simps [of "_ # _"])

lemma rfind_last:
  assumes "p = c # q" and "\<not> contains_str (q @ b) p"
  shows "rfind (a @ p @ b) p = Some (length a)"
proof -
  have "rfind (q @ b) p = None" using assms(2) by (simp add: rfind_None)
  then have "rfind (p @ b) p = Some 0" by (simp add: assms(1) rfind.simps [of "c # q @ b"])
  then show ?thesis using rfind_append [of "p @ b" p 0 a] by simp
qed

lemma contains_after: "c \<notin> set q \<Longrightarrow> contains_str (q @ b) (c # r) \<longleftrightarrow> contains_str b (c # r)"
  by (induction q) (auto simp: contains_str.simps [of "_ # _"])

lemma trim_end_Cons: "ws_len (c # cs) = 0 \<Longrightarrow> trim_end (c # cs) = c # trim_end cs"
  by (simp add: trim_start.simps [of "c # cs"])

lemma ws_len_digit: "48 \<le> byte_of c \<Longrightarrow> byte_of c \<le> 93 \<Longrightarrow> ws_len (c # cs) = 0"
  by (simp add: ws_len_def take_Cons' split: list.split)

lemma trim_end_digits: "\<forall>c \<in> set ds. 48 \<le> byte_of c \<and> byte_of c \<le> 57 \<Longrightarrow> \<exists>rest'. trim_end (ds @ CHR '']'' # rest) = ds @ CHR '']'' # rest'"
proof (induction ds)
  case Nil
  have "ws_len (CHR '']'' # rest) = 0" by (rule ws_len_digit) (simp_all add: byte_of_def)
  then show ?case by (simp add: trim_end_Cons del: trim_end.simps)
next
  case (Cons d ds)
  then have "ws_len (d # ds @ CHR '']'' # rest) = 0" by (intro ws_len_digit) auto
  with Cons show ?case by (auto simp: trim_end_Cons simp del: trim_end.simps)
qed

lemma trim_digits:
  assumes "\<forall>c \<in> set ds. 48 \<le> byte_of c \<and> byte_of c \<le> 57" and "ds \<noteq> []"
  obtains rest' where "trim (ds @ CHR '']'' # rest) = ds @ CHR '']'' # rest'"
proof -
  obtain d ds' where d: "ds = d # ds'" using assms(2) by (cases ds) auto
  have "ws_len (ds @ CHR '']'' # rest) = 0" unfolding d using assms(1) d by (simp add: ws_len_digit)
  then have "trim_start (ds @ CHR '']'' # rest) = ds @ CHR '']'' # rest" by (subst trim_start.simps) simp
  with trim_end_digits [OF assms(1)] that show thesis by (metis trim_def)
qed

definition marked_screen :: "string \<Rightarrow> string \<Rightarrow> string \<Rightarrow> nat \<Rightarrow> string \<Rightarrow> string" where
  "marked_screen marker before between code rest =
     before @ start_marker marker @ between @ sentinel_marker marker @ decimal code @ '']'' @ rest"

text \<open>
  C23. What is reported is what stands between the markers. On a screen that holds the opening marker, some
  text in which the marker does not occur again, and the closing marker with a number that is its last
  occurrence, the result is the text between them without blanks at its ends, cut to the last lines when
  a limit is given, the exit code is the number, and the run counts as successful when the number is zero.
\<close>

theorem exec_output_exact:
  assumes "CHR ''['' \<notin> set marker" and "sc_start sent = start_marker marker" and "sc_sentinel sent = sentinel_marker marker"
    and "\<not> contains_str between (start_marker marker)" and "\<not> contains_str rest (sentinel_marker marker)" and "code < 2 ^ 31"
  shows "let r = parse_exec_output lk (marked_screen marker before between code rest) state cursor sent max_lines s
     in xr_exit_code r = Some (int code) \<and> xr_ok r = (code = 0) \<and> xr_error r = None \<and> \<not> xr_refused r
        \<and> xr_output r = (if max_lines = 0 then trim between else tail_lines max_lines (trim between))"
proof -
  let ?screen = "marked_screen marker before between code rest"
  have no: "CHR ''['' \<notin> set (decimal code @ '']'')" using decimal_digits [of "CHR ''[''" code] by (auto simp: byte_of_def)
  have sen: "\<not> contains_str ((marker @ '' '') @ decimal code @ '']'' @ rest) (sentinel_marker marker)"
    using assms(1,5) no contains_after [of "CHR ''[''" "(marker @ '' '') @ decimal code @ '']''" rest "marker @ '' ''"]
    by (auto simp: sentinel_marker_def)
  have f: "rfind ?screen (sentinel_marker marker) = Some (length (before @ start_marker marker @ between))"
    using rfind_last [of "sentinel_marker marker" "CHR ''[''" "marker @ '' ''" "decimal code @ '']'' @ rest" "before @ start_marker marker @ between"] sen
    by (simp add: marked_screen_def sentinel_marker_def)
  have g: "rfind (before @ start_marker marker @ between) (start_marker marker) = Some (length before)"
    using rfind_last [of "start_marker marker" "CHR ''[''" "marker @ '']''" between before] assms(1,4)
      contains_after [of "CHR ''[''" "marker @ '']''" between "marker @ '']''"]
    by (auto simp: start_marker_def)
  have ds: "\<forall>c \<in> set (decimal code). 48 \<le> byte_of c \<and> byte_of c \<le> 57" using decimal_digits by blast
  obtain rest' where t: "trim (decimal code @ CHR '']'' # rest) = decimal code @ CHR '']'' # rest'"
    by (rule trim_digits [OF ds decimal_not_Nil])
  have "takeWhile (\<lambda>c. 48 \<le> byte_of c \<and> byte_of c \<le> 57) (decimal code @ CHR '']'' # rest') = decimal code"
    using ds by (subst takeWhile_append2) (auto simp: byte_of_def)
  then have code: "parse_exit_code ?screen (sentinel_marker marker) = Some (int code)"
    using assms(6) t by (simp add: parse_exit_code_def f foldl_decimal) (simp add: marked_screen_def foldl_decimal)
  have "take (length (before @ start_marker marker @ between)) ?screen = before @ start_marker marker @ between"
    by (simp add: marked_screen_def)
  then show ?thesis using assms(2,3) f g code by (simp add: parse_exec_output_def Let_def)
qed

theorem exec_output_exact_witness:
  "let sent = \<lparr>sc_precheck = None, sc_start = start_marker ''abc'', sc_sentinel = sentinel_marker ''abc'', sc_timeout_ms = 1000, sc_started = 0\<rparr>;
       r = parse_exec_output prompt_link (marked_screen ''abc'' ''$ ls'' (CHR 0x0A # ''hello'' @ [CHR 0x0A]) 2 ''$ '') None None sent 0 idle_bridge
   in xr_output r = ''hello'' \<and> xr_exit_code r = Some 2 \<and> \<not> xr_ok r"
proof -
  have "\<not> contains_str (CHR 0x0A # ''hello'' @ [CHR 0x0A]) (start_marker ''abc'')" "\<not> contains_str ''$ '' (sentinel_marker ''abc'')"
    "trim (CHR 0x0A # ''hello'' @ [CHR 0x0A]) = ''hello''" by code_simp+
  then show ?thesis
    using exec_output_exact [of "''abc''" "\<lparr>sc_precheck = None, sc_start = start_marker ''abc'', sc_sentinel = sentinel_marker ''abc'', sc_timeout_ms = 1000, sc_started = 0\<rparr>"
        "CHR 0x0A # ''hello'' @ [CHR 0x0A]" "''$ ''" 2 prompt_link "''$ ls''" None None 0 idle_bridge]
    by (simp add: Let_def)
qed

section \<open>The end of a run\<close>

text \<open>A clock that no operation turns back and that every pause moves on.\<close>

definition clock_ok :: "'s link \<Rightarrow> bool" where
  "clock_ok lk \<longleftrightarrow> (\<forall>d s. lk_now lk s < lk_now lk (lk_pause lk d s)) \<and> (\<forall>q s. lk_now lk s \<le> lk_now lk (fst (lk_ask lk q s)))
     \<and> (\<forall>h s. lk_now lk s \<le> lk_now lk (fst (lk_registry lk h s))) \<and> (\<forall>a t s. lk_now lk s \<le> lk_now lk (fst (lk_direct lk a t s)))"

definition onward :: "('s \<Rightarrow> nat) \<Rightarrow> ('s, 'a) run \<Rightarrow> bool" where
  "onward now F \<longleftrightarrow> (\<forall>s. \<exists>s' r. F s = Some (s', r) \<and> now s \<le> now s')"

lemma onward_finish: "onward now (finish g)"
  by (simp add: onward_def finish_def)

lemma onward_run_then:
  assumes "onward now F" and "\<And>r. onward now (f r)"
  shows "onward now (run_then F f)"
  unfolding onward_def run_then_def
proof
  fix s
  obtain s1 r1 where 1: "F s = Some (s1, r1)" "now s \<le> now s1" using assms(1) unfolding onward_def by blast
  obtain s2 r2 where "f r1 s1 = Some (s2, r2)" "now s1 \<le> now s2" using assms(2) unfolding onward_def by blast
  with 1 show "\<exists>s' r. Option.bind (F s) (\<lambda>(s', r). f r s') = Some (s', r) \<and> now s \<le> now s'" by auto
qed

lemma onward_ask_then: "(\<And>s. now s \<le> now (fst (op s))) \<Longrightarrow> (\<And>r. onward now (f r)) \<Longrightarrow> onward now (ask_then op f)"
  unfolding ask_then_run by (rule onward_run_then) (simp_all add: onward_def, metis surjective_pairing)

lemma onward_now: "(\<And>t. onward now (f t)) \<Longrightarrow> onward now (with_now lk f)"
  by (simp add: onward_def with_now_def)

lemma capture_onward: "clock_ok lk \<Longrightarrow> lk_now lk s \<le> lk_now lk (fst (capture_window lk sn pid w s))"
  unfolding clock_ok_def capture_window_def by (auto split: prod.split sum.split) (metis fst_conv)+

lemma fetch_onward:
  assumes "clock_ok lk"
  shows "0 < window \<Longrightarrow> SCROLLBACK_CAP \<le> window * 2 ^ k \<Longrightarrow> \<exists>s' r. fetch_until_marker lk sn pid sent t window st c s = Some (s', r) \<and> lk_now lk s \<le> lk_now lk s'"
proof (induction k arbitrary: window t st c s)
  case 0
  then show ?case by (auto simp: fetch_until_marker.simps)
next
  case (Suc k)
  let ?w = "min (window * 2) SCROLLBACK_CAP"
  obtain s' r where c: "capture_window lk sn pid ?w s = (s', r)" by fastforce
  have le: "lk_now lk s \<le> lk_now lk s'" using capture_onward [OF assms, of s sn pid ?w] c by simp
  have "0 < ?w" using Suc.prems by (simp add: SCROLLBACK_CAP_def)
  moreover have "SCROLLBACK_CAP \<le> ?w * 2 ^ k"
    using Suc.prems(2) by (cases "window * 2 \<le> SCROLLBACK_CAP") (simp_all add: min_absorb1 min_absorb2 mult.assoc SCROLLBACK_CAP_def)
  ultimately have "\<exists>s'' r. fetch_until_marker lk sn pid sent t' ?w st' c' s' = Some (s'', r) \<and> lk_now lk s' \<le> lk_now lk s''" for t' st' c'
    by (rule Suc.IH)
  then show ?case using c le
    by (auto simp: fetch_until_marker.simps [of _ _ _ _ t] split: sum.split prod.split) (meson order_trans)
qed

lemma settle_onward: "clock_ok lk \<Longrightarrow> lk_now lk s \<le> lk_now lk (fst (settle n lk sn pid sent w t st c s))"
proof (induction n arbitrary: t st c s)
  case (Suc n)
  obtain s' r where c: "capture_window lk sn pid w (lk_pause lk 100000000 s) = (s', r)" by fastforce
  have "lk_now lk s < lk_now lk (lk_pause lk 100000000 s)" using Suc.prems by (simp add: clock_ok_def)
  moreover have "lk_now lk (lk_pause lk 100000000 s) \<le> lk_now lk s'" using capture_onward [OF Suc.prems, of "lk_pause lk 100000000 s" sn pid w] c by simp
  ultimately have le: "lk_now lk s \<le> lk_now lk s'" by simp
  show ?case using c le Suc.IH [OF Suc.prems, of s'] order_trans [OF le] by (auto split: sum.split prod.split)
qed simp

lemma await_onward: "clock_ok lk \<Longrightarrow> onward (lk_now lk) (exec_await_once lk sn pid sent ml)"
proof -
  assume ok: "clock_ok lk"
  have f: "onward (lk_now lk) (fetch_until_marker lk sn pid sent t PROBE_WINDOW st c)" for t st c
    unfolding onward_def by (intro allI fetch_onward [OF ok, of _ 12]) (simp_all add: PROBE_WINDOW_def SCROLLBACK_CAP_def)
  have a: "lk_now lk s \<le> lk_now lk (fst (lk_ask lk q s))" for q s using ok by (simp add: clock_ok_def)
  have r: "onward (lk_now lk) (read_result lk sn pid sent ml t st c)" for t st c
    unfolding read_result_def
    by (rule onward_run_then [OF f]) (auto intro!: onward_finish onward_ask_then settle_onward [OF ok] split: sum.split prod.split)
  show ?thesis unfolding exec_await_once_def Let_def
    by (rule onward_ask_then, rule capture_onward [OF ok])
       (auto intro!: onward_finish onward_now onward_ask_then a r capture_onward [OF ok] split: sum.split prod.split)
qed

lemma connect_onward: "clock_ok (tc_link ctx) \<Longrightarrow> lk_now (tc_link ctx) s \<le> lk_now (tc_link ctx) (fst (connect_to_host ctx host s))"
  unfolding clock_ok_def connect_to_host_def
  by (auto split: prod.split bool.split option.split) (metis fst_conv order_trans)+

lemma reconnect_returns:
  assumes "clock_ok (tc_link ctx)"
  shows "\<exists>s' b. reconnect ctx delay host deadline i s = Some (s', b) \<and> (b \<longrightarrow> lk_now (tc_link ctx) s < lk_now (tc_link ctx) s') \<and> (b \<longrightarrow> lk_now (tc_link ctx) s < deadline)"
proof (induction "deadline - lk_now (tc_link ctx) s" arbitrary: i s rule: less_induct)
  case less
  let ?now = "lk_now (tc_link ctx)"
  show ?case
  proof (cases "deadline \<le> ?now s")
    case True
    then show ?thesis by (intro exI [of _ s] exI [of _ False]) (simp add: reconnect.simps)
  next
    case False
    let ?s = "lk_pause (tc_link ctx) (min (delay i s) (deadline - ?now s)) s"
    obtain s' r where c: "connect_to_host ctx host ?s = (s', r)" by fastforce
    have "?now s < ?now ?s" using assms by (simp add: clock_ok_def)
    then have lt: "?now s < ?now s'" using connect_onward [OF assms, of ?s host] c by simp
    with False less [of s' "Suc i"] have "\<exists>s'' b. reconnect ctx delay host deadline (Suc i) s' = Some (s'', b) \<and> (b \<longrightarrow> ?now s < ?now s'')" by fastforce
    then show ?thesis using False c lt by (subst reconnect.simps) (auto simp: Let_def split: sum.split)
  qed
qed

lemma exec_wait_returns:
  assumes "clock_ok (tc_link ctx)"
  shows "\<exists>y. exec_wait ctx delay host sn pid sent ml s = Some y"
proof (induction "sc_started sent + sc_timeout_ms sent * 1000000 - lk_now (tc_link ctx) s" arbitrary: s rule: less_induct)
  case less
  let ?now = "lk_now (tc_link ctx)" and ?dl = "sc_started sent + sc_timeout_ms sent * 1000000"
  obtain s1 r where 1: "exec_await_once (tc_link ctx) sn pid sent ml s = Some (s1, r)" "?now s \<le> ?now s1"
    using await_onward [OF assms] unfolding onward_def by blast
  obtain s2 b where 2: "reconnect ctx delay host ?dl 0 s1 = Some (s2, b)" "b \<Longrightarrow> ?now s1 < ?now s2" "b \<Longrightarrow> ?now s1 < ?dl"
    using reconnect_returns [OF assms, of delay host ?dl 0 s1] by blast
  show ?case
  proof (cases b)
    case True
    then have "?dl - ?now s2 < ?dl - ?now s" using 1(2) 2(2,3) by simp
    from less [OF this] show ?thesis using 1 2 True by (subst exec_wait.simps) (auto split: await_outcome.split)
  next
    case False
    then show ?thesis using 1 2 by (subst exec_wait.simps) (auto split: await_outcome.split)
  qed
qed

text \<open>The fields the later insertions into an answer leave alone.\<close>

definition answers :: "exec_result \<Rightarrow> json \<Rightarrow> bool" where
  "answers r j \<longleftrightarrow> (\<exists>kvs. j = JObj kvs) \<and> jget j ''ok'' = Some (JBool (xr_ok r)) \<and> jget j ''error'' = Some (jopt JStr (xr_error r))"

lemma answers_insert: "answers r j \<Longrightarrow> k \<noteq> ''ok'' \<Longrightarrow> k \<noteq> ''error'' \<Longrightarrow> answers r (jinsert k v j)"
  by (auto simp: answers_def)

lemma exec_response_fields:
  "jget_bool (exec_response r pid auto) ''ok'' = Some (xr_ok r)" "jget_str (exec_response r pid auto) ''error'' = xr_error r"
proof -
  have "answers r (jobj [(''ok'', JBool (xr_ok r)), (''output'', JStr (xr_output r)), (''exit_code'', jopt JInt (xr_exit_code r)),
      (''duration_ms'', jnat (xr_duration_ms r)), (''error'', jopt JStr (xr_error r))])"
    by (simp add: answers_def jobj_object)
  then have "answers r (exec_response r pid auto)"
    unfolding exec_response_def enrich_pane_response_def Let_def
    by (auto intro!: answers_insert split: option.split)
  then show "jget_bool (exec_response r pid auto) ''ok'' = Some (xr_ok r)" "jget_str (exec_response r pid auto) ''error'' = xr_error r"
    by (auto simp: answers_def jget_bool_def jget_str_def jopt_def split: option.split)
qed

text \<open>
  C24. The tool comes to an end: if each request and each attempt to connect ends with an answer or a failure, no
  operation turns the clock back and every pause moves it on, then a call returns a result or an
  error, whatever the answers and however often the connection is lost. When it gives a result, also that of a
  command that failed or ran out of time, it has logged exactly one event, with the host and the command it was
  given and with the success and the error message of the result.
\<close>

theorem exec_returns:
  assumes "clock_ok (tc_link ctx)"
  shows "\<exists>s' r evs. exec ctx delay marker args s = Some (s', Some r, evs)
     \<and> (\<forall>resp. r = Inr resp \<longrightarrow> (\<exists>ev. evs = [ev] \<and> Some (e_host_name ev) = jget_str args ''host'' \<and> Some (e_detail ev) = jget_str args ''command''
          \<and> jget_bool resp ''ok'' = Some (e_success ev) \<and> jget_str resp ''error'' = e_error_message ev))"
proof -
  have send: "onward (lk_now (tc_link ctx)) (exec_send (tc_link ctx) marker sn pid cmd tmo)" for sn pid cmd tmo
    unfolding exec_send_def Let_def using assms
    by (intro onward_ask_then) (auto simp: clock_ok_def intro!: onward_finish onward_ask_then split: sum.split)
  have run: "\<exists>y. run_then (exec_send (tc_link ctx) marker sn pid cmd tmo) (\<lambda>outcome. case outcome of
       SendDone r \<Rightarrow> finish (\<lambda>_. r) | Sent sent \<Rightarrow> exec_wait ctx delay host sn pid sent ml) s = Some y" for host sn pid cmd tmo ml s
  proof -
    obtain s1 out where "exec_send (tc_link ctx) marker sn pid cmd tmo s = Some (s1, out)" using send unfolding onward_def by blast
    then show ?thesis using exec_wait_returns [OF assms] by (auto simp: run_then_def finish_def split: send_outcome.split)
  qed
  have pane: "\<exists>y. exec_on_pane ctx delay marker host sn pid cmd tmo ml clear s = Some y" for host sn pid cmd tmo ml clear s
    using run by (simp add: exec_on_pane_def Let_def ask_then_def split: prod.split)
  show ?thesis
  proof (cases "jget_str args ''host'' = None \<or> jget_str args ''command'' = None")
    case True
    then show ?thesis by (auto simp: exec_def tool_fail_def split: option.split)
  next
    case False
    then obtain h cmd where hc: "jget_str args ''host'' = Some h" "jget_str args ''command'' = Some cmd" by auto
    show ?thesis
    proof (cases "resolve_host_config ctx h")
      case (Inl e)
      then show ?thesis using hc by (simp add: exec_def tool_fail_def)
    next
      case (Inr host)
      obtain s1 c where c: "connect_to_host ctx host s = (s1, c)" by fastforce
      obtain s2 p where p: "resolve_pane_id (tc_link ctx) (session_arg args) (jget_str args ''pane_id'') s1 = (s2, p)" by fastforce
      show ?thesis
      proof (cases "\<exists>pid auto. c = Inr () \<and> p = Inr (pid, auto)")
        case True
        then obtain pid auto where x: "c = Inr ()" "p = Inr (pid, auto)" by auto
        obtain s3 r where "exec_on_pane ctx delay marker host (session_arg args) pid cmd (nat_or DEFAULT_EXEC_TIMEOUT_MS (jget_u64 args ''timeout_ms''))
            (nat_or 200 (jget_u64 args ''max_lines'')) (bool_or False (jget_bool args ''clear_screen'')) s2 = Some (s3, r)"
          using pane by (metis prod.exhaust)
        then show ?thesis using Inr hc c p x by (simp add: exec_def exec_event_def audit_def audit_flagged_def exec_response_fields)
      next
        case False
        then show ?thesis using Inr hc c p by (cases c; cases p) (auto simp: exec_def tool_fail_def)
      qed
    qed
  qed
qed

text \<open>A link whose state is the time alone: every request is lost, and every connection is refused.\<close>

definition broken_link :: "nat link" where
  "broken_link = \<lparr>lk_registry = \<lambda>_ t. (t, False), lk_direct = \<lambda>_ _ t. (t, Inl ''refused''), lk_ask = \<lambda>_ t. (t, Inl ''lost''),
     lk_now = id, lk_pause = \<lambda>d t. Suc (t + d), lk_to_json = \<lambda>_. []\<rparr>"

definition broken_ctx :: "nat tool_ctx" where
  "broken_ctx = \<lparr>tc_hosts = \<lambda>_. None, tc_enrolled = [''web''], tc_link = broken_link, tc_agent = ''a'', tc_op = None, tc_event_id = ''e'', tc_time = ''t''\<rparr>"

theorem exec_returns_witness:
  "clock_ok (tc_link broken_ctx) \<and> (\<exists>s' r evs. exec broken_ctx (\<lambda>_ _. 1) ''abc'' (jobj [(''host'', JStr ''web''), (''command'', JStr ''ls'')]) 0 = Some (s', Some r, evs))"
proof -
  have ok: "clock_ok (tc_link broken_ctx)" by (simp add: clock_ok_def broken_ctx_def broken_link_def)
  obtain s' r evs where "exec broken_ctx (\<lambda>_ _. 1) ''abc'' (jobj [(''host'', JStr ''web''), (''command'', JStr ''ls'')]) 0 = Some (s', Some r, evs)"
    using exec_returns [OF ok, of "\<lambda>_ _. 1" "''abc''" "jobj [(''host'', JStr ''web''), (''command'', JStr ''ls'')]" 0] by metis
  with ok show ?thesis by metis
qed

section \<open>What the rules do not cover\<close>

text \<open>With \<open>clear_screen\<close> the first thing sent is not the look at the pane but the text \<open>clear\<close> and a line feed.\<close>

lemma clear_types_first:
  assumes "lk_ask (tc_link ctx) (keys_request sn pid (''clear'' @ [CHR 0x0A])) s = (s1, a)"
  shows "exec_on_pane ctx delay marker host sn pid cmd tmo ml True s = exec_on_pane ctx delay marker host sn pid cmd tmo ml False s1"
  using assms by (simp add: exec_on_pane_def Let_def ask_then_def)

text \<open>An error of the tool, unlike a command that fails, is not logged.\<close>

lemma exec_error_unlogged: "exec ctx delay marker args s = Some (s', Some (Inl e), evs) \<Longrightarrow> evs = []"
  by (auto simp: exec_def tool_fail_def split: option.split_asm sum.split_asm prod.split_asm)

text \<open>The error of a run whose connection was lost for good is classified as one to try again, though the command was typed.\<close>

lemma lost_run_is_retryable:
  "classify_message (timeout_error 10 (Some reconnect_reason)) = lookup CODE_CONNECTION_LOST \<and> cl_retryable (lookup CODE_CONNECTION_LOST)"
  by code_simp

text \<open>
  The markers of the echoed keys look like those of the output: while the screen holds the line that was
  typed and not yet what it prints, the closing marker is found and has no number.
\<close>

lemma echo_is_no_exit_code:
  "let screen = exec_keys ''abc'' ''sleep 60''
   in rfind screen (sentinel_marker ''abc'') = Some 29 \<and> parse_exit_code screen (sentinel_marker ''abc'') = None"
proof -
  have "rfind (exec_keys ''abc'' ''sleep 60'') (sentinel_marker ''abc'') = Some 29"
    "takeWhile (\<lambda>c. 48 \<le> byte_of c \<and> byte_of c \<le> 57)
       (trim (drop (29 + length (sentinel_marker ''abc'')) (exec_keys ''abc'' ''sleep 60''))) = []" by code_simp+
  then show ?thesis by (simp add: parse_exit_code_def)
qed

end
