(* ===== verification/Tool_Handlers.thy ===== *)
theory Tool_Handlers
  imports Exec_Tool
begin

text \<open>
  The tools that make one request to a bridge (\<open>clum-mcp/src/tools/pane.rs\<close>, \<open>window.rs\<close>, \<open>session.rs\<close>,
  \<open>output.rs\<close>, \<open>buffer.rs\<close>, \<open>discovery.rs\<close>, \<open>exec.rs\<close>) and the batches over several hosts (\<open>batch.rs\<close>). Every
  tool reads its arguments, finds the host, connects, finds the pane where one is optional, sends a request,
  and logs one event that depends on the answer; \<open>pane_request\<close> and \<open>host_request\<close> are this sequence with
  and without a pane.
\<close>

section \<open>One request\<close>

definition flag :: "bool \<Rightarrow> json \<Rightarrow> string \<Rightarrow> bool" where
  "flag d response k = bool_or d (jget_bool response k)"

definition pane_request ::
    "'s tool_ctx \<Rightarrow> string \<Rightarrow> json \<Rightarrow> string \<Rightarrow> (string \<times> json) list \<Rightarrow> (string \<Rightarrow> json \<Rightarrow> 's tool) \<Rightarrow> 's tool" where
  "pane_request ctx host_name args ty extra f = on_pane ctx host_name args (\<lambda>pane_id auto_resolved.
     exchange ctx (jobj ([(''type'', JStr ty), (''session_name'', JStr (session_arg args)), (''pane_id'', JStr pane_id)] @ extra))
       (\<lambda>response. f pane_id (enrich_pane_response response pane_id auto_resolved)))"

definition host_request :: "'s tool_ctx \<Rightarrow> string \<Rightarrow> (string \<times> json) list \<Rightarrow> (json \<Rightarrow> 's tool) \<Rightarrow> 's tool" where
  "host_request ctx host_name request f = on_host ctx host_name (exchange ctx (jobj request) f)"

text \<open>An answer that is logged with a flag of its own as the success, and an event that names the pane.\<close>

definition pane_tool ::
    "'s tool_ctx \<Rightarrow> string \<Rightarrow> json \<Rightarrow> string \<Rightarrow> (string \<times> json) list \<Rightarrow> string \<Rightarrow> (string \<Rightarrow> json \<Rightarrow> string) \<Rightarrow> (json \<Rightarrow> bool) \<Rightarrow> 's tool" where
  "pane_tool ctx host_name args ty extra action detail success = pane_request ctx host_name args ty extra (\<lambda>pane_id response.
     tool_done response [audit ctx action host_name (session_arg args) (Some pane_id) (detail pane_id response) None (success response) 0 None])"

definition host_tool ::
    "'s tool_ctx \<Rightarrow> string \<Rightarrow> string \<Rightarrow> string option \<Rightarrow> (string \<times> json) list \<Rightarrow> string \<Rightarrow> string \<Rightarrow> (json \<Rightarrow> bool) \<Rightarrow> 's tool" where
  "host_tool ctx host_name session_name pane_id request action detail success = host_request ctx host_name request (\<lambda>response.
     tool_done response [audit ctx action host_name session_name pane_id detail None (success response) 0 None])"

definition is_ok :: "json \<Rightarrow> bool" where
  "is_ok response = flag False response ''ok''"

section \<open>Input\<close>

definition input_audit_detail :: "string \<Rightarrow> string \<Rightarrow> bool \<Rightarrow> string option \<Rightarrow> string option \<Rightarrow> string \<times> bool" where
  "input_audit_detail pre input sensitive pre_terminal_state prompt_line =
     (if sensitive \<or> pre_terminal_state = Some ''password''
      then (pre @ ''[REDACTED:'' @ decimal (length input) @ '' bytes]''
              @ (case prompt_line of Some p \<Rightarrow> '' (prompt: '' @ [CHR 0x22] @ p @ [CHR 0x22] @ '')'' | None \<Rightarrow> []), True)
      else (pre @ input, False))"

text \<open>\<open>response["redacted"] = json!(true)\<close>: a null becomes an object, anything else that is no object is a panic.\<close>

definition set_redacted :: "json \<Rightarrow> json option" where
  "set_redacted response = (case response of
     JObj _ \<Rightarrow> Some (jinsert ''redacted'' (JBool True) response)
   | JNull \<Rightarrow> Some (JObj [(''redacted'', JBool True)])
   | _ \<Rightarrow> None)"

definition input_done :: "'s tool_ctx \<Rightarrow> string \<Rightarrow> string \<Rightarrow> string \<Rightarrow> string \<Rightarrow> string \<Rightarrow> bool \<Rightarrow> json \<Rightarrow> 's tool" where
  "input_done ctx action host_name session_name pane_id input sensitive response s =
     (let (detail, redacted) = input_audit_detail [] input sensitive (jget_str response ''pre_terminal_state'') (jget_str response ''prompt_line'')
      in case (if redacted then set_redacted response else Some response) of
           None \<Rightarrow> (s, None, [])
         | Some response \<Rightarrow>
             tool_done response [audit_flagged ctx action host_name session_name (Some pane_id) detail redacted None (is_ok response) 0 None] s)"

definition send_keys :: "'s tool_ctx \<Rightarrow> json \<Rightarrow> 's tool" where
  "send_keys ctx args =
     need (jget_str args ''host'') ''host'' (\<lambda>host_name. need (jget_str args ''keys'') ''keys'' (\<lambda>keys.
       pane_request ctx host_name args ''send_keys'' [(''keys'', JStr keys)] (\<lambda>pane_id response.
         input_done ctx ''SendKeys'' host_name (session_arg args) pane_id keys (flag False args ''sensitive'') response)))"

definition send_text :: "'s tool_ctx \<Rightarrow> json \<Rightarrow> 's tool" where
  "send_text ctx args =
     need (jget_str args ''host'') ''host'' (\<lambda>host_name. need (jget_str args ''text'') ''text'' (\<lambda>t.
       pane_request ctx host_name args ''send_text'' [(''text'', JStr t)] (\<lambda>pane_id response.
         input_done ctx ''SendText'' host_name (session_arg args) pane_id t (flag False args ''sensitive'') response)))"

definition array_arg :: "json \<Rightarrow> string \<Rightarrow> json list" where
  "array_arg args k = (case Option.bind (jget args k) jas_array of Some vs \<Rightarrow> vs | None \<Rightarrow> [])"

definition broadcast_keys :: "'s tool_ctx \<Rightarrow> json \<Rightarrow> 's tool" where
  "broadcast_keys ctx args =
     need (jget_str args ''host'') ''host'' (\<lambda>host_name. need (jget_str args ''keys'') ''keys'' (\<lambda>keys.
       let pane_ids = array_arg args ''pane_ids''
       in host_request ctx host_name [(''type'', JStr ''broadcast_keys''), (''session_name'', JStr (session_arg args)),
              (''pane_ids'', JArr pane_ids), (''keys'', JStr keys)] (\<lambda>response.
            let (detail, redacted) = input_audit_detail (decimal (length pane_ids) @ '' panes: '') keys (flag False args ''sensitive'')
                  (jget_str response ''pre_terminal_state'') (jget_str response ''prompt_line'')
            in tool_done response [audit_flagged ctx ''BroadcastKeys'' host_name (session_arg args) None detail redacted None (is_ok response) 0 None])))"

definition shell_command :: "'s tool_ctx \<Rightarrow> json \<Rightarrow> 's tool" where
  "shell_command ctx args =
     need (jget_str args ''host'') ''host'' (\<lambda>host_name. need (jget_str args ''command'') ''command'' (\<lambda>command.
       pane_tool ctx host_name args ''shell_command'' [(''command'', JStr command)] ''ShellCommand'' (\<lambda>_ _. command) is_ok))"

text \<open>The debug form of a list of values is a parameter.\<close>

definition cmd_escape :: "(json list \<Rightarrow> string) \<Rightarrow> 's tool_ctx \<Rightarrow> json \<Rightarrow> 's tool" where
  "cmd_escape debug ctx args =
     need (jget_str args ''host'') ''host'' (\<lambda>host_name.
       let cmd_args = array_arg args ''args''
       in host_request ctx host_name [(''type'', JStr ''cmd_escape''), (''host'', JStr host_name), (''args'', JArr cmd_args)] (\<lambda>response.
            let stdout = str_or (str_or [] (jget_str response ''output'')) (jget_str response ''stdout'');
                sliced = concat (take 500 (chars stdout))
            in tool_done response [audit ctx ''CmdEscape'' host_name [] None (debug cmd_args) (if sliced = [] then None else Some sliced)
                 (is_ok response) 0 None]))"

definition collect_until_exit :: "'s tool_ctx \<Rightarrow> json \<Rightarrow> 's tool" where
  "collect_until_exit ctx args =
     need (jget_str args ''host'') ''host'' (\<lambda>host_name.
       pane_tool ctx host_name args ''collect_until_exit''
         [(''max_bytes'', jnat (nat_or 1048576 (jget_u64 args ''max_bytes''))),
          (''timeout_ms'', jnat (nat_or DEFAULT_COLLECT_TIMEOUT_MS (jget_u64 args ''timeout_ms''))),
          (''starting_at'', JStr (str_or ''now'' (jget_str args ''starting_at'')))] ''CollectUntilExit'' (\<lambda>_ _. []) is_ok)"

section \<open>Panes\<close>

definition capture_pane :: "'s tool_ctx \<Rightarrow> json \<Rightarrow> 's tool" where
  "capture_pane ctx args =
     need (jget_str args ''host'') ''host'' (\<lambda>host_name.
       pane_tool ctx host_name args ''capture_pane''
         ((''max_lines'', jnat (nat_or 200 (jget_u64 args ''max_lines'')))
          # pass_on args [''ansi'', ''start_line'', ''end_line'', ''join_wrapped'', ''preserve_spaces'', ''alternate'', ''buffer_name''])
         ''CapturePane'' (\<lambda>_ response. decimal (case jget_str response ''text'' of Some t \<Rightarrow> length (lines t) | None \<Rightarrow> 0) @ '' lines'')
         (\<lambda>_. True))"

definition resize_pane :: "'s tool_ctx \<Rightarrow> json \<Rightarrow> 's tool" where
  "resize_pane ctx args =
     need (jget_str args ''host'') ''host'' (\<lambda>host_name.
       let cols = nat_or 80 (jget_u64 args ''cols''); rows = nat_or 24 (jget_u64 args ''rows'')
       in pane_tool ctx host_name args ''resize_pane'' [(''cols'', jnat cols), (''rows'', jnat rows)] ''ResizePane''
            (\<lambda>_ _. decimal cols @ ''x'' @ decimal rows) is_ok)"

definition set_pane_title :: "'s tool_ctx \<Rightarrow> json \<Rightarrow> 's tool" where
  "set_pane_title ctx args =
     need (jget_str args ''host'') ''host'' (\<lambda>host_name. need (jget_str args ''title'') ''title'' (\<lambda>title.
       pane_tool ctx host_name args ''set_pane_title'' [(''title'', JStr title)] ''SetPaneTitle'' (\<lambda>_ _. title) is_ok))"

definition find_pane_text :: "'s tool_ctx \<Rightarrow> json \<Rightarrow> 's tool" where
  "find_pane_text ctx args =
     need (jget_str args ''host'') ''host'' (\<lambda>host_name. need (jget_str args ''pattern'') ''pattern'' (\<lambda>pattern.
       pane_tool ctx host_name args ''find_pane_text'' [(''pattern'', JStr pattern)] ''FindPaneText'' (\<lambda>_ _. pattern)
         (\<lambda>response. flag False response ''found'')))"

definition split_pane :: "'s tool_ctx \<Rightarrow> json \<Rightarrow> 's tool" where
  "split_pane ctx args =
     need (jget_str args ''host'') ''host'' (\<lambda>host_name.
       let direction = str_or ''horizontal'' (jget_str args ''direction'')
       in pane_tool ctx host_name args ''split_pane'' [(''direction'', JStr direction)] ''SplitWindow'' (\<lambda>_ _. direction) is_ok)"

definition close_pane :: "'s tool_ctx \<Rightarrow> json \<Rightarrow> 's tool" where
  "close_pane ctx args =
     need (jget_str args ''host'') ''host'' (\<lambda>host_name. need (jget_str args ''pane_id'') ''pane_id'' (\<lambda>pane_id.
       host_tool ctx host_name (session_arg args) (Some pane_id)
         [(''type'', JStr ''close_pane''), (''session_name'', JStr (session_arg args)), (''pane_id'', JStr pane_id)] ''ClosePane'' pane_id is_ok))"

definition clear_history :: "'s tool_ctx \<Rightarrow> json \<Rightarrow> 's tool" where
  "clear_history ctx args =
     need (jget_str args ''host'') ''host'' (\<lambda>host_name.
       pane_tool ctx host_name args ''clear_history'' [] ''ClearHistory'' (\<lambda>_ _. []) is_ok)"

definition split_pane_with :: "'s tool_ctx \<Rightarrow> json \<Rightarrow> 's tool" where
  "split_pane_with ctx args =
     need (jget_str args ''host'') ''host'' (\<lambda>host_name. need (jget_str args ''direction'') ''direction'' (\<lambda>direction.
     need (jget_str args ''command'') ''command'' (\<lambda>command.
       pane_tool ctx host_name args ''split_pane_with''
         ([(''direction'', JStr direction), (''command'', JStr command), (''args'', JArr (array_arg args ''args'')),
           (''shell'', JBool (flag True args ''shell''))] @ pass_on args [''cwd'', ''env'', ''title'', ''keep_alive_on_exit''])
         ''SplitPaneWith'' (\<lambda>_ _. command) is_ok)))"

definition get_pane_title :: "'s tool_ctx \<Rightarrow> json \<Rightarrow> 's tool" where
  "get_pane_title ctx args =
     need (jget_str args ''host'') ''host'' (\<lambda>host_name.
       pane_tool ctx host_name args ''get_pane_title'' [] ''GetPaneTitle'' (\<lambda>_ _. []) is_ok)"

definition get_pane_by_title :: "'s tool_ctx \<Rightarrow> json \<Rightarrow> 's tool" where
  "get_pane_by_title ctx args =
     need (jget_str args ''host'') ''host'' (\<lambda>host_name. need (jget_str args ''title'') ''title'' (\<lambda>title.
       host_tool ctx host_name [] None [(''type'', JStr ''get_pane_by_title''), (''title'', JStr title)] ''GetPaneByTitle'' title is_ok))"

definition break_pane :: "'s tool_ctx \<Rightarrow> json \<Rightarrow> 's tool" where
  "break_pane ctx args =
     need (jget_str args ''host'') ''host'' (\<lambda>host_name.
       let pane_id = str_or [] (jget_str args ''pane_id'')
       in host_tool ctx host_name (session_arg args) None
            ([(''type'', JStr ''break_pane''), (''session_name'', JStr (session_arg args)), (''pane_id'', JStr pane_id),
              (''detached'', JBool (flag False args ''detached''))]
             @ (case jget_u64 args ''destination_window'' of Some dw \<Rightarrow> [(''destination_window'', jnat dw)] | None \<Rightarrow> []))
            ''BreakPane'' pane_id is_ok)"

definition join_pane :: "'s tool_ctx \<Rightarrow> json \<Rightarrow> 's tool" where
  "join_pane ctx args =
     need (jget_str args ''host'') ''host'' (\<lambda>host_name. need (jget_str args ''source_pane_id'') ''source_pane_id'' (\<lambda>source.
     need (jget_str args ''target_pane_id'') ''target_pane_id'' (\<lambda>target.
       host_tool ctx host_name (session_arg args) None
         ([(''type'', JStr ''join_pane''), (''session_name'', JStr (session_arg args)), (''source_pane_id'', JStr source),
           (''target_pane_id'', JStr target)]
          @ (case jget_str args ''direction'' of Some d \<Rightarrow> [(''direction'', JStr d)] | None \<Rightarrow> [])
          @ (case jget_u64 args ''size'' of Some n \<Rightarrow> [(''size'', jnat n)] | None \<Rightarrow> []))
         ''JoinPane'' (source @ '' -> '' @ target) is_ok)))"

definition swap_pane :: "'s tool_ctx \<Rightarrow> json \<Rightarrow> 's tool" where
  "swap_pane ctx args =
     need (jget_str args ''host'') ''host'' (\<lambda>host_name. need (jget_str args ''source_pane_id'') ''source_pane_id'' (\<lambda>source.
     need (jget_str args ''target_pane_id'') ''target_pane_id'' (\<lambda>target.
       host_tool ctx host_name (session_arg args) None
         [(''type'', JStr ''swap_pane''), (''session_name'', JStr (session_arg args)), (''source_pane_id'', JStr source),
          (''target_pane_id'', JStr target), (''detached'', JBool (flag False args ''detached''))]
         ''SwapPane'' (source @ '' <-> '' @ target) is_ok)))"

definition capture_region :: "'s tool_ctx \<Rightarrow> json \<Rightarrow> 's tool" where
  "capture_region ctx args =
     need (jget_str args ''host'') ''host'' (\<lambda>host_name.
       pane_tool ctx host_name args ''capture_region''
         ((''styled'', JBool (flag False args ''styled'')) # pass_on args [''row'', ''col'', ''rows'', ''cols''])
         ''CaptureRegion'' (\<lambda>_ _. []) is_ok)"

section \<open>Windows\<close>

definition split_window :: "'s tool_ctx \<Rightarrow> json \<Rightarrow> 's tool" where
  "split_window ctx args =
     need (jget_str args ''host'') ''host'' (\<lambda>host_name.
       host_tool ctx host_name (session_arg args) None
         [(''type'', JStr ''split_window''), (''session_name'', JStr (session_arg args)),
          (''direction'', JStr (str_or ''horizontal'' (jget_str args ''direction'')))]
         ''SplitWindow'' (session_arg args) is_ok)"

text \<open>The tools about one window share their event.\<close>

definition window_tool ::
    "'s tool_ctx \<Rightarrow> string \<Rightarrow> json \<Rightarrow> string \<Rightarrow> nat \<Rightarrow> (string \<times> json) list \<Rightarrow> string \<Rightarrow> bool \<Rightarrow> 's tool" where
  "window_tool ctx host_name args ty window_index extra action absent =
     host_tool ctx host_name (session_arg args) None
       ([(''type'', JStr ty), (''session_name'', JStr (session_arg args)), (''window_index'', jnat window_index)] @ extra)
       action (''win_'' @ decimal window_index) (\<lambda>response. flag absent response ''ok'')"

definition close_window :: "'s tool_ctx \<Rightarrow> json \<Rightarrow> 's tool" where
  "close_window ctx args =
     need (jget_str args ''host'') ''host'' (\<lambda>host_name. need (jget_u64 args ''window_index'') ''window_index'' (\<lambda>i.
       window_tool ctx host_name args ''close_window'' i [] ''CloseWindow'' False))"

definition rename_window :: "'s tool_ctx \<Rightarrow> json \<Rightarrow> 's tool" where
  "rename_window ctx args =
     need (jget_str args ''host'') ''host'' (\<lambda>host_name. need (jget_u64 args ''window_index'') ''window_index'' (\<lambda>i.
     need (jget_str args ''name'') ''name'' (\<lambda>name.
       window_tool ctx host_name args ''rename_window'' i [(''name'', JStr name)] ''RenameWindow'' False)))"

definition list_window_panes :: "'s tool_ctx \<Rightarrow> json \<Rightarrow> 's tool" where
  "list_window_panes ctx args =
     need (jget_str args ''host'') ''host'' (\<lambda>host_name. need (jget_u64 args ''window_index'') ''window_index'' (\<lambda>i.
       window_tool ctx host_name args ''list_window_panes'' i [] ''ListWindowPanes'' True))"

text \<open>A width or height is optional but must fit sixteen bits.\<close>

definition u16_arg :: "json \<Rightarrow> string \<Rightarrow> (nat option \<Rightarrow> 's tool) \<Rightarrow> 's tool" where
  "u16_arg args k f = (case jget_u64 args k of
     None \<Rightarrow> f None
   | Some n \<Rightarrow> if n < 2 ^ 16 then f (Some n) else tool_fail (k @ '' must be 0-65535''))"

definition resize_window :: "'s tool_ctx \<Rightarrow> json \<Rightarrow> 's tool" where
  "resize_window ctx args =
     need (jget_str args ''host'') ''host'' (\<lambda>host_name. need (jget_u64 args ''window_index'') ''window_index'' (\<lambda>i.
     u16_arg args ''width'' (\<lambda>width. u16_arg args ''height'' (\<lambda>height.
       window_tool ctx host_name args ''resize_window'' i [(''width'', jopt jnat width), (''height'', jopt jnat height)] ''ResizeWindow'' False))))"

definition select_window :: "'s tool_ctx \<Rightarrow> json \<Rightarrow> 's tool" where
  "select_window ctx args =
     need (jget_str args ''host'') ''host'' (\<lambda>host_name. need (jget_u64 args ''window_index'') ''window_index'' (\<lambda>i.
       window_tool ctx host_name args ''select_window'' i [] ''SelectWindow'' False))"

definition select_layout :: "'s tool_ctx \<Rightarrow> json \<Rightarrow> 's tool" where
  "select_layout ctx args =
     need (jget_str args ''host'') ''host'' (\<lambda>host_name. need (jget_u64 args ''window_index'') ''window_index'' (\<lambda>i.
     need (jget_str args ''layout'') ''layout'' (\<lambda>lay.
       window_tool ctx host_name args ''select_layout'' i [(''layout'', JStr lay)] ''SelectLayout'' False)))"

definition pane_info_tool :: "'s tool_ctx \<Rightarrow> json \<Rightarrow> 's tool" where
  "pane_info_tool ctx args =
     need (jget_str args ''host'') ''host'' (\<lambda>host_name.
       pane_tool ctx host_name args ''pane_info'' [] ''PaneInfo'' (\<lambda>_ _. []) (\<lambda>response. flag True response ''ok''))"

definition window_info_tool :: "'s tool_ctx \<Rightarrow> json \<Rightarrow> 's tool" where
  "window_info_tool ctx args =
     need (jget_str args ''host'') ''host'' (\<lambda>host_name. need (jget_u64 args ''window_index'') ''window_index'' (\<lambda>i.
       window_tool ctx host_name args ''window_info'' i [] ''WindowInfo'' True))"

definition pane_exists :: "'s tool_ctx \<Rightarrow> json \<Rightarrow> 's tool" where
  "pane_exists ctx args =
     need (jget_str args ''host'') ''host'' (\<lambda>host_name.
       pane_tool ctx host_name args ''pane_exists'' [] ''PaneExists'' (\<lambda>pane_id _. pane_id) (\<lambda>response. flag False response ''exists''))"

section \<open>Sessions\<close>

definition session_tool :: "'s tool_ctx \<Rightarrow> string \<Rightarrow> json \<Rightarrow> (string \<times> json) list \<Rightarrow> string \<Rightarrow> 's tool" where
  "session_tool ctx host_name args request action =
     host_tool ctx host_name (session_arg args) None request action (session_arg args) is_ok"

definition session_create :: "'s tool_ctx \<Rightarrow> json \<Rightarrow> 's tool" where
  "session_create ctx args =
     need (jget_str args ''host'') ''host'' (\<lambda>host_name.
       session_tool ctx host_name args [(''type'', JStr ''new_session''), (''name'', JStr (session_arg args)), (''detached'', JBool True)]
         ''SessionCreate'')"

definition session_list :: "'s tool_ctx \<Rightarrow> json \<Rightarrow> 's tool" where
  "session_list ctx args =
     need (jget_str args ''host'') ''host'' (\<lambda>host_name.
       host_tool ctx host_name [] None [(''type'', JStr ''list_sessions'')] ''SessionList'' [] (\<lambda>response. flag True response ''ok''))"

definition session_attach :: "'s tool_ctx \<Rightarrow> json \<Rightarrow> 's tool" where
  "session_attach ctx args =
     need (jget_str args ''host'') ''host'' (\<lambda>host_name.
       session_tool ctx host_name args [(''type'', JStr ''attach_session''), (''session_name'', JStr (session_arg args))] ''SessionAttach'')"

definition kill_session :: "'s tool_ctx \<Rightarrow> json \<Rightarrow> 's tool" where
  "kill_session ctx args =
     need (jget_str args ''host'') ''host'' (\<lambda>host_name.
       session_tool ctx host_name args [(''type'', JStr ''kill_session''), (''session_name'', JStr (session_arg args))] ''KillSession'')"

definition respawn_pane :: "'s tool_ctx \<Rightarrow> json \<Rightarrow> 's tool" where
  "respawn_pane ctx args =
     need (jget_str args ''host'') ''host'' (\<lambda>host_name. need (jget_str args ''pane_id'') ''pane_id'' (\<lambda>pane_id.
       host_tool ctx host_name (session_arg args) (Some pane_id)
         ([(''type'', JStr ''respawn_pane''), (''session_name'', JStr (session_arg args)), (''pane_id'', JStr pane_id)]
          @ pass_on args [''command'', ''args'', ''shell'', ''cwd'', ''env'', ''kill'', ''keep_alive_on_exit''])
         ''RespawnPane'' [] is_ok))"

section \<open>Output\<close>

definition wait_exit :: "'s tool_ctx \<Rightarrow> json \<Rightarrow> 's tool" where
  "wait_exit ctx args =
     need (jget_str args ''host'') ''host'' (\<lambda>host_name.
       pane_tool ctx host_name args ''wait_exit'' [(''timeout_ms'', jnat (nat_or DEFAULT_WAIT_TIMEOUT_MS (jget_u64 args ''timeout_ms'')))]
         ''WaitExit'' (\<lambda>_ _. []) is_ok)"

definition wait_for_text :: "'s tool_ctx \<Rightarrow> json \<Rightarrow> 's tool" where
  "wait_for_text ctx args =
     need (jget_str args ''host'') ''host'' (\<lambda>host_name. need (jget_str args ''text'') ''text'' (\<lambda>t.
       pane_tool ctx host_name args ''wait_for_text''
         [(''text'', JStr t), (''timeout_ms'', jnat (nat_or DEFAULT_WAIT_TIMEOUT_MS (jget_u64 args ''timeout_ms'')))]
         ''WaitForText'' (\<lambda>_ _. t) (\<lambda>response. flag False response ''found'')))"

definition find_text_all :: "'s tool_ctx \<Rightarrow> json \<Rightarrow> 's tool" where
  "find_text_all ctx args =
     need (jget_str args ''host'') ''host'' (\<lambda>host_name. need (jget_str args ''pattern'') ''pattern'' (\<lambda>pattern.
       pane_tool ctx host_name args ''find_text_all'' [(''pattern'', JStr pattern)] ''FindTextAll'' (\<lambda>_ _. pattern) is_ok))"

definition wait_for_bytes :: "'s tool_ctx \<Rightarrow> json \<Rightarrow> 's tool" where
  "wait_for_bytes ctx args =
     need (jget_str args ''host'') ''host'' (\<lambda>host_name. need (jget_str args ''bytes'') ''bytes'' (\<lambda>b64.
       pane_tool ctx host_name args ''wait_for_bytes''
         [(''bytes'', JStr b64), (''only_new'', JBool (flag False args ''only_new'')),
          (''timeout_ms'', jnat (nat_or DEFAULT_BYTES_WAIT_TIMEOUT_MS (jget_u64 args ''timeout_ms'')))]
         ''WaitForBytes'' (\<lambda>_ _. b64) (\<lambda>response. flag False response ''found'')))"

definition wait_stable :: "'s tool_ctx \<Rightarrow> json \<Rightarrow> 's tool" where
  "wait_stable ctx args =
     need (jget_str args ''host'') ''host'' (\<lambda>host_name.
       pane_tool ctx host_name args ''wait_stable''
         [(''stable_ms'', jnat (nat_or 500 (jget_u64 args ''stable_ms''))),
          (''timeout_ms'', jnat (nat_or DEFAULT_WAIT_TIMEOUT_MS (jget_u64 args ''timeout_ms'')))]
         ''WaitStable'' (\<lambda>_ _. []) (\<lambda>response. flag False response ''stable''))"

section \<open>Buffers and discovery\<close>

definition list_buffers :: "'s tool_ctx \<Rightarrow> json \<Rightarrow> 's tool" where
  "list_buffers ctx args =
     need (jget_str args ''host'') ''host'' (\<lambda>host_name.
       host_tool ctx host_name [] None [(''type'', JStr ''list_buffers'')] ''ListBuffers'' [] is_ok)"

definition paste_buffer :: "'s tool_ctx \<Rightarrow> json \<Rightarrow> 's tool" where
  "paste_buffer ctx args =
     need (jget_str args ''host'') ''host'' (\<lambda>host_name. need (jget_str args ''pane_id'') ''pane_id'' (\<lambda>pane_id.
       let buffer_name = str_or [] (jget_str args ''buffer_name'')
       in host_tool ctx host_name (session_arg args) (Some pane_id)
            [(''type'', JStr ''paste_buffer''), (''session_name'', JStr (session_arg args)), (''pane_id'', JStr pane_id),
             (''buffer_name'', JStr buffer_name)] ''PasteBuffer'' buffer_name is_ok))"

definition delete_buffer :: "'s tool_ctx \<Rightarrow> json \<Rightarrow> 's tool" where
  "delete_buffer ctx args =
     need (jget_str args ''host'') ''host'' (\<lambda>host_name. need (jget_str args ''buffer_name'') ''buffer_name'' (\<lambda>buffer_name.
       host_tool ctx host_name [] None [(''type'', JStr ''delete_buffer''), (''buffer_name'', JStr buffer_name)] ''DeleteBuffer'' buffer_name is_ok))"

definition find_panes :: "'s tool_ctx \<Rightarrow> json \<Rightarrow> 's tool" where
  "find_panes ctx args =
     need (jget_str args ''host'') ''host'' (\<lambda>host_name.
       host_tool ctx host_name [] None
         ((''type'', JStr ''find_panes'') # pass_on args [''session_name'', ''title'', ''title_prefix'', ''command_contains'',
            ''cwd_contains'', ''window_index'', ''running'', ''exited'']) ''FindPanes'' [] is_ok)"

definition find_sessions :: "'s tool_ctx \<Rightarrow> json \<Rightarrow> 's tool" where
  "find_sessions ctx args =
     need (jget_str args ''host'') ''host'' (\<lambda>host_name.
       host_tool ctx host_name [] None ((''type'', JStr ''find_sessions'') # pass_on args [''name'']) ''FindSessions'' [] is_ok)"

definition host_capabilities :: "'s tool_ctx \<Rightarrow> json \<Rightarrow> 's tool" where
  "host_capabilities ctx args =
     need (jget_str args ''host'') ''host'' (\<lambda>host_name.
       host_tool ctx host_name [] None
         ((''type'', JStr ''capabilities'') # (case jget_str args ''check'' of Some c \<Rightarrow> [(''check'', JStr c)] | None \<Rightarrow> []))
         ''HostCapabilities'' [] is_ok)"

section \<open>Batches\<close>

text \<open>
  The tasks of a batch run concurrently, each on a connection of its own; \<open>order\<close> is the order in which
  they run, and a task that is not in it was cancelled. Each task runs to its end before the next one.
\<close>

fun run_tasks :: "nat list \<Rightarrow> (nat \<Rightarrow> ('s, 'a) run) \<Rightarrow> (nat \<Rightarrow> 'a option) \<Rightarrow> ('s, nat \<Rightarrow> 'a option) run" where
  "run_tasks [] task res s = Some (s, res)"
| "run_tasks (i # is) task res s = Option.bind (task i s) (\<lambda>(s', r). run_tasks is task (res(i := Some r)) s')"

text \<open>The host of a task and its connection, or the answer when one is missing.\<close>

definition task_connect ::
    "'s tool_ctx \<Rightarrow> string \<Rightarrow> (string \<Rightarrow> json) \<Rightarrow> (host_config \<Rightarrow> ('s, json) run) \<Rightarrow> ('s, string \<times> json) run" where
  "task_connect ctx host_name fail f = run_then
     (case resolve_host_config ctx host_name of
        Inl _ \<Rightarrow> finish (\<lambda>_. fail ''host not found in registry'')
      | Inr host \<Rightarrow> ask_then (connect_to_host ctx host) (\<lambda>r. case r of
          Inl e \<Rightarrow> finish (\<lambda>_. fail (''connect: '' @ e))
        | Inr _ \<Rightarrow> f host))
     (\<lambda>r. finish (\<lambda>_. (host_name, r)))"

definition create_session_inner :: "'s link \<Rightarrow> string \<Rightarrow> 's \<Rightarrow> 's \<times> (string + json)" where
  "create_session_inner lk session_name =
     lk_ask lk (jobj [(''type'', JStr ''new_session''), (''name'', JStr session_name), (''detached'', JBool True)])"

definition exec_task_failure :: "string \<Rightarrow> json" where
  "exec_task_failure e = jobj [(''ok'', JBool False), (''output'', JStr []), (''exit_code'', JNull), (''duration_ms'', jnat 0), (''error'', JStr e)]"

definition per_host_result :: "exec_result \<Rightarrow> json" where
  "per_host_result r =
     (let p = jobj [(''ok'', JBool (xr_ok r \<and> xr_error r = None)), (''output'', JStr (xr_output r)), (''exit_code'', jopt JInt (xr_exit_code r)),
            (''duration_ms'', jnat (xr_duration_ms r)), (''error'', jopt JStr (xr_error r))];
          p = (case xr_terminal_state r of Some v \<Rightarrow> jinsert ''terminal_state'' v p | None \<Rightarrow> p);
          p = (case xr_cursor r of Some v \<Rightarrow> jinsert ''cursor'' v p | None \<Rightarrow> p);
          p = (case xr_pre_state r of Some v \<Rightarrow> jinsert ''pre_terminal_state'' v p | None \<Rightarrow> p)
      in if xr_refused r then jinsert ''refused'' (JBool True) p else p)"

definition batch_exec_task ::
    "'s tool_ctx \<Rightarrow> string \<Rightarrow> string \<Rightarrow> nat \<Rightarrow> nat \<Rightarrow> string \<Rightarrow> ('s, string \<times> json) run" where
  "batch_exec_task ctx marker cmd timeout_ms max_lines host_name =
     task_connect ctx host_name exec_task_failure (\<lambda>_.
       ask_then (create_session_inner (tc_link ctx) ''clum'') (\<lambda>r. case r of
         Inl e \<Rightarrow> finish (\<lambda>_. exec_task_failure (''session_create: '' @ e))
       | Inr resp \<Rightarrow>
           run_then (exec_in_session (tc_link ctx) marker ''clum'' (str_or ''%0'' (jget_str resp ''pane_id'')) cmd timeout_ms max_lines)
             (\<lambda>r. finish (\<lambda>_. per_host_result r))))"

definition batch_send_keys_task ::
    "'s tool_ctx \<Rightarrow> string \<Rightarrow> string option \<Rightarrow> string \<Rightarrow> string \<Rightarrow> ('s, string \<times> json) run" where
  "batch_send_keys_task ctx session_name pane_id_arg keys host_name =
     task_connect ctx host_name failed (\<lambda>_.
       ask_then (resolve_pane_id (tc_link ctx) session_name pane_id_arg) (\<lambda>r. case r of
         Inl e \<Rightarrow> finish (\<lambda>_. failed (''resolve_pane: '' @ e))
       | Inr (pane_id, _) \<Rightarrow>
           ask_then (lk_ask (tc_link ctx) (keys_request session_name pane_id keys)) (\<lambda>r. finish (\<lambda>_. case r of
             Inl e \<Rightarrow> failed (''send_keys: '' @ e)
           | Inr result \<Rightarrow>
               if is_ok result then
                 let r = jobj [(''ok'', JBool True), (''pane_id'', JStr pane_id)];
                     r = (case jget_str result ''pre_terminal_state'' of Some st \<Rightarrow> jinsert ''pre_terminal_state'' (JStr st) r | None \<Rightarrow> r)
                 in (case jget_str result ''prompt_line'' of Some p \<Rightarrow> jinsert ''prompt_line'' (JStr p) r | None \<Rightarrow> r)
               else jobj [(''ok'', JBool False), (''error'', case jget result ''error'' of Some v \<Rightarrow> v | None \<Rightarrow> JNull)]))))"

text \<open>
  The shared frame: \<open>hosts\<close> and what is done with the answers and the time; the debug form of a list of
  strings is a parameter. A call without hosts is answered and not logged.
\<close>

type_synonym 's batch = "'s \<Rightarrow> ('s \<times> (string + json) option \<times> audit_event list) option"

definition hosts_arg :: "json \<Rightarrow> (string list \<Rightarrow> 's batch) \<Rightarrow> 's batch" where
  "hosts_arg args f = (case Option.bind (jget args ''hosts'') jas_array of
     None \<Rightarrow> Some \<circ> tool_fail (''missing '' @ quoted_name ''hosts'')
   | Some vs \<Rightarrow>
       (let hosts = List.map_filter jas_str vs
        in if hosts = [] then Some \<circ> tool_done (failed ''empty hosts list'') [] else f hosts))"

definition batch_need :: "'a option \<Rightarrow> string \<Rightarrow> ('a \<Rightarrow> 's batch) \<Rightarrow> 's batch" where
  "batch_need v k f = (case v of Some x \<Rightarrow> f x | None \<Rightarrow> Some \<circ> tool_fail (''missing '' @ quoted_name k))"

definition run_batch ::
    "'s tool_ctx \<Rightarrow> nat list \<Rightarrow> string list \<Rightarrow> (nat \<Rightarrow> ('s, string \<times> json) run)
     \<Rightarrow> (nat \<Rightarrow> json \<times> nat \<times> nat \<Rightarrow> json \<times> audit_event) \<Rightarrow> 's batch" where
  "run_batch ctx order hosts task f s =
     map_option (\<lambda>(s', res).
         case f ((lk_now (tc_link ctx) s' - lk_now (tc_link ctx) s) div 1000000) (collect_batch_results (map res [0..<length hosts])) of
           (r, ev) \<Rightarrow> (s', Some (Inr r), [ev]))
       (run_tasks (filter (\<lambda>i. i < length hosts) order) task (\<lambda>_. None) s)"

definition batch_summary :: "string list \<Rightarrow> nat \<Rightarrow> json \<times> nat \<times> nat \<Rightarrow> (string \<times> json) list" where
  "batch_summary hosts elapsed c = (case c of (results, success, failed_count) \<Rightarrow>
     [(''ok'', JBool (failed_count = 0)), (''total'', jnat (length hosts)), (''success'', jnat success), (''failed'', jnat failed_count),
      (''total_duration_ms'', jnat elapsed), (''results'', results)])"

definition batch_exec :: "(string list \<Rightarrow> string) \<Rightarrow> 's tool_ctx \<Rightarrow> (nat \<Rightarrow> string) \<Rightarrow> nat list \<Rightarrow> json \<Rightarrow> 's batch" where
  "batch_exec debug ctx marker order args = hosts_arg args (\<lambda>hosts. batch_need (jget_str args ''command'') ''command'' (\<lambda>command.
     run_batch ctx order hosts
       (\<lambda>i. batch_exec_task ctx (marker i) command (nat_or DEFAULT_EXEC_TIMEOUT_MS (jget_u64 args ''timeout_ms''))
              (nat_or 200 (jget_u64 args ''max_lines'')) (hosts ! i))
       (\<lambda>elapsed c. (jobj ((''command'', JStr command) # batch_summary hosts elapsed c),
          audit ctx ''BatchExec'' [] [] None (''hosts:'' @ debug hosts @ '' cmd:'' @ command) None (snd (snd c) = 0) elapsed None))))"

definition object_values :: "json \<Rightarrow> json list" where
  "object_values v = (case v of JObj kvs \<Rightarrow> map snd kvs | _ \<Rightarrow> [])"

definition batch_input_detail :: "(string list \<Rightarrow> string) \<Rightarrow> string list \<Rightarrow> string \<Rightarrow> bool \<Rightarrow> json \<Rightarrow> string \<times> bool" where
  "batch_input_detail debug hosts keys sensitive results =
     (let any_password = list_ex (\<lambda>v. jget_str v ''pre_terminal_state'' = Some ''password'') (object_values results)
      in input_audit_detail (''hosts:'' @ debug hosts @ '' keys:'') keys sensitive
           (if any_password then Some ''password'' else None)
           (if any_password then (case List.map_filter (\<lambda>v. jget_str v ''prompt_line'') (object_values results) of p # _ \<Rightarrow> Some p | [] \<Rightarrow> None)
            else None))"

definition batch_send_keys :: "(string list \<Rightarrow> string) \<Rightarrow> 's tool_ctx \<Rightarrow> nat list \<Rightarrow> json \<Rightarrow> 's batch" where
  "batch_send_keys debug ctx order args = hosts_arg args (\<lambda>hosts. batch_need (jget_str args ''keys'') ''keys'' (\<lambda>keys.
     run_batch ctx order hosts
       (\<lambda>i. batch_send_keys_task ctx (session_arg args) (jget_str args ''pane_id'') keys (hosts ! i))
       (\<lambda>elapsed c. case batch_input_detail debug hosts keys (flag False args ''sensitive'') (fst c) of (detail, redacted) \<Rightarrow>
          (jobj (batch_summary hosts elapsed c),
           audit_flagged ctx ''BatchSendKeys'' [] [] None detail redacted None (snd (snd c) = 0) elapsed None))))"

end
