(* ===== verification/Input_Redaction.thy ===== *)
theory Input_Redaction
  imports Tool_Handlers
begin

text \<open>
  What the log keeps of typed input. A bridge looks at the pane before it types and reports what it saw;
  the server decides from that and from the caller's wish whether the input itself is logged.
\<close>

section \<open>Answers to input\<close>




lemma jget_insert_obj: "\<exists>kvs. j = JObj kvs \<Longrightarrow> jget (jinsert k v j) k' = (if k' = k then Some v else jget j k')"
  by auto

lemma jinsert_obj: "\<exists>kvs. j = JObj kvs \<Longrightarrow> \<exists>kvs. jinsert k v j = JObj kvs"
  by auto













section \<open>Redaction\<close>






section \<open>What is not covered\<close>

text \<open>
  In a batch the answer of a task whose typing failed keeps the error only. The state the bridge reported
  is dropped, and what a pane at a password prompt was sent is logged in full.
\<close>

definition failed_answer :: "json \<Rightarrow> json" where
  "failed_answer result = jobj [(''ok'', JBool False), (''error'', case jget result ''error'' of Some v \<Rightarrow> v | None \<Rightarrow> JNull)]"

lemma failed_batch_input_in_plain:
  assumes "resolve_host_config ctx h = Inr host" and "connect_to_host ctx host s = (s1, Inr ())"
    and "lk_ask (tc_link ctx) (keys_request sn pid keys) s1 = (s2, Inr result)" and "\<not> is_ok result"
    and "jget_str result ''pre_terminal_state'' = Some ''password''"
  shows "batch_send_keys_task ctx sn (Some pid) keys h s = Some (s2, h, failed_answer result)
     \<and> batch_input_detail debug [h] keys False (fst (collect_batch_results [Some (h, failed_answer result)]))
         = (''hosts:'' @ debug [h] @ '' keys:'' @ keys, False)"
proof
  show "batch_send_keys_task ctx sn (Some pid) keys h s = Some (s2, h, failed_answer result)"
    using assms by (simp add: batch_send_keys_task_def task_connect_def run_then_def ask_then_def finish_def resolve_pane_id_def failed_answer_def)
  have "jget (failed_answer result) ''pre_terminal_state'' = None" by (simp add: failed_answer_def)
  then show "batch_input_detail debug [h] keys False (fst (collect_batch_results [Some (h, failed_answer result)]))
      = (''hosts:'' @ debug [h] @ '' keys:'' @ keys, False)"
    by (simp add: batch_input_detail_def collect_batch_results_def collect_step_def object_values_def jget_str_def input_audit_detail_def Let_def)
qed

text \<open>Starting another program in a pane is logged without the program.\<close>

lemma respawn_logs_no_command:
  "respawn_pane ctx args s = (s', r, evs) \<Longrightarrow> ev \<in> set evs \<Longrightarrow> e_detail ev = []"
  by (auto simp: respawn_pane_def need_def host_tool_def host_request_def on_host_def exchange_def tool_try_def tool_fail_def tool_done_def
      audit_def audit_flagged_def split: option.split_asm sum.split_asm prod.split_asm)

text \<open>When the answer is lost after the request was made, nothing is logged, whatever was typed.\<close>

lemma lost_answer_not_logged:
  assumes "resolve_host_config ctx h = Inr host" and "connect_to_host ctx host s = (s1, Inr ())"
    and "jget_str args ''host'' = Some h" and "jget_str args ''keys'' = Some keys" and "jget_str args ''pane_id'' = Some pid"
    and "lk_ask (tc_link ctx) (keys_request (session_arg args) pid keys) s1 = (s2, Inl e)"
  shows "send_keys ctx args s = (s2, Some (Inl e), [])"
  using assms by (simp add: send_keys_def need_def pane_request_def on_pane_def on_host_def tool_try_def exchange_def resolve_pane_id_def
      keys_request_def tool_fail_def)

section \<open>Example\<close>






end
