(* ===== verification/Tool_Calls.thy ===== *)
theory Tool_Calls
  imports Tool_Handlers Http_Entry
begin

text \<open>
  A tool call from the gate to the bridges (\<open>execute_tool\<close> of \<open>clum-mcp/src/tools/mod.rs\<close>): the gate of
  \<open>Tool_Gate\<close>, the table of the tools of \<open>Tool_Handlers\<close> and \<open>Exec_Tool\<close>, and the hosts a call reaches.
\<close>

section \<open>Dispatch\<close>

definition tools :: "(json list \<Rightarrow> string) \<Rightarrow> (string \<times> ('s tool_ctx \<Rightarrow> json \<Rightarrow> 's tool)) list" where
  "tools debug =
     [(''session_create'', session_create), (''session_list'', session_list), (''session_attach'', session_attach),
      (''send_keys'', send_keys), (''capture_pane'', capture_pane), (''wait_for_text'', wait_for_text), (''wait_exit'', wait_exit),
      (''shell_command'', shell_command), (''respawn_pane'', respawn_pane), (''broadcast_keys'', broadcast_keys),
      (''cmd_escape'', cmd_escape debug), (''split_window'', split_window), (''close_pane'', close_pane), (''split_pane'', split_pane),
      (''resize_pane'', resize_pane), (''send_text'', send_text), (''set_pane_title'', set_pane_title),
      (''find_pane_text'', find_pane_text), (''close_window'', close_window), (''kill_session'', kill_session),
      (''rename_window'', rename_window), (''list_window_panes'', list_window_panes), (''resize_window'', resize_window),
      (''select_window'', select_window), (''select_layout'', select_layout), (''pane_info'', pane_info_tool),
      (''window_info'', window_info_tool), (''pane_exists'', pane_exists), (''find_panes'', find_panes),
      (''find_sessions'', find_sessions), (''get_pane_title'', get_pane_title), (''find_text_all'', find_text_all),
      (''clear_history'', clear_history), (''list_buffers'', list_buffers), (''paste_buffer'', paste_buffer),
      (''delete_buffer'', delete_buffer), (''split_pane_with'', split_pane_with), (''get_pane_by_title'', get_pane_by_title),
      (''collect_until_exit'', collect_until_exit), (''break_pane'', break_pane), (''join_pane'', join_pane), (''swap_pane'', swap_pane),
      (''host_capabilities'', host_capabilities), (''capture_region'', capture_region), (''wait_for_bytes'', wait_for_bytes),
      (''wait_stable'', wait_stable)]"

text \<open>The inputs of the runs that are not part of a request: debug forms, delays, markers and the order of the tasks.\<close>

record 's run_env =
  re_debug :: "json list \<Rightarrow> string"
  re_debug_names :: "string list \<Rightarrow> string"
  re_delay :: "nat \<Rightarrow> 's \<Rightarrow> nat"
  re_marker :: "nat \<Rightarrow> string"
  re_order :: "nat list"

text \<open>\<open>None\<close> is a tool outside of this table.\<close>

definition dispatch_tool :: "'s run_env \<Rightarrow> 's tool_ctx \<Rightarrow> string \<Rightarrow> json \<Rightarrow> 's batch option" where
  "dispatch_tool re ctx tool_name args = (case map_of (tools (re_debug re)) tool_name of
     Some f \<Rightarrow> Some (Some \<circ> f ctx args)
   | None \<Rightarrow>
       if tool_name = ''exec'' then Some (exec ctx (re_delay re) (re_marker re 0) args)
       else if tool_name = ''batch_exec'' then Some (batch_exec (re_debug_names re) ctx (re_marker re) (re_order re) args)
       else if tool_name = ''batch_send_keys'' then Some (batch_send_keys (re_debug_names re) ctx (re_order re) args)
       else None)"

definition deny_payload :: "string \<Rightarrow> string \<Rightarrow> string \<Rightarrow> json" where
  "deny_payload source reason command =
     jobj [(''ok'', JBool False), (''error'', JStr (''command denied by rule '' @ quoted_name source)), (''error_code'', JStr ''COMMAND_DENIED''),
           (''recovery_hint'', JStr reason), (''retryable'', JBool False), (''rule_id'', JStr source), (''command'', JStr command)]"

definition note_event :: "'s tool_ctx \<Rightarrow> audit_note \<Rightarrow> audit_event" where
  "note_event ctx n = audit_flagged (ctx\<lparr>tc_op := None\<rparr>) (case an_action n of CommandAllowed \<Rightarrow> ''CommandAllowed'' | CommandDenied \<Rightarrow> ''CommandDenied'')
     (an_host n) [] None (an_detail n) False None (an_success n) 0 (an_error n)"

text \<open>\<open>handler\<close> answers the tools outside of the table.\<close>

definition execute_tool ::
    "gate_env \<Rightarrow> policy_oracle \<Rightarrow> host_meta list \<Rightarrow> command_policy \<Rightarrow> string option \<Rightarrow> string option \<Rightarrow> (string \<Rightarrow> json \<Rightarrow> 's batch)
     \<Rightarrow> 's run_env \<Rightarrow> 's tool_ctx \<Rightarrow> string \<Rightarrow> json \<Rightarrow> 's batch" where
  "execute_tool genv chk metas policy who caller_group handler re ctx tool_name args s =
     (case execute_gate genv chk (tc_hosts ctx) metas policy who caller_group tool_name args of
        None \<Rightarrow> Some (s, None, [])
      | Some (gate_outcome.Refused e, _) \<Rightarrow> Some (tool_fail e s)
      | Some (Denied source reason command, notes) \<Rightarrow> Some (tool_done (deny_payload source reason command) (map (note_event ctx) notes) s)
      | Some (Dispatched args', notes) \<Rightarrow>
          map_option (\<lambda>(s', r, evs). (s', r, map (note_event ctx) notes @ evs))
            ((case dispatch_tool re ctx tool_name args' of Some run \<Rightarrow> run | None \<Rightarrow> handler tool_name args') s))"

section \<open>The hosts a run reaches\<close>

text \<open>A link that writes down every connection that is asked for.\<close>

datatype contact = Registry string | Direct string string

definition watch :: "'s link \<Rightarrow> ('s \<times> contact list) link" where
  "watch lk =
     \<lparr>lk_registry = (\<lambda>h (s, cs). case lk_registry lk h s of (s', r) \<Rightarrow> ((s', cs @ [Registry h]), r)),
      lk_direct = (\<lambda>a t (s, cs). case lk_direct lk a t s of (s', r) \<Rightarrow> ((s', cs @ [Direct a t]), r)),
      lk_ask = (\<lambda>q (s, cs). case lk_ask lk q s of (s', r) \<Rightarrow> ((s', cs), r)),
      lk_now = lk_now lk \<circ> fst, lk_pause = (\<lambda>d (s, cs). (lk_pause lk d s, cs)), lk_to_json = lk_to_json lk\<rparr>"

definition watched :: "'s tool_ctx \<Rightarrow> ('s \<times> contact list) tool_ctx" where
  "watched ctx = \<lparr>tc_hosts = tc_hosts ctx, tc_enrolled = tc_enrolled ctx, tc_link = watch (tc_link ctx), tc_agent = tc_agent ctx,
     tc_op = tc_op ctx, tc_event_id = tc_event_id ctx, tc_time = tc_time ctx\<rparr>"

lemma watched_simps [simp]:
  "tc_hosts (watched ctx) = tc_hosts ctx" "tc_link (watched ctx) = watch (tc_link ctx)"
  "resolve_host_config (watched ctx) h = resolve_host_config ctx h"
  by (simp_all add: watched_def resolve_host_config_def)

text \<open>
  A run stays within a set of contacts when every connection it asks for is in the set; it starts there
  when, in addition, it leaves the outside as it was if it asks for none.
\<close>

definition inside :: "(contact \<Rightarrow> bool) \<Rightarrow> ('s \<times> contact list, 'a) run \<Rightarrow> bool" where
  "inside ok F \<longleftrightarrow> (\<forall>s cs y. F (s, cs) = Some y \<longrightarrow> (\<exists>s' new x. y = ((s', cs @ new), x) \<and> list_all ok new))"

definition starts :: "(contact \<Rightarrow> bool) \<Rightarrow> ('s \<times> contact list, 'a) run \<Rightarrow> bool" where
  "starts ok F \<longleftrightarrow> (\<forall>s cs y. F (s, cs) = Some y \<longrightarrow> (\<exists>s' new x. y = ((s', cs @ new), x) \<and> list_all ok new \<and> (new = [] \<longrightarrow> s' = s)))"

abbreviation inside_op :: "(contact \<Rightarrow> bool) \<Rightarrow> ('s \<times> contact list \<Rightarrow> ('s \<times> contact list) \<times> 'a) \<Rightarrow> bool" where
  "inside_op ok op \<equiv> inside ok (\<lambda>s. Some (op s))"

abbreviation starts_op :: "(contact \<Rightarrow> bool) \<Rightarrow> ('s \<times> contact list \<Rightarrow> ('s \<times> contact list) \<times> 'a) \<Rightarrow> bool" where
  "starts_op ok op \<equiv> starts ok (\<lambda>s. Some (op s))"

named_theorems contact_intros

lemma insideE:
  assumes "inside ok F" and "F (s, cs) = Some y"
  obtains s' new x where "y = ((s', cs @ new), x)" "list_all ok new"
  using assms unfolding inside_def by blast

lemma starts_inside: "starts ok F \<Longrightarrow> inside ok F"
  unfolding inside_def starts_def by blast

lemma inside_mono: "inside a F \<Longrightarrow> (\<And>c. a c \<Longrightarrow> b c) \<Longrightarrow> inside b F"
  unfolding inside_def by (meson list.pred_mono_strong)

lemma inside_run_then [contact_intros]:
  assumes "inside ok F" and "\<And>r. inside ok (f r)"
  shows "inside ok (run_then F f)"
  unfolding inside_def
proof (intro allI impI)
  fix s cs y assume y: "run_then F f (s, cs) = Some y"
  then obtain z where F: "F (s, cs) = Some z" by (auto simp: run_then_def bind_eq_Some_conv)
  obtain s1 new1 r where z: "z = ((s1, cs @ new1), r)" "list_all ok new1" by (rule insideE [OF assms(1) F])
  then have "f r (s1, cs @ new1) = Some y" using y F by (simp add: run_then_def)
  then show "\<exists>s' new x. y = ((s', cs @ new), x) \<and> list_all ok new"
    using z by (elim insideE [OF assms(2)]) (auto intro: list_all_append [THEN iffD2])
qed

lemma inside_ask_then [contact_intros]: "inside_op ok op \<Longrightarrow> (\<And>r. inside ok (f r)) \<Longrightarrow> inside ok (ask_then op f)"
proof -
  assume "inside_op ok op" "\<And>r. inside ok (f r)"
  then have "inside ok (run_then (\<lambda>s. Some (op s)) f)" by (rule inside_run_then)
  moreover have "run_then (\<lambda>s. Some (op s)) f = ask_then op f" by (simp add: run_then_def ask_then_def fun_eq_iff split: prod.split)
  ultimately show ?thesis by simp
qed

lemma inside_finish [contact_intros]: "inside ok (finish g)"
  by (auto simp: inside_def finish_def)

lemma starts_finish [contact_intros]: "starts ok (finish g)"
  by (auto simp: starts_def finish_def)

lemma inside_now [contact_intros]: "(\<And>t. inside ok (f t)) \<Longrightarrow> inside ok (with_now lk f)"
  by (auto simp: inside_def with_now_def)

lemma inside_ask [contact_intros]: "inside_op ok (lk_ask (watch lk) q)"
  by (auto simp: inside_def watch_def split: prod.split)

lemma inside_capture [contact_intros]: "inside_op ok (capture_window (watch lk) sn pid w)"
  by (auto simp: inside_def capture_window_def watch_def split: prod.split sum.split)

lemma inside_resolve_pane [contact_intros]: "inside_op ok (resolve_pane_id (watch lk) sn i)"
  by (auto simp: inside_def resolve_pane_id_def watch_def split: prod.split sum.split option.split)

lemma capture_contacts:
  obtains s' r where "capture_window (watch lk) sn pid w (s, cs) = ((s', cs), r)"
proof -
  have "\<exists>s' r. capture_window (watch lk) sn pid w (s, cs) = ((s', cs), r)" by (auto simp: capture_window_def watch_def split: prod.split sum.split)
  then show thesis using that by blast
qed

lemma fetch_contacts:
  "fetch_until_marker l sn pid sent t w st c x = Some y \<Longrightarrow> l = watch lk \<longrightarrow> (\<exists>s' r. y = ((s', snd x), r))"
proof (rule fetch_until_marker.raw_induct [of "\<lambda>l sn pid sent t w st c x y. l = watch lk \<longrightarrow> (\<exists>s' r. y = ((s', snd x), r))"])
  fix f l sn pid sent t w st c x y
  assume IH: "\<And>l sn pid sent t w st c x y. f l sn pid sent t w st c x = Some y \<Longrightarrow> l = watch lk \<longrightarrow> (\<exists>s' r. y = ((s', snd x), r))"
    and y: "(if rfind t (sc_start sent) \<noteq> None then Some (x, Inr (t, w, st, c))
      else if SCROLLBACK_CAP \<le> w then Some (x, Inr (t, w, st, c))
      else case capture_window l sn pid (min (w * 2) SCROLLBACK_CAP) x of (s', Inl xa) \<Rightarrow> Some (s', Inl ())
        | (s', Inr (t', st', c')) \<Rightarrow> f l sn pid sent t' (min (w * 2) SCROLLBACK_CAP) st' c' s') = Some y"
  obtain s cs where x: "x = (s, cs)" by (cases x)
  obtain s1 r1 where cw: "capture_window (watch lk) sn pid (min (w * 2) SCROLLBACK_CAP) (s, cs) = ((s1, cs), r1)" by (rule capture_contacts)
  show "l = watch lk \<longrightarrow> (\<exists>s' r. y = ((s', snd x), r))"
    using y IH [of l sn pid sent _ "min (w * 2) SCROLLBACK_CAP" _ _ "(s1, cs)" y] cw
    by (auto simp: x split: if_split_asm sum.split_asm prod.split_asm)
qed

lemma inside_fetch [contact_intros]: "inside ok (fetch_until_marker (watch lk) sn pid sent t window st c)"
  unfolding inside_def using fetch_contacts by fastforce

lemma inside_settle [contact_intros]: "inside_op ok (settle n (watch lk) sn pid sent w t st c)"
proof -
  have "\<exists>s' r. settle n (watch lk) sn pid sent w t st c (s, cs) = ((s', cs), r)" for s cs
  proof (induction n arbitrary: t st c s)
    case (Suc n)
    have p: "lk_pause (watch lk) d (s, cs) = (lk_pause lk d s, cs)" for d by (simp add: watch_def)
    obtain s1 r1 where "capture_window (watch lk) sn pid w (lk_pause lk 100000000 s, cs) = ((s1, cs), r1)" by (rule capture_contacts)
    then show ?case using Suc.IH [of _ _ _ s1] by (auto simp: p split: sum.split prod.split)
  qed simp
  then show ?thesis unfolding inside_def by (metis append_Nil2 list.pred_inject(1) option.inject)
qed

lemma inside_await [contact_intros]: "inside ok (exec_await_once (watch lk) sn pid sent ml)"
  unfolding exec_await_once_def read_result_def Let_def
  by (auto intro!: contact_intros split: sum.split prod.split)

lemma inside_send [contact_intros]: "inside ok (exec_send (watch lk) marker sn pid cmd tmo)"
  unfolding exec_send_def Let_def by (auto intro!: contact_intros split: sum.split)

lemma inside_session [contact_intros]: "inside ok (exec_in_session (watch lk) marker sn pid cmd tmo ml)"
  unfolding exec_in_session_def by (auto intro!: contact_intros split: send_outcome.split await_outcome.split)

text \<open>The connections to a host.\<close>

definition contact_of :: "host_config \<Rightarrow> contact \<Rightarrow> bool" where
  "contact_of host c \<longleftrightarrow> c = Registry (hc_name host)
     \<or> (\<exists>a t. hc_bridge_addr host = Some a \<and> hc_bridge_token host = Some t \<and> c = Direct a t)"

lemma connect_contacts:
  obtains s' new r where "connect_to_host (watched ctx) host (s, cs) = ((s', cs @ new), r)" "list_all (contact_of host) new" "new \<noteq> []"
proof -
  obtain s1 found where r: "lk_registry (tc_link ctx) (hc_name host) s = (s1, found)" by fastforce
  obtain s2 x where d: "lk_direct (tc_link ctx) (case hc_bridge_addr host of Some a \<Rightarrow> a | None \<Rightarrow> []) (case hc_bridge_token host of Some t \<Rightarrow> t | None \<Rightarrow> []) s1 = (s2, x)"
    by fastforce
  show thesis
    using r d that
    by (cases found; cases "hc_bridge_addr host"; cases "hc_bridge_token host")
       (force simp: connect_to_host_def watch_def contact_of_def)+
qed

lemma inside_connect [contact_intros]: "(\<And>c. contact_of host c \<Longrightarrow> ok c) \<Longrightarrow> inside_op ok (connect_to_host (watched ctx) host)"
  unfolding inside_def by (metis connect_contacts list.pred_mono_strong option.inject)

lemma reconnect_contacts:
  "reconnect ctx' delay host dl i x = Some y \<Longrightarrow> ctx' = watched ctx \<longrightarrow> (\<exists>s' new r. y = ((s', snd x @ new), r) \<and> list_all (contact_of host) new)"
proof (rule reconnect.raw_induct [of "\<lambda>ctx' delay host dl i x y. ctx' = watched ctx \<longrightarrow> (\<exists>s' new r. y = ((s', snd x @ new), r) \<and> list_all (contact_of host) new)"])
  fix f ctx' delay host dl i x y
  assume IH: "\<And>ctx' delay host dl i x y. f ctx' delay host dl i x = Some y \<Longrightarrow>
      ctx' = watched ctx \<longrightarrow> (\<exists>s' new r. y = ((s', snd x @ new), r) \<and> list_all (contact_of host) new)"
    and y: "(let now = lk_now (tc_link ctx') x in if dl \<le> now then Some (x, False)
      else case connect_to_host ctx' host (lk_pause (tc_link ctx') (min (delay i x) (dl - now)) x) of (s', Inl xa) \<Rightarrow> f ctx' delay host dl (Suc i) s'
        | (s', Inr xa) \<Rightarrow> Some (s', True)) = Some y"
  obtain s cs where x: "x = (s, cs)" by (cases x)
  have p: "lk_pause (tc_link (watched ctx)) d (s, cs) = (lk_pause (tc_link ctx) d s, cs)" for d by (simp add: watch_def)
  obtain s1 new r where c: "connect_to_host (watched ctx) host (lk_pause (tc_link ctx) (min (delay i x) (dl - lk_now (tc_link (watched ctx)) x)) s, cs) = ((s1, cs @ new), r)"
      "list_all (contact_of host) new" by (rule connect_contacts)
  show "ctx' = watched ctx \<longrightarrow> (\<exists>s' new r. y = ((s', snd x @ new), r) \<and> list_all (contact_of host) new)"
  proof
    assume ctx: "ctx' = watched ctx"
    show "\<exists>s' new r. y = ((s', snd x @ new), r) \<and> list_all (contact_of host) new"
    proof (cases "dl \<le> lk_now (tc_link ctx') x")
      case True
      then show ?thesis using y x by auto
    next
      case False
      show ?thesis
      proof (cases r)
        case (Inl e)
        have "f ctx' delay host dl (Suc i) (s1, cs @ new) = Some y" using y False c(1) ctx Inl by (simp add: Let_def x p del: watched_simps)
        from IH [OF this] ctx show ?thesis using c(2) x by auto
      next
        case (Inr u)
        then show ?thesis using y False c ctx by (auto simp: Let_def x p simp del: watched_simps)
      qed
    qed
  qed
qed

lemma inside_reconnect [contact_intros]: "(\<And>c. contact_of host c \<Longrightarrow> ok c) \<Longrightarrow> inside ok (reconnect (watched ctx) delay host dl i)"
proof (rule inside_mono)
  show "inside (contact_of host) (reconnect (watched ctx) delay host dl i)"
    unfolding inside_def using reconnect_contacts [of _ _ _ _ _ _ _ ctx] by fastforce
qed auto

lemma inside_run:
  assumes "inside ok F" and "F x = Some y"
  obtains s' new r where "y = ((s', snd x @ new), r)" "list_all ok new"
  using assms by (cases x) (auto elim: insideE)

lemma wait_contacts:
  "exec_wait ctx' delay host sn pid sent ml x = Some y \<Longrightarrow> ctx' = watched ctx \<longrightarrow> (\<exists>s' new r. y = ((s', snd x @ new), r) \<and> list_all (contact_of host) new)"
proof (rule exec_wait.raw_induct [of "\<lambda>ctx' delay host sn pid sent ml x y. ctx' = watched ctx \<longrightarrow> (\<exists>s' new r. y = ((s', snd x @ new), r) \<and> list_all (contact_of host) new)"])
  fix f ctx' delay host sn pid sent ml x y
  assume IH: "\<And>ctx' delay host sn pid sent ml x y. f ctx' delay host sn pid sent ml x = Some y \<Longrightarrow>
      ctx' = watched ctx \<longrightarrow> (\<exists>s' new r. y = ((s', snd x @ new), r) \<and> list_all (contact_of host) new)"
    and y: "Option.bind (exec_await_once (tc_link ctx') sn pid sent ml x) (\<lambda>(s1, outcome). case outcome of
         AwaitDone r \<Rightarrow> Some (s1, r)
       | Lost \<Rightarrow> Option.bind (reconnect ctx' delay host (sc_started sent + sc_timeout_ms sent * 1000000) 0 s1) (\<lambda>(s2, connected).
           if connected then f ctx' delay host sn pid sent ml s2
           else Some (s2, timeout_exec_result (tc_link ctx') sent [] (Some reconnect_reason) s2))) = Some y"
  show "ctx' = watched ctx \<longrightarrow> (\<exists>s' new r. y = ((s', snd x @ new), r) \<and> list_all (contact_of host) new)"
  proof
    assume ctx: "ctx' = watched ctx"
    obtain z where z: "exec_await_once (watch (tc_link ctx)) sn pid sent ml x = Some z" using y ctx by (auto simp: bind_eq_Some_conv)
    obtain s1 new1 out where 1: "z = ((s1, snd x @ new1), out)" "list_all (contact_of host) new1" by (rule inside_run [OF inside_await z])
    show "\<exists>s' new r. y = ((s', snd x @ new), r) \<and> list_all (contact_of host) new"
    proof (cases out)
      case (AwaitDone r)
      then show ?thesis using y ctx z 1 by auto
    next
      case Lost
      then obtain z2 where z2: "reconnect (watched ctx) delay host (sc_started sent + sc_timeout_ms sent * 1000000) 0 (s1, snd x @ new1) = Some z2"
        using y ctx z 1 by (auto simp: bind_eq_Some_conv)
      obtain s2 new2 b where 2: "z2 = ((s2, snd x @ new1 @ new2), b)" "list_all (contact_of host) new2"
        by (rule inside_run [OF inside_reconnect [of host "contact_of host"] z2]) auto
      show ?thesis
      proof (cases b)
        case True
        then have "f ctx' delay host sn pid sent ml (s2, snd x @ new1 @ new2) = Some y" using y ctx z 1 Lost z2 2 by simp
        from IH [OF this] ctx 1 2 show ?thesis by auto
      next
        case False
        then show ?thesis using y ctx z 1 Lost z2 2 by auto
      qed
    qed
  qed
qed

lemma inside_wait [contact_intros]: "(\<And>c. contact_of host c \<Longrightarrow> ok c) \<Longrightarrow> inside ok (exec_wait (watched ctx) delay host sn pid sent ml)"
proof (rule inside_mono)
  show "inside (contact_of host) (exec_wait (watched ctx) delay host sn pid sent ml)"
    unfolding inside_def using wait_contacts [of _ _ _ _ _ _ _ _ _ ctx] by fastforce
qed auto

section \<open>The hosts of a tool\<close>

definition hosts_ok :: "'s tool_ctx \<Rightarrow> (contact \<Rightarrow> bool) \<Rightarrow> string \<Rightarrow> bool" where
  "hosts_ok ctx ok h \<longleftrightarrow> (\<forall>host c. resolve_host_config ctx h = Inr host \<longrightarrow> contact_of host c \<longrightarrow> ok c)"

lemma starts_fail [contact_intros]: "starts_op ok (tool_fail e)"
  by (simp add: starts_def tool_fail_def)

lemma inside_fail [contact_intros]: "inside_op ok (tool_fail e)"
  by (rule starts_inside, rule starts_fail)

lemma inside_done [contact_intros]: "inside_op ok (tool_done r evs)"
  by (simp add: inside_def tool_done_def)

lemma inside_input_done [contact_intros]: "inside_op ok (input_done ctx a h sn pid t sens r)"
  by (auto simp: inside_def input_done_def tool_done_def split: prod.split option.split)

lemma starts_need [contact_intros]: "(\<And>x. v = Some x \<Longrightarrow> starts_op ok (f x)) \<Longrightarrow> starts_op ok (need v k f)"
  by (auto simp: need_def intro: starts_fail split: option.split)

lemma starts_u16 [contact_intros]: "(\<And>x. starts_op ok (f x)) \<Longrightarrow> starts_op ok (u16_arg args k f)"
  by (auto simp: u16_arg_def intro: starts_fail split: option.split)

lemma inside_try [contact_intros]:
  assumes "inside_op ok op" and "\<And>x. inside_op ok (f x)"
  shows "inside_op ok (tool_try op f)"
proof -
  have "inside ok (ask_then op (\<lambda>r. case r of Inl e \<Rightarrow> (\<lambda>s. Some (tool_fail e s)) | Inr x \<Rightarrow> (\<lambda>s. Some (f x s))))"
    by (rule inside_ask_then [OF assms(1)]) (auto intro: inside_fail assms(2) split: sum.split)
  moreover have "ask_then op (\<lambda>r. case r of Inl e \<Rightarrow> (\<lambda>s. Some (tool_fail e s)) | Inr x \<Rightarrow> (\<lambda>s. Some (f x s))) = (\<lambda>s. Some (tool_try op f s))"
    by (auto simp: ask_then_def tool_try_def fun_eq_iff split: prod.split sum.split)
  ultimately show ?thesis by simp
qed

lemma inside_exchange [contact_intros]: "(\<And>r. inside_op ok (f r)) \<Longrightarrow> inside_op ok (exchange (watched ctx) q f)"
  unfolding exchange_def watched_simps by (intro contact_intros)

lemma starts_connect:
  assumes "\<And>c. contact_of host c \<Longrightarrow> ok c" and "\<And>r. inside ok (f r)"
  shows "starts ok (ask_then (connect_to_host (watched ctx) host) f)"
  unfolding starts_def
proof (intro allI impI)
  fix s cs y assume y: "ask_then (connect_to_host (watched ctx) host) f (s, cs) = Some y"
  obtain s1 new r where c: "connect_to_host (watched ctx) host (s, cs) = ((s1, cs @ new), r)" "list_all (contact_of host) new" "new \<noteq> []"
    by (rule connect_contacts)
  have "f r (s1, cs @ new) = Some y" using y c by (simp add: ask_then_def)
  then obtain s2 new2 x where "y = ((s2, (cs @ new) @ new2), x)" "list_all ok new2" by (rule insideE [OF assms(2)])
  moreover have "list_all ok new" using c(2) assms(1) by (rule list.pred_mono_strong)
  ultimately show "\<exists>s' new x. y = ((s', cs @ new), x) \<and> list_all ok new \<and> (new = [] \<longrightarrow> s' = s)" using c(3) by auto
qed

lemma starts_on_host [contact_intros]:
  assumes "hosts_ok ctx ok h" and "inside_op ok f"
  shows "starts_op ok (on_host (watched ctx) h f)"
proof (cases "resolve_host_config ctx h")
  case (Inl e)
  then show ?thesis by (simp add: on_host_def starts_fail)
next
  case (Inr host)
  have "starts ok (ask_then (connect_to_host (watched ctx) host) (\<lambda>r. case r of Inl e \<Rightarrow> (\<lambda>s. Some (tool_fail e s)) | Inr _ \<Rightarrow> (\<lambda>s. Some (f s))))"
    using assms Inr by (intro starts_connect) (auto simp: hosts_ok_def intro: inside_fail split: sum.split)
  moreover have "ask_then (connect_to_host (watched ctx) host) (\<lambda>r. case r of Inl e \<Rightarrow> (\<lambda>s. Some (tool_fail e s)) | Inr _ \<Rightarrow> (\<lambda>s. Some (f s)))
      = (\<lambda>s. Some (on_host (watched ctx) h f s))"
    by (auto simp: ask_then_def on_host_def tool_try_def Inr fun_eq_iff split: prod.split sum.split)
  ultimately show ?thesis by simp
qed

lemma starts_pane_request [contact_intros]:
  assumes "hosts_ok ctx ok h" and "\<And>pid r. inside_op ok (f pid r)"
  shows "starts_op ok (pane_request (watched ctx) h args ty ex f)"
  unfolding pane_request_def on_pane_def watched_simps
  by (intro starts_on_host assms(1) inside_try inside_resolve_pane) (auto intro!: inside_exchange assms(2))

lemma starts_host_request [contact_intros]:
  "hosts_ok ctx ok h \<Longrightarrow> (\<And>r. inside_op ok (f r)) \<Longrightarrow> starts_op ok (host_request (watched ctx) h q f)"
  unfolding host_request_def by (intro contact_intros)

lemma starts_pane_tool [contact_intros]: "hosts_ok ctx ok h \<Longrightarrow> starts_op ok (pane_tool (watched ctx) h args ty ex a d sc)"
  unfolding pane_tool_def by (intro contact_intros)

lemma starts_host_tool [contact_intros]: "hosts_ok ctx ok h \<Longrightarrow> starts_op ok (host_tool (watched ctx) h sn pid q a d sc)"
  unfolding host_tool_def by (intro contact_intros)

lemma starts_window_tool [contact_intros]: "hosts_ok ctx ok h \<Longrightarrow> starts_op ok (window_tool (watched ctx) h args ty i ex a d)"
  unfolding window_tool_def by (intro contact_intros)

lemma starts_session_tool [contact_intros]: "hosts_ok ctx ok h \<Longrightarrow> starts_op ok (session_tool (watched ctx) h args q a)"
  unfolding session_tool_def by (intro contact_intros)

lemmas tool_defs =
  session_create_def session_list_def session_attach_def send_keys_def capture_pane_def wait_for_text_def wait_exit_def shell_command_def
  respawn_pane_def split_window_def close_pane_def split_pane_def resize_pane_def send_text_def
  set_pane_title_def find_pane_text_def close_window_def kill_session_def rename_window_def list_window_panes_def resize_window_def
  select_window_def select_layout_def pane_info_tool_def window_info_tool_def pane_exists_def find_panes_def find_sessions_def get_pane_title_def
  find_text_all_def clear_history_def list_buffers_def paste_buffer_def delete_buffer_def split_pane_with_def get_pane_by_title_def
  collect_until_exit_def break_pane_def join_pane_def swap_pane_def host_capabilities_def capture_region_def wait_for_bytes_def wait_stable_def

lemma starts_broadcast:
  "(\<And>h. jget_str args ''host'' = Some h \<Longrightarrow> hosts_ok ctx ok h) \<Longrightarrow> starts_op ok (broadcast_keys (watched ctx) args)"
  unfolding broadcast_keys_def Let_def by (intro contact_intros) (auto intro: contact_intros split: prod.split)

lemma starts_cmd_escape:
  "(\<And>h. jget_str args ''host'' = Some h \<Longrightarrow> hosts_ok ctx ok h) \<Longrightarrow> starts_op ok (cmd_escape debug (watched ctx) args)"
  unfolding cmd_escape_def Let_def by (intro contact_intros)

lemma starts_tools:
  assumes "\<And>h. jget_str args ''host'' = Some h \<Longrightarrow> hosts_ok ctx ok h"
  shows "list_all (\<lambda>(n, f). starts_op ok (f (watched ctx) args)) (tools debug)"
  unfolding tools_def list.pred_inject prod.case
  by (intro conjI TrueI starts_broadcast starts_cmd_escape assms) (simp_all only: tool_defs Let_def list.pred_inject, (intro contact_intros assms, assumption+)+)

lemma starts_run_then:
  assumes "starts ok F" and "\<And>r. starts ok (f r)"
  shows "starts ok (run_then F f)"
  unfolding starts_def
proof (intro allI impI)
  fix s cs y assume y: "run_then F f (s, cs) = Some y"
  then obtain z where F: "F (s, cs) = Some z" by (auto simp: run_then_def bind_eq_Some_conv)
  then obtain s1 new1 r where z: "z = ((s1, cs @ new1), r)" "list_all ok new1" "new1 = [] \<longrightarrow> s1 = s"
    using assms(1) unfolding starts_def by blast
  then have "f r (s1, cs @ new1) = Some y" using y F by (simp add: run_then_def)
  then obtain s2 new2 x where "y = ((s2, (cs @ new1) @ new2), x)" "list_all ok new2" "new2 = [] \<longrightarrow> s2 = s1"
    using assms(2) unfolding starts_def by blast
  with z show "\<exists>s' new x. y = ((s', cs @ new), x) \<and> list_all ok new \<and> (new = [] \<longrightarrow> s' = s)" by auto
qed

lemma starts_task_connect:
  assumes "hosts_ok ctx ok h" and "\<And>host. inside ok (f host)"
  shows "starts ok (task_connect (watched ctx) h fl f)"
  unfolding task_connect_def watched_simps
proof (rule starts_run_then)
  show "starts ok (case resolve_host_config ctx h of Inl _ \<Rightarrow> finish (\<lambda>_. fl ''host not found in registry'')
     | Inr host \<Rightarrow> ask_then (connect_to_host (watched ctx) host) (\<lambda>r. case r of Inl e \<Rightarrow> finish (\<lambda>_. fl (''connect: '' @ e)) | Inr _ \<Rightarrow> f host))"
    using assms by (auto simp: hosts_ok_def intro!: starts_finish starts_connect inside_finish split: sum.split)
qed (rule starts_finish)

lemma starts_keys_task: "hosts_ok ctx ok h \<Longrightarrow> starts ok (batch_send_keys_task (watched ctx) sn pid keys h)"
  unfolding batch_send_keys_task_def watched_simps
  by (rule starts_task_connect) (auto intro!: contact_intros split: sum.split)

lemma starts_exec_task: "hosts_ok ctx ok h \<Longrightarrow> starts ok (batch_exec_task (watched ctx) marker cmd tmo ml h)"
  unfolding batch_exec_task_def create_session_inner_def watched_simps
  by (rule starts_task_connect) (auto intro!: contact_intros split: sum.split)

lemma starts_tasks: "(\<And>i. i \<in> set order \<Longrightarrow> starts ok (task i)) \<Longrightarrow> starts ok (run_tasks order task res)"
proof (induction order arbitrary: res)
  case Nil
  then show ?case by (simp add: starts_def)
next
  case (Cons i order)
  have "run_tasks (i # order) task res = run_then (task i) (\<lambda>r. run_tasks order task (res(i := Some r)))" by (simp add: run_then_def fun_eq_iff)
  moreover have "starts ok (run_then (task i) (\<lambda>r. run_tasks order task (res(i := Some r))))" using Cons by (intro starts_run_then) auto
  ultimately show ?case by simp
qed

lemma starts_map: "starts ok F \<Longrightarrow> (\<And>s z. fst (g s z) = fst z) \<Longrightarrow> starts ok (\<lambda>s. map_option (g s) (F s))"
  unfolding starts_def by (auto simp: map_option_case split: option.split_asm) (metis eq_fst_iff fst_conv)+

lemma starts_run_batch:
  "(\<And>i. i < length hosts \<Longrightarrow> starts ok (task i)) \<Longrightarrow> starts ok (run_batch (watched ctx) order hosts task f)"
  unfolding run_batch_def [abs_def] by (rule starts_map) (auto intro!: starts_tasks split: prod.split)

lemma starts_hosts_arg:
  assumes "\<And>hosts. jget_strs args ''hosts'' = Some hosts \<Longrightarrow> starts ok (f hosts)"
  shows "starts ok (hosts_arg args f)"
  using assms by (auto simp: hosts_arg_def jget_strs_def Let_def starts_def tool_fail_def tool_done_def split: option.split)

lemma starts_batch_need: "(\<And>x. starts ok (f x)) \<Longrightarrow> starts ok (batch_need v k f)"
  by (auto simp: batch_need_def starts_def tool_fail_def split: option.split)

lemma starts_batches:
  assumes "\<And>hosts h. jget_strs args ''hosts'' = Some hosts \<Longrightarrow> h \<in> set hosts \<Longrightarrow> hosts_ok ctx ok h"
  shows "starts ok (batch_exec dbg (watched ctx) marker order args)" and "starts ok (batch_send_keys dbg (watched ctx) order args)"
  unfolding batch_exec_def batch_send_keys_def
  by (intro starts_hosts_arg starts_batch_need starts_run_batch starts_exec_task starts_keys_task; use assms in auto)+

lemma inside_exec_on_pane:
  "(\<And>c. contact_of host c \<Longrightarrow> ok c) \<Longrightarrow> inside ok (exec_on_pane (watched ctx) delay marker host sn pid cmd tmo ml clear)"
  unfolding exec_on_pane_def Let_def watched_simps by (auto intro!: contact_intros split: send_outcome.split)

lemma starts_exec:
  assumes "\<And>h. jget_str args ''host'' = Some h \<Longrightarrow> hosts_ok ctx ok h"
  shows "starts ok (exec (watched ctx) delay marker args)"
proof (cases "jget_str args ''host''")
  case None
  then show ?thesis by (simp add: exec_def [abs_def] starts_fail)
next
  case (Some h)
  show ?thesis
  proof (cases "resolve_host_config ctx h")
    case (Inl e)
    then show ?thesis using Some by (cases "jget_str args ''command''") (auto simp: exec_def [abs_def] intro: starts_fail)
  next
    case (Inr host)
    have c: "contact_of host x \<Longrightarrow> ok x" for x using assms Some Inr by (auto simp: hosts_ok_def)
    define G where "G = (\<lambda>cmd (r :: string + unit). case r of
        Inl e \<Rightarrow> (\<lambda>s. Some (tool_fail e s))
      | Inr _ \<Rightarrow> ask_then (resolve_pane_id (watch (tc_link ctx)) (session_arg args) (jget_str args ''pane_id'')) (\<lambda>r. case r of
          Inl e \<Rightarrow> (\<lambda>s. Some (tool_fail e s))
        | Inr (pid, auto) \<Rightarrow> run_then (exec_on_pane (watched ctx) delay marker host (session_arg args) pid cmd
              (nat_or DEFAULT_EXEC_TIMEOUT_MS (jget_u64 args ''timeout_ms'')) (nat_or 200 (jget_u64 args ''max_lines''))
              (bool_or False (jget_bool args ''clear_screen'')))
            (\<lambda>r. finish (\<lambda>_. (Some (Inr (exec_response r pid auto)), [exec_event (watched ctx) h (session_arg args) pid cmd r])))))"
    have "inside ok (G cmd (r :: string + unit))" for cmd r
      unfolding G_def by (cases r) (auto intro!: contact_intros inside_exec_on_pane c split: sum.split)
    then have "starts ok (ask_then (connect_to_host (watched ctx) host) (G cmd))" for cmd by (intro starts_connect c)
    moreover have "exec (watched ctx) delay marker args = ask_then (connect_to_host (watched ctx) host) (G cmd)" if "jget_str args ''command'' = Some cmd" for cmd
      using Some Inr that
      by (auto simp: exec_def ask_then_def run_then_def finish_def G_def fun_eq_iff map_option_case split: prod.split sum.split option.split)
    ultimately show ?thesis using Some Inr
      by (cases "jget_str args ''command''") (auto simp: exec_def [abs_def] intro: starts_fail)
  qed
qed

section \<open>Calls\<close>

definition bridge_tools :: "string list" where
  "bridge_tools = map fst (tools (\<lambda>_. []) :: (string \<times> (unit tool_ctx \<Rightarrow> json \<Rightarrow> unit tool)) list) @ [''exec'', ''batch_exec'', ''batch_send_keys'']"

lemma bridge_tools_names: "bridge_tools = map fst (tools debug) @ [''exec'', ''batch_exec'', ''batch_send_keys'']"
  by (simp add: bridge_tools_def tools_def)

lemma dispatch_starts:
  fixes ctx :: "'s tool_ctx"
  assumes "t \<in> set bridge_tools" and "\<And>h. jget_str args ''host'' = Some h \<Longrightarrow> hosts_ok ctx ok h"
    and "\<And>hosts h. jget_strs args ''hosts'' = Some hosts \<Longrightarrow> h \<in> set hosts \<Longrightarrow> hosts_ok ctx ok h"
  shows "\<exists>run. dispatch_tool re (watched ctx) t args = Some run \<and> starts ok run"
proof (cases "map_of (tools (re_debug re) :: (string \<times> (('s \<times> contact list) tool_ctx \<Rightarrow> json \<Rightarrow> ('s \<times> contact list) tool)) list) t")
  case (Some f)
  then have "(t, f) \<in> set (tools (re_debug re))" by (rule map_of_SomeD)
  moreover have "list_all (\<lambda>(n, f). starts_op ok (f (watched ctx) args)) (tools (re_debug re))" by (rule starts_tools) (rule assms(2))
  ultimately have "starts_op ok (f (watched ctx) args)" unfolding list_all_iff by blast
  then show ?thesis using Some by (simp add: dispatch_tool_def comp_def)
next
  case None
  let ?T = "tools (re_debug re) :: (string \<times> (('s \<times> contact list) tool_ctx \<Rightarrow> json \<Rightarrow> ('s \<times> contact list) tool)) list"
  have "t \<in> set (map fst ?T @ [''exec'', ''batch_exec'', ''batch_send_keys''])" using assms(1) by (subst (asm) bridge_tools_names)
  moreover have "t \<notin> set (map fst ?T)" using None by (simp add: map_of_eq_None_iff)
  ultimately have "t = ''exec'' \<or> t = ''batch_exec'' \<or> t = ''batch_send_keys''" by simp
  then show ?thesis using None starts_exec [OF assms(2)] starts_batches [OF assms(3)] by (auto simp: dispatch_tool_def)
qed

lemma normalize_keeps:
  "jget_str (normalize_payload_args t args) ''host'' = jget_str args ''host''" "jget_strs (normalize_payload_args t args) ''hosts'' = jget_strs args ''hosts''"
  by (auto simp: normalize_payload_args_def jget_str_def jget_strs_def Let_def jget_jset_other split: option.split)

lemma bridge_tools_have_capability: "list_all (\<lambda>t. capability_for_tool t \<noteq> None) bridge_tools"
  by code_simp

definition named_host :: "'s tool_ctx \<Rightarrow> json \<Rightarrow> contact \<Rightarrow> string \<Rightarrow> bool" where
  "named_host ctx args c h \<longleftrightarrow> h \<in> set (resource_names args) \<and> (\<exists>host. resolve_host_config ctx h = Inr host \<and> contact_of host c)"

text \<open>
  C5. A call of an authenticated caller reaches only hosts the caller may use it on. For every tool of the
  table that reaches bridges, when no host has an empty name and whatever is at the other end: either the
  call asks for no connection and nothing outside of the server changes, or the gate has let the call
  pass with exactly the arguments the tool then gets, and one capability of the tool is granted to the
  caller on every host that a connection was asked for, also when a lost connection was made again; and
  all these hosts are named in the arguments of the call. Callers without a principal, which the server
  accepts on its standard input and while it has no keys, hold no grants and are not covered.
\<close>

theorem calls_confined_to_granted_hosts:
  assumes "execute_tool genv chk metas policy (Some p) grp handler re (watched ctx) t args (s, []) = Some ((s', contacts), r, evs)"
    and "t \<in> set bridge_tools" and "tc_hosts ctx [] = None" and "[] \<notin> set (tc_enrolled ctx)"
  shows "contacts = [] \<and> s' = s
     \<or> (\<exists>base mode c ns. execute_gate genv chk (tc_hosts ctx) metas policy (Some p) grp t args = Some (Dispatched (normalize_payload_args t args), ns)
          \<and> capability_for_tool t = Some base \<and> (mode, c) \<in> set (candidates t base)
          \<and> (\<forall>x \<in> set contacts. \<exists>h. named_host ctx args x h \<and> pd_allowed (chk c (Some (host_resource_of (tc_hosts ctx) metas h)))))"
proof -
  obtain base where base: "capability_for_tool t = Some base" using assms(2) bridge_tools_have_capability by (auto simp: list_all_iff)
  show ?thesis
  proof (cases "\<exists>a ns. execute_gate genv chk (tc_hosts ctx) metas policy (Some p) grp t args = Some (Dispatched a, ns)")
    case False
    then show ?thesis using assms(1)
      by (auto simp: execute_tool_def tool_fail_def tool_done_def split: option.split_asm prod.split_asm gate_outcome.split_asm)
  next
    case True
    then obtain a ns where g: "execute_gate genv chk (tc_hosts ctx) metas policy (Some p) grp t args = Some (Dispatched a, ns)" by blast
    have a: "a = normalize_payload_args t args" using g by (rule execute_gate_Dispatched)
    obtain mode c where c: "(mode, c) \<in> set (candidates t base)" "covers_call chk c (resolve_call_host_resources (tc_hosts ctx) metas args)"
      using dispatch_covered [OF g base] by auto
    define ok where "ok = (\<lambda>x. \<exists>h. named_host ctx args x h)"
    have h: "hosts_ok ctx ok h" if "h \<in> set (resource_names args)" for h using that by (auto simp: hosts_ok_def ok_def named_host_def)
    have none: "resolve_host_config ctx [] = Inl e \<Longrightarrow> hosts_ok ctx ok []" for e by (simp add: hosts_ok_def)
    have "hosts_ok ctx ok h" if "jget_str a ''host'' = Some h" for h
    proof (cases "h = []")
      case True
      then show ?thesis using none assms(3,4) by (simp add: resolve_host_config_def)
    next
      case False
      then show ?thesis using that unfolding a normalize_keeps by (intro h) (simp add: resource_names_def set_insort_key)
    qed
    moreover have "hosts_ok ctx ok h" if "jget_strs a ''hosts'' = Some hosts" "h \<in> set hosts" for h hosts
      using that unfolding a normalize_keeps by (intro h) (auto simp: resource_names_def)
    ultimately obtain run where run: "dispatch_tool re (watched ctx) t a = Some run" "starts ok run" using dispatch_starts [OF assms(2)] by metis
    obtain evs' where "run (s, []) = Some ((s', contacts), r, evs')" using assms(1) g run(1) by (auto simp: execute_tool_def)
    then have "list_all ok contacts" "contacts = [] \<longrightarrow> s' = s" using run(2) unfolding starts_def by fastforce+
    moreover have "pd_allowed (chk c (Some (host_resource_of (tc_hosts ctx) metas h)))" if "named_host ctx args x h" for x h
      using that c(2) by (auto simp: named_host_def covers_call_def resolve_call_host_resources_def split: if_split_asm)
    ultimately have "\<forall>x \<in> set contacts. \<exists>h. named_host ctx args x h \<and> pd_allowed (chk c (Some (host_resource_of (tc_hosts ctx) metas h)))"
      unfolding list_all_iff ok_def by blast
    then show ?thesis using base c(1) g [unfolded a] by blast
  qed
qed

text \<open>A server whose bridges take a connection and then answer nothing.\<close>

definition mute_ctx :: "unit tool_ctx" where
  "mute_ctx = \<lparr>tc_hosts = router0, tc_enrolled = [],
     tc_link = \<lparr>lk_registry = \<lambda>_ s. (s, True), lk_direct = \<lambda>_ _ s. (s, Inl ''refused''), lk_ask = \<lambda>_ s. (s, Inl ''lost''),
       lk_now = \<lambda>_. 0, lk_pause = \<lambda>_ s. s, lk_to_json = \<lambda>_. []\<rparr>,
     tc_agent = ''a'', tc_op = None, tc_event_id = ''e'', tc_time = ''t''\<rparr>"

definition mute_env :: "(unit \<times> contact list) run_env" where
  "mute_env = \<lparr>re_debug = \<lambda>_. [], re_debug_names = \<lambda>_. [], re_delay = \<lambda>_ _. 0, re_marker = \<lambda>_. ''abc'', re_order = [1, 0]\<rparr>"

lemma mute_task:
  assumes "router0 h = Some host" and "hc_name host = h"
  shows "batch_exec_task (watched mute_ctx) m cmd tmo ml h ((), cs) = Some (((), cs @ [Registry h]), h, exec_task_failure ''session_create: lost'')"
  using assms
  by (simp add: batch_exec_task_def task_connect_def resolve_host_config_def connect_to_host_def create_session_inner_def run_then_def ask_then_def
      finish_def mute_ctx_def watch_def)

lemma mute_batch:
  "\<exists>r evs. batch_exec (\<lambda>_. []) (watched mute_ctx) (\<lambda>_. ''abc'') [1, 0] log_args ((), []) = Some (((), [Registry ''b'', Registry ''a'']), r, evs)"
proof -
  have "router0 ''a'' = Some (config0 ''a'' ''dev'')" "router0 ''b'' = Some (config0 ''b'' ''prod'')" by (simp_all add: router0_def)
  then have "batch_exec_task (watched mute_ctx) m cmd tmo ml ''a'' ((), cs) = Some (((), cs @ [Registry ''a'']), ''a'', exec_task_failure ''session_create: lost'')"
    "batch_exec_task (watched mute_ctx) m cmd tmo ml ''b'' ((), cs) = Some (((), cs @ [Registry ''b'']), ''b'', exec_task_failure ''session_create: lost'')" for m cmd tmo ml cs
    by (auto intro: mute_task simp: config0_def)
  then show ?thesis
    by (simp add: batch_exec_def hosts_arg_def batch_need_def run_batch_def log_args_def jget_str_def map_filter_simps Let_def split: prod.split)
qed

theorem calls_confined_to_granted_hosts_witness:
  "\<exists>s' contacts r evs. execute_tool Tool_Gate.env0 chk0 [] Strict (Some ''alice'') None (\<lambda>_ _ _. None) mute_env (watched mute_ctx) ''batch_exec'' log_args ((), [])
       = Some ((s', contacts), r, evs) \<and> contacts = [Registry ''b'', Registry ''a'']
     \<and> (\<forall>x \<in> set contacts. \<exists>h. named_host mute_ctx log_args x h)"
proof -
  obtain r evs where b: "batch_exec (\<lambda>_. []) (watched mute_ctx) (\<lambda>_. ''abc'') [1, 0] log_args ((), []) = Some (((), [Registry ''b'', Registry ''a'']), r, evs)"
    using mute_batch by blast
  have d: "dispatch_tool mute_env (watched mute_ctx) ''batch_exec'' log_args = Some (batch_exec (\<lambda>_. []) (watched mute_ctx) (\<lambda>_. ''abc'') [1, 0] log_args)"
    by (simp add: dispatch_tool_def tools_def mute_env_def)
  have hosts: "tc_hosts mute_ctx = router0" by (simp add: mute_ctx_def)
  have e: "execute_tool Tool_Gate.env0 chk0 [] Strict (Some ''alice'') None (\<lambda>_ _ _. None) mute_env (watched mute_ctx) ''batch_exec'' log_args ((), [])
      = Some (((), [Registry ''b'', Registry ''a'']), r, evs)"
    using b by (simp add: execute_tool_def hosts log_dispatched d)
  have t: "''batch_exec'' \<in> set bridge_tools" by (simp add: bridge_tools_def)
  have n: "tc_hosts mute_ctx [] = None" "[] \<notin> set (tc_enrolled mute_ctx)" by (simp_all add: mute_ctx_def router0_def)
  from calls_confined_to_granted_hosts [OF e t n] e show ?thesis by blast
qed

section \<open>The log of a tool\<close>

text \<open>A tool that logs exactly one event, with its host, when it gives an answer.\<close>

definition logs_once :: "'s tool_ctx \<Rightarrow> (string \<Rightarrow> bool) \<Rightarrow> 's tool \<Rightarrow> bool" where
  "logs_once ctx hst f \<longleftrightarrow> (\<forall>s. case f s of
     (_, Some (Inr _), evs) \<Rightarrow> \<exists>ev. evs = [ev] \<and> hst (e_host_name ev) \<and> e_agent_name ev = tc_agent ctx \<and> e_operation_id ev = tc_op ctx
   | _ \<Rightarrow> True)"

named_theorems log_intros

lemma logs_fail [log_intros]: "logs_once ctx hst (tool_fail e)"
  by (simp add: logs_once_def tool_fail_def)

lemma logs_done [log_intros]: "hst h \<Longrightarrow> logs_once ctx hst (tool_done r [audit_flagged ctx a h sn pid d red out ok dur err])"
  by (simp add: logs_once_def tool_done_def audit_flagged_def)

lemma logs_done_plain [log_intros]: "hst h \<Longrightarrow> logs_once ctx hst (tool_done r [audit ctx a h sn pid d out ok dur err])"
  unfolding audit_def by (rule logs_done)

lemma logs_input [log_intros]: "hst h \<Longrightarrow> logs_once ctx hst (input_done ctx a h sn pid t sens r)"
  by (auto simp: logs_once_def input_done_def tool_done_def audit_flagged_def split: prod.split option.split)

lemma logs_need [log_intros]: "(\<And>x. v = Some x \<Longrightarrow> logs_once ctx hst (f x)) \<Longrightarrow> logs_once ctx hst (need v k f)"
  by (auto simp: need_def intro: logs_fail split: option.split)

lemma logs_u16 [log_intros]: "(\<And>x. logs_once ctx hst (f x)) \<Longrightarrow> logs_once ctx hst (u16_arg args k f)"
  by (auto simp: u16_arg_def intro: logs_fail split: option.split)

lemma logs_try [log_intros]:
  assumes "\<And>x. logs_once ctx hst (f x)"
  shows "logs_once ctx hst (tool_try op f)"
  unfolding logs_once_def
proof
  fix s
  obtain s' r where "op s = (s', r)" by fastforce
  then show "case tool_try op f s of (_, Some (Inr _), evs) \<Rightarrow> \<exists>ev. evs = [ev] \<and> hst (e_host_name ev) \<and> e_agent_name ev = tc_agent ctx \<and> e_operation_id ev = tc_op ctx
      | _ \<Rightarrow> True"
    using assms by (cases r) (simp_all add: tool_try_def logs_once_def tool_fail_def)
qed

lemma logs_exchange [log_intros]: "(\<And>r. logs_once ctx hst (f r)) \<Longrightarrow> logs_once ctx hst (exchange ctx q f)"
  unfolding exchange_def by (rule logs_try)

lemma logs_on_host [log_intros]: "logs_once ctx hst f \<Longrightarrow> logs_once ctx hst (on_host ctx h f)"
  by (auto simp: on_host_def intro!: log_intros split: sum.split)

lemma logs_requests [log_intros]:
  "(\<And>pid r. logs_once ctx hst (g pid r)) \<Longrightarrow> logs_once ctx hst (pane_request ctx h args ty ex g)"
  "(\<And>r. logs_once ctx hst (f r)) \<Longrightarrow> logs_once ctx hst (host_request ctx h q f)"
  unfolding pane_request_def host_request_def on_pane_def by (intro log_intros; auto intro: log_intros)+

lemma logs_frames [log_intros]:
  "hst h \<Longrightarrow> logs_once ctx hst (pane_tool ctx h args ty ex a d sc)" "hst h \<Longrightarrow> logs_once ctx hst (host_tool ctx h sn pid q a det sc)"
  "hst h \<Longrightarrow> logs_once ctx hst (window_tool ctx h args ty i ex a b)" "hst h \<Longrightarrow> logs_once ctx hst (session_tool ctx h args q a)"
  unfolding pane_tool_def host_tool_def window_tool_def session_tool_def by (intro log_intros; assumption)+

lemma logs_broadcast: "logs_once ctx (\<lambda>h. jget_str args ''host'' = Some h) (broadcast_keys ctx args)"
  unfolding broadcast_keys_def Let_def by (intro log_intros) (auto intro: log_intros split: prod.split)

lemma logs_cmd_escape: "logs_once ctx (\<lambda>h. jget_str args ''host'' = Some h) (cmd_escape debug ctx args)"
  unfolding cmd_escape_def Let_def by (intro log_intros)

text \<open>
  C25. The log of the tools: whenever one of the tools that make one request gives an answer, also one in
  which the bridge reports a failure, it has logged exactly one event, with the host of its arguments, the
  name of the caller and the operation it belongs to. Nothing is claimed of calls that end with an error.
\<close>

theorem tools_log_once: "list_all (\<lambda>(n, f). logs_once ctx (\<lambda>h. jget_str args ''host'' = Some h) (f ctx args)) (tools debug)"
  unfolding tools_def list.pred_inject prod.case
  by (intro conjI TrueI logs_broadcast logs_cmd_escape) (simp_all only: tool_defs Let_def list.pred_inject, (intro log_intros, assumption+)+)

end
