(* ===== verification/Spec2Isabelle.thy ===== *)
theory Spec2Isabelle
  imports Audit_Chain Stream_Filters Rate_Limiter Recording_Replay Quic_Entry Exec_Proofs Input_Redaction Tool_Calls
begin

text \<open>
  \<^bold>\<open>What the program is.\<close> The repository is a remote terminal service for automated callers. A central
  server (\<open>crates/clum-mcp\<close>) takes tool calls, decides whether each of them may run and forwards it
  to a bridge process (\<open>crates/rmux-bridge\<close>) on the target host; a command line client
  (\<open>crates/clum-cli\<close>) attaches to panes through the same bridges; \<open>crates/clum-core\<close> holds what they
  share (framing, recording encryption, rate limiting) and \<open>crates/clum-command-kb\<close> the engine that
  judges shell commands. All paths below are relative to \<open>src/crates\<close>.

  \<^bold>\<open>How a call travels.\<close> \<open>execute_tool\<close> resolves the hosts a call names, asks the policy store whether
  the caller's roles cover the tool on all of them, decodes the payload, has the engine judge every
  command for every host group, applies read-only mode, approval and the command policy, writes an
  audit record and dispatches. The engine normalises the line into segments, tries the user rules
  and the knowledge base on each and keeps the strictest verdict. Audit records form a hash chain
  that a verifier checks and a cleanup shortens. Callers are authenticated by API keys with a cache
  in front of their table at two entrances (HTTPS for tools and downloads, QUIC for relays of the
  command line client), bridges by tokens that a background task rotates. Dispatched calls and
  attached clients speak framed messages to the bridge; what a pane prints goes through filters to
  the client and, encrypted, into recordings, which the server pulls or bridges push; file transfers
  are throttled.

  \<^bold>\<open>Theories and sources.\<close>
  \<^item> \<open>Prelude\<close>: bytes, strings and the string functions of the standard library the sources use, times
    as stored in tables.
  \<^item> \<open>Command_Effect\<close>, \<open>Normalize\<close>, \<open>Command_Rules\<close>, \<open>Knowledge_Base\<close>, \<open>Evaluate\<close>: the files
    \<open>effect.rs\<close>, \<open>normalize.rs\<close>, \<open>rules.rs\<close>, \<open>kb.rs\<close>, \<open>evaluate.rs\<close> of \<open>clum-command-kb/src\<close>. A line is a
    byte string, slicing off a character boundary is the panic value \<open>None\<close>. The locale \<open>strictest\<close>
    is the contract of the scans that keep the first strictest verdict.
  \<^item> \<open>Capability\<close>, \<open>Policy\<close>: \<open>clum-mcp/src/capability.rs\<close> and \<open>policy.rs\<close>. The database is a record of
    its tables, every SQL statement a function on it, a transaction the function that keeps the
    old tables when it fails; the in-memory snapshot is loaded from it.
  \<^item> \<open>Json\<close>, \<open>Tool_Gate\<close>: JSON values and everything \<open>execute_tool\<close> (\<open>clum-mcp/src/tools/mod.rs\<close>,
    \<open>tools/rules.rs\<close>) does before it dispatches.
  \<^item> \<open>Codec\<close>, \<open>Audit_Chain\<close>: byte encodings (locale \<open>codec\<close>) and \<open>clum-mcp/src/audit/\<close>.
  \<^item> \<open>Stream_Filters\<close>: \<open>clum-cli/src/tui/kitty_filter.rs\<close> and \<open>alt_guard.rs\<close>, both interpretations of
    the locale \<open>byte_filter\<close>.
  \<^item> \<open>Utf8\<close>, \<open>Wire_Protocol\<close>: UTF-8 decoding and the assembler of raw pane input; frames, the token
    handshake and the attach protocol (\<open>clum-core/src/json_frame.rs\<close>, \<open>quic.rs\<close>,
    \<open>clum-cli/src/protocol.rs\<close>, \<open>rmux-bridge/src/auth.rs\<close>, \<open>interactive.rs\<close>).
  \<^item> \<open>Recording_Crypto\<close>: \<open>clum-core/src/crypto.rs\<close>.
  \<^item> \<open>Api_Keys\<close>: \<open>clum-mcp/src/api_keys.rs\<close>, with a step relation in which the database read and the
    cache write of a request are separate steps.
  \<^item> \<open>Bridge_Store\<close>: \<open>clum-mcp/src/bridge_store.rs\<close> and \<open>token_rotation.rs\<close>.
  \<^item> \<open>Rate_Limiter\<close>: \<open>clum-core/src/rate_limiter.rs\<close> and \<open>backoff.rs\<close>.
  \<^item> \<open>Cast_Recorder\<close>, \<open>Recording_Store\<close>: the session recorder and the directory of recordings of
    \<open>rmux-bridge/src/cast_recorder.rs\<close>, with the parts of \<open>interactive.rs\<close> that name and feed a recording.
  \<^item> \<open>Replay\<close>: \<open>clum-cli/src/replay.rs\<close>; \<open>Recording_Replay\<close> composes recorder, encryption and player.
  \<^item> \<open>File_Upload\<close>, \<open>File_Download\<close>: \<open>rmux-bridge/src/files.rs\<close> against \<open>clum-mcp/src/files.rs\<close> and
    \<open>clum-cli/src/transfer.rs\<close>. The file system an upload changes is a list of entries by path, with the
    system calls that may fail, lookups included, as a parameter; the tree a download reads is a datatype with
    links, pipes, devices and entries that cannot be read.
  \<^item> \<open>Recording_Sync\<close>: \<open>clum-mcp/src/recording_sync.rs\<close> against the commands of \<open>rmux-bridge/src/proxy.rs\<close>.
    What the server relies on is the locale \<open>recording_bridge\<close>, interpreted on the bridge's recording
    directory and file download. The server's disk is a record: which file a path denotes is a parameter, as
    are the writes that fail and what they leave.
  \<^item> \<open>Http_Entry\<close>, \<open>Quic_Entry\<close>: \<open>clum-mcp/src/http_server.rs\<close>, \<open>quic_server.rs\<close> and \<open>registry.rs\<close>. The
    contract of both entrances is the locale \<open>entrance\<close>; the registry of bridges with its tasks is a
    step relation.
  \<^item> \<open>Error_Code\<close>: \<open>clum-core/src/error_code.rs\<close>, \<open>clum-mcp/src/error.rs\<close> and the answer to a call in
    \<open>handler.rs\<close>.
  \<^item> \<open>Terminal_State\<close>, \<open>Multiplexer\<close>, \<open>Bridge_Protocol\<close>: \<open>rmux-bridge/src/terminal_state.rs\<close>, the operations
    of the terminal multiplexer, and the requests a bridge answers (\<open>protocol/\<close>, \<open>proxy.rs\<close>,
    \<open>bridge_audit.rs\<close>), one definition per handler, composed by the combinators of \<open>Multiplexer\<close>.
  \<^item> \<open>Tool_Link\<close>, \<open>Exec_Tool\<close>, \<open>Tool_Handlers\<close>, \<open>Tool_Calls\<close>: what the tools share (\<open>tools/common.rs\<close>,
    \<open>deploy.rs\<close>, \<open>transport.rs\<close>), \<open>tools/exec.rs\<close>, the tools with one request and the batches
    (\<open>tools/pane.rs\<close>, \<open>window.rs\<close>, \<open>session.rs\<close>, \<open>output.rs\<close>, \<open>buffer.rs\<close>, \<open>discovery.rs\<close>, \<open>batch.rs\<close>), and
    \<open>execute_tool\<close> as a whole. A connection is the record \<open>link\<close>, whose requests end with an answer or a
    failure; \<open>bridge_link\<close> is the one to the bridge of this development. \<open>Exec_Proofs\<close> and \<open>Input_Redaction\<close> hold the proofs about them.

  \<^bold>\<open>What the theorems show.\<close> The gate: a dispatched call is authorized for every host it names, a
  denial for one host group blocks it whatever the other settings, every answer is audited. The
  engine: it is total and fails closed, its verdict is the maximum over the segments, allowed and
  read-only verdicts are sound, hazards in a segment with words are never allowed, and every
  byte of a line lies in a separator or a segment that is judged, segments without a word or program name
  apart.
  The policy store: decisions coincide with an abstract relation over the tables, changes take
  effect, the key constraints are an invariant of all operations, reloading fails closed. The
  audit log: on every table and whichever query fails, the verifier accepts exactly the reads whose hashed
  rows recompute and link, appending and cleanup keep what it accepts, and the head of a table
  with hashes in every row commits to its history. Keys and tokens: how long a revoked key may still be
  accepted, that both token checks agree, that rotation locks no bridge out unless a table
  update fails. Streams: filters,
  assembler and protocols are proved against reference definitions on the whole stream, however it
  is cut into chunks. Recordings: round trip and distinct nonces. Transfers: the rate is enforced
  on requests that do not overlap, and every request completes.
  The recorder: encryption is transparent, gaps are marked, what a pane printed is what a replay
  shows; the player's screen is always the one of its position; clean-up removes exactly what the
  limits ask for.
  File transfer: uploads are atomic and reach their target, directories whose files can be
  read arrive complete without what is behind links, and a bridge cannot make a client write outside of the local path.
  The entrances: a tool call or a relay runs only for the owner of a valid key whom the tables grant
  it, or from the machine itself while the key table is empty or cannot be read; tokens open the release directory only; the
  registry holds the live connection of each host. Recordings on the way to the server: a pass brings
  all of them home, marks only what is stored with the listed digest, and pushes stay in their place.
  Tools and bridges together: a call reaches only hosts its caller is granted, a command is typed once
  and only on a screen whose texts are those of a prompt, the run ends when its requests do and reports what
  stands between its markers, the record of a tool that types holds no password, every answer is logged once,
  and every failure of a known tool carries a code both sides agree on.
  Some theorems record behaviour that differs from what a comment or a document says: control
  characters after a backslash, options of wrapper commands, a failed bind, the order of hosts, the
  double escape, unhashed audit rows, the truncated recording, the refill race, a key table that
  cannot be read, the purpose of a relay, dates with separators, approval of recording downloads,
  prompts in brackets, command lines that name a local command of the bridge, clearing the screen
  before the look at it, an editor taken for a prompt, input of failed batches, answers that are lost before
  they are logged, lookups that fail before a file is replaced, pipes in a directory, a read error that ends a
  verification.

  \<^bold>\<open>Parameters.\<close> Code that is not in the repository is an argument of the definitions that use it: the
  shell word splitter, regular expressions, TOML and JSON parsers, glob patterns, SHA-256, X25519,
  HKDF, AES-GCM, base64, random numbers, clocks, and the terminal multiplexer, a record of operations on a
  state of its own (\<open>rmux\<close>). Where a theorem needs a documented law of such
  code (decryption undoes encryption, hex reads back what it wrote) the law is a named predicate
  (\<open>rec_crypto_ok\<close>, \<open>crypto_ok\<close> and the like) and a witness instantiates it with concrete functions.

  \<^bold>\<open>Bounds.\<close> No definition uses fuel. Loops over input recurse on the rest of it (with a termination
  proof by the length where a step consumes several bytes), retry loops recurse on the list of what
  the environment delivers, such as clock readings, and their theorems say how many are enough. The
  waiting loops of \<open>exec\<close> are partial functions into \<open>option\<close>; that they return is a theorem. It rests on
  requests that end: a request to a bridge has no time limit of its own, and one that is neither answered nor
  fails suspends the call, which the model has no value for.
  Lengths, counters and chunk numbers wrap at the width the source gives them.

  \<^bold>\<open>Not modelled.\<close> What only moves bytes between sockets, PTYs, files and the terminal multiplexer: the
  relay tasks of \<open>rmux-bridge/src/interactive.rs\<close>, the frames of a pane subscription, QUIC and TLS set-up,
  port forwarding, the routing of the web framework, deployment over SSH, the terminal user interface,
  process start-up and argument parsing. Of the tools, those that list or search on the server itself
  (hosts, recordings, the audit log) and the wrappers around file transfers are an argument of
  \<open>execute_tool\<close>. The tasks of a batch run one after the other in any order; requests of different tasks
  are not interleaved. Opening database files and their schema migrations by \<open>ALTER TABLE\<close> are left to
  SQLite, as are listings whose only purpose is display. Logging is not modelled except for the audit log.
\<close>

end
